(* ===== verification/Lars_Prelude.thy ===== *)
theory Lars_Prelude
  imports Main "HOL-Library.Word" "HOL-Library.AList" "HOL-Library.Signed_Division"
begin

text \<open>
  Shared vocabulary of the development: machine integers, memory faults as values of a
  sum type, the packed 64-bit keys of Lars (module/command and ip/port), the list and
  association-list facts the components use, and the generic contract of a transition
  system with an invariant.

  A C++ function that can abort (a failed \<open>assert\<close>, \<open>exit(1)\<close>) or that has undefined
  behaviour for an argument (a null or dangling pointer, an index out of range, a read of an
  uninitialised field) returns a value of \<open>'a res\<close>: \<open>Inl\<close> names the fault and \<open>Inr\<close> carries
  the result. \<open>bindR\<close> sequences two such computations. \<open>Blocked\<close> is the outcome of a loop
  around a system call for which the given list of kernel answers ends too early.
\<close>

section \<open>Machine types and faults\<close>

type_synonym i32 = "32 word"
type_synonym u32 = "32 word"
type_synonym u64 = "64 word"
type_synonym byte = "8 word"
type_synonym bytes = "byte list"
type_synonym ptr = nat

text \<open>A finite \<open>float\<close>: the pair \<open>(m, k)\<close> has the value \<open>m / 2 ^ k\<close>.\<close>

type_synonym float32 = "int \<times> nat"

datatype fault =
    Assert_Failed
  | Exit_1
  | Null_Deref
  | Use_After_Free
  | Out_Of_Bounds
  | Empty_Container
  | Uninitialised
  | Signed_Overflow
  | Bad_Iterator
  | Blocked

type_synonym 'a res = "fault + 'a"

definition bindR :: "'a res \<Rightarrow> ('a \<Rightarrow> 'b res) \<Rightarrow> 'b res" where
  "bindR m f = (case m of Inl e \<Rightarrow> Inl e | Inr x \<Rightarrow> f x)"

definition ensure :: "bool \<Rightarrow> fault \<Rightarrow> unit res" where
  "ensure b e = (if b then Inr () else Inl e)"

text \<open>Dereferencing a pointer: \<open>None\<close> is the null pointer, a missing heap cell a freed one.\<close>

definition deref :: "(ptr \<Rightarrow> 'a option) \<Rightarrow> ptr \<Rightarrow> 'a res" where
  "deref h p = (case h p of None \<Rightarrow> Inl Use_After_Free | Some x \<Rightarrow> Inr x)"

definition deref_null :: "(ptr \<Rightarrow> 'a option) \<Rightarrow> ptr option \<Rightarrow> 'a res" where
  "deref_null h q = (case q of None \<Rightarrow> Inl Null_Deref | Some p \<Rightarrow> deref h p)"

text \<open>The sum of two \<open>int\<close> values, undefined when it leaves the 32-bit range.\<close>

definition add_i32 :: "int \<Rightarrow> int \<Rightarrow> int res" where
  "add_i32 a b = (if - (2 ^ 31) \<le> a + b \<and> a + b < 2 ^ 31 then Inr (a + b) else Inl Signed_Overflow)"

text \<open>
  \<open>((uint64_t)hi << 32) + lo\<close>, the key Lars uses for modid/cmdid and for ip/port. Both
  operands are \<open>int\<close>: the conversion of \<open>lo\<close> to \<open>uint64_t\<close> extends its sign. The two
  projections are the casts \<open>(int)(key >> 32)\<close> and \<open>(int)key\<close> that undo it.
\<close>

definition mk_key :: "i32 \<Rightarrow> i32 \<Rightarrow> u64" where
  "mk_key hi lo = push_bit 32 (scast hi) + scast lo"

definition key_hi :: "u64 \<Rightarrow> i32" where
  "key_hi k = ucast (drop_bit 32 k)"

definition key_lo :: "u64 \<Rightarrow> i32" where
  "key_lo k = ucast k"

section \<open>Fault propagation\<close>

named_theorems res_simps \<open>computation rules of the fault monad\<close>

lemma bindR_Inr [simp, res_simps]: "bindR (Inr x) f = f x"
  by (simp add: bindR_def)

lemma bindR_Inl [simp, res_simps]: "bindR (Inl e) f = Inl e"
  by (simp add: bindR_def)

lemma bindR_eq_Inr [res_simps]: "bindR m f = Inr y \<longleftrightarrow> (\<exists>x. m = Inr x \<and> f x = Inr y)"
  by (cases m) auto

lemma bindR_eq_Inl [res_simps]: "bindR m f = Inl e \<longleftrightarrow> m = Inl e \<or> (\<exists>x. m = Inr x \<and> f x = Inl e)"
  by (cases m) auto

lemma bindR_assoc: "bindR (bindR m f) g = bindR m (\<lambda>x. bindR (f x) g)"
  by (cases m) auto

lemma ensure_True [simp]: "ensure True e = Inr ()"
  by (simp add: ensure_def)

lemma ensure_False [simp]: "ensure False e = Inl e"
  by (simp add: ensure_def)

lemma ensure_eq_Inr [res_simps]: "ensure b e = Inr u \<longleftrightarrow> b"
  by (simp add: ensure_def)

lemma ensure_eq_Inl [res_simps]: "ensure b e = Inl e' \<longleftrightarrow> \<not> b \<and> e' = e"
  by (auto simp: ensure_def)

lemma deref_Some [simp]: "h p = Some x \<Longrightarrow> deref h p = Inr x"
  by (simp add: deref_def)

lemma deref_None [simp]: "h p = None \<Longrightarrow> deref h p = Inl Use_After_Free"
  by (simp add: deref_def)

lemma deref_eq_Inr [res_simps]: "deref h p = Inr x \<longleftrightarrow> h p = Some x"
  by (simp add: deref_def split: option.splits)

lemma deref_null_Some [simp]: "deref_null h (Some p) = deref h p"
  by (simp add: deref_null_def)

lemma deref_null_None [simp]: "deref_null h None = Inl Null_Deref"
  by (simp add: deref_null_def)

lemma deref_null_eq_Inr [res_simps]:
  "deref_null h q = Inr x \<longleftrightarrow> (\<exists>p. q = Some p \<and> h p = Some x)"
  by (auto simp: deref_null_def res_simps split: option.splits)

lemma add_i32_ok [simp]: "- (2 ^ 31) \<le> a + b \<Longrightarrow> a + b < 2 ^ 31 \<Longrightarrow> add_i32 a b = Inr (a + b)"
  by (simp add: add_i32_def)

lemma add_i32_eq_Inr [res_simps]:
  "add_i32 a b = Inr c \<longleftrightarrow> c = a + b \<and> - (2 ^ 31) \<le> a + b \<and> a + b < 2 ^ 31"
  by (auto simp: add_i32_def)

section \<open>Packed keys\<close>

lemma sint_mod_32: "sint (w::32 word) mod 2 ^ 32 = uint w"
  using uint_sint[of w]  by (simp add: take_bit_eq_mod)
lemma mk_key_of_int: "mk_key hi lo = word_of_int (sint hi * 2 ^ 32 + sint lo)"
  unfolding mk_key_def scast_eq push_bit_eq_mult by simp
lemma uint_mk_key: "uint (mk_key hi lo) = (uint hi * 2 ^ 32 + sint lo) mod 2 ^ 64"
proof -
  obtain k where "sint hi = uint hi + k * 2 ^ 32"
    using sint_mod_32 [of hi] by (metis div_mod_decomp_int add.commute)
  then have "sint hi * 2 ^ 32 + sint lo = uint hi * 2 ^ 32 + sint lo + k * 2 ^ 64"
    by (simp add: algebra_simps)
  then show ?thesis
    by (simp only: mk_key_of_int uint_word_of_int take_bit_eq_mod len_of_numeral_defs mod_mult_self1) simp
qed
lemma uint_key_lo: "uint (key_lo k) = uint k mod 2 ^ 32"
  by (simp add: key_lo_def unsigned_ucast_eq take_bit_eq_mod)
lemma uint_key_hi: "uint (key_hi k) = uint k div 2 ^ 32"
proof -
  have "uint k div 2 ^ 32 < 2 ^ 32" using uint_lt2p[of k] by simp
  moreover have "0 \<le> uint k div 2 ^ 32" by (rule div_int_pos_iff [THEN iffD2]) simp
  ultimately show ?thesis
    by (simp add: key_hi_def unsigned_ucast_eq take_bit_eq_mod drop_bit_eq_div uint_div_distrib)
qed

lemma key_lo_mk_key: "key_lo (mk_key hi lo) = lo"
proof -
  have "uint (key_lo (mk_key hi lo)) = (uint hi * 2 ^ 32 + sint lo) mod 2 ^ 64 mod 2 ^ 32"
    by (simp only: uint_key_lo uint_mk_key)
  also have "\<dots> = (uint hi * 2 ^ 32 + sint lo) mod 2 ^ 32"
    by (rule mod_mod_cancel) simp
  also have "\<dots> = uint lo"
    by (simp add: sint_mod_32 [symmetric])
  finally show ?thesis by (simp add: word_uint_eq_iff)
qed

lemma key_hi_mk_key: "key_hi (mk_key hi lo) = (if sint lo < 0 then hi - 1 else hi)"
proof (cases "sint lo < 0")
  case False
  have "sint lo < 2 ^ 32" using sint_lt[of lo] by simp
  moreover have "uint hi < 2 ^ 32" using uint_lt2p[of hi] by simp
  moreover have "0 \<le> uint hi" by simp
  ultimately have "uint hi * 2 ^ 32 + sint lo < 2^64" "0 \<le> uint hi * 2 ^ 32 + sint lo" using False
    by auto
  then have "uint (mk_key hi lo) = uint hi * 2 ^ 32 + sint lo" 
    by (simp add: uint_mk_key)
  then have "uint (key_hi (mk_key hi lo)) = uint hi" 
    using \<open>sint lo < 2 ^ 32\<close> False by (simp add: uint_key_hi)
  with False show ?thesis by (simp add: word_uint_eq_iff)
next
  case True
  have "- (2 ^ 31) \<le> sint lo" using sint_ge[of lo] by simp
  have b: "uint hi < 2 ^ 32" "0 \<le> uint hi" using uint_lt2p[of hi] by simp_all
  show ?thesis
  proof (cases "uint hi = 0")
    case t0: True
    have "sint lo mod 2 ^ 64 = (sint lo + 2 ^ 64) mod 2 ^ 64" by simp
    also have "\<dots> = 2 ^ 64 + sint lo" using True \<open>- (2 ^ 31) \<le> sint lo\<close> by (subst mod_pos_pos_trivial) auto
    finally have "uint (mk_key hi lo) = 2 ^ 64 + sint lo" using t0 by (simp add: uint_mk_key) 
    then have "uint (key_hi (mk_key hi lo)) = 2 ^ 32 - 1"
       using True \<open>- (2 ^ 31) \<le> sint lo\<close> by (simp add: uint_key_hi)
    then have "key_hi (mk_key hi lo) = - 1"
      by (simp add: word_uint_eq_iff unsigned_minus_1_eq_mask mask_eq_exp_minus_1)
    then show ?thesis using t0 True by (simp add: uint_0_iff)
  next
    case False
    with b have "1 \<le> uint hi" by linarith
    then have r: "uint hi * 2 ^ 32 + sint lo < 2^64" "0 \<le> uint hi * 2 ^ 32 + sint lo" using True b \<open>- (2 ^ 31) \<le> sint lo\<close>
      by auto
    then have "uint (mk_key hi lo) = uint hi * 2 ^ 32 + sint lo" 
      by (simp add: uint_mk_key)
    then have "uint (key_hi (mk_key hi lo)) = uint hi - 1" 
      using True b \<open>- (2 ^ 31) \<le> sint lo\<close> by (simp add: uint_key_hi) 
    moreover have "uint (hi - 1) = uint hi - 1"
      using \<open>1 \<le> uint hi\<close> by (simp add: uint_sub_lem [THEN iffD1])
    ultimately have "key_hi (mk_key hi lo) = hi - 1"
      by (simp add: word_uint_eq_iff)
    then show ?thesis using True by simp
  qed
qed
lemma mk_key_inject: "mk_key a b = mk_key c d \<Longrightarrow> a = c \<and> b = d"
proof -
  assume e: "mk_key a b = mk_key c d"
  have "key_lo (mk_key a b) = key_lo (mk_key c d)" by (simp only: e)
  then have bd: "b = d" by (simp only: key_lo_mk_key)
  have "key_hi (mk_key a b) = key_hi (mk_key c d)" by (simp only: e)
  then have "(if sint d < 0 then a - 1 else a) = (if sint d < 0 then c - 1 else c)"
    by (simp only: key_hi_mk_key bd)
  then have "a = c" by (cases "sint d < 0") simp_all
  with bd show "a = c \<and> b = d" by simp
qed
lemma mk_key_eq_iff [simp]: "mk_key a b = mk_key c d \<longleftrightarrow> a = c \<and> b = d"
  using mk_key_inject by blast

lemma unat_of_int_u64: "0 \<le> x \<Longrightarrow> x < 2 ^ 64 \<Longrightarrow> unat (word_of_int x :: u64) = nat x"
  by (simp only: unat_eq_nat_uint uint_word_of_int take_bit_eq_mod len_of_numeral_defs) simp

text \<open>
  The 64-bit key that Lars builds from a module and command id (and from an ip and port)
  identifies the pair: different pairs have different keys, the lower half is the second
  component, and the upper half is the first one unless the second is negative, in which case
  the sign extension borrows one from it.
\<close>

theorem module_key_injective:
  "(mk_key modid cmdid = mk_key modid' cmdid' \<longleftrightarrow> modid = modid' \<and> cmdid = cmdid') \<and>
   key_lo (mk_key modid cmdid) = cmdid \<and>
   key_hi (mk_key modid cmdid) = (if sint cmdid < 0 then modid - 1 else modid)"
  by (simp add: key_lo_mk_key key_hi_mk_key)

section \<open>Association lists (hash maps) and pointer lists\<close>

lemmas alist_simps = update_conv' delete_conv' distinct_update distinct_delete update_keys delete_keys

section \<open>The server of a module\<close>

text \<open>
  \<open>(modid + cmdid) % 3\<close>, by which the agent and its clients choose one of three servers: the sum may overflow, and the remainder of
  C is negative for a negative sum.
\<close>

definition server_index :: "i32 \<Rightarrow> i32 \<Rightarrow> int res" where
  "server_index modid cmdid = bindR (add_i32 (sint modid) (sint cmdid)) (\<lambda>s. Inr (s smod 3))"

text \<open>Modules whose index is in range: a non-negative sum that fits \<open>int\<close>.\<close>

definition good_module :: "i32 \<Rightarrow> i32 \<Rightarrow> bool" where
  "good_module modid cmdid \<longleftrightarrow> 0 \<le> sint modid + sint cmdid \<and> sint modid + sint cmdid < 2 ^ 31"

definition server_of :: "i32 \<Rightarrow> i32 \<Rightarrow> nat" where
  "server_of modid cmdid = nat ((sint modid + sint cmdid) mod 3)"

lemma smod3: "(a :: int) smod 3 = (if 0 \<le> a then a mod 3 else - ((- a) mod 3))"
  by (simp add: signed_modulo_int_def signed_divide_int_def sgn_if abs_if minus_mult_div_eq_mod [symmetric]) 

lemma server_index_good: "good_module modid cmdid \<Longrightarrow> server_index modid cmdid = Inr (int (server_of modid cmdid)) \<and> server_of modid cmdid < 3"
  by (auto simp: good_module_def server_index_def server_of_def smod3)

section \<open>Transition systems with an invariant\<close>

text \<open>
  The contract shared by the components whose operations are steps of a state machine: a
  state predicate \<open>inv\<close> that holds initially and that every step keeps. The lemmas lift it to
  reachable states and to runs.
\<close>

locale step_system =
  fixes init :: "'s \<Rightarrow> bool" and step :: "'s \<Rightarrow> 's \<Rightarrow> bool" and inv :: "'s \<Rightarrow> bool"
  assumes init_inv: "init s \<Longrightarrow> inv s"
    and step_inv: "inv s \<Longrightarrow> step s t \<Longrightarrow> inv t"
begin

lemma steps_inv: "step\<^sup>*\<^sup>* s t \<Longrightarrow> inv s \<Longrightarrow> inv t"
  by (induction rule: rtranclp_induct) (auto intro: step_inv)

lemma reachable_inv: "init s \<Longrightarrow> step\<^sup>*\<^sup>* s t \<Longrightarrow> inv t"
  using steps_inv init_inv by blast

end

end
