(* ===== verification/Lars_Pb.thy ===== *)
theory Lars_Pb
  imports Lars_Prelude
begin

text \<open>
  The messages of \<^verbatim>\<open>base/proto/lars.proto\<close>, as records with the fields of the schema. \<open>int32\<close> and
  \<open>uint32\<close> fields are 32-bit words, repeated fields are lists, an optional sub-message is an option.
\<close>

definition RET_SUCC :: i32 where "RET_SUCC = 0"
definition RET_OVERLOAD :: i32 where "RET_OVERLOAD = 1"
definition RET_SYSTEM_ERROR :: i32 where "RET_SYSTEM_ERROR = 2"
definition RET_NOEXIST :: i32 where "RET_NOEXIST = 3"

definition ID_GetRouteRequest :: i32 where "ID_GetRouteRequest = 1"
definition ID_GetRouteResponse :: i32 where "ID_GetRouteResponse = 2"
definition ID_ReportStatusRequest :: i32 where "ID_ReportStatusRequest = 3"
definition ID_GetHostRequest :: i32 where "ID_GetHostRequest = 4"
definition ID_GetHostResponse :: i32 where "ID_GetHostResponse = 5"
definition ID_ReportRequest :: i32 where "ID_ReportRequest = 6"
definition ID_API_GetRouteRequest :: i32 where "ID_API_GetRouteRequest = 7"
definition ID_API_GetRouteResponse :: i32 where "ID_API_GetRouteResponse = 8"

record HostInfo =
  pb_ip :: i32
  pb_port :: i32

record GetRouteRequest =
  grq_modid :: i32
  grq_cmdid :: i32

record GetRouteResponse =
  grs_modid :: i32
  grs_cmdid :: i32
  grs_host :: "HostInfo list"

record HostCallResult =
  hcr_ip :: i32
  hcr_port :: i32
  hcr_succ :: u32
  hcr_err :: u32
  hcr_overload :: bool

record ReportStatusRequest =
  rsr_modid :: i32
  rsr_cmdid :: i32
  rsr_caller :: i32
  rsr_results :: "HostCallResult list"
  rsr_ts :: u32

record GetHostRequest =
  ghq_seq :: u32
  ghq_modid :: i32
  ghq_cmdid :: i32

record GetHostResponse =
  ghs_seq :: u32
  ghs_modid :: i32
  ghs_cmdid :: i32
  ghs_retcode :: i32
  ghs_host :: "HostInfo option"

record ReportRequest =
  rpq_modid :: i32
  rpq_cmdid :: i32
  rpq_host :: "HostInfo option"
  rpq_retcode :: i32

text \<open>The default instances, as a default constructor gives them.\<close>

definition HostInfo_default :: HostInfo where
  "HostInfo_default = \<lparr>pb_ip = 0, pb_port = 0\<rparr>"

text \<open>The accessor \<open>host()\<close> of an optional sub-message; also the object that \<open>mutable_host()\<close> returns.\<close>

definition pb_host :: "HostInfo option \<Rightarrow> HostInfo" where
  "pb_host h = (case h of None \<Rightarrow> HostInfo_default | Some i \<Rightarrow> i)"

definition GetHostResponse_default :: GetHostResponse where
  "GetHostResponse_default =
     \<lparr>ghs_seq = 0, ghs_modid = 0, ghs_cmdid = 0, ghs_retcode = 0, ghs_host = None\<rparr>"

definition GetRouteResponse_default :: GetRouteResponse where
  "GetRouteResponse_default = \<lparr>grs_modid = 0, grs_cmdid = 0, grs_host = []\<rparr>"

lemmas ret_defs = RET_SUCC_def RET_OVERLOAD_def RET_SYSTEM_ERROR_def RET_NOEXIST_def

lemma ret_distinct [simp]:
  "RET_SUCC \<noteq> RET_OVERLOAD" "RET_SUCC \<noteq> RET_SYSTEM_ERROR" "RET_SUCC \<noteq> RET_NOEXIST"
  "RET_OVERLOAD \<noteq> RET_SUCC" "RET_NOEXIST \<noteq> RET_SUCC" "RET_OVERLOAD \<noteq> RET_NOEXIST" "RET_SYSTEM_ERROR \<noteq> RET_SUCC"
  by (simp_all add: ret_defs)

end
