(* ===== verification/Event_Loop.thy ===== *)
theory Event_Loop
  imports Lars_Prelude
begin

unbundle bit_operations_syntax

text \<open>
  The reactor of \<^verbatim>\<open>lars_reactor/include/event_base.h\<close>, \<^verbatim>\<open>lars_reactor/include/event_loop.h\<close> and
  \<^verbatim>\<open>lars_reactor/src/event_loop.cpp\<close>. Callbacks are names of type \<open>'cb\<close> with arguments of type
  \<open>'a\<close>; what they do to the program state is the argument \<open>run\<close> of the dispatch functions. The
  kernel's interest list is the field \<open>el_epoll\<close>, changed by \<open>epoll_ctl\<close> with its documented
  errors (adding a present descriptor, modifying or removing an absent one).
\<close>

section \<open>Model\<close>

definition EPOLLIN :: u32 where "EPOLLIN = 1"
definition EPOLLOUT :: u32 where "EPOLLOUT = 4"
definition EPOLLERR :: u32 where "EPOLLERR = 8"
definition EPOLLHUP :: u32 where "EPOLLHUP = 16"

definition MAXEVENTS :: nat where "MAXEVENTS = 10"

record ('cb, 'a) io_event =
  ev_mask :: u32
  ev_read_callback :: "'cb option"
  ev_write_callback :: "'cb option"
  ev_rcb_args :: "'a option"
  ev_wcb_args :: "'a option"

definition io_event_new :: "('cb, 'a) io_event" where
  "io_event_new = \<lparr>ev_mask = 0, ev_read_callback = None, ev_write_callback = None,
                   ev_rcb_args = None, ev_wcb_args = None\<rparr>"

record ('cb, 'a) event_loop =
  el_io_evs :: "int \<Rightarrow> ('cb, 'a) io_event option"
  el_listen_fds :: "int set"
  el_ready_tasks :: "('cb \<times> 'a) list"
  el_epoll :: "int \<Rightarrow> u32 option"

datatype epoll_op = EPOLL_CTL_ADD | EPOLL_CTL_MOD | EPOLL_CTL_DEL

fun epoll_ctl :: "epoll_op \<Rightarrow> int \<Rightarrow> u32 \<Rightarrow> (int \<Rightarrow> u32 option) \<Rightarrow> int \<times> (int \<Rightarrow> u32 option)" where
  "epoll_ctl EPOLL_CTL_ADD fd m t = (if t fd = None then (0, t(fd \<mapsto> m)) else (-1, t))"
| "epoll_ctl EPOLL_CTL_MOD fd m t = (if t fd \<noteq> None then (0, t(fd \<mapsto> m)) else (-1, t))"
| "epoll_ctl EPOLL_CTL_DEL fd m t = (if t fd \<noteq> None then (0, t(fd := None)) else (-1, t))"

definition event_loop_new :: "('cb, 'a) event_loop" where
  "event_loop_new = \<lparr>el_io_evs = Map.empty, el_listen_fds = {}, el_ready_tasks = [], el_epoll = Map.empty\<rparr>"

text \<open>The constructor, with the descriptor that \<open>epoll_create1\<close> returns.\<close>

definition event_loop_create :: "int \<Rightarrow> ('cb, 'a) event_loop res" where
  "event_loop_create epfd = (if epfd = -1 then Inl Exit_1 else Inr event_loop_new)"

text \<open>\<open>_io_evs[fd]\<close>: \<open>operator[]\<close> creates an empty \<open>io_event\<close> when there is none.\<close>

definition io_ev_at :: "int \<Rightarrow> ('cb, 'a) event_loop \<Rightarrow> ('cb, 'a) io_event" where
  "io_ev_at fd l = (case el_io_evs l fd of None \<Rightarrow> io_event_new | Some e \<Rightarrow> e)"

definition add_io_event :: "int \<Rightarrow> 'cb \<Rightarrow> u32 \<Rightarrow> 'a \<Rightarrow> ('cb, 'a) event_loop \<Rightarrow> ('cb, 'a) event_loop" where
  "add_io_event fd proc msk args l =
     (let (op, final_mask) =
            (case el_io_evs l fd of
               None \<Rightarrow> (EPOLL_CTL_ADD, msk)
             | Some e \<Rightarrow> (EPOLL_CTL_MOD, ev_mask e OR msk));
          e = io_ev_at fd l;
          e = (if msk AND EPOLLIN \<noteq> 0 then e\<lparr>ev_read_callback := Some proc, ev_rcb_args := Some args\<rparr>
               else if msk AND EPOLLOUT \<noteq> 0 then e\<lparr>ev_write_callback := Some proc, ev_wcb_args := Some args\<rparr>
               else e);
          e = e\<lparr>ev_mask := final_mask\<rparr>;
          l = l\<lparr>el_io_evs := (el_io_evs l)(fd \<mapsto> e)\<rparr>;
          (ret, tab) = epoll_ctl op fd final_mask (el_epoll l) in
      if ret = -1 then l
      else l\<lparr>el_epoll := tab, el_listen_fds := insert fd (el_listen_fds l)\<rparr>)"

definition del_io_event :: "int \<Rightarrow> ('cb, 'a) event_loop \<Rightarrow> ('cb, 'a) event_loop" where
  "del_io_event fd l =
     l\<lparr>el_io_evs := (el_io_evs l)(fd := None),
       el_listen_fds := el_listen_fds l - {fd},
       el_epoll := snd (epoll_ctl EPOLL_CTL_DEL fd 0 (el_epoll l))\<rparr>"

definition del_io_event_mask :: "int \<Rightarrow> u32 \<Rightarrow> ('cb, 'a) event_loop \<Rightarrow> ('cb, 'a) event_loop" where
  "del_io_event_mask fd msk l =
     (case el_io_evs l fd of
        None \<Rightarrow> l
      | Some e \<Rightarrow>
         (let o_mask = ev_mask e AND NOT msk;
              l = l\<lparr>el_io_evs := (el_io_evs l)(fd \<mapsto> e\<lparr>ev_mask := o_mask\<rparr>)\<rparr> in
          if o_mask = 0 then del_io_event fd l
          else l\<lparr>el_epoll := snd (epoll_ctl EPOLL_CTL_MOD fd o_mask (el_epoll l))\<rparr>))"

definition add_task :: "'cb \<Rightarrow> 'a \<Rightarrow> ('cb, 'a) event_loop \<Rightarrow> ('cb, 'a) event_loop" where
  "add_task func args l = l\<lparr>el_ready_tasks := el_ready_tasks l @ [(func, args)]\<rparr>"

definition get_listen_fds :: "('cb, 'a) event_loop \<Rightarrow> int set" where
  "get_listen_fds l = el_listen_fds l"

text \<open>
  What one fired event calls: the read callback on \<open>EPOLLIN\<close>, otherwise the write callback on
  \<open>EPOLLOUT\<close>, otherwise on a hang-up or error whichever callback exists, or the removal of the
  descriptor. The iterator returned by \<open>find\<close> is not compared with \<open>end()\<close>, and the callback
  pointer is not compared with null in the first two branches.
\<close>

datatype ('cb, 'a) fired = Call 'cb "'a option" | Drop_Fd | Nothing

definition call_cb :: "'cb option \<Rightarrow> 'a option \<Rightarrow> ('cb, 'a) fired res" where
  "call_cb c a = (case c of None \<Rightarrow> Inl Null_Deref | Some f \<Rightarrow> Inr (Call f a))"

definition select_callback :: "int \<Rightarrow> u32 \<Rightarrow> ('cb, 'a) event_loop \<Rightarrow> ('cb, 'a) fired res" where
  "select_callback fd events l =
     (case el_io_evs l fd of
        None \<Rightarrow> Inl Bad_Iterator
      | Some ev \<Rightarrow>
          if events AND EPOLLIN \<noteq> 0 then call_cb (ev_read_callback ev) (ev_rcb_args ev)
          else if events AND EPOLLOUT \<noteq> 0 then call_cb (ev_write_callback ev) (ev_wcb_args ev)
          else if events AND (EPOLLHUP OR EPOLLERR) \<noteq> 0 then
            (if ev_read_callback ev \<noteq> None then call_cb (ev_read_callback ev) (ev_rcb_args ev)
             else if ev_write_callback ev \<noteq> None then call_cb (ev_write_callback ev) (ev_wcb_args ev)
             else Inr Drop_Fd)
          else Inr Nothing)"

text \<open>
  The program state \<open>'w\<close> contains the loop; \<open>get\<close> and \<open>upd\<close> read and change it there. \<open>run\<close> is the
  behaviour of an io callback, \<open>runt\<close> that of a task.
\<close>

fun process_fired ::
  "('w \<Rightarrow> ('cb, 'a) event_loop) \<Rightarrow> ((('cb, 'a) event_loop \<Rightarrow> ('cb, 'a) event_loop) \<Rightarrow> 'w \<Rightarrow> 'w) \<Rightarrow>
   ('cb \<Rightarrow> int \<Rightarrow> 'a option \<Rightarrow> 'w \<Rightarrow> 'w res) \<Rightarrow> (int \<times> u32) list \<Rightarrow> 'w \<Rightarrow> 'w res" where
  "process_fired get upd run [] w = Inr w"
| "process_fired get upd run ((fd, events) # evs) w =
     bindR (select_callback fd events (get w)) (\<lambda>f.
     bindR (case f of
              Call cb a \<Rightarrow> run cb fd a w
            | Drop_Fd \<Rightarrow> Inr (upd (del_io_event fd) w)
            | Nothing \<Rightarrow> Inr w) (\<lambda>w.
     process_fired get upd run evs w))"

text \<open>
  The iteration over the vector of tasks; a task that changes the vector invalidates the
  iterator.
\<close>

fun run_tasks ::
  "('w \<Rightarrow> ('cb, 'a) event_loop) \<Rightarrow> ('cb \<Rightarrow> 'a \<Rightarrow> 'w \<Rightarrow> 'w res) \<Rightarrow> ('cb \<times> 'a) list \<Rightarrow> 'w \<Rightarrow> 'w res" where
  "run_tasks get runt [] w = Inr w"
| "run_tasks get runt ((f, a) # ts) w =
     bindR (runt f a w) (\<lambda>w'.
     bindR (ensure (length (el_ready_tasks (get w')) = length (el_ready_tasks (get w))) Bad_Iterator) (\<lambda>_.
     run_tasks get runt ts w'))"

definition execute_ready_tasks ::
  "('w \<Rightarrow> ('cb, 'a) event_loop) \<Rightarrow> ((('cb, 'a) event_loop \<Rightarrow> ('cb, 'a) event_loop) \<Rightarrow> 'w \<Rightarrow> 'w) \<Rightarrow>
   ('cb \<Rightarrow> 'a \<Rightarrow> 'w \<Rightarrow> 'w res) \<Rightarrow> 'w \<Rightarrow> 'w res" where
  "execute_ready_tasks get upd runt w =
     bindR (run_tasks get runt (el_ready_tasks (get w)) w) (\<lambda>w.
     Inr (upd (\<lambda>l. l\<lparr>el_ready_tasks := []\<rparr>) w))"

text \<open>
  \<open>event_process\<close> runs forever; the model runs it for a given sequence of \<open>epoll_wait\<close> results,
  each of at most \<open>MAXEVENTS\<close> events.
\<close>

fun event_process ::
  "('w \<Rightarrow> ('cb, 'a) event_loop) \<Rightarrow> ((('cb, 'a) event_loop \<Rightarrow> ('cb, 'a) event_loop) \<Rightarrow> 'w \<Rightarrow> 'w) \<Rightarrow>
   ('cb \<Rightarrow> int \<Rightarrow> 'a option \<Rightarrow> 'w \<Rightarrow> 'w res) \<Rightarrow> ('cb \<Rightarrow> 'a \<Rightarrow> 'w \<Rightarrow> 'w res) \<Rightarrow>
   (int \<times> u32) list list \<Rightarrow> 'w \<Rightarrow> 'w res" where
  "event_process get upd run runt [] w = Inr w"
| "event_process get upd run runt (evs # rest) w =
     bindR (process_fired get upd run (take MAXEVENTS evs) w) (\<lambda>w.
     bindR (execute_ready_tasks get upd runt w) (\<lambda>w.
     event_process get upd run runt rest w))"

section \<open>The registration invariant\<close>

text \<open>
  The callback map, the set of listening descriptors and the kernel's interest list agree, no
  registration has an empty mask, and a callback is present for every direction in the mask.
\<close>

definition ev_ok :: "('cb, 'a) io_event \<Rightarrow> bool" where
  "ev_ok e \<longleftrightarrow> ev_mask e \<noteq> 0 \<and> ev_mask e AND NOT (EPOLLIN OR EPOLLOUT) = 0 \<and>
     (ev_mask e AND EPOLLIN \<noteq> 0 \<longrightarrow> ev_read_callback e \<noteq> None) \<and>
     (ev_mask e AND EPOLLOUT \<noteq> 0 \<longrightarrow> ev_write_callback e \<noteq> None)"

definition loop_inv :: "('cb, 'a) event_loop \<Rightarrow> bool" where
  "loop_inv l \<longleftrightarrow>
     el_listen_fds l = dom (el_io_evs l) \<and>
     (\<forall>fd. el_epoll l fd = map_option ev_mask (el_io_evs l fd)) \<and>
     (\<forall>fd e. el_io_evs l fd = Some e \<longrightarrow> ev_ok e)"

inductive loop_step :: "('cb, 'a) event_loop \<Rightarrow> ('cb, 'a) event_loop \<Rightarrow> bool" where
  add_in: "loop_step l (add_io_event fd cb EPOLLIN a l)"
| add_out: "loop_step l (add_io_event fd cb EPOLLOUT a l)"
| del: "loop_step l (del_io_event fd l)"
| del_mask: "loop_step l (del_io_event_mask fd m l)"
| task: "loop_step l (add_task cb a l)"
| tasks_done: "loop_step l (l\<lparr>el_ready_tasks := []\<rparr>)"

lemma loop_inv_new: "loop_inv event_loop_new"
  by (simp add: loop_inv_def event_loop_new_def)

lemma loop_inv_put:
  assumes "loop_inv l" "ev_ok e" "el_io_evs l' = (el_io_evs l)(fd \<mapsto> e)"
    "el_epoll l' = (el_epoll l)(fd \<mapsto> ev_mask e)" "el_listen_fds l' = insert fd (el_listen_fds l)"
  shows "loop_inv l'"
  using assms by (auto simp: loop_inv_def split: if_splits)

lemma loop_inv_del: "loop_inv l \<Longrightarrow> loop_inv (del_io_event fd l)"
  by (auto simp: loop_inv_def del_io_event_def)

lemma add_io_event_shape:
  assumes "loop_inv l"
  shows "add_io_event fd cb m a l =
    (let e0 = io_ev_at fd l;
         e1 = (if m AND EPOLLIN \<noteq> 0 then e0\<lparr>ev_read_callback := Some cb, ev_rcb_args := Some a\<rparr>
               else if m AND EPOLLOUT \<noteq> 0 then e0\<lparr>ev_write_callback := Some cb, ev_wcb_args := Some a\<rparr> else e0);
         e = e1\<lparr>ev_mask := ev_mask e0 OR m\<rparr>
     in l\<lparr>el_io_evs := (el_io_evs l)(fd \<mapsto> e), el_listen_fds := insert fd (el_listen_fds l),
          el_epoll := (el_epoll l)(fd \<mapsto> ev_mask e)\<rparr>)"
  using assms by (cases "el_io_evs l fd") (auto simp: add_io_event_def io_ev_at_def io_event_new_def loop_inv_def Let_def)

lemma EPOLL_bits [simp]:
  "EPOLLIN AND EPOLLIN = EPOLLIN" "EPOLLOUT AND EPOLLIN = 0" "EPOLLOUT AND EPOLLOUT = EPOLLOUT"
  "EPOLLIN AND EPOLLOUT = 0" "EPOLLIN \<noteq> 0" "EPOLLOUT \<noteq> 0"
  by (simp_all add: EPOLLIN_def EPOLLOUT_def)

lemma EPOLL_clean [simp]:
  "EPOLLIN AND NOT EPOLLIN AND NOT EPOLLOUT = 0" "EPOLLOUT AND NOT EPOLLIN AND NOT EPOLLOUT = 0"
  by (simp_all add: EPOLLIN_def EPOLLOUT_def)

text \<open>What a fresh registration makes the dispatch call.\<close>

lemma select_add_in: "loop_inv l \<Longrightarrow> select_callback fd EPOLLIN (add_io_event fd cb EPOLLIN a l) = Inr (Call cb (Some a))"
  by (simp add: add_io_event_shape select_callback_def call_cb_def Let_def)

lemma select_add_out: "loop_inv l \<Longrightarrow> select_callback fd EPOLLOUT (add_io_event fd cb EPOLLOUT a l) = Inr (Call cb (Some a))"
  by (simp add: add_io_event_shape select_callback_def call_cb_def Let_def)

lemma select_in_add_out:
  "loop_inv l \<Longrightarrow> select_callback fd EPOLLIN l = Inr (Call c x) \<Longrightarrow> select_callback fd EPOLLIN (add_io_event fd cb EPOLLOUT a l) = Inr (Call c x)"
  by (auto simp: add_io_event_shape select_callback_def io_ev_at_def Let_def split: option.splits)

lemma ev_ok_add_in:
  assumes "ev_ok e \<or> e = io_event_new"
  shows "ev_ok (e\<lparr>ev_read_callback := Some cb, ev_rcb_args := Some a, ev_mask := ev_mask e OR EPOLLIN\<rparr>)"
  using assms
  by (auto simp: ev_ok_def io_event_new_def bit.conj_disj_distrib2 or_eq_0_iff)

lemma ev_ok_add_out:
  assumes "ev_ok e \<or> e = io_event_new"
  shows "ev_ok (e\<lparr>ev_write_callback := Some cb, ev_wcb_args := Some a, ev_mask := ev_mask e OR EPOLLOUT\<rparr>)"
  using assms
  by (auto simp: ev_ok_def io_event_new_def bit.conj_disj_distrib2 or_eq_0_iff)

lemma io_ev_at_ok: "loop_inv l \<Longrightarrow> ev_ok (io_ev_at fd l) \<or> io_ev_at fd l = io_event_new"
  by (auto simp: io_ev_at_def loop_inv_def split: option.splits)

lemma loop_inv_add_in:
  assumes "loop_inv l"
  shows "loop_inv (add_io_event fd cb EPOLLIN a l)"
  by (rule loop_inv_put [OF assms ev_ok_add_in [OF io_ev_at_ok [OF assms]]])
    (simp_all add: add_io_event_shape [OF assms] Let_def)

lemma loop_inv_add_out:
  assumes "loop_inv l"
  shows "loop_inv (add_io_event fd cb EPOLLOUT a l)"
  by (rule loop_inv_put [OF assms ev_ok_add_out [OF io_ev_at_ok [OF assms]]])
    (simp_all add: add_io_event_shape [OF assms] Let_def)

lemma mask_and_zero: "x AND y = 0 \<Longrightarrow> (x AND m) AND y = (0 :: u32)"
  by (metis and.assoc and.commute and_zero_eq)

lemma ev_ok_restrict:
  assumes "ev_ok e" "ev_mask e AND NOT m \<noteq> 0"
  shows "ev_ok (e\<lparr>ev_mask := ev_mask e AND NOT m\<rparr>)"
  using assms mask_and_zero [of "ev_mask e" _ "NOT m"]
  unfolding ev_ok_def by (simp del: de_Morgan_disj) metis

lemma loop_inv_del_mask:
  assumes "loop_inv l"
  shows "loop_inv (del_io_event_mask fd m l)"
proof (cases "el_io_evs l fd")
  case None
  then show ?thesis using assms by (simp add: del_io_event_mask_def)
next
  case (Some e)
  then have "ev_ok e" and "el_epoll l fd = Some (ev_mask e)" using assms by (auto simp: loop_inv_def)
  then show ?thesis using Some assms ev_ok_restrict [of e m]
    by (auto simp: loop_inv_def del_io_event_mask_def del_io_event_def Let_def)
qed

inductive_cases loop_stepE: "loop_step l l'"

lemma loop_step_inv: "loop_inv l \<Longrightarrow> loop_step l l' \<Longrightarrow> loop_inv l'"
  by (erule loop_stepE)
    (auto intro: loop_inv_add_in loop_inv_add_out loop_inv_del loop_inv_del_mask
          simp: add_task_def loop_inv_def [of "_\<lparr>el_ready_tasks := _\<rparr>"] loop_inv_def [of l])

interpretation reactor: step_system "\<lambda>l. l = event_loop_new" loop_step loop_inv
  by unfold_locales (auto intro: loop_step_inv simp: loop_inv_new)

section \<open>Dispatch\<close>

lemma and_not_zero:
  assumes "x AND NOT y = (0 :: u32)"
  shows "x AND y = x"
proof -
  have "x AND y = (x AND y) OR (x AND NOT y)" using assms by simp
  also have "\<dots> = x" unfolding bit.conj_disj_distrib [symmetric] by simp
  finally show ?thesis .
qed

lemma event_bit:
  assumes "events AND NOT (m OR EPOLLERR OR EPOLLHUP) = 0" "x AND EPOLLERR = 0" "x AND EPOLLHUP = 0"
    "events AND x \<noteq> (0 :: u32)"
  shows "m AND x \<noteq> 0"
proof
  assume "m AND x = 0"
  then have z: "(m OR EPOLLERR OR EPOLLHUP) AND x = 0"
    unfolding bit.conj_disj_distrib2 using assms(2,3) by (simp add: and.commute)
  have "events AND (m OR EPOLLERR OR EPOLLHUP) = events"
    by (rule and_not_zero [OF assms(1)])
  then have "events AND x = events AND ((m OR EPOLLERR OR EPOLLHUP) AND x)" by (metis and.assoc)
  then show False using z assms(4) by simp
qed

lemma EPOLL_bits_err [simp]:
  "EPOLLIN AND EPOLLERR = 0" "EPOLLIN AND EPOLLHUP = 0" "EPOLLOUT AND EPOLLERR = 0" "EPOLLOUT AND EPOLLHUP = 0"
  by (simp_all add: EPOLLIN_def EPOLLOUT_def EPOLLERR_def EPOLLHUP_def)

text \<open>
  C29 [reactor_dispatch_safe]. From an empty loop, after any sequence of registrations and removals (each with a single
  direction, as every caller of the library does), an event that the kernel reports for a
  descriptor in its interest list, with only the requested directions or an error or hang-up,
  finds its registration and a callback: the dispatch never follows a null callback nor an
  iterator past the end, and it calls the read callback exactly when input is reported.
\<close>

theorem reactor_dispatch_safe:
  assumes "loop_step\<^sup>*\<^sup>* event_loop_new l"
    and "el_epoll l fd = Some m"
    and "events AND NOT (m OR EPOLLERR OR EPOLLHUP) = 0"
  shows "\<exists>e f. el_io_evs l fd = Some e \<and> select_callback fd events l = Inr f \<and>
    (events AND EPOLLIN \<noteq> 0 \<longrightarrow> (\<exists>cb. ev_read_callback e = Some cb \<and> f = Call cb (ev_rcb_args e))) \<and>
    (events AND EPOLLIN = 0 \<and> events AND EPOLLOUT \<noteq> 0 \<longrightarrow>
       (\<exists>cb. ev_write_callback e = Some cb \<and> f = Call cb (ev_wcb_args e)))"
proof -
  have inv: "loop_inv l" using reactor.reachable_inv [OF refl assms(1)] .
  then obtain e where e: "el_io_evs l fd = Some e" "ev_mask e = m" "ev_ok e"
    using assms(2) by (auto simp: loop_inv_def)
  have r: "events AND EPOLLIN = 0 \<or> ev_read_callback e \<noteq> None"
    using event_bit [OF assms(3), of EPOLLIN] e by (auto simp: ev_ok_def)
  have w: "events AND EPOLLOUT = 0 \<or> ev_write_callback e \<noteq> None"
    using event_bit [OF assms(3), of EPOLLOUT] e by (auto simp: ev_ok_def)
  show ?thesis using e r w by (auto simp: select_callback_def call_cb_def)
qed

theorem reactor_dispatch_safe_witness:
  "\<exists>e f. el_io_evs (add_io_event 5 ''rd'' EPOLLIN () event_loop_new) 5 = Some e \<and>
     select_callback 5 EPOLLIN (add_io_event 5 ''rd'' EPOLLIN () event_loop_new) = Inr f"
proof -
  let ?l = "add_io_event 5 ''rd'' EPOLLIN () event_loop_new"
  have "loop_step\<^sup>*\<^sup>* event_loop_new ?l" by (rule r_into_rtranclp) (rule loop_step.add_in)
  moreover have "el_epoll ?l 5 = Some EPOLLIN"
    by (simp add: add_io_event_def event_loop_new_def Let_def)
  moreover have "EPOLLIN AND NOT (EPOLLIN OR EPOLLERR OR EPOLLHUP) = 0"
    by (simp add: EPOLLIN_def EPOLLERR_def EPOLLHUP_def)
  ultimately show ?thesis using reactor_dispatch_safe [of ?l 5 EPOLLIN EPOLLIN] by blast
qed

text \<open>
  The task vector: when the tasks themselves do not queue tasks, one call of
  \<open>execute_ready_tasks\<close> runs every queued task once, in the order queued, and leaves the queue
  empty.
\<close>

lemma run_tasks_fold:
  assumes "\<And>f a w w'. runt f a w = Inr w' \<Longrightarrow> el_ready_tasks (get w') = el_ready_tasks (get w)"
  shows "run_tasks get runt ts w = foldl (\<lambda>r (f, a). bindR r (runt f a)) (Inr w) ts"
proof -
  have inl: "foldl (\<lambda>r (f, a). bindR r (runt f a)) (Inl x) ts = Inl x" for x ts
    by (induction ts) auto
  show ?thesis
  proof (induction ts arbitrary: w)
    case (Cons t ts)
    then show ?case using assms by (cases t; cases "runt (fst t) (snd t) w") (auto simp: inl ensure_def)
  qed simp
qed

text \<open>
  When the tasks themselves do not queue tasks, one call of
  \<open>execute_ready_tasks\<close> runs every queued task exactly once, in the order in which
  \<open>add_task\<close> queued them, stops at the first one that aborts, and otherwise leaves the queue
  empty and changes nothing else.
\<close>

theorem ready_tasks_once:
  assumes "\<And>f a w w'. runt f a w = Inr w' \<Longrightarrow> el_ready_tasks (get w') = el_ready_tasks (get w)"
  shows "execute_ready_tasks get upd runt w =
    bindR (foldl (\<lambda>r (f, a). bindR r (runt f a)) (Inr w) (el_ready_tasks (get w)))
      (\<lambda>w. Inr (upd (\<lambda>l. l\<lparr>el_ready_tasks := []\<rparr>) w))"
  by (simp add: execute_ready_tasks_def run_tasks_fold [OF assms])

theorem ready_tasks_once_witness:
  "execute_ready_tasks fst apfst (\<lambda>f a (l, trace). Inr (l, trace @ [f a]))
     (add_task Suc 3 (add_task id (1 :: nat) event_loop_new), []) = Inr (event_loop_new, [1, 4])"
  by (subst ready_tasks_once) (auto simp: add_task_def event_loop_new_def)

end
