(* ===== verification/Thread_Queue.thy ===== *)
theory Thread_Queue
  imports Event_Loop
begin

text \<open>
  \<^verbatim>\<open>lars_reactor/include/thread_queue.h\<close>: the queue between two threads, a \<open>std::queue\<close> with a
  mutex and an \<open>eventfd\<close> that makes the receiver's event loop wake up. Each of \<open>send\<close> and \<open>recv\<close>
  runs inside the mutex, so an execution of several threads is a sequence of them. The counter
  of the eventfd (a 64-bit counter created with \<open>EFD_NONBLOCK\<close>) is the field \<open>tq_counter\<close>: a
  write that would pass its maximum and a read of zero fail with \<open>EAGAIN\<close>, which the source only
  prints.
\<close>

section \<open>Model\<close>

record 't thread_queue =
  tq_evfd :: int
  tq_counter :: nat
  tq_loop :: "ptr option"
  tq_queue :: "'t list"

definition EVENTFD_MAX :: nat where
  "EVENTFD_MAX = 2 ^ 64 - 2"

text \<open>The constructor, with the result of \<open>eventfd()\<close>.\<close>

definition thread_queue_new :: "int \<Rightarrow> 't thread_queue res" where
  "thread_queue_new evfd =
     (if evfd = -1 then Inl Exit_1
      else Inr \<lparr>tq_evfd = evfd, tq_counter = 0, tq_loop = None, tq_queue = []\<rparr>)"

definition eventfd_write :: "nat \<Rightarrow> nat \<Rightarrow> nat" where
  "eventfd_write n c = (if c + n \<le> EVENTFD_MAX then c + n else c)"

definition tq_send :: "'t \<Rightarrow> 't thread_queue \<Rightarrow> 't thread_queue" where
  "tq_send task q =
     (let q = q\<lparr>tq_queue := tq_queue q @ [task]\<rparr> in
      q\<lparr>tq_counter := eventfd_write 1 (tq_counter q)\<rparr>)"

text \<open>\<open>recv\<close> swaps the queue with the caller's one; the result is what the caller's queue holds afterwards.\<close>

definition tq_recv :: "'t list \<Rightarrow> 't thread_queue \<Rightarrow> 't list \<times> 't thread_queue" where
  "tq_recv queue_msgs q =
     (let q = q\<lparr>tq_counter := 0\<rparr> in (tq_queue q, q\<lparr>tq_queue := queue_msgs\<rparr>))"

definition tq_set_loop :: "ptr \<Rightarrow> 't thread_queue \<Rightarrow> 't thread_queue" where
  "tq_set_loop loop q = q\<lparr>tq_loop := Some loop\<rparr>"

definition tq_set_callback ::
  "'cb \<Rightarrow> 'a \<Rightarrow> 't thread_queue \<Rightarrow> (ptr \<Rightarrow> ('cb, 'a) event_loop option) \<Rightarrow> (ptr \<Rightarrow> ('cb, 'a) event_loop option) res" where
  "tq_set_callback cb args q loops =
     (case tq_loop q of
        None \<Rightarrow> Inr loops
      | Some p \<Rightarrow> bindR (deref loops p) (\<lambda>l.
          Inr (loops(p \<mapsto> add_io_event (tq_evfd q) cb EPOLLIN args l))))"

lemma tq_send_neq [simp]: "tq_send m q \<noteq> q"
proof
  assume "tq_send m q = q"
  then have "tq_queue (tq_send m q) = tq_queue q" by simp
  then show False by (simp add: tq_send_def Let_def)
qed

text \<open>An execution of the sending and receiving threads, with the batches the receiver got.\<close>

datatype 'm chan_op = Send 'm | Recv

fun tq_run :: "'t chan_op list \<Rightarrow> 't thread_queue \<Rightarrow> 't list list \<times> 't thread_queue" where
  "tq_run [] q = ([], q)"
| "tq_run (Send m # ops) q = tq_run ops (tq_send m q)"
| "tq_run (Recv # ops) q =
     (let (ms, q1) = tq_recv [] q; (batches, q2) = tq_run ops q1 in (ms # batches, q2))"

fun sent :: "'t chan_op list \<Rightarrow> 't list" where
  "sent [] = []"
| "sent (Send m # ops) = m # sent ops"
| "sent (Recv # ops) = sent ops"

section \<open>The channel contract\<close>

text \<open>
  What the threads of Lars rely on: messages come out in the order they went in, a receive takes
  all of them, and a channel that holds messages is signalled. The lemmas are about every
  interleaving of senders and receivers.
\<close>

locale channel =
  fixes wf :: "'s \<Rightarrow> bool" and pending :: "'s \<Rightarrow> 'm list" and signalled :: "'s \<Rightarrow> bool"
    and put :: "'m \<Rightarrow> 's \<Rightarrow> 's" and drain :: "'s \<Rightarrow> 'm list \<times> 's"
  assumes put_wf: "wf s \<Longrightarrow> wf (put m s)"
    and drain_wf: "wf s \<Longrightarrow> wf (snd (drain s))"
    and put_pending: "wf s \<Longrightarrow> pending (put m s) = pending s @ [m]"
    and drain_all: "wf s \<Longrightarrow> fst (drain s) = pending s"
    and drain_empty: "wf s \<Longrightarrow> pending (snd (drain s)) = []"
    and no_lost_wakeup: "wf s \<Longrightarrow> pending s \<noteq> [] \<Longrightarrow> signalled s"
begin

fun chan_run :: "'m chan_op list \<Rightarrow> 's \<Rightarrow> 'm list list \<times> 's" where
  "chan_run [] s = ([], s)"
| "chan_run (Send m # ops) s = chan_run ops (put m s)"
| "chan_run (Recv # ops) s =
     (let (ms, s1) = drain s; (batches, s2) = chan_run ops s1 in (ms # batches, s2))"

lemma chan_run_wf: "wf s \<Longrightarrow> wf (snd (chan_run ops s))"
  by (induction ops s rule: chan_run.induct) (auto simp: put_wf drain_wf split: prod.splits dest: drain_wf)

lemma chan_fifo:
  "wf s \<Longrightarrow> concat (fst (chan_run ops s)) @ pending (snd (chan_run ops s)) = pending s @ sent ops"
proof (induction ops s rule: chan_run.induct)
  case (2 m ops s)
  then show ?case by (simp add: put_wf put_pending)
next
  case (3 ops s)
  obtain ms s1 where d: "drain s = (ms, s1)" by (cases "drain s")
  with 3 drain_wf [of s] drain_all [of s] drain_empty [of s] show ?case
    by (auto split: prod.splits)
qed simp

lemma chan_signalled: "wf s \<Longrightarrow> pending (snd (chan_run ops s)) \<noteq> [] \<Longrightarrow> signalled (snd (chan_run ops s))"
  using no_lost_wakeup chan_run_wf by blast

end

definition tq_wf :: "'t thread_queue \<Rightarrow> bool" where
  "tq_wf q \<longleftrightarrow> (tq_queue q \<noteq> [] \<longrightarrow> 0 < tq_counter q) \<and> tq_counter q \<le> EVENTFD_MAX"

lemma tq_wf_new: "thread_queue_new fd = Inr q \<Longrightarrow> tq_wf q"
  by (auto simp: thread_queue_new_def tq_wf_def split: if_splits)

lemma tq_wf_send: "tq_wf q \<Longrightarrow> tq_wf (tq_send m q)"
  by (simp add: tq_wf_def tq_send_def eventfd_write_def EVENTFD_MAX_def Let_def)

interpretation queue: channel tq_wf tq_queue "\<lambda>q. 0 < tq_counter q" tq_send "tq_recv []"
  by unfold_locales (auto simp: tq_wf_send, auto simp: tq_wf_def tq_send_def tq_recv_def Let_def)

lemma tq_run_chan: "tq_run ops q = queue.chan_run ops q"
  by (induction ops q rule: tq_run.induct) (auto split: prod.splits)

text \<open>
  C28 [thread_queue_fifo]. In every interleaving of senders and receivers on a fresh queue, the batches received
  so far, one after the other, followed by what is still queued, are exactly the messages sent,
  in the order sent: none is lost, duplicated or reordered; and as long as messages are queued
  the eventfd is readable, so the receiver's loop is woken (no lost wake-up).
\<close>

theorem thread_queue_fifo:
  assumes "thread_queue_new fd = Inr q" and "tq_run ops q = (batches, q')"
  shows "concat batches @ tq_queue q' = sent ops \<and> (tq_queue q' \<noteq> [] \<longrightarrow> 0 < tq_counter q')"
  using queue.chan_fifo [OF tq_wf_new [OF assms(1)], of ops] queue.chan_signalled [OF tq_wf_new [OF assms(1)], of ops] assms
  by (auto simp: tq_run_chan thread_queue_new_def split: if_splits)

theorem thread_queue_fifo_witness:
  "case thread_queue_new 7 of
     Inl e \<Rightarrow> False
   | Inr q \<Rightarrow> (case tq_run [Send (1::nat), Send 2, Recv, Send 3] q of
                (batches, q') \<Rightarrow> concat batches @ tq_queue q' = [1, 2, 3])"
proof -
  obtain q :: "nat thread_queue" where q: "thread_queue_new 7 = Inr q" by (simp add: thread_queue_new_def)
  obtain batches q' where r: "tq_run [Send 1, Send 2, Recv, Send 3] q = (batches, q')" by fastforce
  from thread_queue_fifo [OF q r] q r show ?thesis by simp
qed

end
