(* ===== verification/Load_Balance.thy ===== *)
theory Load_Balance
  imports Lars_Pb Thread_Queue "HOL-Library.Multiset"
begin

text \<open>
  The load balancer of one module: \<^verbatim>\<open>lars_lb_agent/include/host_info.h\<close>,
  \<^verbatim>\<open>lars_lb_agent/src/host_info.cpp\<close>, \<^verbatim>\<open>lars_lb_agent/include/load_balance.h\<close> and
  \<^verbatim>\<open>lars_lb_agent/src/load_balance.cpp\<close>.

  A \<open>host_info\<close> lives in a heap (\<open>host_heap\<close>) because the map, the idle list and the overload list share
  pointers to it and \<open>update\<close> deletes objects. \<open>_host_map\<close> is an association list; its order stands for the
  iteration order of the hash map, which the code never relies on. The readings of \<open>time(NULL)\<close>
  are arguments. The counters are 32-bit words and wrap; \<open>overload_ts\<close> is an option because the
  constructor does not initialise it. The two rate tests divide \<open>double\<close> values: \<open>dbl_div\<close> is the
  quotient rounded to 53 bits, half to even, and the configured \<open>float\<close> thresholds are pairs
  \<open>(m, j)\<close> with the value \<open>m / 2 ^ j\<close>.
\<close>

section \<open>Model\<close>

record load_balance_config =
  probe_num :: int
  init_succ_cnt :: i32
  init_err_cnt :: i32
  err_rate :: float32
  succ_rate :: float32
  contin_err_limit :: i32
  contin_succ_limit :: i32
  idle_timeout :: int
  overload_timeout :: int
  update_timeout :: int

record host_info =
  hi_ip :: u32
  hi_port :: i32
  hi_vsucc :: u32
  hi_verr :: u32
  hi_rsucc :: u32
  hi_rerr :: u32
  hi_contin_succ :: u32
  hi_contin_err :: u32
  hi_idle_ts :: int
  hi_overload_ts :: "int option"
  hi_overload :: bool

definition host_info_new :: "u32 \<Rightarrow> i32 \<Rightarrow> i32 \<Rightarrow> int \<Rightarrow> host_info" where
  "host_info_new ip port init_succ now =
     \<lparr>hi_ip = ip, hi_port = port, hi_vsucc = init_succ, hi_verr = 0, hi_rsucc = 0, hi_rerr = 0,
      hi_contin_succ = 0, hi_contin_err = 0, hi_idle_ts = now, hi_overload_ts = None, hi_overload = False\<rparr>"

definition set_overload :: "load_balance_config \<Rightarrow> int \<Rightarrow> host_info \<Rightarrow> host_info" where
  "set_overload cfg now h =
     h\<lparr>hi_vsucc := 0, hi_verr := init_err_cnt cfg, hi_rsucc := 0, hi_rerr := 0,
       hi_contin_succ := 0, hi_contin_err := 0, hi_overload_ts := Some now, hi_overload := True\<rparr>"

definition set_idle :: "load_balance_config \<Rightarrow> int \<Rightarrow> host_info \<Rightarrow> host_info" where
  "set_idle cfg now h =
     h\<lparr>hi_vsucc := init_succ_cnt cfg, hi_verr := 0, hi_rsucc := 0, hi_rerr := 0,
       hi_contin_succ := 0, hi_contin_err := 0, hi_idle_ts := now, hi_overload := False\<rparr>"

datatype lb_status = PULLING | NEW

record load_balance =
  lb_modid :: i32
  lb_cmdid :: i32
  lb_host_map :: "(u64 \<times> ptr) list"
  lb_idle_list :: "ptr list"
  lb_overload_list :: "ptr list"
  lb_access_cnt :: int
  lb_status :: lb_status
  lb_last_update_time :: int

record host_heap =
  hh_hosts :: "ptr \<Rightarrow> host_info option"
  hh_fresh :: ptr

definition load_balance_new :: "i32 \<Rightarrow> i32 \<Rightarrow> int \<Rightarrow> load_balance" where
  "load_balance_new modid cmdid now =
     \<lparr>lb_modid = modid, lb_cmdid = cmdid, lb_host_map = [], lb_idle_list = [], lb_overload_list = [],
      lb_access_cnt = 0, lb_status = NEW, lb_last_update_time = now\<rparr>"

definition lb_empty :: "load_balance \<Rightarrow> bool" where
  "lb_empty lb \<longleftrightarrow> lb_host_map lb = []"

definition lb_pull ::
  "load_balance \<Rightarrow> GetRouteRequest thread_queue \<Rightarrow> load_balance \<times> GetRouteRequest thread_queue" where
  "lb_pull lb dns_queue =
     (let req = \<lparr>grq_modid = lb_modid lb, grq_cmdid = lb_cmdid lb\<rparr> in
      (lb\<lparr>lb_status := PULLING\<rparr>, tq_send req dns_queue))"

text \<open>The first loop of \<open>update\<close>: the hosts of the response that the map does not have. \<open>ts i\<close> is the time read for host \<open>i\<close>.\<close>

fun insert_hosts ::
  "load_balance_config \<Rightarrow> (nat \<Rightarrow> int) \<Rightarrow> nat \<Rightarrow> HostInfo list \<Rightarrow> u64 set \<Rightarrow> load_balance \<Rightarrow> host_heap \<Rightarrow>
   u64 set \<times> load_balance \<times> host_heap" where
  "insert_hosts cfg ts i [] remote lb mem = (remote, lb, mem)"
| "insert_hosts cfg ts i (h # hs) remote lb mem =
     (let key = mk_key (pb_ip h) (pb_port h);
          remote = insert key remote;
          (lb, mem) =
            (if map_of (lb_host_map lb) key = None then
               (let p = hh_fresh mem;
                    mem = mem\<lparr>hh_hosts := (hh_hosts mem)(p \<mapsto>
                                host_info_new (pb_ip h) (pb_port h) (init_succ_cnt cfg) (ts i)),
                              hh_fresh := Suc p\<rparr> in
                (lb\<lparr>lb_host_map := lb_host_map lb @ [(key, p)], lb_idle_list := lb_idle_list lb @ [p]\<rparr>, mem))
             else (lb, mem)) in
      insert_hosts cfg ts (Suc i) hs remote lb mem)"

text \<open>The loop over \<open>need_delete\<close>. The entry stays in \<open>_host_map\<close>.\<close>

fun delete_hosts :: "u64 list \<Rightarrow> load_balance \<Rightarrow> host_heap \<Rightarrow> (load_balance \<times> host_heap) res" where
  "delete_hosts [] lb mem = Inr (lb, mem)"
| "delete_hosts (key # keys) lb mem =
     (case map_of (lb_host_map lb) key of
        None \<Rightarrow> Inl Null_Deref
      | Some hi \<Rightarrow>
          bindR (deref (hh_hosts mem) hi) (\<lambda>h.
          delete_hosts keys
            (if hi_overload h then lb\<lparr>lb_overload_list := removeAll hi (lb_overload_list lb)\<rparr>
             else lb\<lparr>lb_idle_list := removeAll hi (lb_idle_list lb)\<rparr>)
            (mem\<lparr>hh_hosts := (hh_hosts mem)(hi := None)\<rparr>)))"

definition lb_update ::
  "load_balance_config \<Rightarrow> int \<Rightarrow> (nat \<Rightarrow> int) \<Rightarrow> GetRouteResponse \<Rightarrow> load_balance \<Rightarrow> host_heap \<Rightarrow>
   (load_balance \<times> host_heap) res" where
  "lb_update cfg current_time ts rsp lb mem =
     bindR (ensure (grs_host rsp \<noteq> []) Assert_Failed) (\<lambda>_.
     (let (remote_hosts, lb, mem) = insert_hosts cfg ts 0 (grs_host rsp) {} lb mem;
          need_delete = foldr insort_insert (filter (\<lambda>k. k \<notin> remote_hosts) (map fst (lb_host_map lb))) [] in
      bindR (delete_hosts need_delete lb mem) (\<lambda>(lb, mem).
      Inr (lb\<lparr>lb_status := NEW, lb_last_update_time := current_time\<rparr>, mem))))"

definition get_host_from_list :: "GetHostResponse \<Rightarrow> ptr list \<Rightarrow> host_heap \<Rightarrow> (GetHostResponse \<times> ptr list) res" where
  "get_host_from_list rsp l mem =
     (case l of
        [] \<Rightarrow> Inl Empty_Container
      | p # ps \<Rightarrow>
          bindR (deref (hh_hosts mem) p) (\<lambda>host.
          Inr (rsp\<lparr>ghs_host := Some \<lparr>pb_ip = hi_ip host, pb_port = hi_port host\<rparr>\<rparr>, ps @ [p])))"

definition choice_one_host ::
  "load_balance_config \<Rightarrow> GetHostResponse \<Rightarrow> load_balance \<Rightarrow> host_heap \<Rightarrow> (i32 \<times> GetHostResponse \<times> load_balance) res" where
  "choice_one_host cfg rsp lb mem =
     (let from_overload =
            bindR (get_host_from_list rsp (lb_overload_list lb) mem) (\<lambda>(rsp, l).
            Inr (RET_SUCC, rsp, lb\<lparr>lb_overload_list := l, lb_access_cnt := 0\<rparr>)) in
      if lb_idle_list lb = [] then
        (if probe_num cfg \<le> lb_access_cnt lb then from_overload
         else bindR (add_i32 (lb_access_cnt lb) 1) (\<lambda>c. Inr (RET_OVERLOAD, rsp, lb\<lparr>lb_access_cnt := c\<rparr>)))
      else if lb_overload_list lb = [] then
        bindR (get_host_from_list rsp (lb_idle_list lb) mem) (\<lambda>(rsp, l).
        Inr (RET_SUCC, rsp, lb\<lparr>lb_idle_list := l\<rparr>))
      else if probe_num cfg \<le> lb_access_cnt lb then from_overload
      else
        bindR (add_i32 (lb_access_cnt lb) 1) (\<lambda>c.
        bindR (get_host_from_list rsp (lb_idle_list lb) mem) (\<lambda>(rsp, l).
        Inr (RET_SUCC, rsp, lb\<lparr>lb_idle_list := l, lb_access_cnt := c\<rparr>))))"

definition get_all_hosts :: "load_balance \<Rightarrow> ptr list" where
  "get_all_hosts lb = map snd (lb_host_map lb)"

text \<open>
  Division of two \<open>double\<close> values that are integers below \<open>2 ^ 32\<close>: \<open>dbl_div a b = (R, k)\<close> is the value
  \<open>R / 2 ^ k\<close> with \<open>R\<close> of 53 bits, nearest to \<open>a / b\<close>, ties to even.
\<close>

fun bit_len :: "nat \<Rightarrow> nat" where
  "bit_len n = (if n = 0 then 0 else Suc (bit_len (n div 2)))"

definition rnd_even :: "nat \<Rightarrow> nat \<Rightarrow> nat" where
  "rnd_even n d =
     (let q = n div d; r = n mod d in if d < 2 * r \<or> (2 * r = d \<and> odd q) then Suc q else q)"

definition dbl_div :: "nat \<Rightarrow> nat \<Rightarrow> nat \<times> nat" where
  "dbl_div a b =
     (if a = 0 then (0, 0)
      else (let k = 53 + bit_len b - bit_len a;
                k = (if a * 2 ^ k < b * 2 ^ 53 then k else k - 1) in
            (rnd_even (a * 2 ^ k) b, k)))"

text \<open>
  \<open>a * 1.0 / b > r\<close>. A zero divisor (the 32-bit sum wrapped around) gives infinity, or NaN for
  \<open>0 / 0\<close>, which compares false.
\<close>

definition rate_gt :: "u32 \<Rightarrow> u32 \<Rightarrow> float32 \<Rightarrow> bool" where
  "rate_gt a b thr =
     (if b = 0 then a \<noteq> 0
      else (let (R, k) = dbl_div (unat a) (unat b) in fst thr * 2 ^ k < int R * 2 ^ snd thr))"

definition count_result :: "i32 \<Rightarrow> host_info \<Rightarrow> host_info" where
  "count_result retcode h =
     (if retcode = RET_SUCC then
        h\<lparr>hi_vsucc := hi_vsucc h + 1, hi_rsucc := hi_rsucc h + 1,
          hi_contin_succ := hi_contin_succ h + 1, hi_contin_err := 0\<rparr>
      else
        h\<lparr>hi_verr := hi_verr h + 1, hi_rerr := hi_rerr h + 1,
          hi_contin_succ := 0, hi_contin_err := hi_contin_err h + 1\<rparr>)"

definition turns_overload :: "load_balance_config \<Rightarrow> host_info \<Rightarrow> bool" where
  "turns_overload cfg h \<longleftrightarrow>
     rate_gt (hi_verr h) (hi_vsucc h + hi_verr h) (err_rate cfg) \<or> contin_err_limit cfg \<le> hi_contin_err h"

definition turns_idle :: "load_balance_config \<Rightarrow> host_info \<Rightarrow> bool" where
  "turns_idle cfg h \<longleftrightarrow>
     rate_gt (hi_vsucc h) (hi_vsucc h + hi_verr h) (succ_rate cfg) \<or> contin_succ_limit cfg \<le> hi_contin_succ h"

definition put_host :: "ptr \<Rightarrow> host_info \<Rightarrow> host_heap \<Rightarrow> host_heap" where
  "put_host p h mem = mem\<lparr>hh_hosts := (hh_hosts mem)(p \<mapsto> h)\<rparr>"

definition to_overload :: "ptr \<Rightarrow> load_balance \<Rightarrow> load_balance" where
  "to_overload p lb =
     lb\<lparr>lb_idle_list := removeAll p (lb_idle_list lb), lb_overload_list := lb_overload_list lb @ [p]\<rparr>"

definition to_idle :: "ptr \<Rightarrow> load_balance \<Rightarrow> load_balance" where
  "to_idle p lb =
     lb\<lparr>lb_idle_list := lb_idle_list lb @ [p], lb_overload_list := removeAll p (lb_overload_list lb)\<rparr>"

text \<open>The periodic check at the end of \<open>report\<close>.\<close>

definition check_window ::
  "load_balance_config \<Rightarrow> int \<Rightarrow> int \<Rightarrow> ptr \<Rightarrow> host_info \<Rightarrow> load_balance \<Rightarrow> host_heap \<Rightarrow> (load_balance \<times> host_heap) res" where
  "check_window cfg current_time now p h lb mem =
     (if \<not> hi_overload h then
        (if idle_timeout cfg \<le> current_time - hi_idle_ts h
         then Inr (lb, put_host p (set_idle cfg now h) mem)
         else Inr (lb, put_host p h mem))
      else
        (case hi_overload_ts h of
           None \<Rightarrow> Inl Uninitialised
         | Some overload_ts \<Rightarrow>
             if overload_timeout cfg \<le> current_time - overload_ts
             then Inr (to_idle p lb, put_host p (set_idle cfg now h) mem)
             else Inr (lb, put_host p h mem)))"

definition lb_report ::
  "load_balance_config \<Rightarrow> int \<Rightarrow> int \<Rightarrow> i32 \<Rightarrow> i32 \<Rightarrow> i32 \<Rightarrow> load_balance \<Rightarrow> host_heap \<Rightarrow> (load_balance \<times> host_heap) res" where
  "lb_report cfg current_time now ip port retcode lb mem =
     (case map_of (lb_host_map lb) (mk_key ip port) of
        None \<Rightarrow> Inr (lb, mem)
      | Some p \<Rightarrow>
          bindR (deref (hh_hosts mem) p) (\<lambda>h.
          (let h = count_result retcode h in
           if \<not> hi_overload h \<and> retcode \<noteq> RET_SUCC \<and> turns_overload cfg h
           then Inr (to_overload p lb, put_host p (set_overload cfg now h) mem)
           else if hi_overload h \<and> retcode = RET_SUCC \<and> turns_idle cfg h
           then Inr (to_idle p lb, put_host p (set_idle cfg now h) mem)
           else check_window cfg current_time now p h lb mem)))"

fun call_results :: "bool \<Rightarrow> ptr list \<Rightarrow> host_heap \<Rightarrow> HostCallResult list res" where
  "call_results over [] mem = Inr []"
| "call_results over (p # ps) mem =
     bindR (deref (hh_hosts mem) p) (\<lambda>hi.
     bindR (call_results over ps mem) (\<lambda>rs.
     Inr (\<lparr>hcr_ip = hi_ip hi, hcr_port = hi_port hi, hcr_succ = hi_rsucc hi, hcr_err = hi_rerr hi,
           hcr_overload = over\<rparr> # rs)))"

definition lb_commit ::
  "int \<Rightarrow> load_balance \<Rightarrow> host_heap \<Rightarrow> ReportStatusRequest thread_queue \<Rightarrow> ReportStatusRequest thread_queue res" where
  "lb_commit now lb mem report_queue =
     (if lb_empty lb then Inr report_queue
      else
        bindR (call_results False (lb_idle_list lb) mem) (\<lambda>idle.
        bindR (call_results True (lb_overload_list lb) mem) (\<lambda>over.
        Inr (tq_send \<lparr>rsr_modid = lb_modid lb, rsr_cmdid = lb_cmdid lb, rsr_caller = 127,
                      rsr_results = idle @ over, rsr_ts = word_of_int now\<rparr> report_queue))))"

text \<open>\<open>n\<close> successive choices, with the answers given.\<close>

fun choice_run ::
  "load_balance_config \<Rightarrow> GetHostResponse \<Rightarrow> nat \<Rightarrow> load_balance \<Rightarrow> host_heap \<Rightarrow>
   ((i32 \<times> GetHostResponse) list \<times> load_balance) res" where
  "choice_run cfg rsp 0 lb mem = Inr ([], lb)"
| "choice_run cfg rsp (Suc n) lb mem =
     bindR (choice_one_host cfg rsp lb mem) (\<lambda>(ret, rsp', lb).
     bindR (choice_run cfg rsp n lb mem) (\<lambda>(rs, lb). Inr ((ret, rsp') # rs, lb)))"

section \<open>The partition of the hosts\<close>

text \<open>
  The lists hold exactly the hosts of the map, each host once: the idle list those whose flag is
  clear, the overload list those whose flag is set (and whose \<open>overload_ts\<close> is therefore
  initialised). The counter of accesses never exceeds \<open>probe_num\<close>.
\<close>

definition host_at :: "host_heap \<Rightarrow> u64 \<Rightarrow> ptr \<Rightarrow> bool" where
  "host_at mem k p \<longleftrightarrow> (case hh_hosts mem p of None \<Rightarrow> False | Some h \<Rightarrow> mk_key (hi_ip h) (hi_port h) = k)"

definition idle_at :: "host_heap \<Rightarrow> ptr \<Rightarrow> bool" where
  "idle_at mem p \<longleftrightarrow> (case hh_hosts mem p of None \<Rightarrow> False | Some h \<Rightarrow> \<not> hi_overload h)"

definition over_at :: "host_heap \<Rightarrow> ptr \<Rightarrow> bool" where
  "over_at mem p \<longleftrightarrow> (case hh_hosts mem p of None \<Rightarrow> False | Some h \<Rightarrow> hi_overload h \<and> hi_overload_ts h \<noteq> None)"

definition lb_inv :: "load_balance_config \<Rightarrow> load_balance \<Rightarrow> host_heap \<Rightarrow> bool" where
  "lb_inv cfg lb mem \<longleftrightarrow>
     distinct (map fst (lb_host_map lb)) \<and>
     (\<forall>(k, p) \<in> set (lb_host_map lb). host_at mem k p) \<and>
     distinct (lb_idle_list lb @ lb_overload_list lb) \<and>
     set (lb_idle_list lb @ lb_overload_list lb) = snd ` set (lb_host_map lb) \<and>
     (\<forall>p \<in> set (lb_idle_list lb). idle_at mem p) \<and>
     (\<forall>p \<in> set (lb_overload_list lb). over_at mem p) \<and>
     (\<forall>p. hh_hosts mem p \<noteq> None \<longrightarrow> p < hh_fresh mem) \<and>
     0 \<le> lb_access_cnt lb \<and> lb_access_cnt lb \<le> max 0 (probe_num cfg) \<and> probe_num cfg < 2 ^ 31"

text \<open>An operation on one module leaves the hosts of the others alone.\<close>

definition heap_frame :: "ptr set \<Rightarrow> host_heap \<Rightarrow> host_heap \<Rightarrow> bool" where
  "heap_frame ps mem mem' \<longleftrightarrow>
     hh_fresh mem \<le> hh_fresh mem' \<and> (\<forall>p. p \<notin> ps \<and> p < hh_fresh mem \<longrightarrow> hh_hosts mem' p = hh_hosts mem p)"

declare bit_len.simps [simp del]

lemma heap_frame_refl [simp]: "heap_frame ps mem mem"
  by (simp add: heap_frame_def)

lemma lb_inv_host:
  assumes "lb_inv cfg lb mem" "(k, p) \<in> set (lb_host_map lb)"
  obtains h where "hh_hosts mem p = Some h" "mk_key (hi_ip h) (hi_port h) = k"
proof -
  from assms have "host_at mem k p" unfolding lb_inv_def by blast
  then show thesis using that by (auto simp: host_at_def split: option.splits)
qed

lemma lb_inv_listed:
  assumes "lb_inv cfg lb mem" "p \<in> set (lb_idle_list lb) \<or> p \<in> set (lb_overload_list lb)"
  obtains k h where "(k, p) \<in> set (lb_host_map lb)" "hh_hosts mem p = Some h" "mk_key (hi_ip h) (hi_port h) = k"
proof -
  from assms have "p \<in> snd ` set (lb_host_map lb)" unfolding lb_inv_def set_append by blast
  then obtain k where "(k, p) \<in> set (lb_host_map lb)" by auto
  with assms(1) that show thesis by (blast elim: lb_inv_host)
qed

lemma lb_inv_new: "probe_num cfg < 2 ^ 31 \<Longrightarrow> (\<forall>p. hh_hosts mem p \<noteq> None \<longrightarrow> p < hh_fresh mem) \<Longrightarrow>
  lb_inv cfg (load_balance_new m c now) mem"
  by (simp add: lb_inv_def load_balance_new_def)

lemma lb_inv_lists:
  assumes "lb_inv cfg lb mem" "lb_host_map lb' = lb_host_map lb"
    "mset (lb_idle_list lb') = mset (lb_idle_list lb)" "mset (lb_overload_list lb') = mset (lb_overload_list lb)"
    "0 \<le> lb_access_cnt lb'" "lb_access_cnt lb' \<le> max 0 (probe_num cfg)"
  shows "lb_inv cfg lb' mem"
proof -
  have "set (lb_idle_list lb') = set (lb_idle_list lb)" "set (lb_overload_list lb') = set (lb_overload_list lb)"
      "distinct (lb_idle_list lb') = distinct (lb_idle_list lb)"
      "distinct (lb_overload_list lb') = distinct (lb_overload_list lb)"
    using assms(3,4) by (auto dest: mset_eq_setD mset_eq_imp_distinct_iff)
  with assms show ?thesis by (simp add: lb_inv_def)
qed

definition answer_of :: "host_heap \<Rightarrow> GetHostResponse \<Rightarrow> ptr \<Rightarrow> GetHostResponse" where
  "answer_of mem rsp p =
     (case hh_hosts mem p of None \<Rightarrow> rsp | Some h \<Rightarrow> rsp\<lparr>ghs_host := Some \<lparr>pb_ip = hi_ip h, pb_port = hi_port h\<rparr>\<rparr>)"

text \<open>Under the invariant every choice answers, and the answer is determined by the two lists and the counter.\<close>

lemma choice_cases:
  assumes inv: "lb_inv cfg lb mem" and ne: "lb_host_map lb \<noteq> []"
  shows "choice_one_host cfg rsp lb mem =
    (case (lb_idle_list lb, lb_overload_list lb) of
       ([], q # qs) \<Rightarrow>
         if probe_num cfg \<le> lb_access_cnt lb
         then Inr (RET_SUCC, answer_of mem rsp q, lb\<lparr>lb_overload_list := qs @ [q], lb_access_cnt := 0\<rparr>)
         else Inr (RET_OVERLOAD, rsp, lb\<lparr>lb_access_cnt := lb_access_cnt lb + 1\<rparr>)
     | (p # ps, []) \<Rightarrow> Inr (RET_SUCC, answer_of mem rsp p, lb\<lparr>lb_idle_list := ps @ [p]\<rparr>)
     | (p # ps, q # qs) \<Rightarrow>
         if probe_num cfg \<le> lb_access_cnt lb
         then Inr (RET_SUCC, answer_of mem rsp q, lb\<lparr>lb_overload_list := qs @ [q], lb_access_cnt := 0\<rparr>)
         else Inr (RET_SUCC, answer_of mem rsp p,
                   lb\<lparr>lb_idle_list := ps @ [p], lb_access_cnt := lb_access_cnt lb + 1\<rparr>)
     | ([], []) \<Rightarrow> Inl Empty_Container)"
proof -
  have c: "lb_access_cnt lb < probe_num cfg \<Longrightarrow> add_i32 (lb_access_cnt lb) 1 = Inr (lb_access_cnt lb + 1)"
    using inv by (simp add: lb_inv_def)
  have i: "\<exists>h. hh_hosts mem p = Some h" if "lb_idle_list lb = p # ps" for p ps
    using that inv by (fastforce simp: lb_inv_def idle_at_def split: option.splits)
  have o: "\<exists>h. hh_hosts mem q = Some h" if "lb_overload_list lb = q # qs" for q qs
    using that inv by (fastforce simp: lb_inv_def over_at_def split: option.splits)
  have n: "\<not> (lb_idle_list lb = [] \<and> lb_overload_list lb = [])"
    using ne inv by (auto simp: lb_inv_def)
  show ?thesis
    using n c i o
    by (cases "lb_idle_list lb"; cases "lb_overload_list lb")
      (auto simp: choice_one_host_def get_host_from_list_def answer_of_def Let_def not_le)
qed

lemma choice_inv:
  assumes inv: "lb_inv cfg lb mem" and "lb_host_map lb \<noteq> []" and "choice_one_host cfg rsp lb mem = Inr (ret, rsp', lb')"
  shows "lb_inv cfg lb' mem \<and> lb_host_map lb' = lb_host_map lb"
proof -
  have "0 \<le> lb_access_cnt lb" "lb_access_cnt lb \<le> max 0 (probe_num cfg)" using inv by (auto simp: lb_inv_def)
  then have "lb_host_map lb' = lb_host_map lb \<and>
    mset (lb_idle_list lb') = mset (lb_idle_list lb) \<and> mset (lb_overload_list lb') = mset (lb_overload_list lb) \<and>
    0 \<le> lb_access_cnt lb' \<and> lb_access_cnt lb' \<le> max 0 (probe_num cfg)"
    using assms(3) unfolding choice_cases [OF assms(1,2)]
    by (auto split: list.splits if_splits)
  then show ?thesis using lb_inv_lists [OF inv] by blast
qed

lemma idle_at_answer: "idle_at mem p \<or> over_at mem p \<Longrightarrow>
  \<exists>h. hh_hosts mem p = Some h \<and> answer_of mem rsp p = rsp\<lparr>ghs_host := Some \<lparr>pb_ip = hi_ip h, pb_port = hi_port h\<rparr>\<rparr>"
  by (auto simp: idle_at_def over_at_def answer_of_def split: option.splits)

text \<open>Round robin on the idle list when no host is overloaded.\<close>

lemma choice_run_idle:
  assumes "lb_inv cfg lb mem" "lb_overload_list lb = []" "lb_idle_list lb = xs @ ys" "lb_host_map lb \<noteq> []"
  shows "choice_run cfg rsp (length xs) lb mem =
    Inr (map (\<lambda>p. (RET_SUCC, answer_of mem rsp p)) xs, lb\<lparr>lb_idle_list := ys @ xs\<rparr>)"
  using assms
proof (induction xs arbitrary: lb ys)
  case Nil
  then show ?case by simp
next
  case (Cons p xs)
  let ?lb = "lb\<lparr>lb_idle_list := xs @ (ys @ [p])\<rparr>"
  have "choice_one_host cfg rsp lb mem = Inr (RET_SUCC, answer_of mem rsp p, ?lb)"
    using Cons.prems by (simp add: choice_cases)
  moreover from this have "lb_inv cfg ?lb mem" using choice_inv [OF Cons.prems(1,4)] by blast
  ultimately show ?case using Cons.IH [of ?lb "ys @ [p]"] Cons.prems by simp
qed

text \<open>Every \<open>probe_num + 1\<close>-th choice goes to the overload list.\<close>

lemma choice_run_count:
  assumes "lb_inv cfg lb mem" "lb_overload_list lb = q # qs" "lb_access_cnt lb + int n \<le> probe_num cfg"
  shows "\<exists>rs lb'. choice_run cfg rsp n lb mem = Inr (rs, lb') \<and> lb_inv cfg lb' mem \<and>
    lb_host_map lb' = lb_host_map lb \<and> lb_overload_list lb' = q # qs \<and> lb_access_cnt lb' = lb_access_cnt lb + int n \<and>
    mset (lb_idle_list lb') = mset (lb_idle_list lb) \<and>
    (\<forall>r \<in> set rs. if lb_idle_list lb = [] then r = (RET_OVERLOAD, rsp)
                  else \<exists>p \<in> set (lb_idle_list lb). r = (RET_SUCC, answer_of mem rsp p))"
  using assms
proof (induction n arbitrary: lb)
  case 0
  then show ?case by simp
next
  case (Suc n)
  have ne: "lb_host_map lb \<noteq> []" using Suc.prems(1,2) by (auto simp: lb_inv_def)
  have lt: "\<not> probe_num cfg \<le> lb_access_cnt lb" using Suc.prems(3) by simp
  let ?c = "lb_access_cnt lb + 1"
  show ?case
  proof (cases "lb_idle_list lb")
    case Nil
    let ?lb = "lb\<lparr>lb_access_cnt := ?c\<rparr>"
    have c: "choice_one_host cfg rsp lb mem = Inr (RET_OVERLOAD, rsp, ?lb)"
      using Nil Suc.prems(2) lt by (simp add: choice_cases [OF Suc.prems(1) ne])
    then have "lb_inv cfg ?lb mem" using choice_inv [OF Suc.prems(1) ne] by blast
    from Suc.IH [OF this] Suc.prems(2,3) c Nil show ?thesis by auto
  next
    case (Cons p ps)
    let ?lb = "lb\<lparr>lb_idle_list := ps @ [p], lb_access_cnt := ?c\<rparr>"
    have c: "choice_one_host cfg rsp lb mem = Inr (RET_SUCC, answer_of mem rsp p, ?lb)"
      using Cons Suc.prems(2) lt by (simp add: choice_cases [OF Suc.prems(1) ne])
    then have "lb_inv cfg ?lb mem" using choice_inv [OF Suc.prems(1) ne] by blast
    from Suc.IH [OF this] Suc.prems(2,3) c Cons show ?thesis by auto
  qed
qed

section \<open>Reports\<close>

lemma put_host_at:
  "hh_hosts mem p = Some h \<Longrightarrow> mk_key (hi_ip h') (hi_port h') = mk_key (hi_ip h) (hi_port h) \<Longrightarrow>
   host_at (put_host p h' mem) k q = host_at mem k q"
  by (auto simp: put_host_def host_at_def)

lemma put_host_idle: "idle_at (put_host p h' mem) q = (if q = p then \<not> hi_overload h' else idle_at mem q)"
  by (simp add: put_host_def idle_at_def)

lemma put_host_over: "over_at (put_host p h' mem) q = (if q = p then hi_overload h' \<and> hi_overload_ts h' \<noteq> None else over_at mem q)"
  by (simp add: put_host_def over_at_def)

lemma put_host_fresh:
  "hh_hosts mem p = Some h \<Longrightarrow> \<forall>q. hh_hosts mem q \<noteq> None \<longrightarrow> q < hh_fresh mem \<Longrightarrow>
   \<forall>q. hh_hosts (put_host p h' mem) q \<noteq> None \<longrightarrow> q < hh_fresh (put_host p h' mem)"
  by (auto simp: put_host_def)

lemma put_host_frame: "p \<in> ps \<Longrightarrow> heap_frame ps mem (put_host p h mem)"
  by (auto simp: heap_frame_def put_host_def)

lemma in_idle:
  assumes "lb_inv cfg lb mem" "(k, p) \<in> set (lb_host_map lb)" "hh_hosts mem p = Some h" "\<not> hi_overload h"
  shows "p \<in> set (lb_idle_list lb)" "p \<notin> set (lb_overload_list lb)"
proof -
  have "p \<in> snd ` set (lb_host_map lb)" using assms(2) by force
  moreover have "\<not> over_at mem p" using assms(3,4) by (simp add: over_at_def)
  ultimately show "p \<in> set (lb_idle_list lb)" "p \<notin> set (lb_overload_list lb)"
    using assms(1) unfolding lb_inv_def set_append by blast+
qed

lemma in_overload:
  assumes "lb_inv cfg lb mem" "(k, p) \<in> set (lb_host_map lb)" "hh_hosts mem p = Some h" "hi_overload h"
  shows "p \<in> set (lb_overload_list lb)" "p \<notin> set (lb_idle_list lb)" "hi_overload_ts h \<noteq> None"
proof -
  have "p \<in> snd ` set (lb_host_map lb)" using assms(2) by force
  moreover have "\<not> idle_at mem p" using assms(3,4) by (simp add: idle_at_def)
  ultimately show "p \<in> set (lb_overload_list lb)" "p \<notin> set (lb_idle_list lb)"
    using assms(1) unfolding lb_inv_def set_append by blast+
  then show "hi_overload_ts h \<noteq> None" using assms(1,3) by (auto simp: lb_inv_def over_at_def)
qed

text \<open>The three ways a report changes the state of a host.\<close>

lemma lb_inv_stay:
  assumes inv: "lb_inv cfg lb mem" and kp: "(k, p) \<in> set (lb_host_map lb)" and h: "hh_hosts mem p = Some h"
    and key: "mk_key (hi_ip h') (hi_port h') = mk_key (hi_ip h) (hi_port h)"
    and fl: "hi_overload h' = hi_overload h" "hi_overload_ts h' = hi_overload_ts h"
  shows "lb_inv cfg lb (put_host p h' mem)"
proof -
  have "idle_at (put_host p h' mem) q = idle_at mem q" "over_at (put_host p h' mem) q = over_at mem q" for q
    using h fl by (auto simp: put_host_def idle_at_def over_at_def)
  then show ?thesis
    using inv put_host_fresh [OF h, of h'] by (simp add: lb_inv_def put_host_at [OF h key])
qed

lemma lb_inv_to_overload:
  assumes inv: "lb_inv cfg lb mem" and kp: "(k, p) \<in> set (lb_host_map lb)" and h: "hh_hosts mem p = Some h"
    and key: "mk_key (hi_ip h') (hi_port h') = mk_key (hi_ip h) (hi_port h)"
    and fl: "\<not> hi_overload h" "hi_overload h'" "hi_overload_ts h' \<noteq> None"
  shows "lb_inv cfg (to_overload p lb) (put_host p h' mem)"
proof -
  note p = in_idle [OF inv kp h fl(1)]
  have "distinct (removeAll p (lb_idle_list lb) @ lb_overload_list lb @ [p])"
      "set (removeAll p (lb_idle_list lb) @ lb_overload_list lb @ [p]) = snd ` set (lb_host_map lb)"
    using inv p by (auto simp: lb_inv_def distinct_removeAll)
  then show ?thesis
    using inv fl put_host_fresh [OF h, of h']
    by (simp add: lb_inv_def put_host_at [OF h key] put_host_idle put_host_over to_overload_def)
qed

lemma lb_inv_to_idle:
  assumes inv: "lb_inv cfg lb mem" and kp: "(k, p) \<in> set (lb_host_map lb)" and h: "hh_hosts mem p = Some h"
    and key: "mk_key (hi_ip h') (hi_port h') = mk_key (hi_ip h) (hi_port h)"
    and fl: "hi_overload h" "\<not> hi_overload h'"
  shows "lb_inv cfg (to_idle p lb) (put_host p h' mem)"
proof -
  note p = in_overload [OF inv kp h fl(1)]
  have "distinct ((lb_idle_list lb @ [p]) @ removeAll p (lb_overload_list lb))"
      "set ((lb_idle_list lb @ [p]) @ removeAll p (lb_overload_list lb)) = snd ` set (lb_host_map lb)"
    using inv p by (auto simp: lb_inv_def distinct_removeAll)
  then show ?thesis
    using inv fl put_host_fresh [OF h, of h']
    by (simp add: lb_inv_def put_host_at [OF h key] put_host_idle put_host_over to_idle_def)
qed

lemma count_result_fields [simp]:
  "hi_ip (count_result r h) = hi_ip h" "hi_port (count_result r h) = hi_port h"
  "hi_overload (count_result r h) = hi_overload h" "hi_overload_ts (count_result r h) = hi_overload_ts h"
  "hi_idle_ts (count_result r h) = hi_idle_ts h"
  by (simp_all add: count_result_def)

lemma set_fields [simp]:
  "hi_ip (set_idle cfg t h) = hi_ip h" "hi_port (set_idle cfg t h) = hi_port h" "\<not> hi_overload (set_idle cfg t h)"
  "hi_overload_ts (set_idle cfg t h) = hi_overload_ts h"
  "hi_ip (set_overload cfg t h) = hi_ip h" "hi_port (set_overload cfg t h) = hi_port h" "hi_overload (set_overload cfg t h)"
  "hi_overload_ts (set_overload cfg t h) = Some t"
  by (simp_all add: set_idle_def set_overload_def)

text \<open>
  The state machine of one host, as one report drives it: the new record, and whether it has to
  change lists. \<open>expired\<close> says that its window or its time in the overload list has passed.
\<close>

definition expired :: "load_balance_config \<Rightarrow> int \<Rightarrow> host_info \<Rightarrow> bool" where
  "expired cfg current_time h \<longleftrightarrow>
     (if hi_overload h then overload_timeout cfg \<le> current_time - the (hi_overload_ts h)
      else idle_timeout cfg \<le> current_time - hi_idle_ts h)"

definition host_next :: "load_balance_config \<Rightarrow> int \<Rightarrow> int \<Rightarrow> i32 \<Rightarrow> host_info \<Rightarrow> host_info" where
  "host_next cfg current_time now retcode h =
     (let h = count_result retcode h in
      if \<not> hi_overload h \<and> retcode \<noteq> RET_SUCC \<and> turns_overload cfg h then set_overload cfg now h
      else if (hi_overload h \<and> retcode = RET_SUCC \<and> turns_idle cfg h) \<or> expired cfg current_time h
      then set_idle cfg now h
      else h)"

definition move_host :: "ptr \<Rightarrow> bool \<Rightarrow> bool \<Rightarrow> load_balance \<Rightarrow> load_balance" where
  "move_host p was is lb =
     (if was = is then lb else if is then to_overload p lb else to_idle p lb)"

lemma lb_report_refines:
  assumes "map_of (lb_host_map lb) (mk_key ip port) = Some p" "hh_hosts mem p = Some h"
    and "hi_overload h \<longrightarrow> hi_overload_ts h \<noteq> None"
  shows "lb_report cfg current_time now ip port retcode lb mem =
    (let h' = host_next cfg current_time now retcode h in
     Inr (move_host p (hi_overload h) (hi_overload h') lb, put_host p h' mem))"
  using assms
  by (auto simp: lb_report_def host_next_def check_window_def expired_def move_host_def Let_def)

lemma host_next_fields:
  "hi_ip (host_next cfg t now r h) = hi_ip h" "hi_port (host_next cfg t now r h) = hi_port h"
  by (simp_all add: host_next_def Let_def)

lemma host_next_ts:
  "hi_overload (host_next cfg t now r h) \<Longrightarrow> \<not> hi_overload h \<Longrightarrow> hi_overload_ts (host_next cfg t now r h) \<noteq> None"
  "hi_overload (host_next cfg t now r h) = hi_overload h \<Longrightarrow> hi_overload_ts (host_next cfg t now r h) = hi_overload_ts h"
  by (auto simp: host_next_def Let_def split: if_splits)

lemma lb_report_inv:
  assumes inv: "lb_inv cfg lb mem"
  shows "\<exists>lb' mem'. lb_report cfg current_time now ip port retcode lb mem = Inr (lb', mem') \<and> lb_inv cfg lb' mem' \<and>
    lb_host_map lb' = lb_host_map lb \<and> heap_frame (snd ` set (lb_host_map lb)) mem mem'"
proof (cases "map_of (lb_host_map lb) (mk_key ip port)")
  case None
  with inv show ?thesis by (simp add: lb_report_def)
next
  case (Some p)
  then have kp: "(mk_key ip port, p) \<in> set (lb_host_map lb)" by (rule map_of_SomeD)
  obtain h where h: "hh_hosts mem p = Some h" using lb_inv_host [OF inv kp] .
  let ?h = "host_next cfg current_time now retcode h"
  have ts: "hi_overload h \<longrightarrow> hi_overload_ts h \<noteq> None" using in_overload(3) [OF inv kp h] by blast
  have key: "mk_key (hi_ip ?h) (hi_port ?h) = mk_key (hi_ip h) (hi_port h)" by (simp only: host_next_fields)
  have "lb_inv cfg (move_host p (hi_overload h) (hi_overload ?h) lb) (put_host p ?h mem)"
    using lb_inv_stay [OF inv kp h key] lb_inv_to_idle [OF inv kp h key] lb_inv_to_overload [OF inv kp h key] host_next_ts
    by (auto simp: move_host_def)
  moreover have "lb_host_map (move_host p a b lb) = lb_host_map lb" for a b
    by (simp add: move_host_def to_idle_def to_overload_def)
  moreover have "heap_frame (snd ` set (lb_host_map lb)) mem (put_host p ?h mem)"
    using kp by (intro put_host_frame) force
  ultimately show ?thesis by (simp add: lb_report_refines [OF Some h ts] Let_def)
qed

section \<open>Updates from the route service\<close>

definition host_key :: "HostInfo \<Rightarrow> u64" where
  "host_key h = mk_key (pb_ip h) (pb_port h)"

text \<open>What the first loop of \<open>update\<close> does to the module and the heap.\<close>

definition hosts_added :: "HostInfo list \<Rightarrow> load_balance \<Rightarrow> host_heap \<Rightarrow> load_balance \<Rightarrow> host_heap \<Rightarrow> bool" where
  "hosts_added hs lb mem lb' mem' \<longleftrightarrow>
     fst ` set (lb_host_map lb') = fst ` set (lb_host_map lb) \<union> host_key ` set hs \<and>
     (\<exists>new. lb_host_map lb' = lb_host_map lb @ new \<and> lb_idle_list lb' = lb_idle_list lb @ map snd new) \<and>
     lb_overload_list lb' = lb_overload_list lb \<and> heap_frame {} mem mem'"

lemma heap_frame_trans: "heap_frame ps a b \<Longrightarrow> heap_frame qs b c \<Longrightarrow> heap_frame (ps \<union> qs) a c"
  by (auto simp: heap_frame_def)

lemma lb_inv_add_host:
  assumes inv: "lb_inv cfg lb mem" and new: "map_of (lb_host_map lb) (host_key h) = None"
  shows "lb_inv cfg
    (lb\<lparr>lb_host_map := lb_host_map lb @ [(host_key h, hh_fresh mem)], lb_idle_list := lb_idle_list lb @ [hh_fresh mem]\<rparr>)
    (mem\<lparr>hh_hosts := (hh_hosts mem)(hh_fresh mem \<mapsto> host_info_new (pb_ip h) (pb_port h) n t),
         hh_fresh := Suc (hh_fresh mem)\<rparr>)" (is "lb_inv cfg ?lb ?mem")
proof -
  let ?p = "hh_fresh mem"
  have none: "hh_hosts mem ?p = None" using inv unfolding lb_inv_def by (metis less_irrefl)
  have p: "?p \<notin> snd ` set (lb_host_map lb)"
  proof
    assume "?p \<in> snd ` set (lb_host_map lb)"
    then obtain k where "(k, ?p) \<in> set (lb_host_map lb)" by auto
    then obtain x where "hh_hosts mem ?p = Some x" using lb_inv_host [OF inv] by blast
    then show False using none by simp
  qed
  have at: "host_at ?mem k q = host_at mem k q" "idle_at ?mem q = idle_at mem q" "over_at ?mem q = over_at mem q"
    if "q \<noteq> ?p" for k q
    using that by (simp_all add: host_at_def idle_at_def over_at_def)
  have newp: "host_at ?mem (host_key h) ?p" "idle_at ?mem ?p"
    by (simp_all add: host_at_def idle_at_def host_info_new_def host_key_def)
  have key: "host_key h \<notin> fst ` set (lb_host_map lb)" using new by (simp add: map_of_eq_None_iff)
  have ls: "?p \<notin> set (lb_idle_list lb)" "?p \<notin> set (lb_overload_list lb)"
    using inv p unfolding lb_inv_def set_append by blast+
  have hm: "\<forall>(k, q) \<in> set (lb_host_map ?lb). host_at ?mem k q"
  proof clarify
    fix k q assume "(k, q) \<in> set (lb_host_map ?lb)"
    then consider "(k, q) \<in> set (lb_host_map lb)" | "k = host_key h" "q = ?p" by auto
    then show "host_at ?mem k q"
    proof cases
      case 1
      then have "q \<noteq> ?p" using p by force
      moreover have "host_at mem k q" using 1 inv unfolding lb_inv_def by blast
      ultimately show ?thesis using at(1) by blast
    qed (use newp in simp)
  qed
  have idl: "\<forall>q \<in> set (lb_idle_list ?lb). idle_at ?mem q" "\<forall>q \<in> set (lb_overload_list ?lb). over_at ?mem q"
  proof -
    have "idle_at mem q" "q \<noteq> ?p" if "q \<in> set (lb_idle_list lb)" for q
      using that inv ls unfolding lb_inv_def by blast+
    then show "\<forall>q \<in> set (lb_idle_list ?lb). idle_at ?mem q" using newp at(2) by auto
    have "over_at mem q" "q \<noteq> ?p" if "q \<in> set (lb_overload_list lb)" for q
      using that inv ls unfolding lb_inv_def by blast+
    then show "\<forall>q \<in> set (lb_overload_list ?lb). over_at ?mem q" using at(3) by auto
  qed
  have fr: "\<forall>q. hh_hosts ?mem q \<noteq> None \<longrightarrow> q < hh_fresh ?mem"
    using inv by (auto simp: lb_inv_def less_Suc_eq)
  have "set (lb_idle_list lb) \<union> set (lb_overload_list lb) = snd ` set (lb_host_map lb)"
    using inv by (simp add: lb_inv_def)
  then have st: "set (lb_idle_list ?lb @ lb_overload_list ?lb) = snd ` set (lb_host_map ?lb)"
    by auto
  show ?thesis using inv key ls hm idl fr st by (simp add: lb_inv_def)
qed

lemma insert_hosts_added:
  assumes "lb_inv cfg lb mem"
  shows "\<exists>lb' mem'. insert_hosts cfg ts i hs remote lb mem = (remote \<union> host_key ` set hs, lb', mem') \<and>
    lb_inv cfg lb' mem' \<and> hosts_added hs lb mem lb' mem' \<and>
    lb_modid lb' = lb_modid lb \<and> lb_cmdid lb' = lb_cmdid lb \<and> lb_access_cnt lb' = lb_access_cnt lb"
  using assms
proof (induction hs arbitrary: i remote lb mem)
  case Nil
  then show ?case by (simp add: hosts_added_def)
next
  case (Cons h hs)
  show ?case
  proof (cases "map_of (lb_host_map lb) (host_key h)")
    case (Some p)
    have k: "host_key h \<in> fst ` set (lb_host_map lb)" using map_of_SomeD [OF Some] by force
    obtain lb' mem' where r: "insert_hosts cfg ts (Suc i) hs (insert (host_key h) remote) lb mem =
          (insert (host_key h) remote \<union> host_key ` set hs, lb', mem')"
        "lb_inv cfg lb' mem'" "hosts_added hs lb mem lb' mem'"
        "lb_modid lb' = lb_modid lb" "lb_cmdid lb' = lb_cmdid lb" "lb_access_cnt lb' = lb_access_cnt lb"
      using Cons.IH [OF Cons.prems, of "Suc i" "insert (host_key h) remote"] by blast
    have "hosts_added (h # hs) lb mem lb' mem'"
      using r(3) k unfolding hosts_added_def by auto
    moreover have "insert_hosts cfg ts i (h # hs) remote lb mem =
        insert_hosts cfg ts (Suc i) hs (insert (host_key h) remote) lb mem"
      using Some by (simp add: host_key_def Let_def)
    ultimately show ?thesis using r by auto
  next
    case None
    let ?lb = "lb\<lparr>lb_host_map := lb_host_map lb @ [(host_key h, hh_fresh mem)],
                  lb_idle_list := lb_idle_list lb @ [hh_fresh mem]\<rparr>"
    let ?mem = "mem\<lparr>hh_hosts := (hh_hosts mem)(hh_fresh mem \<mapsto>
                      host_info_new (pb_ip h) (pb_port h) (init_succ_cnt cfg) (ts i)),
                    hh_fresh := Suc (hh_fresh mem)\<rparr>"
    have fr: "heap_frame {} mem ?mem" by (auto simp: heap_frame_def)
    obtain lb' mem' where r: "insert_hosts cfg ts (Suc i) hs (insert (host_key h) remote) ?lb ?mem =
          (insert (host_key h) remote \<union> host_key ` set hs, lb', mem')"
        "lb_inv cfg lb' mem'" "hosts_added hs ?lb ?mem lb' mem'"
        "lb_modid lb' = lb_modid lb" "lb_cmdid lb' = lb_cmdid lb" "lb_access_cnt lb' = lb_access_cnt lb"
      using Cons.IH [OF lb_inv_add_host [OF Cons.prems None, of "init_succ_cnt cfg" "ts i"],
          of "Suc i" "insert (host_key h) remote"] by auto
    have "hosts_added (h # hs) lb mem lb' mem'"
      using r(3) heap_frame_trans [OF fr, of "{}" mem'] by (auto simp: hosts_added_def)
    moreover have "insert_hosts cfg ts i (h # hs) remote lb mem =
        insert_hosts cfg ts (Suc i) hs (insert (host_key h) remote) ?lb ?mem"
      using None by (simp add: host_key_def Let_def)
    ultimately show ?thesis using r by auto
  qed
qed

lemma set_sorted_keys: "set (foldr insort_insert ks []) = set (ks :: u64 list)"
  by (induction ks) (auto simp: set_insort_insert)

lemma distinct_sorted_keys: "distinct (foldr insort_insert ks []) \<and> sorted (foldr insort_insert ks ([] :: u64 list))"
  by (induction ks) (auto simp: distinct_insort_insert sorted_insort_insert)

text \<open>The hosts that the second part of \<open>update\<close> deletes.\<close>

definition dropped :: "u64 set \<Rightarrow> load_balance \<Rightarrow> ptr set" where
  "dropped keys lb = snd ` {(k, p) \<in> set (lb_host_map lb). k \<in> keys}"

lemma delete_hosts_exact:
  assumes "distinct keys" and "set keys \<subseteq> fst ` set hm" and "distinct (map fst hm)" and "distinct (map snd hm)"
    and "lb_host_map lb = hm"
    and "\<And>k p. (k, p) \<in> set hm \<Longrightarrow> k \<in> set keys \<Longrightarrow>
           \<exists>h. hh_hosts mem p = Some h \<and> p \<notin> set (if hi_overload h then lb_idle_list lb else lb_overload_list lb)"
  shows "delete_hosts keys lb mem =
    Inr (lb\<lparr>lb_idle_list := filter (\<lambda>p. p \<notin> dropped (set keys) lb) (lb_idle_list lb),
            lb_overload_list := filter (\<lambda>p. p \<notin> dropped (set keys) lb) (lb_overload_list lb)\<rparr>,
         mem\<lparr>hh_hosts := (\<lambda>p. if p \<in> dropped (set keys) lb then None else hh_hosts mem p)\<rparr>)"
  using assms
proof (induction keys arbitrary: lb mem)
  case Nil
  then show ?case by (simp add: dropped_def)
next
  case (Cons key keys)
  from Cons.prems(2) obtain p where kp: "(key, p) \<in> set hm" by auto
  then have m: "map_of hm key = Some p" using Cons.prems(3) by simp
  from Cons.prems(6) [OF kp] obtain h where h: "hh_hosts mem p = Some h"
      and hp: "p \<notin> set (if hi_overload h then lb_idle_list lb else lb_overload_list lb)"
    by auto
  have rem: "removeAll p (if hi_overload h then lb_idle_list lb else lb_overload_list lb) =
      (if hi_overload h then lb_idle_list lb else lb_overload_list lb)"
    using hp by simp
  define lb1 where "lb1 = lb\<lparr>lb_idle_list := removeAll p (lb_idle_list lb),
                             lb_overload_list := removeAll p (lb_overload_list lb)\<rparr>"
  define mem1 where "mem1 = mem\<lparr>hh_hosts := (hh_hosts mem)(p := None)\<rparr>"
  have lb1: "(if hi_overload h then lb\<lparr>lb_overload_list := removeAll p (lb_overload_list lb)\<rparr>
              else lb\<lparr>lb_idle_list := removeAll p (lb_idle_list lb)\<rparr>) = lb1"
    using rem by (cases lb) (auto simp: lb1_def split: if_splits)
  have other: "q \<noteq> p" if "(k, q) \<in> set hm" "k \<in> set keys" for k q
  proof
    assume "q = p"
    moreover have "inj_on snd (set hm)" using Cons.prems(4) by (simp add: distinct_map)
    ultimately have "k = key" using inj_onD [of snd "set hm" "(k, q)" "(key, p)"] that(1) kp by simp
    with that(2) Cons.prems(1) show False by simp
  qed
  have IH: "delete_hosts keys lb1 mem1 =
    Inr (lb1\<lparr>lb_idle_list := filter (\<lambda>p. p \<notin> dropped (set keys) lb1) (lb_idle_list lb1),
             lb_overload_list := filter (\<lambda>p. p \<notin> dropped (set keys) lb1) (lb_overload_list lb1)\<rparr>,
         mem1\<lparr>hh_hosts := (\<lambda>p. if p \<in> dropped (set keys) lb1 then None else hh_hosts mem1 p)\<rparr>)"
  proof (rule Cons.IH)
    fix k q assume kq: "(k, q) \<in> set hm" "k \<in> set keys"
    with Cons.prems(6) [of k q] obtain g where "hh_hosts mem q = Some g"
        "q \<notin> set (if hi_overload g then lb_idle_list lb else lb_overload_list lb)" by auto
    then show "\<exists>h. hh_hosts mem1 q = Some h \<and> q \<notin> set (if hi_overload h then lb_idle_list lb1 else lb_overload_list lb1)"
      using other [OF kq] by (auto simp: mem1_def lb1_def split: if_splits)
  qed (use Cons.prems in \<open>auto simp: lb1_def\<close>)
  have d: "dropped (set (key # keys)) lb = insert p (dropped (set keys) lb1)"
  proof -
    have bp: "b = p" if "(key, b) \<in> set hm" for b
      by (rule eq_key_imp_eq_value [OF Cons.prems(3) that kp])
    have "{(k, q) \<in> set hm. k \<in> set (key # keys)} = insert (key, p) {(k, q) \<in> set hm. k \<in> set keys}"
      using kp by (auto dest: bp)
    then show ?thesis using Cons.prems(5) by (simp add: dropped_def lb1_def)
  qed
  have "delete_hosts (key # keys) lb mem = delete_hosts keys lb1 mem1"
    using m h Cons.prems(5) by (simp add: lb1 mem1_def)
  also have "\<dots> = Inr (lb\<lparr>lb_idle_list := filter (\<lambda>q. q \<notin> dropped (set (key # keys)) lb) (lb_idle_list lb),
            lb_overload_list := filter (\<lambda>q. q \<notin> dropped (set (key # keys)) lb) (lb_overload_list lb)\<rparr>,
         mem\<lparr>hh_hosts := (\<lambda>q. if q \<in> dropped (set (key # keys)) lb then None else hh_hosts mem q)\<rparr>)"
    unfolding IH d by (auto simp: lb1_def mem1_def removeAll_filter_not_eq fun_eq_iff eq_commute [of p])
  finally show ?case .
qed

text \<open>
  What an update gives: the hosts offered afterwards are exactly those of the response. A host
  that was already known keeps its record and its list, a new one is appended to the idle list
  with fresh counters, a host that is no longer in the response leaves its list and is deleted.
\<close>

definition kept :: "u64 set \<Rightarrow> load_balance \<Rightarrow> ptr \<Rightarrow> bool" where
  "kept keys lb p \<longleftrightarrow> (\<exists>k \<in> keys. (k, p) \<in> set (lb_host_map lb))"

definition updated :: "u64 set \<Rightarrow> load_balance \<Rightarrow> host_heap \<Rightarrow> load_balance \<Rightarrow> host_heap \<Rightarrow> bool" where
  "updated keys lb mem lb' mem' \<longleftrightarrow>
     (\<exists>new. lb_host_map lb' = lb_host_map lb @ new \<and>
        fst ` set new = keys - fst ` set (lb_host_map lb) \<and>
        lb_idle_list lb' = filter (kept keys lb) (lb_idle_list lb) @ map snd new \<and>
        lb_overload_list lb' = filter (kept keys lb) (lb_overload_list lb) \<and>
        (\<forall>(k, p) \<in> set new. host_at mem' k p \<and> idle_at mem' p) \<and>
        (\<forall>(k, p) \<in> set (lb_host_map lb). hh_hosts mem' p = (if k \<in> keys then hh_hosts mem p else None)))"

lemma lb_inv_distinct_ptrs: "lb_inv cfg lb mem \<Longrightarrow> distinct (map snd (lb_host_map lb))"
proof -
  assume inv: "lb_inv cfg lb mem"
  have "distinct (lb_host_map lb)" using inv by (simp add: lb_inv_def distinct_map)
  moreover have "inj_on snd (set (lb_host_map lb))"
  proof (rule inj_onI)
    fix x y assume x: "x \<in> set (lb_host_map lb)" and y: "y \<in> set (lb_host_map lb)" and e: "snd x = snd y"
    have "host_at mem (fst x) (snd x)" "host_at mem (fst y) (snd y)"
      using inv x y unfolding lb_inv_def by auto
    with e have "fst x = fst y" by (auto simp: host_at_def split: option.splits)
    with e show "x = y" by (simp add: prod_eq_iff)
  qed
  ultimately show ?thesis by (simp add: distinct_map)
qed

lemma lb_ptr_key:
  assumes "lb_inv cfg lb mem" "(k, p) \<in> set (lb_host_map lb)" "(k', p) \<in> set (lb_host_map lb)"
  shows "k' = k"
proof -
  have "host_at mem k p" "host_at mem k' p" using assms unfolding lb_inv_def by blast+
  then show ?thesis by (auto simp: host_at_def split: option.splits)
qed

lemma dropped_iff:
  assumes "lb_inv cfg lb mem" "(k, p) \<in> set (lb_host_map lb)"
  shows "p \<in> dropped ks lb \<longleftrightarrow> k \<in> ks"
proof -
  have "p \<in> dropped ks lb \<longleftrightarrow> (\<exists>k'. (k', p) \<in> set (lb_host_map lb) \<and> k' \<in> ks)"
    by (auto simp: dropped_def image_iff)
  then show ?thesis using assms lb_ptr_key [OF assms] by blast
qed

lemma kept_iff:
  assumes "lb_inv cfg lb mem" "(k, p) \<in> set (lb_host_map lb)"
  shows "kept ks lb p \<longleftrightarrow> k \<in> ks"
  using assms lb_ptr_key [OF assms(1)] unfolding kept_def by blast

definition drop_hosts :: "u64 set \<Rightarrow> load_balance \<Rightarrow> load_balance" where
  "drop_hosts ks lb =
     lb\<lparr>lb_idle_list := filter (\<lambda>p. p \<notin> dropped ks lb) (lb_idle_list lb),
        lb_overload_list := filter (\<lambda>p. p \<notin> dropped ks lb) (lb_overload_list lb)\<rparr>"

definition free_hosts :: "u64 set \<Rightarrow> load_balance \<Rightarrow> host_heap \<Rightarrow> host_heap" where
  "free_hosts ks lb mem = mem\<lparr>hh_hosts := (\<lambda>p. if p \<in> dropped ks lb then None else hh_hosts mem p)\<rparr>"

lemma delete_hosts_inv:
  assumes inv: "lb_inv cfg lb mem" and "distinct ks" "set ks \<subseteq> fst ` set (lb_host_map lb)"
  shows "delete_hosts ks lb mem = Inr (drop_hosts (set ks) lb, free_hosts (set ks) lb mem)"
  unfolding drop_hosts_def free_hosts_def
proof (rule delete_hosts_exact [OF assms(2,3) _ lb_inv_distinct_ptrs [OF inv] refl])
  show "distinct (map fst (lb_host_map lb))" using inv by (simp add: lb_inv_def)
  fix k p assume kp: "(k, p) \<in> set (lb_host_map lb)"
  then obtain h where h: "hh_hosts mem p = Some h" using lb_inv_host [OF inv] by blast
  then show "\<exists>h. hh_hosts mem p = Some h \<and> p \<notin> set (if hi_overload h then lb_idle_list lb else lb_overload_list lb)"
    using in_idle(2) [OF inv kp h] in_overload(2) [OF inv kp h] by auto
qed

lemma lb_update_run:
  assumes inv: "lb_inv cfg lb mem" and ne: "grs_host rsp \<noteq> []"
  obtains lb1 mem1 ks where "lb_inv cfg lb1 mem1" "hosts_added (grs_host rsp) lb mem lb1 mem1"
    "ks = fst ` set (lb_host_map lb1) - host_key ` set (grs_host rsp)"
    "lb_update cfg t ts rsp lb mem =
       Inr ((drop_hosts ks lb1)\<lparr>lb_status := NEW, lb_last_update_time := t\<rparr>, free_hosts ks lb1 mem1)"
proof -
  let ?K = "host_key ` set (grs_host rsp)"
  obtain lb1 mem1 where ins: "insert_hosts cfg ts 0 (grs_host rsp) {} lb mem = (?K, lb1, mem1)"
      and inv1: "lb_inv cfg lb1 mem1" and added: "hosts_added (grs_host rsp) lb mem lb1 mem1"
    using insert_hosts_added [OF inv, of ts 0 "grs_host rsp" "{}"] by auto
  define nd where "nd = foldr insort_insert (filter (\<lambda>k. k \<notin> ?K) (map fst (lb_host_map lb1))) []"
  have nd: "set nd = fst ` set (lb_host_map lb1) - ?K" "distinct nd"
    unfolding nd_def set_sorted_keys using distinct_sorted_keys by auto
  have "delete_hosts nd lb1 mem1 = Inr (drop_hosts (set nd) lb1, free_hosts (set nd) lb1 mem1)"
    by (rule delete_hosts_inv [OF inv1 nd(2)]) (use nd(1) in blast)
  then have "lb_update cfg t ts rsp lb mem =
      Inr ((drop_hosts (set nd) lb1)\<lparr>lb_status := NEW, lb_last_update_time := t\<rparr>, free_hosts (set nd) lb1 mem1)"
    using ne ins by (simp add: lb_update_def nd_def [symmetric])
  then show thesis using that [OF inv1 added nd(1)] by blast
qed

lemma hosts_added_new:
  assumes "lb_inv cfg lb1 mem1" "hosts_added hs lb mem lb1 mem1"
  obtains new where "lb_host_map lb1 = lb_host_map lb @ new" "lb_idle_list lb1 = lb_idle_list lb @ map snd new"
    "lb_overload_list lb1 = lb_overload_list lb" "heap_frame {} mem mem1"
    "fst ` set new = host_key ` set hs - fst ` set (lb_host_map lb)"
proof -
  from assms(2) obtain new where new: "lb_host_map lb1 = lb_host_map lb @ new" "lb_idle_list lb1 = lb_idle_list lb @ map snd new"
      "lb_overload_list lb1 = lb_overload_list lb" "heap_frame {} mem mem1"
      and keys: "fst ` set (lb_host_map lb1) = fst ` set (lb_host_map lb) \<union> host_key ` set hs"
    by (auto simp: hosts_added_def)
  have "distinct (map fst (lb_host_map lb1))" using assms(1) by (simp add: lb_inv_def)
  then have "fst ` set (lb_host_map lb) \<inter> fst ` set new = {}" using new(1) by simp
  moreover have "fst ` set (lb_host_map lb) \<union> fst ` set new = fst ` set (lb_host_map lb) \<union> host_key ` set hs"
    using keys new(1) by (simp add: image_Un)
  ultimately have "fst ` set new = host_key ` set hs - fst ` set (lb_host_map lb)" by blast
  with new that show thesis by blast
qed

lemma updated_drop:
  assumes inv: "lb_inv cfg lb mem" and inv1: "lb_inv cfg lb1 mem1" and add: "hosts_added hs lb mem lb1 mem1"
    and ks: "ks = fst ` set (lb_host_map lb1) - host_key ` set hs"
  shows "updated (host_key ` set hs) lb mem ((drop_hosts ks lb1)\<lparr>lb_status := s, lb_last_update_time := t\<rparr>) (free_hosts ks lb1 mem1)"
proof -
  let ?K = "host_key ` set hs"
  from hosts_added_new [OF inv1 add] obtain new where
    new: "lb_host_map lb1 = lb_host_map lb @ new" "lb_idle_list lb1 = lb_idle_list lb @ map snd new"
      "lb_overload_list lb1 = lb_overload_list lb" "heap_frame {} mem mem1" "fst ` set new = ?K - fst ` set (lb_host_map lb)"
    by blast
  have old: "p \<notin> dropped ks lb1 \<longleftrightarrow> k \<in> ?K" "kept ?K lb p \<longleftrightarrow> k \<in> ?K" "p < hh_fresh mem"
    if kp: "(k, p) \<in> set (lb_host_map lb)" for k p
  proof -
    have "(k, p) \<in> set (lb_host_map lb1)" using kp new(1) by simp
    moreover from this have "k \<in> fst ` set (lb_host_map lb1)" by force
    ultimately show "p \<notin> dropped ks lb1 \<longleftrightarrow> k \<in> ?K" using dropped_iff [OF inv1, of k p ks] ks by simp
    show "kept ?K lb p \<longleftrightarrow> k \<in> ?K" by (rule kept_iff [OF inv kp])
    show "p < hh_fresh mem" using lb_inv_host [OF inv kp] inv unfolding lb_inv_def by (metis option.distinct(1))
  qed
  have newD: "p \<notin> dropped ks lb1" if kp: "(k, p) \<in> set new" for k p
  proof -
    have "k \<in> fst ` set new" using kp by (metis fst_conv image_eqI)
    then have "k \<in> ?K" using new(5) by blast
    then show ?thesis using dropped_iff [OF inv1, of k p ks] kp new(1) ks by simp
  qed
  have f: "filter (\<lambda>p. p \<notin> dropped ks lb1) ps = filter (kept ?K lb) ps"
    if "set ps \<subseteq> set (lb_idle_list lb) \<union> set (lb_overload_list lb)" for ps
  proof (rule filter_cong [OF refl])
    fix p assume "p \<in> set ps"
    then have "p \<in> set (lb_idle_list lb) \<or> p \<in> set (lb_overload_list lb)" using that by blast
    then obtain k where kp: "(k, p) \<in> set (lb_host_map lb)" by (rule lb_inv_listed [OF inv])
    show "(p \<notin> dropped ks lb1) = kept ?K lb p" using old(1,2) [OF kp] by simp
  qed
  have nf: "filter (\<lambda>p. p \<notin> dropped ks lb1) (map snd new) = map snd new"
    using newD by (intro filter_True) auto
  show ?thesis
    unfolding updated_def
  proof (intro exI [of _ new] conjI ballI)
    show "lb_idle_list ((drop_hosts ks lb1)\<lparr>lb_status := s, lb_last_update_time := t\<rparr>)
        = filter (kept ?K lb) (lb_idle_list lb) @ map snd new"
      by (simp add: drop_hosts_def new(2) f nf)
    fix x assume x: "x \<in> set new"
    then have "x \<in> set (lb_host_map lb1)" "snd x \<in> set (lb_idle_list lb1)" using new(1,2) by auto
    then have "host_at mem1 (fst x) (snd x)" "idle_at mem1 (snd x)" using inv1 unfolding lb_inv_def by auto
    then show "case x of (k, p) \<Rightarrow> host_at (free_hosts ks lb1 mem1) k p \<and> idle_at (free_hosts ks lb1 mem1) p"
      using newD [of "fst x" "snd x"] x by (cases x) (simp add: free_hosts_def host_at_def idle_at_def)
  next
    fix x assume x: "x \<in> set (lb_host_map lb)"
    then show "case x of (k, p) \<Rightarrow> hh_hosts (free_hosts ks lb1 mem1) p = (if k \<in> ?K then hh_hosts mem p else None)"
      using old [of "fst x" "snd x"] new(4) by (auto simp: free_hosts_def heap_frame_def)
  qed (simp_all add: drop_hosts_def new f)
qed

lemma lb_update_updated:
  assumes inv: "lb_inv cfg lb mem" and ne: "grs_host rsp \<noteq> []"
  obtains lb' mem' where "lb_update cfg t ts rsp lb mem = Inr (lb', mem')"
    "updated (host_key ` set (grs_host rsp)) lb mem lb' mem'" "lb_status lb' = NEW" "lb_last_update_time lb' = t"
    "heap_frame (snd ` set (lb_host_map lb)) mem mem'"
    "fst ` set (lb_host_map lb) \<subseteq> host_key ` set (grs_host rsp) \<Longrightarrow> lb_inv cfg lb' mem'"
proof -
  let ?K = "host_key ` set (grs_host rsp)"
  obtain lb1 mem1 ks where inv1: "lb_inv cfg lb1 mem1" and add: "hosts_added (grs_host rsp) lb mem lb1 mem1"
      and ks: "ks = fst ` set (lb_host_map lb1) - ?K"
      and run: "lb_update cfg t ts rsp lb mem =
       Inr ((drop_hosts ks lb1)\<lparr>lb_status := NEW, lb_last_update_time := t\<rparr>, free_hosts ks lb1 mem1)"
    using lb_update_run [OF assms, of t ts] by blast
  obtain new where new: "lb_host_map lb1 = lb_host_map lb @ new" "heap_frame {} mem mem1"
      "fst ` set new = ?K - fst ` set (lb_host_map lb)"
    by (rule hosts_added_new [OF inv1 add]) rule
  have "fst ` set new \<inter> ks = {}" using new(3) ks by blast
  then have "dropped ks lb1 \<subseteq> snd ` set (lb_host_map lb)"
    using new(1) by (force simp: dropped_def)
  then have fr: "heap_frame (snd ` set (lb_host_map lb)) mem (free_hosts ks lb1 mem1)"
    using new(2) by (auto simp: heap_frame_def free_hosts_def)
  have i: "lb_inv cfg ((drop_hosts ks lb1)\<lparr>lb_status := NEW, lb_last_update_time := t\<rparr>) (free_hosts ks lb1 mem1)"
    if "fst ` set (lb_host_map lb) \<subseteq> ?K"
  proof -
    have "ks = {}" using that ks new(1,3) by (auto simp: image_Un)
    then have "dropped ks lb1 = {}" by (simp add: dropped_def)
    then have "drop_hosts ks lb1 = lb1" "free_hosts ks lb1 mem1 = mem1" by (simp_all add: drop_hosts_def free_hosts_def)
    then show ?thesis using inv1 by (simp add: lb_inv_def)
  qed
  show thesis by (rule that [OF run updated_drop [OF inv inv1 add ks] _ _ fr i]) simp_all
qed

text \<open>
  Deleting a host leaves its key in the map. Such an entry makes a later update follow the
  deleted pointer.
\<close>

lemma insert_hosts_mono:
  "insert_hosts cfg ts i hs remote lb mem = (remote', lb', mem') \<Longrightarrow>
   remote' = remote \<union> host_key ` set hs \<and> (\<exists>new. lb_host_map lb' = lb_host_map lb @ new) \<and> heap_frame {} mem mem'"
proof (induction hs arbitrary: i remote lb mem)
  case (Cons h hs)
  show ?case
  proof (cases "map_of (lb_host_map lb) (mk_key (pb_ip h) (pb_port h)) = None")
    case True
    then have r: "insert_hosts cfg ts (Suc i) hs (insert (host_key h) remote)
        (lb\<lparr>lb_host_map := lb_host_map lb @ [(host_key h, hh_fresh mem)], lb_idle_list := lb_idle_list lb @ [hh_fresh mem]\<rparr>)
        (mem\<lparr>hh_hosts := (hh_hosts mem)(hh_fresh mem \<mapsto> host_info_new (pb_ip h) (pb_port h) (init_succ_cnt cfg) (ts i)),
             hh_fresh := Suc (hh_fresh mem)\<rparr>) = (remote', lb', mem')"
      using Cons.prems by (simp add: host_key_def Let_def)
    from Cons.IH [OF r] show ?thesis by (auto simp: heap_frame_def)
  next
    case False
    then have "insert_hosts cfg ts (Suc i) hs (insert (host_key h) remote) lb mem = (remote', lb', mem')"
      using Cons.prems by (auto simp: host_key_def Let_def)
    from Cons.IH [OF this] show ?thesis by auto
  qed
qed simp

lemma delete_hosts_dangling:
  assumes "\<forall>k \<in> set ks. map_of (lb_host_map lb) k \<noteq> None"
    and "k \<in> set ks" "map_of (lb_host_map lb) k = Some p" "hh_hosts mem p = None"
  shows "delete_hosts ks lb mem = Inl Use_After_Free"
  using assms
proof (induction ks arbitrary: lb mem)
  case (Cons key keys)
  from Cons.prems(1) obtain hi where hi: "map_of (lb_host_map lb) key = Some hi" by auto
  show ?case
  proof (cases "hh_hosts mem hi")
    case None
    then show ?thesis using hi by simp
  next
    case (Some h)
    then have "k \<noteq> key" using hi Cons.prems(3,4) by auto
    then have "k \<in> set keys" using Cons.prems(2) by simp
    then show ?thesis using hi Some Cons.prems by (simp add: Cons.IH)
  qed
qed simp

section \<open>The rate tests\<close>

lemma bit_len_mono: "a \<le> b \<Longrightarrow> bit_len a \<le> bit_len b"
proof (induction b arbitrary: a rule: less_induct)
  case (less b)
  show ?case
  proof (cases "a = 0")
    case True
    then show ?thesis by (simp add: bit_len.simps)
  next
    case False
    then have "b div 2 < b" "a div 2 \<le> b div 2" using less.prems by (auto intro: div_le_mono)
    from less.IH [OF this] False less.prems show ?thesis by (simp add: bit_len.simps [of a] bit_len.simps [of b])
  qed
qed

text \<open>Rounding to an integer does not change the comparison with an integer unless the quotient lies within one of it.\<close>

lemma rnd_even_gt:
  assumes b: "0 < b" and sep: "M * int b < int N \<Longrightarrow> (M + 1) * int b \<le> int N"
  shows "M < int (rnd_even N b) \<longleftrightarrow> M * int b < int N"
proof
  assume "M * int b < int N"
  then have "(M + 1) * int b \<le> int N" by (rule sep)
  then have "((M + 1) * int b) div int b \<le> int N div int b" using b by (intro zdiv_mono1) simp_all
  then have "M + 1 \<le> int N div int b" using b by simp
  then have "M < int (N div b)" by (simp add: zdiv_int)
  moreover have "N div b \<le> rnd_even N b" by (simp add: rnd_even_def Let_def)
  ultimately show "M < int (rnd_even N b)" by linarith
next
  assume gt: "M < int (rnd_even N b)"
  show "M * int b < int N"
  proof (rule ccontr)
    assume "\<not> M * int b < int N"
    then have le: "int N \<le> M * int b" by simp
    then have "int N div int b \<le> M" using b by (metis mult.commute nonzero_mult_div_cancel_left of_nat_0_less_iff less_irrefl zdiv_mono1)
    then have q: "int (N div b) \<le> M" by (simp add: zdiv_int)
    moreover have "rnd_even N b \<le> Suc (N div b)" by (simp add: rnd_even_def Let_def)
    ultimately have "int (N div b) = M" "rnd_even N b = Suc (N div b)" using gt by linarith+
    moreover have "N mod b = 0"
    proof -
      have "int N = M * int b + int (N mod b)"
        using \<open>int (N div b) = M\<close> by (metis mult.commute mult_div_mod_eq of_nat_add of_nat_mult)
      then show ?thesis using le by linarith
    qed
    ultimately show False using b by (simp add: rnd_even_def)
  qed
qed

lemma dbl_div_shift: "0 < a \<Longrightarrow> a \<le> b \<Longrightarrow> \<exists>k. 52 \<le> k \<and> dbl_div a b = (rnd_even (a * 2 ^ k) b, k)"
  using bit_len_mono [of a b] by (auto simp: dbl_div_def Let_def)

lemma dbl_div_gt:
  assumes ab: "0 < a" "a \<le> b" and j: "j \<le> 52" "b \<le> 2 ^ (52 - j)" and d: "dbl_div a b = (R, k)"
  shows "m * 2 ^ k < int R * 2 ^ j \<longleftrightarrow> m * int b < int a * 2 ^ j"
proof -
  from dbl_div_shift [OF ab] d have k: "52 \<le> k" and R: "R = rnd_even (a * 2 ^ k) b" by auto
  let ?M = "m * 2 ^ (k - j)"
  have kj: "(2 :: int) ^ k = 2 ^ (k - j) * 2 ^ j" using k j(1) by (simp add: power_add [symmetric])
  have diff: "int (a * 2 ^ k) - ?M * int b = 2 ^ (k - j) * (int a * 2 ^ j - m * int b)"
    by (simp add: kj algebra_simps)
  have bk: "int b \<le> 2 ^ (k - j)"
  proof -
    have "(2 :: nat) ^ (52 - j) \<le> 2 ^ (k - j)" using k by (intro power_increasing) simp_all
    with j(2) have "b \<le> 2 ^ (k - j)" by linarith
    then show ?thesis by (metis of_nat_le_iff of_nat_numeral of_nat_power)
  qed
  have sgn: "?M * int b < int (a * 2 ^ k) \<longleftrightarrow> m * int b < int a * 2 ^ j"
    using diff by (metis diff_gt_0_iff_gt zero_less_mult_iff zero_less_numeral zero_less_power not_less_iff_gr_or_eq)
  have sep: "(?M + 1) * int b \<le> int (a * 2 ^ k)" if "?M * int b < int (a * 2 ^ k)"
  proof -
    have "1 \<le> int a * 2 ^ j - m * int b" using that sgn by simp
    then have "2 ^ (k - j) * 1 \<le> 2 ^ (k - j) * (int a * 2 ^ j - m * int b)" by (intro mult_left_mono) simp_all
    then have "2 ^ (k - j) \<le> int (a * 2 ^ k) - ?M * int b" unfolding diff by simp
    moreover have "(?M + 1) * int b = ?M * int b + int b" by (simp only: distrib_right mult_1)
    ultimately show ?thesis using bk by linarith
  qed
  have "m * 2 ^ k < int R * 2 ^ j \<longleftrightarrow> ?M < int R"
    by (simp add: kj mult.assoc [symmetric])
  also have "\<dots> \<longleftrightarrow> ?M * int b < int (a * 2 ^ k)"
    unfolding R using ab by (intro rnd_even_gt sep) simp_all
  finally show ?thesis using sgn by simp
qed

lemma rate_gt_exact:
  assumes "a \<le> b" "0 < b" "j \<le> 52" "unat b \<le> 2 ^ (52 - j)"
  shows "rate_gt a b (m, j) \<longleftrightarrow> m * int (unat b) < int (unat a) * 2 ^ j"
proof (cases "a = 0")
  case True
  moreover have "0 < uint b" "b \<noteq> 0" using assms(2) by (auto simp: word_less_def)
  ultimately show ?thesis by (simp add: rate_gt_def dbl_div_def mult_less_0_iff)
next
  case False
  then have "0 < unat a" "unat a \<le> unat b" using assms(1) by (simp_all add: unat_gt_0 word_le_nat_alt)
  moreover have "b \<noteq> 0" using assms(2) by auto
  ultimately show ?thesis
    using dbl_div_gt [of "unat a" "unat b" j _ _ m] assms(3,4)
    by (cases "dbl_div (unat a) (unat b)") (simp add: rate_gt_def)
qed

section \<open>Commits\<close>

definition result_of :: "host_heap \<Rightarrow> bool \<Rightarrow> ptr \<Rightarrow> HostCallResult" where
  "result_of mem over p =
     (let h = the (hh_hosts mem p) in
      \<lparr>hcr_ip = hi_ip h, hcr_port = hi_port h, hcr_succ = hi_rsucc h, hcr_err = hi_rerr h, hcr_overload = over\<rparr>)"

lemma call_results_map:
  "\<forall>p \<in> set ps. hh_hosts mem p \<noteq> None \<Longrightarrow> call_results over ps mem = Inr (map (result_of mem over) ps)"
  by (induction ps) (auto simp: result_of_def Let_def)

definition commit_request :: "int \<Rightarrow> load_balance \<Rightarrow> host_heap \<Rightarrow> ReportStatusRequest" where
  "commit_request now lb mem =
     \<lparr>rsr_modid = lb_modid lb, rsr_cmdid = lb_cmdid lb, rsr_caller = 127,
      rsr_results = map (result_of mem False) (lb_idle_list lb) @ map (result_of mem True) (lb_overload_list lb),
      rsr_ts = word_of_int now\<rparr>"

lemma lb_commit_inv:
  assumes "lb_inv cfg lb mem"
  shows "lb_commit now lb mem q = Inr (if lb_empty lb then q else tq_send (commit_request now lb mem) q)"
proof -
  have "\<forall>p \<in> set (lb_idle_list lb). hh_hosts mem p \<noteq> None" "\<forall>p \<in> set (lb_overload_list lb). hh_hosts mem p \<noteq> None"
    using assms unfolding lb_inv_def idle_at_def over_at_def by (fastforce split: option.splits)+
  then show ?thesis by (simp add: lb_commit_def call_results_map commit_request_def)
qed

lemma lb_inv_status [simp]: "lb_inv cfg (lb\<lparr>lb_status := s\<rparr>) mem = lb_inv cfg lb mem"
  by (simp add: lb_inv_def)

end
