(* ===== verification/Load_Balance_Runs.thy ===== *)
theory Load_Balance_Runs
  imports Load_Balance
begin

text \<open>
  Runs of the load balancer of one module and its properties: the partition of the hosts, the
  answers to requests (round robin, probing), the state machine of a host, the effect of an update
  and of a commit, and what happens after an update that removes a host.
\<close>

section \<open>Runs of one module\<close>

inductive lb_step :: "load_balance_config \<Rightarrow> load_balance \<times> host_heap \<Rightarrow> load_balance \<times> host_heap \<Rightarrow> bool" for cfg where
  choice: "lb_host_map lb \<noteq> [] \<Longrightarrow> choice_one_host cfg rsp lb mem = Inr (ret, rsp', lb') \<Longrightarrow> lb_step cfg (lb, mem) (lb', mem)"
| report: "lb_report cfg t now ip port retcode lb mem = Inr (lb', mem') \<Longrightarrow> lb_step cfg (lb, mem) (lb', mem')"
| pull: "lb_pull lb q = (lb', q') \<Longrightarrow> lb_step cfg (lb, mem) (lb', mem)"
| update: "fst ` set (lb_host_map lb) \<subseteq> host_key ` set (grs_host rsp) \<Longrightarrow>
    lb_update cfg t ts rsp lb mem = Inr (lb', mem') \<Longrightarrow> lb_step cfg (lb, mem) (lb', mem')"

definition lb_start :: "load_balance_config \<Rightarrow> load_balance \<times> host_heap \<Rightarrow> bool" where
  "lb_start cfg s \<longleftrightarrow> probe_num cfg < 2 ^ 31 \<and>
     (\<exists>modid cmdid now. s = (load_balance_new modid cmdid now, \<lparr>hh_hosts = Map.empty, hh_fresh = 0\<rparr>))"

lemma lb_step_inv: "lb_step cfg s s' \<Longrightarrow> lb_inv cfg (fst s) (snd s) \<Longrightarrow> lb_inv cfg (fst s') (snd s')"
proof (induction rule: lb_step.induct)
  case (choice lb rsp mem ret rsp' lb')
  then show ?case using choice_inv [of cfg lb mem] by simp
next
  case (report t now ip port retcode lb mem lb' mem')
  then show ?case using lb_report_inv [of cfg lb mem t now ip port retcode] by auto
next
  case (pull lb q lb' q' mem)
  then show ?case by (auto simp: lb_pull_def)
next
  case (update lb rsp t ts mem lb' mem')
  then have "grs_host rsp \<noteq> []" by (auto simp: lb_update_def)
  with update lb_update_updated [of cfg lb mem rsp t ts] show ?case by (metis Inr_inject Pair_inject fst_conv snd_conv)
qed

interpretation lb_run: step_system "lb_start cfg" "lb_step cfg" "\<lambda>s. lb_inv cfg (fst s) (snd s)"
  by unfold_locales (auto simp: lb_start_def intro!: lb_inv_new dest: lb_step_inv)


definition demo_cfg :: load_balance_config where
  "demo_cfg = \<lparr>probe_num = 10, init_succ_cnt = 180, init_err_cnt = 5, err_rate = (13421773, 27), succ_rate = (15938355, 24),
     contin_err_limit = 1, contin_succ_limit = 15, idle_timeout = 15, overload_timeout = 15, update_timeout = 15\<rparr>"

definition demo_rsp :: "GetHostResponse" where
  "demo_rsp = GetHostResponse_default"

definition demo_route :: "GetRouteResponse" where
  "demo_route = \<lparr>grs_modid = 1, grs_cmdid = 2, grs_host = [\<lparr>pb_ip = 100, pb_port = 80\<rparr>, \<lparr>pb_ip = 101, pb_port = 81\<rparr>]\<rparr>"

definition demo_start :: "load_balance \<times> host_heap" where
  "demo_start = (load_balance_new 1 2 0, \<lparr>hh_hosts = Map.empty, hh_fresh = 0\<rparr>)"

text \<open>The module of the witnesses: two hosts, both idle.\<close>

definition demo_hosts :: host_heap where
  "demo_hosts = \<lparr>hh_hosts = [0 \<mapsto> host_info_new 100 80 180 5, 1 \<mapsto> host_info_new 101 81 180 5], hh_fresh = 2\<rparr>"

definition demo_lb :: load_balance where
  "demo_lb = \<lparr>lb_modid = 1, lb_cmdid = 2, lb_host_map = [(mk_key 100 80, 0), (mk_key 101 81, 1)],
     lb_idle_list = [0, 1], lb_overload_list = [], lb_access_cnt = 0, lb_status = NEW, lb_last_update_time = 5\<rparr>"

lemma demo_update: "lb_update demo_cfg 5 (\<lambda>_. 5) demo_route (fst demo_start) (snd demo_start) = Inr (demo_lb, demo_hosts)"
  by (simp add: lb_update_def demo_route_def demo_start_def load_balance_new_def demo_cfg_def demo_lb_def demo_hosts_def
      host_info_new_def Let_def)

lemma demo_reach: "lb_start demo_cfg demo_start" "(lb_step demo_cfg)\<^sup>*\<^sup>* demo_start (demo_lb, demo_hosts)"
proof -
  show "lb_start demo_cfg demo_start" by (auto simp: lb_start_def demo_start_def demo_cfg_def)
  have "lb_step demo_cfg (fst demo_start, snd demo_start) (demo_lb, demo_hosts)"
    by (rule lb_step.update [OF _ demo_update]) (simp add: demo_start_def load_balance_new_def)
  then show "(lb_step demo_cfg)\<^sup>*\<^sup>* demo_start (demo_lb, demo_hosts)" by (simp add: demo_start_def r_into_rtranclp)
qed

lemma demo_inv: "lb_inv demo_cfg demo_lb demo_hosts"
  using lb_run.reachable_inv [OF demo_reach] by simp


section \<open>Answers to requests\<close>



text \<open>
  When no host is overloaded, requests are spread in round robin: as many successive
  requests as there are hosts return every host exactly once, in the order of the list, and
  bring the module back to the state it was in.
\<close>

theorem idle_round_robin:
  assumes "lb_start cfg s" and "(lb_step cfg)\<^sup>*\<^sup>* s (lb, mem)" and "lb_host_map lb \<noteq> []" and "lb_overload_list lb = []"
  shows "choice_run cfg rsp (length (lb_idle_list lb)) lb mem =
    Inr (map (\<lambda>p. (RET_SUCC, answer_of mem rsp p)) (lb_idle_list lb), lb) \<and>
    set (lb_idle_list lb) = snd ` set (lb_host_map lb) \<and> distinct (lb_idle_list lb)"
proof -
  have inv: "lb_inv cfg lb mem" using lb_run.reachable_inv [OF assms(1,2)] by simp
  have "lb\<lparr>lb_idle_list := lb_idle_list lb\<rparr> = lb" by simp
  then have "choice_run cfg rsp (length (lb_idle_list lb)) lb mem =
    Inr (map (\<lambda>p. (RET_SUCC, answer_of mem rsp p)) (lb_idle_list lb), lb)"
    using choice_run_idle [OF inv assms(4) _ assms(3), of "lb_idle_list lb" "[]" rsp] by simp
  then show ?thesis using inv assms(4) by (simp add: lb_inv_def)
qed

theorem idle_round_robin_witness:
  "choice_run demo_cfg demo_rsp 2 demo_lb demo_hosts =
     Inr ([(RET_SUCC, answer_of demo_hosts demo_rsp 0), (RET_SUCC, answer_of demo_hosts demo_rsp 1)], demo_lb)"
proof -
  have d: "lb_idle_list demo_lb = [0, 1]" "lb_host_map demo_lb \<noteq> []" "lb_overload_list demo_lb = []"
    by (simp_all add: demo_lb_def)
  have "length (lb_idle_list demo_lb) = 2" by (simp add: d(1))
  then show ?thesis
    using idle_round_robin [OF demo_reach d(2,3), of demo_rsp] by (simp only: d(1)) simp
qed

text \<open>
  Overloaded hosts are probed at a fixed rate: with at least one overloaded host and the
  access counter at 0, none of the next \<open>probe_num\<close> requests is answered with an overloaded host
  (they get idle hosts, or \<open>RET_OVERLOAD\<close> if there is none), and the request after them is answered
  with the first host of the overload list, after which the counter is 0 again and that host is at
  the back of the list.
\<close>

theorem overload_probe_period:
  assumes "lb_start cfg s" and "(lb_step cfg)\<^sup>*\<^sup>* s (lb, mem)" and "lb_overload_list lb = q # qs"
    and "lb_access_cnt lb = 0" and "0 \<le> probe_num cfg"
  shows "\<exists>rs lb' lb''. choice_run cfg rsp (nat (probe_num cfg)) lb mem = Inr (rs, lb') \<and>
    (\<forall>r \<in> set rs. if lb_idle_list lb = [] then r = (RET_OVERLOAD, rsp)
                  else \<exists>p \<in> set (lb_idle_list lb). r = (RET_SUCC, answer_of mem rsp p)) \<and>
    choice_one_host cfg rsp lb' mem = Inr (RET_SUCC, answer_of mem rsp q, lb'') \<and>
    lb_access_cnt lb'' = 0 \<and> lb_overload_list lb'' = qs @ [q]"
proof -
  have inv: "lb_inv cfg lb mem" using lb_run.reachable_inv [OF assms(1,2)] by simp
  obtain rs lb' where r: "choice_run cfg rsp (nat (probe_num cfg)) lb mem = Inr (rs, lb')" "lb_inv cfg lb' mem"
      "lb_host_map lb' = lb_host_map lb" "lb_overload_list lb' = q # qs" "lb_access_cnt lb' = probe_num cfg"
      "\<forall>r \<in> set rs. if lb_idle_list lb = [] then r = (RET_OVERLOAD, rsp)
                    else \<exists>p \<in> set (lb_idle_list lb). r = (RET_SUCC, answer_of mem rsp p)"
    using choice_run_count [OF inv assms(3), of "nat (probe_num cfg)" rsp] assms(4,5) by auto
  have "lb_host_map lb' \<noteq> []" using r(2,4) by (auto simp: lb_inv_def)
  then have "choice_one_host cfg rsp lb' mem =
      Inr (RET_SUCC, answer_of mem rsp q, lb'\<lparr>lb_overload_list := qs @ [q], lb_access_cnt := 0\<rparr>)"
    using r(4,5) by (simp add: choice_cases [OF r(2)] split: list.splits)
  with r(1,6) show ?thesis by auto
qed

lemma demo_report:
  "lb_report demo_cfg 6 6 100 80 RET_SYSTEM_ERROR demo_lb demo_hosts =
     Inr (to_overload 0 demo_lb, put_host 0 (set_overload demo_cfg 6 (count_result RET_SYSTEM_ERROR (host_info_new 100 80 180 5))) demo_hosts)"
  by (simp add: lb_report_def demo_lb_def demo_hosts_def count_result_def ret_defs turns_overload_def
      host_info_new_def demo_cfg_def Let_def)

lemma demo_overloaded:
  "\<exists>lb mem. (lb_step demo_cfg)\<^sup>*\<^sup>* demo_start (lb, mem) \<and> lb_overload_list lb = [0] \<and> lb_idle_list lb = [1] \<and>
     lb_access_cnt lb = 0"
proof (intro exI conjI)
  show "(lb_step demo_cfg)\<^sup>*\<^sup>* demo_start (to_overload 0 demo_lb,
      put_host 0 (set_overload demo_cfg 6 (count_result RET_SYSTEM_ERROR (host_info_new 100 80 180 5))) demo_hosts)"
    by (rule rtranclp.rtrancl_into_rtrancl [OF demo_reach(2) lb_step.report [OF demo_report]])
qed (simp_all add: to_overload_def demo_lb_def)

theorem overload_probe_period_witness:
  "\<exists>lb mem rs lb' lb''. (lb_step demo_cfg)\<^sup>*\<^sup>* demo_start (lb, mem) \<and> lb_overload_list lb = [0] \<and>
    choice_run demo_cfg demo_rsp 10 lb mem = Inr (rs, lb') \<and>
    choice_one_host demo_cfg demo_rsp lb' mem = Inr (RET_SUCC, answer_of mem demo_rsp 0, lb'')"
proof -
  obtain lb mem where r: "(lb_step demo_cfg)\<^sup>*\<^sup>* demo_start (lb, mem)" "lb_overload_list lb = [0]" "lb_access_cnt lb = 0"
    using demo_overloaded by blast
  have "0 \<le> probe_num demo_cfg" "nat (probe_num demo_cfg) = 10" by (simp_all add: demo_cfg_def)
  with overload_probe_period [OF demo_reach(1) r, of demo_rsp] r show ?thesis by (metis append_Nil)
qed

section \<open>Reports, updates and commits\<close>



text \<open>
  C31 [rate_test_exact]. The comparison of the two rates in \<open>double\<close> arithmetic is the exact comparison of the
  quotient \<open>a / b\<close> with the threshold \<open>m / 2 ^ j\<close>, as long as the sum of the counters has not wrapped
  and is at most \<open>2 ^ (52 - j)\<close> (for the default \<open>err_rate\<close> 0.1, whose \<open>float\<close> has \<open>j = 27\<close>: up to
  33 million results within one window). Rounding never flips the decision.
\<close>

theorem rate_test_exact:
  assumes "a \<le> b" "0 < b" "j \<le> 52" "unat b \<le> 2 ^ (52 - j)"
  shows "rate_gt a b (m, j) \<longleftrightarrow> m * int (unat b) < int (unat a) * 2 ^ j"
  by (rule rate_gt_exact [OF assms])

theorem rate_test_exact_witness: "rate_gt 21 200 (13421773, 27) \<and> \<not> rate_gt 20 200 (13421773, 27)"
  using rate_test_exact [of 21 200 27 13421773] rate_test_exact [of 20 200 27 13421773] by simp


definition demo_shrink :: GetRouteResponse where
  "demo_shrink = \<lparr>grs_modid = 1, grs_cmdid = 2, grs_host = [\<lparr>pb_ip = 101, pb_port = 81\<rparr>]\<rparr>"


text \<open>
  C26 [removed_host_dangles]. A removed host stays in \<open>_host_map\<close> as a dangling pointer: after an update that
  removes a host, the next update whose response does not contain it again, and every report
  about it, read the deleted object.
\<close>

theorem removed_host_dangles:
  assumes "lb_start cfg s" and "(lb_step cfg)\<^sup>*\<^sup>* s (lb, mem)"
    and "mk_key ip port \<in> fst ` set (lb_host_map lb)" and "mk_key ip port \<notin> host_key ` set (grs_host rsp)"
    and "lb_update cfg t ts rsp lb mem = Inr (lb', mem')"
    and "grs_host rsp' \<noteq> []" and "mk_key ip port \<notin> host_key ` set (grs_host rsp')"
  shows "lb_update cfg t' ts' rsp' lb' mem' = Inl Use_After_Free \<and>
    lb_report cfg t' now ip port retcode lb' mem' = Inl Use_After_Free"
proof -
  let ?k = "mk_key ip port"
  have inv: "lb_inv cfg lb mem" using lb_run.reachable_inv [OF assms(1,2)] by simp
  have ne: "grs_host rsp \<noteq> []" using assms(5) by (auto simp: lb_update_def)
  obtain p where kp: "(?k, p) \<in> set (lb_host_map lb)" using assms(3) by auto
  have m: "map_of (lb_host_map lb) ?k = Some p" using kp inv by (simp add: lb_inv_def)
  obtain lb1 mem1 where u: "lb_update cfg t ts rsp lb mem = Inr (lb1, mem1)"
      "updated (host_key ` set (grs_host rsp)) lb mem lb1 mem1" "heap_frame (snd ` set (lb_host_map lb)) mem mem1"
    by (rule lb_update_updated [OF inv ne, of t ts]) rule
  then have e: "lb1 = lb'" "mem1 = mem'" using assms(5) by simp_all
  obtain new where hm: "lb_host_map lb' = lb_host_map lb @ new"
      and gone: "hh_hosts mem' p = None"
    using u(2) kp assms(4) unfolding e updated_def by fastforce
  have m': "map_of (lb_host_map lb') ?k = Some p" using m hm by (simp add: map_add_def)
  have "p < hh_fresh mem" using lb_inv_host [OF inv kp] inv unfolding lb_inv_def by (metis option.distinct(1))
  then have fr: "p < hh_fresh mem'" using u(3) e by (auto simp: heap_frame_def)
  obtain rem lb2 mem2 where i: "insert_hosts cfg ts' 0 (grs_host rsp') {} lb' mem' = (rem, lb2, mem2)"
    by (cases "insert_hosts cfg ts' 0 (grs_host rsp') {} lb' mem'") auto
  from insert_hosts_mono [OF i] obtain new2 where hm2: "lb_host_map lb2 = lb_host_map lb' @ new2"
      and rem: "rem = host_key ` set (grs_host rsp')" and fr2: "heap_frame {} mem' mem2" by auto
  let ?nd = "foldr insort_insert (filter (\<lambda>k. k \<notin> rem) (map fst (lb_host_map lb2))) []"
  have "delete_hosts ?nd lb2 mem2 = Inl Use_After_Free"
  proof (rule delete_hosts_dangling)
    show "\<forall>k \<in> set ?nd. map_of (lb_host_map lb2) k \<noteq> None"
      unfolding set_sorted_keys by (auto simp: map_of_eq_None_iff)
    have "?k \<in> fst ` set (lb_host_map lb2)" using map_of_SomeD [OF m'] hm2 by force
    then show "?k \<in> set ?nd" unfolding set_sorted_keys using assms(7) rem by auto
    show "map_of (lb_host_map lb2) ?k = Some p" using m' hm2 by (simp add: map_add_def)
    show "hh_hosts mem2 p = None" using fr2 fr gone by (auto simp: heap_frame_def)
  qed
  then have "lb_update cfg t' ts' rsp' lb' mem' = Inl Use_After_Free"
    using assms(6) i by (simp add: lb_update_def)
  moreover have "lb_report cfg t' now ip port retcode lb' mem' = Inl Use_After_Free"
    using m' gone by (simp add: lb_report_def)
  ultimately show ?thesis by blast
qed

theorem removed_host_dangles_witness:
  "\<exists>lb' mem'. lb_update demo_cfg 7 (\<lambda>_. 7) demo_shrink demo_lb demo_hosts = Inr (lb', mem') \<and>
     lb_update demo_cfg 8 (\<lambda>_. 8) demo_shrink lb' mem' = Inl Use_After_Free"
proof -
  have ne: "grs_host demo_shrink \<noteq> []" by (simp add: demo_shrink_def)
  obtain lb' mem' where u: "lb_update demo_cfg 7 (\<lambda>_. 7) demo_shrink demo_lb demo_hosts = Inr (lb', mem')"
    by (rule lb_update_updated [OF demo_inv ne, of 7 "\<lambda>_. 7"]) rule
  have "mk_key 100 80 \<in> fst ` set (lb_host_map demo_lb)" "mk_key 100 80 \<notin> host_key ` set (grs_host demo_shrink)"
    by (simp_all add: demo_lb_def demo_shrink_def host_key_def)
  from removed_host_dangles [OF demo_reach this u ne this(2)] u show ?thesis by blast
qed



end
