(* ===== verification/Route_Lb.thy ===== *)
theory Route_Lb
  imports Load_Balance_Runs
begin

text \<open>
  \<^verbatim>\<open>lars_lb_agent/include/route_lb.h\<close> and \<^verbatim>\<open>lars_lb_agent/src/route_lb.cpp\<close>: the table from modules to load
  balancers of one agent server. Every operation runs inside the mutex of the object. The map owns its \<open>load_balance\<close>
  objects, so it holds them as values; deleting one drops it from the table (its hosts are never freed, they
  only become unreachable). All modules of a table share the heap of hosts. Readings of the clock are arguments.
\<close>

section \<open>Model\<close>

record route_lb =
  rl_id :: int
  rl_map :: "(u64 \<times> load_balance) list"
  rl_mem :: host_heap

definition route_lb_new :: "int \<Rightarrow> route_lb" where
  "route_lb_new ident = \<lparr>rl_id = ident, rl_map = [], rl_mem = \<lparr>hh_hosts = Map.empty, hh_fresh = 0\<rparr>\<rparr>"

definition update_host ::
  "load_balance_config \<Rightarrow> int \<Rightarrow> (nat \<Rightarrow> int) \<Rightarrow> i32 \<Rightarrow> i32 \<Rightarrow> GetRouteResponse \<Rightarrow> route_lb \<Rightarrow> (int \<times> route_lb) res" where
  "update_host cfg current_time ts modid cmdid rsp rl =
     (let modk = mk_key modid cmdid in
      case map_of (rl_map rl) modk of
        None \<Rightarrow> Inr (0, rl)
      | Some lb \<Rightarrow>
          if grs_host rsp = [] then Inr (0, rl\<lparr>rl_map := AList.delete modk (rl_map rl)\<rparr>)
          else
            bindR (lb_update cfg current_time ts rsp lb (rl_mem rl)) (\<lambda>(lb, mem).
            Inr (0, rl\<lparr>rl_map := AList.update modk lb (rl_map rl), rl_mem := mem\<rparr>)))"

text \<open>The time-out that makes a module ask the route service again.\<close>

definition pull_if_stale ::
  "load_balance_config \<Rightarrow> int \<Rightarrow> load_balance \<Rightarrow> GetRouteRequest thread_queue \<Rightarrow> load_balance \<times> GetRouteRequest thread_queue" where
  "pull_if_stale cfg now lb q =
     (if lb_status lb = NEW \<and> update_timeout cfg < now - lb_last_update_time lb then lb_pull lb q else (lb, q))"

definition rl_get_host ::
  "load_balance_config \<Rightarrow> int \<Rightarrow> i32 \<Rightarrow> i32 \<Rightarrow> GetHostResponse \<Rightarrow> route_lb \<Rightarrow> GetRouteRequest thread_queue \<Rightarrow>
   (i32 \<times> GetHostResponse \<times> route_lb \<times> GetRouteRequest thread_queue) res" where
  "rl_get_host cfg now modid cmdid rsp rl dns_queue =
     (let modk = mk_key modid cmdid in
      case map_of (rl_map rl) modk of
        Some lb \<Rightarrow>
          if lb_empty lb then Inr (RET_SUCC, rsp\<lparr>ghs_retcode := RET_NOEXIST\<rparr>, rl, dns_queue)
          else
            bindR (choice_one_host cfg rsp lb (rl_mem rl)) (\<lambda>(ret, rsp, lb).
            (let rsp = rsp\<lparr>ghs_retcode := ret\<rparr>; (lb, dns_queue) = pull_if_stale cfg now lb dns_queue in
             Inr (ret, rsp, rl\<lparr>rl_map := AList.update modk lb (rl_map rl)\<rparr>, dns_queue)))
      | None \<Rightarrow>
          (let (lb, dns_queue) = lb_pull (load_balance_new modid cmdid now) dns_queue in
           Inr (RET_NOEXIST, rsp\<lparr>ghs_retcode := RET_NOEXIST\<rparr>,
                rl\<lparr>rl_map := rl_map rl @ [(modk, lb)]\<rparr>, dns_queue)))"

definition report_host ::
  "load_balance_config \<Rightarrow> int \<Rightarrow> int \<Rightarrow> int \<Rightarrow> ReportRequest \<Rightarrow> route_lb \<Rightarrow> ReportStatusRequest thread_queue \<Rightarrow>
   (route_lb \<times> ReportStatusRequest thread_queue) res" where
  "report_host cfg current_time now commit_time req rl report_queue =
     (let modk = mk_key (rpq_modid req) (rpq_cmdid req) in
      case map_of (rl_map rl) modk of
        None \<Rightarrow> Inr (rl, report_queue)
      | Some lb \<Rightarrow>
          bindR (lb_report cfg current_time now (pb_ip (pb_host (rpq_host req))) (pb_port (pb_host (rpq_host req))) (rpq_retcode req) lb (rl_mem rl))
            (\<lambda>(lb, mem).
          bindR (lb_commit commit_time lb mem report_queue) (\<lambda>report_queue.
          Inr (rl\<lparr>rl_map := AList.update modk lb (rl_map rl), rl_mem := mem\<rparr>, report_queue))))"

definition reset_lb_status :: "route_lb \<Rightarrow> route_lb" where
  "reset_lb_status rl = rl\<lparr>rl_map := map (\<lambda>(k, lb). (k, lb\<lparr>lb_status := NEW\<rparr>)) (rl_map rl)\<rparr>"

fun host_infos :: "ptr list \<Rightarrow> host_heap \<Rightarrow> HostInfo list res" where
  "host_infos [] mem = Inr []"
| "host_infos (p # ps) mem =
     bindR (deref (hh_hosts mem) p) (\<lambda>h.
     bindR (host_infos ps mem) (\<lambda>hs.
     Inr (\<lparr>pb_ip = hi_ip h, pb_port = hi_port h\<rparr> # hs)))"

definition rl_get_route ::
  "load_balance_config \<Rightarrow> int \<Rightarrow> i32 \<Rightarrow> i32 \<Rightarrow> GetRouteResponse \<Rightarrow> route_lb \<Rightarrow> GetRouteRequest thread_queue \<Rightarrow>
   (i32 \<times> GetRouteResponse \<times> route_lb \<times> GetRouteRequest thread_queue) res" where
  "rl_get_route cfg now modid cmdid rsp rl dns_queue =
     (let modk = mk_key modid cmdid in
      case map_of (rl_map rl) modk of
        Some lb \<Rightarrow>
          bindR (host_infos (get_all_hosts lb) (rl_mem rl)) (\<lambda>hs.
          (let (lb, dns_queue) = pull_if_stale cfg now lb dns_queue in
           Inr (RET_SUCC, rsp\<lparr>grs_host := grs_host rsp @ hs\<rparr>, rl\<lparr>rl_map := AList.update modk lb (rl_map rl)\<rparr>, dns_queue)))
      | None \<Rightarrow>
          (let (lb, dns_queue) = lb_pull (load_balance_new modid cmdid now) dns_queue in
           Inr (RET_NOEXIST, rsp, rl\<lparr>rl_map := rl_map rl @ [(modk, lb)]\<rparr>, dns_queue)))"

section \<open>Objects that share a heap\<close>

text \<open>
  The contract between the table and its entries. An entry \<open>x\<close> owns the addresses \<open>foot x\<close>; an
  operation on another entry, which changes only that entry's addresses and fresh ones, keeps the
  invariant of \<open>x\<close>. The lemmas give the invariant of a table of such entries.
\<close>

definition foots_disjoint :: "('o \<Rightarrow> ptr set) \<Rightarrow> ('k \<times> 'o) list \<Rightarrow> bool" where
  "foots_disjoint foot tab \<longleftrightarrow>
     (\<forall>k x k' y. (k, x) \<in> set tab \<longrightarrow> (k', y) \<in> set tab \<longrightarrow> k \<noteq> k' \<longrightarrow> foot x \<inter> foot y = {})"

lemma foots_disjoint_map:
  assumes "foots_disjoint foot tab" and "\<And>k x. (k, x) \<in> set tab' \<Longrightarrow> \<exists>y. (k, y) \<in> set tab \<and> foot y = foot x"
  shows "foots_disjoint foot tab'"
  unfolding foots_disjoint_def
proof (intro allI impI)
  fix k x k' x' assume "(k, x) \<in> set tab'" "(k', x') \<in> set tab'" "k \<noteq> k'"
  moreover obtain y y' where "(k, y) \<in> set tab" "foot y = foot x" "(k', y') \<in> set tab" "foot y' = foot x'"
    using assms(2) calculation by meson
  ultimately show "foot x \<inter> foot x' = {}" using assms(1) unfolding foots_disjoint_def by metis
qed

locale shared_heap =
  fixes inv :: "'o \<Rightarrow> 'm \<Rightarrow> bool" and foot :: "'o \<Rightarrow> ptr set" and fresh :: "'m \<Rightarrow> ptr" and
    same :: "ptr set \<Rightarrow> 'm \<Rightarrow> 'm \<Rightarrow> bool"
  assumes inv_frame: "inv x m \<Longrightarrow> same ps m m' \<Longrightarrow> foot x \<inter> ps = {} \<Longrightarrow> inv x m'"
    and foot_below: "inv x m \<Longrightarrow> p \<in> foot x \<Longrightarrow> p < fresh m"
begin

lemma table_update:
  assumes tab: "\<And>k x. (k, x) \<in> set tab \<Longrightarrow> inv x m" and dis: "foots_disjoint foot tab" and d: "distinct (map fst tab)"
    and x: "map_of tab k = Some x" and new: "inv x' m'" "same (foot x) m m'" "foot x' \<subseteq> foot x \<union> {fresh m..}"
  shows "(j, y) \<in> set (AList.update k x' tab) \<Longrightarrow> inv y m'"
    and "foots_disjoint foot (AList.update k x' tab)" and "distinct (map fst (AList.update k x' tab))"
proof -
  have kx: "(k, x) \<in> set tab" using x by (rule map_of_SomeD)
  have dk: "distinct (map fst (AList.update k x' tab))" using d by (simp add: distinct_update)
  then show "distinct (map fst (AList.update k x' tab))" .
  have mem: "(i = k \<and> z = x') \<or> (i \<noteq> k \<and> (i, z) \<in> set tab)" if "(i, z) \<in> set (AList.update k x' tab)" for i z
    using that dk d by (metis map_of_is_SomeI map_of_SomeD update_Some_unfold update_conv' option.inject fun_upd_apply)
  have old: "foot z \<inter> foot x = {}" "foot z \<inter> foot x' = {}" "inv z m'" if "i \<noteq> k" "(i, z) \<in> set tab" for i z
  proof -
    show a: "foot z \<inter> foot x = {}" using dis kx that unfolding foots_disjoint_def by blast
    have "foot z \<inter> {fresh m..} = {}" using foot_below [OF tab [OF that(2)]] by fastforce
    then show "foot z \<inter> foot x' = {}" using a new(3) by blast
    show "inv z m'" using inv_frame [OF tab [OF that(2)] new(2) a] .
  qed
  show "inv y m'" if "(j, y) \<in> set (AList.update k x' tab)" using mem [OF that] new(1) old by blast
  show "foots_disjoint foot (AList.update k x' tab)"
    unfolding foots_disjoint_def
  proof (intro allI impI)
    fix i y i' y' assume "(i, y) \<in> set (AList.update k x' tab)" "(i', y') \<in> set (AList.update k x' tab)" "i \<noteq> i'"
    with mem [of i y] mem [of i' y'] old dis show "foot y \<inter> foot y' = {}"
      unfolding foots_disjoint_def by blast
  qed
qed

end

definition lb_foot :: "load_balance \<Rightarrow> ptr set" where
  "lb_foot lb = snd ` set (lb_host_map lb)"

definition heap_wf :: "host_heap \<Rightarrow> bool" where
  "heap_wf mem \<longleftrightarrow> (\<forall>p. hh_hosts mem p \<noteq> None \<longrightarrow> p < hh_fresh mem)"

definition heap_same :: "ptr set \<Rightarrow> host_heap \<Rightarrow> host_heap \<Rightarrow> bool" where
  "heap_same ps mem mem' \<longleftrightarrow> heap_frame ps mem mem' \<and> heap_wf mem'"

lemma lb_inv_wf: "lb_inv cfg lb mem \<Longrightarrow> heap_wf mem"
  by (simp add: lb_inv_def heap_wf_def)

lemma lb_foot_below: "lb_inv cfg lb mem \<Longrightarrow> p \<in> lb_foot lb \<Longrightarrow> p < hh_fresh mem"
proof -
  assume inv: "lb_inv cfg lb mem" and "p \<in> lb_foot lb"
  then obtain k where "(k, p) \<in> set (lb_host_map lb)" by (auto simp: lb_foot_def)
  then obtain h where "hh_hosts mem p = Some h" using lb_inv_host [OF inv] by blast
  with lb_inv_wf [OF inv] show ?thesis by (auto simp: heap_wf_def)
qed

lemma lb_inv_frame:
  assumes inv: "lb_inv cfg lb mem" and same: "heap_same ps mem mem'" and dis: "lb_foot lb \<inter> ps = {}"
  shows "lb_inv cfg lb mem'"
proof -
  have eq: "hh_hosts mem' p = hh_hosts mem p" if "p \<in> lb_foot lb" for p
    using that lb_foot_below [OF inv that] same dis by (auto simp: heap_same_def heap_frame_def)
  have "set (lb_idle_list lb) \<union> set (lb_overload_list lb) = lb_foot lb" using inv by (simp add: lb_inv_def lb_foot_def)
  then have "p \<in> lb_foot lb" if "p \<in> set (lb_idle_list lb) \<or> p \<in> set (lb_overload_list lb)" for p using that by blast
  then have "idle_at mem' p = idle_at mem p" "over_at mem' p = over_at mem p"
    if "p \<in> set (lb_idle_list lb) \<or> p \<in> set (lb_overload_list lb)" for p
    using that eq by (simp_all add: idle_at_def over_at_def)
  moreover have "host_at mem' k p = host_at mem k p" if "(k, p) \<in> set (lb_host_map lb)" for k p
    using eq [of p] that by (force simp: lb_foot_def host_at_def)
  moreover have "\<forall>p. hh_hosts mem' p \<noteq> None \<longrightarrow> p < hh_fresh mem'" using same by (simp add: heap_same_def heap_wf_def)
  ultimately show ?thesis using inv unfolding lb_inv_def by auto
qed

interpretation modules: shared_heap "lb_inv cfg" lb_foot hh_fresh heap_same
  by unfold_locales (auto intro: lb_inv_frame lb_foot_below)

section \<open>The table invariant\<close>

definition rl_inv :: "load_balance_config \<Rightarrow> route_lb \<Rightarrow> bool" where
  "rl_inv cfg rl \<longleftrightarrow>
     distinct (map fst (rl_map rl)) \<and> foots_disjoint lb_foot (rl_map rl) \<and> heap_wf (rl_mem rl) \<and> probe_num cfg < 2 ^ 31 \<and>
     (\<forall>k lb. (k, lb) \<in> set (rl_map rl) \<longrightarrow> lb_inv cfg lb (rl_mem rl) \<and> mk_key (lb_modid lb) (lb_cmdid lb) = k)"

lemma rl_inv_lookup:
  assumes "rl_inv cfg rl" "map_of (rl_map rl) k = Some lb"
  shows "lb_inv cfg lb (rl_mem rl)" "mk_key (lb_modid lb) (lb_cmdid lb) = k"
  using assms map_of_SomeD [OF assms(2)] by (auto simp: rl_inv_def)

lemma rl_inv_put:
  assumes inv: "rl_inv cfg rl" and lb: "map_of (rl_map rl) k = Some lb"
    and new: "lb_inv cfg lb' mem'" "heap_frame (lb_foot lb) (rl_mem rl) mem'" "lb_foot lb' \<subseteq> lb_foot lb \<union> {hh_fresh (rl_mem rl)..}"
    and ids: "lb_modid lb' = lb_modid lb" "lb_cmdid lb' = lb_cmdid lb"
  shows "rl_inv cfg (rl\<lparr>rl_map := AList.update k lb' (rl_map rl), rl_mem := mem'\<rparr>)"
proof -
  have same: "heap_same (lb_foot lb) (rl_mem rl) mem'" using new lb_inv_wf by (auto simp: heap_same_def)
  have tab: "\<And>j x. (j, x) \<in> set (rl_map rl) \<Longrightarrow> lb_inv cfg x (rl_mem rl)"
      and dis: "foots_disjoint lb_foot (rl_map rl)" and d: "distinct (map fst (rl_map rl))"
    using inv by (auto simp: rl_inv_def)
  note up = modules.table_update [OF tab dis d lb new(1) same new(3)]
  have "mk_key (lb_modid x) (lb_cmdid x) = j" if "(j, x) \<in> set (AList.update k lb' (rl_map rl))" for j x
  proof -
    have "map_of (AList.update k lb' (rl_map rl)) j = Some x" using that up(3) by simp
    then have "(j = k \<and> x = lb') \<or> map_of (rl_map rl) j = Some x" by (auto simp: update_conv' split: if_splits)
    then show ?thesis using rl_inv_lookup(2) [OF inv] lb ids by auto
  qed
  then show ?thesis using up inv lb_inv_wf [OF new(1)] unfolding rl_inv_def by simp
qed

lemma rl_inv_add:
  assumes inv: "rl_inv cfg rl" and "map_of (rl_map rl) (mk_key m c) = None" and "lb_host_map lb = []"
    and "lb_inv cfg lb (rl_mem rl)" "lb_modid lb = m" "lb_cmdid lb = c"
  shows "rl_inv cfg (rl\<lparr>rl_map := rl_map rl @ [(mk_key m c, lb)]\<rparr>)"
proof -
  have "mk_key m c \<notin> fst ` set (rl_map rl)" using assms(2) by (simp add: map_of_eq_None_iff)
  moreover have "lb_foot lb = {}" using assms(3) by (simp add: lb_foot_def)
  ultimately show ?thesis using assms unfolding rl_inv_def foots_disjoint_def by auto
qed

lemma rl_inv_delete:
  assumes "rl_inv cfg rl"
  shows "rl_inv cfg (rl\<lparr>rl_map := AList.delete k (rl_map rl)\<rparr>)"
proof -
  have "set (AList.delete k (rl_map rl)) \<subseteq> set (rl_map rl)" by (auto simp: AList.delete_eq)
  then show ?thesis
    using assms distinct_delete [of "rl_map rl" k] foots_disjoint_map [of lb_foot "rl_map rl" "AList.delete k (rl_map rl)"]
    unfolding rl_inv_def by auto
qed

lemma rl_inv_reset:
  assumes "rl_inv cfg rl"
  shows "rl_inv cfg (reset_lb_status rl)"
proof -
  let ?f = "\<lambda>(k, lb). (k, lb\<lparr>lb_status := NEW\<rparr>) :: u64 \<times> load_balance"
  have el: "\<exists>x. (k, x) \<in> set (rl_map rl) \<and> lb = x\<lparr>lb_status := NEW\<rparr>" if "(k, lb) \<in> set (map ?f (rl_map rl))" for k lb
    using that by auto
  have "foots_disjoint lb_foot (map ?f (rl_map rl))"
  proof (rule foots_disjoint_map)
    show "foots_disjoint lb_foot (rl_map rl)" using assms by (simp add: rl_inv_def)
    show "\<exists>y. (k, y) \<in> set (rl_map rl) \<and> lb_foot y = lb_foot x" if "(k, x) \<in> set (map ?f (rl_map rl))" for k x
      using el [OF that] by (auto simp: lb_foot_def)
  qed
  moreover have "distinct (map fst (map ?f (rl_map rl)))"
  proof -
    have "map fst (map ?f (rl_map rl)) = map fst (rl_map rl)" by auto
    then show ?thesis using assms by (simp only: rl_inv_def)
  qed
  moreover have "lb_inv cfg lb (rl_mem rl) \<and> mk_key (lb_modid lb) (lb_cmdid lb) = k"
    if "(k, lb) \<in> set (map ?f (rl_map rl))" for k lb
    using el [OF that] assms unfolding rl_inv_def by fastforce
  ultimately show ?thesis using assms unfolding rl_inv_def reset_lb_status_def by (simp del: map_map set_map)
qed

lemma load_balance_new_fields [simp]:
  "lb_host_map (load_balance_new m c now) = []" "lb_modid (load_balance_new m c now) = m"
  "lb_cmdid (load_balance_new m c now) = c"
  by (simp_all add: load_balance_new_def)

text \<open>The operations on a module keep its identity.\<close>

definition same_ids :: "load_balance \<Rightarrow> load_balance \<Rightarrow> bool" where
  "same_ids lb lb' \<longleftrightarrow> lb_modid lb' = lb_modid lb \<and> lb_cmdid lb' = lb_cmdid lb"

lemma choice_ids: "choice_one_host cfg rsp lb mem = Inr (ret, rsp', lb') \<Longrightarrow> same_ids lb lb'"
  by (auto simp: same_ids_def choice_one_host_def Let_def res_simps split: if_splits)

lemma report_ids: "lb_report cfg t now ip port r lb mem = Inr (lb', mem') \<Longrightarrow> same_ids lb lb'"
  by (auto simp: same_ids_def lb_report_def check_window_def to_idle_def to_overload_def Let_def res_simps
      split: option.splits if_splits)

lemma insert_hosts_ids: "insert_hosts cfg ts i hs rem lb mem = (rem', lb', mem') \<Longrightarrow> same_ids lb lb'"
  by (induction hs arbitrary: i rem lb mem) (auto simp: same_ids_def Let_def split: if_splits)

lemma delete_hosts_ids: "delete_hosts ks lb mem = Inr (lb', mem') \<Longrightarrow> same_ids lb lb'"
proof (induction ks arbitrary: lb mem)
  case (Cons k ks)
  from Cons.prems Cons.IH show ?case by (fastforce simp: same_ids_def res_simps split: option.splits if_splits)
qed (simp add: same_ids_def)

lemma update_ids: "lb_update cfg t ts rsp lb mem = Inr (lb', mem') \<Longrightarrow> same_ids lb lb'"
  by (auto simp: lb_update_def res_simps same_ids_def split: prod.splits
      dest!: insert_hosts_ids delete_hosts_ids)

lemma choice_total:
  assumes "lb_inv cfg lb mem" "lb_host_map lb \<noteq> []"
  shows "\<exists>ret rsp' lb'. choice_one_host cfg rsp lb mem = Inr (ret, rsp', lb')"
proof -
  have "\<not> (lb_idle_list lb = [] \<and> lb_overload_list lb = [])" using assms by (auto simp: lb_inv_def)
  then show ?thesis
    by (cases "lb_idle_list lb"; cases "lb_overload_list lb") (auto simp: choice_cases [OF assms])
qed

lemma choice_foot: "lb_inv cfg lb mem \<Longrightarrow> lb_host_map lb \<noteq> [] \<Longrightarrow> choice_one_host cfg rsp lb mem = Inr (ret, rsp', lb') \<Longrightarrow>
  lb_inv cfg lb' mem \<and> lb_foot lb' = lb_foot lb"
  using choice_inv [of cfg lb mem rsp ret rsp' lb'] by (simp add: lb_foot_def)

lemma pull_if_stale_fields:
  "pull_if_stale cfg now lb q = (lb', q') \<Longrightarrow>
   lb_host_map lb' = lb_host_map lb \<and> same_ids lb lb' \<and> lb_inv cfg' lb' mem = lb_inv cfg' lb mem"
  by (auto simp: pull_if_stale_def lb_pull_def same_ids_def split: if_splits)

lemma rl_get_host_inv:
  assumes inv: "rl_inv cfg rl"
  shows "\<exists>ret rsp' rl' q'. rl_get_host cfg now m c rsp rl q = Inr (ret, rsp', rl', q') \<and> rl_inv cfg rl'"
proof (cases "map_of (rl_map rl) (mk_key m c)")
  case None
  have "lb_inv cfg (load_balance_new m c now) (rl_mem rl)"
    using inv by (intro lb_inv_new) (auto simp: rl_inv_def heap_wf_def)
  then have "rl_inv cfg (rl\<lparr>rl_map := rl_map rl @ [(mk_key m c, (load_balance_new m c now)\<lparr>lb_status := PULLING\<rparr>)]\<rparr>)"
    by (intro rl_inv_add [OF inv None]) simp_all
  then show ?thesis using None by (simp add: rl_get_host_def lb_pull_def)
next
  case (Some lb)
  note lb = rl_inv_lookup [OF inv Some]
  show ?thesis
  proof (cases "lb_empty lb")
    case True
    then show ?thesis using Some inv by (simp add: rl_get_host_def)
  next
    case False
    then have ne: "lb_host_map lb \<noteq> []" by (simp add: lb_empty_def)
    obtain ret rsp' lb1 where c: "choice_one_host cfg rsp lb (rl_mem rl) = Inr (ret, rsp', lb1)"
      using choice_total [OF lb(1) ne] by blast
    obtain lb2 q2 where p: "pull_if_stale cfg now lb1 q = (lb2, q2)" by fastforce
    note c1 = choice_foot [OF lb(1) ne c] and p1 = pull_if_stale_fields [OF p] and ids = choice_ids [OF c]
    have "rl_inv cfg (rl\<lparr>rl_map := AList.update (mk_key m c) lb2 (rl_map rl), rl_mem := rl_mem rl\<rparr>)"
      using c1 p1 ids by (intro rl_inv_put [OF inv Some]) (auto simp: lb_foot_def same_ids_def)
    then have "rl_inv cfg (rl\<lparr>rl_map := AList.update (mk_key m c) lb2 (rl_map rl)\<rparr>)" by simp
    then show ?thesis using Some False c p by (simp add: rl_get_host_def)
  qed
qed

lemma host_infos_ok:
  "\<forall>p \<in> set ps. hh_hosts mem p \<noteq> None \<Longrightarrow>
   host_infos ps mem = Inr (map (\<lambda>p. \<lparr>pb_ip = hi_ip (the (hh_hosts mem p)), pb_port = hi_port (the (hh_hosts mem p))\<rparr>) ps)"
  by (induction ps) auto

lemma get_all_hosts_live: "lb_inv cfg lb mem \<Longrightarrow> \<forall>p \<in> set (get_all_hosts lb). hh_hosts mem p \<noteq> None"
  by (auto simp: get_all_hosts_def elim: lb_inv_host)

lemma rl_get_route_inv:
  assumes inv: "rl_inv cfg rl"
  shows "\<exists>ret rsp' rl' q'. rl_get_route cfg now m c rsp rl q = Inr (ret, rsp', rl', q') \<and> rl_inv cfg rl'"
proof (cases "map_of (rl_map rl) (mk_key m c)")
  case None
  have "lb_inv cfg (load_balance_new m c now) (rl_mem rl)"
    using inv by (intro lb_inv_new) (auto simp: rl_inv_def heap_wf_def)
  then have "rl_inv cfg (rl\<lparr>rl_map := rl_map rl @ [(mk_key m c, (load_balance_new m c now)\<lparr>lb_status := PULLING\<rparr>)]\<rparr>)"
    by (intro rl_inv_add [OF inv None]) simp_all
  then show ?thesis using None by (simp add: rl_get_route_def lb_pull_def)
next
  case (Some lb)
  note lb = rl_inv_lookup [OF inv Some]
  obtain lb2 q2 where p: "pull_if_stale cfg now lb q = (lb2, q2)" by fastforce
  note p1 = pull_if_stale_fields [OF p]
  have "rl_inv cfg (rl\<lparr>rl_map := AList.update (mk_key m c) lb2 (rl_map rl), rl_mem := rl_mem rl\<rparr>)"
    using lb(1) p1 by (intro rl_inv_put [OF inv Some]) (auto simp: lb_foot_def same_ids_def)
  then have "rl_inv cfg (rl\<lparr>rl_map := AList.update (mk_key m c) lb2 (rl_map rl)\<rparr>)" by simp
  then show ?thesis using Some p host_infos_ok [OF get_all_hosts_live [OF lb(1)]] by (simp add: rl_get_route_def)
qed

lemma report_host_inv:
  assumes inv: "rl_inv cfg rl"
  shows "\<exists>rl' q'. report_host cfg t now tc req rl q = Inr (rl', q') \<and> rl_inv cfg rl'"
proof (cases "map_of (rl_map rl) (mk_key (rpq_modid req) (rpq_cmdid req))")
  case None
  then show ?thesis using inv by (simp add: report_host_def)
next
  case (Some lb)
  note lb = rl_inv_lookup [OF inv Some]
  obtain lb' mem' where r: "lb_report cfg t now (pb_ip (pb_host (rpq_host req))) (pb_port (pb_host (rpq_host req))) (rpq_retcode req) lb (rl_mem rl) = Inr (lb', mem')"
      "lb_inv cfg lb' mem'" "lb_host_map lb' = lb_host_map lb" "heap_frame (snd ` set (lb_host_map lb)) (rl_mem rl) mem'"
    using lb_report_inv [OF lb(1)] by blast
  have "rl_inv cfg (rl\<lparr>rl_map := AList.update (mk_key (rpq_modid req) (rpq_cmdid req)) lb' (rl_map rl), rl_mem := mem'\<rparr>)"
    using r report_ids [OF r(1)] by (intro rl_inv_put [OF inv Some]) (auto simp: lb_foot_def same_ids_def)
  then show ?thesis using Some r(1) lb_commit_inv [OF r(2)] by (simp add: report_host_def)
qed

lemma insert_hosts_fresh:
  "insert_hosts cfg ts i hs rem lb mem = (rem', lb', mem') \<Longrightarrow> lb_foot lb' \<subseteq> lb_foot lb \<union> {hh_fresh mem..}"
proof (induction hs arbitrary: i rem lb mem)
  case (Cons h hs)
  show ?case
  proof (cases "map_of (lb_host_map lb) (mk_key (pb_ip h) (pb_port h)) = None")
    case True
    with Cons.prems have "insert_hosts cfg ts (Suc i) hs (insert (mk_key (pb_ip h) (pb_port h)) rem)
        (lb\<lparr>lb_host_map := lb_host_map lb @ [(mk_key (pb_ip h) (pb_port h), hh_fresh mem)],
            lb_idle_list := lb_idle_list lb @ [hh_fresh mem]\<rparr>)
        (mem\<lparr>hh_hosts := (hh_hosts mem)(hh_fresh mem \<mapsto> host_info_new (pb_ip h) (pb_port h) (init_succ_cnt cfg) (ts i)),
             hh_fresh := Suc (hh_fresh mem)\<rparr>) = (rem', lb', mem')"
      by (simp add: Let_def)
    from Cons.IH [OF this] show ?thesis by (auto simp: lb_foot_def)
  next
    case False
    with Cons show ?thesis by (auto simp: Let_def)
  qed
qed simp

lemma delete_hosts_map: "delete_hosts ks lb mem = Inr (lb', mem') \<Longrightarrow> lb_host_map lb' = lb_host_map lb"
proof (induction ks arbitrary: lb mem)
  case (Cons k ks)
  from Cons.prems Cons.IH show ?case by (fastforce simp: res_simps split: option.splits if_splits)
qed simp

lemma lb_update_foot:
  assumes "lb_update cfg t ts rsp lb mem = Inr (lb', mem')"
  shows "lb_foot lb' \<subseteq> lb_foot lb \<union> {hh_fresh mem..}"
proof -
  obtain rem lb1 mem1 where i: "insert_hosts cfg ts 0 (grs_host rsp) {} lb mem = (rem, lb1, mem1)"
    by (cases "insert_hosts cfg ts 0 (grs_host rsp) {} lb mem") auto
  with assms have "lb_foot lb' = lb_foot lb1"
    by (auto simp: lb_update_def res_simps lb_foot_def dest!: delete_hosts_map)
  with insert_hosts_fresh [OF i] show ?thesis by simp
qed

text \<open>
  A response extends the module it is for when it contains all its hosts; an empty response
  removes the module.
\<close>

definition extends :: "GetRouteResponse \<Rightarrow> i32 \<Rightarrow> i32 \<Rightarrow> route_lb \<Rightarrow> bool" where
  "extends rsp m c rl \<longleftrightarrow> grs_host rsp = [] \<or>
     (\<forall>lb. map_of (rl_map rl) (mk_key m c) = Some lb \<longrightarrow> fst ` set (lb_host_map lb) \<subseteq> host_key ` set (grs_host rsp))"

lemma update_host_inv:
  assumes inv: "rl_inv cfg rl" and ext: "extends rsp m c rl"
  shows "\<exists>rl'. update_host cfg t ts m c rsp rl = Inr (0, rl') \<and> rl_inv cfg rl'"
proof (cases "map_of (rl_map rl) (mk_key m c)")
  case None
  then show ?thesis using inv by (simp add: update_host_def)
next
  case (Some lb)
  note lb = rl_inv_lookup [OF inv Some]
  show ?thesis
  proof (cases "grs_host rsp = []")
    case True
    then show ?thesis using Some rl_inv_delete [OF inv] by (simp add: update_host_def)
  next
    case False
    obtain lb' mem' where u: "lb_update cfg t ts rsp lb (rl_mem rl) = Inr (lb', mem')"
        "heap_frame (snd ` set (lb_host_map lb)) (rl_mem rl) mem'"
        "fst ` set (lb_host_map lb) \<subseteq> host_key ` set (grs_host rsp) \<Longrightarrow> lb_inv cfg lb' mem'"
      by (rule lb_update_updated [OF lb(1) False, of t ts]) rule
    have "lb_inv cfg lb' mem'" using u(3) ext Some False by (simp add: extends_def)
    then have "rl_inv cfg (rl\<lparr>rl_map := AList.update (mk_key m c) lb' (rl_map rl), rl_mem := mem'\<rparr>)"
      using u(2) update_ids [OF u(1)] lb_update_foot [OF u(1)]
      by (intro rl_inv_put [OF inv Some]) (auto simp: lb_foot_def same_ids_def)
    then show ?thesis using Some False u(1) by (simp add: update_host_def)
  qed
qed

lemma lb_update_first:
  assumes "lb_host_map lb = []" "grs_host rsp = h # hs" "lb_update cfg t ts rsp lb mem = Inr (lb', mem')"
  shows "\<exists>p new. lb_host_map lb' = (host_key h, p) # new"
proof -
  obtain rem lb1 mem1 where i: "insert_hosts cfg ts 0 (h # hs) {} lb mem = (rem, lb1, mem1)"
    by (cases "insert_hosts cfg ts 0 (h # hs) {} lb mem") auto
  have "lb_host_map lb' = lb_host_map lb1"
    using assms(2,3) i by (auto simp: lb_update_def res_simps dest!: delete_hosts_map)
  moreover have "insert_hosts cfg ts (Suc 0) hs {host_key h}
      (lb\<lparr>lb_host_map := [(host_key h, hh_fresh mem)], lb_idle_list := lb_idle_list lb @ [hh_fresh mem]\<rparr>)
      (mem\<lparr>hh_hosts := (hh_hosts mem)(hh_fresh mem \<mapsto> host_info_new (pb_ip h) (pb_port h) (init_succ_cnt cfg) (ts 0)),
           hh_fresh := Suc (hh_fresh mem)\<rparr>) = (rem, lb1, mem1)"
    using i assms(1) by (simp add: host_key_def Let_def)
  from insert_hosts_mono [OF this] have "\<exists>new. lb_host_map lb1 = (host_key h, hh_fresh mem) # new" by auto
  ultimately show ?thesis by auto
qed

section \<open>Runs and properties\<close>

text \<open>One operation of a server thread or of the route client on the table.\<close>

inductive route_step :: "load_balance_config \<Rightarrow> route_lb \<Rightarrow> route_lb \<Rightarrow> bool" for cfg where
  get_host: "rl_get_host cfg now m c rsp rl q = Inr (ret, rsp', rl', q') \<Longrightarrow> route_step cfg rl rl'"
| get_route: "rl_get_route cfg now m c grsp rl q = Inr (ret, grsp', rl', q') \<Longrightarrow> route_step cfg rl rl'"
| report: "report_host cfg t now tc req rl rq = Inr (rl', rq') \<Longrightarrow> route_step cfg rl rl'"
| update: "extends grsp m c rl \<Longrightarrow> update_host cfg t ts m c grsp rl = Inr (ret, rl') \<Longrightarrow> route_step cfg rl rl'"
| reset: "route_step cfg rl (reset_lb_status rl)"

inductive_cases route_stepE: "route_step cfg rl rl'"

lemma route_step_inv: "rl_inv cfg rl \<Longrightarrow> route_step cfg rl rl' \<Longrightarrow> rl_inv cfg rl'"
proof (erule route_stepE)
  fix now m c rsp q ret rsp' q'
  assume "rl_inv cfg rl" "rl_get_host cfg now m c rsp rl q = Inr (ret, rsp', rl', q')"
  then show ?thesis using rl_get_host_inv [of cfg rl now m c rsp q] by auto
next
  fix now m c grsp q ret grsp' q'
  assume "rl_inv cfg rl" "rl_get_route cfg now m c grsp rl q = Inr (ret, grsp', rl', q')"
  then show ?thesis using rl_get_route_inv [of cfg rl now m c grsp q] by auto
next
  fix t now tc req rq rq'
  assume "rl_inv cfg rl" "report_host cfg t now tc req rl rq = Inr (rl', rq')"
  then show ?thesis using report_host_inv [of cfg rl t now tc req rq] by auto
next
  fix grsp m c t ts ret
  assume "rl_inv cfg rl" "extends grsp m c rl" "update_host cfg t ts m c grsp rl = Inr (ret, rl')"
  then show ?thesis using update_host_inv [of cfg rl grsp m c t ts] by auto
qed (simp add: rl_inv_reset)

lemma rl_inv_new: "probe_num cfg < 2 ^ 31 \<Longrightarrow> rl_inv cfg (route_lb_new ident)"
  by (simp add: rl_inv_def route_lb_new_def foots_disjoint_def heap_wf_def)

interpretation route_run: step_system "\<lambda>rl. probe_num cfg < 2 ^ 31 \<and> (\<exists>ident. rl = route_lb_new ident)" "route_step cfg" "rl_inv cfg"
proof unfold_locales
  fix s assume "probe_num cfg < 2 ^ 31 \<and> (\<exists>ident. s = route_lb_new ident)"
  then show "rl_inv cfg s" using rl_inv_new by blast
qed (rule route_step_inv)

text \<open>
  C14 [agent_table_safe]. As long as the route service only adds hosts to a module or removes the module, no
  operation of an agent server fails, in any order: every request, report, route query and update
  returns (no empty list is popped, no deleted or uninitialised field is read, no counter
  overflows), and the modules stay separate: no host belongs to two of them and each is filed under
  its own module and command.
\<close>

theorem agent_table_safe:
  assumes "probe_num cfg < 2 ^ 31" and "(route_step cfg)\<^sup>*\<^sup>* (route_lb_new ident) rl"
  shows "(\<exists>r. rl_get_host cfg now m c rsp rl q = Inr r) \<and> (\<exists>r. rl_get_route cfg now m c grsp rl q = Inr r) \<and>
    (\<exists>r. report_host cfg t now tc req rl rq = Inr r) \<and>
    (extends grsp m c rl \<longrightarrow> (\<exists>r. update_host cfg t ts m c grsp rl = Inr r)) \<and>
    foots_disjoint lb_foot (rl_map rl) \<and>
    (\<forall>k lb. (k, lb) \<in> set (rl_map rl) \<longrightarrow> lb_inv cfg lb (rl_mem rl) \<and> mk_key (lb_modid lb) (lb_cmdid lb) = k)"
proof -
  have inv: "rl_inv cfg rl" using route_run.reachable_inv assms by blast
  then show ?thesis
    using rl_get_host_inv [OF inv, of now m c rsp q] rl_get_route_inv [OF inv, of now m c grsp q]
      report_host_inv [OF inv, of t now tc req rq] update_host_inv [OF inv, of grsp m c t ts]
    by (auto simp: rl_inv_def)
qed

definition demo_queue :: "'t thread_queue" where
  "demo_queue = \<lparr>tq_evfd = 7, tq_counter = 0, tq_loop = None, tq_queue = []\<rparr>"

theorem agent_table_safe_witness:
  "\<exists>r. rl_get_host demo_cfg 5 1 2 demo_rsp (route_lb_new 1) demo_queue = Inr r"
  using agent_table_safe [of demo_cfg 1 "route_lb_new 1" 5 1 2 demo_rsp demo_queue]
  by (simp add: demo_cfg_def)

text \<open>
  A host request sends at most one message to the route service, for exactly the module
  asked for: when the module is unknown, or when it has hosts, no request is under way and its last
  update is older than \<open>update_timeout\<close>; the module is then \<open>PULLING\<close>, so that no second request
  is sent before an update arrives or the connection is set up again.
\<close>

theorem get_host_pulls:
  assumes "probe_num cfg < 2 ^ 31" and "(route_step cfg)\<^sup>*\<^sup>* (route_lb_new ident) rl"
    and "rl_get_host cfg now m c rsp rl q = Inr (ret, rsp', rl', q')"
  shows "(let asks = (case map_of (rl_map rl) (mk_key m c) of
              None \<Rightarrow> True
            | Some lb \<Rightarrow> lb_host_map lb \<noteq> [] \<and> lb_status lb = NEW \<and> update_timeout cfg < now - lb_last_update_time lb) in
     q' = (if asks then tq_send \<lparr>grq_modid = m, grq_cmdid = c\<rparr> q else q) \<and>
     (asks \<longrightarrow> map_option lb_status (map_of (rl_map rl') (mk_key m c)) = Some PULLING))"
proof (cases "map_of (rl_map rl) (mk_key m c)")
  case None
  then show ?thesis using assms(3) by (auto simp: rl_get_host_def lb_pull_def Let_def map_add_def)
next
  case (Some lb)
  have inv: "rl_inv cfg rl" using route_run.reachable_inv assms(1,2) by blast
  have ids: "lb_modid lb = m" "lb_cmdid lb = c" using rl_inv_lookup(2) [OF inv Some] by simp_all
  have st: "lb_status lb1 = lb_status lb \<and> lb_last_update_time lb1 = lb_last_update_time lb \<and>
      lb_modid lb1 = lb_modid lb \<and> lb_cmdid lb1 = lb_cmdid lb"
    if "choice_one_host cfg rsp lb mem = Inr (r, rsp1, lb1)" for mem r rsp1 lb1
    using that by (auto simp: choice_one_host_def Let_def res_simps split: if_splits)
  show ?thesis
    using Some assms(3) ids
    by (auto simp: rl_get_host_def lb_empty_def pull_if_stale_def lb_pull_def Let_def res_simps update_conv'
        split: if_splits dest!: st)
qed

theorem get_host_pulls_witness:
  "\<exists>ret rsp' rl' q'. rl_get_host demo_cfg 5 1 2 demo_rsp (route_lb_new 1) demo_queue = Inr (ret, rsp', rl', q') \<and>
     q' = tq_send \<lparr>grq_modid = 1, grq_cmdid = 2\<rparr> demo_queue"
proof -
  obtain ret rsp' rl' q' where g: "rl_get_host demo_cfg 5 1 2 demo_rsp (route_lb_new 1) demo_queue = Inr (ret, rsp', rl', q')"
    by (simp add: rl_get_host_def route_lb_new_def lb_pull_def)
  have "probe_num demo_cfg < 2 ^ 31" by (simp add: demo_cfg_def)
  from get_host_pulls [OF this rtranclp.rtrancl_refl g] g show ?thesis by (simp add: route_lb_new_def Let_def)
qed

lemma first_route_offered:
  assumes inv: "rl_inv cfg rl" and "map_of (rl_map rl) (mk_key m c) = None" and "grs_host grsp = h # hs"
  shows "\<exists>rsp1 rl1 rl2 rsp3 rl3 q3.
    rl_get_host cfg now m c rsp rl q = Inr (RET_NOEXIST, rsp1, rl1, tq_send \<lparr>grq_modid = m, grq_cmdid = c\<rparr> q) \<and>
    ghs_retcode rsp1 = RET_NOEXIST \<and>
    update_host cfg t ts m c grsp rl1 = Inr (0, rl2) \<and>
    rl_get_host cfg now' m c rsp' rl2 q' = Inr (RET_SUCC, rsp3, rl3, q3) \<and>
    ghs_retcode rsp3 = RET_SUCC \<and> ghs_host rsp3 = Some h \<and> rl_inv cfg rl1 \<and> rl_inv cfg rl2"
proof -
  let ?k = "mk_key m c" and ?K = "host_key ` set (grs_host grsp)"
  let ?lb = "(load_balance_new m c now)\<lparr>lb_status := PULLING\<rparr>"
  let ?rl1 = "rl\<lparr>rl_map := rl_map rl @ [(?k, ?lb)]\<rparr>"
  have g1: "rl_get_host cfg now m c rsp rl q =
      Inr (RET_NOEXIST, rsp\<lparr>ghs_retcode := RET_NOEXIST\<rparr>, ?rl1, tq_send \<lparr>grq_modid = m, grq_cmdid = c\<rparr> q)"
    using assms(2) by (simp add: rl_get_host_def lb_pull_def)
  have inv1: "rl_inv cfg ?rl1" using rl_get_host_inv [OF inv, of now m c rsp q] g1 by auto
  have m1: "map_of (rl_map ?rl1) ?k = Some ?lb" using assms(2) by (simp add: map_add_def)
  note lbi = rl_inv_lookup(1) [OF inv1 m1]
  have ne: "grs_host grsp \<noteq> []" using assms(3) by simp
  obtain lb2 mem2 where u: "lb_update cfg t ts grsp ?lb (rl_mem ?rl1) = Inr (lb2, mem2)"
      "updated ?K ?lb (rl_mem ?rl1) lb2 mem2"
      "fst ` set (lb_host_map ?lb) \<subseteq> ?K \<Longrightarrow> lb_inv cfg lb2 mem2"
    by (rule lb_update_updated [OF lbi ne, of t ts]) rule
  have inv2: "lb_inv cfg lb2 mem2" using u(3) by simp
  let ?rl2 = "?rl1\<lparr>rl_map := AList.update ?k lb2 (rl_map ?rl1), rl_mem := mem2\<rparr>"
  have up: "update_host cfg t ts m c grsp ?rl1 = Inr (0, ?rl2)"
    using m1 ne u(1) by (simp add: update_host_def Let_def)
  obtain p new where hm: "lb_host_map lb2 = (host_key h, p) # new"
    using lb_update_first [OF _ assms(3) u(1)] by auto
  have idle: "lb_idle_list lb2 = p # map snd new" and over: "lb_overload_list lb2 = []"
    using u(2) hm by (auto simp: updated_def load_balance_new_def)
  obtain x where x: "hh_hosts mem2 p = Some x" "mk_key (hi_ip x) (hi_port x) = host_key h"
    using lb_inv_host [OF inv2, of "host_key h" p] hm by auto
  have ans: "ghs_host (answer_of mem2 rsp' p) = Some h"
    using x by (cases h) (simp add: answer_of_def host_key_def)
  have c: "choice_one_host cfg rsp' lb2 mem2 = Inr (RET_SUCC, answer_of mem2 rsp' p, lb2\<lparr>lb_idle_list := map snd new @ [p]\<rparr>)"
    using hm idle over by (simp add: choice_cases [OF inv2])
  have m2: "map_of (rl_map ?rl2) ?k = Some lb2" by (simp add: update_conv')
  obtain lb3 q3 where p3: "pull_if_stale cfg now' (lb2\<lparr>lb_idle_list := map snd new @ [p]\<rparr>) q' = (lb3, q3)" by fastforce
  have "\<exists>rl3. rl_get_host cfg now' m c rsp' ?rl2 q' = Inr (RET_SUCC, (answer_of mem2 rsp' p)\<lparr>ghs_retcode := RET_SUCC\<rparr>, rl3, q3)"
    using m2 c p3 hm by (simp add: rl_get_host_def lb_empty_def Let_def)
  moreover have "rl_inv cfg ?rl2"
    using update_host_inv [OF inv1, of grsp m c t ts] up m1 by (simp add: extends_def)
  ultimately show ?thesis using g1 up ans inv1 by fastforce
qed

text \<open>
  The first request for a module is answered with \<open>RET_NOEXIST\<close> and sends one request to the
  route service; once the answer of the route service with at least one host has been stored, the next request for
  the module is answered with success and the address of the first host of that answer.
\<close>

theorem agent_learns_route:
  assumes "probe_num cfg < 2 ^ 31" and "(route_step cfg)\<^sup>*\<^sup>* (route_lb_new ident) rl"
    and "map_of (rl_map rl) (mk_key m c) = None" and "grs_host grsp = h # hs"
  shows "\<exists>rsp1 rl1 rl2 rsp3 rl3 q3.
    rl_get_host cfg now m c rsp rl q = Inr (RET_NOEXIST, rsp1, rl1, tq_send \<lparr>grq_modid = m, grq_cmdid = c\<rparr> q) \<and>
    ghs_retcode rsp1 = RET_NOEXIST \<and>
    update_host cfg t ts m c grsp rl1 = Inr (0, rl2) \<and>
    rl_get_host cfg now' m c rsp' rl2 q' = Inr (RET_SUCC, rsp3, rl3, q3) \<and>
    ghs_retcode rsp3 = RET_SUCC \<and> ghs_host rsp3 = Some h"
proof -
  have "rl_inv cfg rl" using route_run.reachable_inv assms(1,2) by blast
  from first_route_offered [OF this assms(3,4), of now rsp q t ts now' rsp' q'] show ?thesis by blast
qed

theorem agent_learns_route_witness:
  "\<exists>rsp1 rl1 rl2 rsp3 rl3 q3.
    rl_get_host demo_cfg 5 1 2 demo_rsp (route_lb_new 1) demo_queue =
      Inr (RET_NOEXIST, rsp1, rl1, tq_send \<lparr>grq_modid = 1, grq_cmdid = 2\<rparr> demo_queue) \<and>
    update_host demo_cfg 6 (\<lambda>_. 6) 1 2 demo_route rl1 = Inr (0, rl2) \<and>
    rl_get_host demo_cfg 7 1 2 demo_rsp rl2 demo_queue = Inr (RET_SUCC, rsp3, rl3, q3) \<and>
    ghs_host rsp3 = Some \<lparr>pb_ip = 100, pb_port = 80\<rparr>"
proof -
  have "probe_num demo_cfg < 2 ^ 31" "map_of (rl_map (route_lb_new 1)) (mk_key 1 2) = None"
    by (simp_all add: demo_cfg_def route_lb_new_def)
  moreover have "grs_host demo_route = \<lparr>pb_ip = 100, pb_port = 80\<rparr> # [\<lparr>pb_ip = 101, pb_port = 81\<rparr>]"
    by (simp add: demo_route_def)
  ultimately show ?thesis
    using agent_learns_route [of demo_cfg 1 "route_lb_new 1" 1 2 demo_route "\<lparr>pb_ip = 100, pb_port = 80\<rparr>" _ 5 demo_rsp demo_queue
        6 "\<lambda>_. 6" 7 demo_rsp demo_queue] by blast
qed

end
