(* ===== verification/C_Strings.thy ===== *)
theory C_Strings
  imports Lars_Prelude
begin

text \<open>
  The parts of the C string library that the sources use: character classes of the \<open>C\<close> locale,
  \<open>strtol\<close> in base 10 with its saturation at the ends of \<open>long\<close>, and \<open>atoi\<close>, the
  conversion of that \<open>long\<close> to \<open>int\<close>. The lemmas show that \<open>atoi\<close> reads back printed numbers.
\<close>

section \<open>Model\<close>

definition code :: "char \<Rightarrow> int" where
  "code c = of_char c"

definition is_space :: "char \<Rightarrow> bool" where
  "is_space c \<longleftrightarrow> code c = 32 \<or> (9 \<le> code c \<and> code c \<le> 13)"

definition is_digit :: "char \<Rightarrow> bool" where
  "is_digit c \<longleftrightarrow> 48 \<le> code c \<and> code c \<le> 57"

fun digits :: "int \<Rightarrow> string \<Rightarrow> int" where
  "digits acc [] = acc"
| "digits acc (c # cs) = (if is_digit c then digits (10 * acc + (code c - 48)) cs else acc)"

definition LONG_MAX :: int where
  "LONG_MAX = 2 ^ 63 - 1"

definition strtol :: "string \<Rightarrow> int" where
  "strtol s =
     (let s = dropWhile is_space s;
          v = (case s of
                 [] \<Rightarrow> 0
               | c # cs \<Rightarrow> if c = CHR ''-'' then - digits 0 cs else if c = CHR ''+'' then digits 0 cs else digits 0 s) in
      max (- LONG_MAX - 1) (min LONG_MAX v))"

definition atoi :: "string \<Rightarrow> i32" where
  "atoi s = word_of_int (strtol s)"

section \<open>Decimal numerals\<close>

definition digit_char :: "nat \<Rightarrow> char" where
  "digit_char d = char_of (48 + int d)"

fun show_nat :: "nat \<Rightarrow> string" where
  "show_nat n = (if n < 10 then [digit_char n] else show_nat (n div 10) @ [digit_char (n mod 10)])"

definition show_int :: "int \<Rightarrow> string" where
  "show_int i = (if i < 0 then CHR ''-'' # show_nat (nat (- i)) else show_nat (nat i))"

declare show_nat.simps [simp del]

lemma code_digit_char: "d < 10 \<Longrightarrow> code (digit_char d) = 48 + int d"
  by (simp add: code_def digit_char_def)

lemma digit_char_digit: "d < 10 \<Longrightarrow> is_digit (digit_char d)"
  by (simp add: is_digit_def code_digit_char)

lemma digits_append: "\<forall>c \<in> set xs. is_digit c \<Longrightarrow> digits acc (xs @ ys) = digits (digits acc xs) ys"
  by (induction xs arbitrary: acc) auto

lemma show_nat_digits: "\<forall>c \<in> set (show_nat n). is_digit c"
proof (induction n rule: show_nat.induct)
  case (1 n)
  then show ?case by (cases "n < 10") (auto simp: show_nat.simps [of n] digit_char_digit)
qed

lemma digits_show_nat: "digits 0 (show_nat n) = int n"
proof (induction n rule: show_nat.induct)
  case (1 n)
  show ?case
  proof (cases "n < 10")
    case True
    then show ?thesis by (simp add: show_nat.simps [of n] digit_char_digit code_digit_char)
  next
    case False
    have "10 * int (n div 10) + int (n mod 10) = int n"
      by (metis mult_div_mod_eq of_nat_add of_nat_mult of_nat_numeral)
    then show ?thesis
      using 1 False
      by (simp add: show_nat.simps [of n] digits_append show_nat_digits digit_char_digit code_digit_char)
  qed
qed

lemma show_nat_Cons: "\<exists>d cs. d < 10 \<and> show_nat n = digit_char d # cs"
proof (induction n rule: show_nat.induct)
  case (1 n)
  then show ?case by (cases "n < 10") (auto simp: show_nat.simps [of n])
qed

lemma strtol_show_int:
  assumes "\<bar>i\<bar> \<le> LONG_MAX"
  shows "strtol (show_int i) = i"
proof -
  obtain d cs where d: "d < 10" "show_nat (nat i) = digit_char d # cs" using show_nat_Cons by blast
  have nsp: "\<not> is_space (digit_char d)" "digit_char d \<noteq> CHR ''-''" "digit_char d \<noteq> CHR ''+''"
    using code_digit_char [OF d(1)] by (auto simp: is_space_def code_def)
  have "\<not> is_space CHR ''-''" by (simp add: is_space_def code_def)
  moreover have "digits 0 (digit_char d # cs) = int (nat i)" using digits_show_nat [of "nat i"] d by simp
  ultimately show ?thesis
    using assms nsp d digits_show_nat [of "nat (- i)"]
    by (auto simp: strtol_def show_int_def Let_def simp del: digits.simps)
qed

text \<open>
  A number column of the database, printed in decimal, is read back as the same 32-bit
  value, also for unsigned addresses above \<open>2 ^ 31\<close>, which \<open>atoi\<close> wraps to a negative \<open>int\<close> and the assignment to
  \<open>unsigned int\<close> wraps back.
\<close>

theorem atoi_roundtrip:
  "atoi (show_int (sint w)) = w \<and> atoi (show_int (uint w)) = w"
proof -
  have "- (2 ^ 31) \<le> sint w" "sint w < 2 ^ 31" using sint_ge [of w] sint_lt [of w] by simp_all
  then have "\<bar>sint w\<bar> \<le> LONG_MAX" by (simp add: LONG_MAX_def)
  moreover have "\<bar>uint w\<bar> \<le> LONG_MAX" using uint_lt2p [of w] by (simp add: LONG_MAX_def)
  ultimately show ?thesis by (simp add: atoi_def strtol_show_int)
qed

end
