(* ===== verification/Dns_Route.thy ===== *)
theory Dns_Route
  imports Lars_Pb C_Strings
begin

text \<open>
  The route table of the name service: \<^verbatim>\<open>lars_dns/include/dns_route.h\<close> and
  \<^verbatim>\<open>lars_dns/src/dns_route.cpp\<close>. The MySQL server is outside the program: what a query returns is an argument
  (\<open>None\<close> for a failed query, otherwise the rows as lists of strings). The \<open>WHERE\<close> clause of \<open>load_changes\<close> is part of the
  source: the rows it selects are a function of the version it prints into the query. \<open>_data_pointer\<close> and \<open>_temp_pointer\<close> are the
  two maps they point to; a host set is a list without duplicates, whose order stands for the iteration order of
  the hash set.
\<close>

section \<open>Model\<close>

type_synonym db_row = "string list"
type_synonym route_map = "u64 \<Rightarrow> u64 list option"

record Route =
  rt_data :: route_map
  rt_temp :: route_map
  rt_version :: int

definition row_at :: "db_row \<Rightarrow> nat \<Rightarrow> string res" where
  "row_at r n = (if n < length r then Inr (r ! n) else Inl Out_Of_Bounds)"

definition set_insert :: "'a \<Rightarrow> 'a list \<Rightarrow> 'a list" where
  "set_insert x xs = (if x \<in> set xs then xs else xs @ [x])"

text \<open>The body of the loops of \<open>build_maps\<close> and \<open>load_route_data\<close>: one row of the table \<open>RouteData\<close>.\<close>

definition add_route_row :: "db_row \<Rightarrow> route_map \<Rightarrow> route_map res" where
  "add_route_row r m =
     bindR (row_at r 1) (\<lambda>s1. bindR (row_at r 2) (\<lambda>s2. bindR (row_at r 3) (\<lambda>s3. bindR (row_at r 4) (\<lambda>s4.
     (let key = mk_key (atoi s1) (atoi s2); v = mk_key (atoi s3) (atoi s4) in
      Inr (m(key \<mapsto> set_insert v (case m key of None \<Rightarrow> [] | Some hs \<Rightarrow> hs))))))))"

fun add_route_rows :: "db_row list \<Rightarrow> route_map \<Rightarrow> route_map res" where
  "add_route_rows [] m = Inr m"
| "add_route_rows (r # rs) m = bindR (add_route_row r m) (add_route_rows rs)"

definition build_maps :: "db_row list option \<Rightarrow> Route \<Rightarrow> Route res" where
  "build_maps result rt =
     (case result of
        None \<Rightarrow> Inl Exit_1
      | Some rows \<Rightarrow> bindR (add_route_rows rows (rt_data rt)) (\<lambda>m. Inr (rt\<lparr>rt_data := m\<rparr>)))"

text \<open>\<open>connect_db\<close>: the connection attempt succeeds or the process exits.\<close>

definition connect_db :: "bool \<Rightarrow> unit res" where
  "connect_db connected = ensure connected Exit_1"

definition Route_new :: "bool \<Rightarrow> db_row list option \<Rightarrow> Route res" where
  "Route_new connected result =
     bindR (connect_db connected) (\<lambda>_.
     build_maps result \<lparr>rt_data = Map.empty, rt_temp = Map.empty, rt_version = 0\<rparr>)"

definition load_route_data :: "db_row list option \<Rightarrow> Route \<Rightarrow> Route res" where
  "load_route_data result rt =
     (case result of
        None \<Rightarrow> Inl Exit_1
      | Some rows \<Rightarrow> bindR (add_route_rows rows Map.empty) (\<lambda>m. Inr (rt\<lparr>rt_temp := m\<rparr>)))"

definition get_hosts :: "i32 \<Rightarrow> i32 \<Rightarrow> Route \<Rightarrow> u64 list" where
  "get_hosts modid cmdid rt =
     (case rt_data rt (mk_key modid cmdid) of None \<Rightarrow> [] | Some hs \<Rightarrow> hs)"

definition swap :: "Route \<Rightarrow> Route" where
  "swap rt = rt\<lparr>rt_data := rt_temp rt, rt_temp := rt_data rt\<rparr>"

definition load_version :: "db_row list option \<Rightarrow> Route \<Rightarrow> (int \<times> Route) res" where
  "load_version result rt =
     (case result of
        None \<Rightarrow> Inl Exit_1
      | Some [] \<Rightarrow> Inr (-1, rt)
      | Some (r # _) \<Rightarrow>
          bindR (row_at r 0) (\<lambda>s.
          (let new_version = sint (atoi s) in
           if new_version = rt_version rt then Inr (0, rt)
           else Inr (1, rt\<lparr>rt_version := new_version\<rparr>))))"

fun change_rows :: "db_row list \<Rightarrow> u64 list res" where
  "change_rows [] = Inr []"
| "change_rows (r # rs) =
     bindR (row_at r 0) (\<lambda>s0. bindR (row_at r 1) (\<lambda>s1. bindR (change_rows rs) (\<lambda>ks.
     Inr (mk_key (atoi s0) (atoi s1) # ks))))"

text \<open>\<open>changes v\<close>: the result of the query for the rows of \<open>RouteChange\<close> with \<open>version >= v\<close>.\<close>

definition load_changes :: "(int \<Rightarrow> db_row list option) \<Rightarrow> Route \<Rightarrow> u64 list res" where
  "load_changes changes rt =
     (case changes (rt_version rt) of None \<Rightarrow> Inl Exit_1 | Some rows \<Rightarrow> change_rows rows)"

text \<open>
  One round of \<open>check_route_changes\<close>: the answers of the database to its three queries, the time
  read, the last load time before and after, and the changes to publish (\<open>None\<close> when nothing is
  published).
\<close>

record db_answers =
  da_version :: "db_row list option"
  da_routes :: "db_row list option"
  da_changes :: "int \<Rightarrow> db_row list option"

definition check_round :: "db_answers \<Rightarrow> int \<Rightarrow> int \<Rightarrow> Route \<Rightarrow> (u64 list option \<times> int \<times> Route) res" where
  "check_round db current_time last_load_time rt =
     bindR (load_version (da_version db) rt) (\<lambda>(ret, rt).
     if ret = 1 then
       bindR (load_route_data (da_routes db) rt) (\<lambda>rt.
       (let rt = swap rt in
        bindR (load_changes (da_changes db) rt) (\<lambda>changes.
        Inr (Some changes, current_time, rt))))
     else if 10 \<le> current_time - last_load_time then
       bindR (load_route_data (da_routes db) rt) (\<lambda>rt. Inr (None, current_time, swap rt))
     else Inr (None, last_load_time, rt))"

section \<open>The table is the database\<close>

definition row_key :: "db_row \<Rightarrow> u64" where
  "row_key r = mk_key (atoi (r ! 1)) (atoi (r ! 2))"

definition row_host :: "db_row \<Rightarrow> u64" where
  "row_host r = mk_key (atoi (r ! 3)) (atoi (r ! 4))"

definition map_hosts :: "route_map \<Rightarrow> u64 \<Rightarrow> u64 list" where
  "map_hosts m k = (case m k of None \<Rightarrow> [] | Some hs \<Rightarrow> hs)"

lemma set_set_insert [simp]: "set (set_insert x xs) = insert x (set xs)"
  by (auto simp: set_insert_def)

lemma distinct_set_insert [simp]: "distinct (set_insert x xs) = distinct xs"
  by (auto simp: set_insert_def)

lemma add_route_row_ok:
  "4 < length r \<Longrightarrow> add_route_row r m = Inr (m(row_key r \<mapsto> set_insert (row_host r) (map_hosts m (row_key r))))"
  by (simp add: add_route_row_def row_at_def row_key_def row_host_def map_hosts_def Let_def)

lemma add_route_rows_ok:
  assumes "\<forall>r \<in> set rows. 4 < length r" and "\<forall>k. distinct (map_hosts m k)"
  shows "\<exists>m'. add_route_rows rows m = Inr m' \<and> (\<forall>k. distinct (map_hosts m' k)) \<and>
    (\<forall>k. set (map_hosts m' k) = set (map_hosts m k) \<union> row_host ` {r \<in> set rows. row_key r = k})"
  using assms
proof (induction rows arbitrary: m)
  case (Cons r rs)
  let ?m = "m(row_key r \<mapsto> set_insert (row_host r) (map_hosts m (row_key r)))"
  have mh: "map_hosts ?m k = (if k = row_key r then set_insert (row_host r) (map_hosts m k) else map_hosts m k)" for k
    by (simp add: map_hosts_def)
  then have "\<forall>k. distinct (map_hosts ?m k)" using Cons.prems(2) by simp
  moreover have "\<forall>r \<in> set rs. 4 < length r" using Cons.prems(1) by simp
  ultimately obtain m' where m': "add_route_rows rs ?m = Inr m'" "\<forall>k. distinct (map_hosts m' k)"
      "\<forall>k. set (map_hosts m' k) = set (map_hosts ?m k) \<union> row_host ` {r \<in> set rs. row_key r = k}"
    using Cons.IH [of ?m] by blast
  have "set (map_hosts m' k) = set (map_hosts m k) \<union> row_host ` {r' \<in> set (r # rs). row_key r' = k}" for k
    using m'(3) mh [of k] by auto
  with m'(1,2) Cons.prems(1) show ?case by (simp add: add_route_row_ok)
qed auto

lemma load_swap_hosts:
  assumes "\<forall>r \<in> set rows. 4 < length r"
  shows "\<exists>rt'. load_route_data (Some rows) rt = Inr rt' \<and> rt_data rt' = rt_data rt \<and> rt_version rt' = rt_version rt \<and>
    set (get_hosts m c (swap rt')) = row_host ` {r \<in> set rows. row_key r = mk_key m c} \<and>
    distinct (get_hosts m c (swap rt'))"
proof -
  have e: "map_hosts Map.empty k = []" for k by (simp add: map_hosts_def)
  obtain m' where m': "add_route_rows rows Map.empty = Inr m'" "\<forall>k. distinct (map_hosts m' k)"
      "\<forall>k. set (map_hosts m' k) = row_host ` {r \<in> set rows. row_key r = k}"
    using add_route_rows_ok [OF assms, of Map.empty] by (auto simp: e)
  have "get_hosts m c (swap (rt\<lparr>rt_temp := m'\<rparr>)) = map_hosts m' (mk_key m c)"
    by (simp add: get_hosts_def swap_def map_hosts_def)
  with m' show ?thesis by (simp add: load_route_data_def)
qed

text \<open>
  C30 [route_reload_exact]. Reloading the route table never disturbs readers and is exact: while the rows are loaded
  into the second map every lookup answers as before, and after the swap the hosts of a module are
  exactly the ip and port pairs of its rows in the database, without duplicates.
\<close>

theorem route_reload_exact:
  assumes "\<forall>r \<in> set rows. 4 < length r"
  shows "\<exists>rt'. load_route_data (Some rows) rt = Inr rt' \<and> get_hosts m c rt' = get_hosts m c rt \<and>
    set (get_hosts m c (swap rt')) = row_host ` {r \<in> set rows. row_key r = mk_key m c} \<and>
    distinct (get_hosts m c (swap rt'))"
  using load_swap_hosts [OF assms, of rt m c] by (auto simp: get_hosts_def)

definition demo_rows :: "db_row list" where
  "demo_rows = [[''1'', ''1'', ''2'', ''100'', ''80'', ''0''], [''2'', ''1'', ''2'', ''101'', ''81'', ''0''], [''3'', ''1'', ''3'', ''102'', ''82'', ''0'']]"

definition demo_rt :: Route where
  "demo_rt = \<lparr>rt_data = Map.empty, rt_temp = Map.empty, rt_version = 4\<rparr>"

theorem route_reload_exact_witness:
  "\<exists>rt'. load_route_data (Some demo_rows) demo_rt = Inr rt' \<and>
     set (get_hosts 1 2 (swap rt')) = row_host ` {r \<in> set demo_rows. row_key r = mk_key 1 2}"
  using route_reload_exact [of demo_rows demo_rt 1 2] by (auto simp: demo_rows_def)

section \<open>Rounds of the back end\<close>

text \<open>The table \<open>RouteChange\<close> as triples of module, command and version, and the query on it.\<close>

definition sql_changes :: "(i32 \<times> i32 \<times> int) list \<Rightarrow> int \<Rightarrow> db_row list option" where
  "sql_changes tab v =
     Some (map (\<lambda>(m, c, _). [show_int (sint m), show_int (sint c)]) (filter (\<lambda>(_, _, ver). v \<le> ver) tab))"

lemma atoi_show [simp]: "atoi (show_int (sint w)) = w"
proof -
  have "- (2 ^ 31) \<le> sint w" "sint w < 2 ^ 31" using sint_ge [of w] sint_lt [of w] by simp_all
  then have "\<bar>sint w\<bar> \<le> LONG_MAX" by (simp add: LONG_MAX_def)
  then show ?thesis by (simp add: atoi_def strtol_show_int)
qed

lemma change_rows_map:
  "change_rows (map (\<lambda>(m, c, v). [show_int (sint m), show_int (sint c)]) tab) = Inr (map (\<lambda>(m, c, v). mk_key m c) tab)"
  by (induction tab) (auto simp: row_at_def)

text \<open>
  When the version in the database differs from the one last seen, one round of the back
  end installs exactly the routes of the database and publishes exactly the changes recorded with a
  version not below the new one: a change recorded with a version between the old and the new one is not
  published. When the version is unchanged nothing is published, and the routes are reloaded after ten seconds.
\<close>

theorem check_round_publishes:
  fixes v :: i32
  assumes "da_version db = Some [[show_int (sint v)]]" and "da_routes db = Some rows" and "\<forall>r \<in> set rows. 4 < length r"
    and "da_changes db = sql_changes tab"
  shows "\<exists>pub t rt'. check_round db now prev rt = Inr (pub, t, rt') \<and> rt_version rt' = sint v \<and>
    (if sint v \<noteq> rt_version rt then
       pub = Some (map (\<lambda>(m, c, _). mk_key m c) (filter (\<lambda>(_, _, ver). sint v \<le> ver) tab)) else pub = None) \<and>
    (if sint v \<noteq> rt_version rt \<or> 10 \<le> now - prev then
       t = now \<and> set (get_hosts m c rt') = row_host ` {r \<in> set rows. row_key r = mk_key m c}
     else t = prev \<and> rt' = rt)"
proof -
  let ?rt = "rt\<lparr>rt_version := sint v\<rparr>"
  obtain rt1 where l1: "load_route_data (Some rows) ?rt = Inr rt1" "rt_version rt1 = sint v"
      "set (get_hosts m c (swap rt1)) = row_host ` {r \<in> set rows. row_key r = mk_key m c}"
    using load_swap_hosts [OF assms(3), of ?rt m c] by auto
  obtain rt2 where l2: "load_route_data (Some rows) rt = Inr rt2" "rt_version rt2 = rt_version rt"
      "set (get_hosts m c (swap rt2)) = row_host ` {r \<in> set rows. row_key r = mk_key m c}"
    using load_swap_hosts [OF assms(3), of rt m c] by auto
  have v: "load_version (da_version db) rt = Inr (if sint v = rt_version rt then (0, rt) else (1, ?rt))"
    unfolding assms(1) load_version_def by (simp only: option.case list.case row_at_def) (simp add: Let_def)
  have c: "load_changes (sql_changes tab) (swap rt1) = Inr (map (\<lambda>(m, c, _). mk_key m c) (filter (\<lambda>(_, _, ver). sint v \<le> ver) tab))"
    using l1(2) by (simp add: load_changes_def sql_changes_def swap_def change_rows_map)
  show ?thesis
    using v c l1 l2 assms(2,4) by (auto simp: check_round_def swap_def Let_def)
qed

definition demo_db :: db_answers where
  "demo_db = \<lparr>da_version = Some [[show_int (sint (6 :: i32))]], da_routes = Some demo_rows,
     da_changes = sql_changes [(1, 2, 5), (1, 3, 6)]\<rparr>"

theorem check_round_publishes_witness:
  "\<exists>pub t rt'. check_round demo_db 100 99 demo_rt = Inr (pub, t, rt') \<and> pub = Some [mk_key 1 3]"
proof -
  have d: "da_version demo_db = Some [[show_int (sint (6 :: i32))]]" "da_routes demo_db = Some demo_rows"
      "\<forall>r \<in> set demo_rows. 4 < length r" "da_changes demo_db = sql_changes [(1, 2, 5), (1, 3, 6)]"
    by (simp_all add: demo_db_def demo_rows_def)
  have "sint (6 :: i32) \<noteq> rt_version demo_rt" by (simp add: demo_rt_def)
  moreover have "map (\<lambda>(m, c, _). mk_key m c) (filter (\<lambda>(_, _, ver). sint (6 :: i32) \<le> ver) [(1, 2, 5), (1, 3, 6)]) = [mk_key 1 3]"
    by simp
  ultimately show ?thesis using check_round_publishes [OF d, of 100 99 demo_rt] by metis
qed

end
