(* ===== verification/Thread_Pool.thy ===== *)
theory Thread_Pool
  imports Thread_Queue
begin

text \<open>
  \<^verbatim>\<open>lars_reactor/include/task_msg.h\<close>, \<^verbatim>\<open>lars_reactor/include/thread_pool.h\<close> and
  \<^verbatim>\<open>lars_reactor/src/thread_pool.cpp\<close>: the worker threads of a server. Each worker owns an event loop (named by an
  address) and a queue of tasks. \<open>deal_task\<close> takes the construction of a connection as an argument; the server's theory supplies it.
\<close>

section \<open>Model\<close>

datatype ('cb, 'a) task_msg = NEW_CONN int | NEW_TASK 'cb 'a

record ('cb, 'a) thread_pool =
  tp_queues :: "('cb, 'a) task_msg thread_queue list"
  tp_thread_cnt :: int
  tp_index :: int

text \<open>\<open>_queues[i]\<close> for an index the code computes.\<close>

definition queue_at :: "int \<Rightarrow> ('cb, 'a) thread_pool \<Rightarrow> nat res" where
  "queue_at i tp = (if 0 \<le> i \<and> i < int (length (tp_queues tp)) then Inr (nat i) else Inl Out_Of_Bounds)"

definition get_thread :: "('cb, 'a) thread_pool \<Rightarrow> (nat \<times> ('cb, 'a) thread_pool) res" where
  "get_thread tp =
     (let index = (if tp_index tp = tp_thread_cnt tp - 1 then 0 else tp_index tp) in
      bindR (queue_at index tp) (\<lambda>i. Inr (i, tp\<lparr>tp_index := index + 1\<rparr>)))"

fun deal_tasks ::
  "(int \<Rightarrow> 'w \<Rightarrow> 'w res) \<Rightarrow> ('cb \<Rightarrow> 'a \<Rightarrow> 'w \<Rightarrow> 'w) \<Rightarrow> ('cb, 'a) task_msg list \<Rightarrow> 'w \<Rightarrow> 'w res" where
  "deal_tasks new_conn addt [] w = Inr w"
| "deal_tasks new_conn addt (NEW_CONN connfd # ts) w = bindR (new_conn connfd w) (deal_tasks new_conn addt ts)"
| "deal_tasks new_conn addt (NEW_TASK f a # ts) w = deal_tasks new_conn addt ts (addt f a w)"

definition deal_task ::
  "(int \<Rightarrow> 'w \<Rightarrow> 'w res) \<Rightarrow> ('cb \<Rightarrow> 'a \<Rightarrow> 'w \<Rightarrow> 'w) \<Rightarrow> ('cb, 'a) task_msg thread_queue \<Rightarrow> 'w \<Rightarrow>
   (('cb, 'a) task_msg thread_queue \<times> 'w) res" where
  "deal_task new_conn addt queue w =
     (let (new_task_queue, queue) = tq_recv [] queue in
      bindR (deal_tasks new_conn addt new_task_queue w) (\<lambda>w. Inr (queue, w)))"

text \<open>
  \<open>thread_main\<close> up to its endless loop: a new event loop (at address \<open>p\<close>, for the descriptor \<open>epfd\<close>) that
  watches the queue of the thread with the callback \<open>dt\<close> (which is \<open>deal_task\<close>).
\<close>

definition thread_main ::
  "'io \<Rightarrow> 'b \<Rightarrow> int \<Rightarrow> ptr \<Rightarrow> ('cb, 'a) task_msg thread_queue \<Rightarrow> (ptr \<Rightarrow> ('io, 'b) event_loop option) \<Rightarrow>
   (('cb, 'a) task_msg thread_queue \<times> (ptr \<Rightarrow> ('io, 'b) event_loop option)) res" where
  "thread_main dt arg epfd p queue loops =
     bindR (event_loop_create epfd) (\<lambda>l.
     (let loops = loops(p \<mapsto> l); queue = tq_set_loop p queue in
      bindR (tq_set_callback dt arg queue loops) (\<lambda>loops. Inr (queue, loops))))"

text \<open>
  The constructor. \<open>evfds\<close> are the descriptors \<open>eventfd\<close> returns and \<open>created\<close> the results of
  \<open>pthread_create\<close>; the threads themselves run \<open>thread_main\<close>.
\<close>

fun make_queues :: "nat \<Rightarrow> int list \<Rightarrow> int list \<Rightarrow> ('cb, 'a) task_msg thread_queue list res" where
  "make_queues 0 evfds created = Inr []"
| "make_queues (Suc n) evfds created =
     (case (evfds, created) of
        (fd # evfds, ret # created) \<Rightarrow>
          bindR (thread_queue_new fd) (\<lambda>q.
          if ret = -1 then Inl Exit_1
          else bindR (make_queues n evfds created) (\<lambda>qs. Inr (q # qs)))
      | _ \<Rightarrow> Inl Blocked)"

definition thread_pool_new :: "int \<Rightarrow> int list \<Rightarrow> int list \<Rightarrow> ('cb, 'a) thread_pool res" where
  "thread_pool_new thread_cnt evfds created =
     (if thread_cnt \<le> 0 then Inl Exit_1
      else bindR (make_queues (nat thread_cnt) evfds created) (\<lambda>qs.
           Inr \<lparr>tp_queues = qs, tp_thread_cnt = thread_cnt, tp_index = 0\<rparr>))"

definition send_task :: "'cb \<Rightarrow> 'a \<Rightarrow> ('cb, 'a) thread_pool \<Rightarrow> ('cb, 'a) thread_pool res" where
  "send_task func args tp =
     (if int (length (tp_queues tp)) < tp_thread_cnt tp then Inl Out_Of_Bounds
      else Inr (tp\<lparr>tp_queues := map (tq_send (NEW_TASK func args)) (take (nat (tp_thread_cnt tp)) (tp_queues tp)) @
                                drop (nat (tp_thread_cnt tp)) (tp_queues tp)\<rparr>))"

text \<open>\<open>k\<close> successive calls of \<open>get_thread\<close>, with the queues chosen.\<close>

fun get_threads :: "nat \<Rightarrow> ('cb, 'a) thread_pool \<Rightarrow> (nat list \<times> ('cb, 'a) thread_pool) res" where
  "get_threads 0 tp = Inr ([], tp)"
| "get_threads (Suc k) tp =
     bindR (get_thread tp) (\<lambda>(i, tp). bindR (get_threads k tp) (\<lambda>(is, tp). Inr (i # is, tp)))"

section \<open>Properties\<close>

lemma make_queues_length: "make_queues n evfds created = Inr qs \<Longrightarrow> length qs = n"
  by (induction n arbitrary: evfds created qs) (auto simp: res_simps split: list.splits if_splits)

lemma thread_pool_new_shape:
  assumes "thread_pool_new cnt evfds created = Inr tp"
  shows "0 < cnt \<and> length (tp_queues tp) = nat cnt \<and> tp_thread_cnt tp = cnt \<and> tp_index tp = 0"
  using assms by (auto simp: thread_pool_new_def res_simps dest: make_queues_length split: if_splits)

lemma get_threads_from:
  assumes "2 \<le> cnt" "tp_thread_cnt tp = cnt" "length (tp_queues tp) = nat cnt" "0 \<le> tp_index tp" "tp_index tp \<le> cnt - 1"
  shows "\<exists>tp'. get_threads k tp = Inr (map (\<lambda>j. (nat (tp_index tp) + j) mod nat (cnt - 1)) [0..<k], tp')"
  using assms
proof (induction k arbitrary: tp)
  case (Suc k)
  let ?i = "if tp_index tp = cnt - 1 then 0 else tp_index tp"
  let ?tp = "tp\<lparr>tp_index := ?i + 1\<rparr>"
  have g: "get_thread tp = Inr (nat ?i, ?tp)" using Suc.prems by (simp add: get_thread_def queue_at_def Let_def)
  have i: "nat ?i = nat (tp_index tp) mod nat (cnt - 1)" using Suc.prems by auto
  obtain tp' where t: "get_threads k ?tp = Inr (map (\<lambda>j. (nat (?i + 1) + j) mod nat (cnt - 1)) [0..<k], tp')"
  proof -
    have "0 \<le> ?i + 1" "?i + 1 \<le> cnt - 1" using Suc.prems by auto
    then have "\<exists>tp'. get_threads k ?tp = Inr (map (\<lambda>j. (nat (tp_index ?tp) + j) mod nat (cnt - 1)) [0..<k], tp')"
      using Suc.prems by (intro Suc.IH) simp_all
    then show thesis using that by auto
  qed
  have "(nat (?i + 1) + j) mod nat (cnt - 1) = (nat (tp_index tp) + Suc j) mod nat (cnt - 1)" for j
  proof -
    have "nat (?i + 1) + j = nat ?i + Suc j" using Suc.prems by auto
    then show ?thesis unfolding i by (metis mod_add_left_eq)
  qed
  then have "map (\<lambda>j. (nat (?i + 1) + j) mod nat (cnt - 1)) [0..<k] = map (\<lambda>j. (nat (tp_index tp) + j) mod nat (cnt - 1)) (map Suc [0..<k])"
    by simp
  moreover have "[0..<Suc k] = 0 # map Suc [0..<k]" by (simp add: map_Suc_upt upt_conv_Cons)
  ultimately show ?case using g t i by simp
qed simp

text \<open>
  A fresh pool of at least two threads hands out its queues in rotation, but only the first
  \<open>thread_cnt - 1\<close> of them: call \<open>j\<close> returns queue \<open>j mod (thread_cnt - 1)\<close>, and the last
  worker never gets a connection. A pool of one thread works once and the second call indexes past the array.
\<close>

theorem get_thread_rotation:
  assumes "thread_pool_new cnt evfds created = Inr tp"
  shows "if cnt = 1 then get_threads 2 tp = Inl Out_Of_Bounds
    else \<exists>tp'. get_threads k tp = Inr (map (\<lambda>j. j mod nat (cnt - 1)) [0..<k], tp')"
proof -
  note sh = thread_pool_new_shape [OF assms]
  show ?thesis
  proof (cases "cnt = 1")
    case True
    then show ?thesis using sh by (simp add: numeral_2_eq_2 get_thread_def queue_at_def Let_def)
  next
    case False
    then show ?thesis using sh get_threads_from [of cnt tp k] by simp
  qed
qed

theorem get_thread_rotation_witness:
  "case thread_pool_new 3 [10, 11, 12] [0, 0, 0] :: (unit, unit) thread_pool res of
     Inl e \<Rightarrow> False
   | Inr tp \<Rightarrow> (\<exists>tp'. get_threads 4 tp = Inr ([0, 1, 0, 1], tp'))"
proof -
  obtain tp :: "(unit, unit) thread_pool" where tp: "thread_pool_new 3 [10, 11, 12] [0, 0, 0] = Inr tp"
    by (simp add: thread_pool_new_def thread_queue_new_def numeral_3_eq_3)
  have "map (\<lambda>j. j mod nat (3 - 1)) [0..<4] = [0, 1, 0, 1]" by (simp add: upt_rec)
  with get_thread_rotation [OF tp, of 4] tp show ?thesis by simp
qed

text \<open>
  A task given to the pool is queued exactly once for every worker, behind everything that was
  queued for it before, and every worker is signalled.
\<close>

theorem send_task_reaches_all:
  assumes "thread_pool_new cnt evfds created = Inr tp0" and "length (tp_queues tp) = length (tp_queues tp0)"
    and "tp_thread_cnt tp = tp_thread_cnt tp0"
  shows "\<exists>tp'. send_task f a tp = Inr tp' \<and> length (tp_queues tp') = nat cnt \<and>
    (\<forall>i < nat cnt. tq_queue (tp_queues tp' ! i) = tq_queue (tp_queues tp ! i) @ [NEW_TASK f a])"
proof -
  note sh = thread_pool_new_shape [OF assms(1)]
  show ?thesis using sh assms(2,3) by (simp add: send_task_def tq_send_def Let_def)
qed

theorem send_task_reaches_all_witness:
  "case thread_pool_new 2 [10, 11] [0, 0] of
     Inl e \<Rightarrow> False
   | Inr tp \<Rightarrow> (\<exists>tp'. send_task ''push'' () tp = Inr tp' \<and> length (tp_queues tp') = 2)"
proof -
  obtain tp :: "(string, unit) thread_pool" where tp: "thread_pool_new 2 [10, 11] [0, 0] = Inr tp"
    by (simp add: thread_pool_new_def thread_queue_new_def numeral_2_eq_2)
  from send_task_reaches_all [OF tp refl refl, of "''push''" "()"] tp show ?thesis by auto
qed

end
