(* ===== verification/Subscribe.thy ===== *)
theory Subscribe
  imports Dns_Route Thread_Pool
begin

text \<open>
  Subscriptions of the name service: \<^verbatim>\<open>lars_dns/include/subscribe.h\<close>, \<^verbatim>\<open>lars_dns/src/subscribe.cpp\<close> and the handlers of
  \<^verbatim>\<open>lars_dns/src/dns_service.cpp\<close>. \<open>_book_list\<close> maps a module to the descriptors that subscribed to it, \<open>_push_list\<close> a descriptor
  to the modules it still has to be told about. Sets are lists without duplicates; the list of pairs \<open>sl_push\<close> stands for the
  iteration order of the hash map. Sending on a connection, \<open>ParseFromArray\<close> and \<open>SerializeToString\<close> are arguments.
\<close>

section \<open>Model\<close>

record SubscribeList =
  sl_book :: "u64 \<Rightarrow> int list option"
  sl_push :: "(int \<times> u64 list) list"

definition SubscribeList_new :: SubscribeList where
  "SubscribeList_new = \<lparr>sl_book = Map.empty, sl_push = []\<rparr>"

definition subscribe :: "u64 \<Rightarrow> int \<Rightarrow> SubscribeList \<Rightarrow> SubscribeList" where
  "subscribe m fd sl =
     sl\<lparr>sl_book := (sl_book sl)(m \<mapsto> set_insert fd (case sl_book sl m of None \<Rightarrow> [] | Some fds \<Rightarrow> fds))\<rparr>"

definition unsubscribe :: "u64 \<Rightarrow> int \<Rightarrow> SubscribeList \<Rightarrow> SubscribeList" where
  "unsubscribe m fd sl =
     (case sl_book sl m of
        None \<Rightarrow> sl
      | Some fds \<Rightarrow>
          (let fds = removeAll fd fds in
           sl\<lparr>sl_book := (sl_book sl)(m := (if fds = [] then None else Some fds))\<rparr>))"

definition map_insert :: "'k \<Rightarrow> 'v \<Rightarrow> ('k \<times> 'v list) list \<Rightarrow> ('k \<times> 'v list) list" where
  "map_insert k v m = AList.update k (set_insert v (case map_of m k of None \<Rightarrow> [] | Some vs \<Rightarrow> vs)) m"

definition make_publish_map :: "int set \<Rightarrow> SubscribeList \<Rightarrow> (int \<times> u64 list) list \<Rightarrow> (int \<times> u64 list) list" where
  "make_publish_map online_fds sl need_publish =
     fold (\<lambda>(fd, ms) need. if fd \<in> online_fds then fold (map_insert fd) ms need else need) (sl_push sl) need_publish"

text \<open>A response with the hosts that the route table has for a module.\<close>

definition route_response :: "i32 \<Rightarrow> i32 \<Rightarrow> Route \<Rightarrow> GetRouteResponse" where
  "route_response modid cmdid rt =
     \<lparr>grs_modid = modid, grs_cmdid = cmdid,
      grs_host = map (\<lambda>k. \<lparr>pb_ip = key_hi k, pb_port = key_lo k\<rparr>) (get_hosts modid cmdid rt)\<rparr>"

text \<open>
  The inner and the outer loop of \<open>push_change_task\<close>. \<open>conns fd\<close> is the entry of the connection table and
  \<open>send\<close> the effect of \<open>send_message\<close> on the program state \<open>'w\<close>.
\<close>

fun push_mods ::
  "('c \<Rightarrow> GetRouteResponse \<Rightarrow> 'w \<Rightarrow> 'w res) \<Rightarrow> (int \<Rightarrow> 'c option) \<Rightarrow> Route \<Rightarrow> int \<Rightarrow> u64 list \<Rightarrow>
   SubscribeList \<times> 'w \<Rightarrow> (SubscribeList \<times> 'w) res" where
  "push_mods send conns rt fd [] s = Inr s"
| "push_mods send conns rt fd (m # ms) (sl, w) =
     (let rsp = route_response (key_hi m) (key_lo m) rt in
      bindR (case conns fd of None \<Rightarrow> Inr w | Some conn \<Rightarrow> send conn rsp w) (\<lambda>w.
      push_mods send conns rt fd ms (sl\<lparr>sl_push := AList.delete fd (sl_push sl)\<rparr>, w)))"

fun push_fds ::
  "('c \<Rightarrow> GetRouteResponse \<Rightarrow> 'w \<Rightarrow> 'w res) \<Rightarrow> (int \<Rightarrow> 'c option) \<Rightarrow> Route \<Rightarrow> (int \<times> u64 list) list \<Rightarrow>
   SubscribeList \<times> 'w \<Rightarrow> (SubscribeList \<times> 'w) res" where
  "push_fds send conns rt [] s = Inr s"
| "push_fds send conns rt ((fd, ms) # need) s = bindR (push_mods send conns rt fd ms s) (push_fds send conns rt need)"

definition push_change_task ::
  "('c \<Rightarrow> GetRouteResponse \<Rightarrow> 'w \<Rightarrow> 'w res) \<Rightarrow> (int \<Rightarrow> 'c option) \<Rightarrow> Route \<Rightarrow> ('cb, 'a) event_loop \<Rightarrow>
   SubscribeList \<times> 'w \<Rightarrow> (SubscribeList \<times> 'w) res" where
  "push_change_task send conns rt loop s =
     (let online_fds = get_listen_fds loop; need_publish = make_publish_map online_fds (fst s) [] in
      push_fds send conns rt need_publish s)"

text \<open>The marking loop of \<open>publish\<close>, and \<open>publish\<close> with the notification of all workers.\<close>

definition mark_change :: "u64 \<Rightarrow> SubscribeList \<Rightarrow> SubscribeList" where
  "mark_change m sl =
     (case sl_book sl m of
        None \<Rightarrow> sl
      | Some fds \<Rightarrow> sl\<lparr>sl_push := fold (\<lambda>fd. map_insert fd m) fds (sl_push sl)\<rparr>)"

definition publish ::
  "'cb \<Rightarrow> 'a \<Rightarrow> u64 list \<Rightarrow> SubscribeList \<Rightarrow> ('cb, 'a) thread_pool \<Rightarrow> (SubscribeList \<times> ('cb, 'a) thread_pool) res" where
  "publish push_task self change_mods sl tp =
     (let sl = fold mark_change change_mods sl in
      bindR (send_task push_task self tp) (\<lambda>tp. Inr (sl, tp)))"

text \<open>The connection as the handlers see it: its descriptor and its parameter, the set of subscribed modules.\<close>

record dns_conn =
  dc_fd :: int
  dc_param :: "u64 list option"

definition get_route ::
  "(bytes \<Rightarrow> GetRouteRequest) \<Rightarrow> (GetRouteResponse \<Rightarrow> bytes) \<Rightarrow> bytes \<Rightarrow> Route \<Rightarrow> dns_conn \<Rightarrow> SubscribeList \<Rightarrow>
   dns_conn \<times> SubscribeList \<times> bytes \<times> i32" where
  "get_route parse serialize data rt conn sl =
     (let req = parse data; modid = grq_modid req; cmdid = grq_cmdid req; m = mk_key modid cmdid;
          (conn, sl) =
            (case dc_param conn of
               None \<Rightarrow> (conn, sl)
             | Some sub_list \<Rightarrow>
                 if m \<in> set sub_list then (conn, sl)
                 else (conn\<lparr>dc_param := Some (set_insert m sub_list)\<rparr>, subscribe m (dc_fd conn) sl)) in
      (conn, sl, serialize (route_response modid cmdid rt), ID_GetRouteResponse))"

definition create_subscribe :: "dns_conn \<Rightarrow> dns_conn" where
  "create_subscribe conn = conn\<lparr>dc_param := Some []\<rparr>"

definition clear_subscribe :: "dns_conn \<Rightarrow> SubscribeList \<Rightarrow> (dns_conn \<times> SubscribeList) res" where
  "clear_subscribe conn sl =
     (case dc_param conn of
        None \<Rightarrow> Inl Null_Deref
      | Some sub_list \<Rightarrow> Inr (conn\<lparr>dc_param := None\<rparr>, fold (\<lambda>m. unsubscribe m (dc_fd conn)) sub_list sl))"

section \<open>Subscribers and pending modules\<close>

definition subs :: "SubscribeList \<Rightarrow> u64 \<Rightarrow> int set" where
  "subs sl m = (case sl_book sl m of None \<Rightarrow> {} | Some fds \<Rightarrow> set fds)"

definition pend_of :: "(int \<times> u64 list) list \<Rightarrow> int \<Rightarrow> u64 set" where
  "pend_of ps fd = (case map_of ps fd of None \<Rightarrow> {} | Some ms \<Rightarrow> set ms)"

definition pend :: "SubscribeList \<Rightarrow> int \<Rightarrow> u64 set" where
  "pend sl fd = pend_of (sl_push sl) fd"

definition push_wf :: "(int \<times> u64 list) list \<Rightarrow> bool" where
  "push_wf ps \<longleftrightarrow> distinct (map fst ps) \<and> (\<forall>(fd, ms) \<in> set ps. ms \<noteq> [] \<and> distinct ms)"

lemma subs_subscribe: "subs (subscribe m fd sl) = (subs sl)(m := insert fd (subs sl m))"
  by (auto simp: fun_eq_iff subs_def subscribe_def split: option.splits)

lemma subs_unsubscribe: "subs (unsubscribe m fd sl) = (subs sl)(m := subs sl m - {fd})"
proof
  fix k show "subs (unsubscribe m fd sl) k = ((subs sl)(m := subs sl m - {fd})) k"
  proof (cases "sl_book sl m")
    case (Some fds)
    have "set (removeAll fd fds) = {} \<longleftrightarrow> removeAll fd fds = []" by (simp only: set_empty)
    then show ?thesis using Some by (auto simp: subs_def unsubscribe_def Let_def)
  qed (simp add: subs_def unsubscribe_def)
qed

lemma subs_unsubscribe_all:
  "subs (fold (\<lambda>m. unsubscribe m fd) ms sl) k = (if k \<in> set ms then subs sl k - {fd} else subs sl k)"
  by (induction ms arbitrary: sl) (auto simp: subs_unsubscribe)

lemma push_subscribe [simp]: "sl_push (subscribe m fd sl) = sl_push sl" "sl_push (unsubscribe m fd sl) = sl_push sl"
  by (simp_all add: subscribe_def unsubscribe_def Let_def split: option.splits)

lemma push_unsubscribe_all [simp]: "sl_push (fold (\<lambda>m. unsubscribe m fd) ms sl) = sl_push sl"
  by (induction ms arbitrary: sl) simp_all

lemma map_of_map_insert:
  "map_of (map_insert k v m) j = (if j = k then Some (set_insert v (case map_of m k of None \<Rightarrow> [] | Some vs \<Rightarrow> vs)) else map_of m j)"
  by (simp add: map_insert_def update_conv')

lemma push_wf_insert: "push_wf ps \<Longrightarrow> push_wf (map_insert fd m ps)"
proof -
  assume wf: "push_wf ps"
  have d: "distinct (map fst (map_insert fd m ps))" using wf by (simp add: push_wf_def map_insert_def distinct_update)
  have "ms \<noteq> [] \<and> distinct ms" if "(j, ms) \<in> set (map_insert fd m ps)" for j ms
  proof -
    have "map_of (map_insert fd m ps) j = Some ms" using that d by simp
    moreover have "distinct (case map_of ps fd of None \<Rightarrow> [] | Some vs \<Rightarrow> vs)"
      using wf by (auto simp: push_wf_def split: option.splits dest!: map_of_SomeD)
    ultimately show ?thesis
      using wf by (auto simp: map_of_map_insert push_wf_def set_insert_def split: if_splits dest!: map_of_SomeD)
  qed
  with d show ?thesis by (auto simp: push_wf_def)
qed

lemma pend_of_insert: "pend_of (map_insert k m ps) = (pend_of ps)(k := insert m (pend_of ps k))"
  by (auto simp: fun_eq_iff pend_of_def map_of_map_insert split: option.splits)

lemma mark_fds_wf: "push_wf ps \<Longrightarrow> push_wf (fold (\<lambda>fd. map_insert fd m) fds ps)"
  by (induction fds arbitrary: ps) (simp_all add: push_wf_insert)

lemma mark_fds_pend:
  "pend_of (fold (\<lambda>fd. map_insert fd m) fds ps) j = pend_of ps j \<union> (if j \<in> set fds then {m} else {})"
  by (induction fds arbitrary: ps) (simp_all add: pend_of_insert)

lemma mark_change_wf: "push_wf (sl_push sl) \<Longrightarrow> push_wf (sl_push (mark_change m sl))"
  by (simp add: mark_change_def mark_fds_wf split: option.splits)

lemma mark_change_subs [simp]: "sl_book (mark_change m sl) = sl_book sl"
  by (simp add: mark_change_def split: option.splits)

lemma mark_change_pend: "pend (mark_change m sl) fd = pend sl fd \<union> (if fd \<in> subs sl m then {m} else {})"
  by (simp add: mark_change_def pend_def mark_fds_pend subs_def split: option.splits)

lemma mark_changes_wf: "push_wf (sl_push sl) \<Longrightarrow> push_wf (sl_push (fold mark_change ms sl))"
  by (induction ms arbitrary: sl) (simp_all add: mark_change_wf)

lemma mark_changes_book [simp]: "sl_book (fold mark_change ms sl) = sl_book sl"
  by (induction ms arbitrary: sl) simp_all

lemma subs_cong: "sl_book a = sl_book b \<Longrightarrow> subs a = subs b"
  by (simp add: subs_def fun_eq_iff)

lemma mark_changes_pend: "pend (fold mark_change ms sl) fd = pend sl fd \<union> {m \<in> set ms. fd \<in> subs sl m}"
proof (induction ms arbitrary: sl)
  case (Cons m ms)
  have "subs (mark_change m sl) = subs sl" by (rule subs_cong) simp
  then show ?case using Cons.IH [of "mark_change m sl"] by (auto simp: mark_change_pend)
qed simp

text \<open>What \<open>make_publish_map\<close> selects, and what the push loops send.\<close>

lemma map_insert_new:
  "distinct ms \<Longrightarrow> fd \<notin> fst ` set need \<Longrightarrow> set xs \<inter> set ms = {} \<Longrightarrow> distinct xs \<Longrightarrow> xs \<noteq> [] \<Longrightarrow>
   fold (map_insert fd) ms (need @ [(fd, xs)]) = need @ [(fd, xs @ ms)]"
proof (induction ms arbitrary: xs)
  case (Cons m ms)
  have none: "map_of need fd = None" using Cons.prems(2) by (simp add: map_of_eq_None_iff)
  have up: "AList.update fd v (need @ [(fd, xs)]) = need @ [(fd, v)]" for v
    using Cons.prems(2) by (induction need) auto
  have "map_insert fd m (need @ [(fd, xs)]) = need @ [(fd, xs @ [m])]"
    using none Cons.prems(3) by (simp add: map_insert_def up map_add_def set_insert_def)
  moreover have "fold (map_insert fd) ms (need @ [(fd, xs @ [m])]) = need @ [(fd, (xs @ [m]) @ ms)]"
    using Cons.prems by (intro Cons.IH) auto
  ultimately show ?case by simp
qed simp

lemma map_insert_all:
  assumes "distinct ms" "ms \<noteq> []" "fd \<notin> fst ` set need"
  shows "fold (map_insert fd) ms need = need @ [(fd, ms)]"
proof -
  obtain m ms' where ms: "ms = m # ms'" using assms(2) by (cases ms) auto
  have none: "map_of need fd = None" using assms(3) by (simp add: map_of_eq_None_iff)
  have "AList.update fd v need = need @ [(fd, v)]" for v using assms(3) by (induction need) auto
  then have "map_insert fd m need = need @ [(fd, [m])]" using none by (simp add: map_insert_def set_insert_def)
  then show ?thesis using map_insert_new [of ms' fd need "[m]"] assms ms by simp
qed

lemma make_publish_map_filter:
  assumes "push_wf (sl_push sl)"
  shows "make_publish_map online sl [] = filter (\<lambda>(fd, ms). fd \<in> online) (sl_push sl)"
proof -
  have "fold (\<lambda>(fd, ms) need. if fd \<in> online then fold (map_insert fd) ms need else need) ps need =
      need @ filter (\<lambda>(fd, ms). fd \<in> online) ps"
    if "push_wf ps" "fst ` set need \<inter> fst ` set ps = {}" for ps need
    using that
  proof (induction ps arbitrary: need)
    case (Cons p ps)
    obtain fd ms where p: "p = (fd, ms)" by (cases p)
    have wf: "push_wf ps" "ms \<noteq> []" "distinct ms" "fd \<notin> fst ` set ps" using Cons.prems(1) p by (auto simp: push_wf_def)
    have "fd \<notin> fst ` set need" using Cons.prems(2) p by auto
    then have "fold (map_insert fd) ms need = need @ [(fd, ms)]" by (rule map_insert_all [OF wf(3,2)])
    moreover have "fst ` set (need @ [(fd, ms)]) \<inter> fst ` set ps = {}" "fst ` set need \<inter> fst ` set ps = {}"
      using Cons.prems(2) p wf(4) by auto
    ultimately show ?case using Cons.IH [OF wf(1)] p by simp
  qed simp
  from this [OF assms, of "[]"] show ?thesis by (simp add: make_publish_map_def)
qed

text \<open>The responses of a push, in order, and their sending one after the other.\<close>

definition push_plan ::
  "(int \<Rightarrow> 'c option) \<Rightarrow> Route \<Rightarrow> (int \<times> u64 list) list \<Rightarrow> ('c \<times> GetRouteResponse) list" where
  "push_plan conns rt need =
     concat (map (\<lambda>(fd, ms). case conns fd of None \<Rightarrow> []
                             | Some c \<Rightarrow> map (\<lambda>m. (c, route_response (key_hi m) (key_lo m) rt)) ms) need)"

fun send_all :: "('c \<Rightarrow> GetRouteResponse \<Rightarrow> 'w \<Rightarrow> 'w res) \<Rightarrow> ('c \<times> GetRouteResponse) list \<Rightarrow> 'w \<Rightarrow> 'w res" where
  "send_all send [] w = Inr w"
| "send_all send ((c, rsp) # xs) w = bindR (send c rsp w) (send_all send xs)"

lemma send_all_append: "send_all send (xs @ ys) w = bindR (send_all send xs w) (send_all send ys)"
  by (induction xs arbitrary: w) (auto simp: bindR_def split: sum.splits)

lemma delete_twice: "AList.delete k (AList.delete k m) = AList.delete k m"
  by (simp add: AList.delete_eq)

lemma push_mods_plan:
  "ms \<noteq> [] \<Longrightarrow> push_mods send conns rt fd ms (sl, w) =
     bindR (send_all send (push_plan conns rt [(fd, ms)]) w) (\<lambda>w. Inr (sl\<lparr>sl_push := AList.delete fd (sl_push sl)\<rparr>, w))"
proof (induction ms arbitrary: sl w)
  case (Cons m ms)
  show ?case
  proof (cases "ms = []")
    case True
    then show ?thesis by (auto simp: push_plan_def Let_def bindR_def split: option.splits sum.splits)
  next
    case False
    then show ?thesis
      by (auto simp: Cons.IH push_plan_def Let_def bindR_def delete_twice split: option.splits sum.splits)
  qed
qed simp

lemma push_fds_plan:
  "\<forall>(fd, ms) \<in> set need. ms \<noteq> [] \<Longrightarrow> push_fds send conns rt need (sl, w) =
     bindR (send_all send (push_plan conns rt need) w)
       (\<lambda>w. Inr (sl\<lparr>sl_push := filter (\<lambda>p. fst p \<notin> fst ` set need) (sl_push sl)\<rparr>, w))"
proof (induction need arbitrary: sl w)
  case Nil
  then show ?case by (simp add: push_plan_def)
next
  case (Cons p need)
  obtain fd ms where p: "p = (fd, ms)" by (cases p)
  have plan: "push_plan conns rt (p # need) = push_plan conns rt [(fd, ms)] @ push_plan conns rt need"
    by (simp add: push_plan_def p)
  have del: "filter (\<lambda>q. fst q \<notin> fst ` set need) (AList.delete fd ps) = filter (\<lambda>q. fst q \<notin> fst ` set (p # need)) ps"
    for ps :: "(int \<times> u64 list) list"
    unfolding p by (induction ps) auto
  have "ms \<noteq> []" "\<forall>(fd, ms) \<in> set need. ms \<noteq> []" using Cons.prems p by auto
  then show ?case unfolding plan
    by (auto simp: p push_mods_plan Cons.IH send_all_append bindR_def del [unfolded p] split: sum.splits)
qed

lemma push_change_task_plan:
  assumes "push_wf (sl_push sl)"
  shows "push_change_task send conns rt loop (sl, w) =
     bindR (send_all send (push_plan conns rt (filter (\<lambda>(fd, ms). fd \<in> get_listen_fds loop) (sl_push sl))) w)
       (\<lambda>w. Inr (sl\<lparr>sl_push := filter (\<lambda>p. fst p \<notin> get_listen_fds loop) (sl_push sl)\<rparr>, w))"
proof -
  let ?need = "filter (\<lambda>(fd, ms). fd \<in> get_listen_fds loop) (sl_push sl)"
  have ne: "\<forall>(fd, ms) \<in> set ?need. ms \<noteq> []" using assms by (auto simp: push_wf_def)
  have "filter (\<lambda>p. fst p \<notin> fst ` set ?need) (sl_push sl) = filter (\<lambda>p. fst p \<notin> get_listen_fds loop) (sl_push sl)"
    by (rule filter_cong) force+
  then show ?thesis
    by (simp add: push_change_task_def Let_def make_publish_map_filter [OF assms] push_fds_plan [OF ne])
qed

section \<open>The service as a transition system\<close>

text \<open>
  The connections of the service by descriptor, the subscriptions, the worker pool and the state \<open>'w\<close> that sending changes.
  A step is a hook, a request, or a stage of a publication; the route table may differ from step to step,
  since the check thread reloads it.
\<close>

record ('cb, 'a, 'w) dns_state =
  ds_conns :: "int \<Rightarrow> dns_conn option"
  ds_sub :: SubscribeList
  ds_pool :: "('cb, 'a) thread_pool"
  ds_out :: 'w

record ('cb, 'a, 'w) dns_env =
  de_parse :: "bytes \<Rightarrow> GetRouteRequest"
  de_serialize :: "GetRouteResponse \<Rightarrow> bytes"
  de_send :: "dns_conn \<Rightarrow> GetRouteResponse \<Rightarrow> 'w \<Rightarrow> 'w res"
  de_push_task :: 'cb
  de_self :: 'a

definition dns_start :: "('cb, 'a) thread_pool \<Rightarrow> 'w \<Rightarrow> ('cb, 'a, 'w) dns_state" where
  "dns_start tp w = \<lparr>ds_conns = Map.empty, ds_sub = SubscribeList_new, ds_pool = tp, ds_out = w\<rparr>"

inductive dns_step :: "('cb, 'a, 'w) dns_env \<Rightarrow> ('cb, 'a, 'w) dns_state \<Rightarrow> ('cb, 'a, 'w) dns_state \<Rightarrow> bool"
  for e where
  dns_connect: "ds_conns s fd = None \<Longrightarrow>
    dns_step e s (s\<lparr>ds_conns := (ds_conns s)(fd \<mapsto> create_subscribe \<lparr>dc_fd = fd, dc_param = None\<rparr>)\<rparr>)"
| dns_request: "ds_conns s fd = Some c \<Longrightarrow>
    get_route (de_parse e) (de_serialize e) data rt c (ds_sub s) = (c', sl', out, msgid) \<Longrightarrow>
    dns_step e s (s\<lparr>ds_conns := (ds_conns s)(fd \<mapsto> c'), ds_sub := sl'\<rparr>)"
| dns_close: "ds_conns s fd = Some c \<Longrightarrow> clear_subscribe c (ds_sub s) = Inr (c', sl') \<Longrightarrow>
    dns_step e s (s\<lparr>ds_conns := (ds_conns s)(fd := None), ds_sub := sl'\<rparr>)"
| dns_publish: "publish (de_push_task e) (de_self e) mods (ds_sub s) (ds_pool s) = Inr (sl', tp') \<Longrightarrow>
    dns_step e s (s\<lparr>ds_sub := sl', ds_pool := tp'\<rparr>)"
| dns_push: "push_change_task (de_send e) (ds_conns s) rt (loop :: ('cb, 'a) event_loop) (ds_sub s, ds_out s) = Inr (sl', w') \<Longrightarrow>
    dns_step e s (s\<lparr>ds_sub := sl', ds_out := w'\<rparr>)"

definition dns_reach ::
  "('cb, 'a, 'w) dns_env \<Rightarrow> ('cb, 'a) thread_pool \<Rightarrow> 'w \<Rightarrow> ('cb, 'a, 'w) dns_state \<Rightarrow> bool" where
  "dns_reach e tp w = (dns_step e)\<^sup>*\<^sup>* (dns_start tp w)"

definition mods_of :: "('cb, 'a, 'w) dns_state \<Rightarrow> int \<Rightarrow> u64 set" where
  "mods_of s fd =
     (case ds_conns s fd of None \<Rightarrow> {} | Some c \<Rightarrow> (case dc_param c of None \<Rightarrow> {} | Some ms \<Rightarrow> set ms))"

definition sub_inv :: "('cb, 'a, 'w) dns_state \<Rightarrow> bool" where
  "sub_inv s \<longleftrightarrow>
     (\<forall>fd m. fd \<in> subs (ds_sub s) m \<longleftrightarrow> m \<in> mods_of s fd) \<and>
     (\<forall>fd c. ds_conns s fd = Some c \<longrightarrow> dc_fd c = fd \<and> dc_param c \<noteq> None) \<and>
     push_wf (sl_push (ds_sub s))"

lemma sub_invI:
  assumes "\<And>fd m. fd \<in> subs (ds_sub s) m \<longleftrightarrow> m \<in> mods_of s fd"
    and "\<And>fd c. ds_conns s fd = Some c \<Longrightarrow> dc_fd c = fd \<and> dc_param c \<noteq> None" and "push_wf (sl_push (ds_sub s))"
  shows "sub_inv s"
  using assms unfolding sub_inv_def by blast

lemma sub_invD:
  assumes "sub_inv s"
  shows "fd \<in> subs (ds_sub s) m \<longleftrightarrow> m \<in> mods_of s fd"
    and "ds_conns s fd = Some c \<Longrightarrow> dc_fd c = fd \<and> dc_param c \<noteq> None" and "push_wf (sl_push (ds_sub s))"
  using assms unfolding sub_inv_def by blast+

lemma sub_inv_start: "sub_inv (dns_start tp w)"
  by (rule sub_invI) (simp_all add: dns_start_def SubscribeList_new_def subs_def mods_of_def push_wf_def)

lemma get_route_effect:
  assumes "dc_param c = Some ms" and "get_route parse serialize data rt c sl = (c', sl', out, msgid)"
  defines "m \<equiv> mk_key (grq_modid (parse data)) (grq_cmdid (parse data))"
  shows "dc_fd c' = dc_fd c" and "\<exists>ms'. dc_param c' = Some ms' \<and> set ms' = insert m (set ms)"
    and "sl_push sl' = sl_push sl" and "m \<in> set ms \<Longrightarrow> subs sl' = subs sl"
    and "m \<notin> set ms \<Longrightarrow> subs sl' = (subs sl)(m := insert (dc_fd c) (subs sl m))"
    and "out = serialize (route_response (grq_modid (parse data)) (grq_cmdid (parse data)) rt)" and "msgid = ID_GetRouteResponse"
  using assms by (auto simp: get_route_def Let_def subs_subscribe set_insert_def split: if_splits)


lemma clear_subscribe_effect:
  assumes "dc_param c = Some ms"
  shows "\<exists>sl'. clear_subscribe c sl = Inr (c\<lparr>dc_param := None\<rparr>, sl') \<and> sl_push sl' = sl_push sl \<and>
    (\<forall>k. subs sl' k = (if k \<in> set ms then subs sl k - {dc_fd c} else subs sl k))"
  using assms by (simp add: clear_subscribe_def subs_unsubscribe_all)

lemma publish_effect:
  assumes "publish push_task self mods sl tp = Inr (sl', tp')"
  shows "sl' = fold mark_change mods sl"
  using assms by (auto simp: publish_def Let_def bindR_def split: sum.splits)

lemma push_effect:
  assumes "push_wf (sl_push sl)" and "push_change_task send conns rt loop (sl, w) = Inr (sl', w')"
  shows "sl' = sl\<lparr>sl_push := filter (\<lambda>p. fst p \<notin> get_listen_fds loop) (sl_push sl)\<rparr>"
    and "send_all send (push_plan conns rt (filter (\<lambda>(fd, ms). fd \<in> get_listen_fds loop) (sl_push sl))) w = Inr w'"
  using assms(2) unfolding push_change_task_plan [OF assms(1)] by (auto simp: bindR_def split: sum.splits)

lemma push_wf_filter: "push_wf ps \<Longrightarrow> push_wf (filter P ps)"
  by (auto simp: push_wf_def distinct_map_filter)

lemma subs_push [simp]: "subs (sl\<lparr>sl_push := ps\<rparr>) = subs sl"
  by (rule subs_cong) simp

lemma mods_of_sub [simp]:
  "mods_of (s\<lparr>ds_sub := sl\<rparr>) = mods_of s" "mods_of (s\<lparr>ds_sub := sl, ds_pool := tp\<rparr>) = mods_of s"
  "mods_of (s\<lparr>ds_sub := sl, ds_out := w\<rparr>) = mods_of s"
  by (simp_all add: fun_eq_iff mods_of_def)

lemma mods_of_upd:
  "mods_of (s\<lparr>ds_conns := (ds_conns s)(fd := c)\<rparr>) =
     (mods_of s)(fd := (case c of None \<Rightarrow> {} | Some c \<Rightarrow> (case dc_param c of None \<Rightarrow> {} | Some ms \<Rightarrow> set ms)))"
  "mods_of (s\<lparr>ds_conns := (ds_conns s)(fd := c), ds_sub := sl\<rparr>) =
     (mods_of s)(fd := (case c of None \<Rightarrow> {} | Some c \<Rightarrow> (case dc_param c of None \<Rightarrow> {} | Some ms \<Rightarrow> set ms)))"
  by (simp_all add: fun_eq_iff mods_of_def)

lemma sub_inv_step: "dns_step e s s' \<Longrightarrow> sub_inv s \<Longrightarrow> sub_inv s'"
proof (induction rule: dns_step.induct)
  case (dns_connect s fd)
  have "m \<notin> mods_of s fd" for m using dns_connect(1) by (simp add: mods_of_def)
  then show ?case
    using sub_invD [OF dns_connect(2)] by (intro sub_invI) (auto simp: mods_of_upd create_subscribe_def split: if_splits)
next
  case (dns_request s fd c data rt c' sl' out msgid)
  note inv = sub_invD [OF dns_request(3)]
  obtain ms where ms: "dc_param c = Some ms" and fd: "dc_fd c = fd" using inv(2) [OF dns_request(1)] by auto
  have sfd: "mods_of s fd = set ms" using dns_request(1) ms by (simp add: mods_of_def)
  define m where "m = mk_key (grq_modid (de_parse e data)) (grq_cmdid (de_parse e data))"
  note eff = get_route_effect [OF ms dns_request(2), folded m_def]
  obtain ms' where ms': "dc_param c' = Some ms'" "set ms' = insert m (set ms)" using eff(2) by blast
  have sub: "fd' \<in> subs sl' k \<longleftrightarrow> fd' \<in> subs (ds_sub s) k \<or> (fd' = fd \<and> k = m)" for fd' k
    using eff(4,5) fd inv(1) [of fd m] sfd by (cases "m \<in> set ms") auto
  show ?case
  proof (rule sub_invI)
    fix fd' k show "fd' \<in> subs (ds_sub (s\<lparr>ds_conns := (ds_conns s)(fd \<mapsto> c'), ds_sub := sl'\<rparr>)) k \<longleftrightarrow>
        k \<in> mods_of (s\<lparr>ds_conns := (ds_conns s)(fd \<mapsto> c'), ds_sub := sl'\<rparr>) fd'"
      using sub inv(1) sfd ms' by (auto simp: mods_of_upd)
  qed (use inv eff(1,3) fd ms'(1) in \<open>auto split: if_splits\<close>)
next
  case (dns_close s fd c c' sl')
  note inv = sub_invD [OF dns_close(3)]
  obtain ms where ms: "dc_param c = Some ms" and fd: "dc_fd c = fd" using inv(2) [OF dns_close(1)] by auto
  have sfd: "mods_of s fd = set ms" using dns_close(1) ms by (simp add: mods_of_def)
  have sl': "sl_push sl' = sl_push (ds_sub s)" "subs sl' k = (if k \<in> set ms then subs (ds_sub s) k - {fd} else subs (ds_sub s) k)" for k
    using clear_subscribe_effect [OF ms, of "ds_sub s"] dns_close(2) fd by auto
  show ?case
  proof (rule sub_invI)
    fix fd' k show "fd' \<in> subs (ds_sub (s\<lparr>ds_conns := (ds_conns s)(fd := None), ds_sub := sl'\<rparr>)) k \<longleftrightarrow>
        k \<in> mods_of (s\<lparr>ds_conns := (ds_conns s)(fd := None), ds_sub := sl'\<rparr>) fd'"
      using sl'(2) inv(1) sfd by (auto simp: mods_of_upd)
  qed (use inv sl' in \<open>auto split: if_splits\<close>)
next
  case (dns_publish mods s sl' tp')
  note inv = sub_invD [OF dns_publish(2)]
  have sl': "subs sl' = subs (ds_sub s)" unfolding publish_effect [OF dns_publish(1)] by (rule subs_cong) simp
  have "push_wf (sl_push sl')" unfolding publish_effect [OF dns_publish(1)] by (rule mark_changes_wf [OF inv(3)])
  then show ?case using inv sl' by (intro sub_invI) simp_all
next
  case (dns_push s rt loop sl' w')
  note inv = sub_invD [OF dns_push(2)]
  note sl' = push_effect(1) [OF inv(3) dns_push(1)]
  show ?case using inv push_wf_filter [OF inv(3)] unfolding sl' by (intro sub_invI) simp_all
qed

lemma sub_inv_reach:
  assumes "dns_reach e tp w s"
  shows "sub_inv s"
  using assms unfolding dns_reach_def
proof (induction rule: rtranclp_induct)
  case base show ?case by (rule sub_inv_start)
next
  case (step s s') then show ?case using sub_inv_step by blast
qed

section \<open>Properties\<close>

definition record_send :: "'c \<Rightarrow> GetRouteResponse \<Rightarrow> ('c \<times> GetRouteResponse) list \<Rightarrow> ('c \<times> GetRouteResponse) list res" where
  "record_send c rsp out = Inr (out @ [(c, rsp)])"

lemma send_all_record: "send_all record_send xs out = Inr (out @ xs)"
  by (induction xs arbitrary: out) (auto simp: record_send_def)

lemma set_push_plan:
  assumes "push_wf ps"
  shows "set (push_plan conns rt (filter (\<lambda>(fd, ms). fd \<in> on) ps)) =
    {(c, route_response (key_hi m) (key_lo m) rt) |fd c m. fd \<in> on \<and> conns fd = Some c \<and> m \<in> pend_of ps fd}" (is "?L = ?R")
proof
  show "?L \<subseteq> ?R"
  proof
    fix x assume "x \<in> ?L"
    then obtain fd ms c m where "(fd, ms) \<in> set ps" "fd \<in> on" "conns fd = Some c" "m \<in> set ms"
        "x = (c, route_response (key_hi m) (key_lo m) rt)"
      by (auto simp: push_plan_def split: option.splits)
    moreover from this(1) assms have "map_of ps fd = Some ms" by (simp add: push_wf_def)
    then have "pend_of ps fd = set ms" by (simp add: pend_of_def)
    ultimately show "x \<in> ?R" by blast
  qed
  show "?R \<subseteq> ?L"
  proof
    fix x assume "x \<in> ?R"
    then obtain fd c m where x: "x = (c, route_response (key_hi m) (key_lo m) rt)" "fd \<in> on" "conns fd = Some c" "m \<in> pend_of ps fd"
      by blast
    then obtain ms where "map_of ps fd = Some ms" "m \<in> set ms" by (auto simp: pend_of_def split: option.splits)
    with x show "x \<in> ?L" by (force simp: push_plan_def dest: map_of_SomeD)
  qed
qed

lemma pend_of_filter: "pend_of (filter (\<lambda>p. fst p \<notin> on) ps) fd = (if fd \<in> on then {} else pend_of ps fd)"
  by (induction ps) (auto simp: pend_of_def)

text \<open>A connected client that has requested module 1/2.\<close>

definition demo_dns_env :: "(unit, unit, (dns_conn \<times> GetRouteResponse) list) dns_env" where
  "demo_dns_env = \<lparr>de_parse = (\<lambda>_. \<lparr>grq_modid = 1, grq_cmdid = 2\<rparr>), de_serialize = (\<lambda>_. []),
     de_send = record_send, de_push_task = (), de_self = ()\<rparr>"

definition demo_dns_pool :: "(unit, unit) thread_pool" where
  "demo_dns_pool = \<lparr>tp_queues = [], tp_thread_cnt = 0, tp_index = 0\<rparr>"

definition demo_dns_rt :: Route where
  "demo_dns_rt = \<lparr>rt_data = Map.empty, rt_temp = Map.empty, rt_version = 0\<rparr>"

definition demo_dns_conn :: dns_conn where
  "demo_dns_conn = \<lparr>dc_fd = 7, dc_param = Some [mk_key 1 2]\<rparr>"

definition demo_dns :: "(unit, unit, (dns_conn \<times> GetRouteResponse) list) dns_state" where
  "demo_dns = \<lparr>ds_conns = [7 \<mapsto> demo_dns_conn],
     ds_sub = \<lparr>sl_book = [mk_key 1 2 \<mapsto> [7]], sl_push = []\<rparr>, ds_pool = demo_dns_pool, ds_out = []\<rparr>"

definition demo_dns_loop :: "(unit, unit) event_loop" where
  "demo_dns_loop = event_loop_new\<lparr>el_listen_fds := {7}\<rparr>"

lemma demo_dns_reach: "dns_reach demo_dns_env demo_dns_pool [] demo_dns"
proof -
  let ?s0 = "dns_start demo_dns_pool [] :: (unit, unit, (dns_conn \<times> GetRouteResponse) list) dns_state"
  let ?c = "create_subscribe \<lparr>dc_fd = 7, dc_param = None\<rparr>"
  let ?s1 = "?s0\<lparr>ds_conns := (ds_conns ?s0)(7 \<mapsto> ?c)\<rparr>"
  have "dns_step demo_dns_env ?s0 ?s1" by (rule dns_connect) (simp add: dns_start_def)
  moreover have "dns_step demo_dns_env ?s1 (?s1\<lparr>ds_conns := (ds_conns ?s1)(7 \<mapsto> demo_dns_conn),
      ds_sub := \<lparr>sl_book = [mk_key 1 2 \<mapsto> [7]], sl_push = []\<rparr>\<rparr>)"
  proof (rule dns_request [of ?s1 7 ?c])
    show "get_route (de_parse demo_dns_env) (de_serialize demo_dns_env) [] demo_dns_rt ?c (ds_sub ?s1) =
        (demo_dns_conn, \<lparr>sl_book = [mk_key 1 2 \<mapsto> [7]], sl_push = []\<rparr>, [], ID_GetRouteResponse)"
      by (simp add: get_route_def create_subscribe_def demo_dns_env_def demo_dns_conn_def subscribe_def dns_start_def
          SubscribeList_new_def set_insert_def Let_def)
  qed simp
  moreover have "?s1\<lparr>ds_conns := (ds_conns ?s1)(7 \<mapsto> demo_dns_conn), ds_sub := \<lparr>sl_book = [mk_key 1 2 \<mapsto> [7]], sl_push = []\<rparr>\<rparr> = demo_dns"
    by (simp add: dns_start_def demo_dns_def)
  ultimately show ?thesis unfolding dns_reach_def by simp
qed



text \<open>
  C11 [publish_push_exact]. From any reachable state, publishing \<open>mods\<close> and then running the push task of a loop sends
  exactly one kind of message: the current hosts of \<open>m\<close>, to each open connection the loop watches, for every
  module \<open>m\<close> still pending for it or published now and requested by it. Afterwards nothing is pending for the descriptors
  of that loop, and for the others exactly what was not delivered.
\<close>

theorem publish_push_exact:
  assumes "dns_reach e tp0 w s"
    and "publish (de_push_task e) (de_self e) mods (ds_sub s) (ds_pool s) = Inr (sl, tp)"
    and "push_change_task record_send (ds_conns s) rt loop (sl, []) = Inr (sl', out)"
  shows "set out = {(c, route_response (key_hi m) (key_lo m) rt) |fd c m.
      fd \<in> get_listen_fds loop \<and> ds_conns s fd = Some c \<and>
      (m \<in> pend (ds_sub s) fd \<or> m \<in> set mods \<and> m \<in> mods_of s fd)} \<and>
    (\<forall>fd. pend sl' fd = (if fd \<in> get_listen_fds loop then {}
                        else pend (ds_sub s) fd \<union> (set mods \<inter> mods_of s fd)))"
proof -
  note inv = sub_invD [OF sub_inv_reach [OF assms(1)]]
  note sl = publish_effect [OF assms(2)]
  have wf: "push_wf (sl_push sl)" unfolding sl by (rule mark_changes_wf [OF inv(3)])
  note eff = push_effect [OF wf assms(3)]
  have pend: "pend_of (sl_push sl) fd = pend (ds_sub s) fd \<union> (set mods \<inter> mods_of s fd)" for fd
    using mark_changes_pend [of mods "ds_sub s" fd] inv(1) unfolding sl pend_def by auto
  have "out = push_plan (ds_conns s) rt (filter (\<lambda>(fd, ms). fd \<in> get_listen_fds loop) (sl_push sl))"
    using eff(2) by (simp add: send_all_record)
  then have "set out = {(c, route_response (key_hi m) (key_lo m) rt) |fd c m.
      fd \<in> get_listen_fds loop \<and> ds_conns s fd = Some c \<and> m \<in> pend_of (sl_push sl) fd}"
    by (simp only: set_push_plan [OF wf])
  moreover have "pend sl' fd = (if fd \<in> get_listen_fds loop then {} else pend_of (sl_push sl) fd)" for fd
    unfolding eff(1) pend_def by (simp add: pend_of_filter)
  ultimately show ?thesis unfolding pend by auto
qed

theorem publish_push_exact_witness:
  "\<exists>sl tp sl' out. publish () () [mk_key 1 2] (ds_sub demo_dns) demo_dns_pool = Inr (sl, tp) \<and>
     push_change_task record_send (ds_conns demo_dns) demo_dns_rt demo_dns_loop (sl, []) = Inr (sl', out) \<and>
     set out = {(demo_dns_conn, route_response 1 2 demo_dns_rt)} \<and> pend sl' 7 = {}"
proof -
  let ?m = "mk_key 1 2"
  have m: "key_hi ?m = 1" "key_lo ?m = 2" by (simp_all add: key_hi_mk_key key_lo_mk_key)
  have p: "publish (de_push_task demo_dns_env) (de_self demo_dns_env) [?m] (ds_sub demo_dns) (ds_pool demo_dns) =
      Inr (\<lparr>sl_book = [?m \<mapsto> [7]], sl_push = [(7, [?m])]\<rparr>, demo_dns_pool)"
    by (simp add: publish_def mark_change_def demo_dns_def demo_dns_pool_def send_task_def map_insert_def set_insert_def)
  have q: "push_change_task record_send (ds_conns demo_dns) demo_dns_rt demo_dns_loop
      (\<lparr>sl_book = [?m \<mapsto> [7]], sl_push = [(7, [?m])]\<rparr>, []) =
      Inr (\<lparr>sl_book = [?m \<mapsto> [7]], sl_push = []\<rparr>, [(demo_dns_conn, route_response 1 2 demo_dns_rt)])"
    by (simp add: push_change_task_def make_publish_map_def demo_dns_loop_def get_listen_fds_def map_insert_def set_insert_def
        demo_dns_def record_send_def m Let_def)
  have "pend \<lparr>sl_book = [?m \<mapsto> [7]], sl_push = []\<rparr> 7 = {}"
    using publish_push_exact [OF demo_dns_reach p q] by (simp add: demo_dns_loop_def get_listen_fds_def)
  then show ?thesis using p q by (auto simp: demo_dns_env_def demo_dns_def)
qed

end
