(* ===== verification/Wire_Format.thy ===== *)
theory Wire_Format
  imports Lars_Prelude
begin

text \<open>
  What the generated classes of \<^verbatim>\<open>base/proto/lars.pb.cc\<close> use of the protobuf library. The library is not part of the sources: its
  input and output primitives are the fields of the record \<open>wire\<close>, an argument of every definition that uses them, and
  \<open>wire_ok\<close> states their documented behaviour (what is written for a field is read back, the announced sizes are the sizes
  written, a varint has at most ten bytes). \<open>base128\<close> is the documented encoding and fulfils it.

  \<open>merge_loop\<close>, \<open>read_prim\<close>, \<open>read_message\<close> and \<open>skip_field\<close> are the parts that all the generated parsers have in common. Unknown fields
  are skipped; the library keeps them beside the message, where no code of the sources looks.
\<close>

section \<open>Model\<close>

text \<open>
  \<open>w_ReadTag\<close> returns the next tag, or 0 at the end of the input or when none can be read; the flag says whether that was
  the end. \<open>w_OpenMessage\<close> splits off the bytes of an embedded message. The writers take the field number; \<open>w_WriteMessage\<close> takes
  the cached size and the encoding of the embedded message.
\<close>

record wire =
  w_ReadTag :: "bytes \<Rightarrow> u32 \<times> bool \<times> bytes"
  w_ReadInt32 :: "bytes \<Rightarrow> (i32 \<times> bytes) option"
  w_ReadUInt32 :: "bytes \<Rightarrow> (u32 \<times> bytes) option"
  w_ReadBool :: "bytes \<Rightarrow> (bool \<times> bytes) option"
  w_OpenMessage :: "bytes \<Rightarrow> (bytes \<times> bytes) option"
  w_SkipField :: "u32 \<Rightarrow> bytes \<Rightarrow> bytes option"
  w_WriteInt32 :: "nat \<Rightarrow> i32 \<Rightarrow> bytes"
  w_WriteUInt32 :: "nat \<Rightarrow> u32 \<Rightarrow> bytes"
  w_WriteBool :: "nat \<Rightarrow> bool \<Rightarrow> bytes"
  w_WriteMessage :: "nat \<Rightarrow> nat \<Rightarrow> bytes \<Rightarrow> bytes"
  w_Int32Size :: "i32 \<Rightarrow> nat"
  w_UInt32Size :: "u32 \<Rightarrow> nat"
  w_LengthDelimitedSize :: "nat \<Rightarrow> nat"

text \<open>
  The test of one case of the switch: the tag is below the cutoff 127, its field number selects the case, and its low byte
  is the expected one.
\<close>

definition field_is :: "nat \<Rightarrow> u32 \<Rightarrow> u32 \<Rightarrow> bool" where
  "field_is n b tag \<longleftrightarrow> tag \<le> 127 \<and> drop_bit 3 tag = of_nat n \<and> take_bit 8 tag = b"

text \<open>\<open>DO_(ReadPrimitive(input, &field))\<close>; the flag is false when control goes to \<open>failure\<close>.\<close>

definition read_prim :: "(bytes \<Rightarrow> ('a \<times> bytes) option) \<Rightarrow> ('a \<Rightarrow> 'm \<Rightarrow> 'm) \<Rightarrow> bytes \<Rightarrow> 'm \<Rightarrow> bool \<times> 'm \<times> bytes" where
  "read_prim rd upd bs m = (case rd bs of None \<Rightarrow> (False, m, bs) | Some (v, rest) \<Rightarrow> (True, upd v m, rest))"

text \<open>\<open>DO_(ReadMessage(input, sub))\<close> on the embedded object \<open>s\<close>, with its parser \<open>merge\<close>.\<close>

definition read_message :: "wire \<Rightarrow> (bytes \<Rightarrow> 's \<Rightarrow> bool \<times> 's) \<Rightarrow> ('s \<Rightarrow> 'm) \<Rightarrow> bytes \<Rightarrow> 's \<Rightarrow> bool \<times> 'm \<times> bytes" where
  "read_message W merge store bs s =
     (case w_OpenMessage W bs of
        None \<Rightarrow> (False, store s, bs)
      | Some (body, rest) \<Rightarrow> (case merge body s of (ok, s) \<Rightarrow> (ok, store s, rest)))"

definition skip_field :: "wire \<Rightarrow> u32 \<Rightarrow> bytes \<Rightarrow> 'm \<Rightarrow> bool \<times> 'm \<times> bytes" where
  "skip_field W tag bs m = (case w_SkipField W tag bs of None \<Rightarrow> (False, m, bs) | Some rest \<Rightarrow> (True, m, rest))"

text \<open>
  The \<open>for (;;)\<close> loop of \<open>MergePartialFromCodedStream\<close>, together with the check of its callers that the input was consumed
  entirely. A failure leaves the message as it is at that moment. Every round that continues has consumed the tag, so one round more than
  there are bytes is enough.
\<close>

fun merge_loop :: "wire \<Rightarrow> (u32 \<Rightarrow> bytes \<Rightarrow> 'm \<Rightarrow> bool \<times> 'm \<times> bytes) \<Rightarrow> nat \<Rightarrow> bytes \<Rightarrow> 'm \<Rightarrow> bool \<times> 'm" where
  "merge_loop W switch 0 bs m = (False, m)"
| "merge_loop W switch (Suc n) bs m =
     (case w_ReadTag W bs of (tag, at_end, bs) \<Rightarrow>
      if tag = 0 then (at_end, m)
      else (case switch tag bs m of (ok, m, bs) \<Rightarrow> if ok then merge_loop W switch n bs m else (False, m)))"

section \<open>The documented behaviour of the library\<close>

definition reads_field :: "wire \<Rightarrow> bytes \<Rightarrow> nat \<Rightarrow> (bytes \<Rightarrow> ('a \<times> bytes) option) \<Rightarrow> 'a \<Rightarrow> bool" where
  "reads_field W out tag rd v \<longleftrightarrow> (\<forall>rest. \<exists>xs. w_ReadTag W (out @ rest) = (of_nat tag, False, xs) \<and> rd xs = Some (v, rest))"

definition wire_ok :: "wire \<Rightarrow> bool" where
  "wire_ok W \<longleftrightarrow>
     w_ReadTag W [] = (0, True, []) \<and>
     (\<forall>n v. 0 < n \<and> n < 16 \<longrightarrow> reads_field W (w_WriteInt32 W n v) (8 * n) (w_ReadInt32 W) v \<and>
        length (w_WriteInt32 W n v) = 1 + w_Int32Size W v \<and> w_Int32Size W v \<le> 10) \<and>
     (\<forall>n v. 0 < n \<and> n < 16 \<longrightarrow> reads_field W (w_WriteUInt32 W n v) (8 * n) (w_ReadUInt32 W) v \<and>
        length (w_WriteUInt32 W n v) = 1 + w_UInt32Size W v \<and> w_UInt32Size W v \<le> 5) \<and>
     (\<forall>n b. 0 < n \<and> n < 16 \<longrightarrow> reads_field W (w_WriteBool W n b) (8 * n) (w_ReadBool W) b \<and> length (w_WriteBool W n b) = 2) \<and>
     (\<forall>n body. 0 < n \<and> n < 16 \<and> length body < 2 ^ 31 \<longrightarrow>
        reads_field W (w_WriteMessage W n (length body) body) (8 * n + 2) (w_OpenMessage W) body \<and>
        length (w_WriteMessage W n (length body) body) = 1 + w_LengthDelimitedSize W (length body) \<and>
        w_LengthDelimitedSize W (length body) \<le> length body + 5)"

text \<open>The bytes \<open>out\<close> take the parser from message \<open>m\<close> to message \<open>m'\<close>, whatever follows them.\<close>

definition consumes :: "wire \<Rightarrow> (u32 \<Rightarrow> bytes \<Rightarrow> 'm \<Rightarrow> bool \<times> 'm \<times> bytes) \<Rightarrow> bytes \<Rightarrow> 'm \<Rightarrow> 'm \<Rightarrow> bool" where
  "consumes W switch out m m' \<longleftrightarrow>
     (\<forall>rest n. length (out @ rest) < n \<longrightarrow>
        (\<exists>k. length rest < k \<and> merge_loop W switch n (out @ rest) m = merge_loop W switch k rest m'))"

lemma consumes_Nil: "consumes W switch [] m m"
  by (auto simp: consumes_def)

lemma consumes_append:
  assumes "consumes W switch a m m1" "consumes W switch b m1 m2"
  shows "consumes W switch (a @ b) m m2"
  unfolding consumes_def
proof (intro allI impI)
  fix rest n
  assume "length ((a @ b) @ rest) < n"
  then obtain k where k: "length (b @ rest) < k" "merge_loop W switch n (a @ b @ rest) m = merge_loop W switch k (b @ rest) m1"
    using assms(1) unfolding consumes_def by (metis append.assoc)
  then obtain j where "length rest < j" "merge_loop W switch k (b @ rest) m1 = merge_loop W switch j rest m2"
    using assms(2) unfolding consumes_def by blast
  with k show "\<exists>k. length rest < k \<and> merge_loop W switch n ((a @ b) @ rest) m = merge_loop W switch k rest m2" by auto
qed

lemma consumes_field:
  assumes rd: "reads_field W out tag rd v" and tag: "(of_nat tag :: u32) \<noteq> 0" and ne: "out \<noteq> []"
    and sw: "\<And>xs rest. rd xs = Some (v, rest) \<Longrightarrow> switch (of_nat tag) xs m = (True, m', rest)"
  shows "consumes W switch out m m'"
  unfolding consumes_def
proof (intro allI impI)
  fix rest n
  assume n: "length (out @ rest) < n"
  obtain xs where "w_ReadTag W (out @ rest) = (of_nat tag, False, xs)" "rd xs = Some (v, rest)"
    using rd unfolding reads_field_def by blast
  moreover obtain k where "n = Suc k" "length rest < k" using n ne by (cases n; cases out) auto
  ultimately have "length rest < k \<and> merge_loop W switch n (out @ rest) m = merge_loop W switch k rest m'"
    using sw tag by simp
  then show "\<exists>k. length rest < k \<and> merge_loop W switch n (out @ rest) m = merge_loop W switch k rest m'" by blast
qed

locale wire_format =
  fixes W :: wire
  assumes ok: "wire_ok W"
begin

lemma read_end: "w_ReadTag W [] = (0, True, [])"
  using ok by (simp add: wire_ok_def)

lemma int32_law:
  assumes "0 < n" "n < 16"
  shows "reads_field W (w_WriteInt32 W n v) (8 * n) (w_ReadInt32 W) v" "length (w_WriteInt32 W n v) = 1 + w_Int32Size W v"
    "w_Int32Size W v \<le> 10"
  using ok assms unfolding wire_ok_def by blast+

lemma uint32_law:
  assumes "0 < n" "n < 16"
  shows "reads_field W (w_WriteUInt32 W n v) (8 * n) (w_ReadUInt32 W) v" "length (w_WriteUInt32 W n v) = 1 + w_UInt32Size W v"
    "w_UInt32Size W v \<le> 5"
  using ok assms unfolding wire_ok_def by blast+

lemma bool_law:
  assumes "0 < n" "n < 16"
  shows "reads_field W (w_WriteBool W n b) (8 * n) (w_ReadBool W) b" "length (w_WriteBool W n b) = 2"
  using ok assms unfolding wire_ok_def by blast+

lemma message_law:
  assumes "0 < n" "n < 16" "length body < 2 ^ 31"
  shows "reads_field W (w_WriteMessage W n (length body) body) (8 * n + 2) (w_OpenMessage W) body"
    "length (w_WriteMessage W n (length body) body) = 1 + w_LengthDelimitedSize W (length body)"
    "w_LengthDelimitedSize W (length body) \<le> length body + 5"
  using ok assms unfolding wire_ok_def by blast+

lemma size_law: "w_Int32Size W v \<le> 10" "w_UInt32Size W u \<le> 5"
  using int32_law(3) [of 1 v] uint32_law(3) [of 1 u] by simp_all

lemma tag_nonzero: "0 < n \<Longrightarrow> n < 16 \<Longrightarrow> k < 8 \<Longrightarrow> (of_nat (8 * n + k) :: u32) \<noteq> 0"
  using nat_dvd_not_less [of "8 * n + k" "2 ^ 32"] by (simp add: word_of_nat_eq_0_iff del: of_nat_add of_nat_mult)

text \<open>One scalar field: it is written only when it differs from zero.\<close>

lemma consumes_int32:
  assumes "0 < n" "n < 16" "\<And>xs. switch (of_nat (8 * n)) xs m = read_prim (w_ReadInt32 W) upd xs m" "upd 0 m = m"
  shows "consumes W switch (if v \<noteq> 0 then w_WriteInt32 W n v else []) m (upd v m)"
proof (cases "v = 0")
  case False
  have "w_WriteInt32 W n v \<noteq> []" using int32_law(2) [OF assms(1,2), of v] by auto
  then have "consumes W switch (w_WriteInt32 W n v) m (upd v m)"
    using assms tag_nonzero [of n 0] by (intro consumes_field [OF int32_law(1)]) (simp_all add: read_prim_def)
  then show ?thesis using False by simp
qed (simp add: assms(4) consumes_Nil)

lemma consumes_uint32:
  assumes "0 < n" "n < 16" "\<And>xs. switch (of_nat (8 * n)) xs m = read_prim (w_ReadUInt32 W) upd xs m" "upd 0 m = m"
  shows "consumes W switch (if v \<noteq> 0 then w_WriteUInt32 W n v else []) m (upd v m)"
proof (cases "v = 0")
  case False
  have "w_WriteUInt32 W n v \<noteq> []" using uint32_law(2) [OF assms(1,2), of v] by auto
  then have "consumes W switch (w_WriteUInt32 W n v) m (upd v m)"
    using assms tag_nonzero [of n 0] by (intro consumes_field [OF uint32_law(1)]) (simp_all add: read_prim_def)
  then show ?thesis using False by simp
qed (simp add: assms(4) consumes_Nil)

lemma consumes_bool:
  assumes "0 < n" "n < 16" "\<And>xs. switch (of_nat (8 * n)) xs m = read_prim (w_ReadBool W) upd xs m" "upd False m = m"
  shows "consumes W switch (if b then w_WriteBool W n b else []) m (upd b m)"
proof (cases b)
  case True
  have "w_WriteBool W n b \<noteq> []" using bool_law(2) [OF assms(1,2), of b] by auto
  then have "consumes W switch (w_WriteBool W n b) m (upd b m)"
    using assms tag_nonzero [of n 0] by (intro consumes_field [OF bool_law(1)]) (simp_all add: read_prim_def)
  then show ?thesis using True by simp
qed (simp add: assms(4) consumes_Nil)

text \<open>An embedded message: written with its size, merged into a fresh object.\<close>

lemma consumes_message:
  assumes "0 < n" "n < 16" "length body < 2 ^ 31" "\<And>xs. switch (of_nat (8 * n + 2)) xs m = read_message W merge store xs s"
    "merge body s = (True, s')"
  shows "consumes W switch (w_WriteMessage W n (length body) body) m (store s')"
proof -
  have "w_WriteMessage W n (length body) body \<noteq> []" using message_law(2) [OF assms(1-3)] by auto
  then show ?thesis
    using assms tag_nonzero [of n 2] by (intro consumes_field [OF message_law(1) [OF assms(1-3)]]) (simp_all add: read_message_def)
qed

lemma consumes_all:
  assumes "consumes W switch out m m'"
  shows "merge_loop W switch (Suc (length out)) out m = (True, m')"
proof -
  obtain k where "0 < k" "merge_loop W switch (Suc (length out)) (out @ []) m = merge_loop W switch k [] m'"
    using assms unfolding consumes_def by (metis append_Nil2 lessI list.size(3))
  then show ?thesis by (cases k) (simp_all add: read_end)
qed

end

section \<open>The base-128 encoding\<close>

fun varint :: "nat \<Rightarrow> bytes" where
  "varint n = (if n < 128 then [of_nat n] else of_nat (128 + n mod 128) # varint (n div 128))"

declare varint.simps [simp del]

fun unvarint :: "bytes \<Rightarrow> (nat \<times> bytes) option" where
  "unvarint [] = None"
| "unvarint (b # bs) =
     (if b < 128 then Some (unat b, bs)
      else map_option (\<lambda>(n, rest). (unat b - 128 + 128 * n, rest)) (unvarint bs))"

definition cut :: "nat \<Rightarrow> bytes \<Rightarrow> (bytes \<times> bytes) option" where
  "cut n bs = (if n \<le> length bs then Some (take n bs, drop n bs) else None)"

definition skip128 :: "u32 \<Rightarrow> bytes \<Rightarrow> bytes option" where
  "skip128 tag bs =
     (let t = take_bit 3 tag in
      if t = 0 then map_option snd (unvarint bs)
      else if t = 1 then map_option snd (cut 8 bs)
      else if t = 2 then (case unvarint bs of None \<Rightarrow> None | Some (n, rest) \<Rightarrow> map_option snd (cut n rest))
      else if t = 5 then map_option snd (cut 4 bs)
      else None)"

definition base128 :: wire where
  "base128 =
     \<lparr>w_ReadTag = (\<lambda>bs. if bs = [] then (0, True, [])
        else (case unvarint bs of None \<Rightarrow> (0, False, bs) | Some (t, rest) \<Rightarrow> (of_nat t, False, rest))),
      w_ReadInt32 = (\<lambda>bs. map_option (map_prod of_nat (\<lambda>r. r)) (unvarint bs)),
      w_ReadUInt32 = (\<lambda>bs. map_option (map_prod of_nat (\<lambda>r. r)) (unvarint bs)),
      w_ReadBool = (\<lambda>bs. map_option (map_prod (\<lambda>n. n \<noteq> 0) (\<lambda>r. r)) (unvarint bs)),
      w_OpenMessage = (\<lambda>bs. case unvarint bs of None \<Rightarrow> None
        | Some (n, rest) \<Rightarrow> cut n rest),
      w_SkipField = skip128,
      w_WriteInt32 = (\<lambda>n v. varint (8 * n) @ varint (unat (scast v :: u64))),
      w_WriteUInt32 = (\<lambda>n v. varint (8 * n) @ varint (unat v)),
      w_WriteBool = (\<lambda>n b. varint (8 * n) @ varint (of_bool b)),
      w_WriteMessage = (\<lambda>n size body. varint (8 * n + 2) @ varint size @ body),
      w_Int32Size = (\<lambda>v. length (varint (unat (scast v :: u64)))),
      w_UInt32Size = (\<lambda>v. length (varint (unat v))),
      w_LengthDelimitedSize = (\<lambda>n. n + length (varint n))\<rparr>"

lemma unvarint_varint: "unvarint (varint n @ rest) = Some (n, rest)"
proof (induction n rule: varint.induct)
  case (1 n)
  show ?case
  proof (cases "n < 128")
    case True
    then have "unat (of_nat n :: byte) = n" by (simp add: unat_of_nat)
    then show ?thesis using True by (simp add: varint.simps [of n] word_less_nat_alt)
  next
    case False
    have "unat (of_nat (128 + n mod 128) :: byte) = 128 + n mod 128" by (simp add: unat_of_nat del: of_nat_add) 
    then show ?thesis using False 1 by (simp add: varint.simps [of n] word_less_nat_alt del: of_nat_add)
  qed
qed

lemma length_varint: "n < 128 ^ Suc k \<Longrightarrow> length (varint n) \<le> Suc k"
proof (induction k arbitrary: n)
  case (Suc k)
  then have "length (varint (n div 128)) \<le> Suc k" by (intro Suc.IH) (simp add: less_mult_imp_div_less mult.commute)
  then show ?case by (simp add: varint.simps [of n])
qed (simp add: varint.simps)

lemma varint_tag: "t < 128 \<Longrightarrow> varint t = [of_nat t]"
  by (simp add: varint.simps)

lemma varint_sizes: "length (varint (unat (v :: u64))) \<le> 10" "length (varint (unat (w :: u32))) \<le> 5"
proof -
  have "unat v < 2 ^ 64" using unsigned_less [of v] by simp
  then have "unat v < 128 ^ Suc 9" by simp
  then show "length (varint (unat v)) \<le> 10" using length_varint by fastforce
  have "unat w < 2 ^ 32" using unsigned_less [of w] by simp
  then have "unat w < 128 ^ Suc 4" by simp
  then show "length (varint (unat w)) \<le> 5" using length_varint by fastforce
qed

lemma base128_field:
  assumes "0 < t" "t < 128" "\<And>rest. rd (out @ rest) = Some (v, rest)"
  shows "reads_field base128 (varint t @ out) t rd v"
  using assms unvarint_varint [of t] by (auto simp: reads_field_def base128_def varint_tag)

lemma base128_sel:
  "w_ReadInt32 base128 (varint n @ rest) = Some (of_nat n, rest)" "w_ReadUInt32 base128 (varint n @ rest) = Some (of_nat n, rest)"
  "w_ReadBool base128 (varint n @ rest) = Some (n \<noteq> 0, rest)" "w_OpenMessage base128 (varint (length body) @ body @ rest) = Some (body, rest)"
  by (simp_all add: base128_def unvarint_varint cut_def)

lemma base128_ok: "wire_ok base128"
proof -
  have i: "ucast (scast v :: u64) = v" for v :: i32
    by (rule bit_word_eqI) (simp add: bit_simps)
  have l: "length (varint n) \<le> 5" if "n < 2 ^ 31" for n using length_varint [of n 4] that by simp
  have tag: "w_ReadTag base128 [] = (0, True, [])" by (simp add: base128_def)
  have i32: "reads_field base128 (w_WriteInt32 base128 n v) (8 * n) (w_ReadInt32 base128) v" if "0 < n \<and> n < 16" for n v
    using that by (simp add: base128_def [THEN arg_cong [where f = w_WriteInt32]]) (rule base128_field, simp_all add: base128_sel i)
  have u32: "reads_field base128 (w_WriteUInt32 base128 n v) (8 * n) (w_ReadUInt32 base128) v" if "0 < n \<and> n < 16" for n v
    using that by (simp add: base128_def [THEN arg_cong [where f = w_WriteUInt32]]) (rule base128_field, simp_all add: base128_sel)
  have b: "reads_field base128 (w_WriteBool base128 n v) (8 * n) (w_ReadBool base128) v" if "0 < n \<and> n < 16" for n v
  proof -
    have "w_WriteBool base128 n v = varint (8 * n) @ varint (of_bool v)" by (simp add: base128_def)
    then show ?thesis using that base128_sel(3) [of "of_bool v"] by (simp only:) (rule base128_field, simp_all)
  qed
  have m: "reads_field base128 (w_WriteMessage base128 n (length body) body) (8 * n + 2) (w_OpenMessage base128) body"
    if "0 < n \<and> n < 16" for n body
    using that by (simp add: base128_def [THEN arg_cong [where f = w_WriteMessage]] del: add_2_eq_Suc')
      (rule base128_field, simp_all add: base128_sel)
  have sizes: "length (w_WriteInt32 base128 n v) = 1 + w_Int32Size base128 v" "length (w_WriteUInt32 base128 n u) = 1 + w_UInt32Size base128 u"
      "length (w_WriteBool base128 n c) = 2"
      "length (w_WriteMessage base128 n (length body) body) = 1 + w_LengthDelimitedSize base128 (length body)"
    if "0 < n \<and> n < 16" for n v u c body
    using that by (simp_all add: base128_def varint_tag)
  have bounds: "w_Int32Size base128 v \<le> 10" "w_UInt32Size base128 u \<le> 5" for v u
    using varint_sizes by (simp_all add: base128_def)
  have "w_LengthDelimitedSize base128 (length body) \<le> length body + 5" if "length body < 2 ^ 31" for body :: bytes
    using l [OF that] by (simp add: base128_def)
  then show ?thesis unfolding wire_ok_def using tag i32 u32 b m sizes bounds by (intro conjI allI impI) simp_all
qed

interpretation b128: wire_format base128
  by unfold_locales (rule base128_ok)

end
