(* ===== verification/Protobuf.thy ===== *)
theory Protobuf
  imports Wire_Format Lars_Pb
begin

text \<open>
  The generated message classes of \<^verbatim>\<open>base/proto/lars.pb.cc\<close>, over the primitives of \<open>Wire_Format\<close>. Each class \<open>M\<close> has the
  constructor values \<open>M_default\<close> (also the result of \<open>Clear\<close>), the parser \<open>M_MergePartial\<close> with its switch \<open>M_switch\<close>, \<open>M_Parse\<close> for
  \<open>ParseFromArray\<close> (which clears the object first; the flag is its result, and the message is what the object then holds, also after a failure),
  \<open>M_ByteSizeLong\<close>, \<open>M_Serialize\<close> (both serialisers, which write the same bytes), \<open>M_MergeFrom\<close> and \<open>M_CopyFrom\<close>. The size cached
  by \<open>ByteSizeLong\<close> is written in front of an embedded message. The experimental parser is not compiled.
\<close>

section \<open>Model\<close>

subsection \<open>HostInfo\<close>

definition HostInfo_switch :: "wire \<Rightarrow> u32 \<Rightarrow> bytes \<Rightarrow> HostInfo \<Rightarrow> bool \<times> HostInfo \<times> bytes" where
  "HostInfo_switch W tag bs m =
     (if field_is 1 8 tag then read_prim (w_ReadInt32 W) (\<lambda>v. pb_ip_update (\<lambda>_. v)) bs m
      else if field_is 2 16 tag then read_prim (w_ReadInt32 W) (\<lambda>v. pb_port_update (\<lambda>_. v)) bs m
      else skip_field W tag bs m)"

definition HostInfo_MergePartial :: "wire \<Rightarrow> bytes \<Rightarrow> HostInfo \<Rightarrow> bool \<times> HostInfo" where
  "HostInfo_MergePartial W bs m = merge_loop W (HostInfo_switch W) (Suc (length bs)) bs m"

definition HostInfo_Parse :: "wire \<Rightarrow> bytes \<Rightarrow> bool \<times> HostInfo" where
  "HostInfo_Parse W bs = HostInfo_MergePartial W bs HostInfo_default"

definition HostInfo_ByteSizeLong :: "wire \<Rightarrow> HostInfo \<Rightarrow> nat" where
  "HostInfo_ByteSizeLong W m =
     (if pb_ip m \<noteq> 0 then 1 + w_Int32Size W (pb_ip m) else 0) +
     (if pb_port m \<noteq> 0 then 1 + w_Int32Size W (pb_port m) else 0)"

definition HostInfo_Serialize :: "wire \<Rightarrow> HostInfo \<Rightarrow> bytes" where
  "HostInfo_Serialize W m =
     (if pb_ip m \<noteq> 0 then w_WriteInt32 W 1 (pb_ip m) else []) @
     (if pb_port m \<noteq> 0 then w_WriteInt32 W 2 (pb_port m) else [])"

definition HostInfo_MergeFrom :: "HostInfo \<Rightarrow> HostInfo \<Rightarrow> HostInfo" where
  "HostInfo_MergeFrom src m =
     (let m = (if pb_ip src \<noteq> 0 then m\<lparr>pb_ip := pb_ip src\<rparr> else m);
          m = (if pb_port src \<noteq> 0 then m\<lparr>pb_port := pb_port src\<rparr> else m)
      in m)"

definition HostInfo_CopyFrom :: "HostInfo \<Rightarrow> HostInfo" where
  "HostInfo_CopyFrom src = HostInfo_MergeFrom src HostInfo_default"

subsection \<open>GetRouteRequest\<close>

definition GetRouteRequest_default :: GetRouteRequest where
  "GetRouteRequest_default = \<lparr>grq_modid = 0, grq_cmdid = 0\<rparr>"

definition GetRouteRequest_switch :: "wire \<Rightarrow> u32 \<Rightarrow> bytes \<Rightarrow> GetRouteRequest \<Rightarrow> bool \<times> GetRouteRequest \<times> bytes" where
  "GetRouteRequest_switch W tag bs m =
     (if field_is 1 8 tag then read_prim (w_ReadInt32 W) (\<lambda>v. grq_modid_update (\<lambda>_. v)) bs m
      else if field_is 2 16 tag then read_prim (w_ReadInt32 W) (\<lambda>v. grq_cmdid_update (\<lambda>_. v)) bs m
      else skip_field W tag bs m)"

definition GetRouteRequest_MergePartial :: "wire \<Rightarrow> bytes \<Rightarrow> GetRouteRequest \<Rightarrow> bool \<times> GetRouteRequest" where
  "GetRouteRequest_MergePartial W bs m = merge_loop W (GetRouteRequest_switch W) (Suc (length bs)) bs m"

definition GetRouteRequest_Parse :: "wire \<Rightarrow> bytes \<Rightarrow> bool \<times> GetRouteRequest" where
  "GetRouteRequest_Parse W bs = GetRouteRequest_MergePartial W bs GetRouteRequest_default"

definition GetRouteRequest_ByteSizeLong :: "wire \<Rightarrow> GetRouteRequest \<Rightarrow> nat" where
  "GetRouteRequest_ByteSizeLong W m =
     (if grq_modid m \<noteq> 0 then 1 + w_Int32Size W (grq_modid m) else 0) +
     (if grq_cmdid m \<noteq> 0 then 1 + w_Int32Size W (grq_cmdid m) else 0)"

definition GetRouteRequest_Serialize :: "wire \<Rightarrow> GetRouteRequest \<Rightarrow> bytes" where
  "GetRouteRequest_Serialize W m =
     (if grq_modid m \<noteq> 0 then w_WriteInt32 W 1 (grq_modid m) else []) @
     (if grq_cmdid m \<noteq> 0 then w_WriteInt32 W 2 (grq_cmdid m) else [])"

definition GetRouteRequest_MergeFrom :: "GetRouteRequest \<Rightarrow> GetRouteRequest \<Rightarrow> GetRouteRequest" where
  "GetRouteRequest_MergeFrom src m =
     (let m = (if grq_modid src \<noteq> 0 then m\<lparr>grq_modid := grq_modid src\<rparr> else m);
          m = (if grq_cmdid src \<noteq> 0 then m\<lparr>grq_cmdid := grq_cmdid src\<rparr> else m)
      in m)"

definition GetRouteRequest_CopyFrom :: "GetRouteRequest \<Rightarrow> GetRouteRequest" where
  "GetRouteRequest_CopyFrom src = GetRouteRequest_MergeFrom src GetRouteRequest_default"

subsection \<open>GetRouteResponse\<close>

definition GetRouteResponse_switch :: "wire \<Rightarrow> u32 \<Rightarrow> bytes \<Rightarrow> GetRouteResponse \<Rightarrow> bool \<times> GetRouteResponse \<times> bytes" where
  "GetRouteResponse_switch W tag bs m =
     (if field_is 1 8 tag then read_prim (w_ReadInt32 W) (\<lambda>v. grs_modid_update (\<lambda>_. v)) bs m
      else if field_is 2 16 tag then read_prim (w_ReadInt32 W) (\<lambda>v. grs_cmdid_update (\<lambda>_. v)) bs m
      else if field_is 3 26 tag then 
        read_message W (HostInfo_MergePartial W) (\<lambda>s. m\<lparr>grs_host := grs_host m @ [s]\<rparr>) bs HostInfo_default
      else skip_field W tag bs m)"

definition GetRouteResponse_MergePartial :: "wire \<Rightarrow> bytes \<Rightarrow> GetRouteResponse \<Rightarrow> bool \<times> GetRouteResponse" where
  "GetRouteResponse_MergePartial W bs m = merge_loop W (GetRouteResponse_switch W) (Suc (length bs)) bs m"

definition GetRouteResponse_Parse :: "wire \<Rightarrow> bytes \<Rightarrow> bool \<times> GetRouteResponse" where
  "GetRouteResponse_Parse W bs = GetRouteResponse_MergePartial W bs GetRouteResponse_default"

definition GetRouteResponse_ByteSizeLong :: "wire \<Rightarrow> GetRouteResponse \<Rightarrow> nat" where
  "GetRouteResponse_ByteSizeLong W m =
     (length (grs_host m) + sum_list (map (\<lambda>s. w_LengthDelimitedSize W (HostInfo_ByteSizeLong W s)) (grs_host m))) +
     (if grs_modid m \<noteq> 0 then 1 + w_Int32Size W (grs_modid m) else 0) +
     (if grs_cmdid m \<noteq> 0 then 1 + w_Int32Size W (grs_cmdid m) else 0)"

definition GetRouteResponse_Serialize :: "wire \<Rightarrow> GetRouteResponse \<Rightarrow> bytes" where
  "GetRouteResponse_Serialize W m =
     (if grs_modid m \<noteq> 0 then w_WriteInt32 W 1 (grs_modid m) else []) @
     (if grs_cmdid m \<noteq> 0 then w_WriteInt32 W 2 (grs_cmdid m) else []) @
     concat (map (\<lambda>s. w_WriteMessage W 3 (HostInfo_ByteSizeLong W s) (HostInfo_Serialize W s)) (grs_host m))"

definition GetRouteResponse_MergeFrom :: "GetRouteResponse \<Rightarrow> GetRouteResponse \<Rightarrow> GetRouteResponse" where
  "GetRouteResponse_MergeFrom src m =
     (let m = m\<lparr>grs_host := grs_host m @ grs_host src\<rparr>;
          m = (if grs_modid src \<noteq> 0 then m\<lparr>grs_modid := grs_modid src\<rparr> else m);
          m = (if grs_cmdid src \<noteq> 0 then m\<lparr>grs_cmdid := grs_cmdid src\<rparr> else m)
      in m)"

definition GetRouteResponse_CopyFrom :: "GetRouteResponse \<Rightarrow> GetRouteResponse" where
  "GetRouteResponse_CopyFrom src = GetRouteResponse_MergeFrom src GetRouteResponse_default"

subsection \<open>HostCallResult\<close>

definition HostCallResult_default :: HostCallResult where
  "HostCallResult_default = \<lparr>hcr_ip = 0, hcr_port = 0, hcr_succ = 0, hcr_err = 0, hcr_overload = False\<rparr>"

definition HostCallResult_switch :: "wire \<Rightarrow> u32 \<Rightarrow> bytes \<Rightarrow> HostCallResult \<Rightarrow> bool \<times> HostCallResult \<times> bytes" where
  "HostCallResult_switch W tag bs m =
     (if field_is 1 8 tag then read_prim (w_ReadInt32 W) (\<lambda>v. hcr_ip_update (\<lambda>_. v)) bs m
      else if field_is 2 16 tag then read_prim (w_ReadInt32 W) (\<lambda>v. hcr_port_update (\<lambda>_. v)) bs m
      else if field_is 3 24 tag then read_prim (w_ReadUInt32 W) (\<lambda>v. hcr_succ_update (\<lambda>_. v)) bs m
      else if field_is 4 32 tag then read_prim (w_ReadUInt32 W) (\<lambda>v. hcr_err_update (\<lambda>_. v)) bs m
      else if field_is 5 40 tag then read_prim (w_ReadBool W) (\<lambda>v. hcr_overload_update (\<lambda>_. v)) bs m
      else skip_field W tag bs m)"

definition HostCallResult_MergePartial :: "wire \<Rightarrow> bytes \<Rightarrow> HostCallResult \<Rightarrow> bool \<times> HostCallResult" where
  "HostCallResult_MergePartial W bs m = merge_loop W (HostCallResult_switch W) (Suc (length bs)) bs m"

definition HostCallResult_Parse :: "wire \<Rightarrow> bytes \<Rightarrow> bool \<times> HostCallResult" where
  "HostCallResult_Parse W bs = HostCallResult_MergePartial W bs HostCallResult_default"

definition HostCallResult_ByteSizeLong :: "wire \<Rightarrow> HostCallResult \<Rightarrow> nat" where
  "HostCallResult_ByteSizeLong W m =
     (if hcr_ip m \<noteq> 0 then 1 + w_Int32Size W (hcr_ip m) else 0) +
     (if hcr_port m \<noteq> 0 then 1 + w_Int32Size W (hcr_port m) else 0) +
     (if hcr_succ m \<noteq> 0 then 1 + w_UInt32Size W (hcr_succ m) else 0) +
     (if hcr_err m \<noteq> 0 then 1 + w_UInt32Size W (hcr_err m) else 0) +
     (if hcr_overload m then 1 + 1 else 0)"

definition HostCallResult_Serialize :: "wire \<Rightarrow> HostCallResult \<Rightarrow> bytes" where
  "HostCallResult_Serialize W m =
     (if hcr_ip m \<noteq> 0 then w_WriteInt32 W 1 (hcr_ip m) else []) @
     (if hcr_port m \<noteq> 0 then w_WriteInt32 W 2 (hcr_port m) else []) @
     (if hcr_succ m \<noteq> 0 then w_WriteUInt32 W 3 (hcr_succ m) else []) @
     (if hcr_err m \<noteq> 0 then w_WriteUInt32 W 4 (hcr_err m) else []) @
     (if hcr_overload m then w_WriteBool W 5 (hcr_overload m) else [])"

definition HostCallResult_MergeFrom :: "HostCallResult \<Rightarrow> HostCallResult \<Rightarrow> HostCallResult" where
  "HostCallResult_MergeFrom src m =
     (let m = (if hcr_ip src \<noteq> 0 then m\<lparr>hcr_ip := hcr_ip src\<rparr> else m);
          m = (if hcr_port src \<noteq> 0 then m\<lparr>hcr_port := hcr_port src\<rparr> else m);
          m = (if hcr_succ src \<noteq> 0 then m\<lparr>hcr_succ := hcr_succ src\<rparr> else m);
          m = (if hcr_err src \<noteq> 0 then m\<lparr>hcr_err := hcr_err src\<rparr> else m);
          m = (if hcr_overload src then m\<lparr>hcr_overload := hcr_overload src\<rparr> else m)
      in m)"

definition HostCallResult_CopyFrom :: "HostCallResult \<Rightarrow> HostCallResult" where
  "HostCallResult_CopyFrom src = HostCallResult_MergeFrom src HostCallResult_default"

subsection \<open>ReportStatusRequest\<close>

definition ReportStatusRequest_default :: ReportStatusRequest where
  "ReportStatusRequest_default = \<lparr>rsr_modid = 0, rsr_cmdid = 0, rsr_caller = 0, rsr_results = [], rsr_ts = 0\<rparr>"

definition ReportStatusRequest_switch :: "wire \<Rightarrow> u32 \<Rightarrow> bytes \<Rightarrow> ReportStatusRequest \<Rightarrow> bool \<times> ReportStatusRequest \<times> bytes" where
  "ReportStatusRequest_switch W tag bs m =
     (if field_is 1 8 tag then read_prim (w_ReadInt32 W) (\<lambda>v. rsr_modid_update (\<lambda>_. v)) bs m
      else if field_is 2 16 tag then read_prim (w_ReadInt32 W) (\<lambda>v. rsr_cmdid_update (\<lambda>_. v)) bs m
      else if field_is 3 24 tag then read_prim (w_ReadInt32 W) (\<lambda>v. rsr_caller_update (\<lambda>_. v)) bs m
      else if field_is 4 34 tag then 
        read_message W (HostCallResult_MergePartial W) (\<lambda>s. m\<lparr>rsr_results := rsr_results m @ [s]\<rparr>) bs HostCallResult_default
      else if field_is 5 40 tag then read_prim (w_ReadUInt32 W) (\<lambda>v. rsr_ts_update (\<lambda>_. v)) bs m
      else skip_field W tag bs m)"

definition ReportStatusRequest_MergePartial :: "wire \<Rightarrow> bytes \<Rightarrow> ReportStatusRequest \<Rightarrow> bool \<times> ReportStatusRequest" where
  "ReportStatusRequest_MergePartial W bs m = merge_loop W (ReportStatusRequest_switch W) (Suc (length bs)) bs m"

definition ReportStatusRequest_Parse :: "wire \<Rightarrow> bytes \<Rightarrow> bool \<times> ReportStatusRequest" where
  "ReportStatusRequest_Parse W bs = ReportStatusRequest_MergePartial W bs ReportStatusRequest_default"

definition ReportStatusRequest_ByteSizeLong :: "wire \<Rightarrow> ReportStatusRequest \<Rightarrow> nat" where
  "ReportStatusRequest_ByteSizeLong W m =
     (length (rsr_results m) + sum_list (map (\<lambda>s. w_LengthDelimitedSize W (HostCallResult_ByteSizeLong W s)) (rsr_results m))) +
     (if rsr_modid m \<noteq> 0 then 1 + w_Int32Size W (rsr_modid m) else 0) +
     (if rsr_cmdid m \<noteq> 0 then 1 + w_Int32Size W (rsr_cmdid m) else 0) +
     (if rsr_caller m \<noteq> 0 then 1 + w_Int32Size W (rsr_caller m) else 0) +
     (if rsr_ts m \<noteq> 0 then 1 + w_UInt32Size W (rsr_ts m) else 0)"

definition ReportStatusRequest_Serialize :: "wire \<Rightarrow> ReportStatusRequest \<Rightarrow> bytes" where
  "ReportStatusRequest_Serialize W m =
     (if rsr_modid m \<noteq> 0 then w_WriteInt32 W 1 (rsr_modid m) else []) @
     (if rsr_cmdid m \<noteq> 0 then w_WriteInt32 W 2 (rsr_cmdid m) else []) @
     (if rsr_caller m \<noteq> 0 then w_WriteInt32 W 3 (rsr_caller m) else []) @
     concat (map (\<lambda>s. w_WriteMessage W 4 (HostCallResult_ByteSizeLong W s) (HostCallResult_Serialize W s)) (rsr_results m)) @
     (if rsr_ts m \<noteq> 0 then w_WriteUInt32 W 5 (rsr_ts m) else [])"

definition ReportStatusRequest_MergeFrom :: "ReportStatusRequest \<Rightarrow> ReportStatusRequest \<Rightarrow> ReportStatusRequest" where
  "ReportStatusRequest_MergeFrom src m =
     (let m = m\<lparr>rsr_results := rsr_results m @ rsr_results src\<rparr>;
          m = (if rsr_modid src \<noteq> 0 then m\<lparr>rsr_modid := rsr_modid src\<rparr> else m);
          m = (if rsr_cmdid src \<noteq> 0 then m\<lparr>rsr_cmdid := rsr_cmdid src\<rparr> else m);
          m = (if rsr_caller src \<noteq> 0 then m\<lparr>rsr_caller := rsr_caller src\<rparr> else m);
          m = (if rsr_ts src \<noteq> 0 then m\<lparr>rsr_ts := rsr_ts src\<rparr> else m)
      in m)"

definition ReportStatusRequest_CopyFrom :: "ReportStatusRequest \<Rightarrow> ReportStatusRequest" where
  "ReportStatusRequest_CopyFrom src = ReportStatusRequest_MergeFrom src ReportStatusRequest_default"

subsection \<open>GetHostRequest\<close>

definition GetHostRequest_default :: GetHostRequest where
  "GetHostRequest_default = \<lparr>ghq_seq = 0, ghq_modid = 0, ghq_cmdid = 0\<rparr>"

definition GetHostRequest_switch :: "wire \<Rightarrow> u32 \<Rightarrow> bytes \<Rightarrow> GetHostRequest \<Rightarrow> bool \<times> GetHostRequest \<times> bytes" where
  "GetHostRequest_switch W tag bs m =
     (if field_is 1 8 tag then read_prim (w_ReadUInt32 W) (\<lambda>v. ghq_seq_update (\<lambda>_. v)) bs m
      else if field_is 2 16 tag then read_prim (w_ReadInt32 W) (\<lambda>v. ghq_modid_update (\<lambda>_. v)) bs m
      else if field_is 3 24 tag then read_prim (w_ReadInt32 W) (\<lambda>v. ghq_cmdid_update (\<lambda>_. v)) bs m
      else skip_field W tag bs m)"

definition GetHostRequest_MergePartial :: "wire \<Rightarrow> bytes \<Rightarrow> GetHostRequest \<Rightarrow> bool \<times> GetHostRequest" where
  "GetHostRequest_MergePartial W bs m = merge_loop W (GetHostRequest_switch W) (Suc (length bs)) bs m"

definition GetHostRequest_Parse :: "wire \<Rightarrow> bytes \<Rightarrow> bool \<times> GetHostRequest" where
  "GetHostRequest_Parse W bs = GetHostRequest_MergePartial W bs GetHostRequest_default"

definition GetHostRequest_ByteSizeLong :: "wire \<Rightarrow> GetHostRequest \<Rightarrow> nat" where
  "GetHostRequest_ByteSizeLong W m =
     (if ghq_seq m \<noteq> 0 then 1 + w_UInt32Size W (ghq_seq m) else 0) +
     (if ghq_modid m \<noteq> 0 then 1 + w_Int32Size W (ghq_modid m) else 0) +
     (if ghq_cmdid m \<noteq> 0 then 1 + w_Int32Size W (ghq_cmdid m) else 0)"

definition GetHostRequest_Serialize :: "wire \<Rightarrow> GetHostRequest \<Rightarrow> bytes" where
  "GetHostRequest_Serialize W m =
     (if ghq_seq m \<noteq> 0 then w_WriteUInt32 W 1 (ghq_seq m) else []) @
     (if ghq_modid m \<noteq> 0 then w_WriteInt32 W 2 (ghq_modid m) else []) @
     (if ghq_cmdid m \<noteq> 0 then w_WriteInt32 W 3 (ghq_cmdid m) else [])"

definition GetHostRequest_MergeFrom :: "GetHostRequest \<Rightarrow> GetHostRequest \<Rightarrow> GetHostRequest" where
  "GetHostRequest_MergeFrom src m =
     (let m = (if ghq_seq src \<noteq> 0 then m\<lparr>ghq_seq := ghq_seq src\<rparr> else m);
          m = (if ghq_modid src \<noteq> 0 then m\<lparr>ghq_modid := ghq_modid src\<rparr> else m);
          m = (if ghq_cmdid src \<noteq> 0 then m\<lparr>ghq_cmdid := ghq_cmdid src\<rparr> else m)
      in m)"

definition GetHostRequest_CopyFrom :: "GetHostRequest \<Rightarrow> GetHostRequest" where
  "GetHostRequest_CopyFrom src = GetHostRequest_MergeFrom src GetHostRequest_default"

subsection \<open>GetHostResponse\<close>

definition GetHostResponse_switch :: "wire \<Rightarrow> u32 \<Rightarrow> bytes \<Rightarrow> GetHostResponse \<Rightarrow> bool \<times> GetHostResponse \<times> bytes" where
  "GetHostResponse_switch W tag bs m =
     (if field_is 1 8 tag then read_prim (w_ReadUInt32 W) (\<lambda>v. ghs_seq_update (\<lambda>_. v)) bs m
      else if field_is 2 16 tag then read_prim (w_ReadInt32 W) (\<lambda>v. ghs_modid_update (\<lambda>_. v)) bs m
      else if field_is 3 24 tag then read_prim (w_ReadInt32 W) (\<lambda>v. ghs_cmdid_update (\<lambda>_. v)) bs m
      else if field_is 4 32 tag then read_prim (w_ReadInt32 W) (\<lambda>v. ghs_retcode_update (\<lambda>_. v)) bs m
      else if field_is 5 42 tag then 
        read_message W (HostInfo_MergePartial W) (\<lambda>s. m\<lparr>ghs_host := Some s\<rparr>) bs (pb_host (ghs_host m))
      else skip_field W tag bs m)"

definition GetHostResponse_MergePartial :: "wire \<Rightarrow> bytes \<Rightarrow> GetHostResponse \<Rightarrow> bool \<times> GetHostResponse" where
  "GetHostResponse_MergePartial W bs m = merge_loop W (GetHostResponse_switch W) (Suc (length bs)) bs m"

definition GetHostResponse_Parse :: "wire \<Rightarrow> bytes \<Rightarrow> bool \<times> GetHostResponse" where
  "GetHostResponse_Parse W bs = GetHostResponse_MergePartial W bs GetHostResponse_default"

definition GetHostResponse_ByteSizeLong :: "wire \<Rightarrow> GetHostResponse \<Rightarrow> nat" where
  "GetHostResponse_ByteSizeLong W m =
     (case ghs_host m of None \<Rightarrow> 0 | Some s \<Rightarrow> 1 + w_LengthDelimitedSize W (HostInfo_ByteSizeLong W s)) +
     (if ghs_seq m \<noteq> 0 then 1 + w_UInt32Size W (ghs_seq m) else 0) +
     (if ghs_modid m \<noteq> 0 then 1 + w_Int32Size W (ghs_modid m) else 0) +
     (if ghs_cmdid m \<noteq> 0 then 1 + w_Int32Size W (ghs_cmdid m) else 0) +
     (if ghs_retcode m \<noteq> 0 then 1 + w_Int32Size W (ghs_retcode m) else 0)"

definition GetHostResponse_Serialize :: "wire \<Rightarrow> GetHostResponse \<Rightarrow> bytes" where
  "GetHostResponse_Serialize W m =
     (if ghs_seq m \<noteq> 0 then w_WriteUInt32 W 1 (ghs_seq m) else []) @
     (if ghs_modid m \<noteq> 0 then w_WriteInt32 W 2 (ghs_modid m) else []) @
     (if ghs_cmdid m \<noteq> 0 then w_WriteInt32 W 3 (ghs_cmdid m) else []) @
     (if ghs_retcode m \<noteq> 0 then w_WriteInt32 W 4 (ghs_retcode m) else []) @
     (case ghs_host m of None \<Rightarrow> [] | Some s \<Rightarrow> w_WriteMessage W 5 (HostInfo_ByteSizeLong W s) (HostInfo_Serialize W s))"

definition GetHostResponse_MergeFrom :: "GetHostResponse \<Rightarrow> GetHostResponse \<Rightarrow> GetHostResponse" where
  "GetHostResponse_MergeFrom src m =
     (let m = (case ghs_host src of None \<Rightarrow> m | Some s \<Rightarrow> m\<lparr>ghs_host := Some (HostInfo_MergeFrom s (pb_host (ghs_host m)))\<rparr>);
          m = (if ghs_seq src \<noteq> 0 then m\<lparr>ghs_seq := ghs_seq src\<rparr> else m);
          m = (if ghs_modid src \<noteq> 0 then m\<lparr>ghs_modid := ghs_modid src\<rparr> else m);
          m = (if ghs_cmdid src \<noteq> 0 then m\<lparr>ghs_cmdid := ghs_cmdid src\<rparr> else m);
          m = (if ghs_retcode src \<noteq> 0 then m\<lparr>ghs_retcode := ghs_retcode src\<rparr> else m)
      in m)"

definition GetHostResponse_CopyFrom :: "GetHostResponse \<Rightarrow> GetHostResponse" where
  "GetHostResponse_CopyFrom src = GetHostResponse_MergeFrom src GetHostResponse_default"

subsection \<open>ReportRequest\<close>

definition ReportRequest_default :: ReportRequest where
  "ReportRequest_default = \<lparr>rpq_modid = 0, rpq_cmdid = 0, rpq_host = None, rpq_retcode = 0\<rparr>"

definition ReportRequest_switch :: "wire \<Rightarrow> u32 \<Rightarrow> bytes \<Rightarrow> ReportRequest \<Rightarrow> bool \<times> ReportRequest \<times> bytes" where
  "ReportRequest_switch W tag bs m =
     (if field_is 1 8 tag then read_prim (w_ReadInt32 W) (\<lambda>v. rpq_modid_update (\<lambda>_. v)) bs m
      else if field_is 2 16 tag then read_prim (w_ReadInt32 W) (\<lambda>v. rpq_cmdid_update (\<lambda>_. v)) bs m
      else if field_is 3 26 tag then 
        read_message W (HostInfo_MergePartial W) (\<lambda>s. m\<lparr>rpq_host := Some s\<rparr>) bs (pb_host (rpq_host m))
      else if field_is 4 32 tag then read_prim (w_ReadInt32 W) (\<lambda>v. rpq_retcode_update (\<lambda>_. v)) bs m
      else skip_field W tag bs m)"

definition ReportRequest_MergePartial :: "wire \<Rightarrow> bytes \<Rightarrow> ReportRequest \<Rightarrow> bool \<times> ReportRequest" where
  "ReportRequest_MergePartial W bs m = merge_loop W (ReportRequest_switch W) (Suc (length bs)) bs m"

definition ReportRequest_Parse :: "wire \<Rightarrow> bytes \<Rightarrow> bool \<times> ReportRequest" where
  "ReportRequest_Parse W bs = ReportRequest_MergePartial W bs ReportRequest_default"

definition ReportRequest_ByteSizeLong :: "wire \<Rightarrow> ReportRequest \<Rightarrow> nat" where
  "ReportRequest_ByteSizeLong W m =
     (case rpq_host m of None \<Rightarrow> 0 | Some s \<Rightarrow> 1 + w_LengthDelimitedSize W (HostInfo_ByteSizeLong W s)) +
     (if rpq_modid m \<noteq> 0 then 1 + w_Int32Size W (rpq_modid m) else 0) +
     (if rpq_cmdid m \<noteq> 0 then 1 + w_Int32Size W (rpq_cmdid m) else 0) +
     (if rpq_retcode m \<noteq> 0 then 1 + w_Int32Size W (rpq_retcode m) else 0)"

definition ReportRequest_Serialize :: "wire \<Rightarrow> ReportRequest \<Rightarrow> bytes" where
  "ReportRequest_Serialize W m =
     (if rpq_modid m \<noteq> 0 then w_WriteInt32 W 1 (rpq_modid m) else []) @
     (if rpq_cmdid m \<noteq> 0 then w_WriteInt32 W 2 (rpq_cmdid m) else []) @
     (case rpq_host m of None \<Rightarrow> [] | Some s \<Rightarrow> w_WriteMessage W 3 (HostInfo_ByteSizeLong W s) (HostInfo_Serialize W s)) @
     (if rpq_retcode m \<noteq> 0 then w_WriteInt32 W 4 (rpq_retcode m) else [])"

definition ReportRequest_MergeFrom :: "ReportRequest \<Rightarrow> ReportRequest \<Rightarrow> ReportRequest" where
  "ReportRequest_MergeFrom src m =
     (let m = (case rpq_host src of None \<Rightarrow> m | Some s \<Rightarrow> m\<lparr>rpq_host := Some (HostInfo_MergeFrom s (pb_host (rpq_host m)))\<rparr>);
          m = (if rpq_modid src \<noteq> 0 then m\<lparr>rpq_modid := rpq_modid src\<rparr> else m);
          m = (if rpq_cmdid src \<noteq> 0 then m\<lparr>rpq_cmdid := rpq_cmdid src\<rparr> else m);
          m = (if rpq_retcode src \<noteq> 0 then m\<lparr>rpq_retcode := rpq_retcode src\<rparr> else m)
      in m)"

definition ReportRequest_CopyFrom :: "ReportRequest \<Rightarrow> ReportRequest" where
  "ReportRequest_CopyFrom src = ReportRequest_MergeFrom src ReportRequest_default"

section \<open>Copies\<close>

lemma HostInfo_copy: "HostInfo_CopyFrom src = src"
  by (cases src) (simp add: HostInfo_CopyFrom_def HostInfo_MergeFrom_def HostInfo_default_def Let_def)

lemma HostInfo_merge: "HostInfo_MergeFrom src HostInfo_default = src"
  using HostInfo_copy by (simp add: HostInfo_CopyFrom_def)

lemma GetRouteRequest_copy: "GetRouteRequest_CopyFrom src = src"
  by (cases src) (simp add: GetRouteRequest_CopyFrom_def GetRouteRequest_MergeFrom_def GetRouteRequest_default_def Let_def)

lemma GetRouteResponse_copy: "GetRouteResponse_CopyFrom src = src"
  by (cases src) (simp add: GetRouteResponse_CopyFrom_def GetRouteResponse_MergeFrom_def GetRouteResponse_default_def Let_def)

lemma HostCallResult_copy: "HostCallResult_CopyFrom src = src"
  by (cases src) (simp add: HostCallResult_CopyFrom_def HostCallResult_MergeFrom_def HostCallResult_default_def Let_def)

lemma ReportStatusRequest_copy: "ReportStatusRequest_CopyFrom src = src"
  by (cases src) (simp add: ReportStatusRequest_CopyFrom_def ReportStatusRequest_MergeFrom_def ReportStatusRequest_default_def Let_def)

lemma GetHostRequest_copy: "GetHostRequest_CopyFrom src = src"
  by (cases src) (simp add: GetHostRequest_CopyFrom_def GetHostRequest_MergeFrom_def GetHostRequest_default_def Let_def)

lemma GetHostResponse_copy: "GetHostResponse_CopyFrom src = src"
  by (cases src) (simp add: GetHostResponse_CopyFrom_def GetHostResponse_MergeFrom_def GetHostResponse_default_def Let_def HostInfo_merge pb_host_def split: option.split)

lemma ReportRequest_copy: "ReportRequest_CopyFrom src = src"
  by (cases src) (simp add: ReportRequest_CopyFrom_def ReportRequest_MergeFrom_def ReportRequest_default_def Let_def HostInfo_merge pb_host_def split: option.split)

section \<open>Encoding and decoding\<close>

declare consumes_append [trans]

context wire_format
begin

lemma scalar_bound:
  "(if v \<noteq> 0 then 1 + w_Int32Size W v else 0) \<le> 11" "(if u \<noteq> 0 then 1 + w_UInt32Size W u else 0) \<le> 6"
  "(if b then 1 + 1 else 0) \<le> (2 :: nat)"
  using size_law by simp_all

lemmas field_sizes = int32_law(2) uint32_law(2) bool_law(2)

text \<open>Embedded messages: a codec \<open>ser\<close>, \<open>merge\<close> whose announced sizes are exact.\<close>

definition sub_codec :: "('s \<Rightarrow> nat) \<Rightarrow> ('s \<Rightarrow> bytes) \<Rightarrow> (bytes \<Rightarrow> 's \<Rightarrow> bool \<times> 's) \<Rightarrow> 's \<Rightarrow> bool" where
  "sub_codec size_of ser merge d \<longleftrightarrow> (\<forall>s. size_of s = length (ser s) \<and> length (ser s) < 2 ^ 31 \<and> merge (ser s) d = (True, s))"

lemma sub_codecD:
  assumes "sub_codec size_of ser merge d"
  shows "size_of s = length (ser s)" "length (ser s) < 2 ^ 31" "merge (ser s) d = (True, s)"
  using assms by (simp_all add: sub_codec_def)

lemma message_size:
  assumes "sub_codec size_of ser merge d" "0 < n" "n < 16"
  shows "length (w_WriteMessage W n (size_of s) (ser s)) = 1 + w_LengthDelimitedSize W (size_of s)"
  using message_law(2) [OF assms(2,3) sub_codecD(2) [OF assms(1)]] by (simp add: sub_codecD(1) [OF assms(1)])

lemma message_list_size:
  assumes "sub_codec size_of ser merge d" "0 < n" "n < 16"
  shows "length (concat (map (\<lambda>s. w_WriteMessage W n (size_of s) (ser s)) ss)) =
    length ss + sum_list (map (\<lambda>s. w_LengthDelimitedSize W (size_of s)) ss)"
  by (induction ss) (simp_all add: message_size [OF assms])

lemma consumes_sub:
  assumes "sub_codec size_of ser merge d" "0 < n" "n < 16"
    and "\<And>xs. switch (of_nat (8 * n + 2)) xs m = read_message W merge store xs d"
  shows "consumes W switch (w_WriteMessage W n (size_of s) (ser s)) m (store s)"
  using consumes_message [OF assms(2,3) sub_codecD(2) [OF assms(1)], where m = m and store = store and merge = merge and s = d and switch = switch]
    assms(4) sub_codecD(3) [OF assms(1)] by (simp add: sub_codecD(1) [OF assms(1)])

lemma consumes_messages:
  assumes sub: "sub_codec size_of ser merge d" and n: "0 < n" "n < 16"
    and sw: "\<And>xs l. switch (of_nat (8 * n + 2)) xs (put l m) = read_message W merge (\<lambda>s. put (l @ [s]) m) xs d" and m: "put [] m = m"
  shows "consumes W switch (concat (map (\<lambda>s. w_WriteMessage W n (size_of s) (ser s)) ss)) m (put ss m)"
proof -
  have "consumes W switch (concat (map (\<lambda>s. w_WriteMessage W n (size_of s) (ser s)) ss)) (put l m) (put (l @ ss) m)" for l
  proof (induction ss arbitrary: l)
    case (Cons s ss)
    have "consumes W switch (w_WriteMessage W n (size_of s) (ser s)) (put l m) (put (l @ [s]) m)"
      by (rule consumes_sub [OF sub n, where store = "\<lambda>s. put (l @ [s]) m"]) (rule sw)
    then show ?case using consumes_append [OF _ Cons [of "l @ [s]"]] by simp
  qed (simp add: consumes_Nil)
  from this [of "[]"] show ?thesis by (simp add: m)
qed

lemma consumes_optional:
  assumes sub: "sub_codec size_of ser merge d" and n: "0 < n" "n < 16"
    and sw: "\<And>xs. switch (of_nat (8 * n + 2)) xs m = read_message W merge (\<lambda>s. put (Some s) m) xs d" and m: "put None m = m"
  shows "consumes W switch (case h of None \<Rightarrow> [] | Some s \<Rightarrow> w_WriteMessage W n (size_of s) (ser s)) m (put h m)"
proof (cases h)
  case (Some s)
  have "consumes W switch (w_WriteMessage W n (size_of s) (ser s)) m (put (Some s) m)"
    by (rule consumes_sub [OF sub n, where store = "\<lambda>s. put (Some s) m"]) (rule sw)
  then show ?thesis by (simp add: Some)
qed (simp add: m consumes_Nil)

text \<open>\<open>HostInfo\<close>\<close>

lemma HostInfo_size: "HostInfo_ByteSizeLong W m = length (HostInfo_Serialize W m)"
  by (simp add: HostInfo_ByteSizeLong_def HostInfo_Serialize_def field_sizes)

lemma HostInfo_bound: "HostInfo_ByteSizeLong W m \<le> 22"
  unfolding HostInfo_ByteSizeLong_def using scalar_bound(1) [of "pb_ip m"] scalar_bound(1) [of "pb_port m"] by linarith

lemma HostInfo_small: "length (HostInfo_Serialize W m) < 2 ^ 31"
  using HostInfo_bound [of m] by (simp add: HostInfo_size)

lemma HostInfo_parse: "HostInfo_MergePartial W (HostInfo_Serialize W m) HostInfo_default = (True, m)"
proof -
  let ?c = "consumes W (HostInfo_switch W)"
  have "?c (if pb_ip m \<noteq> 0 then w_WriteInt32 W 1 (pb_ip m) else []) HostInfo_default
      (HostInfo_default\<lparr>pb_ip := pb_ip m\<rparr>)"
    by (rule consumes_int32 [where upd = "\<lambda>v. pb_ip_update (\<lambda>_. v)"]) (simp_all add: HostInfo_switch_def field_is_def HostInfo_default_def)
  also
  have "?c (if pb_port m \<noteq> 0 then w_WriteInt32 W 2 (pb_port m) else []) (HostInfo_default\<lparr>pb_ip := pb_ip m\<rparr>)
      (HostInfo_default\<lparr>pb_ip := pb_ip m, pb_port := pb_port m\<rparr>)"
    by (rule consumes_int32 [where upd = "\<lambda>v. pb_port_update (\<lambda>_. v)"]) (simp_all add: HostInfo_switch_def field_is_def HostInfo_default_def)
  finally show ?thesis
    using consumes_all [of "HostInfo_switch W" "HostInfo_Serialize W m"] unfolding HostInfo_Serialize_def HostInfo_MergePartial_def
    by (simp add: HostInfo_default_def)
qed

lemma HostInfo_codec: "sub_codec (HostInfo_ByteSizeLong W) (HostInfo_Serialize W) (HostInfo_MergePartial W) HostInfo_default"
  unfolding sub_codec_def using HostInfo_size HostInfo_small HostInfo_parse by blast

lemma host_bound: "(case h of None \<Rightarrow> 0 | Some s \<Rightarrow> 1 + w_LengthDelimitedSize W (HostInfo_ByteSizeLong W s)) \<le> 28"
proof (cases h)
  case (Some s)
  have "w_LengthDelimitedSize W (HostInfo_ByteSizeLong W s) \<le> HostInfo_ByteSizeLong W s + 5"
    using message_law(3) [of 1 "HostInfo_Serialize W s"] HostInfo_small by (simp add: HostInfo_size)
  then show ?thesis using HostInfo_bound [of s] Some by simp
qed simp

text \<open>\<open>GetRouteRequest\<close>\<close>

lemma GetRouteRequest_size: "GetRouteRequest_ByteSizeLong W m = length (GetRouteRequest_Serialize W m)"
  by (simp add: GetRouteRequest_ByteSizeLong_def GetRouteRequest_Serialize_def field_sizes)

lemma GetRouteRequest_bound: "GetRouteRequest_ByteSizeLong W m \<le> 22"
  unfolding GetRouteRequest_ByteSizeLong_def using scalar_bound(1) [of "grq_modid m"] scalar_bound(1) [of "grq_cmdid m"] by linarith

lemma GetRouteRequest_parse: "GetRouteRequest_MergePartial W (GetRouteRequest_Serialize W m) GetRouteRequest_default = (True, m)"
proof -
  let ?c = "consumes W (GetRouteRequest_switch W)"
  have "?c (if grq_modid m \<noteq> 0 then w_WriteInt32 W 1 (grq_modid m) else []) GetRouteRequest_default
      (GetRouteRequest_default\<lparr>grq_modid := grq_modid m\<rparr>)"
    by (rule consumes_int32 [where upd = "\<lambda>v. grq_modid_update (\<lambda>_. v)"]) (simp_all add: GetRouteRequest_switch_def field_is_def GetRouteRequest_default_def)
  also
  have "?c (if grq_cmdid m \<noteq> 0 then w_WriteInt32 W 2 (grq_cmdid m) else []) (GetRouteRequest_default\<lparr>grq_modid := grq_modid m\<rparr>)
      (GetRouteRequest_default\<lparr>grq_modid := grq_modid m, grq_cmdid := grq_cmdid m\<rparr>)"
    by (rule consumes_int32 [where upd = "\<lambda>v. grq_cmdid_update (\<lambda>_. v)"]) (simp_all add: GetRouteRequest_switch_def field_is_def GetRouteRequest_default_def)
  finally show ?thesis
    using consumes_all [of "GetRouteRequest_switch W" "GetRouteRequest_Serialize W m"] unfolding GetRouteRequest_Serialize_def GetRouteRequest_MergePartial_def
    by (simp add: GetRouteRequest_default_def)
qed

text \<open>\<open>GetRouteResponse\<close>\<close>

lemma GetRouteResponse_size: "GetRouteResponse_ByteSizeLong W m = length (GetRouteResponse_Serialize W m)"
  by (simp add: GetRouteResponse_ByteSizeLong_def GetRouteResponse_Serialize_def field_sizes message_list_size [OF HostInfo_codec])

lemma GetRouteResponse_parse: "GetRouteResponse_MergePartial W (GetRouteResponse_Serialize W m) GetRouteResponse_default = (True, m)"
proof -
  let ?c = "consumes W (GetRouteResponse_switch W)"
  have "?c (if grs_modid m \<noteq> 0 then w_WriteInt32 W 1 (grs_modid m) else []) GetRouteResponse_default
      (GetRouteResponse_default\<lparr>grs_modid := grs_modid m\<rparr>)"
    by (rule consumes_int32 [where upd = "\<lambda>v. grs_modid_update (\<lambda>_. v)"]) (simp_all add: GetRouteResponse_switch_def field_is_def GetRouteResponse_default_def)
  also
  have "?c (if grs_cmdid m \<noteq> 0 then w_WriteInt32 W 2 (grs_cmdid m) else []) (GetRouteResponse_default\<lparr>grs_modid := grs_modid m\<rparr>)
      (GetRouteResponse_default\<lparr>grs_modid := grs_modid m, grs_cmdid := grs_cmdid m\<rparr>)"
    by (rule consumes_int32 [where upd = "\<lambda>v. grs_cmdid_update (\<lambda>_. v)"]) (simp_all add: GetRouteResponse_switch_def field_is_def GetRouteResponse_default_def)
  also
  have "?c (concat (map (\<lambda>s. w_WriteMessage W 3 (HostInfo_ByteSizeLong W s) (HostInfo_Serialize W s)) (grs_host m))) (GetRouteResponse_default\<lparr>grs_modid := grs_modid m, grs_cmdid := grs_cmdid m\<rparr>)
      (GetRouteResponse_default\<lparr>grs_modid := grs_modid m, grs_cmdid := grs_cmdid m, grs_host := grs_host m\<rparr>)"
    by (rule consumes_messages [where put = "\<lambda>l. grs_host_update (\<lambda>_. l)", OF HostInfo_codec])
      (simp_all add: GetRouteResponse_switch_def field_is_def GetRouteResponse_default_def)
  finally show ?thesis
    using consumes_all [of "GetRouteResponse_switch W" "GetRouteResponse_Serialize W m"] unfolding GetRouteResponse_Serialize_def GetRouteResponse_MergePartial_def
    by (simp add: GetRouteResponse_default_def)
qed

text \<open>\<open>HostCallResult\<close>\<close>

lemma HostCallResult_size: "HostCallResult_ByteSizeLong W m = length (HostCallResult_Serialize W m)"
  by (simp add: HostCallResult_ByteSizeLong_def HostCallResult_Serialize_def field_sizes)

lemma HostCallResult_bound: "HostCallResult_ByteSizeLong W m \<le> 36"
  unfolding HostCallResult_ByteSizeLong_def using scalar_bound(1) [of "hcr_ip m"] scalar_bound(1) [of "hcr_port m"] scalar_bound(2) [of "hcr_succ m"] scalar_bound(2) [of "hcr_err m"] scalar_bound(3) [of "hcr_overload m"] by linarith

lemma HostCallResult_small: "length (HostCallResult_Serialize W m) < 2 ^ 31"
  using HostCallResult_bound [of m] by (simp add: HostCallResult_size)

lemma HostCallResult_parse: "HostCallResult_MergePartial W (HostCallResult_Serialize W m) HostCallResult_default = (True, m)"
proof -
  let ?c = "consumes W (HostCallResult_switch W)"
  have "?c (if hcr_ip m \<noteq> 0 then w_WriteInt32 W 1 (hcr_ip m) else []) HostCallResult_default
      (HostCallResult_default\<lparr>hcr_ip := hcr_ip m\<rparr>)"
    by (rule consumes_int32 [where upd = "\<lambda>v. hcr_ip_update (\<lambda>_. v)"]) (simp_all add: HostCallResult_switch_def field_is_def HostCallResult_default_def)
  also
  have "?c (if hcr_port m \<noteq> 0 then w_WriteInt32 W 2 (hcr_port m) else []) (HostCallResult_default\<lparr>hcr_ip := hcr_ip m\<rparr>)
      (HostCallResult_default\<lparr>hcr_ip := hcr_ip m, hcr_port := hcr_port m\<rparr>)"
    by (rule consumes_int32 [where upd = "\<lambda>v. hcr_port_update (\<lambda>_. v)"]) (simp_all add: HostCallResult_switch_def field_is_def HostCallResult_default_def)
  also
  have "?c (if hcr_succ m \<noteq> 0 then w_WriteUInt32 W 3 (hcr_succ m) else []) (HostCallResult_default\<lparr>hcr_ip := hcr_ip m, hcr_port := hcr_port m\<rparr>)
      (HostCallResult_default\<lparr>hcr_ip := hcr_ip m, hcr_port := hcr_port m, hcr_succ := hcr_succ m\<rparr>)"
    by (rule consumes_uint32 [where upd = "\<lambda>v. hcr_succ_update (\<lambda>_. v)"]) (simp_all add: HostCallResult_switch_def field_is_def HostCallResult_default_def)
  also
  have "?c (if hcr_err m \<noteq> 0 then w_WriteUInt32 W 4 (hcr_err m) else []) (HostCallResult_default\<lparr>hcr_ip := hcr_ip m, hcr_port := hcr_port m, hcr_succ := hcr_succ m\<rparr>)
      (HostCallResult_default\<lparr>hcr_ip := hcr_ip m, hcr_port := hcr_port m, hcr_succ := hcr_succ m, hcr_err := hcr_err m\<rparr>)"
    by (rule consumes_uint32 [where upd = "\<lambda>v. hcr_err_update (\<lambda>_. v)"]) (simp_all add: HostCallResult_switch_def field_is_def HostCallResult_default_def)
  also
  have "?c (if hcr_overload m then w_WriteBool W 5 (hcr_overload m) else []) (HostCallResult_default\<lparr>hcr_ip := hcr_ip m, hcr_port := hcr_port m, hcr_succ := hcr_succ m, hcr_err := hcr_err m\<rparr>)
      (HostCallResult_default\<lparr>hcr_ip := hcr_ip m, hcr_port := hcr_port m, hcr_succ := hcr_succ m, hcr_err := hcr_err m, hcr_overload := hcr_overload m\<rparr>)"
    by (rule consumes_bool [where upd = "\<lambda>v. hcr_overload_update (\<lambda>_. v)"]) (simp_all add: HostCallResult_switch_def field_is_def HostCallResult_default_def)
  finally show ?thesis
    using consumes_all [of "HostCallResult_switch W" "HostCallResult_Serialize W m"] unfolding HostCallResult_Serialize_def HostCallResult_MergePartial_def
    by (simp add: HostCallResult_default_def)
qed

lemma HostCallResult_codec: "sub_codec (HostCallResult_ByteSizeLong W) (HostCallResult_Serialize W) (HostCallResult_MergePartial W) HostCallResult_default"
  unfolding sub_codec_def using HostCallResult_size HostCallResult_small HostCallResult_parse by blast

text \<open>\<open>ReportStatusRequest\<close>\<close>

lemma ReportStatusRequest_size: "ReportStatusRequest_ByteSizeLong W m = length (ReportStatusRequest_Serialize W m)"
  by (simp add: ReportStatusRequest_ByteSizeLong_def ReportStatusRequest_Serialize_def field_sizes message_list_size [OF HostCallResult_codec])

lemma ReportStatusRequest_parse: "ReportStatusRequest_MergePartial W (ReportStatusRequest_Serialize W m) ReportStatusRequest_default = (True, m)"
proof -
  let ?c = "consumes W (ReportStatusRequest_switch W)"
  have "?c (if rsr_modid m \<noteq> 0 then w_WriteInt32 W 1 (rsr_modid m) else []) ReportStatusRequest_default
      (ReportStatusRequest_default\<lparr>rsr_modid := rsr_modid m\<rparr>)"
    by (rule consumes_int32 [where upd = "\<lambda>v. rsr_modid_update (\<lambda>_. v)"]) (simp_all add: ReportStatusRequest_switch_def field_is_def ReportStatusRequest_default_def)
  also
  have "?c (if rsr_cmdid m \<noteq> 0 then w_WriteInt32 W 2 (rsr_cmdid m) else []) (ReportStatusRequest_default\<lparr>rsr_modid := rsr_modid m\<rparr>)
      (ReportStatusRequest_default\<lparr>rsr_modid := rsr_modid m, rsr_cmdid := rsr_cmdid m\<rparr>)"
    by (rule consumes_int32 [where upd = "\<lambda>v. rsr_cmdid_update (\<lambda>_. v)"]) (simp_all add: ReportStatusRequest_switch_def field_is_def ReportStatusRequest_default_def)
  also
  have "?c (if rsr_caller m \<noteq> 0 then w_WriteInt32 W 3 (rsr_caller m) else []) (ReportStatusRequest_default\<lparr>rsr_modid := rsr_modid m, rsr_cmdid := rsr_cmdid m\<rparr>)
      (ReportStatusRequest_default\<lparr>rsr_modid := rsr_modid m, rsr_cmdid := rsr_cmdid m, rsr_caller := rsr_caller m\<rparr>)"
    by (rule consumes_int32 [where upd = "\<lambda>v. rsr_caller_update (\<lambda>_. v)"]) (simp_all add: ReportStatusRequest_switch_def field_is_def ReportStatusRequest_default_def)
  also
  have "?c (concat (map (\<lambda>s. w_WriteMessage W 4 (HostCallResult_ByteSizeLong W s) (HostCallResult_Serialize W s)) (rsr_results m))) (ReportStatusRequest_default\<lparr>rsr_modid := rsr_modid m, rsr_cmdid := rsr_cmdid m, rsr_caller := rsr_caller m\<rparr>)
      (ReportStatusRequest_default\<lparr>rsr_modid := rsr_modid m, rsr_cmdid := rsr_cmdid m, rsr_caller := rsr_caller m, rsr_results := rsr_results m\<rparr>)"
    by (rule consumes_messages [where put = "\<lambda>l. rsr_results_update (\<lambda>_. l)", OF HostCallResult_codec])
      (simp_all add: ReportStatusRequest_switch_def field_is_def ReportStatusRequest_default_def)
  also
  have "?c (if rsr_ts m \<noteq> 0 then w_WriteUInt32 W 5 (rsr_ts m) else []) (ReportStatusRequest_default\<lparr>rsr_modid := rsr_modid m, rsr_cmdid := rsr_cmdid m, rsr_caller := rsr_caller m, rsr_results := rsr_results m\<rparr>)
      (ReportStatusRequest_default\<lparr>rsr_modid := rsr_modid m, rsr_cmdid := rsr_cmdid m, rsr_caller := rsr_caller m, rsr_results := rsr_results m, rsr_ts := rsr_ts m\<rparr>)"
    by (rule consumes_uint32 [where upd = "\<lambda>v. rsr_ts_update (\<lambda>_. v)"]) (simp_all add: ReportStatusRequest_switch_def field_is_def ReportStatusRequest_default_def)
  finally show ?thesis
    using consumes_all [of "ReportStatusRequest_switch W" "ReportStatusRequest_Serialize W m"] unfolding ReportStatusRequest_Serialize_def ReportStatusRequest_MergePartial_def
    by (simp add: ReportStatusRequest_default_def)
qed

text \<open>\<open>GetHostRequest\<close>\<close>

lemma GetHostRequest_size: "GetHostRequest_ByteSizeLong W m = length (GetHostRequest_Serialize W m)"
  by (simp add: GetHostRequest_ByteSizeLong_def GetHostRequest_Serialize_def field_sizes)

lemma GetHostRequest_bound: "GetHostRequest_ByteSizeLong W m \<le> 28"
  unfolding GetHostRequest_ByteSizeLong_def using scalar_bound(2) [of "ghq_seq m"] scalar_bound(1) [of "ghq_modid m"] scalar_bound(1) [of "ghq_cmdid m"] by linarith

lemma GetHostRequest_parse: "GetHostRequest_MergePartial W (GetHostRequest_Serialize W m) GetHostRequest_default = (True, m)"
proof -
  let ?c = "consumes W (GetHostRequest_switch W)"
  have "?c (if ghq_seq m \<noteq> 0 then w_WriteUInt32 W 1 (ghq_seq m) else []) GetHostRequest_default
      (GetHostRequest_default\<lparr>ghq_seq := ghq_seq m\<rparr>)"
    by (rule consumes_uint32 [where upd = "\<lambda>v. ghq_seq_update (\<lambda>_. v)"]) (simp_all add: GetHostRequest_switch_def field_is_def GetHostRequest_default_def)
  also
  have "?c (if ghq_modid m \<noteq> 0 then w_WriteInt32 W 2 (ghq_modid m) else []) (GetHostRequest_default\<lparr>ghq_seq := ghq_seq m\<rparr>)
      (GetHostRequest_default\<lparr>ghq_seq := ghq_seq m, ghq_modid := ghq_modid m\<rparr>)"
    by (rule consumes_int32 [where upd = "\<lambda>v. ghq_modid_update (\<lambda>_. v)"]) (simp_all add: GetHostRequest_switch_def field_is_def GetHostRequest_default_def)
  also
  have "?c (if ghq_cmdid m \<noteq> 0 then w_WriteInt32 W 3 (ghq_cmdid m) else []) (GetHostRequest_default\<lparr>ghq_seq := ghq_seq m, ghq_modid := ghq_modid m\<rparr>)
      (GetHostRequest_default\<lparr>ghq_seq := ghq_seq m, ghq_modid := ghq_modid m, ghq_cmdid := ghq_cmdid m\<rparr>)"
    by (rule consumes_int32 [where upd = "\<lambda>v. ghq_cmdid_update (\<lambda>_. v)"]) (simp_all add: GetHostRequest_switch_def field_is_def GetHostRequest_default_def)
  finally show ?thesis
    using consumes_all [of "GetHostRequest_switch W" "GetHostRequest_Serialize W m"] unfolding GetHostRequest_Serialize_def GetHostRequest_MergePartial_def
    by (simp add: GetHostRequest_default_def)
qed

text \<open>\<open>GetHostResponse\<close>\<close>

lemma GetHostResponse_size: "GetHostResponse_ByteSizeLong W m = length (GetHostResponse_Serialize W m)"
  by (simp add: GetHostResponse_ByteSizeLong_def GetHostResponse_Serialize_def field_sizes message_size [OF HostInfo_codec] split: option.split)

lemma GetHostResponse_bound: "GetHostResponse_ByteSizeLong W m \<le> 67"
  unfolding GetHostResponse_ByteSizeLong_def using scalar_bound(2) [of "ghs_seq m"] scalar_bound(1) [of "ghs_modid m"] scalar_bound(1) [of "ghs_cmdid m"] scalar_bound(1) [of "ghs_retcode m"] host_bound [of "ghs_host m"] by linarith

lemma GetHostResponse_parse: "GetHostResponse_MergePartial W (GetHostResponse_Serialize W m) GetHostResponse_default = (True, m)"
proof -
  let ?c = "consumes W (GetHostResponse_switch W)"
  have "?c (if ghs_seq m \<noteq> 0 then w_WriteUInt32 W 1 (ghs_seq m) else []) GetHostResponse_default
      (GetHostResponse_default\<lparr>ghs_seq := ghs_seq m\<rparr>)"
    by (rule consumes_uint32 [where upd = "\<lambda>v. ghs_seq_update (\<lambda>_. v)"]) (simp_all add: GetHostResponse_switch_def field_is_def GetHostResponse_default_def)
  also
  have "?c (if ghs_modid m \<noteq> 0 then w_WriteInt32 W 2 (ghs_modid m) else []) (GetHostResponse_default\<lparr>ghs_seq := ghs_seq m\<rparr>)
      (GetHostResponse_default\<lparr>ghs_seq := ghs_seq m, ghs_modid := ghs_modid m\<rparr>)"
    by (rule consumes_int32 [where upd = "\<lambda>v. ghs_modid_update (\<lambda>_. v)"]) (simp_all add: GetHostResponse_switch_def field_is_def GetHostResponse_default_def)
  also
  have "?c (if ghs_cmdid m \<noteq> 0 then w_WriteInt32 W 3 (ghs_cmdid m) else []) (GetHostResponse_default\<lparr>ghs_seq := ghs_seq m, ghs_modid := ghs_modid m\<rparr>)
      (GetHostResponse_default\<lparr>ghs_seq := ghs_seq m, ghs_modid := ghs_modid m, ghs_cmdid := ghs_cmdid m\<rparr>)"
    by (rule consumes_int32 [where upd = "\<lambda>v. ghs_cmdid_update (\<lambda>_. v)"]) (simp_all add: GetHostResponse_switch_def field_is_def GetHostResponse_default_def)
  also
  have "?c (if ghs_retcode m \<noteq> 0 then w_WriteInt32 W 4 (ghs_retcode m) else []) (GetHostResponse_default\<lparr>ghs_seq := ghs_seq m, ghs_modid := ghs_modid m, ghs_cmdid := ghs_cmdid m\<rparr>)
      (GetHostResponse_default\<lparr>ghs_seq := ghs_seq m, ghs_modid := ghs_modid m, ghs_cmdid := ghs_cmdid m, ghs_retcode := ghs_retcode m\<rparr>)"
    by (rule consumes_int32 [where upd = "\<lambda>v. ghs_retcode_update (\<lambda>_. v)"]) (simp_all add: GetHostResponse_switch_def field_is_def GetHostResponse_default_def)
  also
  have "?c (case ghs_host m of None \<Rightarrow> [] | Some s \<Rightarrow> w_WriteMessage W 5 (HostInfo_ByteSizeLong W s) (HostInfo_Serialize W s)) (GetHostResponse_default\<lparr>ghs_seq := ghs_seq m, ghs_modid := ghs_modid m, ghs_cmdid := ghs_cmdid m, ghs_retcode := ghs_retcode m\<rparr>)
      (GetHostResponse_default\<lparr>ghs_seq := ghs_seq m, ghs_modid := ghs_modid m, ghs_cmdid := ghs_cmdid m, ghs_retcode := ghs_retcode m, ghs_host := ghs_host m\<rparr>)"
    by (rule consumes_optional [where put = "\<lambda>l. ghs_host_update (\<lambda>_. l)", OF HostInfo_codec])
      (simp_all add: GetHostResponse_switch_def field_is_def GetHostResponse_default_def pb_host_def)
  finally show ?thesis
    using consumes_all [of "GetHostResponse_switch W" "GetHostResponse_Serialize W m"] unfolding GetHostResponse_Serialize_def GetHostResponse_MergePartial_def
    by (simp add: GetHostResponse_default_def)
qed

text \<open>\<open>ReportRequest\<close>\<close>

lemma ReportRequest_size: "ReportRequest_ByteSizeLong W m = length (ReportRequest_Serialize W m)"
  by (simp add: ReportRequest_ByteSizeLong_def ReportRequest_Serialize_def field_sizes message_size [OF HostInfo_codec] split: option.split)

lemma ReportRequest_bound: "ReportRequest_ByteSizeLong W m \<le> 61"
  unfolding ReportRequest_ByteSizeLong_def using scalar_bound(1) [of "rpq_modid m"] scalar_bound(1) [of "rpq_cmdid m"] scalar_bound(1) [of "rpq_retcode m"] host_bound [of "rpq_host m"] by linarith

lemma ReportRequest_parse: "ReportRequest_MergePartial W (ReportRequest_Serialize W m) ReportRequest_default = (True, m)"
proof -
  let ?c = "consumes W (ReportRequest_switch W)"
  have "?c (if rpq_modid m \<noteq> 0 then w_WriteInt32 W 1 (rpq_modid m) else []) ReportRequest_default
      (ReportRequest_default\<lparr>rpq_modid := rpq_modid m\<rparr>)"
    by (rule consumes_int32 [where upd = "\<lambda>v. rpq_modid_update (\<lambda>_. v)"]) (simp_all add: ReportRequest_switch_def field_is_def ReportRequest_default_def)
  also
  have "?c (if rpq_cmdid m \<noteq> 0 then w_WriteInt32 W 2 (rpq_cmdid m) else []) (ReportRequest_default\<lparr>rpq_modid := rpq_modid m\<rparr>)
      (ReportRequest_default\<lparr>rpq_modid := rpq_modid m, rpq_cmdid := rpq_cmdid m\<rparr>)"
    by (rule consumes_int32 [where upd = "\<lambda>v. rpq_cmdid_update (\<lambda>_. v)"]) (simp_all add: ReportRequest_switch_def field_is_def ReportRequest_default_def)
  also
  have "?c (case rpq_host m of None \<Rightarrow> [] | Some s \<Rightarrow> w_WriteMessage W 3 (HostInfo_ByteSizeLong W s) (HostInfo_Serialize W s)) (ReportRequest_default\<lparr>rpq_modid := rpq_modid m, rpq_cmdid := rpq_cmdid m\<rparr>)
      (ReportRequest_default\<lparr>rpq_modid := rpq_modid m, rpq_cmdid := rpq_cmdid m, rpq_host := rpq_host m\<rparr>)"
    by (rule consumes_optional [where put = "\<lambda>l. rpq_host_update (\<lambda>_. l)", OF HostInfo_codec])
      (simp_all add: ReportRequest_switch_def field_is_def ReportRequest_default_def pb_host_def)
  also
  have "?c (if rpq_retcode m \<noteq> 0 then w_WriteInt32 W 4 (rpq_retcode m) else []) (ReportRequest_default\<lparr>rpq_modid := rpq_modid m, rpq_cmdid := rpq_cmdid m, rpq_host := rpq_host m\<rparr>)
      (ReportRequest_default\<lparr>rpq_modid := rpq_modid m, rpq_cmdid := rpq_cmdid m, rpq_host := rpq_host m, rpq_retcode := rpq_retcode m\<rparr>)"
    by (rule consumes_int32 [where upd = "\<lambda>v. rpq_retcode_update (\<lambda>_. v)"]) (simp_all add: ReportRequest_switch_def field_is_def ReportRequest_default_def)
  finally show ?thesis
    using consumes_all [of "ReportRequest_switch W" "ReportRequest_Serialize W m"] unfolding ReportRequest_Serialize_def ReportRequest_MergePartial_def
    by (simp add: ReportRequest_default_def)
qed

text \<open>A response with \<open>k\<close> hosts.\<close>

lemma GetRouteResponse_bound: "GetRouteResponse_ByteSizeLong W m \<le> 22 + 28 * length (grs_host m)"
proof -
  have "length hs + sum_list (map (\<lambda>s. w_LengthDelimitedSize W (HostInfo_ByteSizeLong W s)) hs) \<le> 28 * length hs" for hs
  proof (induction hs)
    case (Cons h hs)
    then show ?case using host_bound [of "Some h"] by simp
  qed simp
  from this [of "grs_host m"] show ?thesis
    unfolding GetRouteResponse_ByteSizeLong_def using scalar_bound(1) [of "grs_modid m"] scalar_bound(1) [of "grs_cmdid m"] by linarith
qed

end

section \<open>Properties\<close>

text \<open>
  C20 [protobuf_roundtrip]. For every message type that Lars exchanges, over any library that fulfils the documented wire behaviour: parsing
  the serialised message succeeds and gives the same message, with every combination of zero (and therefore omitted) fields, negative numbers,
  repeated hosts and absent sub-messages; and the announced size, which the components allocate and send, is the number of bytes written.
\<close>

theorem protobuf_roundtrip:
  assumes "wire_ok W"
  shows "GetRouteRequest_Parse W (GetRouteRequest_Serialize W a) = (True, a) \<and> GetRouteRequest_ByteSizeLong W a = length (GetRouteRequest_Serialize W a) \<and>
    GetRouteResponse_Parse W (GetRouteResponse_Serialize W b) = (True, b) \<and> GetRouteResponse_ByteSizeLong W b = length (GetRouteResponse_Serialize W b) \<and>
    ReportStatusRequest_Parse W (ReportStatusRequest_Serialize W c) = (True, c) \<and>
    ReportStatusRequest_ByteSizeLong W c = length (ReportStatusRequest_Serialize W c) \<and>
    GetHostRequest_Parse W (GetHostRequest_Serialize W d) = (True, d) \<and> GetHostRequest_ByteSizeLong W d = length (GetHostRequest_Serialize W d) \<and>
    GetHostResponse_Parse W (GetHostResponse_Serialize W e) = (True, e) \<and> GetHostResponse_ByteSizeLong W e = length (GetHostResponse_Serialize W e) \<and>
    ReportRequest_Parse W (ReportRequest_Serialize W f) = (True, f) \<and> ReportRequest_ByteSizeLong W f = length (ReportRequest_Serialize W f)"
proof -
  have w: "wire_format W" by (rule wire_format.intro [OF assms])
  show ?thesis
    unfolding GetRouteRequest_Parse_def GetRouteResponse_Parse_def ReportStatusRequest_Parse_def GetHostRequest_Parse_def GetHostResponse_Parse_def
      ReportRequest_Parse_def
    using wire_format.GetRouteRequest_parse [OF w] wire_format.GetRouteRequest_size [OF w] wire_format.GetRouteResponse_parse [OF w]
      wire_format.GetRouteResponse_size [OF w] wire_format.ReportStatusRequest_parse [OF w] wire_format.ReportStatusRequest_size [OF w]
      wire_format.GetHostRequest_parse [OF w] wire_format.GetHostRequest_size [OF w] wire_format.GetHostResponse_parse [OF w]
      wire_format.GetHostResponse_size [OF w] wire_format.ReportRequest_parse [OF w] wire_format.ReportRequest_size [OF w]
    by blast
qed

theorem protobuf_roundtrip_witness:
  "GetHostResponse_Parse base128
     (GetHostResponse_Serialize base128
       \<lparr>ghs_seq = 7, ghs_modid = - 1, ghs_cmdid = 0, ghs_retcode = 3, ghs_host = Some \<lparr>pb_ip = 0, pb_port = 80\<rparr>\<rparr>) =
   (True, \<lparr>ghs_seq = 7, ghs_modid = - 1, ghs_cmdid = 0, ghs_retcode = 3, ghs_host = Some \<lparr>pb_ip = 0, pb_port = 80\<rparr>\<rparr>)"
  using protobuf_roundtrip [OF base128_ok] by blast

end
