(* ===== verification/Io_Buf.thy ===== *)
theory Io_Buf
  imports Lars_Prelude
begin

text \<open>
  The memory block of \<^verbatim>\<open>lars_reactor/include/io_buf.h\<close> and \<^verbatim>\<open>lars_reactor/src/io_buf.cpp\<close>:
  a fixed array of \<open>capacity\<close> chars of which the bytes at \<open>head .. head + length\<close> are pending.
  The array is a function from offsets to bytes; every \<open>memcpy\<close> and \<open>memmove\<close> checks its
  range against the capacity and faults outside it. The lemmas show that the operations
  implement a byte queue on the pending bytes \<open>io_bytes\<close>.
\<close>

section \<open>Model\<close>

record io_buf =
  io_capacity :: int
  io_length :: int
  io_head :: int
  io_data :: "nat \<Rightarrow> byte"
  io_next :: "ptr option"

definition mem_read :: "(nat \<Rightarrow> byte) \<Rightarrow> nat \<Rightarrow> nat \<Rightarrow> bytes" where
  "mem_read d off n = map d [off ..< off + n]"

definition mem_write :: "(nat \<Rightarrow> byte) \<Rightarrow> nat \<Rightarrow> bytes \<Rightarrow> (nat \<Rightarrow> byte)" where
  "mem_write d off bs = (\<lambda>i. if off \<le> i \<and> i < off + length bs then bs ! (i - off) else d i)"

definition in_range :: "io_buf \<Rightarrow> int \<Rightarrow> int \<Rightarrow> bool" where
  "in_range b off n \<longleftrightarrow> 0 \<le> off \<and> 0 \<le> n \<and> off + n \<le> io_capacity b"

text \<open>\<open>io_buf::io_buf(int size)\<close>; \<open>raw\<close> is what the fresh array happens to hold.\<close>

definition io_buf_new :: "int \<Rightarrow> (nat \<Rightarrow> byte) \<Rightarrow> io_buf" where
  "io_buf_new sz raw =
     \<lparr>io_capacity = sz, io_length = 0, io_head = 0, io_data = raw, io_next = None\<rparr>"

definition io_clear :: "io_buf \<Rightarrow> io_buf" where
  "io_clear b = b\<lparr>io_length := 0, io_head := 0\<rparr>"

definition io_pop :: "int \<Rightarrow> io_buf \<Rightarrow> io_buf" where
  "io_pop len b = b\<lparr>io_length := io_length b - len, io_head := io_head b + len\<rparr>"

definition io_adjust :: "io_buf \<Rightarrow> io_buf res" where
  "io_adjust b =
     (if io_head b \<noteq> 0 then
        if io_length b \<noteq> 0 then
          bindR (ensure (in_range b (io_head b) (io_length b)) Out_Of_Bounds) (\<lambda>_.
          Inr (b\<lparr>io_data := mem_write (io_data b) 0
                   (mem_read (io_data b) (nat (io_head b)) (nat (io_length b))), io_head := 0\<rparr>))
        else Inr (b\<lparr>io_head := 0\<rparr>)
      else Inr b)"

text \<open>\<open>self->copy(other)\<close>\<close>

definition io_copy :: "io_buf \<Rightarrow> io_buf \<Rightarrow> io_buf res" where
  "io_copy self other =
     bindR (ensure (in_range other (io_head other) (io_length other)
                    \<and> in_range self 0 (io_length other)) Out_Of_Bounds) (\<lambda>_.
     Inr (self\<lparr>io_data := mem_write (io_data self) 0
                 (mem_read (io_data other) (nat (io_head other)) (nat (io_length other))),
               io_head := 0, io_length := io_length other\<rparr>))"

section \<open>Pending bytes\<close>

definition io_bytes :: "io_buf \<Rightarrow> bytes" where
  "io_bytes b = mem_read (io_data b) (nat (io_head b)) (nat (io_length b))"

definition io_wf :: "io_buf \<Rightarrow> bool" where
  "io_wf b \<longleftrightarrow> in_range b (io_head b) (io_length b)"

named_theorems io_simps \<open>facts about io_buf operations\<close>

lemma length_mem_read [simp]: "length (mem_read d off n) = n"
  by (simp add: mem_read_def)

lemma mem_read_0 [simp]: "mem_read d off 0 = []"
  by (simp add: mem_read_def)

lemma mem_read_nth [simp]: "i < n \<Longrightarrow> mem_read d off n ! i = d (off + i)"
  by (simp add: mem_read_def)

lemma mem_read_drop: "m \<le> n \<Longrightarrow> drop m (mem_read d off n) = mem_read d (off + m) (n - m)"
  by (rule nth_equalityI) (auto simp: add.assoc)

lemma mem_read_write_same [simp]: "mem_read (mem_write d off bs) off (length bs) = bs"
  by (rule nth_equalityI) (auto simp: mem_write_def)

lemma mem_read_write_append:
  "mem_read (mem_write d (off + n) bs) off (n + length bs) = mem_read d off n @ bs"
  by (rule nth_equalityI) (auto simp: mem_write_def nth_append)

lemma mem_read_write_below: "off + n \<le> off' \<Longrightarrow> mem_read (mem_write d off' bs) off n = mem_read d off n"
  by (rule nth_equalityI) (auto simp: mem_write_def)

lemma io_wf_new [io_simps]: "0 \<le> sz \<Longrightarrow> io_wf (io_buf_new sz raw)"
  by (simp add: io_wf_def in_range_def io_buf_new_def)

lemma io_bytes_new [io_simps]: "io_bytes (io_buf_new sz raw) = []"
  by (simp add: io_bytes_def io_buf_new_def)

lemma length_io_bytes [io_simps]: "length (io_bytes b) = nat (io_length b)"
  by (simp add: io_bytes_def)

lemma io_wf_pop: "io_wf b \<Longrightarrow> 0 \<le> len \<Longrightarrow> len \<le> io_length b \<Longrightarrow> io_wf (io_pop len b)"
  by (simp add: io_wf_def in_range_def io_pop_def)

lemma io_bytes_pop:
  "io_wf b \<Longrightarrow> 0 \<le> len \<Longrightarrow> len \<le> io_length b \<Longrightarrow> io_bytes (io_pop len b) = drop (nat len) (io_bytes b)"
  by (simp add: io_bytes_def io_pop_def mem_read_drop io_wf_def in_range_def nat_add_distrib nat_diff_distrib)

lemma io_bytes_prefix: "0 \<le> io_length b \<Longrightarrow> io_head b = 0 \<Longrightarrow>
    io_bytes b = mem_read (io_data b) 0 (nat (io_length b))"
  by (simp add: io_bytes_def)

text \<open>
  \<open>adjust\<close> never leaves the array and moves the pending bytes to the front unchanged.
\<close>

lemma io_adjust_ok:
  assumes "io_wf b"
  obtains b' where "io_adjust b = Inr b'" "io_bytes b' = io_bytes b" "io_head b' = 0" "io_wf b'"
    "io_length b' = io_length b" "io_capacity b' = io_capacity b" "io_next b' = io_next b"
proof -
  let ?bs = "mem_read (io_data b) (nat (io_head b)) (nat (io_length b))"
  have w: "mem_read (mem_write (io_data b) 0 ?bs) 0 (nat (io_length b)) = ?bs"
    using mem_read_write_same [of "io_data b" 0 ?bs] by simp
  show ?thesis
  proof (cases "io_head b = 0 \<or> io_length b = 0")
    case True
    with assms show ?thesis
      by (intro that [of "b\<lparr>io_head := 0\<rparr>"])
        (auto simp: io_adjust_def io_bytes_def io_wf_def in_range_def)
  next
    case False
    with assms w show ?thesis
      by (intro that [of "b\<lparr>io_data := mem_write (io_data b) 0 ?bs, io_head := 0\<rparr>"])
        (auto simp: io_adjust_def io_bytes_def io_wf_def in_range_def)
  qed
qed

lemma io_copy_ok:
  assumes "io_wf other" and "io_length other \<le> io_capacity self"
  obtains b' where "io_copy self other = Inr b'" "io_bytes b' = io_bytes other" "io_head b' = 0"
    "io_wf b'" "io_length b' = io_length other" "io_capacity b' = io_capacity self" "io_next b' = io_next self"
proof -
  let ?bs = "mem_read (io_data other) (nat (io_head other)) (nat (io_length other))"
  have w: "mem_read (mem_write (io_data self) 0 ?bs) 0 (nat (io_length other)) = ?bs"
    using mem_read_write_same [of "io_data self" 0 ?bs] by simp
  from assms w show ?thesis
    by (intro that [of "self\<lparr>io_data := mem_write (io_data self) 0 ?bs, io_head := 0,
            io_length := io_length other\<rparr>"])
      (auto simp: io_copy_def io_bytes_def io_wf_def in_range_def)
qed

end
