(* ===== verification/Buf_Pool.thy ===== *)
theory Buf_Pool
  imports Io_Buf
begin

text \<open>
  The buffer pool of \<^verbatim>\<open>lars_reactor/include/buf_pool.h\<close> and \<^verbatim>\<open>lars_reactor/src/buf_pool.cpp\<close>.
  The \<open>io_buf\<close> objects live in an explicit heap; \<open>_pool\<close> maps each capacity to the head of
  a singly linked free list threaded through the \<open>next\<close> fields, as in the source. The two
  halves of the theory are the operations and the pool invariant; the contract \<open>allocator\<close>
  is what \<^verbatim>\<open>reactor_buf\<close> relies on, and the pool is an instance of it.
\<close>

section \<open>Model\<close>

datatype mem_cap = m4K | m16K | m64K | m256K | m1M | m4M | m8M

fun cap_of :: "mem_cap \<Rightarrow> int" where
  "cap_of m4K = 4096"
| "cap_of m16K = 16384"
| "cap_of m64K = 65536"
| "cap_of m256K = 262144"
| "cap_of m1M = 1048576"
| "cap_of m4M = 4194304"
| "cap_of m8M = 8388608"

definition MEM_LIMIT :: nat where
  "MEM_LIMIT = 5 * 1024 * 1024"

text \<open>
  \<open>bp_heap\<close>, \<open>bp_fresh\<close> and \<open>bp_raw\<close> stand for the C++ heap: the live \<open>io_buf\<close> objects, the
  next address \<open>new\<close> returns and the indeterminate contents of a fresh array.
\<close>

record buf_pool =
  bp_pool :: "int \<Rightarrow> ptr option option"
  bp_total_mem :: u64
  bp_heap :: "ptr \<Rightarrow> io_buf option"
  bp_fresh :: ptr
  bp_raw :: "ptr \<Rightarrow> nat \<Rightarrow> byte"

definition new_io_buf :: "int \<Rightarrow> buf_pool \<Rightarrow> ptr \<times> buf_pool" where
  "new_io_buf cap st =
     (bp_fresh st,
      st\<lparr>bp_heap := (bp_heap st)(bp_fresh st \<mapsto> io_buf_new cap (bp_raw st (bp_fresh st))),
         bp_fresh := Suc (bp_fresh st)\<rparr>)"

text \<open>The loop of \<open>make_io_buf_list\<close>: \<open>k\<close> further nodes are appended behind \<open>prev\<close>.\<close>

fun extend_list :: "nat \<Rightarrow> int \<Rightarrow> ptr \<Rightarrow> buf_pool \<Rightarrow> (ptr \<times> buf_pool) res" where
  "extend_list 0 cap prev st = Inr (prev, st)"
| "extend_list (Suc k) cap prev st =
     (let (p, st1) = new_io_buf cap st in
      bindR (deref (bp_heap st1) prev) (\<lambda>b.
      extend_list k cap p (st1\<lparr>bp_heap := (bp_heap st1)(prev \<mapsto> b\<lparr>io_next := Some p\<rparr>)\<rparr>)))"

definition make_io_buf_list :: "int \<Rightarrow> int \<Rightarrow> buf_pool \<Rightarrow> buf_pool res" where
  "make_io_buf_list cap num st =
     (let (p, st1) = new_io_buf cap st;
          st2 = st1\<lparr>bp_pool := (bp_pool st1)(cap \<mapsto> Some p)\<rparr> in
      bindR (extend_list (nat (num - 1)) cap p st2) (\<lambda>(prev, st3).
      bindR (deref (bp_heap st3) prev) (\<lambda>b.
      Inr (st3\<lparr>bp_heap := (bp_heap st3)(prev \<mapsto> b\<lparr>io_next := None\<rparr>),
               bp_total_mem := bp_total_mem st3 + word_of_int (cap div 1024 * num)\<rparr>))))"

definition buf_pool_new :: "(ptr \<Rightarrow> nat \<Rightarrow> byte) \<Rightarrow> buf_pool res" where
  "buf_pool_new raw =
     bindR (make_io_buf_list (cap_of m4K) 5000
        \<lparr>bp_pool = Map.empty, bp_total_mem = 0, bp_heap = Map.empty, bp_fresh = 0, bp_raw = raw\<rparr>) (\<lambda>st.
     bindR (make_io_buf_list (cap_of m16K) 1000 st) (\<lambda>st.
     bindR (make_io_buf_list (cap_of m64K) 500 st) (\<lambda>st.
     bindR (make_io_buf_list (cap_of m256K) 200 st) (\<lambda>st.
     bindR (make_io_buf_list (cap_of m1M) 50 st) (\<lambda>st.
     bindR (make_io_buf_list (cap_of m4M) 20 st) (\<lambda>st.
     make_io_buf_list (cap_of m8M) 10 st))))))"

text \<open>The cascade of comparisons at the head of \<open>alloc_buf(int N)\<close>.\<close>

definition pick_index :: "int \<Rightarrow> mem_cap option" where
  "pick_index N =
     (if N \<le> cap_of m4K then Some m4K
      else if N \<le> cap_of m16K then Some m16K
      else if N \<le> cap_of m64K then Some m64K
      else if N \<le> cap_of m256K then Some m256K
      else if N \<le> cap_of m1M then Some m1M
      else if N \<le> cap_of m4M then Some m4M
      else if N \<le> cap_of m8M then Some m8M
      else None)"

text \<open>\<open>_pool[index]\<close>: \<open>operator[]\<close> inserts a null head when the key is missing.\<close>

definition pool_slot :: "int \<Rightarrow> buf_pool \<Rightarrow> ptr option \<times> buf_pool" where
  "pool_slot index st =
     (case bp_pool st index of
        Some q \<Rightarrow> (q, st)
      | None \<Rightarrow> (None, st\<lparr>bp_pool := (bp_pool st)(index \<mapsto> None)\<rparr>))"

definition alloc_buf :: "int \<Rightarrow> buf_pool \<Rightarrow> (ptr option \<times> buf_pool) res" where
  "alloc_buf N st =
     (case pick_index N of
        None \<Rightarrow> Inr (None, st)
      | Some c \<Rightarrow>
         (let index = cap_of c; (slot, st) = pool_slot index st in
          case slot of
            None \<Rightarrow>
              if MEM_LIMIT \<le> unat (bp_total_mem st + word_of_int (index div 1024)) then Inl Exit_1
              else (let (p, st1) = new_io_buf index st in
                    Inr (Some p, st1\<lparr>bp_total_mem := bp_total_mem st1 + word_of_int (index div 1024)\<rparr>))
          | Some target \<Rightarrow>
              bindR (deref (bp_heap st) target) (\<lambda>b.
              Inr (Some target,
                   st\<lparr>bp_pool := (bp_pool st)(index \<mapsto> io_next b),
                      bp_heap := (bp_heap st)(target \<mapsto> b\<lparr>io_next := None\<rparr>)\<rparr>))))"

definition alloc_buf_default :: "buf_pool \<Rightarrow> (ptr option \<times> buf_pool) res" where
  "alloc_buf_default st = alloc_buf (cap_of m4K) st"

definition revert :: "ptr \<Rightarrow> buf_pool \<Rightarrow> buf_pool res" where
  "revert buffer st =
     bindR (deref (bp_heap st) buffer) (\<lambda>b.
     (let index = io_capacity b; b = b\<lparr>io_length := 0, io_head := 0\<rparr> in
      case bp_pool st index of
        None \<Rightarrow> Inl Assert_Failed
      | Some q \<Rightarrow> Inr (st\<lparr>bp_heap := (bp_heap st)(buffer \<mapsto> b\<lparr>io_next := q\<rparr>),
                         bp_pool := (bp_pool st)(index \<mapsto> Some buffer)\<rparr>)))"

text \<open>The pool's capacity classes are ordered by their size.\<close>

instantiation mem_cap :: linorder
begin

definition less_eq_mem_cap :: "mem_cap \<Rightarrow> mem_cap \<Rightarrow> bool" where
  "less_eq_mem_cap c d \<longleftrightarrow> cap_of c \<le> cap_of d"

definition less_mem_cap :: "mem_cap \<Rightarrow> mem_cap \<Rightarrow> bool" where
  "less_mem_cap c d \<longleftrightarrow> cap_of c < cap_of d"

instance
proof
  fix x y :: mem_cap
  show "x \<le> y \<Longrightarrow> y \<le> x \<Longrightarrow> x = y"
    by (cases x; cases y) (simp_all add: less_eq_mem_cap_def)
qed (auto simp: less_eq_mem_cap_def less_mem_cap_def)

end

section \<open>Free lists, ownership and the pool invariant\<close>

primrec chain :: "(ptr \<Rightarrow> io_buf option) \<Rightarrow> ptr option \<Rightarrow> ptr list \<Rightarrow> bool" where
  "chain h q [] \<longleftrightarrow> q = None"
| "chain h q (p # ps) \<longleftrightarrow> q = Some p \<and> (case h p of None \<Rightarrow> False | Some b \<Rightarrow> chain h (io_next b) ps)"

definition free_of :: "buf_pool \<Rightarrow> mem_cap \<Rightarrow> ptr set" where
  "free_of st c = {p. \<exists>q ps. bp_pool st (cap_of c) = Some q \<and> chain (bp_heap st) q ps \<and> p \<in> set ps}"

definition owned :: "buf_pool \<Rightarrow> ptr set" where
  "owned st = dom (bp_heap st) - (\<Union>c. free_of st c)"

definition heap_kb :: "(ptr \<Rightarrow> io_buf option) \<Rightarrow> nat" where
  "heap_kb h = (\<Sum>p \<in> dom h. case h p of None \<Rightarrow> 0 | Some b \<Rightarrow> nat (io_capacity b div 1024))"

definition free_cell :: "mem_cap \<Rightarrow> io_buf \<Rightarrow> bool" where
  "free_cell c b \<longleftrightarrow> io_capacity b = cap_of c \<and> io_length b = 0 \<and> io_head b = 0"

definition pool_lists :: "mem_cap set \<Rightarrow> (mem_cap \<Rightarrow> ptr list) \<Rightarrow> buf_pool \<Rightarrow> bool" where
  "pool_lists D L st \<longleftrightarrow>
     (\<forall>c \<in> D. (\<exists>q. bp_pool st (cap_of c) = Some q \<and> chain (bp_heap st) q (L c)) \<and>
              (\<forall>p \<in> set (L c). \<exists>b. bp_heap st p = Some b \<and> free_cell c b))"

definition heap_ok :: "buf_pool \<Rightarrow> bool" where
  "heap_ok st \<longleftrightarrow> (\<forall>p b. bp_heap st p = Some b \<longrightarrow> p < bp_fresh st \<and> (\<exists>c. io_capacity b = cap_of c))"

definition mem_ok :: "buf_pool \<Rightarrow> bool" where
  "mem_ok st \<longleftrightarrow> unat (bp_total_mem st) = heap_kb (bp_heap st) \<and> heap_kb (bp_heap st) < MEM_LIMIT"

definition pool_inv :: "buf_pool \<Rightarrow> bool" where
  "pool_inv st \<longleftrightarrow> (\<exists>L. pool_lists UNIV L st) \<and> heap_ok st \<and> mem_ok st"

lemma cap_of_inject [simp]: "cap_of c = cap_of d \<longleftrightarrow> c = d"
  by (cases c; cases d) simp_all

lemma cap_of_pos [simp]: "0 < cap_of c"
  by (cases c) simp_all

lemma cap_of_bounds: "4096 \<le> cap_of c" "cap_of c \<le> 8388608"
  by (cases c; simp)+

lemma cap_of_kb: "4 \<le> cap_of c div 1024" "cap_of c div 1024 \<le> 8192"
  by (cases c; simp)+

lemma chain_unique: "chain h q ps \<Longrightarrow> chain h q qs \<Longrightarrow> ps = qs"
proof (induction ps arbitrary: q qs)
  case Nil
  then show ?case by (cases qs) auto
next
  case (Cons p ps)
  then show ?case by (cases qs) (auto split: option.splits)
qed

lemma chain_cong: "(\<And>p. p \<in> set ps \<Longrightarrow> h p = h' p) \<Longrightarrow> chain h q ps \<longleftrightarrow> chain h' q ps"
  by (induction ps arbitrary: q) (auto split: option.splits)

lemma chain_upd [simp]: "p \<notin> set ps \<Longrightarrow> chain (h(p := x)) q ps \<longleftrightarrow> chain h q ps"
  by (rule chain_cong) auto

lemma chain_suffix: "chain h q (xs @ p # ys) \<Longrightarrow> chain h (Some p) (p # ys)"
proof (induction xs arbitrary: q)
  case (Cons a xs)
  from Cons.prems obtain b :: io_buf where "chain h (io_next b) (xs @ p # ys)"
    by (auto split: option.splits)
  then show ?case by (rule Cons.IH)
qed (auto split: option.splits)

lemma chain_distinct: "chain h q ps \<Longrightarrow> distinct ps"
proof (induction ps arbitrary: q)
  case (Cons p ps)
  have "p \<notin> set ps"
  proof
    assume "p \<in> set ps"
    then obtain xs ys where ps: "ps = xs @ p # ys" by (meson split_list)
    with Cons.prems have "chain h q ((p # xs) @ p # ys)" by simp
    then have "chain h (Some p) (p # ys)" by (rule chain_suffix)
    moreover from Cons.prems have "chain h (Some p) (p # ps)" by (auto split: option.splits)
    ultimately have "p # ys = p # ps" by (rule chain_unique)
    then show False by (simp add: ps)
  qed
  with Cons show ?case by (auto split: option.splits)
qed simp

lemma chain_snoc:
  "chain h q (ps @ [p]) \<Longrightarrow> h p = Some b \<Longrightarrow> r \<notin> set (ps @ [p]) \<Longrightarrow> h r = Some b' \<Longrightarrow> io_next b' = None \<Longrightarrow>
   chain (h(p \<mapsto> b\<lparr>io_next := Some r\<rparr>)) q (ps @ [p, r])"
proof (induction ps arbitrary: q)
  case Nil
  then show ?case by auto
next
  case (Cons a ps)
  from Cons.prems(1) have "distinct ((a # ps) @ [p])" by (rule chain_distinct)
  with Cons show ?case by (auto split: option.splits)
qed

lemma pool_listsD:
  assumes "pool_lists D L st" and "c \<in> D"
  obtains q where "bp_pool st (cap_of c) = Some q" "chain (bp_heap st) q (L c)" "distinct (L c)"
  using assms chain_distinct by (fastforce simp: pool_lists_def)

lemma pool_lists_cell:
  "pool_lists D L st \<Longrightarrow> c \<in> D \<Longrightarrow> p \<in> set (L c) \<Longrightarrow> \<exists>b. bp_heap st p = Some b \<and> free_cell c b"
  by (auto simp: pool_lists_def)

lemma pool_lists_disjoint:
  "pool_lists D L st \<Longrightarrow> c \<in> D \<Longrightarrow> d \<in> D \<Longrightarrow> p \<in> set (L c) \<Longrightarrow> p \<in> set (L d) \<Longrightarrow> c = d"
  using pool_lists_cell [of D L st c p] pool_lists_cell [of D L st d p] by (auto simp: free_cell_def)

lemma free_of_lists: "pool_lists UNIV L st \<Longrightarrow> free_of st c = set (L c)"
  by (auto simp: free_of_def elim!: pool_listsD [where c = c] dest: chain_unique)

lemma owned_lists: "pool_lists UNIV L st \<Longrightarrow> owned st = dom (bp_heap st) - (\<Union>c. set (L c))"
  by (simp add: owned_def free_of_lists)

lemma finite_heap: "heap_ok st \<Longrightarrow> finite (dom (bp_heap st))"
  by (rule finite_subset [of _ "{..< bp_fresh st}"]) (auto simp: heap_ok_def)

lemma heap_kb_insert:
  "finite (dom h) \<Longrightarrow> h p = None \<Longrightarrow> heap_kb (h(p \<mapsto> b)) = heap_kb h + nat (io_capacity b div 1024)"
proof -
  assume f: "finite (dom h)" and n: "h p = None"
  have "(\<Sum>q \<in> dom h. case (h(p \<mapsto> b)) q of None \<Rightarrow> 0 | Some b \<Rightarrow> nat (io_capacity b div 1024)) = heap_kb h"
    unfolding heap_kb_def using n by (intro sum.cong) auto
  with f n show ?thesis by (simp add: heap_kb_def domIff)
qed

lemma heap_kb_update:
  "h p = Some b \<Longrightarrow> io_capacity b' = io_capacity b \<Longrightarrow> heap_kb (h(p \<mapsto> b')) = heap_kb h"
proof -
  assume "h p = Some b" "io_capacity b' = io_capacity b"
  moreover from this have "dom (h(p \<mapsto> b')) = dom h" by auto
  ultimately show ?thesis
    unfolding heap_kb_def by (intro sum.cong) (auto split: option.splits)
qed

section \<open>Every pool operation keeps the invariant\<close>

lemma pick_index_eq_Some_iff:
  "pick_index N = Some c \<longleftrightarrow> N \<le> cap_of c \<and> (\<forall>d. N \<le> cap_of d \<longrightarrow> c \<le> d)"
proof -
  have "\<And>P. (\<forall>d. P d) \<longleftrightarrow> P m4K \<and> P m16K \<and> P m64K \<and> P m256K \<and> P m1M \<and> P m4M \<and> P m8M"
    by (metis mem_cap.exhaust)
  then show ?thesis
    by (cases c) (auto simp: pick_index_def less_eq_mem_cap_def)
qed

lemma pick_index_eq_None_iff: "pick_index N = None \<longleftrightarrow> 8388608 < N"
  by (auto simp: pick_index_def)

lemma pool_slot_present: "bp_pool st i = Some q \<Longrightarrow> pool_slot i st = (q, st)"
  by (simp add: pool_slot_def)

lemma alloc_buf_cases:
  assumes "pool_lists UNIV L st" and "pick_index N = Some c"
  shows "alloc_buf N st =
     (case L c of
        [] \<Rightarrow>
          if MEM_LIMIT \<le> unat (bp_total_mem st + word_of_int (cap_of c div 1024)) then Inl Exit_1
          else Inr (Some (bp_fresh st),
             st\<lparr>bp_heap := (bp_heap st)(bp_fresh st \<mapsto> io_buf_new (cap_of c) (bp_raw st (bp_fresh st))),
                bp_fresh := Suc (bp_fresh st),
                bp_total_mem := bp_total_mem st + word_of_int (cap_of c div 1024)\<rparr>)
      | p # ps \<Rightarrow>
          Inr (Some p,
             st\<lparr>bp_pool := (bp_pool st)(cap_of c \<mapsto> (case ps of [] \<Rightarrow> None | r # _ \<Rightarrow> Some r)),
                bp_heap := (bp_heap st)(p \<mapsto> (the (bp_heap st p))\<lparr>io_next := None\<rparr>)\<rparr>))"
proof -
  from assms(1) obtain q where q: "bp_pool st (cap_of c) = Some q" "chain (bp_heap st) q (L c)"
    by (rule pool_listsD) auto
  then show ?thesis
  proof (cases "L c")
    case Nil
    with q assms(2) show ?thesis
      by (simp add: alloc_buf_def pool_slot_present new_io_buf_def Let_def)
  next
    case (Cons p ps)
    with q obtain b where b: "q = Some p" "bp_heap st p = Some b" "chain (bp_heap st) (io_next b) ps"
      by (auto split: option.splits)
    then have "io_next b = (case ps of [] \<Rightarrow> None | r # _ \<Rightarrow> Some r)"
      by (cases ps) auto
    with Cons q b assms(2) show ?thesis
      by (simp add: alloc_buf_def pool_slot_present Let_def)
  qed
qed

text \<open>
  What a successful allocation gives: a block that was not in use, of the smallest class
  that fits, empty; every block in use before is untouched.
\<close>

definition alloc_post :: "mem_cap \<Rightarrow> ptr \<Rightarrow> buf_pool \<Rightarrow> buf_pool \<Rightarrow> bool" where
  "alloc_post c p st st' \<longleftrightarrow>
     pool_inv st' \<and> p \<notin> owned st \<and> owned st' = insert p (owned st) \<and>
     (\<exists>b. bp_heap st' p = Some b \<and> free_cell c b) \<and>
     (\<forall>q \<in> owned st. bp_heap st' q = bp_heap st q)"

lemma unat_add_kb:
  "mem_ok st \<Longrightarrow> unat (bp_total_mem st + word_of_int (cap_of c div 1024))
     = unat (bp_total_mem st) + nat (cap_of c div 1024)"
proof -
  assume m: "mem_ok st"
  have u: "unat (word_of_int (cap_of c div 1024) :: u64) = nat (cap_of c div 1024)"
    by (cases c) simp_all
  have "unat (bp_total_mem st) + nat (cap_of c div 1024) < 2 ^ 64"
    using m cap_of_kb(2) [of c] by (auto simp: mem_ok_def MEM_LIMIT_def)
  then show ?thesis
    using u by (simp add: unat_word_ariths)
qed

lemma alloc_buf_fresh:
  assumes "pool_lists UNIV L st" "heap_ok st" "mem_ok st"
    and "unat (bp_total_mem st) + nat (cap_of c div 1024) < MEM_LIMIT"
    and st': "st' = st\<lparr>bp_heap := (bp_heap st)(bp_fresh st \<mapsto> io_buf_new (cap_of c) raw),
                bp_fresh := Suc (bp_fresh st),
                bp_total_mem := bp_total_mem st + word_of_int (cap_of c div 1024)\<rparr>"
  shows "alloc_post c (bp_fresh st) st st'"
proof -
  let ?p = "bp_fresh st"
  have new: "bp_heap st ?p = None"
    using assms(2) by (cases "bp_heap st ?p") (auto simp: heap_ok_def)
  have nin: "?p \<notin> set (L d)" for d
    using pool_lists_cell [OF assms(1), of d ?p] new by auto
  have "pool_lists UNIV L st'"
    unfolding pool_lists_def
  proof (intro ballI conjI)
    fix d :: mem_cap
    from assms(1) obtain q where "bp_pool st (cap_of d) = Some q" "chain (bp_heap st) q (L d)"
      by (rule pool_listsD) auto
    with nin show "\<exists>q. bp_pool st' (cap_of d) = Some q \<and> chain (bp_heap st') q (L d)"
      by (simp add: st')
  next
    fix d :: mem_cap and r
    assume "r \<in> set (L d)"
    with nin [of d] have "r \<noteq> ?p" by blast
    with \<open>r \<in> set (L d)\<close> show "\<exists>b. bp_heap st' r = Some b \<and> free_cell d b"
      using pool_lists_cell [OF assms(1)] by (simp add: st')
  qed
  moreover have "heap_ok st'"
    using assms(2) by (fastforce simp: heap_ok_def st' io_buf_new_def)
  moreover have "mem_ok st'"
    using assms(3,4) heap_kb_insert [OF finite_heap [OF assms(2)] new]
    by (simp add: mem_ok_def st' unat_add_kb [OF assms(3)] io_buf_new_def)
  ultimately have "pool_inv st'" by (auto simp: pool_inv_def)
  moreover have "owned st' = insert ?p (owned st)"
    unfolding owned_lists [OF assms(1)] owned_lists [OF \<open>pool_lists UNIV L st'\<close>]
    using nin by (auto simp: st')
  moreover have "?p \<notin> owned st"
    using new by (auto simp: owned_def)
  moreover have "\<forall>q \<in> owned st. bp_heap st' q = bp_heap st q"
    using new by (auto simp: st' owned_def)
  ultimately show ?thesis
    by (simp add: alloc_post_def st' free_cell_def io_buf_new_def)
qed

lemma alloc_buf_reuse:
  assumes "pool_lists UNIV L st" "heap_ok st" "mem_ok st" and L: "L c = p # ps"
    and st': "st' = st\<lparr>bp_pool := (bp_pool st)(cap_of c \<mapsto> (case ps of [] \<Rightarrow> None | r # _ \<Rightarrow> Some r)),
                bp_heap := (bp_heap st)(p \<mapsto> (the (bp_heap st p))\<lparr>io_next := None\<rparr>)\<rparr>"
  shows "alloc_post c p st st'"
proof -
  from pool_lists_cell [OF assms(1), of c p] L obtain b where b: "bp_heap st p = Some b" "free_cell c b"
    by auto
  from assms(1) obtain q where q: "bp_pool st (cap_of c) = Some q" "chain (bp_heap st) q (L c)" "distinct (L c)"
    by (rule pool_listsD) auto
  have ch: "chain (bp_heap st) (case ps of [] \<Rightarrow> None | r # _ \<Rightarrow> Some r) ps"
    using q(2) L b by (cases ps) auto
  have other: "p \<notin> set (L d)" if "d \<noteq> c" for d
    using pool_lists_disjoint [OF assms(1), of c d p] L that by auto
  have lists: "pool_lists UNIV (L(c := ps)) st'"
    unfolding pool_lists_def
  proof (intro ballI conjI)
    fix d :: mem_cap
    show "\<exists>q. bp_pool st' (cap_of d) = Some q \<and> chain (bp_heap st') q ((L(c := ps)) d)"
    proof (cases "d = c")
      case True
      with ch q(3) L show ?thesis by (simp add: st')
    next
      case False
      from assms(1) obtain q' where "bp_pool st (cap_of d) = Some q'" "chain (bp_heap st) q' (L d)"
        by (rule pool_listsD) auto
      with False other show ?thesis by (simp add: st')
    qed
  next
    fix d :: mem_cap and r
    assume r: "r \<in> set ((L(c := ps)) d)"
    then have "r \<in> set (L d)" and "r \<noteq> p"
      using L q(3) other by (auto split: if_splits)
    then show "\<exists>b. bp_heap st' r = Some b \<and> free_cell d b"
      using pool_lists_cell [OF assms(1)] by (simp add: st')
  qed
  moreover have "heap_ok st'"
    using assms(2) b by (auto simp: heap_ok_def st')
  moreover have "mem_ok st'"
    using assms(3) b by (simp add: mem_ok_def st' heap_kb_update)
  ultimately have "pool_inv st'" by (auto simp: pool_inv_def)
  moreover have "owned st' = insert p (owned st)"
    unfolding owned_lists [OF assms(1)] owned_lists [OF lists]
    using L q(3) other b by (auto simp: st' split: if_splits) (metis set_ConsD)
  moreover have "p \<in> set (L c)" using L by simp
  then have "p \<notin> owned st" by (auto simp: owned_lists [OF assms(1)])
  moreover from this have "\<forall>q \<in> owned st. bp_heap st' q = bp_heap st q"
    by (auto simp: st')
  ultimately show ?thesis
    using b by (simp add: alloc_post_def st' free_cell_def)
qed

lemma alloc_buf_inv:
  assumes "pool_inv st" and "alloc_buf N st = Inr (Some p, st')"
  shows "\<exists>c. pick_index N = Some c \<and> alloc_post c p st st'"
proof -
  from assms(1) obtain L where L: "pool_lists UNIV L st" "heap_ok st" "mem_ok st"
    by (auto simp: pool_inv_def)
  from assms(2) obtain c where c: "pick_index N = Some c"
    by (auto simp: alloc_buf_def split: option.splits)
  show ?thesis
  proof (cases "L c")
    case Nil
    with assms(2) alloc_buf_cases [OF L(1) c] show ?thesis
      using c alloc_buf_fresh [OF L] unat_add_kb [OF L(3)]
      by (auto split: if_splits)
  next
    case (Cons r rs)
    with assms(2) alloc_buf_cases [OF L(1) c] show ?thesis
      using c alloc_buf_reuse [OF L Cons] by auto
  qed
qed

lemma alloc_buf_None:
  "pool_inv st \<Longrightarrow> alloc_buf N st = Inr (None, st') \<Longrightarrow> st' = st \<and> 8388608 < N"
proof -
  assume "pool_inv st" and a: "alloc_buf N st = Inr (None, st')"
  then obtain L where L: "pool_lists UNIV L st" by (auto simp: pool_inv_def)
  show ?thesis
  proof (cases "pick_index N")
    case None
    with a show ?thesis by (auto simp: alloc_buf_def pick_index_eq_None_iff)
  next
    case (Some c)
    with a alloc_buf_cases [OF L Some] show ?thesis by (auto split: list.splits if_splits)
  qed
qed

lemma alloc_buf_fault:
  assumes "pool_inv st" and "alloc_buf N st = Inl e"
  shows "e = Exit_1 \<and> (\<exists>c. pick_index N = Some c \<and> free_of st c = {} \<and>
           MEM_LIMIT \<le> unat (bp_total_mem st) + nat (cap_of c div 1024))"
proof -
  from assms(1) obtain L where L: "pool_lists UNIV L st" "mem_ok st" by (auto simp: pool_inv_def)
  from assms(2) obtain c where c: "pick_index N = Some c"
    by (auto simp: alloc_buf_def split: option.splits)
  with assms(2) alloc_buf_cases [OF L(1) c] show ?thesis
    by (auto simp: free_of_lists [OF L(1)] unat_add_kb [OF L(2)] split: list.splits if_splits)
qed

definition revert_post :: "ptr \<Rightarrow> buf_pool \<Rightarrow> buf_pool \<Rightarrow> bool" where
  "revert_post p st st' \<longleftrightarrow>
     pool_inv st' \<and> owned st' = owned st - {p} \<and> (\<forall>q \<in> owned st - {p}. bp_heap st' q = bp_heap st q)"

lemma revert_inv:
  assumes "pool_inv st" and p: "p \<in> owned st"
  shows "\<exists>st'. revert p st = Inr st' \<and> revert_post p st st'"
proof -
  from assms(1) obtain L where L: "pool_lists UNIV L st" "heap_ok st" "mem_ok st"
    by (auto simp: pool_inv_def)
  from p obtain b where b: "bp_heap st p = Some b" by (auto simp: owned_def)
  from L(2) b obtain c where c: "io_capacity b = cap_of c" by (auto simp: heap_ok_def)
  from L(1) obtain q where q: "bp_pool st (cap_of c) = Some q" "chain (bp_heap st) q (L c)"
    by (rule pool_listsD) auto
  let ?b = "b\<lparr>io_length := 0, io_head := 0, io_next := q\<rparr>"
  let ?st = "st\<lparr>bp_heap := (bp_heap st)(p \<mapsto> ?b), bp_pool := (bp_pool st)(cap_of c \<mapsto> Some p)\<rparr>"
  have nin: "p \<notin> set (L d)" for d
    using p by (auto simp: owned_lists [OF L(1)])
  have lists: "pool_lists UNIV (L(c := p # L c)) ?st"
    unfolding pool_lists_def
  proof (intro ballI conjI)
    fix d :: mem_cap
    from L(1) obtain q' where "bp_pool st (cap_of d) = Some q'" "chain (bp_heap st) q' (L d)"
      by (rule pool_listsD) auto
    then show "\<exists>q. bp_pool ?st (cap_of d) = Some q \<and> chain (bp_heap ?st) q ((L(c := p # L c)) d)"
      using nin q by (cases "d = c") auto
  next
    fix d :: mem_cap and r
    assume "r \<in> set ((L(c := p # L c)) d)"
    then show "\<exists>b. bp_heap ?st r = Some b \<and> free_cell d b"
      using pool_lists_cell [OF L(1), of d r] c nin [of d] by (auto simp: free_cell_def split: if_splits)
  qed
  moreover have "heap_ok ?st"
    using L(2) b c by (auto simp: heap_ok_def)
  moreover have "mem_ok ?st"
    using L(3) b by (simp add: mem_ok_def heap_kb_update)
  ultimately have "pool_inv ?st" by (auto simp: pool_inv_def)
  moreover have "owned ?st = owned st - {p}"
    using b nin by (auto simp: owned_lists [OF L(1)] owned_lists [OF lists] split: if_splits)
  moreover have "revert p st = Inr ?st"
    using b q c by (simp add: revert_def Let_def)
  ultimately show ?thesis
    by (auto simp: revert_post_def)
qed

section \<open>The pool's constructor establishes the invariant\<close>

text \<open>Fields and cells the construction of one free list leaves alone.\<close>

definition list_built :: "int \<Rightarrow> ptr \<Rightarrow> ptr list \<Rightarrow> buf_pool \<Rightarrow> buf_pool \<Rightarrow> bool" where
  "list_built cap p ps st st' \<longleftrightarrow>
     chain (bp_heap st') (Some p) (p # ps) \<and>
     (\<forall>r \<in> set (p # ps). \<exists>b. bp_heap st' r = Some b \<and> io_capacity b = cap \<and> io_length b = 0 \<and> io_head b = 0) \<and>
     (\<forall>r. r \<notin> set (p # ps) \<longrightarrow> bp_heap st' r = bp_heap st r) \<and>
     set ps = {bp_fresh st ..< bp_fresh st'} \<and> length ps = bp_fresh st' - bp_fresh st \<and> bp_fresh st \<le> bp_fresh st' \<and>
     bp_pool st' = bp_pool st \<and> bp_total_mem st' = bp_total_mem st \<and> bp_raw st' = bp_raw st"

lemma extend_list_built:
  assumes "bp_heap st p = Some b" "io_next b = None" "io_capacity b = cap" "io_length b = 0" "io_head b = 0"
    and "p < bp_fresh st"
  shows "\<exists>st' ps. extend_list k cap p st = Inr (last (p # ps), st') \<and> list_built cap p ps st st' \<and> length ps = k"
  using assms
proof (induction k arbitrary: p b st)
  case 0
  then show ?case
    by (intro exI [of _ st] exI [of _ "[]"]) (auto simp: list_built_def)
next
  case (Suc k)
  let ?n = "bp_fresh st"
  let ?b = "io_buf_new cap (bp_raw st ?n)"
  let ?st = "st\<lparr>bp_fresh := Suc ?n, bp_heap := (bp_heap st)(?n \<mapsto> ?b, p \<mapsto> b\<lparr>io_next := Some ?n\<rparr>)\<rparr>"
  have pn: "p \<noteq> ?n" using Suc.prems by simp
  have step: "extend_list (Suc k) cap p st = extend_list k cap ?n ?st"
    using Suc.prems pn by (simp add: new_io_buf_def Let_def)
  have "bp_heap ?st ?n = Some ?b" "?n < bp_fresh ?st" using pn by simp_all
  then obtain st' ps where ih: "extend_list k cap ?n ?st = Inr (last (?n # ps), st')"
      "list_built cap ?n ps ?st st'" "length ps = k"
    using Suc.IH [of ?st ?n ?b] by (auto simp: io_buf_new_def)
  have "p \<notin> set (?n # ps)"
    using ih(2) Suc.prems(6) pn by (auto simp: list_built_def)
  then have hp: "bp_heap st' p = Some (b\<lparr>io_next := Some ?n\<rparr>)"
    using ih(2) by (auto simp: list_built_def)
  have "list_built cap p (?n # ps) st st'"
    using ih(2) hp Suc.prems \<open>p \<notin> set (?n # ps)\<close>
    unfolding list_built_def by auto
  with step ih show ?case
    by (intro exI [of _ st'] exI [of _ "?n # ps"]) auto
qed

lemma heap_kb_extend:
  assumes "finite (dom h)" "finite S" "S \<inter> dom h = {}"
    and "\<And>r. r \<in> S \<Longrightarrow> \<exists>b. h' r = Some b \<and> io_capacity b = cap"
    and "\<And>r. r \<notin> S \<Longrightarrow> h' r = h r"
  shows "heap_kb h' = heap_kb h + card S * nat (cap div 1024)"
proof -
  have "dom h' = dom h \<union> S"
    using assms(3-5) by (auto simp: dom_def) (metis option.distinct(1))+
  then have "heap_kb h' = (\<Sum>p \<in> dom h. case h' p of None \<Rightarrow> 0 | Some b \<Rightarrow> nat (io_capacity b div 1024)) +
      (\<Sum>p \<in> S. case h' p of None \<Rightarrow> 0 | Some b \<Rightarrow> nat (io_capacity b div 1024))"
    using assms(1-3) by (simp add: heap_kb_def sum.union_disjoint Int_commute)
  also have "(\<Sum>p \<in> dom h. case h' p of None \<Rightarrow> 0 | Some b \<Rightarrow> nat (io_capacity b div 1024)) = heap_kb h"
  proof -
    have "h' p = h p" if "p \<in> dom h" for p using assms(3,5) that by blast
    then show ?thesis unfolding heap_kb_def by (intro sum.cong) simp_all
  qed
  also have "(\<Sum>p \<in> S. case h' p of None \<Rightarrow> 0 | Some b \<Rightarrow> nat (io_capacity b div 1024)) = (\<Sum>p \<in> S. nat (cap div 1024))"
    using assms(4) by (intro sum.cong) (force split: option.splits)+
  finally show ?thesis by simp
qed

definition pool_built :: "mem_cap set \<Rightarrow> (mem_cap \<Rightarrow> nat) \<Rightarrow> nat \<Rightarrow> buf_pool \<Rightarrow> bool" where
  "pool_built D N kb st \<longleftrightarrow>
     (\<exists>L. pool_lists D L st \<and> (\<forall>c \<in> D. length (L c) = N c) \<and> dom (bp_heap st) = (\<Union>c \<in> D. set (L c))) \<and>
     heap_ok st \<and> unat (bp_total_mem st) = kb \<and> heap_kb (bp_heap st) = kb"

lemma make_io_buf_list_split:
  assumes "heap_ok st" and "0 < num"
  shows "\<exists>st' ps. make_io_buf_list cap num st = Inr st' \<and>
     list_built cap (bp_fresh st) ps
       (st\<lparr>bp_fresh := Suc (bp_fresh st), bp_pool := (bp_pool st)(cap \<mapsto> Some (bp_fresh st))\<rparr>)
       (st'\<lparr>bp_total_mem := bp_total_mem st\<rparr>) \<and>
     bp_total_mem st' = bp_total_mem st + word_of_int (cap div 1024 * num) \<and> Suc (length ps) = nat num"
proof -
  let ?n = "bp_fresh st"
  let ?b = "io_buf_new cap (bp_raw st ?n)"
  let ?st = "st\<lparr>bp_heap := (bp_heap st)(?n \<mapsto> ?b), bp_fresh := Suc ?n, bp_pool := (bp_pool st)(cap \<mapsto> Some ?n)\<rparr>"
  have "bp_heap ?st ?n = Some ?b" "?n < bp_fresh ?st" by simp_all
  then obtain st' ps where e: "extend_list (nat (num - 1)) cap ?n ?st = Inr (last (?n # ps), st')"
      "list_built cap ?n ps ?st st'" "length ps = nat (num - 1)"
    using extend_list_built [of ?st ?n ?b cap "nat (num - 1)"] by (auto simp: io_buf_new_def)
  define l where "l = last (?n # ps)"
  have ll: "last (?n # ps) \<in> set (?n # ps)" by (rule last_in_set) simp
  moreover have "\<forall>r \<in> set (?n # ps). \<exists>b. bp_heap st' r = Some b"
    using e(2) unfolding list_built_def by blast
  ultimately obtain b where b: "bp_heap st' l = Some b"
    unfolding l_def by blast
  have "chain (bp_heap st') (Some ?n) (butlast (?n # ps) @ l # [])"
    using e(2) by (simp add: list_built_def l_def append_butlast_last_id del: last.simps butlast.simps)
  then have "chain (bp_heap st') (Some l) [l]" by (rule chain_suffix)
  with b have "io_next b = None" by simp
  then have "b\<lparr>io_next := None\<rparr> = b" by simp
  then have same: "(bp_heap st')(l \<mapsto> b\<lparr>io_next := None\<rparr>) = bp_heap st'"
    using b by (simp add: fun_upd_idem)
  let ?st' = "st'\<lparr>bp_total_mem := bp_total_mem st + word_of_int (cap div 1024 * num)\<rparr>"
  have "make_io_buf_list cap num st = Inr ?st'"
    using e b same by (simp add: make_io_buf_list_def new_io_buf_def Let_def list_built_def l_def)
  moreover have "list_built cap ?n ps (st\<lparr>bp_fresh := Suc ?n, bp_pool := (bp_pool st)(cap \<mapsto> Some ?n)\<rparr>)
       (?st'\<lparr>bp_total_mem := bp_total_mem st\<rparr>)"
    using e(2) by (auto simp: list_built_def)
  ultimately show ?thesis
    using e(3) assms(2) by (intro exI [of _ ?st'] exI [of _ ps]) simp
qed

text \<open>A new list \<open>ps\<close> of free blocks for class \<open>c\<close>, outside the old heap.\<close>

definition extends_heap :: "mem_cap \<Rightarrow> ptr list \<Rightarrow> buf_pool \<Rightarrow> buf_pool \<Rightarrow> bool" where
  "extends_heap c ps st st' \<longleftrightarrow>
     set ps \<inter> dom (bp_heap st) = {} \<and> (\<forall>r \<in> set ps. \<exists>b. bp_heap st' r = Some b \<and> free_cell c b) \<and>
     (\<forall>r. r \<notin> set ps \<longrightarrow> bp_heap st' r = bp_heap st r)"

lemma extends_heapD:
  assumes "extends_heap c ps st st'"
  shows "set ps \<inter> dom (bp_heap st) = {}" "r \<in> set ps \<Longrightarrow> \<exists>b. bp_heap st' r = Some b \<and> free_cell c b"
    "r \<notin> set ps \<Longrightarrow> bp_heap st' r = bp_heap st r"
  using assms unfolding extends_heap_def by blast+

lemma pool_lists_extend:
  assumes ext: "extends_heap c ps st st'" and L: "pool_lists D L st"
    and new: "chain (bp_heap st') q0 ps" "bp_pool st' = (bp_pool st)(cap_of c \<mapsto> q0)"
  shows "pool_lists (insert c D) (L(c := ps)) st'"
  unfolding pool_lists_def
proof (intro ballI conjI)
  fix d assume d: "d \<in> insert c D"
  show "\<exists>q. bp_pool st' (cap_of d) = Some q \<and> chain (bp_heap st') q ((L(c := ps)) d)"
  proof (cases "d = c")
    case False
    with d L obtain q where q: "bp_pool st (cap_of d) = Some q" "chain (bp_heap st) q (L d)"
      by (metis insertE pool_listsD)
    have "chain (bp_heap st') q (L d) = chain (bp_heap st) q (L d)"
    proof (rule chain_cong)
      fix r assume "r \<in> set (L d)"
      then have "r \<in> dom (bp_heap st)" using pool_lists_cell [OF L] False d by auto
      with extends_heapD(1) [OF ext] show "bp_heap st' r = bp_heap st r" by (intro extends_heapD(3) [OF ext]) blast
    qed
    with q new(2) False show ?thesis by simp
  qed (simp add: new)
next
  fix d r assume d: "d \<in> insert c D" and r: "r \<in> set ((L(c := ps)) d)"
  show "\<exists>b. bp_heap st' r = Some b \<and> free_cell d b"
  proof (cases "d = c")
    case True
    with extends_heapD(2) [OF ext] r show ?thesis by auto
  next
    case False
    with d r pool_lists_cell [OF L, of d r] obtain b where "bp_heap st r = Some b" "free_cell d b" by auto
    moreover from this extends_heapD(1) [OF ext] have "r \<notin> set ps" by blast
    ultimately show ?thesis using extends_heapD(3) [OF ext] by simp
  qed
qed

lemma heap_ok_extend:
  assumes ext: "extends_heap c ps st st'" and h: "heap_ok st" "\<forall>r \<in> set ps. r < bp_fresh st'" "bp_fresh st \<le> bp_fresh st'"
  shows "heap_ok st'"
  unfolding heap_ok_def
proof (intro allI impI)
  fix r x assume x: "bp_heap st' r = Some x"
  show "r < bp_fresh st' \<and> (\<exists>c. io_capacity x = cap_of c)"
  proof (cases "r \<in> set ps")
    case True
    with x extends_heapD(2) [OF ext] have "free_cell c x" by fastforce
    with True h(2) show ?thesis by (auto simp: free_cell_def)
  next
    case False
    with x extends_heapD(3) [OF ext False] h(1,3) show ?thesis by (fastforce simp: heap_ok_def)
  qed
qed

lemma dom_extend:
  assumes "extends_heap c ps st st'"
  shows "dom (bp_heap st') = set ps \<union> dom (bp_heap st)"
proof (rule set_eqI)
  fix r show "r \<in> dom (bp_heap st') \<longleftrightarrow> r \<in> set ps \<union> dom (bp_heap st)"
    using extends_heapD(2,3) [OF assms, of r] by (cases "r \<in> set ps") (auto simp: dom_def)
qed

lemma make_io_buf_list_built:
  assumes "pool_built D N kb st" and "c \<notin> D" and "0 < num"
    and room: "kb + nat (cap_of c div 1024 * num) < MEM_LIMIT"
  shows "\<exists>st'. make_io_buf_list (cap_of c) num st = Inr st' \<and>
           pool_built (insert c D) (N(c := nat num)) (kb + nat (cap_of c div 1024 * num)) st'"
proof -
  from assms(1) obtain L where L: "pool_lists D L st" "\<forall>c \<in> D. length (L c) = N c"
      "dom (bp_heap st) = (\<Union>c \<in> D. set (L c))" and h: "heap_ok st"
    and t: "unat (bp_total_mem st) = kb" "heap_kb (bp_heap st) = kb"
    by (auto simp: pool_built_def)
  from make_io_buf_list_split [OF h assms(3), of "cap_of c"] obtain st' ps
    where m: "make_io_buf_list (cap_of c) num st = Inr st'"
      and b: "list_built (cap_of c) (bp_fresh st) ps
          (st\<lparr>bp_fresh := Suc (bp_fresh st), bp_pool := (bp_pool st)(cap_of c \<mapsto> Some (bp_fresh st))\<rparr>)
          (st'\<lparr>bp_total_mem := bp_total_mem st\<rparr>)"
      and t': "bp_total_mem st' = bp_total_mem st + word_of_int (cap_of c div 1024 * num)"
      and len: "Suc (length ps) = nat num"
    by blast
  let ?ps = "bp_fresh st # ps" and ?kb = "cap_of c div 1024 * num"
  from b have ch: "chain (bp_heap st') (Some (bp_fresh st)) ?ps"
    and cells: "\<forall>r \<in> set ?ps. \<exists>b. bp_heap st' r = Some b \<and> free_cell c b"
    and frame: "\<And>r. r \<notin> set ?ps \<Longrightarrow> bp_heap st' r = bp_heap st r"
    and rng: "set ps = {Suc (bp_fresh st) ..< bp_fresh st'}" "Suc (bp_fresh st) \<le> bp_fresh st'"
    and pool: "bp_pool st' = (bp_pool st)(cap_of c \<mapsto> Some (bp_fresh st))"
    by (auto simp: list_built_def free_cell_def)
  have old: "r < bp_fresh st" if "bp_heap st r = Some x" for r x
    using h that by (auto simp: heap_ok_def)
  have disj: "set ?ps \<inter> dom (bp_heap st) = {}" using rng(1) old by fastforce
  have ext: "extends_heap c ?ps st st'" unfolding extends_heap_def using disj cells frame by blast
  have nonneg: "0 \<le> ?kb" using assms(3) cap_of_kb(1) [of c] by simp
  have "pool_lists (insert c D) (L(c := ?ps)) st'" by (rule pool_lists_extend [OF ext L(1) ch pool])
  moreover have "\<forall>d \<in> insert c D. length ((L(c := ?ps)) d) = (N(c := nat num)) d" using L(2) len by simp
  moreover have "dom (bp_heap st') = (\<Union>d \<in> insert c D. set ((L(c := ?ps)) d))"
    unfolding dom_extend [OF ext] L(3) using assms(2) by (auto split: if_splits)
  moreover have "heap_ok st'" using rng by (intro heap_ok_extend [OF ext h]) auto
  moreover have "card (set ?ps) = nat num" using distinct_card [OF chain_distinct [OF ch]] len by simp
  then have "heap_kb (bp_heap st') = kb + nat num * nat (cap_of c div 1024)"
    using heap_kb_extend [OF finite_heap [OF h] _ disj, of "bp_heap st'" "cap_of c"] cells frame t(2) by (auto simp: free_cell_def)
  then have "heap_kb (bp_heap st') = kb + nat ?kb" using assms(3) cap_of_kb(1) [of c] by (simp add: nat_mult_distrib mult.commute)
  moreover have "unat (word_of_int ?kb :: u64) = nat ?kb" using room nonneg by (intro unat_of_int_u64) (auto simp: MEM_LIMIT_def)
  then have "unat (bp_total_mem st') = kb + nat ?kb" using room t(1) by (simp only: t' unat_word_ariths MEM_LIMIT_def) simp
  ultimately show ?thesis unfolding pool_built_def using m by blast
qed

text \<open>
  The constructor: every class holds the number of blocks the source asks for, no block is
  in use, and the accounted memory is 334240 KB.
\<close>

definition initial_blocks :: "mem_cap \<Rightarrow> nat" where
  "initial_blocks c = (case c of m4K \<Rightarrow> 5000 | m16K \<Rightarrow> 1000 | m64K \<Rightarrow> 500 | m256K \<Rightarrow> 200 | m1M \<Rightarrow> 50 | m4M \<Rightarrow> 20 | m8M \<Rightarrow> 10)"

lemma UNIV_mem_cap: "UNIV = {m8M, m4M, m1M, m256K, m64K, m16K, m4K}"
  by (auto intro: mem_cap.exhaust)

lemma pool_built_UNIV:
  assumes "pool_built UNIV N kb st" and "kb < MEM_LIMIT"
  shows "pool_inv st" and "owned st = {}" and "unat (bp_total_mem st) = kb" and "card (free_of st c) = N c"
proof -
  from assms(1) obtain L where L: "pool_lists UNIV L st" "\<And>c. length (L c) = N c"
      "dom (bp_heap st) = (\<Union>c. set (L c))"
    by (auto simp: pool_built_def)
  show "pool_inv st" "unat (bp_total_mem st) = kb"
    using assms L(1) by (auto simp: pool_inv_def pool_built_def mem_ok_def)
  show "owned st = {}" using L by (simp add: owned_lists [OF L(1)])
  obtain q where "distinct (L c)" using pool_listsD [OF L(1), of c] by blast
  then show "card (free_of st c) = N c"
    using L(2) [of c] by (simp add: free_of_lists [OF L(1)] distinct_card)
qed

lemma buf_pool_new_built:
  "\<exists>st N. buf_pool_new raw = Inr st \<and> pool_built UNIV N 334240 st \<and> N = initial_blocks"
proof -
  let ?s0 = "\<lparr>bp_pool = Map.empty, bp_total_mem = 0, bp_heap = Map.empty, bp_fresh = 0, bp_raw = raw\<rparr>"
  have "pool_built {} (\<lambda>_. 0) 0 ?s0"
    by (simp add: pool_built_def pool_lists_def heap_ok_def heap_kb_def)
  from make_io_buf_list_built [OF this, of m4K 5000] obtain s1 where
    s1: "make_io_buf_list (cap_of m4K) 5000 ?s0 = Inr s1" "pool_built {m4K} ((\<lambda>_. 0)(m4K := 5000)) 20000 s1"
    by (auto simp: MEM_LIMIT_def)
  from make_io_buf_list_built [OF s1(2), of m16K 1000] obtain s2 where
    s2: "make_io_buf_list (cap_of m16K) 1000 s1 = Inr s2"
      "pool_built {m16K, m4K} ((\<lambda>_. 0)(m4K := 5000, m16K := 1000)) 36000 s2"
    by (auto simp: MEM_LIMIT_def)
  from make_io_buf_list_built [OF s2(2), of m64K 500] obtain s3 where
    s3: "make_io_buf_list (cap_of m64K) 500 s2 = Inr s3"
      "pool_built {m64K, m16K, m4K} ((\<lambda>_. 0)(m4K := 5000, m16K := 1000, m64K := 500)) 68000 s3"
    by (auto simp: MEM_LIMIT_def)
  from make_io_buf_list_built [OF s3(2), of m256K 200] obtain s4 where
    s4: "make_io_buf_list (cap_of m256K) 200 s3 = Inr s4"
      "pool_built {m256K, m64K, m16K, m4K}
         ((\<lambda>_. 0)(m4K := 5000, m16K := 1000, m64K := 500, m256K := 200)) 119200 s4"
    by (auto simp: MEM_LIMIT_def)
  from make_io_buf_list_built [OF s4(2), of m1M 50] obtain s5 where
    s5: "make_io_buf_list (cap_of m1M) 50 s4 = Inr s5"
      "pool_built {m1M, m256K, m64K, m16K, m4K}
         ((\<lambda>_. 0)(m4K := 5000, m16K := 1000, m64K := 500, m256K := 200, m1M := 50)) 170400 s5"
    by (auto simp: MEM_LIMIT_def)
  from make_io_buf_list_built [OF s5(2), of m4M 20] obtain s6 where
    s6: "make_io_buf_list (cap_of m4M) 20 s5 = Inr s6"
      "pool_built {m4M, m1M, m256K, m64K, m16K, m4K}
         ((\<lambda>_. 0)(m4K := 5000, m16K := 1000, m64K := 500, m256K := 200, m1M := 50, m4M := 20)) 252320 s6"
    by (auto simp: MEM_LIMIT_def)
  from make_io_buf_list_built [OF s6(2), of m8M 10] obtain s7 where
    s7: "make_io_buf_list (cap_of m8M) 10 s6 = Inr s7"
      "pool_built {m8M, m4M, m1M, m256K, m64K, m16K, m4K}
         ((\<lambda>_. 0)(m4K := 5000, m16K := 1000, m64K := 500, m256K := 200, m1M := 50, m4M := 20, m8M := 10)) 334240 s7"
    by (auto simp: MEM_LIMIT_def)
  have "(\<lambda>_. 0)(m4K := 5000, m16K := 1000, m64K := 500, m256K := 200, m1M := 50, m4M := 20, m8M := 10)
      = initial_blocks"
    by (auto simp: fun_eq_iff initial_blocks_def split: mem_cap.splits)
  with s1 s2 s3 s4 s5 s6 s7 show ?thesis
    unfolding buf_pool_new_def UNIV_mem_cap by simp
qed

section \<open>The allocator contract\<close>

text \<open>
  What the stream buffers rely on. \<open>owned\<close> are the blocks handed out and not yet returned;
  \<open>put\<close> is a write through a pointer to such a block.
\<close>

locale allocator =
  fixes inv :: "'s \<Rightarrow> bool" and owned :: "'s \<Rightarrow> ptr set" and cell :: "'s \<Rightarrow> ptr \<Rightarrow> 'b option"
    and alloc :: "int \<Rightarrow> 's \<Rightarrow> (ptr option \<times> 's) res" and release :: "ptr \<Rightarrow> 's \<Rightarrow> 's res"
    and put :: "ptr \<Rightarrow> 'b \<Rightarrow> 's \<Rightarrow> 's" and cap :: "'b \<Rightarrow> int"
  assumes cell_owned: "inv s \<Longrightarrow> p \<in> owned s \<Longrightarrow> \<exists>b. cell s p = Some b"
    and alloc_inv: "inv s \<Longrightarrow> alloc n s = Inr (Some p, s') \<Longrightarrow> inv s'"
    and alloc_owned: "inv s \<Longrightarrow> alloc n s = Inr (Some p, s') \<Longrightarrow> p \<notin> owned s \<and> owned s' = insert p (owned s)"
    and alloc_cap: "inv s \<Longrightarrow> alloc n s = Inr (Some p, s') \<Longrightarrow> \<exists>b. cell s' p = Some b \<and> n \<le> cap b"
    and alloc_frame: "inv s \<Longrightarrow> alloc n s = Inr (Some p, s') \<Longrightarrow> q \<in> owned s \<Longrightarrow> cell s' q = cell s q"
    and alloc_null: "inv s \<Longrightarrow> alloc n s = Inr (None, s') \<Longrightarrow> s' = s"
    and release_ok: "inv s \<Longrightarrow> p \<in> owned s \<Longrightarrow> \<exists>s'. release p s = Inr s'"
    and release_inv: "inv s \<Longrightarrow> p \<in> owned s \<Longrightarrow> release p s = Inr s' \<Longrightarrow> inv s' \<and> owned s' = owned s - {p}"
    and release_frame: "inv s \<Longrightarrow> p \<in> owned s \<Longrightarrow> release p s = Inr s' \<Longrightarrow> q \<in> owned s - {p} \<Longrightarrow> cell s' q = cell s q"
    and put_cell: "cell (put p b s) = (cell s)(p \<mapsto> b)"
    and put_inv: "inv s \<Longrightarrow> p \<in> owned s \<Longrightarrow> cell s p = Some b \<Longrightarrow> cap b' = cap b \<Longrightarrow>
           inv (put p b' s) \<and> owned (put p b' s) = owned s"
begin

text \<open>Two blocks in use at the same time are different.\<close>

lemma alloc_twice:
  assumes "inv s" "alloc n s = Inr (Some p, s1)" "alloc m s1 = Inr (Some q, s2)"
  shows "p \<noteq> q" and "owned s2 = {p, q} \<union> owned s" and "cell s2 p = cell s1 p"
  using assms alloc_owned alloc_inv alloc_frame by (metis insertI1, blast, metis insertI1)

text \<open>
  Moving to a larger block (allocate, fill, release the old one) keeps the invariant, swaps
  the two blocks in the set of owned ones and leaves every other owned block alone.
\<close>

lemma grow:
  assumes s: "inv s" and p: "p \<in> owned s" and a: "alloc n s = Inr (Some q, s1)"
    and b: "cell s1 q = Some b" and b': "cap b' = cap b"
  shows "\<exists>s3. release p (put q b' s1) = Inr s3 \<and> inv s3 \<and> owned s3 = insert q (owned s - {p}) \<and>
           cell s3 q = Some b' \<and> (\<forall>r \<in> owned s - {p}. cell s3 r = cell s r)"
proof -
  let ?s2 = "put q b' s1"
  from s a have 1: "inv s1" "q \<notin> owned s" "owned s1 = insert q (owned s)"
    using alloc_inv alloc_owned by blast+
  with b b' have 2: "inv ?s2" "owned ?s2 = insert q (owned s)"
    using put_inv by blast+
  with p obtain s3 where 3: "release p ?s2 = Inr s3" using release_ok by blast
  with 2 p have 4: "inv s3" "owned s3 = insert q (owned s) - {p}"
    using release_inv by blast+
  have pq: "p \<noteq> q" using 1 p by blast
  have fr: "cell s3 r = cell ?s2 r" if "r \<in> insert q (owned s) - {p}" for r
    using release_frame [OF 2(1) _ 3] p 2(2) that by blast
  have "cell s3 q = Some b'" using fr [of q] pq by (simp add: put_cell)
  moreover have "cell s3 r = cell s r" if "r \<in> owned s - {p}" for r
    using fr [of r] that 1(2) alloc_frame [OF s a, of r] by (auto simp: put_cell)
  ultimately show ?thesis using 3 4 pq by blast
qed

end

definition buf_put :: "ptr \<Rightarrow> io_buf \<Rightarrow> buf_pool \<Rightarrow> buf_pool" where
  "buf_put p b st = st\<lparr>bp_heap := (bp_heap st)(p \<mapsto> b)\<rparr>"

lemma buf_put_inv:
  assumes "pool_inv st" "p \<in> owned st" "bp_heap st p = Some b" "io_capacity b' = io_capacity b"
  shows "pool_inv (buf_put p b' st) \<and> owned (buf_put p b' st) = owned st"
proof -
  from assms(1) obtain L where L: "pool_lists UNIV L st" "heap_ok st" "mem_ok st"
    by (auto simp: pool_inv_def)
  have nin: "p \<notin> set (L d)" for d
    using assms(2) by (auto simp: owned_lists [OF L(1)])
  have lists: "pool_lists UNIV L (buf_put p b' st)"
    using L(1) nin by (fastforce simp: pool_lists_def buf_put_def)
  moreover have "heap_ok (buf_put p b' st)" "mem_ok (buf_put p b' st)"
    using L(2,3) assms(3,4) by (auto simp: heap_ok_def mem_ok_def buf_put_def heap_kb_update)
  moreover have "owned (buf_put p b' st) = owned st"
    unfolding owned_lists [OF L(1)] owned_lists [OF lists] using assms(3) by (auto simp: buf_put_def)
  ultimately show ?thesis by (auto simp: pool_inv_def)
qed

interpretation pool: allocator pool_inv owned bp_heap alloc_buf revert buf_put io_capacity
proof unfold_locales
  fix s n p s' assume a: "pool_inv s" "alloc_buf n s = Inr (Some p, s')"
  from alloc_buf_inv [OF a] obtain c where c: "pick_index n = Some c" "alloc_post c p s s'" by blast
  then show "pool_inv s'" "p \<notin> owned s \<and> owned s' = insert p (owned s)"
    by (auto simp: alloc_post_def)
  show "\<exists>b. bp_heap s' p = Some b \<and> n \<le> io_capacity b"
    using c by (auto simp: alloc_post_def free_cell_def pick_index_eq_Some_iff)
  show "bp_heap s' q = bp_heap s q" if "q \<in> owned s" for q
    using c that by (auto simp: alloc_post_def)
next
  fix s n s' assume "pool_inv s" "alloc_buf n s = Inr (None, s')"
  then show "s' = s" using alloc_buf_None by blast
next
  fix s p assume a: "pool_inv s" "p \<in> owned s"
  from revert_inv [OF a] show "\<exists>s'. revert p s = Inr s'" by blast
  fix s' assume "revert p s = Inr s'"
  with revert_inv [OF a] have "revert_post p s s'" by auto
  then show "pool_inv s' \<and> owned s' = owned s - {p}"
    and "\<And>q. q \<in> owned s - {p} \<Longrightarrow> bp_heap s' q = bp_heap s q"
    by (auto simp: revert_post_def)
next
  fix s p and b b' :: io_buf
  assume "pool_inv s" "p \<in> owned s" "bp_heap s p = Some b" "io_capacity b' = io_capacity b"
  then show "pool_inv (buf_put p b' s) \<and> owned (buf_put p b' s) = owned s" by (rule buf_put_inv)
qed (auto simp: owned_def buf_put_def)

section \<open>Runs of the pool\<close>

text \<open>
  What the program does with the pool: allocate a block, give back a block in use, write
  through a pointer to a block in use (which never changes its capacity).
\<close>

inductive pool_step :: "buf_pool \<Rightarrow> buf_pool \<Rightarrow> bool" where
  alloc: "alloc_buf n st = Inr (r, st') \<Longrightarrow> pool_step st st'"
| release: "p \<in> owned st \<Longrightarrow> revert p st = Inr st' \<Longrightarrow> pool_step st st'"
| write_block: "p \<in> owned st \<Longrightarrow> bp_heap st p = Some b \<Longrightarrow> io_capacity b' = io_capacity b \<Longrightarrow>
    pool_step st (buf_put p b' st)"

inductive_cases pool_stepE: "pool_step st st'"

lemma pool_step_inv: "pool_inv st \<Longrightarrow> pool_step st st' \<Longrightarrow> pool_inv st'"
proof (erule pool_stepE)
  fix n r assume "pool_inv st" "alloc_buf n st = Inr (r, st')"
  then show "pool_inv st'" using pool.alloc_inv [of st n _ st'] pool.alloc_null [of st n st'] by (cases r) auto
qed (auto simp: buf_put_inv dest: pool.release_inv)

interpretation pool_run: step_system "\<lambda>st. \<exists>raw. buf_pool_new raw = Inr st" pool_step pool_inv
proof unfold_locales
  fix s assume "\<exists>raw. buf_pool_new raw = Inr s"
  then obtain raw where "buf_pool_new raw = Inr s" by blast
  with buf_pool_new_built [of raw] show "pool_inv s"
    using pool_built_UNIV(1) [of initial_blocks 334240 s] by (auto simp: MEM_LIMIT_def)
qed (rule pool_step_inv)

definition boot_pool :: buf_pool where
  "boot_pool = projr (buf_pool_new (\<lambda>_ _. 0))"

lemma boot_pool_new: "buf_pool_new (\<lambda>_ _. 0) = Inr boot_pool"
  using buf_pool_new_built [of "\<lambda>_ _. 0"] by (auto simp: boot_pool_def)

lemma boot_pool_built: "pool_built UNIV initial_blocks 334240 boot_pool"
  using buf_pool_new_built [of "\<lambda>_ _. 0"] by (auto simp: boot_pool_def)

lemma boot_pool_inv [simp]: "pool_inv boot_pool" "owned boot_pool = {}"
  using pool_built_UNIV [OF boot_pool_built] by (simp_all add: MEM_LIMIT_def)

text \<open>
  The constructor of the memory pool returns: every size class holds exactly the number of
  free blocks the source asks for (5000 of 4K up to 10 of 8M), no block is in use, and
  \<open>_total_mem\<close> is the 334240 KB those blocks take.
\<close>

theorem pool_construction:
  "\<exists>st. buf_pool_new raw = Inr st \<and> pool_inv st \<and> owned st = {} \<and> unat (bp_total_mem st) = 334240 \<and>
        (\<forall>c. card (free_of st c) = initial_blocks c)"
  using buf_pool_new_built [of raw] pool_built_UNIV [of initial_blocks 334240]
  by (auto simp: MEM_LIMIT_def)

text \<open>
  C23 [pool_safety]. In every state the program can bring the pool to, a request of \<open>n\<close> bytes either is
  refused because \<open>n\<close> exceeds 8 MB (the pool is unchanged), or ends the process because the
  class has no free block and a new one would pass the 5 GB limit, or returns an empty block of
  the smallest class that fits, which was not in use and leaves the blocks in use untouched;
  and \<open>_total_mem\<close> is exactly the memory of all blocks, below the limit.
\<close>

theorem pool_safety:
  assumes "buf_pool_new raw = Inr st0" and "pool_step\<^sup>*\<^sup>* st0 st"
  shows "unat (bp_total_mem st) = heap_kb (bp_heap st) \<and> heap_kb (bp_heap st) < MEM_LIMIT \<and>
    (case alloc_buf n st of
       Inl e \<Rightarrow> e = Exit_1 \<and> (\<exists>c. pick_index n = Some c \<and> free_of st c = {} \<and>
                  MEM_LIMIT \<le> unat (bp_total_mem st) + nat (cap_of c div 1024))
     | Inr (None, st') \<Rightarrow> st' = st \<and> 8388608 < n
     | Inr (Some p, st') \<Rightarrow> \<exists>c. n \<le> cap_of c \<and> (\<forall>d. n \<le> cap_of d \<longrightarrow> c \<le> d) \<and> alloc_post c p st st')"
proof -
  have inv: "pool_inv st" using pool_run.reachable_inv assms by blast
  then have "unat (bp_total_mem st) = heap_kb (bp_heap st) \<and> heap_kb (bp_heap st) < MEM_LIMIT"
    by (simp add: pool_inv_def mem_ok_def)
  then show ?thesis
    using alloc_buf_fault [OF inv, of n] alloc_buf_None [OF inv, of n] alloc_buf_inv [OF inv, of n]
    by (auto simp: pick_index_eq_Some_iff split: sum.splits option.splits)
qed

theorem pool_safety_witness:
  "unat (bp_total_mem boot_pool) = heap_kb (bp_heap boot_pool) \<and> heap_kb (bp_heap boot_pool) < MEM_LIMIT"
  using pool_safety [OF boot_pool_new rtranclp.rtrancl_refl, of 1000] by blast

text \<open>
  Giving back a block in use never fails, in every state the program can bring the pool
  to: the block leaves the set of blocks in use, the other blocks in use keep their contents,
  and the next request for its class returns this same block.
\<close>

theorem pool_revert:
  assumes "buf_pool_new raw = Inr st0" and "pool_step\<^sup>*\<^sup>* st0 st" and "p \<in> owned st"
  shows "\<exists>st' c st''. revert p st = Inr st' \<and> revert_post p st st' \<and>
    alloc_buf (cap_of c) st' = Inr (Some p, st'') \<and> io_capacity (the (bp_heap st p)) = cap_of c"
proof -
  have inv: "pool_inv st" using pool_run.reachable_inv assms by blast
  obtain st' where st': "revert p st = Inr st'" "revert_post p st st'" using revert_inv [OF inv assms(3)] by blast
  obtain b where b: "bp_heap st p = Some b" using assms(3) by (auto simp: owned_def)
  obtain c where c: "io_capacity b = cap_of c" using inv b by (auto simp: pool_inv_def heap_ok_def)
  have "pick_index (cap_of c) = Some c" by (auto simp: pick_index_eq_Some_iff less_eq_mem_cap_def)
  moreover have "bp_pool st' (cap_of c) = Some (Some p)" "bp_heap st' p \<noteq> None"
    using st'(1) b c by (auto simp: revert_def Let_def split: option.splits)
  ultimately have "\<exists>st''. alloc_buf (cap_of c) st' = Inr (Some p, st'')"
    by (auto simp: alloc_buf_def pool_slot_def Let_def)
  with st' b c show ?thesis by auto
qed

lemma boot_alloc: "\<exists>p st. alloc_buf 100 boot_pool = Inr (Some p, st) \<and> owned st = {p}"
proof -
  obtain L where L: "pool_lists UNIV L boot_pool" "\<And>c. length (L c) = initial_blocks c"
    using boot_pool_built by (auto simp: pool_built_def)
  have "L m4K \<noteq> []" using L(2) [of m4K] by (auto simp: initial_blocks_def)
  then obtain p ps where "L m4K = p # ps" by (cases "L m4K") auto
  moreover have "pick_index 100 = Some m4K" by (simp add: pick_index_def)
  ultimately obtain st where "alloc_buf 100 boot_pool = Inr (Some p, st)"
    using alloc_buf_cases [OF L(1), of 100 m4K] by auto
  then show ?thesis using pool.alloc_owned [OF boot_pool_inv(1)] by fastforce
qed

theorem pool_revert_witness:
  "\<exists>p st st'. alloc_buf 100 boot_pool = Inr (Some p, st) \<and> revert p st = Inr st' \<and> revert_post p st st'"
proof -
  obtain p st where a: "alloc_buf 100 boot_pool = Inr (Some p, st)" "owned st = {p}" using boot_alloc by blast
  have "pool_step\<^sup>*\<^sup>* boot_pool st" using pool_step.alloc [OF a(1)] by blast
  from pool_revert [OF boot_pool_new this, of p] a show ?thesis by auto
qed

end
