(* ===== verification/Reactor_Buf.thy ===== *)
theory Reactor_Buf
  imports Buf_Pool
begin

text \<open>
  The stream buffers of \<^verbatim>\<open>lars_reactor/include/reactor_buf.h\<close> and
  \<^verbatim>\<open>lars_reactor/src/reactor_buf.cpp\<close>. A buffer is the pointer \<open>_buf\<close> (\<open>None\<close> is \<open>NULL\<close>) into
  the buffer pool; the operations pass the pool explicitly. The kernel is an argument: the
  answer of \<open>ioctl(FIONREAD)\<close> and the answers of successive \<open>read\<close> or \<open>write\<close> calls, of which
  the loop \<open>while (ret == -1 && errno == EINTR)\<close> consumes the leading interruptions.

  The lemmas describe every operation on the pending bytes \<open>rb_bytes\<close>: \<open>send_data\<close> and
  \<open>read_data\<close> append, \<open>pop\<close> and \<open>write2fd\<close> remove from the front, and no operation touches a
  block owned by another buffer.
\<close>

section \<open>Model\<close>

datatype errno = EINTR | EAGAIN | EINPROGRESS | EMFILE | EOTHER

datatype read_ans = Rd bytes | Rd_err errno

datatype write_ans = Wr nat | Wr_err errno

text \<open>One answer after the interruptions; a read returns at most \<open>n\<close> bytes, a write accepts at most \<open>n\<close>.\<close>

fun sys_read :: "nat \<Rightarrow> read_ans list \<Rightarrow> read_ans res" where
  "sys_read n [] = Inl Blocked"
| "sys_read n (Rd bs # as) = Inr (Rd (take n bs))"
| "sys_read n (Rd_err e # as) = (if e = EINTR then sys_read n as else Inr (Rd_err e))"

fun sys_write :: "nat \<Rightarrow> write_ans list \<Rightarrow> write_ans res" where
  "sys_write n [] = Inl Blocked"
| "sys_write n (Wr k # as) = Inr (Wr (min k n))"
| "sys_write n (Wr_err e # as) = (if e = EINTR then sys_write n as else Inr (Wr_err e))"

type_synonym rbuf = "ptr option"

definition reactor_buf_new :: rbuf where
  "reactor_buf_new = None"

definition rb_clear :: "rbuf \<Rightarrow> buf_pool \<Rightarrow> (rbuf \<times> buf_pool) res" where
  "rb_clear q st =
     (case q of
        None \<Rightarrow> Inr (None, st)
      | Some p \<Rightarrow> bindR (revert p st) (\<lambda>st. Inr (None, st)))"

text \<open>\<open>~reactor_buf()\<close>\<close>

definition reactor_buf_delete :: "rbuf \<Rightarrow> buf_pool \<Rightarrow> buf_pool res" where
  "reactor_buf_delete q st = bindR (rb_clear q st) (\<lambda>(_, st). Inr st)"

definition rb_pop :: "int \<Rightarrow> rbuf \<Rightarrow> buf_pool \<Rightarrow> (rbuf \<times> buf_pool) res" where
  "rb_pop len q st =
     (case q of
        None \<Rightarrow> Inl Assert_Failed
      | Some p \<Rightarrow>
         bindR (deref (bp_heap st) p) (\<lambda>b.
         bindR (ensure (len \<le> io_length b) Assert_Failed) (\<lambda>_.
         (let b = io_pop len b; st = buf_put p b st in
          if io_length b = 0 then rb_clear q st else Inr (q, st)))))"

definition rb_length :: "rbuf \<Rightarrow> buf_pool \<Rightarrow> int res" where
  "rb_length q st =
     (case q of None \<Rightarrow> Inr 0 | Some p \<Rightarrow> bindR (deref (bp_heap st) p) (\<lambda>b. Inr (io_length b)))"

text \<open>
  The part \<open>read_data\<close> and \<open>send_data\<close> share: make sure that \<open>n\<close> more bytes fit, by taking a
  first block or by moving to a larger one. \<open>False\<close> stands for the branch that prints
  \<open>no buf for alloc\<close> and returns \<open>-1\<close>.
\<close>

definition rb_reserve :: "int \<Rightarrow> rbuf \<Rightarrow> buf_pool \<Rightarrow> (bool \<times> rbuf \<times> buf_pool) res" where
  "rb_reserve n q st =
     (case q of
        None \<Rightarrow>
          bindR (alloc_buf n st) (\<lambda>(r, st). Inr (r \<noteq> None, r, st))
      | Some p \<Rightarrow>
          bindR (deref (bp_heap st) p) (\<lambda>b.
          bindR (ensure (io_head b = 0) Assert_Failed) (\<lambda>_.
          if io_capacity b - io_length b < n then
            bindR (add_i32 n (io_length b)) (\<lambda>m.
            bindR (alloc_buf m st) (\<lambda>(r, st).
            case r of
              None \<Rightarrow> Inr (False, q, st)
            | Some p' \<Rightarrow>
                bindR (deref (bp_heap st) p') (\<lambda>nb.
                bindR (deref (bp_heap st) p) (\<lambda>b.
                bindR (io_copy nb b) (\<lambda>nb.
                bindR (revert p (buf_put p' nb st)) (\<lambda>st.
                Inr (True, Some p', st)))))))
          else Inr (True, q, st))))"

definition read_data :: "int option \<Rightarrow> read_ans list \<Rightarrow> rbuf \<Rightarrow> buf_pool \<Rightarrow> (int \<times> rbuf \<times> buf_pool) res" where
  "read_data ioctl_ans answers q st =
     (case ioctl_ans of
        None \<Rightarrow> Inr (-1, q, st)
      | Some need_read \<Rightarrow>
         bindR (rb_reserve need_read q st) (\<lambda>(ok, q, st).
         if \<not> ok then Inr (-1, q, st)
         else
           bindR (deref_null (bp_heap st) q) (\<lambda>b.
           bindR (sys_read (nat (if need_read = 0 then cap_of m4K else need_read)) answers) (\<lambda>ans.
           case ans of
             Rd_err e \<Rightarrow> Inr (-1, q, st)
           | Rd bs \<Rightarrow>
               bindR (ensure (in_range b (io_length b) (int (length bs))) Out_Of_Bounds) (\<lambda>_.
               (let b = b\<lparr>io_data := mem_write (io_data b) (nat (io_length b)) bs\<rparr> in
                if 0 < length bs then
                  bindR (ensure (need_read \<noteq> 0 \<longrightarrow> int (length bs) = need_read) Assert_Failed) (\<lambda>_.
                  Inr (int (length bs), q, buf_put (the q) (b\<lparr>io_length := io_length b + int (length bs)\<rparr>) st))
                else Inr (0, q, buf_put (the q) b st)))))))"

text \<open>\<open>input_buf::data()\<close>: null, or the address of the pending bytes.\<close>

definition ib_data :: "rbuf \<Rightarrow> buf_pool \<Rightarrow> bytes option res" where
  "ib_data q st =
     (case q of None \<Rightarrow> Inr None | Some p \<Rightarrow> bindR (deref (bp_heap st) p) (\<lambda>b. Inr (Some (io_bytes b))))"

definition ib_adjust :: "rbuf \<Rightarrow> buf_pool \<Rightarrow> buf_pool res" where
  "ib_adjust q st =
     (case q of
        None \<Rightarrow> Inr st
      | Some p \<Rightarrow> bindR (deref (bp_heap st) p) (\<lambda>b. bindR (io_adjust b) (\<lambda>b. Inr (buf_put p b st))))"

text \<open>\<open>write2fd\<close> returns its \<open>int\<close> result and the bytes the kernel took.\<close>

definition write2fd :: "write_ans list \<Rightarrow> rbuf \<Rightarrow> buf_pool \<Rightarrow> (int \<times> bytes \<times> buf_pool) res" where
  "write2fd answers q st =
     (case q of
        None \<Rightarrow> Inl Assert_Failed
      | Some p \<Rightarrow>
         bindR (deref (bp_heap st) p) (\<lambda>b.
         bindR (ensure (io_head b = 0) Assert_Failed) (\<lambda>_.
         bindR (sys_write (nat (io_length b)) answers) (\<lambda>ans.
         case ans of
           Wr n \<Rightarrow>
             if 0 < n then
               bindR (io_adjust (io_pop (int n) b)) (\<lambda>b'.
               Inr (int n, take n (io_bytes b), buf_put p b' st))
             else Inr (0, [], st)
         | Wr_err e \<Rightarrow> Inr (if e = EAGAIN then 0 else -1, [], st)))))"

definition send_data :: "bytes \<Rightarrow> int \<Rightarrow> rbuf \<Rightarrow> buf_pool \<Rightarrow> (int \<times> rbuf \<times> buf_pool) res" where
  "send_data data datalen q st =
     bindR (rb_reserve datalen q st) (\<lambda>(ok, q, st).
     if \<not> ok then Inr (-1, q, st)
     else
       bindR (deref_null (bp_heap st) q) (\<lambda>b.
       bindR (ensure (in_range b (io_length b) datalen \<and> nat datalen \<le> length data) Out_Of_Bounds) (\<lambda>_.
       Inr (0, q, buf_put (the q)
         (b\<lparr>io_data := mem_write (io_data b) (nat (io_length b)) (take (nat datalen) data),
            io_length := io_length b + datalen\<rparr>) st))))"

section \<open>Pending bytes and the buffer invariant\<close>

definition rb_bytes :: "rbuf \<Rightarrow> buf_pool \<Rightarrow> bytes" where
  "rb_bytes q st = (case q of None \<Rightarrow> [] | Some p \<Rightarrow> (case bp_heap st p of None \<Rightarrow> [] | Some b \<Rightarrow> io_bytes b))"

definition rb_head :: "rbuf \<Rightarrow> buf_pool \<Rightarrow> int" where
  "rb_head q st = (case q of None \<Rightarrow> 0 | Some p \<Rightarrow> (case bp_heap st p of None \<Rightarrow> 0 | Some b \<Rightarrow> io_head b))"

definition rb_owns :: "rbuf \<Rightarrow> ptr set" where
  "rb_owns q = set_option q"

text \<open>The buffer's block belongs to it and its indices are in range.\<close>

definition rb_ok :: "rbuf \<Rightarrow> buf_pool \<Rightarrow> bool" where
  "rb_ok q st \<longleftrightarrow> pool_inv st \<and> (\<forall>p. q = Some p \<longrightarrow> p \<in> owned st \<and> (\<exists>b. bp_heap st p = Some b \<and> io_wf b))"

text \<open>
  The frame of an operation on \<open>q\<close> that ends with \<open>q'\<close>: the blocks in use change only by the
  block of this buffer, and the blocks of other buffers keep their contents.
\<close>

definition rb_frame :: "rbuf \<Rightarrow> buf_pool \<Rightarrow> rbuf \<Rightarrow> buf_pool \<Rightarrow> bool" where
  "rb_frame q st q' st' \<longleftrightarrow>
     owned st' = (owned st - rb_owns q) \<union> rb_owns q' \<and> rb_owns q' \<inter> (owned st - rb_owns q) = {} \<and>
     (\<forall>p \<in> owned st - rb_owns q. bp_heap st' p = bp_heap st p)"

lemma rb_owns_simps [simp]: "rb_owns None = {}" "rb_owns (Some p) = {p}"
  by (simp_all add: rb_owns_def)

lemma rb_okD: "rb_ok (Some p) st \<Longrightarrow> pool_inv st \<and> p \<in> owned st \<and> (\<exists>b. bp_heap st p = Some b \<and> io_wf b)"
  by (simp add: rb_ok_def)

lemma rb_ok_None [simp]: "rb_ok None st \<longleftrightarrow> pool_inv st"
  by (simp add: rb_ok_def)

lemma rb_bytes_None [simp]: "rb_bytes None st = []"
  by (simp add: rb_bytes_def)

lemma rb_head_None [simp]: "rb_head None st = 0"
  by (simp add: rb_head_def)

lemma rb_frame_refl [simp]: "q' = q \<Longrightarrow> st' = st \<Longrightarrow> rb_ok q st \<Longrightarrow> rb_frame q st q' st'"
  by (cases q) (auto simp: rb_frame_def rb_ok_def)

lemma rb_frame_trans:
  assumes "rb_frame q0 s0 q1 s1" "rb_frame q1 s1 q2 s2"
  shows "rb_frame q0 s0 q2 s2"
proof -
  have "owned s1 - rb_owns q1 = owned s0 - rb_owns q0"
    using assms(1) unfolding rb_frame_def by blast
  with assms show ?thesis unfolding rb_frame_def by simp
qed

text \<open>A second buffer of the same pool is not affected by an operation on the first.\<close>

lemma rb_frame_other:
  assumes "rb_frame q st q' st'" "pool_inv st'" "rb_ok r st" "rb_owns r \<inter> rb_owns q = {}"
  shows "rb_ok r st' \<and> rb_bytes r st' = rb_bytes r st \<and> rb_head r st' = rb_head r st \<and> rb_owns r \<inter> rb_owns q' = {}"
  using assms by (cases r) (auto simp: rb_frame_def rb_ok_def rb_bytes_def rb_head_def split: option.splits)

lemma rb_length_bytes: "rb_ok q st \<Longrightarrow> rb_length q st = Inr (int (length (rb_bytes q st)))"
  by (cases q) (auto simp: rb_length_def rb_bytes_def rb_ok_def io_simps io_wf_def in_range_def)

lemma ib_data_bytes: "rb_ok q st \<Longrightarrow> ib_data q st = Inr (if q = None then None else Some (rb_bytes q st))"
  by (cases q) (auto simp: ib_data_def rb_bytes_def rb_ok_def)

lemma buf_put_rb:
  assumes "rb_ok (Some p) st" "bp_heap st p = Some b" "io_capacity b' = io_capacity b" "io_wf b'"
  shows "rb_ok (Some p) (buf_put p b' st) \<and> rb_bytes (Some p) (buf_put p b' st) = io_bytes b' \<and>
         rb_head (Some p) (buf_put p b' st) = io_head b' \<and> rb_frame (Some p) st (Some p) (buf_put p b' st)"
  using assms pool.put_inv [of st p b b'] pool.put_cell [of p b' st]
  by (auto simp: rb_ok_def rb_bytes_def rb_head_def rb_frame_def)

lemma rb_clear_ok:
  assumes "rb_ok q st"
  shows "\<exists>st'. rb_clear q st = Inr (None, st') \<and> pool_inv st' \<and> rb_frame q st None st'"
proof (cases q)
  case None
  with assms show ?thesis by (simp add: rb_clear_def rb_frame_def)
next
  case (Some p)
  with assms have p: "pool_inv st" "p \<in> owned st" by (auto simp: rb_ok_def)
  then obtain st' where st': "revert p st = Inr st'" using pool.release_ok by blast
  then show ?thesis
    using p Some pool.release_inv [OF p st'] pool.release_frame [OF p st']
    by (auto simp: rb_clear_def rb_frame_def)
qed

text \<open>\<open>pop\<close> removes exactly the first \<open>len\<close> pending bytes.\<close>

lemma rb_pop_ok:
  assumes "rb_ok q st" "0 \<le> len" "len \<le> int (length (rb_bytes q st))" "q \<noteq> None"
  shows "\<exists>q' st'. rb_pop len q st = Inr (q', st') \<and> rb_ok q' st' \<and>
           rb_bytes q' st' = drop (nat len) (rb_bytes q st) \<and> rb_frame q st q' st' \<and>
           (q' = None \<longleftrightarrow> int (length (rb_bytes q st)) = len) \<and>
           (q' \<noteq> None \<longrightarrow> q' = q \<and> rb_head q' st' = rb_head q st + len)"
proof -
  from assms(4) obtain p where q: "q = Some p" by auto
  from assms(1) q obtain b where b: "bp_heap st p = Some b" "io_wf b" by (auto simp: rb_ok_def)
  have len: "len \<le> io_length b" "int (length (rb_bytes q st)) = io_length b"
    using assms(3) b q by (auto simp: rb_bytes_def io_simps io_wf_def in_range_def)
  note put = buf_put_rb [OF assms(1)[unfolded q] b(1), of "io_pop len b"]
  have wf: "io_wf (io_pop len b)" "io_capacity (io_pop len b) = io_capacity b"
    using io_wf_pop [OF b(2) assms(2) len(1)] by (simp_all add: io_pop_def)
  let ?st = "buf_put p (io_pop len b) st"
  have bytes: "rb_bytes (Some p) ?st = drop (nat len) (rb_bytes q st)"
    using put wf io_bytes_pop [OF b(2) assms(2) len(1)] b q by (simp add: rb_bytes_def)
  show ?thesis
  proof (cases "io_length b = len")
    case True
    obtain st' where c: "rb_clear (Some p) ?st = Inr (None, st')" "pool_inv st'" "rb_frame (Some p) ?st None st'"
      using rb_clear_ok put wf by blast
    have "rb_pop len q st = Inr (None, st')"
      using True b c len q by (simp add: rb_pop_def Let_def io_pop_def)
    moreover have "drop (nat len) (rb_bytes q st) = []" using True len by simp
    ultimately show ?thesis
      using c put wf True len q by (auto intro: rb_frame_trans)
  next
    case False
    then have "rb_pop len q st = Inr (q, ?st)"
      using b len q by (simp add: rb_pop_def Let_def io_pop_def)
    moreover have "rb_head q ?st = rb_head q st + len"
      using put wf b q by (simp add: rb_head_def io_pop_def)
    ultimately show ?thesis
      using put wf bytes False len q by auto
  qed
qed

text \<open>\<open>pop\<close> aborts on an empty buffer, even when asked to remove nothing.\<close>

lemma rb_pop_null [simp]: "rb_pop len None st = Inl Assert_Failed"
  by (simp add: rb_pop_def)

lemma ib_adjust_ok:
  assumes "rb_ok q st"
  shows "\<exists>st'. ib_adjust q st = Inr st' \<and> rb_ok q st' \<and> rb_bytes q st' = rb_bytes q st \<and>
           rb_head q st' = 0 \<and> rb_frame q st q st'"
proof (cases q)
  case None
  with assms show ?thesis by (simp add: ib_adjust_def)
next
  case (Some p)
  with assms obtain b where b: "bp_heap st p = Some b" "io_wf b" by (auto simp: rb_ok_def)
  obtain b' where b': "io_adjust b = Inr b'" "io_bytes b' = io_bytes b" "io_head b' = 0" "io_wf b'"
      "io_capacity b' = io_capacity b"
    using io_adjust_ok [OF b(2)] by metis
  with b Some have "ib_adjust q st = Inr (buf_put p b' st)" by (simp add: ib_adjust_def)
  moreover have "rb_bytes q st = io_bytes b" using b Some by (simp add: rb_bytes_def)
  ultimately show ?thesis
    using buf_put_rb [OF assms[unfolded Some] b(1) b'(5,4)] b' Some by auto
qed

lemma io_wf_length: "io_wf b \<Longrightarrow> io_length b = int (length (io_bytes b))"
  by (simp add: io_simps io_wf_def in_range_def)

lemma free_cell_wf: "free_cell c b \<Longrightarrow> io_wf b \<and> io_bytes b = [] \<and> io_length b = 0 \<and> io_head b = 0"
  by (simp add: free_cell_def io_wf_def in_range_def io_bytes_def less_imp_le [OF cap_of_pos])

text \<open>
  What a successful reservation gives: a block with room for \<open>n\<close> more bytes that holds the
  same pending bytes at its start.
\<close>

definition reserve_post :: "int \<Rightarrow> rbuf \<Rightarrow> buf_pool \<Rightarrow> rbuf \<Rightarrow> buf_pool \<Rightarrow> bool" where
  "reserve_post n q st q' st' \<longleftrightarrow>
     rb_ok q' st' \<and> rb_bytes q' st' = rb_bytes q st \<and> rb_head q' st' = 0 \<and> rb_frame q st q' st' \<and>
     (\<exists>p b. q' = Some p \<and> bp_heap st' p = Some b \<and> io_length b + n \<le> io_capacity b)"

lemma rb_reserve_first:
  assumes "pool_inv st" and "alloc_buf n st = Inr (Some p, st')"
  shows "reserve_post n None st (Some p) st'"
proof -
  from alloc_buf_inv [OF assms] obtain c where c: "pick_index n = Some c" "alloc_post c p st st'" by blast
  then obtain b where b: "bp_heap st' p = Some b" "free_cell c b" by (auto simp: alloc_post_def)
  have "n \<le> io_capacity b" using b c by (auto simp: pick_index_eq_Some_iff free_cell_def)
  then show ?thesis
    using b c free_cell_wf [OF b(2)]
    by (auto simp: reserve_post_def rb_ok_def rb_bytes_def rb_head_def rb_frame_def alloc_post_def)
qed

lemma rb_reserve_grow:
  assumes ok: "rb_ok (Some p) st" and b: "bp_heap st p = Some b" and n: "n + io_length b = m" "0 \<le> n"
    and a: "alloc_buf m st = Inr (Some p', st1)"
  shows "\<exists>nb nb' st2. bp_heap st1 p' = Some nb \<and> bp_heap st1 p = Some b \<and> io_copy nb b = Inr nb' \<and>
           revert p (buf_put p' nb' st1) = Inr st2 \<and> reserve_post n (Some p) st (Some p') st2"
proof -
  from ok b have inv: "pool_inv st" "p \<in> owned st" "io_wf b" by (auto simp: rb_ok_def)
  from alloc_buf_inv [OF inv(1) a] obtain c where c: "pick_index m = Some c" "alloc_post c p' st st1" by blast
  then obtain nb where nb: "bp_heap st1 p' = Some nb" "free_cell c nb" by (auto simp: alloc_post_def)
  have cap: "m \<le> io_capacity nb" using nb c by (auto simp: pick_index_eq_Some_iff free_cell_def)
  moreover have "io_length b \<le> m" using n by simp
  ultimately obtain nb' where nb': "io_copy nb b = Inr nb'" "io_bytes nb' = io_bytes b" "io_head nb' = 0"
      "io_wf nb'" "io_length nb' = io_length b" "io_capacity nb' = io_capacity nb"
    using io_copy_ok [OF inv(3), of nb] by (metis order_trans)
  from pool.grow [OF inv(1,2) a nb(1) nb'(6)] obtain st2 where st2:
      "revert p (buf_put p' nb' st1) = Inr st2" "pool_inv st2" "owned st2 = insert p' (owned st - {p})"
      "bp_heap st2 p' = Some nb'" "\<forall>r \<in> owned st - {p}. bp_heap st2 r = bp_heap st r"
    by blast
  have old: "bp_heap st1 p = Some b" and "p' \<notin> owned st"
    using pool.alloc_frame [OF inv(1) a inv(2)] pool.alloc_owned [OF inv(1) a] b by auto
  moreover have "reserve_post n (Some p) st (Some p') st2"
    using st2 nb' cap n b \<open>p' \<notin> owned st\<close>
    by (auto simp: reserve_post_def rb_ok_def rb_bytes_def rb_head_def rb_frame_def)
  ultimately show ?thesis using nb(1) nb'(1) st2(1) by blast
qed

lemma rb_reserve_ok:
  assumes ok: "rb_ok q st" and hd: "rb_head q st = 0" and n: "0 \<le> n" "n + int (length (rb_bytes q st)) < 2 ^ 31"
  shows "case rb_reserve n q st of
           Inl e \<Rightarrow> e = Exit_1
         | Inr (done, q', st') \<Rightarrow>
             if done then reserve_post n q st q' st'
             else q' = q \<and> st' = st \<and> 8388608 < n + int (length (rb_bytes q st))"
proof (cases q)
  case None
  with ok have inv: "pool_inv st" by simp
  show ?thesis
  proof (cases "alloc_buf n st")
    case (Inl e)
    with None alloc_buf_fault [OF inv Inl] show ?thesis by (simp add: rb_reserve_def)
  next
    case (Inr x)
    obtain r st' where x: "x = (r, st')" by (cases x)
    with Inr None inv show ?thesis
      using rb_reserve_first [OF inv, of n] alloc_buf_None [OF inv, of n]
      by (cases r) (auto simp: rb_reserve_def)
  qed
next
  case (Some p)
  with ok obtain b where b: "bp_heap st p = Some b" "io_wf b" and inv: "pool_inv st" "p \<in> owned st"
    by (auto simp: rb_ok_def)
  have len: "io_length b = int (length (rb_bytes q st))"
    using b Some by (simp add: rb_bytes_def io_wf_length)
  have head: "io_head b = 0" using hd b Some by (simp add: rb_head_def)
  show ?thesis
  proof (cases "io_capacity b - io_length b < n")
    case False
    with b head Some ok show ?thesis
      by (auto simp: rb_reserve_def reserve_post_def rb_head_def)
  next
    case True
    have add: "add_i32 n (io_length b) = Inr (n + io_length b)" using n len by simp
    show ?thesis
    proof (cases "alloc_buf (n + io_length b) st")
      case (Inl e)
      with True b head Some add alloc_buf_fault [OF inv(1) Inl] show ?thesis
        by (simp add: rb_reserve_def)
    next
      case (Inr x)
      obtain r st1 where x: "x = (r, st1)" by (cases x)
      show ?thesis
      proof (cases r)
        case None
        with True b head Some add Inr x alloc_buf_None [OF inv(1), of "n + io_length b"] len show ?thesis
          by (simp add: rb_reserve_def)
      next
        case (Some p')
        with Inr x have a: "alloc_buf (n + io_length b) st = Inr (Some p', st1)" by simp
        from rb_reserve_grow [OF ok[unfolded \<open>q = Some p\<close>] b(1) refl n(1) a] obtain nb nb' st2 where
          "bp_heap st1 p' = Some nb" "bp_heap st1 p = Some b" "io_copy nb b = Inr nb'"
          "revert p (buf_put p' nb' st1) = Inr st2" "reserve_post n q st (Some p') st2"
          using \<open>q = Some p\<close> by blast
        then show ?thesis
          using True b head \<open>q = Some p\<close> add a by (simp add: rb_reserve_def)
      qed
    qed
  qed
qed

text \<open>Writing \<open>bs\<close> behind the pending bytes of a block with room for them.\<close>

definition append_at :: "bytes \<Rightarrow> io_buf \<Rightarrow> io_buf" where
  "append_at bs b = b\<lparr>io_data := mem_write (io_data b) (nat (io_length b)) bs,
                      io_length := io_length b + int (length bs)\<rparr>"

lemma append_at_ok:
  assumes "io_wf b" "io_head b = 0" "io_length b + int (length bs) \<le> io_capacity b"
  shows "io_wf (append_at bs b)" "io_bytes (append_at bs b) = io_bytes b @ bs"
    "io_capacity (append_at bs b) = io_capacity b" "io_head (append_at bs b) = 0"
    "in_range b (io_length b) (int (length bs))"
proof -
  have l: "0 \<le> io_length b" using assms by (simp add: io_wf_def in_range_def)
  then show "io_wf (append_at bs b)" "io_capacity (append_at bs b) = io_capacity b"
      "io_head (append_at bs b) = 0" "in_range b (io_length b) (int (length bs))"
    using assms by (auto simp: append_at_def io_wf_def in_range_def)
  show "io_bytes (append_at bs b) = io_bytes b @ bs"
    using mem_read_write_append [of "io_data b" 0 "nat (io_length b)" bs] l assms(2)
    by (simp add: append_at_def io_bytes_def nat_add_distrib)
qed

definition appended :: "bytes \<Rightarrow> rbuf \<Rightarrow> buf_pool \<Rightarrow> rbuf \<Rightarrow> buf_pool \<Rightarrow> bool" where
  "appended bs q st q' st' \<longleftrightarrow>
     rb_ok q' st' \<and> rb_head q' st' = 0 \<and> rb_bytes q' st' = rb_bytes q st @ bs \<and> rb_frame q st q' st' \<and> q' \<noteq> None"

lemma reserve_append:
  assumes r: "reserve_post n q st q' st'" and n: "int (length bs) \<le> n"
  obtains p b where "q' = Some p" "bp_heap st' p = Some b" "in_range b (io_length b) (int (length bs))"
    "io_length b + n \<le> io_capacity b" "0 \<le> io_length b"
    "appended bs q st q' (buf_put p (append_at bs b) st')"
proof -
  from r obtain p b where q': "q' = Some p" "bp_heap st' p = Some b" "io_length b + n \<le> io_capacity b"
    by (auto simp: reserve_post_def)
  from r q' have wf: "io_wf b" "io_head b = 0" "rb_ok (Some p) st'" "io_bytes b = rb_bytes q st"
      "rb_frame q st (Some p) st'"
    by (auto simp: reserve_post_def rb_ok_def rb_head_def rb_bytes_def)
  have fit: "io_length b + int (length bs) \<le> io_capacity b" using q'(3) n by simp
  note a = append_at_ok [OF wf(1,2) fit]
  have "appended bs q st q' (buf_put p (append_at bs b) st')"
    using buf_put_rb [OF wf(3) q'(2) a(3,1)] a wf q'(1) rb_frame_trans [OF wf(5)]
    by (auto simp: appended_def)
  moreover have "0 \<le> io_length b" using wf(1) by (simp add: io_wf_def in_range_def)
  ultimately show ?thesis using that q' a(5) by blast
qed

lemma send_data_ok:
  assumes "rb_ok q st" "rb_head q st = 0" "0 \<le> n" "nat n \<le> length data"
    and "n + int (length (rb_bytes q st)) < 2 ^ 31"
  shows "case send_data data n q st of
           Inl e \<Rightarrow> e = Exit_1
         | Inr (r, q', st') \<Rightarrow>
             if r = 0 then appended (take (nat n) data) q st q' st'
             else r = -1 \<and> q' = q \<and> st' = st \<and> 8388608 < n + int (length (rb_bytes q st))"
proof (cases "rb_reserve n q st")
  case (Inl e)
  with rb_reserve_ok [OF assms(1,2,3,5)] show ?thesis by (simp add: send_data_def)
next
  case (Inr x)
  obtain d q' st' where x: "x = (d, q', st')" by (cases x)
  show ?thesis
  proof (cases d)
    case False
    with rb_reserve_ok [OF assms(1,2,3,5)] Inr x show ?thesis by (simp add: send_data_def)
  next
    case True
    with rb_reserve_ok [OF assms(1,2,3,5)] Inr x have r: "reserve_post n q st q' st'" by simp
    let ?bs = "take (nat n) data"
    have len: "int (length ?bs) = n" using assms(3,4) by simp
    obtain p b where p: "q' = Some p" "bp_heap st' p = Some b"
        "in_range b (io_length b) (int (length ?bs))" "appended ?bs q st q' (buf_put p (append_at ?bs b) st')"
      using reserve_append [OF r eq_refl [OF len]] by blast
    with Inr x True assms(4) len show ?thesis
      by (simp add: send_data_def append_at_def)
  qed
qed

lemma sys_read_bound: "sys_read n as = Inr (Rd bs) \<Longrightarrow> length bs \<le> n"
  by (induction n as rule: sys_read.induct) (auto split: if_splits)

lemma sys_read_fault: "sys_read n as = Inl e \<Longrightarrow> e = Blocked"
  by (induction n as rule: sys_read.induct) (auto split: if_splits)

text \<open>The bytes of a successful \<open>read\<close> are appended; the other outcomes leave the bytes alone.\<close>

lemma read_data_ok:
  assumes ok: "rb_ok q st" "rb_head q st = 0" and n: "0 < n" "n + int (length (rb_bytes q st)) < 2 ^ 31"
  shows "case read_data (Some n) as q st of
           Inl e \<Rightarrow> e = Exit_1 \<or> (e = Blocked \<and> sys_read (nat n) as = Inl Blocked) \<or>
               (e = Assert_Failed \<and> (\<exists>bs. sys_read (nat n) as = Inr (Rd bs) \<and> length bs < nat n))
         | Inr (r, q', st') \<Rightarrow>
             rb_ok q' st' \<and> rb_head q' st' = 0 \<and> rb_frame q st q' st' \<and>
             (if 0 < r then r = n \<and> (\<exists>bs. sys_read (nat n) as = Inr (Rd bs) \<and> length bs = nat n \<and>
                                        rb_bytes q' st' = rb_bytes q st @ bs)
              else (r = 0 \<or> r = -1) \<and> rb_bytes q' st' = rb_bytes q st)"
proof (cases "rb_reserve n q st")
  case (Inl e)
  with rb_reserve_ok [OF ok less_imp_le [OF n(1)] n(2)] show ?thesis by (simp add: read_data_def)
next
  case (Inr x)
  obtain d q' st' where x: "x = (d, q', st')" by (cases x)
  show ?thesis
  proof (cases d)
    case False
    with rb_reserve_ok [OF ok less_imp_le [OF n(1)] n(2)] Inr x ok show ?thesis by (simp add: read_data_def)
  next
    case True
    with rb_reserve_ok [OF ok less_imp_le [OF n(1)] n(2)] Inr x have r: "reserve_post n q st q' st'" by simp
    show ?thesis
    proof (cases "sys_read (nat n) as")
      case (Inl e)
      from r obtain p b where "q' = Some p" "bp_heap st' p = Some b" by (auto simp: reserve_post_def)
      with Inl True \<open>rb_reserve n q st = Inr x\<close> x n sys_read_fault [OF Inl] show ?thesis
        by (simp add: read_data_def)
    next
      case ans: (Inr a)
      show ?thesis
      proof (cases a)
        case (Rd_err e)
        from r obtain p b where "q' = Some p" "bp_heap st' p = Some b" by (auto simp: reserve_post_def)
        with Rd_err ans True Inr x n r show ?thesis
          by (simp add: read_data_def reserve_post_def)
      next
        case (Rd bs)
        have len: "int (length bs) \<le> n" using sys_read_bound ans Rd n by fastforce
        obtain p b where p: "q' = Some p" "bp_heap st' p = Some b"
            "in_range b (io_length b) (int (length bs))" "appended bs q st q' (buf_put p (append_at bs b) st')"
          using reserve_append [OF r len] by blast
        have nil: "bs = [] \<Longrightarrow> append_at bs b = b\<lparr>io_data := mem_write (io_data b) (nat (io_length b)) bs\<rparr>"
          by (simp add: append_at_def)
        show ?thesis
          using Inr x True p ans Rd len n nil
          by (auto simp: read_data_def appended_def append_at_def Let_def ensure_def)
      qed
    qed
  qed
qed

lemma sys_write_bound: "sys_write n as = Inr (Wr k) \<Longrightarrow> k \<le> n"
  by (induction n as rule: sys_write.induct) (auto split: if_splits)

lemma sys_write_fault: "sys_write n as = Inl e \<Longrightarrow> e = Blocked"
  by (induction n as rule: sys_write.induct) (auto split: if_splits)

text \<open>
  \<open>write2fd\<close>: the bytes the kernel took followed by the bytes still pending are the bytes that
  were pending before.
\<close>

lemma write2fd_ok:
  assumes ok: "rb_ok q st" "rb_head q st = 0" "q \<noteq> None"
  shows "case write2fd as q st of
           Inl e \<Rightarrow> e = Blocked \<and> sys_write (length (rb_bytes q st)) as = Inl Blocked
         | Inr (r, out, st') \<Rightarrow>
             rb_ok q st' \<and> rb_head q st' = 0 \<and> rb_frame q st q st' \<and> out @ rb_bytes q st' = rb_bytes q st \<and>
             (if 0 < r then r = int (length out) else out = [] \<and> (r = 0 \<or> r = -1))"
proof -
  from ok(1,3) obtain p b where q: "q = Some p" and b: "bp_heap st p = Some b" "io_wf b"
    by (auto simp: rb_ok_def)
  have bytes: "rb_bytes q st = io_bytes b" "io_head b = 0" and len: "io_length b = int (length (io_bytes b))"
    using ok(2) q b by (auto simp: rb_bytes_def rb_head_def io_wf_length)
  show ?thesis
  proof (cases "sys_write (nat (io_length b)) as")
    case (Inl e)
    moreover have "nat (io_length b) = length (io_bytes b)" using len by simp
    ultimately show ?thesis using sys_write_fault [OF Inl] q b bytes by (simp add: write2fd_def)
  next
    case (Inr a)
    show ?thesis
    proof (cases a)
      case (Wr_err e)
      with Inr q b bytes ok show ?thesis by (simp add: write2fd_def)
    next
      case (Wr n)
      with Inr sys_write_bound have n: "n \<le> nat (io_length b)" by blast
      then have n': "0 \<le> int n" "int n \<le> io_length b" using len by linarith+
      obtain b' where b': "io_adjust (io_pop (int n) b) = Inr b'" "io_bytes b' = io_bytes (io_pop (int n) b)"
          "io_head b' = 0" "io_wf b'" "io_capacity b' = io_capacity (io_pop (int n) b)"
        using io_adjust_ok [OF io_wf_pop [OF b(2) n']] by metis
      have cap: "io_capacity b' = io_capacity b" using b'(5) by (simp add: io_pop_def)
      have rest: "io_bytes b' = drop n (io_bytes b)" using b'(2) io_bytes_pop [OF b(2) n'] by simp
      have "n \<le> length (io_bytes b)" using n' len by simp
      then show ?thesis
        using Inr Wr q b bytes ok b'(1,3,4) rest buf_put_rb [OF ok(1)[unfolded q] b(1) cap b'(4)]
        by (auto simp: write2fd_def)
    qed
  qed
qed

section \<open>Properties\<close>

text \<open>
  Queueing \<open>n\<close> bytes on an output buffer appends exactly these bytes behind the pending
  ones (taking or growing the block when needed) and leaves the blocks of all other buffers
  alone; otherwise it returns \<open>-1\<close> with nothing changed because the pending bytes and the new
  ones exceed 8 MB, or the process exits because the pool's memory limit is reached. No assert
  fails and no access is out of bounds.
\<close>

theorem send_data_appends:
  assumes "rb_ok q st" "rb_head q st = 0" "0 \<le> n" "nat n \<le> length data"
    and "n + int (length (rb_bytes q st)) < 2 ^ 31"
  shows "case send_data data n q st of
           Inl e \<Rightarrow> e = Exit_1
         | Inr (r, q', st') \<Rightarrow>
             if r = 0 then appended (take (nat n) data) q st q' st'
             else r = -1 \<and> q' = q \<and> st' = st \<and> 8388608 < n + int (length (rb_bytes q st))"
  by (rule send_data_ok [OF assms])

theorem send_data_appends_witness:
  "case send_data [1, 2, 3] 2 None boot_pool of
     Inl e \<Rightarrow> e = Exit_1
   | Inr (r, q', st') \<Rightarrow> r = 0 \<and> appended [1, 2] None boot_pool q' st'"
  using send_data_appends [of None boot_pool 2 "[1, 2, 3]"]
  by (auto split: sum.splits prod.splits if_splits)

text \<open>
  When \<open>FIONREAD\<close> reports \<open>n > 0\<close> waiting bytes, \<open>read_data\<close> appends exactly the \<open>n\<close> bytes
  the kernel delivers behind the unprocessed ones, or reports end of file or an error with the
  pending bytes unchanged. It stays within its block: the only abort is the assert on a read
  that is shorter than announced.
\<close>

theorem read_data_appends:
  assumes "rb_ok q st" "rb_head q st = 0" "0 < n" "n + int (length (rb_bytes q st)) < 2 ^ 31"
  shows "case read_data (Some n) as q st of
           Inl e \<Rightarrow> e = Exit_1 \<or> (e = Blocked \<and> sys_read (nat n) as = Inl Blocked) \<or>
               (e = Assert_Failed \<and> (\<exists>bs. sys_read (nat n) as = Inr (Rd bs) \<and> length bs < nat n))
         | Inr (r, q', st') \<Rightarrow>
             rb_ok q' st' \<and> rb_head q' st' = 0 \<and> rb_frame q st q' st' \<and>
             (if 0 < r then r = n \<and> (\<exists>bs. sys_read (nat n) as = Inr (Rd bs) \<and> length bs = nat n \<and>
                                        rb_bytes q' st' = rb_bytes q st @ bs)
              else (r = 0 \<or> r = -1) \<and> rb_bytes q' st' = rb_bytes q st)"
  by (rule read_data_ok [OF assms])

theorem read_data_appends_witness:
  "case read_data (Some 2) [Rd_err EINTR, Rd [5, 6, 7]] None boot_pool of
     Inl e \<Rightarrow> e = Exit_1
   | Inr (r, q', st') \<Rightarrow> (r = 2 \<and> rb_bytes q' st' = [5, 6]) \<or> ((r = 0 \<or> r = -1) \<and> rb_bytes q' st' = [])"
  using read_data_appends [of None boot_pool 2 "[Rd_err EINTR, Rd [5, 6, 7]]"]
  by (auto split: sum.splits prod.splits if_splits)

text \<open>
  Writing a buffer to its descriptor loses and duplicates nothing: the bytes the kernel
  took followed by the bytes still pending are the bytes pending before, the result is the
  number of bytes taken (zero when the descriptor is not writable, \<open>-1\<close> on an error, both with
  nothing taken), and the remaining bytes are back at the start of the block.
\<close>

theorem write2fd_consumes:
  assumes "rb_ok q st" "rb_head q st = 0" "q \<noteq> None"
  shows "case write2fd as q st of
           Inl e \<Rightarrow> e = Blocked \<and> sys_write (length (rb_bytes q st)) as = Inl Blocked
         | Inr (r, out, st') \<Rightarrow>
             rb_ok q st' \<and> rb_head q st' = 0 \<and> rb_frame q st q st' \<and> out @ rb_bytes q st' = rb_bytes q st \<and>
             (if 0 < r then r = int (length out) else out = [] \<and> (r = 0 \<or> r = -1))"
  by (rule write2fd_ok [OF assms])

lemma send_boot:
  "\<exists>p st. send_data [1, 2, 3] 3 None boot_pool = Inr (0, Some p, st) \<and> appended [1, 2, 3] None boot_pool (Some p) st"
proof -
  obtain p st where a: "alloc_buf 100 boot_pool = Inr (Some p, st)" "owned st = {p}" using boot_alloc by blast
  have "alloc_buf 3 boot_pool = alloc_buf 100 boot_pool" by (simp add: alloc_buf_def pick_index_def)
  then have "rb_reserve 3 None boot_pool = Inr (True, Some p, st)" using a by (simp add: rb_reserve_def)
  then have "\<not> isl (send_data [1, 2, 3] 3 None boot_pool) \<or> send_data [1, 2, 3] 3 None boot_pool \<noteq> Inl Exit_1"
    by (auto simp: send_data_def bindR_eq_Inl ensure_eq_Inl deref_def split: option.splits)
  with send_data_ok [of None boot_pool 3 "[1, 2, 3]"] show ?thesis
    by (auto simp: appended_def split: sum.splits prod.splits if_splits)
qed

theorem write2fd_consumes_witness:
  "\<exists>p st. send_data [1, 2, 3] 3 None boot_pool = Inr (0, Some p, st) \<and>
     (case write2fd [Wr 2] (Some p) st of
        Inl e \<Rightarrow> False
      | Inr (r, out, st') \<Rightarrow> out @ rb_bytes (Some p) st' = [1, 2, 3])"
proof -
  obtain p st where s: "send_data [1, 2, 3] 3 None boot_pool = Inr (0, Some p, st)"
      "appended [1, 2, 3] None boot_pool (Some p) st"
    using send_boot by blast
  then have "rb_ok (Some p) st" "rb_head (Some p) st = 0" "rb_bytes (Some p) st = [1, 2, 3]"
    by (simp_all add: appended_def)
  with write2fd_consumes [of "Some p" st "[Wr 2]"] s(1) show ?thesis
    by (auto split: sum.splits prod.splits)
qed

end
