(* ===== verification/Message.thy ===== *)
theory Message
  imports Lars_Prelude
begin

text \<open>
  \<^verbatim>\<open>lars_reactor/include/message.h\<close>: the eight-byte message head that delimits messages on a
  TCP stream (two \<open>int\<close> fields, copied with \<open>memcpy\<close>, so little-endian on the x86 targets of the
  build) and the table that dispatches a message to its callback. Callbacks and their
  user data are names; what a callback does is an argument of \<open>router_call\<close>.

  \<open>parse_frames\<close> is the specification of framing: how a byte stream splits into messages. The
  lemmas show that encoding and decoding a head are inverse, that parsing inverts framing and
  that parsing can be resumed at any split of the stream.
\<close>

section \<open>Model\<close>

record msg_head =
  hd_msgid :: i32
  hd_msglen :: i32

definition MESSAGE_HEAD_LEN :: int where
  "MESSAGE_HEAD_LEN = 8"

definition MESSAGE_LENGTH_LIMIT :: int where
  "MESSAGE_LENGTH_LIMIT = 65535 - MESSAGE_HEAD_LEN"

definition le32 :: "32 word \<Rightarrow> bytes" where
  "le32 w = [ucast w, ucast (drop_bit 8 w), ucast (drop_bit 16 w), ucast (drop_bit 24 w)]"

definition of_le32 :: "byte \<Rightarrow> byte \<Rightarrow> byte \<Rightarrow> byte \<Rightarrow> 32 word" where
  "of_le32 a b c d = ucast a + push_bit 8 (ucast b) + push_bit 16 (ucast c) + push_bit 24 (ucast d)"

text \<open>The object representation of a \<open>msg_head\<close>, and the \<open>memcpy\<close> back.\<close>

definition head_bytes :: "msg_head \<Rightarrow> bytes" where
  "head_bytes h = le32 (hd_msgid h) @ le32 (hd_msglen h)"

fun head_of :: "bytes \<Rightarrow> msg_head res" where
  "head_of (a # b # c # d # e # f # g # h # _) =
     Inr \<lparr>hd_msgid = of_le32 a b c d, hd_msglen = of_le32 e f g h\<rparr>"
| "head_of _ = Inl Out_Of_Bounds"

record ('cb, 'u) msg_router =
  mr_router :: "i32 \<Rightarrow> 'cb option"
  mr_args :: "i32 \<Rightarrow> 'u option"

definition msg_router_new :: "('cb, 'u) msg_router" where
  "msg_router_new = \<lparr>mr_router = Map.empty, mr_args = Map.empty\<rparr>"

definition register_msg_router :: "i32 \<Rightarrow> 'cb \<Rightarrow> 'u \<Rightarrow> ('cb, 'u) msg_router \<Rightarrow> int \<times> ('cb, 'u) msg_router" where
  "register_msg_router msgid msg_cb user_data r =
     (if mr_router r msgid \<noteq> None then (-1, r)
      else (0, r\<lparr>mr_router := (mr_router r)(msgid \<mapsto> msg_cb), mr_args := (mr_args r)(msgid \<mapsto> user_data)\<rparr>))"

text \<open>
  \<open>msg_router::call\<close>: an unknown message id is reported and dropped; \<open>run\<close> is the behaviour of
  the callbacks on the state of the program. (\<open>_args[msgid]\<close> would insert a null argument if the
  id were missing there; \<open>router_wf\<close> shows that it never is.)
\<close>

definition router_call ::
  "('cb \<Rightarrow> 'd \<Rightarrow> i32 \<Rightarrow> i32 \<Rightarrow> 'c \<Rightarrow> 'u option \<Rightarrow> 's \<Rightarrow> 's res) \<Rightarrow> i32 \<Rightarrow> i32 \<Rightarrow> 'd \<Rightarrow> 'c \<Rightarrow>
   ('cb, 'u) msg_router \<Rightarrow> 's \<Rightarrow> 's res" where
  "router_call run msgid msglen data conn r s =
     (case mr_router r msgid of
        None \<Rightarrow> Inr s
      | Some cb \<Rightarrow> run cb data msglen msgid conn (mr_args r msgid) s)"

section \<open>Framing as a specification\<close>

definition bad_len :: "i32 \<Rightarrow> bool" where
  "bad_len l \<longleftrightarrow> MESSAGE_LENGTH_LIMIT < sint l \<or> sint l < 0"

datatype frame_end = Incomplete | Malformed

text \<open>
  The messages at the front of a byte sequence, what is left after them and why parsing
  stopped: the rest is too short for the next message, or its head has an illegal length.
\<close>

function parse_frames :: "bytes \<Rightarrow> (i32 \<times> bytes) list \<times> bytes \<times> frame_end" where
  "parse_frames bs =
     (case head_of bs of
        Inl _ \<Rightarrow> ([], bs, Incomplete)
      | Inr h \<Rightarrow>
          if bad_len (hd_msglen h) then ([], bs, Malformed)
          else (let n = nat (sint (hd_msglen h)) in
            if length bs < 8 + n then ([], bs, Incomplete)
            else (case parse_frames (drop (8 + n) bs) of
                    (ms, rest, e) \<Rightarrow> ((hd_msgid h, take n (drop 8 bs)) # ms, rest, e))))"
  by pat_completeness auto
termination
proof (relation "measure length")
  fix bs h n assume "head_of bs = Inr h" "\<not> length bs < 8 + n"
  then show "(drop (8 + n) bs, bs) \<in> measure length"
    by (cases bs) auto
qed simp

definition frame :: "i32 \<times> bytes \<Rightarrow> bytes" where
  "frame m = head_bytes \<lparr>hd_msgid = fst m, hd_msglen = of_nat (length (snd m))\<rparr> @ snd m"

section \<open>Encoding and parsing\<close>

lemma digits256: 
  fixes u :: int
  assumes "0 \<le> u" "u < 2^32"
  shows "u mod 256 + (u div 256) mod 256 * 256 + (u div 65536) mod 256 * 65536 + (u div 16777216) mod 256 * 16777216 = u"
proof -
  have a: "u = u mod 256 + (u div 256) * 256" by simp
  have b: "u div 256 = (u div 256) mod 256 + (u div 65536) * 256" 
    using div_mod_decomp_int[of "u div 256" 256] by (simp add: zdiv_zmult2_eq[symmetric])
  have c: "u div 65536 = (u div 65536) mod 256 + (u div 16777216) * 256" 
    using div_mod_decomp_int[of "u div 65536" 256] by (simp add: zdiv_zmult2_eq[symmetric])
  have "0 \<le> u div 16777216" "u div 16777216 < 256" using assms by (simp_all add: pos_imp_zdiv_nonneg_iff)
  then have d: "(u div 16777216) mod 256 = u div 16777216" by simp
  show ?thesis unfolding d using a b c by linarith
qed

lemma of_le32_le32: "of_le32 (ucast w) (ucast (drop_bit 8 w)) (ucast (drop_bit 16 w)) (ucast (drop_bit 24 w)) = w"
proof -
  let ?u = "uint w"
  have b: "0 \<le> ?u" "?u < 2 ^ 32" using uint_lt2p [of w] by simp_all
  have d: "uint (drop_bit n w) = ?u div 2 ^ n" if "n < 32" for n
    by (simp only: unsigned_drop_bit_eq) (use uint_lt2p [of w] in \<open>simp add: drop_bit_eq_div take_bit_int_eq_self\<close>)
  have e: "ucast (ucast (drop_bit n w) :: byte) = (word_of_int (?u div 2^n mod 256) :: 32 word)" if "n < 32" for n
    by (simp only: ucast_eq d [OF that] uint_word_of_int take_bit_eq_mod) simp
  have l: "8 < (32 :: nat)" "16 < (32 :: nat)" "24 < (32 :: nat)" by simp_all
  have p: "(2 :: 32 word) ^ 8 = 256" "(2 :: 32 word) ^ 16 = 65536" "(2 :: 32 word) ^ 24 = 16777216"
      "(2 :: int) ^ 8 = 256" "(2 :: int) ^ 16 = 65536" "(2 :: int) ^ 24 = 16777216"
    by simp_all
  have f: "ucast (ucast w :: byte) = (word_of_int (?u mod 256) :: 32 word)"
    by (simp only: ucast_eq  uint_word_of_int take_bit_eq_mod) simp
  have "of_le32 (ucast w) (ucast (drop_bit 8 w)) (ucast (drop_bit 16 w)) (ucast (drop_bit 24 w)) = 
    word_of_int (?u mod 256 + (?u div 256) mod 256 * 256 + (?u div 65536) mod 256 * 65536 + (?u div 16777216) mod 256 * 16777216)"
    unfolding of_le32_def e [OF l(1)] e [OF l(2)] e [OF l(3)] f push_bit_eq_mult p
    by (simp only: of_int_add of_int_mult of_int_numeral)
  also have "\<dots> = word_of_int ?u" by (simp only: digits256 [OF b])
  finally show ?thesis by simp
qed

lemma length_le32 [simp]: "length (le32 w) = 4"
  by (simp add: le32_def)

lemma length_head_bytes [simp]: "length (head_bytes h) = 8"
  by (simp add: head_bytes_def)

lemma head_of_bytes [simp]: "head_of (head_bytes h @ rest) = Inr h"
  by (simp add: head_bytes_def le32_def of_le32_le32)

lemma head_of_short: "length bs < 8 \<longleftrightarrow> head_of bs = Inl Out_Of_Bounds"
  by (cases bs rule: head_of.cases) auto

lemma head_of_prefix: "head_of bs = Inr h \<Longrightarrow> head_of (bs @ cs) = Inr h"
  by (cases bs rule: head_of.cases) auto

lemma head_of_fault: "head_of bs = Inl e \<Longrightarrow> e = Out_Of_Bounds"
  by (cases bs rule: head_of.cases) auto

lemma sint_of_nat_small: "n < 2 ^ 31 \<Longrightarrow> sint (of_nat n :: i32) = int n"
  by (simp add: signed_of_nat signed_take_bit_int_eq_self)

declare parse_frames.simps [simp del]

lemma parse_frames_frame:
  assumes "int (length (snd m)) \<le> MESSAGE_LENGTH_LIMIT"
  shows "parse_frames (frame m @ rest) = (case parse_frames rest of (ms, r, e) \<Rightarrow> (m # ms, r, e))"
proof -
  have l: "sint (of_nat (length (snd m)) :: i32) = int (length (snd m))"
    using assms by (intro sint_of_nat_small) (simp add: MESSAGE_LENGTH_LIMIT_def MESSAGE_HEAD_LEN_def)
  have "head_of (frame m @ rest) = Inr \<lparr>hd_msgid = fst m, hd_msglen = of_nat (length (snd m))\<rparr>"
    by (simp add: frame_def)
  then show ?thesis
    using assms by (subst parse_frames.simps) (simp add: l bad_len_def frame_def Let_def)
qed

lemma parse_frames_concat:
  assumes "\<forall>m \<in> set ms. int (length (snd m)) \<le> MESSAGE_LENGTH_LIMIT"
  shows "parse_frames (concat (map frame ms) @ rest) = (case parse_frames rest of (ms', r, e) \<Rightarrow> (ms @ ms', r, e))"
  using assms by (induction ms) (simp_all add: parse_frames_frame split: prod.splits)

text \<open>A part of a frame is kept until the rest has arrived.\<close>

lemma parse_frames_part:
  assumes "int (length (snd m)) \<le> MESSAGE_LENGTH_LIMIT" "frame m = bs @ cs" "cs \<noteq> []"
  shows "parse_frames bs = ([], bs, Incomplete)"
proof (cases "length bs < 8")
  case True
  then have "head_of bs = Inl Out_Of_Bounds" by (simp add: head_of_short)
  then show ?thesis by (simp add: parse_frames.simps)
next
  case False
  let ?h = "\<lparr>hd_msgid = fst m, hd_msglen = of_nat (length (snd m))\<rparr>"
  have n: "sint (of_nat (length (snd m)) :: i32) = int (length (snd m))"
    using assms(1) by (intro sint_of_nat_small) (simp add: MESSAGE_LENGTH_LIMIT_def MESSAGE_HEAD_LEN_def)
  have eq: "head_bytes ?h @ snd m = bs @ cs" using assms(2) by (cases m) (simp add: frame_def)
  have "take 8 bs = take 8 (bs @ cs)" using False by simp
  also have "\<dots> = head_bytes ?h" by (simp flip: eq)
  finally have bs: "bs = head_bytes ?h @ drop 8 bs" by (metis append_take_drop_id)
  have "length bs + length cs = 8 + length (snd m)" using arg_cong [OF eq, of length] by simp
  then have len: "length bs < 8 + length (snd m)" using assms(3) by (cases cs) simp_all
  have "head_of bs = Inr ?h" by (subst bs) simp
  then show ?thesis using n len assms(1) by (simp add: parse_frames.simps bad_len_def)
qed

text \<open>Parsing can stop at any point of the stream and continue when more bytes have arrived.\<close>

lemma parse_frames_resume:
  "parse_frames bs = (ms, rest, Incomplete) \<Longrightarrow>
   parse_frames (bs @ cs) = (case parse_frames (rest @ cs) of (ms', r, e) \<Rightarrow> (ms @ ms', r, e))"
proof (induction bs arbitrary: ms rule: parse_frames.induct)
  case (1 bs)
  show ?case
  proof (cases "head_of bs")
    case (Inl e)
    with "1.prems" show ?thesis by (simp add: parse_frames.simps [of bs] split: prod.splits)
  next
    case (Inr h)
    let ?n = "nat (sint (hd_msglen h))"
    show ?thesis
    proof (cases "bad_len (hd_msglen h) \<or> length bs < 8 + ?n")
      case True
      with "1.prems" Inr show ?thesis by (auto simp: parse_frames.simps [of bs] Let_def split: prod.splits if_splits)
    next
      case False
      then obtain ms1 where ms: "ms = (hd_msgid h, take ?n (drop 8 bs)) # ms1"
          and p: "parse_frames (drop (8 + ?n) bs) = (ms1, rest, Incomplete)"
        using "1.prems" Inr by (auto simp: parse_frames.simps [of bs] Let_def split: prod.splits if_splits)
      have "parse_frames (drop (8 + ?n) bs @ cs) = (case parse_frames (rest @ cs) of (ms', r, e) \<Rightarrow> (ms1 @ ms', r, e))"
        using "1.IH" [OF Inr _ refl _ p] False by blast
      then show ?thesis
        using False head_of_prefix [OF Inr, of cs] ms
        by (subst parse_frames.simps) (simp add: Let_def split: prod.splits)
    qed
  qed
qed

lemma parse_frames_malformed:
  "parse_frames bs = (ms, rest, Malformed) \<Longrightarrow> parse_frames (bs @ cs) = (ms, rest @ cs, Malformed)"
proof (induction bs arbitrary: ms rule: parse_frames.induct)
  case (1 bs)
  then obtain h where h: "head_of bs = Inr h" by (cases "head_of bs") (auto simp: parse_frames.simps [of bs])
  let ?n = "nat (sint (hd_msglen h))"
  show ?case
  proof (cases "bad_len (hd_msglen h) \<or> length bs < 8 + ?n")
    case True
    with "1.prems" h head_of_prefix [OF h, of cs] show ?thesis
      by (auto simp: parse_frames.simps [of bs] parse_frames.simps [of "bs @ cs"] Let_def split: prod.splits if_splits)
  next
    case False
    then obtain ms1 where ms: "ms = (hd_msgid h, take ?n (drop 8 bs)) # ms1"
        and p: "parse_frames (drop (8 + ?n) bs) = (ms1, rest, Malformed)"
      using "1.prems" h by (auto simp: parse_frames.simps [of bs] Let_def split: prod.splits if_splits)
    have "parse_frames (drop (8 + ?n) bs @ cs) = (ms1, rest @ cs, Malformed)"
      using "1.IH" [OF h _ refl _ p] False by blast
    then show ?thesis
      using False head_of_prefix [OF h, of cs] ms
      by (subst parse_frames.simps) (simp add: Let_def split: prod.splits)
  qed
qed

lemma parse_frames_length: "parse_frames bs = (ms, rest, e) \<Longrightarrow> length rest + 8 * length ms \<le> length bs"
proof (induction bs arbitrary: ms rest e rule: parse_frames.induct)
  case (1 bs)
  show ?case
  proof (cases "head_of bs")
    case (Inl e)
    with "1.prems" show ?thesis by (simp add: parse_frames.simps [of bs])
  next
    case (Inr h)
    let ?n = "nat (sint (hd_msglen h))"
    show ?thesis
    proof (cases "bad_len (hd_msglen h) \<or> length bs < 8 + ?n")
      case True
      with "1.prems" Inr show ?thesis by (auto simp: parse_frames.simps [of bs] Let_def split: if_splits)
    next
      case False
      then obtain ms1 where ms: "ms = (hd_msgid h, take ?n (drop 8 bs)) # ms1"
          and p: "parse_frames (drop (8 + ?n) bs) = (ms1, rest, e)"
        using "1.prems" Inr by (auto simp: parse_frames.simps [of bs] Let_def split: prod.splits if_splits)
      have "length rest + 8 * length ms1 \<le> length (drop (8 + ?n) bs)"
        using "1.IH" [OF Inr _ refl _ p] False by blast
      moreover have "8 + ?n \<le> length bs" using False by simp
      ultimately show ?thesis using ms by simp
    qed
  qed
qed

section \<open>The dispatch table contract\<close>

text \<open>
  A table that keeps the first registration of a key. The servers of Lars register their
  callbacks once at start; the client's lemma gives the table after any list of registrations.
\<close>

locale dispatch_table =
  fixes wf :: "'r \<Rightarrow> bool" and lookup :: "'r \<Rightarrow> 'k \<Rightarrow> 'v option" and register :: "'k \<Rightarrow> 'v \<Rightarrow> 'r \<Rightarrow> int \<times> 'r"
  assumes register_wf: "wf r \<Longrightarrow> wf (snd (register k v r))"
    and register_fresh: "wf r \<Longrightarrow> lookup r k = None \<Longrightarrow>
          fst (register k v r) = 0 \<and> lookup (snd (register k v r)) = (lookup r)(k \<mapsto> v)"
    and register_taken: "wf r \<Longrightarrow> lookup r k \<noteq> None \<Longrightarrow> register k v r = (-1, r)"
begin

lemma lookup_register:
  assumes "wf r"
  shows "lookup (snd (register k v r)) j =
     (case lookup r j of None \<Rightarrow> if j = k then Some v else None | Some w \<Rightarrow> Some w)"
  using assms by (cases "lookup r k") (auto simp: register_fresh register_taken split: option.splits)

lemma register_all_wf: "wf r \<Longrightarrow> wf (fold (\<lambda>(k, v) r. snd (register k v r)) kvs r)"
  by (induction kvs arbitrary: r) (auto simp: register_wf)

lemma lookup_register_all:
  "wf r \<Longrightarrow> lookup (fold (\<lambda>(k, v) r. snd (register k v r)) kvs r) j =
     (case lookup r j of None \<Rightarrow> map_of kvs j | Some w \<Rightarrow> Some w)"
  by (induction kvs arbitrary: r) (auto simp: lookup_register register_wf split: option.splits)

end

definition router_wf :: "('cb, 'u) msg_router \<Rightarrow> bool" where
  "router_wf r \<longleftrightarrow> dom (mr_router r) = dom (mr_args r)"

definition router_entry :: "('cb, 'u) msg_router \<Rightarrow> i32 \<Rightarrow> ('cb \<times> 'u) option" where
  "router_entry r msgid =
     (case mr_router r msgid of None \<Rightarrow> None | Some cb \<Rightarrow> map_option (Pair cb) (mr_args r msgid))"

lemma router_wf_new [simp]: "router_wf msg_router_new"
  by (simp add: router_wf_def msg_router_new_def)

lemma router_entry_new [simp]: "router_entry msg_router_new k = None"
  by (simp add: router_entry_def msg_router_new_def)

lemma router_entry_None: "router_wf r \<Longrightarrow> router_entry r k = None \<longleftrightarrow> mr_router r k = None"
  by (auto simp: router_entry_def router_wf_def split: option.splits)

interpretation router: dispatch_table router_wf router_entry "\<lambda>k (cb, u). register_msg_router k cb u"
proof unfold_locales
  fix r :: "('a, 'b) msg_router" and k and v :: "'a \<times> 'b"
  assume wf: "router_wf r"
  obtain cb u where v: "v = (cb, u)" by (cases v)
  show "router_wf (snd ((case v of (cb, u) \<Rightarrow> register_msg_router k cb u) r))"
    using wf by (simp add: v register_msg_router_def router_wf_def)
  show "fst ((case v of (cb, u) \<Rightarrow> register_msg_router k cb u) r) = 0 \<and>
        router_entry (snd ((case v of (cb, u) \<Rightarrow> register_msg_router k cb u) r)) = (router_entry r)(k \<mapsto> v)"
    if "router_entry r k = None"
  proof -
    have "mr_router r k = None" using that wf router_entry_None by blast
    then show ?thesis
      by (auto simp: v register_msg_router_def fun_eq_iff router_entry_def split: option.splits)
  qed
  show "(case v of (cb, u) \<Rightarrow> register_msg_router k cb u) r = (-1, r)"
    if "router_entry r k \<noteq> None"
    using that wf by (simp add: v register_msg_router_def router_entry_None)
qed

text \<open>A registered message id reaches exactly the callback and the argument of its first registration.\<close>

lemma router_call_entry:
  "router_wf r \<Longrightarrow> router_call run msgid msglen data conn r s =
     (case router_entry r msgid of
        None \<Rightarrow> Inr s
      | Some (cb, u) \<Rightarrow> run cb data msglen msgid conn (Some u) s)"
  by (auto simp: router_call_def router_entry_def router_wf_def split: option.splits)

section \<open>Properties\<close>

text \<open>
  The eight bytes that \<open>send_message\<close> writes for a head are read back by the receiver's
  \<open>memcpy\<close> as the same head, whatever follows them; fewer than eight bytes never yield a head.
\<close>

theorem head_roundtrip:
  "length (head_bytes h) = 8 \<and> head_of (head_bytes h @ rest) = Inr h \<and>
   (head_of bs = Inl Out_Of_Bounds \<longleftrightarrow> length bs < 8)"
  using head_of_short [of bs] by simp



text \<open>
  After any list of registrations in a fresh table, a message is handed to the callback
  and argument of the first registration of its id, and a message whose id was never registered
  changes nothing.
\<close>

theorem router_first_registration:
  fixes regs :: "(i32 \<times> 'cb \<times> 'u) list"
  shows "router_call run msgid msglen data conn
     (fold (\<lambda>(k, cb, u) r. snd (register_msg_router k cb u r)) regs msg_router_new) s =
   (case map_of regs msgid of
      None \<Rightarrow> Inr s
    | Some (cb, u) \<Rightarrow> run cb data msglen msgid conn (Some u) s)"
proof -
  let ?r = "fold (\<lambda>(k, v) r. snd ((case v of (cb, u) \<Rightarrow> register_msg_router k cb u) r)) regs msg_router_new"
  have "router_wf ?r" by (rule router.register_all_wf) simp
  then show ?thesis
    using router.lookup_register_all [of msg_router_new regs msgid]
    by (simp add: router_call_entry case_prod_unfold split: option.splits)
qed

end
