(* ===== verification/Net_Stream.thy ===== *)
theory Net_Stream
  imports Reactor_Buf Message Event_Loop
begin

text \<open>
  The stream handling that \<^verbatim>\<open>lars_reactor/src/tcp_conn.cpp\<close> and \<^verbatim>\<open>lars_reactor/src/tcp_client.cpp\<close> write out twice:
  the dispatch loop of \<open>do_read\<close>, the flush loop of \<open>do_write\<close> and the framing part of \<open>send_message\<close>. The object
  that owns the buffers lives in a program state \<open>'w\<close>; \<open>get\<close> and \<open>put\<close> access its input or output buffer together with the
  buffer pool. A callback receives an address and a length; the model hands it the bytes they delimit, or \<open>None\<close> for
  a null address.

  The lemmas are proved once, in the locale \<open>stream_handler\<close>, for every object whose accessors obey the laws of a record field and
  whose callbacks leave its unread bytes alone.
\<close>

section \<open>Model\<close>

text \<open>
  \<open>while (ibuf.length() >= MESSAGE_HEAD_LEN)\<close>. Every round that continues removes at least the head, so the callers pass one
  round more than there are unread bytes; \<open>Blocked\<close> would mean that this is not enough.
\<close>

fun read_loop ::
  "('w \<Rightarrow> (rbuf \<times> buf_pool) res) \<Rightarrow> (rbuf \<times> buf_pool \<Rightarrow> 'w \<Rightarrow> 'w) \<Rightarrow>
   (i32 \<Rightarrow> i32 \<Rightarrow> bytes option \<Rightarrow> 'w \<Rightarrow> 'w res) \<Rightarrow> ('w \<Rightarrow> 'w res) \<Rightarrow> nat \<Rightarrow> 'w \<Rightarrow> 'w res" where
  "read_loop get put call clean 0 w = Inl Blocked"
| "read_loop get put call clean (Suc n) w =
     bindR (get w) (\<lambda>(q, st).
     bindR (rb_length q st) (\<lambda>len.
     if len < MESSAGE_HEAD_LEN then Inr w
     else
       bindR (ib_data q st) (\<lambda>d.
       bindR (case d of None \<Rightarrow> Inl Null_Deref | Some bs \<Rightarrow> head_of bs) (\<lambda>head.
       if bad_len (hd_msglen head) then clean w
       else if len < MESSAGE_HEAD_LEN + sint (hd_msglen head) then Inr w
       else
         bindR (rb_pop MESSAGE_HEAD_LEN q st) (\<lambda>(q, st).
         bindR (ib_data q st) (\<lambda>d.
         bindR (call (hd_msgid head) (hd_msglen head) (map_option (take (nat (sint (hd_msglen head)))) d) (put (q, st) w)) (\<lambda>w.
         bindR (get w) (\<lambda>(q, st).
         bindR (rb_pop (sint (hd_msglen head)) q st) (\<lambda>(q, st).
         read_loop get put call clean n (put (q, st) w))))))))))"

text \<open>\<open>ibuf.adjust()\<close> at the end of \<open>do_read\<close>.\<close>

definition adjust_input ::
  "('w \<Rightarrow> (rbuf \<times> buf_pool) res) \<Rightarrow> (rbuf \<times> buf_pool \<Rightarrow> 'w \<Rightarrow> 'w) \<Rightarrow> 'w \<Rightarrow> 'w res" where
  "adjust_input get put w = bindR (get w) (\<lambda>(q, st). bindR (ib_adjust q st) (\<lambda>st. Inr (put (q, st) w)))"

definition stream_read ::
  "('w \<Rightarrow> (rbuf \<times> buf_pool) res) \<Rightarrow> (rbuf \<times> buf_pool \<Rightarrow> 'w \<Rightarrow> 'w) \<Rightarrow>
   (i32 \<Rightarrow> i32 \<Rightarrow> bytes option \<Rightarrow> 'w \<Rightarrow> 'w res) \<Rightarrow> ('w \<Rightarrow> 'w res) \<Rightarrow> int option \<Rightarrow> read_ans list \<Rightarrow> 'w \<Rightarrow> 'w res" where
  "stream_read get put call clean ioctl_ans answers w =
     bindR (get w) (\<lambda>(q, st).
     bindR (read_data ioctl_ans answers q st) (\<lambda>(ret, q, st).
     (let w = put (q, st) w in
      if ret = -1 then clean w
      else
        bindR (if ret = 0 then clean w else Inr w) (\<lambda>w.
        bindR (get w) (\<lambda>(q, st).
        bindR (rb_length q st) (\<lambda>len.
        bindR (read_loop get put call clean (Suc (nat len)) w) (\<lambda>w.
        adjust_input get put w)))))))"

text \<open>
  \<open>while (obuf.length())\<close> around \<open>write2fd\<close>; one list of kernel answers per call. \<open>True\<close> is the \<open>return\<close> after an
  error. The bytes the kernel took are collected in \<open>out\<close>.
\<close>

fun flush_loop :: "write_ans list list \<Rightarrow> bytes \<Rightarrow> rbuf \<Rightarrow> buf_pool \<Rightarrow> (bool \<times> bytes \<times> buf_pool) res" where
  "flush_loop answers out q st =
     bindR (rb_length q st) (\<lambda>len.
     if len = 0 then Inr (False, out, st)
     else
       (case answers of
          [] \<Rightarrow> Inl Blocked
        | a # answers \<Rightarrow>
            bindR (write2fd a q st) (\<lambda>(write_num, bs, st).
            if write_num = -1 then Inr (True, out, st)
            else if write_num = 0 then Inr (False, out, st)
            else flush_loop answers (out @ bs) q st)))"

declare flush_loop.simps [simp del]

text \<open>
  \<open>send_message\<close> up to the registration of the write event: the result, and whether the event has to be activated.
\<close>

definition queue_message :: "bytes \<Rightarrow> i32 \<Rightarrow> i32 \<Rightarrow> rbuf \<Rightarrow> buf_pool \<Rightarrow> (int \<times> bool \<times> rbuf \<times> buf_pool) res" where
  "queue_message data msglen msgid q st =
     bindR (rb_length q st) (\<lambda>len.
     (let active_epollout = (len = 0); head = \<lparr>hd_msgid = msgid, hd_msglen = msglen\<rparr> in
      bindR (send_data (head_bytes head) MESSAGE_HEAD_LEN q st) (\<lambda>(ret, q, st).
      if ret \<noteq> 0 then Inr (-1, False, q, st)
      else
        bindR (send_data data (sint msglen) q st) (\<lambda>(ret, q, st).
        if ret \<noteq> 0 then bindR (rb_pop MESSAGE_HEAD_LEN q st) (\<lambda>(q, st). Inr (-1, False, q, st))
        else Inr (0, active_epollout, q, st)))))"

section \<open>Reading\<close>

text \<open>The effect of one message on the application: nothing when its id is not registered.\<close>

definition app_step ::
  "('cb \<Rightarrow> 'u option \<Rightarrow> i32 \<times> bytes \<Rightarrow> 'x \<Rightarrow> 'x) \<Rightarrow> ('cb, 'u) msg_router \<Rightarrow> i32 \<times> bytes \<Rightarrow> 'x \<Rightarrow> 'x" where
  "app_step act r m x = (case mr_router r (fst m) of None \<Rightarrow> x | Some cb \<Rightarrow> act cb (mr_args r (fst m)) m x)"

text \<open>
  A stream whose last message has an empty body: \<open>pop\<close> of the head returns the block to the pool, and the \<open>pop\<close> of the body then
  meets a null buffer and aborts.
\<close>

definition empty_tail :: "(i32 \<times> bytes) list \<Rightarrow> bytes \<Rightarrow> bool" where
  "empty_tail ms rest \<longleftrightarrow> rest = [] \<and> ms \<noteq> [] \<and> snd (last ms) = []"

lemma good_len:
  assumes "\<not> bad_len l"
  shows "0 \<le> sint l" "of_nat (nat (sint l)) = l"
proof -
  show s: "0 \<le> sint l" using assms by (simp add: bad_len_def)
  have "(of_nat (nat (sint l)) :: i32) = of_int (sint l)" using s by simp
  then show "of_nat (nat (sint l)) = l" by simp
qed

lemma parse_frames_none: "parse_frames bs = ([], rest, e) \<Longrightarrow> rest = bs"
  by (subst (asm) parse_frames.simps) (auto simp: Let_def split: sum.splits if_splits prod.splits)

lemma parse_frames_nil [simp]: "parse_frames [] = ([], [], Incomplete)"
  by (subst parse_frames.simps) simp

lemma parse_frames_cons:
  assumes "head_of bs = Inr h" "\<not> bad_len (hd_msglen h)" "8 + nat (sint (hd_msglen h)) \<le> length bs"
    and "parse_frames (drop (8 + nat (sint (hd_msglen h))) bs) = (ms, rest, e)"
  shows "parse_frames bs = ((hd_msgid h, take (nat (sint (hd_msglen h))) (drop 8 bs)) # ms, rest, e)"
  using assms by (subst parse_frames.simps) (simp add: Let_def)

text \<open>A read that delivers the announced bytes, when they fit the largest block.\<close>

lemma read_data_full:
  assumes ok: "rb_ok q st" "rb_head q st = 0" and n: "0 < n" "n + int (length (rb_bytes q st)) \<le> 8388608"
    and kernel: "sys_read (nat n) as = Inr (Rd bs)" "length bs = nat n"
  shows "case read_data (Some n) as q st of
      Inl e \<Rightarrow> e = Exit_1
    | Inr (r, q', st') \<Rightarrow> r = n \<and> appended bs q st q' st'"
proof -
  have n': "0 \<le> n" "n + int (length (rb_bytes q st)) < 2 ^ 31" using n by simp_all
  note r = rb_reserve_ok [OF ok n']
  show ?thesis
  proof (cases "rb_reserve n q st")
    case (Inl e)
    with r show ?thesis by (simp add: read_data_def)
  next
    case (Inr x)
    with r n(2) obtain q' st' where x: "rb_reserve n q st = Inr (True, q', st')" "reserve_post n q st q' st'"
      by (cases x) (auto split: if_splits)
    have len: "int (length bs) = n" using kernel(2) n(1) by simp
    obtain p b where p: "q' = Some p" "bp_heap st' p = Some b"
        "in_range b (io_length b) (int (length bs))" "appended bs q st q' (buf_put p (append_at bs b) st')"
      using reserve_append [OF x(2) eq_refl [OF len]] by blast
    then show ?thesis
      using x(1) kernel(1) len n(1) by (auto simp: read_data_def append_at_def Let_def)
  qed
qed

text \<open>
  The object is described by \<open>inv ms\<close>, which may depend on the messages \<open>ms\<close> that have still to be delivered: what a callback may rely on, and
  what is true when the last one has returned.
\<close>

locale stream_handler =
  fixes get :: "'w \<Rightarrow> (rbuf \<times> buf_pool) res" and put :: "rbuf \<times> buf_pool \<Rightarrow> 'w \<Rightarrow> 'w"
    and call :: "i32 \<Rightarrow> i32 \<Rightarrow> bytes option \<Rightarrow> 'w \<Rightarrow> 'w res" and clean :: "'w \<Rightarrow> 'w res"
    and inv :: "(i32 \<times> bytes) list \<Rightarrow> 'w \<Rightarrow> bool" and faults :: "fault set"
  assumes get_ok: "inv ms w \<Longrightarrow> \<exists>q st. get w = Inr (q, st) \<and> rb_ok q st"
    and put_ok: "inv ms w \<Longrightarrow> get w = Inr (q, st) \<Longrightarrow> rb_ok q' st' \<Longrightarrow> rb_frame q st q' st' \<Longrightarrow>
      inv ms (put (q', st') w) \<and> get (put (q', st') w) = Inr (q', st')"
    and call_ok: "inv ((msgid, body) # ms) w \<Longrightarrow> get w = Inr (q, st) \<Longrightarrow> d = Some body \<or> d = None \<and> body = [] \<Longrightarrow>
      (case call msgid (of_nat (length body)) d w of
         Inl e \<Rightarrow> e \<in> faults
       | Inr w' \<Rightarrow> inv ms w' \<and>
           (\<exists>st'. get w' = Inr (q, st') \<and> rb_bytes q st' = rb_bytes q st))"
begin

definition unread :: "'w \<Rightarrow> bytes" where
  "unread w = (case get w of Inl _ \<Rightarrow> [] | Inr (q, st) \<Rightarrow> rb_bytes q st)"

text \<open>The outcome of the loop, given how the unread bytes split into messages.\<close>

definition loop_post :: "(i32 \<times> bytes) list \<times> bytes \<times> frame_end \<Rightarrow> 'w res \<Rightarrow> bool" where
  "loop_post p r =
     (case p of (ms, rest, e) \<Rightarrow>
      (case r of
         Inl f \<Rightarrow> f \<in> faults \<or> f = Assert_Failed \<and> empty_tail ms rest \<or> e = Malformed \<and> (\<exists>w1. inv [] w1 \<and> clean w1 = Inl f)
       | Inr w' \<Rightarrow> \<not> empty_tail ms rest \<and>
           (\<exists>w1. inv [] w1 \<and> unread w1 = rest \<and> (if e = Malformed then clean w1 = Inr w' else w' = w1))))"

lemma loop_post_stop: "inv [] w \<Longrightarrow> loop_post ([], unread w, Incomplete) (Inr w)"
  by (auto simp: loop_post_def empty_tail_def)

lemma loop_post_clean: "inv [] w \<Longrightarrow> loop_post ([], unread w, Malformed) (clean w)"
  by (auto simp: loop_post_def empty_tail_def split: sum.splits)

lemma loop_post_cons:
  assumes "loop_post (ms, rest, e) r" "ms = [] \<Longrightarrow> rest = [] \<Longrightarrow> snd m \<noteq> []"
  shows "loop_post (m # ms, rest, e) r"
proof -
  have "empty_tail (m # ms) rest \<longleftrightarrow> empty_tail ms rest" using assms(2) by (auto simp: empty_tail_def)
  then show ?thesis using assms(1) by (cases r) (simp_all add: loop_post_def)
qed

text \<open>One round of the loop on a complete message.\<close>

lemma read_round:
  assumes inv: "inv ((hd_msgid h, take (nat (sint (hd_msglen h))) (drop 8 bs)) # ms) w" and u: "unread w = bs" and h: "head_of bs = Inr h" and good: "\<not> bad_len (hd_msglen h)"
    and fits: "8 + nat (sint (hd_msglen h)) \<le> length bs"
  obtains (fault) f where "f \<in> faults" "read_loop get put call clean (Suc n) w = Inl f"
  | (empty) "length bs = 8" "read_loop get put call clean (Suc n) w = Inl Assert_Failed"
  | (more) w' where "inv ms w'" "length bs \<noteq> 8"
      "unread w' = drop (8 + nat (sint (hd_msglen h))) bs" "read_loop get put call clean (Suc n) w = read_loop get put call clean n w'"
proof -
  let ?n = "nat (sint (hd_msglen h))"
  let ?body = "take ?n (drop 8 bs)"
  obtain q st where g: "get w = Inr (q, st)" and ok: "rb_ok q st" using get_ok [OF inv] by blast
  have bs: "rb_bytes q st = bs" using u by (simp add: unread_def g)
  have q: "q \<noteq> None" using fits bs by (cases q) auto
  have p8: "0 \<le> (8 :: int)" "8 \<le> int (length (rb_bytes q st))" using fits bs by simp_all
  obtain q1 st1 where pop: "rb_pop 8 q st = Inr (q1, st1)" "rb_ok q1 st1" "rb_bytes q1 st1 = drop 8 bs" "rb_frame q st q1 st1"
      "q1 = None \<longleftrightarrow> length bs = 8"
    using rb_pop_ok [OF ok p8 q] bs by auto
  define w1 where "w1 = put (q1, st1) w"
  have w1: "inv ((hd_msgid h, ?body) # ms) w1" "get w1 = Inr (q1, st1)" using put_ok [OF inv g pop(2,4)] by (simp_all add: w1_def)
  define d where "d = map_option (take ?n) (if q1 = None then None else Some (drop 8 bs))"
  have body: "d = Some ?body \<or> d = None \<and> ?body = []" using pop(5) by (auto simp: d_def)
  have l: "of_nat (length ?body) = hd_msglen h" using good_len [OF good] fits by (simp add: min_absorb2)
  note cb = call_ok [OF w1(1,2) body, unfolded l]
  have "\<not> int (length bs) < MESSAGE_HEAD_LEN + sint (hd_msglen h)" "\<not> int (length bs) < MESSAGE_HEAD_LEN"
    using fits good_len(1) [OF good] by (simp_all add: MESSAGE_HEAD_LEN_def)
  then have unf: "read_loop get put call clean (Suc n) w =
      bindR (call (hd_msgid h) (hd_msglen h) d w1) (\<lambda>w2. bindR (get w2) (\<lambda>(q, st).
      bindR (rb_pop (sint (hd_msglen h)) q st) (\<lambda>(q, st). read_loop get put call clean n (put (q, st) w2))))"
    using good pop(1,3) ib_data_bytes [OF pop(2)] ib_data_bytes [OF ok] rb_length_bytes [OF ok] q
    by (simp add: g h bs MESSAGE_HEAD_LEN_def d_def w1_def)
  show thesis
  proof (cases "call (hd_msgid h) (hd_msglen h) d w1")
    case (Inl f)
    then show ?thesis using cb unf by (intro fault) simp_all
  next
    case (Inr w2)
    then obtain st2 where w2: "inv ms w2" "get w2 = Inr (q1, st2)" "rb_bytes q1 st2 = drop 8 bs"
      using cb by (auto simp: pop(3))
    show ?thesis
    proof (cases "q1 = None")
      case True
      then show ?thesis using pop(5) unfolding unf Inr by (intro empty) (simp_all add: unf Inr w2(2) del: read_loop.simps)
    next
      case False
      have ok2: "rb_ok q1 st2" and le: "sint (hd_msglen h) \<le> int (length (rb_bytes q1 st2))"
        using get_ok [OF w2(1)] w2(2,3) fits by auto
      obtain q3 st3 where pop3: "rb_pop (sint (hd_msglen h)) q1 st2 = Inr (q3, st3)" "rb_ok q3 st3" "rb_bytes q3 st3 = drop ?n (drop 8 bs)"
          "rb_frame q1 st2 q3 st3"
        using rb_pop_ok [OF ok2 good_len(1) [OF good] le False] w2(3) by auto
      note w3 = put_ok [OF w2(1,2) pop3(2,4)]
      show ?thesis
        by (rule more [of "put (q3, st3) w2"])
          (use w3 w2 pop3(1,3) pop(5) False in \<open>simp_all add: unf Inr unread_def add.commute del: read_loop.simps\<close>)
    qed
  qed
qed

lemma read_loop_ok:
  assumes "inv (fst (parse_frames (unread w))) w" "length (unread w) < n"
  shows "loop_post (parse_frames (unread w)) (read_loop get put call clean n w)"
  using assms
proof (induction n arbitrary: w)
  case (Suc n)
  obtain q st where g: "get w = Inr (q, st)" and ok: "rb_ok q st" using get_ok [OF Suc.prems(1)] by blast
  define bs where "bs = rb_bytes q st"
  have u: "unread w = bs" by (simp add: unread_def g bs_def)
  have len: "rb_length q st = Inr (int (length bs))" unfolding bs_def by (rule rb_length_bytes [OF ok])
  show ?case
  proof (cases "head_of bs")
    case (Inl e)
    then have "length bs < 8" using head_of_fault head_of_short by blast
    then have "read_loop get put call clean (Suc n) w = Inr w" by (simp add: g len MESSAGE_HEAD_LEN_def)
    moreover have "parse_frames bs = ([], bs, Incomplete)" using Inl by (subst parse_frames.simps) simp
    ultimately show ?thesis using loop_post_stop [of w] Suc.prems(1) u by simp
  next
    case (Inr h)
    let ?n = "nat (sint (hd_msglen h))"
    have long: "8 \<le> length bs" using Inr head_of_short [of bs] by fastforce
    then have dat: "ib_data q st = Inr (Some bs)" using ib_data_bytes [OF ok] by (cases q) (simp_all add: bs_def)
    consider "bad_len (hd_msglen h)" | "\<not> bad_len (hd_msglen h)" "length bs < 8 + ?n" | "\<not> bad_len (hd_msglen h)" "8 + ?n \<le> length bs"
      by linarith
    then show ?thesis
    proof cases
      case 1
      then have "read_loop get put call clean (Suc n) w = clean w" using long by (simp add: g len dat Inr MESSAGE_HEAD_LEN_def)
      moreover have "parse_frames bs = ([], bs, Malformed)" using Inr 1 by (subst parse_frames.simps) simp
      ultimately show ?thesis using loop_post_clean [of w] Suc.prems(1) u by simp
    next
      case 2
      then have "read_loop get put call clean (Suc n) w = Inr w"
        using long by (simp add: g len dat Inr MESSAGE_HEAD_LEN_def bad_len_def) linarith
      moreover have "parse_frames bs = ([], bs, Incomplete)" using Inr 2 by (subst parse_frames.simps) (simp add: Let_def)
      ultimately show ?thesis using loop_post_stop [of w] Suc.prems(1) u by simp
    next
      case 3
      obtain ms rest e where rest: "parse_frames (drop (8 + ?n) bs) = (ms, rest, e)" by (cases "parse_frames (drop (8 + ?n) bs)")
      note p = parse_frames_cons [OF Inr 3 rest]
      have "inv ((hd_msgid h, take ?n (drop 8 bs)) # ms) w" using Suc.prems(1) u p by simp
      from this u Inr 3 show ?thesis
      proof (cases rule: read_round [where n = n])
        case (fault f)
        then show ?thesis by (simp add: u p loop_post_def del: read_loop.simps)
      next
        case empty
        then have "ms = []" "rest = []" "?n = 0" using rest 3(2) by auto
        then show ?thesis using empty(2) by (simp add: u p loop_post_def empty_tail_def del: read_loop.simps)
      next
        case (more w')
        have "length (unread w') < n" using more(3) Suc.prems(2) u long by simp
        then have "loop_post (ms, rest, e) (read_loop get put call clean n w')"
          using Suc.IH [of w'] more(1,3) rest by simp
        moreover have "take ?n (drop 8 bs) \<noteq> []" if "ms = []" "rest = []"
          using parse_frames_none [OF rest [unfolded that]] long more(2) by auto
        ultimately show ?thesis unfolding u p more(4) by (intro loop_post_cons) simp_all
      qed
    qed
  qed
qed simp

text \<open>The outcome of a read that received bytes: like that of the loop, followed by the adjustment.\<close>

definition read_post :: "(i32 \<times> bytes) list \<times> bytes \<times> frame_end \<Rightarrow> 'w res \<Rightarrow> bool" where
  "read_post p r =
     (case p of (ms, rest, e) \<Rightarrow>
      (case r of
         Inl f \<Rightarrow> f = Exit_1 \<or> f \<in> faults \<or> f = Assert_Failed \<and> empty_tail ms rest \<or>
           e = Malformed \<and> (\<exists>w1. inv [] w1 \<and> bindR (clean w1) (adjust_input get put) = Inl f)
       | Inr w' \<Rightarrow> \<not> empty_tail ms rest \<and>
           (if e = Malformed then \<exists>w1. inv [] w1 \<and> bindR (clean w1) (adjust_input get put) = Inr w'
            else inv [] w' \<and> unread w' = rest \<and> (\<exists>q st. get w' = Inr (q, st) \<and> rb_head q st = 0))))"

lemma adjust_input_ok:
  assumes "inv ms w"
  shows "\<exists>w'. adjust_input get put w = Inr w' \<and> inv ms w' \<and> unread w' = unread w \<and>
    (\<exists>q st. get w' = Inr (q, st) \<and> rb_head q st = 0)"
proof -
  obtain q st where g: "get w = Inr (q, st)" "rb_ok q st" using get_ok [OF assms] by blast
  obtain st' where a: "ib_adjust q st = Inr st'" "rb_ok q st'" "rb_bytes q st' = rb_bytes q st" "rb_head q st' = 0" "rb_frame q st q st'"
    using ib_adjust_ok [OF g(2)] by blast
  then show ?thesis using put_ok [OF assms g(1) a(2,5)] by (simp add: adjust_input_def g(1) unread_def)
qed

lemma read_post_loop:
  assumes "loop_post (ms, rest, e) r"
  shows "read_post (ms, rest, e) (bindR r (adjust_input get put))"
proof (cases r)
  case (Inl f)
  then show ?thesis using assms by (auto simp: loop_post_def read_post_def)
next
  case (Inr w')
  with assms obtain w1 where w1: "\<not> empty_tail ms rest" "inv [] w1" "unread w1 = rest"
      "if e = Malformed then clean w1 = Inr w' else w' = w1"
    by (auto simp: loop_post_def)
  show ?thesis
  proof (cases "e = Malformed")
    case True
    then have "bindR (clean w1) (adjust_input get put) = adjust_input get put w'" using w1(4) by simp
    with True w1 Inr show ?thesis by (cases "adjust_input get put w'") (auto simp: read_post_def)
  next
    case False
    then show ?thesis using w1 Inr adjust_input_ok [OF w1(2)] by (auto simp: read_post_def)
  qed
qed

lemma stream_read_ok:
  assumes inv: "inv (fst (parse_frames (unread w @ bs))) w" and g: "get w = Inr (q, st)" "rb_head q st = 0"
    and n: "0 < n" "n + int (length (unread w)) \<le> 8388608"
    and kernel: "sys_read (nat n) as = Inr (Rd bs)" "length bs = nat n"
  shows "read_post (parse_frames (unread w @ bs)) (stream_read get put call clean (Some n) as w)"
proof -
  have u: "unread w = rb_bytes q st" by (simp add: unread_def g(1))
  have ok: "rb_ok q st" using get_ok [OF inv] g(1) by auto
  note rd = read_data_full [OF ok g(2) n(1) n(2) [unfolded u] kernel]
  show ?thesis
  proof (cases "read_data (Some n) as q st")
    case (Inl e)
    with rd show ?thesis by (simp add: stream_read_def g(1) read_post_def split: prod.splits)
  next
    case (Inr x)
    with rd obtain q' st' where x: "read_data (Some n) as q st = Inr (n, q', st')" and ap: "appended bs q st q' st'" by (cases x) auto
    let ?w = "put (q', st') w"
    have a: "rb_ok q' st'" "rb_frame q st q' st'" "rb_bytes q' st' = unread w @ bs" using ap u by (simp_all add: appended_def)
    note w' = put_ok [OF inv g(1) a(1,2)]
    have u': "unread ?w = unread w @ bs" using w' a(3) by (simp add: unread_def)
    have len: "rb_length q' st' = Inr (int (length (unread w @ bs)))" using rb_length_bytes [OF a(1)] a(3) by simp
    have unf: "stream_read get put call clean (Some n) as w =
        bindR (read_loop get put call clean (Suc (length (unread w @ bs))) ?w) (adjust_input get put)"
      using n(1) w' len by (simp add: stream_read_def g(1) x Let_def nat_add_distrib del: read_loop.simps)
    obtain ms rest e where p: "parse_frames (unread w @ bs) = (ms, rest, e)" by (cases "parse_frames (unread w @ bs)")
    have "loop_post (ms, rest, e) (read_loop get put call clean (Suc (length (unread w @ bs))) ?w)"
      using read_loop_ok [of ?w "Suc (length (unread w @ bs))"] w' u' p by (simp del: read_loop.simps)
    then show ?thesis unfolding unf p by (rule read_post_loop)
  qed
qed

end

text \<open>
  The special case of callbacks whose effect on an observation \<open>obs\<close> of the object is a function \<open>step\<close> of the message: the messages are folded
  over the observation.
\<close>

locale stream_input =
  fixes get :: "'w \<Rightarrow> (rbuf \<times> buf_pool) res" and put :: "rbuf \<times> buf_pool \<Rightarrow> 'w \<Rightarrow> 'w"
    and call :: "i32 \<Rightarrow> i32 \<Rightarrow> bytes option \<Rightarrow> 'w \<Rightarrow> 'w res" and clean :: "'w \<Rightarrow> 'w res"
    and inv :: "'w \<Rightarrow> bool" and obs :: "'w \<Rightarrow> 'o" and step :: "i32 \<times> bytes \<Rightarrow> 'o \<Rightarrow> 'o" and faults :: "fault set"
  assumes get_ok: "inv w \<Longrightarrow> \<exists>q st. get w = Inr (q, st) \<and> rb_ok q st"
    and put_ok: "inv w \<Longrightarrow> get w = Inr (q, st) \<Longrightarrow> rb_ok q' st' \<Longrightarrow> rb_frame q st q' st' \<Longrightarrow>
      inv (put (q', st') w) \<and> get (put (q', st') w) = Inr (q', st') \<and> obs (put (q', st') w) = obs w"
    and call_ok: "inv w \<Longrightarrow> get w = Inr (q, st) \<Longrightarrow> d = Some body \<or> d = None \<and> body = [] \<Longrightarrow>
      (case call msgid (of_nat (length body)) d w of
         Inl e \<Rightarrow> e \<in> faults
       | Inr w' \<Rightarrow> inv w' \<and> obs w' = step (msgid, body) (obs w) \<and>
           (\<exists>st'. get w' = Inr (q, st') \<and> rb_bytes q st' = rb_bytes q st))"

sublocale stream_input \<subseteq> handled: stream_handler get put call clean "\<lambda>ms w. inv w \<and> fold step ms (obs w) = target" faults for target
proof unfold_locales
  fix w ms
  assume "inv w \<and> fold step ms (obs w) = target"
  then show "\<exists>q st. get w = Inr (q, st) \<and> rb_ok q st" using get_ok by blast
next
  fix ms w q st q' st'
  assume "inv w \<and> fold step ms (obs w) = target" "get w = Inr (q, st)" "rb_ok q' st'" "rb_frame q st q' st'"
  then show "(inv (put (q', st') w) \<and> fold step ms (obs (put (q', st') w)) = target) \<and> get (put (q', st') w) = Inr (q', st')"
    using put_ok by simp
next
  fix msgid and body :: bytes and ms w q st and d :: "bytes option"
  assume "inv w \<and> fold step ((msgid, body) # ms) (obs w) = target" "get w = Inr (q, st)" "d = Some body \<or> d = None \<and> body = []"
  then show "case call msgid (of_nat (length body)) d w of
      Inl e \<Rightarrow> e \<in> faults
    | Inr w' \<Rightarrow> (inv w' \<and> fold step ms (obs w') = target) \<and> (\<exists>st'. get w' = Inr (q, st') \<and> rb_bytes q st' = rb_bytes q st)"
    using call_ok [of w q st d body msgid] by (simp split: sum.splits)
qed

context stream_input
begin

definition unread :: "'w \<Rightarrow> bytes" where
  "unread w = (case get w of Inl _ \<Rightarrow> [] | Inr (q, st) \<Rightarrow> rb_bytes q st)"

lemma adjust_input_ok:
  assumes "inv w"
  shows "\<exists>w'. adjust_input get put w = Inr w' \<and> inv w' \<and> obs w' = obs w \<and> unread w' = unread w \<and>
    (\<exists>q st. get w' = Inr (q, st) \<and> rb_head q st = 0)"
  using handled.adjust_input_ok [of w "[]" "obs w"] assms by (auto simp: handled.unread_def unread_def)

definition read_post :: "(i32 \<times> bytes) list \<times> bytes \<times> frame_end \<Rightarrow> 'w \<Rightarrow> 'w res \<Rightarrow> bool" where
  "read_post p w r =
     (case p of (ms, rest, e) \<Rightarrow>
      (case r of
         Inl f \<Rightarrow> f = Exit_1 \<or> f \<in> faults \<or> f = Assert_Failed \<and> empty_tail ms rest \<or>
           e = Malformed \<and> (\<exists>w1. inv w1 \<and> bindR (clean w1) (adjust_input get put) = Inl f)
       | Inr w' \<Rightarrow> \<not> empty_tail ms rest \<and>
           (if e = Malformed then \<exists>w1. inv w1 \<and> bindR (clean w1) (adjust_input get put) = Inr w'
            else inv w' \<and> obs w' = fold step ms (obs w) \<and> unread w' = rest \<and> (\<exists>q st. get w' = Inr (q, st) \<and> rb_head q st = 0))))"

lemma stream_read_ok:
  assumes "inv w" "get w = Inr (q, st)" "rb_head q st = 0" "0 < n" "n + int (length (unread w)) \<le> 8388608"
    and "sys_read (nat n) as = Inr (Rd bs)" "length bs = nat n"
  shows "read_post (parse_frames (unread w @ bs)) w (stream_read get put call clean (Some n) as w)"
proof -
  obtain ms rest e where p: "parse_frames (unread w @ bs) = (ms, rest, e)" by (cases "parse_frames (unread w @ bs)")
  have u: "handled.unread = unread" by (simp add: fun_eq_iff handled.unread_def unread_def)
  have "inv w \<and> fold step (fst (parse_frames (unread w @ bs))) (obs w) = fold step ms (obs w)" using assms(1) p by simp
  then have "handled.read_post (fold step ms (obs w)) (ms, rest, e) (stream_read get put call clean (Some n) as w)"
    using handled.stream_read_ok [of w bs "fold step ms (obs w)" q st n as] assms p by (simp add: u)
  then show ?thesis unfolding p handled.read_post_def read_post_def u by (auto split: sum.splits if_splits)
qed

end

section \<open>Writing\<close>

text \<open>The flush sends a prefix of the pending bytes and keeps the rest.\<close>

lemma flush_loop_ok:
  assumes "rb_ok q st" "rb_head q st = 0"
  shows "case flush_loop answers out q st of
      Inl e \<Rightarrow> e = Blocked
    | Inr (err, out', st') \<Rightarrow>
        rb_ok q st' \<and> rb_head q st' = 0 \<and> rb_frame q st q st' \<and> (\<exists>bs. out' = out @ bs \<and> bs @ rb_bytes q st' = rb_bytes q st)"
  using assms
proof (induction answers arbitrary: out st)
  case Nil
  then show ?case by (simp add: flush_loop.simps [of "[]"] rb_length_bytes)
next
  case (Cons a answers)
  note len = rb_length_bytes [OF Cons.prems(1)]
  show ?case
  proof (cases "rb_bytes q st = []")
    case True
    then show ?thesis using Cons.prems len by (simp add: flush_loop.simps [of "a # answers"])
  next
    case False
    then have "q \<noteq> None" by (cases q) simp_all
    note wr = write2fd_ok [OF Cons.prems this, of a]
    show ?thesis
    proof (cases "write2fd a q st")
      case (Inl e)
      then show ?thesis using wr False len by (simp add: flush_loop.simps [of "a # answers"])
    next
      case (Inr x)
      then obtain r bs st1 where x: "write2fd a q st = Inr (r, bs, st1)" by (cases x) simp
      with wr have w: "rb_ok q st1" "rb_head q st1 = 0" "rb_frame q st q st1" "bs @ rb_bytes q st1 = rb_bytes q st"
          "r \<le> 0 \<Longrightarrow> bs = []"
        by (auto split: if_splits)
      have unf: "flush_loop (a # answers) out q st =
          (if r = -1 then Inr (True, out, st1) else if r = 0 then Inr (False, out, st1) else flush_loop answers (out @ bs) q st1)"
        using False len x by (simp add: flush_loop.simps [of "a # answers"])
      show ?thesis
      proof (cases "r = -1 \<or> r = 0")
        case True
        then show ?thesis using w by (auto simp: unf)
      next
        case False
        then have "flush_loop (a # answers) out q st = flush_loop answers (out @ bs) q st1" by (simp add: unf)
        then show ?thesis
          using Cons.IH [OF w(1,2), of "out @ bs"] w(4) rb_frame_trans [OF w(3)]
          by (auto simp: w(4) [symmetric] split: sum.splits)
      qed
    qed
  qed
qed

text \<open>A message that fits behind the pending bytes is queued as one frame.\<close>

lemma appended_trans: "appended a q st q1 st1 \<Longrightarrow> appended b q1 st1 q2 st2 \<Longrightarrow> appended (a @ b) q st q2 st2"
  by (auto simp: appended_def intro: rb_frame_trans)

lemma queue_message_ok:
  assumes ok: "rb_ok q st" "rb_head q st = 0" and len: "0 \<le> sint msglen" "nat (sint msglen) = length data"
    and fits: "8 + sint msglen + int (length (rb_bytes q st)) \<le> 8388608"
  shows "case queue_message data msglen msgid q st of
      Inl e \<Rightarrow> e = Exit_1
    | Inr (ret, active, q', st') \<Rightarrow>
        ret = 0 \<and> (active \<longleftrightarrow> rb_bytes q st = []) \<and> appended (frame (msgid, data)) q st q' st'"
proof -
  let ?hd = "head_bytes \<lparr>hd_msgid = msgid, hd_msglen = msglen\<rparr>"
  have l: "of_nat (length data) = msglen" using len by (simp flip: len(2))
  have fr: "frame (msgid, data) = ?hd @ data" by (simp add: frame_def l)
  have h: "case send_data ?hd 8 q st of
      Inl e \<Rightarrow> e = Exit_1
    | Inr (r, q', st') \<Rightarrow> if r = 0 then appended (take (nat 8) ?hd) q st q' st'
        else r = -1 \<and> q' = q \<and> st' = st \<and> 8388608 < 8 + int (length (rb_bytes q st))"
    using fits len by (intro send_data_ok [OF ok]) simp_all
  show ?thesis
  proof (cases "send_data ?hd 8 q st")
    case (Inl e)
    then show ?thesis using h by (simp add: queue_message_def rb_length_bytes [OF ok(1)] Let_def MESSAGE_HEAD_LEN_def)
  next
    case (Inr x)
    with h fits len obtain q1 st1 where x: "send_data ?hd 8 q st = Inr (0, q1, st1)" "appended ?hd q st q1 st1"
      by (cases x) (auto split: if_splits)
    then have a: "rb_ok q1 st1" "rb_head q1 st1 = 0" "rb_bytes q1 st1 = rb_bytes q st @ ?hd" by (simp_all add: appended_def)
    have d: "case send_data data (sint msglen) q1 st1 of
        Inl e \<Rightarrow> e = Exit_1
      | Inr (r, q', st') \<Rightarrow> if r = 0 then appended (take (nat (sint msglen)) data) q1 st1 q' st'
          else r = -1 \<and> q' = q1 \<and> st' = st1 \<and> 8388608 < sint msglen + int (length (rb_bytes q1 st1))"
      using fits len a(3) by (intro send_data_ok [OF a(1,2)]) simp_all
    have unf: "queue_message data msglen msgid q st = bindR (send_data data (sint msglen) q1 st1) (\<lambda>(ret, q', st').
        if ret \<noteq> 0 then bindR (rb_pop MESSAGE_HEAD_LEN q' st') (\<lambda>(q, st). Inr (-1, False, q, st))
        else Inr (0, int (length (rb_bytes q st)) = 0, q', st'))"
      using x(1) by (simp add: queue_message_def rb_length_bytes [OF ok(1)] Let_def MESSAGE_HEAD_LEN_def)
    show ?thesis
    proof (cases "send_data data (sint msglen) q1 st1")
      case (Inl e)
      then show ?thesis using d unf by simp
    next
      case (Inr y)
      with d fits len a(3) obtain q2 st2 where "send_data data (sint msglen) q1 st1 = Inr (0, q2, st2)" "appended data q1 st1 q2 st2"
        by (cases y) (auto split: if_splits)
      then show ?thesis using unf appended_trans [OF x(2)] by (simp add: fr)
    qed
  qed
qed

text \<open>Whatever the arguments, a call that returns leaves a well-formed buffer and the blocks of the others alone.\<close>

lemma rb_reserve_keeps:
  assumes ok: "rb_ok q st" and n: "n < 2 ^ 31" and res: "rb_reserve n q st = Inr (d, q', st')"
  shows "if 0 \<le> n then (if d then reserve_post n q st q' st' else q' = q \<and> st' = st) else d"
proof (cases q)
  case None
  show ?thesis
  proof (cases "0 \<le> n")
    case True
    then show ?thesis using rb_reserve_ok [OF ok _ True] None n res by (auto split: if_splits)
  next
    case False
    then show ?thesis using res None ok alloc_buf_None [of st n] by (auto simp: rb_reserve_def bindR_eq_Inr)
  qed
next
  case (Some p)
  with ok obtain b where b: "bp_heap st p = Some b" "io_wf b" by (auto simp: rb_ok_def)
  have hd: "io_head b = 0" using res Some b by (auto simp: rb_reserve_def bindR_eq_Inr ensure_eq_Inr)
  then have rh: "rb_head q st = 0" using Some b by (simp add: rb_head_def)
  show ?thesis
  proof (cases "io_capacity b - io_length b < n")
    case False
    then have "d \<and> q' = q \<and> st' = st" using res Some b hd by (simp add: rb_reserve_def)
    then show ?thesis using False ok Some b rh by (auto simp: reserve_post_def)
  next
    case True
    have "add_i32 n (io_length b) = Inr (n + io_length b)" 
      using res True Some b hd by (auto simp: rb_reserve_def bindR_eq_Inr add_i32_def split: if_splits)
    then have "n + int (length (rb_bytes q st)) < 2 ^ 31"
      using Some b io_wf_length [OF b(2)] by (auto simp: add_i32_def rb_bytes_def split: if_splits)
    moreover have "0 \<le> n" using True b(2) by (auto simp: io_wf_def in_range_def)
    ultimately show ?thesis using rb_reserve_ok [OF ok rh, of n] res by (auto split: if_splits)
  qed
qed

lemma send_data_keeps:
  assumes ok: "rb_ok q st" and n: "n < 2 ^ 31" and s: "send_data data n q st = Inr (r, q', st')"
  shows "rb_ok q' st' \<and> rb_frame q st q' st'"
proof -
  obtain d q1 st1 where res: "rb_reserve n q st = Inr (d, q1, st1)"
    using s by (auto simp: send_data_def bindR_eq_Inr)
  note k = rb_reserve_keeps [OF ok n res]
  show ?thesis
  proof (cases d)
    case False
    then show ?thesis using k s res ok by (auto simp: send_data_def split: if_splits)
  next
    case True
    then obtain b where b: "deref_null (bp_heap st1) q1 = Inr b" "in_range b (io_length b) n" "nat n \<le> length data"
        "q' = q1" "st' = buf_put (the q1) (b\<lparr>io_data := mem_write (io_data b) (nat (io_length b)) (take (nat n) data),
            io_length := io_length b + n\<rparr>) st1"
      using s res by (auto simp: send_data_def bindR_eq_Inr ensure_eq_Inr)
    have nn: "0 \<le> n" using b(2) by (simp add: in_range_def)
    then have post: "reserve_post n q st q1 st1" using k True by simp
    let ?bs = "take (nat n) data"
    have len: "int (length ?bs) = n" using nn b(3) by simp
    obtain p b' where p: "q1 = Some p" "bp_heap st1 p = Some b'" "appended ?bs q st q1 (buf_put p (append_at ?bs b') st1)"
      using reserve_append [OF post eq_refl [OF len]] by blast
    then have "st' = buf_put p (append_at ?bs b') st1" using b(1,5) len by (simp add: append_at_def)
    then show ?thesis using p b(4) by (simp add: appended_def)
  qed
qed

lemma rb_pop_keeps:
  assumes "rb_ok q st" "0 \<le> n" "rb_pop n q st = Inr (q', st')"
  shows "rb_ok q' st' \<and> rb_frame q st q' st'"
proof -
  have q: "q \<noteq> None" using assms(3) by (cases q) simp_all
  then obtain p b where p: "q = Some p" "bp_heap st p = Some b" "io_wf b" using assms(1) by (auto simp: rb_ok_def)
  then have "n \<le> int (length (rb_bytes q st))"
    using assms(3) io_wf_length [OF p(3)] by (auto simp: rb_pop_def rb_bytes_def bindR_eq_Inr ensure_eq_Inr)
  then show ?thesis using rb_pop_ok [OF assms(1,2) _ q] assms(3) by auto
qed

lemma queue_message_keeps:
  assumes ok: "rb_ok q st" and s: "queue_message data msglen msgid q st = Inr (ret, act, q', st')"
  shows "rb_ok q' st' \<and> rb_frame q st q' st'"
proof -
  let ?hd = "head_bytes \<lparr>hd_msgid = msgid, hd_msglen = msglen\<rparr>"
  obtain r q1 st1 where h: "send_data ?hd 8 q st = Inr (r, q1, st1)"
    using s by (auto simp: queue_message_def Let_def bindR_eq_Inr MESSAGE_HEAD_LEN_def)
  then have k1: "rb_ok q1 st1" "rb_frame q st q1 st1" using send_data_keeps [OF ok _ h] by simp_all
  show ?thesis
  proof (cases "r = 0")
    case False
    then show ?thesis using s h k1 by (auto simp: queue_message_def Let_def bindR_eq_Inr MESSAGE_HEAD_LEN_def)
  next
    case True
    then obtain r2 q2 st2 where d: "send_data data (sint msglen) q1 st1 = Inr (r2, q2, st2)"
        "r2 = 0 \<Longrightarrow> q' = q2 \<and> st' = st2" "r2 \<noteq> 0 \<Longrightarrow> rb_pop 8 q2 st2 = Inr (q', st')"
      using s h by (auto simp: queue_message_def Let_def bindR_eq_Inr MESSAGE_HEAD_LEN_def split: if_splits)
    have "sint msglen < 2 ^ 31" using sint_lt [of msglen] by simp
    then have k2: "rb_ok q2 st2" "rb_frame q1 st1 q2 st2" using send_data_keeps [OF k1(1) _ d(1)] by blast+
    then show ?thesis using d(2,3) rb_pop_keeps [OF k2(1), of 8 q' st'] rb_frame_trans [OF k1(2)] rb_frame_trans [OF rb_frame_trans [OF k1(2) k2(2)]]
      by (cases "r2 = 0") auto
  qed
qed

text \<open>Kernel answers without a fatal error, and a flush under them.\<close>

definition no_error :: "write_ans list list \<Rightarrow> bool" where
  "no_error answers \<longleftrightarrow> (\<forall>as \<in> set answers. \<forall>a \<in> set as. \<forall>e. a = Wr_err e \<longrightarrow> e = EINTR \<or> e = EAGAIN)"

lemma sys_write_err: "sys_write n as = Inr (Wr_err e) \<Longrightarrow> Wr_err e \<in> set as \<and> e \<noteq> EINTR"
  by (induction n as rule: sys_write.induct) (auto split: if_splits)

lemma write2fd_err:
  assumes "write2fd as q st = Inr (-1, out, st')"
  shows "\<exists>e. Wr_err e \<in> set as \<and> e \<noteq> EINTR \<and> e \<noteq> EAGAIN"
proof -
  obtain p b ans where "q = Some p" "bp_heap st p = Some b" and ans: "sys_write (nat (io_length b)) as = Inr ans"
    using assms by (auto simp: write2fd_def bindR_eq_Inr deref_eq_Inr split: option.splits)
  then have "\<exists>e. ans = Wr_err e \<and> e \<noteq> EAGAIN"
    using assms by (cases ans) (auto simp: write2fd_def bindR_eq_Inr ensure_eq_Inr split: if_splits)
  then show ?thesis using sys_write_err ans by blast
qed

lemma flush_loop_no_error:
  "no_error answers \<Longrightarrow> flush_loop answers out q st = Inr (failed, out', st') \<Longrightarrow> \<not> failed"
proof (induction answers arbitrary: out st)
  case Nil
  then show ?case by (auto simp: flush_loop.simps [of "[]"] bindR_eq_Inr split: if_splits)
next
  case (Cons a answers)
  then have "no_error answers" "\<And>out st'. write2fd a q st \<noteq> Inr (-1, out, st')"
    using write2fd_err [of a q st] unfolding no_error_def by fastforce+
  then show ?case using Cons.prems(2) Cons.IH by (auto simp: flush_loop.simps [of "a # answers"] bindR_eq_Inr split: if_splits)
qed

end
