(* ===== verification/Tcp_Conn.thy ===== *)
theory Tcp_Conn
  imports Net_Stream
begin

text \<open>
  Server-side connections: \<^verbatim>\<open>lars_reactor/include/tcp_conn.h\<close>, \<^verbatim>\<open>lars_reactor/include/net_connection.h\<close>,
  \<^verbatim>\<open>lars_reactor/src/tcp_conn.cpp\<close>, and the static connection management of \<^verbatim>\<open>lars_reactor/src/tcp_server.cpp\<close> that
  they use. The state has the objects on their heap, the event loops by address, the array \<open>conns\<close> (an entry is \<open>None\<close> until
  it is written for the first time), the static members of \<open>tcp_server\<close>, the open descriptors, the bytes written to each descriptor
  and the state \<open>'x\<close> of the application. Message callbacks and hooks are names; \<open>handlers\<close> gives their behaviour.
\<close>

section \<open>Model\<close>

datatype io_cb = Conn_Rd | Conn_Wt | Accept_Cb | Deal_Task | Task nat

record tcp_conn =
  tc_connfd :: int
  tc_loop :: ptr
  tc_obuf :: rbuf
  tc_ibuf :: rbuf

record ('cb, 'u, 'h, 'x) server_state =
  ss_pool :: buf_pool
  ss_loops :: "ptr \<Rightarrow> (io_cb, ptr) event_loop option"
  ss_heap :: "ptr \<Rightarrow> tcp_conn option"
  ss_next :: ptr
  ss_conns :: "ptr option option list"
  ss_curr_conns :: int
  ss_max_conns :: int
  ss_router :: "('cb, 'u) msg_router"
  ss_conn_start_cb :: "'h option"
  ss_conn_close_cb :: "'h option"
  ss_open :: "int set"
  ss_sent :: "int \<Rightarrow> bytes"
  ss_app :: 'x

record ('cb, 'u, 'h, 'x) handlers =
  on_message :: "'cb \<Rightarrow> bytes option \<Rightarrow> i32 \<Rightarrow> i32 \<Rightarrow> ptr \<Rightarrow> 'u option \<Rightarrow>
    ('cb, 'u, 'h, 'x) server_state \<Rightarrow> ('cb, 'u, 'h, 'x) server_state res"
  on_hook :: "'h \<Rightarrow> ptr \<Rightarrow> ('cb, 'u, 'h, 'x) server_state \<Rightarrow> ('cb, 'u, 'h, 'x) server_state res"

text \<open>Static connection management. An index outside the array is a fault.\<close>

definition increase_conn :: "int \<Rightarrow> ptr \<Rightarrow> ('cb, 'u, 'h, 'x) server_state \<Rightarrow> ('cb, 'u, 'h, 'x) server_state res" where
  "increase_conn connfd conn ss =
     bindR (ensure (0 \<le> connfd \<and> connfd < int (length (ss_conns ss))) Out_Of_Bounds) (\<lambda>_.
     Inr (ss\<lparr>ss_conns := (ss_conns ss)[nat connfd := Some (Some conn)], ss_curr_conns := ss_curr_conns ss + 1\<rparr>))"

definition decrease_conn :: "int \<Rightarrow> ('cb, 'u, 'h, 'x) server_state \<Rightarrow> ('cb, 'u, 'h, 'x) server_state res" where
  "decrease_conn connfd ss =
     bindR (ensure (0 \<le> connfd \<and> connfd < int (length (ss_conns ss))) Out_Of_Bounds) (\<lambda>_.
     Inr (ss\<lparr>ss_conns := (ss_conns ss)[nat connfd := Some None], ss_curr_conns := ss_curr_conns ss - 1\<rparr>))"

definition get_conn_num :: "('cb, 'u, 'h, 'x) server_state \<Rightarrow> int" where
  "get_conn_num ss = ss_curr_conns ss"

definition set_conn_start :: "'h \<Rightarrow> ('cb, 'u, 'h, 'x) server_state \<Rightarrow> ('cb, 'u, 'h, 'x) server_state" where
  "set_conn_start cb ss = ss\<lparr>ss_conn_start_cb := Some cb\<rparr>"

definition set_conn_close :: "'h \<Rightarrow> ('cb, 'u, 'h, 'x) server_state \<Rightarrow> ('cb, 'u, 'h, 'x) server_state" where
  "set_conn_close cb ss = ss\<lparr>ss_conn_close_cb := Some cb\<rparr>"

definition add_msg_router :: "i32 \<Rightarrow> 'cb \<Rightarrow> 'u \<Rightarrow> ('cb, 'u, 'h, 'x) server_state \<Rightarrow> ('cb, 'u, 'h, 'x) server_state" where
  "add_msg_router msgid cb user_data ss = ss\<lparr>ss_router := snd (register_msg_router msgid cb user_data (ss_router ss))\<rparr>"

text \<open>Access to the event loop and to the two buffers of a connection.\<close>

definition on_loop ::
  "ptr \<Rightarrow> ((io_cb, ptr) event_loop \<Rightarrow> (io_cb, ptr) event_loop) \<Rightarrow> ('cb, 'u, 'h, 'x) server_state \<Rightarrow> ('cb, 'u, 'h, 'x) server_state res" where
  "on_loop q f ss = bindR (deref (ss_loops ss) q) (\<lambda>l. Inr (ss\<lparr>ss_loops := (ss_loops ss)(q \<mapsto> f l)\<rparr>))"

datatype side = In | Out

fun buf_of :: "side \<Rightarrow> tcp_conn \<Rightarrow> rbuf" where
  "buf_of In c = tc_ibuf c"
| "buf_of Out c = tc_obuf c"

fun with_buf :: "side \<Rightarrow> rbuf \<Rightarrow> tcp_conn \<Rightarrow> tcp_conn" where
  "with_buf In q c = c\<lparr>tc_ibuf := q\<rparr>"
| "with_buf Out q c = c\<lparr>tc_obuf := q\<rparr>"

definition get_buf :: "side \<Rightarrow> ptr \<Rightarrow> ('cb, 'u, 'h, 'x) server_state \<Rightarrow> (rbuf \<times> buf_pool) res" where
  "get_buf s p ss = bindR (deref (ss_heap ss) p) (\<lambda>c. Inr (buf_of s c, ss_pool ss))"

definition put_buf :: "side \<Rightarrow> ptr \<Rightarrow> rbuf \<times> buf_pool \<Rightarrow> ('cb, 'u, 'h, 'x) server_state \<Rightarrow> ('cb, 'u, 'h, 'x) server_state" where
  "put_buf s p x ss =
     ss\<lparr>ss_heap := (ss_heap ss)(p := map_option (with_buf s (fst x)) (ss_heap ss p)), ss_pool := snd x\<rparr>"

definition run_hook :: "('cb, 'u, 'h, 'x) handlers \<Rightarrow> 'h option \<Rightarrow> ptr \<Rightarrow> ('cb, 'u, 'h, 'x) server_state \<Rightarrow> ('cb, 'u, 'h, 'x) server_state res" where
  "run_hook hs h p ss = (case h of None \<Rightarrow> Inr ss | Some cb \<Rightarrow> on_hook hs cb p ss)"

definition clear_buf :: "side \<Rightarrow> ptr \<Rightarrow> ('cb, 'u, 'h, 'x) server_state \<Rightarrow> ('cb, 'u, 'h, 'x) server_state res" where
  "clear_buf s p ss = bindR (get_buf s p ss) (\<lambda>(q, st). bindR (rb_clear q st) (\<lambda>x. Inr (put_buf s p x ss)))"

text \<open>\<open>tcp_conn::tcp_conn\<close>; the socket options do not influence the model.\<close>

definition tcp_conn_new ::
  "('cb, 'u, 'h, 'x) handlers \<Rightarrow> int \<Rightarrow> ptr \<Rightarrow> ('cb, 'u, 'h, 'x) server_state \<Rightarrow> (ptr \<times> ('cb, 'u, 'h, 'x) server_state) res" where
  "tcp_conn_new hs connfd loop ss =
     (let p = ss_next ss;
          ss = ss\<lparr>ss_heap := (ss_heap ss)(p \<mapsto> \<lparr>tc_connfd = connfd, tc_loop = loop, tc_obuf = reactor_buf_new, tc_ibuf = reactor_buf_new\<rparr>),
                  ss_next := p + 1\<rparr> in
      bindR (run_hook hs (ss_conn_start_cb ss) p ss) (\<lambda>ss.
      bindR (on_loop loop (add_io_event connfd Conn_Rd EPOLLIN p) ss) (\<lambda>ss.
      bindR (increase_conn connfd p ss) (\<lambda>ss.
      Inr (p, ss)))))"

definition clean_conn ::
  "('cb, 'u, 'h, 'x) handlers \<Rightarrow> ptr \<Rightarrow> ('cb, 'u, 'h, 'x) server_state \<Rightarrow> ('cb, 'u, 'h, 'x) server_state res" where
  "clean_conn hs p ss =
     bindR (run_hook hs (ss_conn_close_cb ss) p ss) (\<lambda>ss.
     bindR (deref (ss_heap ss) p) (\<lambda>c.
     bindR (decrease_conn (tc_connfd c) ss) (\<lambda>ss.
     bindR (on_loop (tc_loop c) (del_io_event (tc_connfd c)) ss) (\<lambda>ss.
     bindR (clear_buf In p ss) (\<lambda>ss.
     bindR (clear_buf Out p ss) (\<lambda>ss.
     Inr (ss\<lparr>ss_open := ss_open ss - {tc_connfd c}\<rparr>)))))))"

definition conn_do_read ::
  "('cb, 'u, 'h, 'x) handlers \<Rightarrow> int option \<Rightarrow> read_ans list \<Rightarrow> ptr \<Rightarrow> ('cb, 'u, 'h, 'x) server_state \<Rightarrow> ('cb, 'u, 'h, 'x) server_state res" where
  "conn_do_read hs ioctl_ans answers p =
     stream_read (get_buf In p) (put_buf In p)
       (\<lambda>msgid msglen data ss. router_call (on_message hs) msgid msglen data p (ss_router ss) ss)
       (clean_conn hs p) ioctl_ans answers"

definition conn_do_write ::
  "('cb, 'u, 'h, 'x) handlers \<Rightarrow> write_ans list list \<Rightarrow> ptr \<Rightarrow> ('cb, 'u, 'h, 'x) server_state \<Rightarrow> ('cb, 'u, 'h, 'x) server_state res" where
  "conn_do_write hs answers p ss =
     bindR (deref (ss_heap ss) p) (\<lambda>c.
     bindR (flush_loop answers [] (tc_obuf c) (ss_pool ss)) (\<lambda>(failed, out, st).
     (let ss = ss\<lparr>ss_pool := st, ss_sent := (ss_sent ss)(tc_connfd c := ss_sent ss (tc_connfd c) @ out)\<rparr> in
      if failed then clean_conn hs p ss
      else bindR (rb_length (tc_obuf c) st) (\<lambda>len.
           if len = 0 then on_loop (tc_loop c) (del_io_event_mask (tc_connfd c) EPOLLOUT) ss else Inr ss))))"

definition conn_send_message ::
  "bytes \<Rightarrow> i32 \<Rightarrow> i32 \<Rightarrow> ptr \<Rightarrow> ('cb, 'u, 'h, 'x) server_state \<Rightarrow> (int \<times> ('cb, 'u, 'h, 'x) server_state) res" where
  "conn_send_message data msglen msgid p ss =
     bindR (deref (ss_heap ss) p) (\<lambda>c.
     bindR (queue_message data msglen msgid (tc_obuf c) (ss_pool ss)) (\<lambda>(ret, active_epollout, q, st).
     (let ss = put_buf Out p (q, st) ss in
      bindR (if active_epollout then on_loop (tc_loop c) (add_io_event (tc_connfd c) Conn_Wt EPOLLOUT p) ss else Inr ss) (\<lambda>ss.
      Inr (ret, ss)))))"

text \<open>\<open>callback_busi\<close>, the echo handler.\<close>

definition callback_busi ::
  "bytes option \<Rightarrow> i32 \<Rightarrow> i32 \<Rightarrow> ptr \<Rightarrow> ('cb, 'u, 'h, 'x) server_state \<Rightarrow> ('cb, 'u, 'h, 'x) server_state res" where
  "callback_busi data len msgid conn ss =
     bindR (conn_send_message (case data of None \<Rightarrow> [] | Some bs \<Rightarrow> bs) len msgid conn ss) (\<lambda>(_, ss). Inr ss)"

section \<open>Ownership of the buffers\<close>

text \<open>
  Every connection has two buffers in the shared pool. \<open>bufs_ok\<close>: each is well formed, and no two of them use the same block.
\<close>

definition slot :: "('cb, 'u, 'h, 'x) server_state \<Rightarrow> ptr \<times> side \<Rightarrow> rbuf" where
  "slot ss k = (case ss_heap ss (fst k) of None \<Rightarrow> None | Some c \<Rightarrow> buf_of (snd k) c)"

definition bufs_ok :: "('cb, 'u, 'h, 'x) server_state \<Rightarrow> bool" where
  "bufs_ok ss \<longleftrightarrow>
     pool_inv (ss_pool ss) \<and> (\<forall>k. rb_ok (slot ss k) (ss_pool ss)) \<and>
     (\<forall>k k'. k \<noteq> k' \<longrightarrow> rb_owns (slot ss k) \<inter> rb_owns (slot ss k') = {}) \<and> (\<forall>p. ss_next ss \<le> p \<longrightarrow> ss_heap ss p = None)"

definition slot_bytes :: "('cb, 'u, 'h, 'x) server_state \<Rightarrow> ptr \<times> side \<Rightarrow> bytes" where
  "slot_bytes ss k = rb_bytes (slot ss k) (ss_pool ss)"

definition slot_head :: "('cb, 'u, 'h, 'x) server_state \<Rightarrow> ptr \<times> side \<Rightarrow> int" where
  "slot_head ss k = rb_head (slot ss k) (ss_pool ss)"

lemma buf_of_with [simp]: "buf_of s (with_buf s' q c) = (if s = s' then q else buf_of s c)"
  by (cases s; cases s') simp_all

lemma with_buf_fields [simp]: "tc_connfd (with_buf s q c) = tc_connfd c" "tc_loop (with_buf s q c) = tc_loop c"
  by (cases s; simp)+

lemma put_buf_fields [simp]:
  "ss_pool (put_buf s p x ss) = snd x" "ss_loops (put_buf s p x ss) = ss_loops ss" "ss_next (put_buf s p x ss) = ss_next ss"
  "ss_conns (put_buf s p x ss) = ss_conns ss" "ss_curr_conns (put_buf s p x ss) = ss_curr_conns ss"
  "ss_router (put_buf s p x ss) = ss_router ss" "ss_open (put_buf s p x ss) = ss_open ss" "ss_sent (put_buf s p x ss) = ss_sent ss"
  "ss_app (put_buf s p x ss) = ss_app ss"
  by (simp_all add: put_buf_def)

lemma slot_put_buf:
  assumes "ss_heap ss p = Some c"
  shows "slot (put_buf s p x ss) k = (if k = (p, s) then fst x else slot ss k)"
  using assms by (cases k) (auto simp: slot_def put_buf_def)

lemma slot_live: "ss_heap ss p = Some c \<Longrightarrow> slot ss (p, s) = buf_of s c"
  by (simp add: slot_def)

lemma bufs_okD:
  assumes "bufs_ok ss"
  shows "pool_inv (ss_pool ss)" "rb_ok (slot ss k) (ss_pool ss)" "k \<noteq> k' \<Longrightarrow> rb_owns (slot ss k) \<inter> rb_owns (slot ss k') = {}"
    "ss_next ss \<le> p \<Longrightarrow> ss_heap ss p = None"
  using assms unfolding bufs_ok_def by blast+

text \<open>Replacing one buffer by the result of a buffer operation keeps the ownership and the contents of all others.\<close>

lemma put_buf_ok:
  assumes inv: "bufs_ok ss" and c: "ss_heap ss p = Some c" and ok: "rb_ok q st" and fr: "rb_frame (slot ss (p, s)) (ss_pool ss) q st"
  shows "bufs_ok (put_buf s p (q, st) ss)"
    and "k \<noteq> (p, s) \<Longrightarrow> slot_bytes (put_buf s p (q, st) ss) k = slot_bytes ss k \<and> slot_head (put_buf s p (q, st) ss) k = slot_head ss k"
proof -
  note d = bufs_okD [OF inv]
  have pool: "pool_inv st" using ok by (simp add: rb_ok_def)
  have other: "rb_ok (slot ss k) st \<and> rb_bytes (slot ss k) st = rb_bytes (slot ss k) (ss_pool ss) \<and>
      rb_head (slot ss k) st = rb_head (slot ss k) (ss_pool ss) \<and> rb_owns (slot ss k) \<inter> rb_owns q = {}" if "k \<noteq> (p, s)" for k
    by (rule rb_frame_other [OF fr pool d(2) d(3) [OF that]])
  have slots: "slot (put_buf s p (q, st) ss) k = (if k = (p, s) then q else slot ss k)" for k
    using slot_put_buf [OF c, of s "(q, st)" k] by simp
  have "rb_ok (slot (put_buf s p (q, st) ss) k) st" for k using other ok by (simp add: slots)
  moreover have "rb_owns (slot (put_buf s p (q, st) ss) k) \<inter> rb_owns (slot (put_buf s p (q, st) ss) k') = {}" if "k \<noteq> k'" for k k'
    using other [of k] other [of k'] d(3) [OF that] that by (cases "k = (p, s)"; cases "k' = (p, s)") (auto simp: slots)
  moreover have "ss_heap (put_buf s p (q, st) ss) p' = None" if "ss_next ss \<le> p'" for p'
    using d(4) [OF that] c by (auto simp: put_buf_def)
  ultimately show "bufs_ok (put_buf s p (q, st) ss)" using pool unfolding bufs_ok_def by simp
  show "slot_bytes (put_buf s p (q, st) ss) k = slot_bytes ss k \<and> slot_head (put_buf s p (q, st) ss) k = slot_head ss k"
    if "k \<noteq> (p, s)"
    using other [OF that] that by (simp add: slot_bytes_def slot_head_def slots)
qed

lemma put_buf_live: "ss_heap ss p = Some c \<Longrightarrow> ss_heap (put_buf s p x ss) p = Some (with_buf s (fst x) c)"
  by (simp add: put_buf_def)

text \<open>State changes that do not concern the buffers.\<close>

lemma bufs_ok_cong:
  assumes "ss_pool ss' = ss_pool ss" "ss_heap ss' = ss_heap ss" "ss_next ss' = ss_next ss"
  shows "bufs_ok ss' \<longleftrightarrow> bufs_ok ss" "slot_bytes ss' = slot_bytes ss" "slot_head ss' = slot_head ss" "slot ss' = slot ss"
proof -
  show s: "slot ss' = slot ss" using assms by (simp add: fun_eq_iff slot_def)
  show "bufs_ok ss' \<longleftrightarrow> bufs_ok ss" using assms by (simp add: bufs_ok_def s)
  show "slot_bytes ss' = slot_bytes ss" "slot_head ss' = slot_head ss" using assms by (simp_all add: fun_eq_iff slot_bytes_def slot_head_def s)
qed

section \<open>The contract of the application\<close>

text \<open>
  A live connection: its object, its loop and its entry of the array exist.
\<close>

definition conn_live :: "ptr \<Rightarrow> int \<Rightarrow> ptr \<Rightarrow> ('cb, 'u, 'h, 'x) server_state \<Rightarrow> bool" where
  "conn_live p fd l ss \<longleftrightarrow>
     (\<exists>c. ss_heap ss p = Some c \<and> tc_connfd c = fd \<and> tc_loop c = l) \<and> ss_loops ss l \<noteq> None \<and>
     0 \<le> fd \<and> fd < int (length (ss_conns ss))"

text \<open>
  What a callback or hook of connection \<open>p\<close> leaves alone: the unread bytes of \<open>p\<close>, the routing table and the connection
  table. It may send messages, so the output buffers and the event loops may change.
\<close>

definition kept :: "ptr \<Rightarrow> ('cb, 'u, 'h, 'x) server_state \<Rightarrow> ('cb, 'u, 'h, 'x) server_state \<Rightarrow> bool" where
  "kept p ss ss' \<longleftrightarrow>
     bufs_ok ss' \<and> ss_router ss' = ss_router ss \<and> slot ss' (p, In) = slot ss (p, In) \<and> slot_bytes ss' (p, In) = slot_bytes ss (p, In) \<and>
     ss_conns ss' = ss_conns ss \<and> ss_curr_conns ss' = ss_curr_conns ss \<and> ss_open ss' = ss_open ss \<and>
     (\<forall>fd l. conn_live p fd l ss \<longrightarrow> conn_live p fd l ss')"

definition handlers_ok ::
  "('cb, 'u, 'h, 'x) handlers \<Rightarrow> ('cb \<Rightarrow> 'u option \<Rightarrow> i32 \<times> bytes \<Rightarrow> 'x \<Rightarrow> 'x) \<Rightarrow> fault set \<Rightarrow> bool" where
  "handlers_ok hs act faults \<longleftrightarrow>
     (\<forall>cb d body msgid p u fd l ss. bufs_ok ss \<and> conn_live p fd l ss \<and> (d = Some body \<or> d = None \<and> body = []) \<longrightarrow>
        (case on_message hs cb d (of_nat (length body)) msgid p u ss of
           Inl e \<Rightarrow> e \<in> faults
         | Inr ss' \<Rightarrow> kept p ss ss' \<and> ss_app ss' = act cb u (msgid, body) (ss_app ss))) \<and>
     (\<forall>h p fd l ss. bufs_ok ss \<and> conn_live p fd l ss \<longrightarrow>
        (case on_hook hs h p ss of Inl e \<Rightarrow> e \<in> faults | Inr ss' \<Rightarrow> kept p ss ss'))"

lemma kept_refl: "bufs_ok ss \<Longrightarrow> kept p ss ss"
  by (simp add: kept_def)

lemma conn_live_heap: "conn_live p fd l ss \<Longrightarrow> \<exists>c. ss_heap ss p = Some c \<and> tc_connfd c = fd \<and> tc_loop c = l"
  by (simp add: conn_live_def)

lemma conn_live_put [simp]: "conn_live p fd l (put_buf s p x ss) \<longleftrightarrow> conn_live p fd l ss"
  by (cases "ss_heap ss p") (simp_all add: conn_live_def put_buf_def)

lemma on_loop_ok:
  assumes "conn_live p fd l ss"
  shows "\<exists>lp. ss_loops ss l = Some lp \<and> on_loop l f ss = Inr (ss\<lparr>ss_loops := (ss_loops ss)(l \<mapsto> f lp)\<rparr>)"
  using assms by (auto simp: conn_live_def on_loop_def)

lemma clear_buf_ok:
  assumes "bufs_ok ss" "ss_heap ss p = Some c"
  shows "\<exists>st. clear_buf s p ss = Inr (put_buf s p (None, st) ss) \<and> bufs_ok (put_buf s p (None, st) ss)"
proof -
  have ok: "rb_ok (slot ss (p, s)) (ss_pool ss)" by (rule bufs_okD(2) [OF assms(1)])
  obtain st where st: "rb_clear (slot ss (p, s)) (ss_pool ss) = Inr (None, st)" "pool_inv st" "rb_frame (slot ss (p, s)) (ss_pool ss) None st"
    using rb_clear_ok [OF ok] by blast
  then have "bufs_ok (put_buf s p (None, st) ss)" by (intro put_buf_ok(1) [OF assms]) simp_all
  moreover have "clear_buf s p ss = Inr (put_buf s p (None, st) ss)"
    using st(1) assms(2) by (simp add: clear_buf_def get_buf_def slot_live)
  ultimately show ?thesis by blast
qed

text \<open>
  \<open>clean_conn\<close>: the descriptor is closed and forgotten by the loop and by the connection table, and both buffers are returned.
\<close>

definition closed :: "ptr \<Rightarrow> int \<Rightarrow> ptr \<Rightarrow> ('cb, 'u, 'h, 'x) server_state \<Rightarrow> bool" where
  "closed p fd l ss \<longleftrightarrow>
     conn_live p fd l ss \<and> fd \<notin> ss_open ss \<and> ss_conns ss ! nat fd = Some None \<and> slot ss (p, In) = None \<and> slot ss (p, Out) = None \<and>
     (\<exists>lp. ss_loops ss l = Some lp \<and> el_io_evs lp fd = None \<and> fd \<notin> el_listen_fds lp \<and> el_epoll lp fd = None)"

lemma del_io_event_gone: "el_io_evs (del_io_event fd l) fd = None" "fd \<notin> el_listen_fds (del_io_event fd l)"
  "el_epoll (del_io_event fd l) fd = None"
  by (simp_all add: del_io_event_def)

lemma clean_conn_hook:
  assumes inv: "conn_live p fd l ss" and Inr: "run_hook hs (ss_conn_close_cb ss) p ss = Inr s1" and k: "kept p ss s1"
  shows "\<exists>ss'. clean_conn hs p ss = Inr ss' \<and> bufs_ok ss' \<and> closed p fd l ss' \<and> ss_conns ss' = (ss_conns ss)[nat fd := Some None] \<and>
    ss_curr_conns ss' = ss_curr_conns ss - 1 \<and> ss_app ss' = ss_app s1"
proof -
  have s1: "bufs_ok s1" "conn_live p fd l s1" "ss_conns s1 = ss_conns ss" "ss_curr_conns s1 = ss_curr_conns ss"
    using k inv by (auto simp: kept_def)
  obtain c lp where c: "ss_heap s1 p = Some c" "tc_connfd c = fd" "tc_loop c = l" and lp: "ss_loops s1 l = Some lp"
      and fd: "0 \<le> fd" "fd < int (length (ss_conns s1))"
    using s1(2) unfolding conn_live_def by blast
  define s2 where "s2 = s1\<lparr>ss_conns := (ss_conns s1)[nat fd := Some None], ss_curr_conns := ss_curr_conns s1 - 1,
    ss_loops := (ss_loops s1)(l \<mapsto> del_io_event fd lp)\<rparr>"
  have b2: "bufs_ok s2" "ss_heap s2 p = Some c" using s1(1) c(1) bufs_ok_cong [of s2 s1] by (simp_all add: s2_def)
  obtain st3 where c3: "clear_buf In p s2 = Inr (put_buf In p (None, st3) s2)" and b3: "bufs_ok (put_buf In p (None, st3) s2)"
    using clear_buf_ok [OF b2] by blast
  define s3 where "s3 = put_buf In p (None, st3) s2"
  have h3: "ss_heap s3 p = Some (with_buf In None c)" using put_buf_live [OF b2(2)] by (simp add: s3_def)
  obtain st4 where c4: "clear_buf Out p s3 = Inr (put_buf Out p (None, st4) s3)" and b4: "bufs_ok (put_buf Out p (None, st4) s3)"
    using clear_buf_ok [of s3 p "with_buf In None c" Out] b3 h3 unfolding s3_def by blast
  define s4 where "s4 = (put_buf Out p (None, st4) s3)\<lparr>ss_open := ss_open (put_buf Out p (None, st4) s3) - {fd}\<rparr>"
  have "clean_conn hs p ss = Inr s4"
    using Inr c lp fd c3 c4 by (simp add: clean_conn_def decrease_conn_def on_loop_def s2_def s3_def s4_def)
  moreover have "bufs_ok s4" using b4 bufs_ok_cong(1) [of s4 "put_buf Out p (None, st4) s3"] by (simp add: s4_def)
  moreover have "closed p fd l s4"
    using c fd lp h3 del_io_event_gone [of fd lp]
    by (simp add: closed_def conn_live_def s4_def s3_def s2_def slot_def put_buf_def)
  ultimately show ?thesis using s1 by (simp add: s4_def s3_def s2_def)
qed

lemma clean_conn_ok:
  assumes hs: "handlers_ok hs act faults" and inv: "bufs_ok ss" "conn_live p fd l ss"
  shows "case clean_conn hs p ss of
      Inl e \<Rightarrow> e \<in> faults
    | Inr ss' \<Rightarrow> bufs_ok ss' \<and> closed p fd l ss' \<and> ss_conns ss' = (ss_conns ss)[nat fd := Some None] \<and>
        ss_curr_conns ss' = ss_curr_conns ss - 1"
proof (cases "run_hook hs (ss_conn_close_cb ss) p ss")
  case (Inl e)
  then show ?thesis using hs inv by (cases "ss_conn_close_cb ss") (auto simp: run_hook_def clean_conn_def handlers_ok_def split: sum.splits)
next
  case (Inr s1)
  then have "kept p ss s1" using hs inv kept_refl [OF inv(1)] by (cases "ss_conn_close_cb ss") (fastforce simp: run_hook_def handlers_ok_def split: sum.splits)+
  then show ?thesis using clean_conn_hook [OF inv(2) Inr] by auto
qed

section \<open>Reading from a connection\<close>

definition reading :: "ptr \<Rightarrow> int \<Rightarrow> ptr \<Rightarrow> ('cb, 'u) msg_router \<Rightarrow> ('cb, 'u, 'h, 'x) server_state \<Rightarrow> bool" where
  "reading p fd l r ss \<longleftrightarrow> bufs_ok ss \<and> conn_live p fd l ss \<and> ss_router ss = r"

definition conn_call ::
  "('cb, 'u, 'h, 'x) handlers \<Rightarrow> ptr \<Rightarrow> i32 \<Rightarrow> i32 \<Rightarrow> bytes option \<Rightarrow> ('cb, 'u, 'h, 'x) server_state \<Rightarrow> ('cb, 'u, 'h, 'x) server_state res" where
  "conn_call hs p msgid msglen data ss = router_call (on_message hs) msgid msglen data p (ss_router ss) ss"

lemma get_buf_slot: "conn_live p fd l ss \<Longrightarrow> get_buf s p ss = Inr (slot ss (p, s), ss_pool ss)"
  by (auto simp: get_buf_def slot_def conn_live_def)

lemma conn_call_ok:
  assumes hs: "handlers_ok hs act faults" and inv: "reading p fd l r ss" and d: "d = Some body \<or> d = None \<and> body = []"
  shows "case conn_call hs p msgid (of_nat (length body)) d ss of
      Inl e \<Rightarrow> e \<in> faults
    | Inr ss' \<Rightarrow> kept p ss ss' \<and> ss_app ss' = app_step act r (msgid, body) (ss_app ss)"
proof (cases "mr_router r msgid")
  case None
  then show ?thesis using inv kept_refl [of ss p] by (simp add: conn_call_def router_call_def reading_def app_step_def)
next
  case (Some cb)
  have r: "bufs_ok ss" "conn_live p fd l ss" "ss_router ss = r" using inv by (simp_all add: reading_def)
  then have "case on_message hs cb d (of_nat (length body)) msgid p (mr_args r msgid) ss of
      Inl e \<Rightarrow> e \<in> faults
    | Inr ss' \<Rightarrow> kept p ss ss' \<and> ss_app ss' = act cb (mr_args r msgid) (msgid, body) (ss_app ss)"
    using hs d unfolding handlers_ok_def by blast
  moreover have "app_step act r (msgid, body) x = act cb (mr_args r msgid) (msgid, body) x" for x using Some by (simp add: app_step_def)
  ultimately show ?thesis using Some r(3) by (simp add: conn_call_def router_call_def split: sum.splits)
qed

locale server_app =
  fixes hs :: "('cb, 'u, 'h, 'x) handlers" and act :: "'cb \<Rightarrow> 'u option \<Rightarrow> i32 \<times> bytes \<Rightarrow> 'x \<Rightarrow> 'x" and faults :: "fault set"
    and p :: ptr and fd :: int and l :: ptr and r :: "('cb, 'u) msg_router"
  assumes contract: "handlers_ok hs act faults"

sublocale server_app \<subseteq> conn_in: stream_input "get_buf In p" "put_buf In p" "conn_call hs p" "clean_conn hs p" "reading p fd l r" ss_app
  "app_step act r" faults
proof unfold_locales
  fix ss :: "('cb, 'u, 'h, 'x) server_state"
  assume "reading p fd l r ss"
  then show "\<exists>q st. get_buf In p ss = Inr (q, st) \<and> rb_ok q st"
    using get_buf_slot bufs_okD(2) unfolding reading_def by blast
next
  fix ss :: "('cb, 'u, 'h, 'x) server_state" and q st q' st'
  assume r: "reading p fd l r ss" "get_buf In p ss = Inr (q, st)" "rb_ok q' st'" "rb_frame q st q' st'"
  have live: "conn_live p fd l ss" using r(1) by (simp add: reading_def)
  have q: "q = slot ss (p, In)" "st = ss_pool ss" using r(2) get_buf_slot [OF live, of In] by simp_all
  obtain c where c: "ss_heap ss p = Some c" using conn_live_heap [OF live] by blast
  have "bufs_ok (put_buf In p (q', st') ss)" using r q by (intro put_buf_ok(1) [OF _ c]) (auto simp: reading_def)
  then show "reading p fd l r (put_buf In p (q', st') ss) \<and> get_buf In p (put_buf In p (q', st') ss) = Inr (q', st') \<and>
      ss_app (put_buf In p (q', st') ss) = ss_app ss"
    using r(1) live c by (simp add: reading_def get_buf_def put_buf_live)
next
  fix ss :: "('cb, 'u, 'h, 'x) server_state" and q st msgid and d :: "bytes option" and body
  assume r: "reading p fd l r ss" "get_buf In p ss = Inr (q, st)" "d = Some body \<or> d = None \<and> body = []"
  have live: "conn_live p fd l ss" using r(1) by (simp add: reading_def)
  have q: "q = slot ss (p, In)" "st = ss_pool ss" using r(2) get_buf_slot [OF live, of In] by simp_all
  have "reading p fd l r ss' \<and> (\<exists>st'. get_buf In p ss' = Inr (q, st') \<and> rb_bytes q st' = rb_bytes q st)" if k: "kept p ss ss'" for ss'
  proof -
    have "reading p fd l r ss'" "conn_live p fd l ss'" "slot ss' (p, In) = q" "rb_bytes q (ss_pool ss') = rb_bytes q st"
      using k r(1) live q by (auto simp: kept_def reading_def slot_bytes_def)
    then show ?thesis by (simp add: get_buf_slot)
  qed
  then show "case conn_call hs p msgid (of_nat (length body)) d ss of
      Inl e \<Rightarrow> e \<in> faults
    | Inr ss' \<Rightarrow> reading p fd l r ss' \<and> ss_app ss' = app_step act r (msgid, body) (ss_app ss) \<and>
        (\<exists>st'. get_buf In p ss' = Inr (q, st') \<and> rb_bytes q st' = rb_bytes q st)"
    using conn_call_ok [OF contract r(1,3), of msgid] by (auto split: sum.splits)
qed

lemma conn_do_read_stream:
  "conn_do_read hs ioctl_ans answers p = stream_read (get_buf In p) (put_buf In p) (conn_call hs p) (clean_conn hs p) ioctl_ans answers"
  by (simp add: conn_do_read_def conn_call_def [abs_def])

text \<open>After \<open>clean_conn\<close> the buffer is empty, so the final adjustment changes nothing.\<close>

lemma adjust_closed:
  assumes "closed p fd l ss" "bufs_ok ss"
  shows "\<exists>ss'. adjust_input (get_buf In p) (put_buf In p) ss = Inr ss' \<and> bufs_ok ss' \<and> closed p fd l ss'"
proof -
  have live: "conn_live p fd l ss" and n: "slot ss (p, In) = None" using assms(1) by (simp_all add: closed_def)
  obtain c where c: "ss_heap ss p = Some c" using conn_live_heap [OF live] by blast
  have "put_buf In p (None, ss_pool ss) ss = ss" using c n by (cases c) (auto simp: put_buf_def slot_def fun_upd_idem)
  moreover have "adjust_input (get_buf In p) (put_buf In p) ss = Inr (put_buf In p (None, ss_pool ss) ss)"
    using n by (simp add: adjust_input_def get_buf_slot [OF live] ib_adjust_def)
  ultimately show ?thesis using assms by simp
qed

context server_app
begin

lemma do_read_outcome:
  assumes inv: "reading p fd l r ss" and hd: "slot_head ss (p, In) = 0"
    and n: "0 < n" "n + int (length (slot_bytes ss (p, In))) \<le> 8388608"
    and kernel: "sys_read (nat n) as = Inr (Rd bs)" "length bs = nat n"
    and split: "parse_frames (slot_bytes ss (p, In) @ bs) = (ms, rest, e)"
  shows "case conn_do_read hs (Some n) as p ss of
      Inl f \<Rightarrow> f = Exit_1 \<or> f \<in> faults \<or> f = Assert_Failed \<and> empty_tail ms rest
    | Inr ss' \<Rightarrow> \<not> empty_tail ms rest \<and> bufs_ok ss' \<and>
        (if e = Malformed then closed p fd l ss'
         else conn_live p fd l ss' \<and> ss_app ss' = fold (app_step act r) ms (ss_app ss) \<and>
              slot_bytes ss' (p, In) = rest \<and> slot_head ss' (p, In) = 0)"
proof -
  have live: "conn_live p fd l ss" using inv by (simp add: reading_def)
  note g = get_buf_slot [OF live, of In]
  have u: "conn_in.unread ss = slot_bytes ss (p, In)" by (simp add: conn_in.unread_def g slot_bytes_def)
  have post: "conn_in.read_post (ms, rest, e) ss (conn_do_read hs (Some n) as p ss)"
    using conn_in.stream_read_ok [OF inv g hd [unfolded slot_head_def] n(1) n(2) [folded u] kernel] split
    by (simp add: u conn_do_read_stream)
  have fin: "case bindR (clean_conn hs p w) (adjust_input (get_buf In p) (put_buf In p)) of
      Inl f \<Rightarrow> f \<in> faults | Inr ss' \<Rightarrow> bufs_ok ss' \<and> closed p fd l ss'" if "reading p fd l r w" for w
    using clean_conn_ok [OF contract, of w p fd l] that adjust_closed [of p fd l]
    by (cases "clean_conn hs p w") (fastforce simp: reading_def)+
  show ?thesis
  proof (cases "conn_do_read hs (Some n) as p ss")
    case (Inl f)
    then show ?thesis using post fin by (fastforce simp: conn_in.read_post_def)
  next
    case (Inr ss')
    show ?thesis
    proof (cases "e = Malformed")
      case True
      then obtain w where "\<not> empty_tail ms rest" "reading p fd l r w" "bindR (clean_conn hs p w) (adjust_input (get_buf In p) (put_buf In p)) = Inr ss'"
        using post Inr by (auto simp: conn_in.read_post_def)
      with fin [of w] True Inr show ?thesis by simp
    next
      case False
      then have "\<not> empty_tail ms rest" "reading p fd l r ss'" "ss_app ss' = fold (app_step act r) ms (ss_app ss)"
          "conn_in.unread ss' = rest" "\<exists>q st. get_buf In p ss' = Inr (q, st) \<and> rb_head q st = 0"
        using post Inr by (auto simp: conn_in.read_post_def)
      then show ?thesis
        using False Inr by (auto simp: reading_def conn_in.unread_def get_buf_slot slot_bytes_def slot_head_def)
    qed
  qed
qed

end

section \<open>Writing to a connection\<close>

text \<open>\<open>send_message\<close> never touches the input side or the connection table, whatever its arguments.\<close>

lemma send_message_kept:
  assumes inv: "bufs_ok ss" "conn_live p fd l ss" and s: "conn_send_message data msglen msgid p ss = Inr (ret, ss')"
  shows "kept p ss ss' \<and> ss_app ss' = ss_app ss"
proof -
  obtain c where c: "ss_heap ss p = Some c" "tc_connfd c = fd" "tc_loop c = l" using conn_live_heap [OF inv(2)] by blast
  have o: "tc_obuf c = slot ss (p, Out)" using c by (simp add: slot_def)
  obtain r act q st where q: "queue_message data msglen msgid (slot ss (p, Out)) (ss_pool ss) = Inr (r, act, q, st)"
      and ss': "(if act then on_loop l (add_io_event fd Conn_Wt EPOLLOUT p) (put_buf Out p (q, st) ss) else Inr (put_buf Out p (q, st) ss)) = Inr ss'"
    using s c o by (auto simp: conn_send_message_def bindR_eq_Inr Let_def)
  have k: "rb_ok q st" "rb_frame (slot ss (p, Out)) (ss_pool ss) q st" using queue_message_keeps [OF bufs_okD(2) [OF inv(1)] q] by simp_all
  let ?s = "put_buf Out p (q, st) ss"
  have b: "bufs_ok ?s" "slot_bytes ?s (p, In) = slot_bytes ss (p, In)" "slot ?s (p, In) = slot ss (p, In)"
    using put_buf_ok [OF inv(1) c(1) k] slot_put_buf [OF c(1), of Out] by simp_all
  then have k0: "kept p ss ?s" by (simp add: kept_def)
  have "kept p ss (?s\<lparr>ss_loops := (ss_loops ?s)(l \<mapsto> x)\<rparr>)" for x
    using k0 bufs_ok_cong [of "?s\<lparr>ss_loops := (ss_loops ?s)(l \<mapsto> x)\<rparr>" ?s] by (simp add: kept_def conn_live_def)
  then show ?thesis using ss' k0 on_loop_ok [of p fd l ?s "add_io_event fd Conn_Wt EPOLLOUT p"] inv(2)
    by (auto split: if_splits)
qed

text \<open>The echo server, as an application that fulfils the contract.\<close>

definition echo_handlers :: "(unit, unit, unit, 'x) handlers" where
  "echo_handlers = \<lparr>on_message = (\<lambda>cb data len msgid conn u. callback_busi data len msgid conn), on_hook = (\<lambda>h p. Inr)\<rparr>"

lemma callback_busi_kept:
  assumes "bufs_ok ss" "conn_live p fd l ss" "callback_busi d len msgid p ss = Inr ss'"
  shows "kept p ss ss' \<and> ss_app ss' = ss_app ss"
  using assms send_message_kept [OF assms(1,2)] by (auto simp: callback_busi_def bindR_eq_Inr)

lemma echo_handlers_ok: "handlers_ok echo_handlers (\<lambda>cb u m x. x) UNIV"
  using callback_busi_kept by (fastforce simp: handlers_ok_def echo_handlers_def kept_refl split: sum.splits)

interpretation echo: server_app echo_handlers "\<lambda>cb u m x. x" UNIV p fd l r for p fd l r
  by unfold_locales (rule echo_handlers_ok)

text \<open>
  The output side of a connection: the bytes written and the bytes pending make up the queued stream, and while bytes
  are pending the kernel watches the descriptor for writing, with the write callback of this connection.
\<close>

definition watch_write :: "ptr \<Rightarrow> int \<Rightarrow> (io_cb, ptr) event_loop \<Rightarrow> bool" where
  "watch_write p fd lp \<longleftrightarrow>
     (\<exists>m e. el_epoll lp fd = Some m \<and> m AND EPOLLOUT \<noteq> 0 \<and> el_io_evs lp fd = Some e \<and>
            ev_write_callback e = Some Conn_Wt \<and> ev_wcb_args e = Some p)"

definition out_inv :: "ptr \<Rightarrow> int \<Rightarrow> ptr \<Rightarrow> bytes \<Rightarrow> ('cb, 'u, 'h, 'x) server_state \<Rightarrow> bool" where
  "out_inv p fd l stream ss \<longleftrightarrow>
     bufs_ok ss \<and> conn_live p fd l ss \<and> slot_head ss (p, Out) = 0 \<and> ss_sent ss fd @ slot_bytes ss (p, Out) = stream \<and>
     (\<exists>lp. ss_loops ss l = Some lp \<and> loop_inv lp \<and> (slot_bytes ss (p, Out) \<noteq> [] \<longrightarrow> watch_write p fd lp))"

lemma watch_write_add: "loop_inv lp \<Longrightarrow> watch_write p fd (add_io_event fd Conn_Wt EPOLLOUT p lp)"
  by (simp add: watch_write_def add_io_event_shape Let_def bit.conj_disj_distrib2 or_eq_0_iff)

lemma conn_send_message_out:
  assumes inv: "out_inv p fd l stream ss" and len: "int (length data) < 2 ^ 31"
    and fits: "8 + int (length data) + int (length (slot_bytes ss (p, Out))) \<le> 8388608"
  shows "case conn_send_message data (of_nat (length data)) msgid p ss of
      Inl e \<Rightarrow> e = Exit_1
    | Inr (ret, ss') \<Rightarrow> ret = 0 \<and> out_inv p fd l (stream @ frame (msgid, data)) ss' \<and>
        slot_bytes ss' (p, Out) = slot_bytes ss (p, Out) @ frame (msgid, data)"
proof -
  obtain lp where i: "bufs_ok ss" "conn_live p fd l ss" "slot_head ss (p, Out) = 0" "ss_sent ss fd @ slot_bytes ss (p, Out) = stream"
      and lp: "ss_loops ss l = Some lp" "loop_inv lp" "slot_bytes ss (p, Out) \<noteq> [] \<Longrightarrow> watch_write p fd lp"
    using inv unfolding out_inv_def by blast
  obtain c where c: "ss_heap ss p = Some c" "tc_connfd c = fd" "tc_loop c = l" using conn_live_heap [OF i(2)] by blast
  have o: "tc_obuf c = slot ss (p, Out)" using c by (simp add: slot_def)
  have sl: "sint (of_nat (length data) :: i32) = int (length data)" using len by (intro sint_of_nat_small) simp
  have q: "case queue_message data (of_nat (length data)) msgid (slot ss (p, Out)) (ss_pool ss) of
      Inl e \<Rightarrow> e = Exit_1
    | Inr (ret, active, q', st') \<Rightarrow> ret = 0 \<and> (active \<longleftrightarrow> slot_bytes ss (p, Out) = []) \<and>
        appended (frame (msgid, data)) (slot ss (p, Out)) (ss_pool ss) q' st'"
    unfolding slot_bytes_def
    by (rule queue_message_ok) (use i(3) fits sl bufs_okD(2) [OF i(1)] in \<open>simp_all add: slot_bytes_def slot_head_def\<close>)
  show ?thesis
  proof (cases "queue_message data (of_nat (length data)) msgid (slot ss (p, Out)) (ss_pool ss)")
    case (Inl e)
    then show ?thesis using q c o by (simp add: conn_send_message_def)
  next
    case (Inr x)
    obtain r act q' st' where x: "x = (r, act, q', st')" by (cases x)
    with Inr q have r: "r = 0" "act \<longleftrightarrow> slot_bytes ss (p, Out) = []"
        and ap: "appended (frame (msgid, data)) (slot ss (p, Out)) (ss_pool ss) q' st'" by simp_all
    let ?s = "put_buf Out p (q', st') ss"
    let ?lp = "if act then add_io_event fd Conn_Wt EPOLLOUT p lp else lp"
    let ?s' = "?s\<lparr>ss_loops := (ss_loops ?s)(l \<mapsto> ?lp)\<rparr>"
    have "conn_send_message data (of_nat (length data)) msgid p ss = Inr (0, ?s')"
      using Inr x r(1) c o lp(1) fun_upd_triv [of "ss_loops ss" l]
      by (auto simp: conn_send_message_def on_loop_def Let_def)
    moreover have "bufs_ok ?s" using ap by (intro put_buf_ok(1) [OF i(1) c(1)]) (simp_all add: appended_def)
    then have "bufs_ok ?s'" using bufs_ok_cong(1) [of ?s' ?s] by simp
    moreover have b: "slot_bytes ?s' (p, Out) = slot_bytes ss (p, Out) @ frame (msgid, data)" "slot_head ?s' (p, Out) = 0"
      using ap slot_put_buf [OF c(1), of Out "(q', st')"] bufs_ok_cong(2,3) [of ?s' ?s]
      by (simp_all add: slot_bytes_def slot_head_def appended_def)
    moreover have "conn_live p fd l ?s'" using i(2) c by (simp add: conn_live_def put_buf_def)
    moreover have "loop_inv ?lp" "watch_write p fd ?lp" using lp(2,3) r(2) loop_inv_add_out watch_write_add by auto
    ultimately show ?thesis using i(4) by (auto simp: out_inv_def)
  qed
qed

lemma conn_flush_out:
  assumes inv: "out_inv p fd l stream ss" and ne: "\<forall>out st. flush_loop answers [] (slot ss (p, Out)) (ss_pool ss) \<noteq> Inr (True, out, st)"
  shows "case conn_do_write hs answers p ss of
      Inl e \<Rightarrow> e = Blocked
    | Inr ss' \<Rightarrow> out_inv p fd l stream ss' \<and> length (slot_bytes ss' (p, Out)) \<le> length (slot_bytes ss (p, Out))"
proof -
  obtain lp where i: "bufs_ok ss" "conn_live p fd l ss" "slot_head ss (p, Out) = 0" "ss_sent ss fd @ slot_bytes ss (p, Out) = stream"
      and lp: "ss_loops ss l = Some lp" "loop_inv lp" "slot_bytes ss (p, Out) \<noteq> [] \<Longrightarrow> watch_write p fd lp"
    using inv unfolding out_inv_def by blast
  obtain c where c: "ss_heap ss p = Some c" "tc_connfd c = fd" "tc_loop c = l" using conn_live_heap [OF i(2)] by blast
  have o: "tc_obuf c = slot ss (p, Out)" using c by (simp add: slot_def)
  note fl = flush_loop_ok [OF bufs_okD(2) [OF i(1)] i(3) [unfolded slot_head_def], where answers = answers and out = "[]"]
  show ?thesis
  proof (cases "flush_loop answers [] (slot ss (p, Out)) (ss_pool ss)")
    case (Inl e)
    then show ?thesis using fl c o by (simp add: conn_do_write_def)
  next
    case (Inr x)
    obtain f out st where "x = (f, out, st)" by (cases x)
    moreover from this have "\<not> f" using ne Inr by auto
    ultimately have x: "flush_loop answers [] (slot ss (p, Out)) (ss_pool ss) = Inr (False, out, st)" using Inr by simp
    with fl have f: "rb_ok (slot ss (p, Out)) st" "rb_head (slot ss (p, Out)) st = 0"
        "rb_frame (slot ss (p, Out)) (ss_pool ss) (slot ss (p, Out)) st" "out @ rb_bytes (slot ss (p, Out)) st = slot_bytes ss (p, Out)"
      by (auto simp: slot_bytes_def)
    have same: "put_buf Out p (slot ss (p, Out), st) ss = ss\<lparr>ss_pool := st\<rparr>"
      using c(1) o by (cases c) (auto simp: put_buf_def fun_upd_idem)
    let ?lp = "if rb_bytes (slot ss (p, Out)) st = [] then del_io_event_mask fd EPOLLOUT lp else lp"
    let ?s = "ss\<lparr>ss_pool := st, ss_sent := (ss_sent ss)(fd := ss_sent ss fd @ out)\<rparr>"
    let ?s' = "?s\<lparr>ss_loops := (ss_loops ?s)(l \<mapsto> ?lp)\<rparr>"
    have eq: "conn_do_write hs answers p ss = Inr ?s'"
      using x c o lp(1) fun_upd_triv [of "ss_loops ss" l] rb_length_bytes [OF f(1)]
      by (auto simp: conn_do_write_def on_loop_def Let_def)
    have "bufs_ok (ss\<lparr>ss_pool := st\<rparr>)" using put_buf_ok(1) [OF i(1) c(1) f(1,3)] same by simp
    then have "bufs_ok ?s'" using bufs_ok_cong(1) [of ?s' "ss\<lparr>ss_pool := st\<rparr>"] by simp
    moreover have "conn_live p fd l ?s'" using i(2) by (simp add: conn_live_def)
    moreover have b: "slot_bytes ?s' (p, Out) = rb_bytes (slot ss (p, Out)) st" "slot_head ?s' (p, Out) = 0"
      using f(2) by (simp_all add: slot_bytes_def slot_head_def slot_def)
    moreover have "loop_inv ?lp" using lp(2) loop_inv_del_mask [OF lp(2)] by simp
    moreover have "watch_write p fd lp" if "rb_bytes (slot ss (p, Out)) st \<noteq> []"
    proof -
      have "slot_bytes ss (p, Out) \<noteq> []" using that f(4) by force
      then show ?thesis by (rule lp(3))
    qed
    moreover have "length (rb_bytes (slot ss (p, Out)) st) \<le> length (slot_bytes ss (p, Out))" by (simp flip: f(4))
    ultimately show ?thesis using i(4) f(4) by (simp add: out_inv_def eq)
  qed
qed

lemma conn_do_write_out:
  assumes inv: "out_inv p fd l stream ss" and ne: "no_error answers"
  shows "case conn_do_write hs answers p ss of
      Inl e \<Rightarrow> e = Blocked
    | Inr ss' \<Rightarrow> out_inv p fd l stream ss' \<and> length (slot_bytes ss' (p, Out)) \<le> length (slot_bytes ss (p, Out))"
  using flush_loop_no_error [OF ne] by (intro conn_flush_out [OF inv]) blast

text \<open>A use of one connection: messages queued and write events handled, in any order.\<close>

datatype conn_op = Send i32 bytes | Flush "write_ans list list"

fun run_conn :: "('cb, 'u, 'h, 'x) handlers \<Rightarrow> ptr \<Rightarrow> conn_op list \<Rightarrow> ('cb, 'u, 'h, 'x) server_state \<Rightarrow> ('cb, 'u, 'h, 'x) server_state res" where
  "run_conn hs p [] ss = Inr ss"
| "run_conn hs p (Send msgid data # ops) ss =
     bindR (conn_send_message data (of_nat (length data)) msgid p ss) (\<lambda>(_, ss). run_conn hs p ops ss)"
| "run_conn hs p (Flush answers # ops) ss = bindR (conn_do_write hs answers p ss) (run_conn hs p ops)"

fun op_msgs :: "conn_op list \<Rightarrow> (i32 \<times> bytes) list" where
  "op_msgs [] = []"
| "op_msgs (Send msgid data # ops) = (msgid, data) # op_msgs ops"
| "op_msgs (Flush answers # ops) = op_msgs ops"

fun op_fine :: "conn_op \<Rightarrow> bool" where
  "op_fine (Send msgid data) \<longleftrightarrow> int (length data) \<le> MESSAGE_LENGTH_LIMIT"
| "op_fine (Flush answers) \<longleftrightarrow> no_error answers"

lemma length_frame [simp]: "length (frame m) = 8 + length (snd m)"
  by (simp add: frame_def)

lemma run_conn_out:
  assumes "out_inv p fd l stream ss" "\<forall>op \<in> set ops. op_fine op"
    and "length (slot_bytes ss (p, Out)) + length (concat (map frame (op_msgs ops))) \<le> 8388608"
  shows "case run_conn hs p ops ss of
      Inl e \<Rightarrow> e = Exit_1 \<or> e = Blocked
    | Inr ss' \<Rightarrow> out_inv p fd l (stream @ concat (map frame (op_msgs ops))) ss'"
  using assms
proof (induction ops arbitrary: ss stream)
  case (Cons op ops)
  show ?case
  proof (cases op)
    case (Send msgid data)
    have len: "int (length data) < 2 ^ 31" "8 + int (length data) + int (length (slot_bytes ss (p, Out))) \<le> 8388608"
      using Cons.prems Send by (simp_all add: MESSAGE_LENGTH_LIMIT_def MESSAGE_HEAD_LEN_def)
    note s = conn_send_message_out [OF Cons.prems(1) len, of msgid]
    show ?thesis
    proof (cases "conn_send_message data (of_nat (length data)) msgid p ss")
      case (Inl e)
      then show ?thesis using s Send by simp
    next
      case (Inr x)
      then obtain r s' where x: "x = (r, s')" "out_inv p fd l (stream @ frame (msgid, data)) s'"
          "slot_bytes s' (p, Out) = slot_bytes ss (p, Out) @ frame (msgid, data)"
        using s by (cases x) auto
      then show ?thesis using Cons.IH [OF x(2)] Cons.prems(2,3) Send Inr by (simp split: sum.splits)
    qed
  next
    case (Flush answers)
    then have ne: "no_error answers" using Cons.prems(2) by simp
    note w = conn_do_write_out [OF Cons.prems(1) ne, of hs]
    show ?thesis
    proof (cases "conn_do_write hs answers p ss")
      case (Inl e)
      then show ?thesis using w Flush by simp
    next
      case (Inr s')
      then have "out_inv p fd l stream s'" "length (slot_bytes s' (p, Out)) \<le> length (slot_bytes ss (p, Out))" using w by simp_all
      then show ?thesis using Cons.IH [of stream s'] Cons.prems(2,3) Flush Inr by (simp split: sum.splits)
    qed
  qed
qed simp

section \<open>Properties\<close>

text \<open>A server with one open connection (descriptor 7) and nothing read or queued yet.\<close>

definition demo_server :: "(unit, unit, unit, (i32 \<times> bytes) list) server_state" where
  "demo_server = \<lparr>ss_pool = boot_pool, ss_loops = [1 \<mapsto> event_loop_new],
     ss_heap = [0 \<mapsto> \<lparr>tc_connfd = 7, tc_loop = 1, tc_obuf = None, tc_ibuf = None\<rparr>], ss_next = 1,
     ss_conns = replicate 10 None, ss_curr_conns = 1, ss_max_conns = 5,
     ss_router = snd (register_msg_router 3 () () msg_router_new), ss_conn_start_cb = None, ss_conn_close_cb = None,
     ss_open = {7}, ss_sent = (\<lambda>_. []), ss_app = []\<rparr>"

lemma demo_server_ok: "bufs_ok demo_server" "conn_live 0 7 1 demo_server" "slot demo_server k = None"
proof -
  show n: "slot demo_server k = None" for k by (cases "snd k") (simp_all add: slot_def demo_server_def)
  show "bufs_ok demo_server" unfolding bufs_ok_def n by (simp add: demo_server_def)
  show "conn_live 0 7 1 demo_server" by (simp add: conn_live_def demo_server_def)
qed

text \<open>
  C10 [tcp_read_dispatches]. When the kernel announces and delivers \<open>n\<close> bytes on a connection, \<open>do_read\<close> runs the registered
  callbacks exactly on the complete messages of the unread bytes followed by the new ones, in order, each once; it keeps exactly the
  incomplete rest, at the start of its buffer, and the blocks of all buffers stay disjoint. A stream with an illegal length closes
  the connection. The loop terminates; it aborts only if a callback does, if the pool is exhausted, or on the failed assert that a
  message with an empty body at the end of the received bytes provokes.
\<close>

theorem tcp_read_dispatches:
  assumes "handlers_ok hs act faults" "bufs_ok ss" "conn_live p fd l ss" "slot_head ss (p, In) = 0"
    and "0 < n" "n + int (length (slot_bytes ss (p, In))) \<le> 8388608"
    and "sys_read (nat n) as = Inr (Rd bs)" "length bs = nat n"
    and "parse_frames (slot_bytes ss (p, In) @ bs) = (ms, rest, e)"
  shows "case conn_do_read hs (Some n) as p ss of
      Inl f \<Rightarrow> f = Exit_1 \<or> f \<in> faults \<or> f = Assert_Failed \<and> empty_tail ms rest
    | Inr ss' \<Rightarrow> \<not> empty_tail ms rest \<and> bufs_ok ss' \<and>
        (if e = Malformed then closed p fd l ss'
         else conn_live p fd l ss' \<and> ss_app ss' = fold (app_step act (ss_router ss)) ms (ss_app ss) \<and>
              slot_bytes ss' (p, In) = rest \<and> slot_head ss' (p, In) = 0)"
proof -
  have "server_app hs act faults" by (rule server_app.intro [OF assms(1)])
  moreover have "reading p fd l (ss_router ss) ss" using assms(2,3) by (simp add: reading_def)
  ultimately show ?thesis by (rule server_app.do_read_outcome [OF _ _ assms(4-9)])
qed

definition log_handlers :: "(unit, unit, unit, (i32 \<times> bytes) list) handlers" where
  "log_handlers = \<lparr>on_message = (\<lambda>cb data len msgid conn u ss. Inr (ss\<lparr>ss_app := ss_app ss @ [(msgid, case data of None \<Rightarrow> [] | Some bs \<Rightarrow> bs)]\<rparr>)),
     on_hook = (\<lambda>h p. Inr)\<rparr>"

lemma log_handlers_ok: "handlers_ok log_handlers (\<lambda>cb u m x. x @ [m]) {}"
proof -
  have "kept p ss (ss\<lparr>ss_app := x\<rparr>)" if "bufs_ok ss" for p x and ss :: "(unit, unit, unit, (i32 \<times> bytes) list) server_state"
    using that bufs_ok_cong [of "ss\<lparr>ss_app := x\<rparr>" ss] by (simp add: kept_def conn_live_def)
  then show ?thesis by (auto simp: handlers_ok_def log_handlers_def kept_refl)
qed

theorem tcp_read_dispatches_witness:
  "case conn_do_read log_handlers (Some 20) [Rd (frame (3, [5, 6]) @ frame (9, []) @ [1, 0])] 0 demo_server of
     Inl f \<Rightarrow> f = Exit_1
   | Inr ss' \<Rightarrow> ss_app ss' = [(3, [5, 6])] \<and> slot_bytes ss' (0, In) = [1, 0]"
proof -
  let ?bs = "frame (3, [5, 6]) @ frame (9, []) @ [1, 0]"
  have e: "slot_bytes demo_server (0, In) = []" "slot_head demo_server (0, In) = 0"
    by (simp_all add: slot_bytes_def slot_head_def demo_server_ok(3))
  have pf: "parse_frames ?bs = ([(3, [5, 6]), (9, [])], [1, 0], Incomplete)"
    using parse_frames_concat [of "[(3, [5, 6]), (9, [])]" "[1, 0]"]
    by (simp add: MESSAGE_LENGTH_LIMIT_def MESSAGE_HEAD_LEN_def parse_frames.simps [of "[1, 0]"])
  have r: "mr_router (ss_router demo_server) 3 = Some ()" "mr_router (ss_router demo_server) 9 = None"
    by (simp_all add: demo_server_def register_msg_router_def msg_router_new_def)
  have "case conn_do_read log_handlers (Some 20) [Rd ?bs] 0 demo_server of
      Inl f \<Rightarrow> f = Exit_1 \<or> f \<in> {} \<or> f = Assert_Failed \<and> empty_tail [(3, [5, 6]), (9, [])] [1, 0]
    | Inr ss' \<Rightarrow> \<not> empty_tail [(3, [5, 6]), (9, [])] [1, 0] \<and> bufs_ok ss' \<and>
        (if Incomplete = Malformed then closed 0 7 1 ss'
         else conn_live 0 7 1 ss' \<and>
              ss_app ss' = fold (app_step (\<lambda>cb u m x. x @ [m]) (ss_router demo_server)) [(3, [5, 6]), (9, [])] (ss_app demo_server) \<and>
              slot_bytes ss' (0, In) = [1, 0] \<and> slot_head ss' (0, In) = 0)"
    by (rule tcp_read_dispatches [OF log_handlers_ok demo_server_ok(1,2) e(2), where bs = ?bs]) (simp_all add: e(1) pf [simplified])
  moreover have "ss_app demo_server = []" by (simp add: demo_server_def)
  ultimately show ?thesis using r by (auto simp: app_step_def empty_tail_def split: sum.splits)
qed

text \<open>
  C16 [tcp_output_stream]. From a connection with nothing pending, any sequence of \<open>send_message\<close> calls and write events (without a fatal
  socket error, at most 8 MB in all) writes a prefix of the concatenated frames and keeps exactly the rest; while something is
  pending the kernel watches the descriptor for writing, so the rest is not forgotten; and once nothing is pending, the receiver that parses
  the bytes gets exactly the messages sent, in order. The only faults are an exhausted pool and a kernel that gives no answer.
\<close>

theorem tcp_output_stream:
  assumes "out_inv p fd l [] ss" "\<forall>op \<in> set ops. op_fine op" "length (concat (map frame (op_msgs ops))) \<le> 8388608"
  shows "case run_conn hs p ops ss of
      Inl e \<Rightarrow> e = Exit_1 \<or> e = Blocked
    | Inr ss' \<Rightarrow>
        ss_sent ss' fd @ slot_bytes ss' (p, Out) = concat (map frame (op_msgs ops)) \<and>
        (if slot_bytes ss' (p, Out) = [] then parse_frames (ss_sent ss' fd) = (op_msgs ops, [], Incomplete)
         else (\<exists>lp. ss_loops ss' l = Some lp \<and> watch_write p fd lp))"
proof -
  have e: "slot_bytes ss (p, Out) = []" using assms(1) by (simp add: out_inv_def)
  have small: "\<forall>m \<in> set (op_msgs ops). int (length (snd m)) \<le> MESSAGE_LENGTH_LIMIT"
    using assms(2) by (induction ops rule: op_msgs.induct) auto
  have pf: "parse_frames (concat (map frame (op_msgs ops))) = (op_msgs ops, [], Incomplete)"
    using parse_frames_concat [OF small, of "[]"] by simp
  have "case run_conn hs p ops ss of
      Inl e \<Rightarrow> e = Exit_1 \<or> e = Blocked | Inr ss' \<Rightarrow> out_inv p fd l ([] @ concat (map frame (op_msgs ops))) ss'"
    by (rule run_conn_out [OF assms(1,2)]) (simp add: e assms(3))
  then show ?thesis using pf by (auto simp: out_inv_def split: sum.splits)
qed

theorem tcp_output_stream_witness:
  "case run_conn log_handlers 0 [Send 3 [5], Flush [[Wr 4], [Wr_err EAGAIN]], Send 4 []] demo_server of
     Inl e \<Rightarrow> e = Exit_1 \<or> e = Blocked
   | Inr ss' \<Rightarrow> ss_sent ss' 7 @ slot_bytes ss' (0, Out) = frame (3, [5]) @ frame (4, [])"
proof -
  have "out_inv 0 7 1 [] demo_server"
    using demo_server_ok by (simp add: out_inv_def slot_bytes_def slot_head_def) (simp add: demo_server_def loop_inv_new)
  moreover have "\<forall>op \<in> set [Send 3 [5], Flush [[Wr 4], [Wr_err EAGAIN]], Send 4 []]. op_fine op"
    by (simp add: MESSAGE_LENGTH_LIMIT_def MESSAGE_HEAD_LEN_def no_error_def)
  ultimately show ?thesis
    using tcp_output_stream [of 0 7 1 demo_server "[Send 3 [5], Flush [[Wr 4], [Wr_err EAGAIN]], Send 4 []]" log_handlers]
    by (auto split: sum.splits)
qed

text \<open>
  Creating a connection object for a descriptor of the table registers its read callback and its table entry and
  counts it, without disturbing any buffer; closing it afterwards removes the registration and the entry, returns its blocks,
  closes the descriptor and restores the count.
\<close>

theorem conn_open_close:
  assumes hs: "handlers_ok hs act faults" and inv: "bufs_ok ss" and l: "ss_loops ss l = Some lp" "loop_inv lp"
    and fd: "0 \<le> fd" "fd < int (length (ss_conns ss))" and cb: "ss_conn_start_cb ss = None"
  shows "\<exists>p ss1. tcp_conn_new hs fd l ss = Inr (p, ss1) \<and> bufs_ok ss1 \<and> ss_conns ss1 = (ss_conns ss)[nat fd := Some (Some p)] \<and>
    ss_curr_conns ss1 = ss_curr_conns ss + 1 \<and>
    (\<exists>lp'. ss_loops ss1 l = Some lp' \<and> fd \<in> el_listen_fds lp' \<and> select_callback fd EPOLLIN lp' = Inr (Call Conn_Rd (Some p))) \<and>
    (case clean_conn hs p ss1 of
       Inl e \<Rightarrow> e \<in> faults
     | Inr ss2 \<Rightarrow> bufs_ok ss2 \<and> closed p fd l ss2 \<and> ss_curr_conns ss2 = ss_curr_conns ss)"
proof -
  define c where "c = \<lparr>tc_connfd = fd, tc_loop = l, tc_obuf = reactor_buf_new, tc_ibuf = reactor_buf_new\<rparr>"
  define s0 where "s0 = ss\<lparr>ss_heap := (ss_heap ss)(ss_next ss \<mapsto> c), ss_next := ss_next ss + 1\<rparr>"
  define lp' where "lp' = add_io_event fd Conn_Rd EPOLLIN (ss_next ss) lp"
  define s1 where "s1 = s0\<lparr>ss_loops := (ss_loops ss)(l \<mapsto> lp'), ss_conns := (ss_conns ss)[nat fd := Some (Some (ss_next ss))],
    ss_curr_conns := ss_curr_conns ss + 1\<rparr>"
  have n: "tcp_conn_new hs fd l ss = Inr (ss_next ss, s1)"
    using cb l(1) fd by (simp add: tcp_conn_new_def run_hook_def on_loop_def increase_conn_def s1_def s0_def c_def lp'_def Let_def)
  have none: "ss_heap ss (ss_next ss) = None" using bufs_okD(4) [OF inv] by simp
  have slots: "slot s0 k = slot ss k" for k
    using none by (cases k; cases "snd k") (auto simp: slot_def s0_def c_def reactor_buf_new_def)
  have "bufs_ok s0"
    using inv none unfolding bufs_ok_def slots by (simp add: s0_def)
  then have b: "bufs_ok s1" using bufs_ok_cong(1) [of s1 s0] by (simp add: s1_def)
  have live: "conn_live (ss_next ss) fd l s1" using fd by (simp add: conn_live_def s1_def s0_def c_def)
  have "fd \<in> el_listen_fds lp'" "select_callback fd EPOLLIN lp' = Inr (Call Conn_Rd (Some (ss_next ss)))"
    by (simp_all add: lp'_def add_io_event_shape [OF l(2)] Let_def select_callback_def call_cb_def)
  moreover have "ss_loops s1 l = Some lp'" by (simp add: s1_def)
  moreover have "case clean_conn hs (ss_next ss) s1 of
      Inl e \<Rightarrow> e \<in> faults | Inr ss2 \<Rightarrow> bufs_ok ss2 \<and> closed (ss_next ss) fd l ss2 \<and> ss_curr_conns ss2 = ss_curr_conns ss"
    using clean_conn_ok [OF hs b live] by (simp add: s1_def split: sum.splits)
  ultimately show ?thesis using n b by (auto simp: s1_def intro!: exI [of _ "ss_next ss"])
qed

theorem conn_open_close_witness:
  "\<exists>p ss1. tcp_conn_new log_handlers 8 1 demo_server = Inr (p, ss1) \<and> ss_curr_conns ss1 = 2 \<and>
     (case clean_conn log_handlers p ss1 of Inl e \<Rightarrow> False | Inr ss2 \<Rightarrow> ss_curr_conns ss2 = 1 \<and> closed p 8 1 ss2)"
proof -
  have d: "ss_loops demo_server 1 = Some event_loop_new" "(0 :: int) \<le> 8" "8 < int (length (ss_conns demo_server))"
      "ss_conn_start_cb demo_server = None" "ss_curr_conns demo_server = 1"
    by (simp_all add: demo_server_def)
  from conn_open_close [OF log_handlers_ok demo_server_ok(1) d(1) loop_inv_new d(2-4)] d(5) show ?thesis
    by (auto split: sum.splits)
qed

end
