(* ===== verification/Tcp_Server.thy ===== *)
theory Tcp_Server
  imports Tcp_Conn Thread_Pool
begin

text \<open>
  \<^verbatim>\<open>lars_reactor/include/tcp_server.h\<close> and \<^verbatim>\<open>lars_reactor/src/tcp_server.cpp\<close>: construction of a server, the accept loop, and the
  worker's handling of its queue with the construction of a connection. The results of the socket calls and of \<open>accept\<close>
  are arguments. \<open>_thread_pool\<close> is assigned only when \<open>threadNum\<close> is positive: \<open>None\<close> is the member before any
  assignment, \<open>Some None\<close> a null pointer. A negative array size ends the process, as an uncaught exception does.
\<close>

section \<open>Model\<close>

datatype accept_ans = Acc int | Acc_err errno

record tcp_server =
  sv_sockfd :: int
  sv_loop :: ptr
  sv_thread_pool :: "(io_cb, ptr) thread_pool option option"

definition tcp_server_new ::
  "int \<Rightarrow> int \<Rightarrow> int \<Rightarrow> int \<Rightarrow> int \<Rightarrow> int list \<Rightarrow> int list \<Rightarrow> ptr \<Rightarrow> ptr \<Rightarrow> ('cb, 'u, 'h, 'x) server_state \<Rightarrow>
   (tcp_server \<times> ('cb, 'u, 'h, 'x) server_state) res" where
  "tcp_server_new sockfd bind_ret listen_ret thread_cnt max_conns evfds created self loop ss =
     bindR (ensure (sockfd \<noteq> -1) Exit_1) (\<lambda>_.
     bindR (ensure (0 \<le> bind_ret) Exit_1) (\<lambda>_.
     bindR (ensure (listen_ret \<noteq> -1) Exit_1) (\<lambda>_.
     bindR (if 0 < thread_cnt then bindR (thread_pool_new thread_cnt evfds created) (\<lambda>tp. Inr (Some (Some tp))) else Inr None) (\<lambda>tp.
     bindR (ensure (0 \<le> max_conns + 5 + 2 * thread_cnt) Exit_1) (\<lambda>_.
     (let ss = ss\<lparr>ss_max_conns := max_conns, ss_conns := replicate (nat (max_conns + 5 + 2 * thread_cnt)) None,
                  ss_open := insert sockfd (ss_open ss)\<rparr> in
      bindR (on_loop loop (add_io_event sockfd Accept_Cb EPOLLIN self) ss) (\<lambda>ss.
      Inr (\<lparr>sv_sockfd = sockfd, sv_loop = loop, sv_thread_pool = tp\<rparr>, ss))))))))"

text \<open>Handing an accepted descriptor to a worker, or to this thread's own loop.\<close>

definition hand_over ::
  "('cb, 'u, 'h, 'x) handlers \<Rightarrow> int \<Rightarrow> tcp_server \<Rightarrow> ('cb, 'u, 'h, 'x) server_state \<Rightarrow> (tcp_server \<times> ('cb, 'u, 'h, 'x) server_state) res" where
  "hand_over hs connfd sv ss =
     (case sv_thread_pool sv of
        None \<Rightarrow> Inl Uninitialised
      | Some None \<Rightarrow> bindR (tcp_conn_new hs connfd (sv_loop sv) ss) (\<lambda>(_, ss). Inr (sv, ss))
      | Some (Some tp) \<Rightarrow>
          bindR (get_thread tp) (\<lambda>(i, tp).
          Inr (sv\<lparr>sv_thread_pool := Some (Some (tp\<lparr>tp_queues := (tp_queues tp)[i := tq_send (NEW_CONN connfd) (tp_queues tp ! i)]\<rparr>))\<rparr>, ss)))"

fun do_accept ::
  "('cb, 'u, 'h, 'x) handlers \<Rightarrow> accept_ans list \<Rightarrow> tcp_server \<Rightarrow> ('cb, 'u, 'h, 'x) server_state \<Rightarrow>
   (tcp_server \<times> ('cb, 'u, 'h, 'x) server_state) res" where
  "do_accept hs [] sv ss = Inl Blocked"
| "do_accept hs (Acc_err e # answers) sv ss =
     (case e of
        EINTR \<Rightarrow> do_accept hs answers sv ss
      | EAGAIN \<Rightarrow> Inr (sv, ss)
      | EMFILE \<Rightarrow> do_accept hs answers sv ss
      | _ \<Rightarrow> Inl Exit_1)"
| "do_accept hs (Acc connfd # answers) sv ss =
     (let ss = ss\<lparr>ss_open := insert connfd (ss_open ss)\<rparr> in
      if ss_max_conns ss \<le> get_conn_num ss
      then do_accept hs answers sv (ss\<lparr>ss_open := ss_open ss - {connfd}\<rparr>)
      else hand_over hs connfd sv ss)"

definition tcp_server_delete :: "tcp_server \<Rightarrow> ('cb, 'u, 'h, 'x) server_state \<Rightarrow> ('cb, 'u, 'h, 'x) server_state" where
  "tcp_server_delete sv ss = ss\<lparr>ss_open := ss_open ss - {sv_sockfd sv}\<rparr>"

text \<open>\<open>deal_task\<close> of \<^verbatim>\<open>thread_pool.cpp\<close> for a worker whose loop is \<open>loop\<close>.\<close>

definition new_conn_task ::
  "('cb, 'u, 'h, 'x) handlers \<Rightarrow> ptr \<Rightarrow> int \<Rightarrow> ('cb, 'u, 'h, 'x) server_state \<Rightarrow> ('cb, 'u, 'h, 'x) server_state res" where
  "new_conn_task hs loop connfd ss = bindR (tcp_conn_new hs connfd loop ss) (\<lambda>(_, ss). Inr ss)"

definition worker_deal_task ::
  "('cb, 'u, 'h, 'x) handlers \<Rightarrow> ptr \<Rightarrow> (io_cb, ptr) task_msg thread_queue \<Rightarrow> ('cb, 'u, 'h, 'x) server_state \<Rightarrow>
   ((io_cb, ptr) task_msg thread_queue \<times> ('cb, 'u, 'h, 'x) server_state) res" where
  "worker_deal_task hs loop =
     deal_task (new_conn_task hs loop)
       (\<lambda>f a ss. ss\<lparr>ss_loops := (ss_loops ss)(loop := map_option (add_task f a) (ss_loops ss loop))\<rparr>)"

section \<open>Properties\<close>

lemma get_thread_ok:
  assumes "length (tp_queues tp) = nat cnt" "tp_thread_cnt tp = cnt" "2 \<le> cnt" "0 \<le> tp_index tp" "tp_index tp \<le> cnt - 1"
  shows "\<exists>i tp'. get_thread tp = Inr (i, tp') \<and> i < length (tp_queues tp) \<and> tp_queues tp' = tp_queues tp"
  using assms by (simp add: get_thread_def queue_at_def Let_def)

text \<open>What the accept loop may add to the queues: one connection for one worker.\<close>

definition queued_one :: "int \<Rightarrow> (io_cb, ptr) thread_pool \<Rightarrow> (io_cb, ptr) thread_pool \<Rightarrow> bool" where
  "queued_one fd tp tp' \<longleftrightarrow>
     (\<exists>i < length (tp_queues tp). tp_queues tp' = (tp_queues tp)[i := tq_send (NEW_CONN fd) (tp_queues tp ! i)])"

text \<open>
  With a worker pool of at least two threads, one run of the accept loop hands over at most one connection, and only
  while the number of connections is below the limit; every connection accepted at the limit is closed again, and nothing else
  changes. The loop ends by handing over a connection or when no connection waits; it exits the process only on an unexpected error.
\<close>

theorem accept_limit:
  assumes tp: "sv_thread_pool sv = Some (Some tp)" "length (tp_queues tp) = nat cnt" "tp_thread_cnt tp = cnt" "2 \<le> cnt"
      "0 \<le> tp_index tp" "tp_index tp \<le> cnt - 1"
    and fresh: "\<forall>fd. Acc fd \<in> set answers \<longrightarrow> fd \<notin> ss_open ss"
  shows "case do_accept hs answers sv ss of
      Inl e \<Rightarrow> e = Blocked \<or> e = Exit_1 \<and> (\<exists>x \<in> {EINPROGRESS, EOTHER}. Acc_err x \<in> set answers)
    | Inr (sv', ss') \<Rightarrow>
        sv' = sv \<and> ss' = ss \<or>
        (\<exists>fd tp'. Acc fd \<in> set answers \<and> ss_curr_conns ss < ss_max_conns ss \<and> sv_thread_pool sv' = Some (Some tp') \<and>
           queued_one fd tp tp' \<and> ss' = ss\<lparr>ss_open := insert fd (ss_open ss)\<rparr>)"
  using fresh
proof (induction answers)
  case (Cons a answers)
  show ?case
  proof (cases a)
    case (Acc_err e)
    then show ?thesis using Cons by (cases e) (auto split: sum.splits)
  next
    case (Acc fd)
    obtain i tp' where g: "get_thread tp = Inr (i, tp')" "i < length (tp_queues tp)" "tp_queues tp' = tp_queues tp"
      using get_thread_ok [OF tp(2-6)] by blast
    have close: "ss\<lparr>ss_open := insert fd (ss_open ss) - {fd}\<rparr> = ss" using Cons.prems Acc by simp
    show ?thesis
    proof (cases "ss_max_conns ss \<le> ss_curr_conns ss")
      case True
      then have "do_accept hs (a # answers) sv ss = do_accept hs answers sv ss" using close by (simp add: Acc get_conn_num_def)
      then show ?thesis using Cons True by (auto split: sum.splits)
    next
      case False
      then show ?thesis using g tp(1) by (auto simp: Acc get_conn_num_def hand_over_def queued_one_def)
    qed
  qed
qed simp

definition demo_pool :: "(io_cb, ptr) thread_pool" where
  "demo_pool = \<lparr>tp_queues = replicate 2 \<lparr>tq_evfd = 5, tq_counter = 0, tq_loop = Some 1, tq_queue = []\<rparr>, tp_thread_cnt = 2, tp_index = 0\<rparr>"

theorem accept_limit_witness:
  "case do_accept log_handlers [Acc_err EINTR, Acc 9] \<lparr>sv_sockfd = 4, sv_loop = 1, sv_thread_pool = Some (Some demo_pool)\<rparr> demo_server of
     Inl e \<Rightarrow> e = Blocked
   | Inr (sv', ss') \<Rightarrow> ss' = demo_server \<or> ss_open ss' = {7, 9}"
proof -
  have d: "length (tp_queues demo_pool) = nat 2" "tp_thread_cnt demo_pool = 2" "(2 :: int) \<le> 2" "0 \<le> tp_index demo_pool"
      "tp_index demo_pool \<le> 2 - 1" "\<forall>fd. Acc fd \<in> set [Acc_err EINTR, Acc 9] \<longrightarrow> fd \<notin> ss_open demo_server" "ss_open demo_server = {7}"
    by (simp_all add: demo_pool_def demo_server_def)
  let ?sv = "\<lparr>sv_sockfd = 4, sv_loop = 1, sv_thread_pool = Some (Some demo_pool)\<rparr>"
  have t: "sv_thread_pool ?sv = Some (Some demo_pool)" by simp
  note a = accept_limit [OF t d(1-6), of log_handlers]
  show ?thesis
  proof (cases "do_accept log_handlers [Acc_err EINTR, Acc 9] ?sv demo_server")
    case (Inl e)
    with a show ?thesis by auto
  next
    case (Inr x)
    obtain sv' ss' where x: "x = (sv', ss')" by (cases x)
    then consider "ss' = demo_server" | fd where "Acc fd \<in> set [Acc_err EINTR, Acc 9]" "ss' = demo_server\<lparr>ss_open := insert fd (ss_open demo_server)\<rparr>"
      using a [unfolded Inr x sum.case prod.case] by blast
    then show ?thesis
    proof cases
      case 1
      then show ?thesis using Inr x by simp
    next
      case (2 fd)
      then have "ss_open ss' = {7, 9}" using d(7) by auto
      then show ?thesis unfolding Inr x by simp
    qed
  qed
qed

end
