(* ===== verification/Tcp_Session.thy ===== *)
theory Tcp_Session
  imports Tcp_Server
begin

text \<open>
  Connections whose callbacks answer on the same connection. The contract \<open>server_app\<close> of \<open>Tcp_Conn\<close> says what the messages of a read do to the state of the
  application; here the contract \<open>server_session\<close> describes the whole server with an invariant \<open>J ms\<close> that may depend on the messages \<open>ms\<close> still to be
  delivered, so that an application can promise what its answers add to the output stream while they fit the buffer. The lemmas on several
  connections say that sending on one leaves the streams of the others alone.
\<close>

section \<open>The contract of a session\<close>

locale server_session =
  fixes hs :: "('cb, 'u, 'h, 'x) handlers" and p :: ptr and fd :: int and l :: ptr and r :: "('cb, 'u) msg_router"
    and J :: "(i32 \<times> bytes) list \<Rightarrow> ('cb, 'u, 'h, 'x) server_state \<Rightarrow> bool" and faults :: "fault set"
  assumes message_ok: "reading p fd l r ss \<Longrightarrow> J ((msgid, body) # ms) ss \<Longrightarrow> d = Some body \<or> d = None \<and> body = [] \<Longrightarrow>
      (case conn_call hs p msgid (of_nat (length body)) d ss of Inl e \<Rightarrow> e \<in> faults | Inr ss' \<Rightarrow> kept p ss ss' \<and> J ms ss')"
    and input_ok: "reading p fd l r ss \<Longrightarrow> J ms ss \<Longrightarrow> rb_ok q st \<Longrightarrow> rb_frame (slot ss (p, In)) (ss_pool ss) q st \<Longrightarrow> J ms (put_buf In p (q, st) ss)"
    and close_ok: "reading p fd l r ss \<Longrightarrow> J [] ss \<Longrightarrow>
      (case run_hook hs (ss_conn_close_cb ss) p ss of Inl e \<Rightarrow> e \<in> faults | Inr ss' \<Rightarrow> kept p ss ss')"

sublocale server_session \<subseteq> conn_in: stream_handler "get_buf In p" "put_buf In p" "conn_call hs p" "clean_conn hs p"
  "\<lambda>ms ss. reading p fd l r ss \<and> J ms ss" faults
proof unfold_locales
  fix ms and ss :: "('cb, 'u, 'h, 'x) server_state"
  assume "reading p fd l r ss \<and> J ms ss"
  then show "\<exists>q st. get_buf In p ss = Inr (q, st) \<and> rb_ok q st"
    using get_buf_slot bufs_okD(2) unfolding reading_def by blast
next
  fix ms and ss :: "('cb, 'u, 'h, 'x) server_state" and q st q' st'
  assume r: "reading p fd l r ss \<and> J ms ss" "get_buf In p ss = Inr (q, st)" "rb_ok q' st'" "rb_frame q st q' st'"
  have live: "conn_live p fd l ss" using r(1) by (simp add: reading_def)
  have q: "q = slot ss (p, In)" "st = ss_pool ss" using r(2) get_buf_slot [OF live, of In] by simp_all
  obtain c where c: "ss_heap ss p = Some c" using conn_live_heap [OF live] by blast
  have "bufs_ok (put_buf In p (q', st') ss)" using r q by (intro put_buf_ok(1) [OF _ c]) (auto simp: reading_def)
  moreover have "J ms (put_buf In p (q', st') ss)" using r q by (intro input_ok) simp_all
  ultimately show "(reading p fd l r (put_buf In p (q', st') ss) \<and> J ms (put_buf In p (q', st') ss)) \<and> get_buf In p (put_buf In p (q', st') ss) = Inr (q', st')"
    using r(1) live c by (simp add: reading_def get_buf_def put_buf_live)
next
  fix msgid and body :: bytes and ms and ss :: "('cb, 'u, 'h, 'x) server_state" and q st and d :: "bytes option"
  assume r: "reading p fd l r ss \<and> J ((msgid, body) # ms) ss" "get_buf In p ss = Inr (q, st)" "d = Some body \<or> d = None \<and> body = []"
  have live: "conn_live p fd l ss" using r(1) by (simp add: reading_def)
  have q: "q = slot ss (p, In)" "st = ss_pool ss" using r(2) get_buf_slot [OF live, of In] by simp_all
  have "reading p fd l r ss' \<and> (\<exists>st'. get_buf In p ss' = Inr (q, st') \<and> rb_bytes q st' = rb_bytes q st)" if k: "kept p ss ss'" for ss'
  proof -
    have "reading p fd l r ss'" "conn_live p fd l ss'" "slot ss' (p, In) = q" "rb_bytes q (ss_pool ss') = rb_bytes q st"
      using k r(1) live q by (auto simp: kept_def reading_def slot_bytes_def)
    then show ?thesis by (simp add: get_buf_slot)
  qed
  then show "case conn_call hs p msgid (of_nat (length body)) d ss of
      Inl e \<Rightarrow> e \<in> faults
    | Inr ss' \<Rightarrow> (reading p fd l r ss' \<and> J ms ss') \<and> (\<exists>st'. get_buf In p ss' = Inr (q, st') \<and> rb_bytes q st' = rb_bytes q st)"
    using message_ok [of ss msgid body ms d] r(1,3) by (auto split: sum.splits)
qed

text \<open>After \<open>clean_conn\<close> the final adjustment changes nothing at all.\<close>

lemma adjust_closed_id:
  assumes "closed p fd l ss"
  shows "adjust_input (get_buf In p) (put_buf In p) ss = Inr ss"
proof -
  have live: "conn_live p fd l ss" and n: "slot ss (p, In) = None" using assms by (simp_all add: closed_def)
  obtain c where c: "ss_heap ss p = Some c" using conn_live_heap [OF live] by blast
  have "put_buf In p (None, ss_pool ss) ss = ss" using c n by (cases c) (auto simp: put_buf_def slot_def fun_upd_idem)
  then show ?thesis using n by (simp add: adjust_input_def get_buf_slot [OF live] ib_adjust_def)
qed

context server_session
begin

lemma close_outcome:
  assumes "reading p fd l r w" "J [] w"
  shows "case bindR (clean_conn hs p w) (adjust_input (get_buf In p) (put_buf In p)) of
      Inl f \<Rightarrow> f \<in> faults
    | Inr ss' \<Rightarrow> bufs_ok ss' \<and> closed p fd l ss' \<and> clean_conn hs p w = Inr ss' \<and> (\<exists>s1. run_hook hs (ss_conn_close_cb w) p w = Inr s1 \<and> ss_app ss' = ss_app s1)"
proof (cases "run_hook hs (ss_conn_close_cb w) p w")
  case (Inl e)
  then show ?thesis using close_ok [OF assms] by (simp add: clean_conn_def)
next
  case (Inr s1)
  then have "kept p w s1" using close_ok [OF assms] by simp
  moreover have "conn_live p fd l w" using assms(1) by (simp add: reading_def)
  ultimately obtain ss' where "clean_conn hs p w = Inr ss'" "bufs_ok ss'" "closed p fd l ss'" "ss_app ss' = ss_app s1"
    using clean_conn_hook [OF _ Inr] by blast
  then show ?thesis using adjust_closed_id [of p fd l ss'] Inr by simp
qed

lemma do_read_session:
  assumes inv: "reading p fd l r ss" "J ms ss" and hd: "slot_head ss (p, In) = 0"
    and n: "0 < n" "n + int (length (slot_bytes ss (p, In))) \<le> 8388608"
    and kernel: "sys_read (nat n) as = Inr (Rd bs)" "length bs = nat n"
    and split: "parse_frames (slot_bytes ss (p, In) @ bs) = (ms, rest, e)"
  shows "case conn_do_read hs (Some n) as p ss of
      Inl f \<Rightarrow> f = Exit_1 \<or> f \<in> faults \<or> f = Assert_Failed \<and> empty_tail ms rest
    | Inr ss' \<Rightarrow> \<not> empty_tail ms rest \<and> bufs_ok ss' \<and>
        (if e = Malformed then closed p fd l ss' \<and>
           (\<exists>w s1. reading p fd l r w \<and> J [] w \<and> run_hook hs (ss_conn_close_cb w) p w = Inr s1 \<and> clean_conn hs p w = Inr ss' \<and> ss_app ss' = ss_app s1)
         else reading p fd l r ss' \<and> J [] ss' \<and> slot_bytes ss' (p, In) = rest \<and> slot_head ss' (p, In) = 0)"
proof -
  have live: "conn_live p fd l ss" using inv by (simp add: reading_def)
  note g = get_buf_slot [OF live, of In]
  have u: "conn_in.unread ss = slot_bytes ss (p, In)" by (simp add: conn_in.unread_def g slot_bytes_def)
  have "conn_in.read_post (ms, rest, e) (conn_do_read hs (Some n) as p ss)"
    using conn_in.stream_read_ok [OF _ g hd [unfolded slot_head_def] n(1) n(2) [folded u] kernel] inv split
    by (simp add: u conn_do_read_stream)
  note post = this [unfolded conn_in.read_post_def prod.case]
  show ?thesis
  proof (cases "conn_do_read hs (Some n) as p ss")
    case (Inl f)
    then show ?thesis using post close_outcome by (fastforce split: sum.splits)
  next
    case (Inr ss')
    show ?thesis
    proof (cases "e = Malformed")
      case True
      then obtain w where w: "\<not> empty_tail ms rest" "reading p fd l r w" "J [] w"
          "bindR (clean_conn hs p w) (adjust_input (get_buf In p) (put_buf In p)) = Inr ss'"
        using post Inr by auto
      with close_outcome [OF w(2,3)] True Inr show ?thesis by auto
    next
      case False
      then have "\<not> empty_tail ms rest" "reading p fd l r ss'" "J [] ss'"
          "conn_in.unread ss' = rest" "\<exists>q st. get_buf In p ss' = Inr (q, st) \<and> rb_head q st = 0"
        using post Inr by auto
      then show ?thesis
        using False Inr by (auto simp: reading_def conn_in.unread_def get_buf_slot slot_bytes_def slot_head_def)
    qed
  qed
qed

end

lemma kept_app: "bufs_ok ss \<Longrightarrow> kept p ss (ss\<lparr>ss_app := x\<rparr>)"
  using bufs_ok_cong [of "ss\<lparr>ss_app := x\<rparr>" ss] by (simp add: kept_def conn_live_def)

lemma put_buf_hooks [simp]: "ss_conn_close_cb (put_buf s p x ss) = ss_conn_close_cb ss"
  by (simp add: put_buf_def)

section \<open>What one connection leaves alone\<close>

text \<open>A change of a loop that concerns the descriptor \<open>fd\<close> only.\<close>

definition loop_others :: "int \<Rightarrow> ('cb, 'a) event_loop \<Rightarrow> ('cb, 'a) event_loop \<Rightarrow> bool" where
  "loop_others fd lp lp' \<longleftrightarrow>
     (loop_inv lp \<longrightarrow> loop_inv lp' \<and> (\<forall>fd'. fd' \<noteq> fd \<longrightarrow> el_epoll lp' fd' = el_epoll lp fd' \<and> el_io_evs lp' fd' = el_io_evs lp fd'))"

lemma loop_others_refl [simp]: "loop_others fd lp lp"
  by (simp add: loop_others_def)

lemma loop_others_events:
  "loop_others fd lp (add_io_event fd cb EPOLLIN a lp)" "loop_others fd lp (add_io_event fd cb EPOLLOUT a lp)"
  "loop_others fd lp (del_io_event fd lp)" "loop_others fd lp (del_io_event_mask fd m lp)"
  using loop_inv_add_in [of lp] loop_inv_add_out [of lp] loop_inv_del [of lp] loop_inv_del_mask [of lp]
  by (simp_all add: loop_others_def) (simp_all add: add_io_event_shape del_io_event_def del_io_event_mask_def Let_def split: option.split)

text \<open>A change of the server that concerns the connection \<open>p\<close> with descriptor \<open>fd\<close> only.\<close>

definition others_kept :: "ptr \<Rightarrow> int \<Rightarrow> ('cb, 'u, 'h, 'x) server_state \<Rightarrow> ('cb, 'u, 'h, 'x) server_state \<Rightarrow> bool" where
  "others_kept p fd ss ss' \<longleftrightarrow>
     (\<forall>q. q \<noteq> p \<longrightarrow> ss_heap ss' q = ss_heap ss q \<and> (\<forall>s. slot_bytes ss' (q, s) = slot_bytes ss (q, s) \<and> slot_head ss' (q, s) = slot_head ss (q, s))) \<and>
     length (ss_conns ss') = length (ss_conns ss) \<and> (\<forall>i. i \<noteq> nat fd \<longrightarrow> ss_conns ss' ! i = ss_conns ss ! i) \<and>
     (\<forall>fd'. fd' \<noteq> fd \<longrightarrow> ss_sent ss' fd' = ss_sent ss fd') \<and>
     (\<forall>l lp. ss_loops ss l = Some lp \<longrightarrow> (\<exists>lp'. ss_loops ss' l = Some lp' \<and> loop_others fd lp lp')) \<and>
     ss_router ss' = ss_router ss \<and> ss_conn_start_cb ss' = ss_conn_start_cb ss \<and> ss_conn_close_cb ss' = ss_conn_close_cb ss"

lemma others_refl [simp]: "others_kept p fd ss ss"
  by (simp add: others_kept_def)

lemma others_trans: "others_kept p fd ss ss' \<Longrightarrow> others_kept p fd ss' ss'' \<Longrightarrow> others_kept p fd ss ss''"
  unfolding others_kept_def loop_others_def by (intro conjI allI impI; (elim conjE)?; metis)

lemma others_put:
  assumes "bufs_ok ss" "ss_heap ss p = Some c" "rb_ok q st" "rb_frame (slot ss (p, s)) (ss_pool ss) q st"
  shows "others_kept p fd ss (put_buf s p (q, st) ss)"
  using put_buf_ok(2) [OF assms] by (simp add: others_kept_def) (simp add: put_buf_def)

text \<open>Changes that do not concern buffers.\<close>

lemma others_app: "others_kept p fd ss (ss\<lparr>ss_app := x\<rparr>)"
  using bufs_ok_cong(2,3) [of "ss\<lparr>ss_app := x\<rparr>" ss] by (simp add: others_kept_def)

lemma others_loop: "ss_loops ss l = Some lp \<Longrightarrow> loop_others fd lp lp' \<Longrightarrow> others_kept p fd ss (ss\<lparr>ss_loops := (ss_loops ss)(l \<mapsto> lp')\<rparr>)"
  using bufs_ok_cong(2,3) [of "ss\<lparr>ss_loops := (ss_loops ss)(l \<mapsto> lp')\<rparr>" ss] by (simp add: others_kept_def)

lemma others_table: "others_kept p fd ss (ss\<lparr>ss_conns := (ss_conns ss)[nat fd := x], ss_curr_conns := n\<rparr>)"
  using bufs_ok_cong(2,3) [of "ss\<lparr>ss_conns := (ss_conns ss)[nat fd := x], ss_curr_conns := n\<rparr>" ss] by (simp add: others_kept_def)

lemma others_open: "others_kept p fd ss (ss\<lparr>ss_open := x\<rparr>)"
  using bufs_ok_cong(2,3) [of "ss\<lparr>ss_open := x\<rparr>" ss] by (simp add: others_kept_def)

text \<open>The other connections stay as they are.\<close>

lemma others_live: "others_kept p fd ss ss' \<Longrightarrow> q \<noteq> p \<Longrightarrow> conn_live q fd' l ss \<Longrightarrow> conn_live q fd' l ss'"
  unfolding others_kept_def conn_live_def by fastforce

lemma others_out:
  assumes o: "others_kept p fd ss ss'" and ok: "bufs_ok ss'" and q: "out_inv q fd' l stream ss" "q \<noteq> p" "fd' \<noteq> fd"
  shows "out_inv q fd' l stream ss' \<and> slot_bytes ss' (q, Out) = slot_bytes ss (q, Out)"
proof -
  obtain lp where lp: "ss_loops ss l = Some lp" "loop_inv lp" "slot_bytes ss (q, Out) \<noteq> [] \<longrightarrow> watch_write q fd' lp"
    using q(1) unfolding out_inv_def by blast
  then obtain lp' where "ss_loops ss' l = Some lp'" "loop_inv lp'" "el_epoll lp' fd' = el_epoll lp fd'" "el_io_evs lp' fd' = el_io_evs lp fd'"
    using o q(3) unfolding others_kept_def loop_others_def by blast
  then have "\<exists>lp'. ss_loops ss' l = Some lp' \<and> loop_inv lp' \<and> (slot_bytes ss (q, Out) \<noteq> [] \<longrightarrow> watch_write q fd' lp')"
    using lp(3) by (simp add: watch_write_def)
  moreover have "conn_live q fd' l ss'" using others_live [OF o q(2)] q(1) by (simp add: out_inv_def)
  moreover have "slot_bytes ss' (q, Out) = slot_bytes ss (q, Out)" "slot_head ss' (q, Out) = slot_head ss (q, Out)" "ss_sent ss' fd' = ss_sent ss fd'"
    using o q(2,3) by (simp_all add: others_kept_def)
  ultimately show ?thesis using ok q(1) by (simp add: out_inv_def)
qed

text \<open>The fields that a queued message can change, and how.\<close>

lemma conn_send_message_shape:
  assumes inv: "bufs_ok ss" "conn_live p fd l ss" and s: "conn_send_message data msglen msgid p ss = Inr (ret, ss')"
  obtains q st where "rb_ok q st" "rb_frame (slot ss (p, Out)) (ss_pool ss) q st"
    "ss' = put_buf Out p (q, st) ss \<or>
     (\<exists>lp. ss_loops ss l = Some lp \<and> ss' = (put_buf Out p (q, st) ss)\<lparr>ss_loops := (ss_loops ss)(l \<mapsto> add_io_event fd Conn_Wt EPOLLOUT p lp)\<rparr>)"
proof -
  obtain c where c: "ss_heap ss p = Some c" "tc_connfd c = fd" "tc_loop c = l" using conn_live_heap [OF inv(2)] by blast
  have o: "tc_obuf c = slot ss (p, Out)" using c by (simp add: slot_def)
  obtain r act q st where q: "queue_message data msglen msgid (slot ss (p, Out)) (ss_pool ss) = Inr (r, act, q, st)"
      and ss': "(if act then on_loop l (add_io_event fd Conn_Wt EPOLLOUT p) (put_buf Out p (q, st) ss) else Inr (put_buf Out p (q, st) ss)) = Inr ss'"
    using s c o by (auto simp: conn_send_message_def bindR_eq_Inr Let_def)
  have k: "rb_ok q st" "rb_frame (slot ss (p, Out)) (ss_pool ss) q st" using queue_message_keeps [OF bufs_okD(2) [OF inv(1)] q] by simp_all
  show thesis
    by (rule that [OF k]) (use ss' in \<open>auto simp: on_loop_def bindR_eq_Inr deref_eq_Inr split: if_splits\<close>)
qed

lemma others_send:
  assumes inv: "bufs_ok ss" "conn_live p fd l ss" and s: "conn_send_message data msglen msgid p ss = Inr (ret, ss')"
  shows "others_kept p fd ss ss'"
proof -
  obtain q st where k: "rb_ok q st" "rb_frame (slot ss (p, Out)) (ss_pool ss) q st"
      and ss': "ss' = put_buf Out p (q, st) ss \<or>
        (\<exists>lp. ss_loops ss l = Some lp \<and> ss' = (put_buf Out p (q, st) ss)\<lparr>ss_loops := (ss_loops ss)(l \<mapsto> add_io_event fd Conn_Wt EPOLLOUT p lp)\<rparr>)"
    by (rule conn_send_message_shape [OF inv s])
  obtain c where c: "ss_heap ss p = Some c" using conn_live_heap [OF inv(2)] by blast
  note put = others_put [OF inv(1) c k, of fd]
  from ss' show ?thesis
  proof (elim disjE exE conjE)
    fix lp
    assume lp: "ss_loops ss l = Some lp" and t: "ss' = (put_buf Out p (q, st) ss)\<lparr>ss_loops := (ss_loops ss)(l \<mapsto> add_io_event fd Conn_Wt EPOLLOUT p lp)\<rparr>"
    show ?thesis unfolding t
      by (rule others_trans [OF put]) (use lp others_loop [of "put_buf Out p (q, st) ss" l lp, OF _ loop_others_events(2)] in simp)
  qed (use put in simp)
qed

lemma out_inv_other:
  assumes inv: "bufs_ok ss" "conn_live p fd l ss" and s: "conn_send_message data msglen msgid p ss = Inr (ret, ss')"
    and o: "out_inv p' fd' l' stream ss" "p' \<noteq> p" "fd' \<noteq> fd"
  shows "out_inv p' fd' l' stream ss' \<and> slot_bytes ss' (p', Out) = slot_bytes ss (p', Out)"
  using others_out [OF others_send [OF inv s] _ o] send_message_kept [OF inv s] by (simp add: kept_def)

text \<open>Closing a connection.\<close>

lemma clear_buf_others:
  assumes "bufs_ok ss" "ss_heap ss p = Some c" "clear_buf s p ss = Inr ss'"
  shows "others_kept p fd ss ss'" "bufs_ok ss'" "\<exists>c'. ss_heap ss' p = Some c'"
proof -
  have ok: "rb_ok (slot ss (p, s)) (ss_pool ss)" by (rule bufs_okD(2) [OF assms(1)])
  obtain st where st: "rb_clear (slot ss (p, s)) (ss_pool ss) = Inr (None, st)" "pool_inv st" "rb_frame (slot ss (p, s)) (ss_pool ss) None st"
    using rb_clear_ok [OF ok] by blast
  have ss': "ss' = put_buf s p (None, st) ss" using st(1) assms(2,3) by (simp add: clear_buf_def get_buf_def slot_live)
  have none: "rb_ok None st" using st(2) by simp
  show "others_kept p fd ss ss'" "bufs_ok ss'" "\<exists>c'. ss_heap ss' p = Some c'"
    unfolding ss' using others_put [OF assms(1,2) none st(3)] put_buf_ok(1) [OF assms(1,2) none st(3)] put_buf_live [OF assms(2)] by auto
qed

lemma others_clean:
  assumes hook: "run_hook hs (ss_conn_close_cb ss) p ss = Inr s1" "bufs_ok s1" "conn_live p fd l s1" and run: "clean_conn hs p ss = Inr ss'"
  shows "others_kept p fd s1 ss'"
proof -
  obtain c where c: "ss_heap s1 p = Some c" "tc_connfd c = fd" "tc_loop c = l" using conn_live_heap [OF hook(3)] by blast
  obtain lp where lp: "ss_loops s1 l = Some lp" using hook(3) by (auto simp: conn_live_def)
  let ?s2 = "s1\<lparr>ss_conns := (ss_conns s1)[nat fd := Some None], ss_curr_conns := ss_curr_conns s1 - 1\<rparr>"
  let ?s3 = "?s2\<lparr>ss_loops := (ss_loops ?s2)(l \<mapsto> del_io_event fd lp)\<rparr>"
  obtain s4 s5 where s: "clear_buf In p ?s3 = Inr s4" "clear_buf Out p s4 = Inr s5" "ss' = s5\<lparr>ss_open := ss_open s5 - {fd}\<rparr>"
    using run hook(1) c lp by (auto simp: clean_conn_def decrease_conn_def on_loop_def bindR_eq_Inr ensure_eq_Inr)
  have b: "bufs_ok ?s3" "ss_heap ?s3 p = Some c" using hook(2) c(1) bufs_ok_cong(1) [of ?s3 s1] by simp_all
  note in_ok = clear_buf_others [OF b s(1)]
  obtain c' where c': "ss_heap s4 p = Some c'" using in_ok(3) by blast
  have "others_kept p fd s1 ?s3"
    by (rule others_trans [OF others_table others_loop]) (simp add: lp, rule loop_others_events(3))
  then have "others_kept p fd s1 s5" using in_ok(1) clear_buf_others(1) [OF in_ok(2) c' s(2)] others_trans by blast
  then show ?thesis unfolding s(3) using others_open others_trans by blast
qed

text \<open>Writing: the pending bytes are sent, or the connection is closed after a failure.\<close>

lemma conn_do_write_cases:
  assumes inv: "out_inv p fd l stream ss" and run: "conn_do_write hs answers p ss = Inr ss'"
  obtains (flushed) "out_inv p fd l stream ss'" "others_kept p fd ss ss'" "ss_app ss' = ss_app ss" "slot_head ss' (p, In) = slot_head ss (p, In)" "ss_conns ss' = ss_conns ss"
      "slot_bytes ss' (p, In) = slot_bytes ss (p, In)"
    | (failed) s0 where "clean_conn hs p s0 = Inr ss'" "others_kept p fd ss s0" "bufs_ok s0" "conn_live p fd l s0" "ss_app s0 = ss_app ss" "ss_conns s0 = ss_conns ss" "\<not> no_error answers"
proof -
  obtain lp where i: "bufs_ok ss" "conn_live p fd l ss" "slot_head ss (p, Out) = 0" and lp: "ss_loops ss l = Some lp" "loop_inv lp"
    using inv unfolding out_inv_def by blast
  obtain c where c: "ss_heap ss p = Some c" "tc_connfd c = fd" "tc_loop c = l" using conn_live_heap [OF i(2)] by blast
  have o: "tc_obuf c = slot ss (p, Out)" using c by (simp add: slot_def)
  obtain f out st where fl: "flush_loop answers [] (slot ss (p, Out)) (ss_pool ss) = Inr (f, out, st)"
    using run c(1) o by (auto simp: conn_do_write_def bindR_eq_Inr)
  have k: "rb_ok (slot ss (p, Out)) st" "rb_frame (slot ss (p, Out)) (ss_pool ss) (slot ss (p, Out)) st"
    using flush_loop_ok [OF bufs_okD(2) [OF i(1)] i(3) [unfolded slot_head_def], where answers = answers and out = "[]"] fl by simp_all
  have same: "put_buf Out p (slot ss (p, Out), st) ss = ss\<lparr>ss_pool := st\<rparr>" using c(1) o by (cases c) (auto simp: put_buf_def fun_upd_idem)
  let ?s1 = "ss\<lparr>ss_pool := st\<rparr>" and ?s = "ss\<lparr>ss_pool := st, ss_sent := (ss_sent ss)(fd := ss_sent ss fd @ out)\<rparr>"
  have e: "bufs_ok ?s \<longleftrightarrow> bufs_ok ?s1" "slot_bytes ?s = slot_bytes ?s1" "slot_head ?s = slot_head ?s1" using bufs_ok_cong [of ?s ?s1] by simp_all
  have put: "bufs_ok ?s1" "slot_head ?s1 (p, In) = slot_head ss (p, In)" "others_kept p fd ss ?s1" "slot_bytes ?s1 (p, In) = slot_bytes ss (p, In)"
    using put_buf_ok [OF i(1) c(1) k] others_put [OF i(1) c(1) k] unfolding same by simp_all
  have "others_kept p fd ?s1 ?s" using e(2,3) by (simp add: others_kept_def)
  then have oth: "others_kept p fd ss ?s" by (rule others_trans [OF put(3)])
  show thesis
  proof (cases f)
    case True
    then have "clean_conn hs p ?s = Inr ss'" using run c o fl by (simp add: conn_do_write_def Let_def)
    moreover have "conn_live p fd l ?s" using i(2) by (simp add: conn_live_def)
    moreover have "\<not> no_error answers" using flush_loop_no_error fl True by blast
    ultimately show thesis using failed [of ?s] oth put(1) e(1) by simp
  next
    case False
    have ss': "ss' = ?s \<or> ss' = ?s\<lparr>ss_loops := (ss_loops ?s)(l \<mapsto> del_io_event_mask fd EPOLLOUT lp)\<rparr>"
      using run c o fl False lp(1) by (auto simp: conn_do_write_def on_loop_def Let_def bindR_eq_Inr split: if_splits)
    have "others_kept p fd ?s (?s\<lparr>ss_loops := (ss_loops ?s)(l \<mapsto> del_io_event_mask fd EPOLLOUT lp)\<rparr>)"
      by (rule others_loop) (simp add: lp(1), rule loop_others_events(4))
    then have "others_kept p fd ss ss'" using ss' oth others_trans by blast
    moreover have "slot_head ss' = slot_head ?s" "slot_bytes ss' = slot_bytes ?s" using ss' bufs_ok_cong(2,3) [of "?s\<lparr>ss_loops := (ss_loops ?s)(l \<mapsto> del_io_event_mask fd EPOLLOUT lp)\<rparr>" ?s] by auto
    moreover have "out_inv p fd l stream ss'" using conn_flush_out [OF inv, of answers hs] run fl False by simp
    ultimately show thesis using flushed ss' put(2,4) e(2,3) by auto
  qed
qed

section \<open>New connections\<close>

text \<open>The object of a new connection, before the start hook runs.\<close>

definition with_conn :: "int \<Rightarrow> ptr \<Rightarrow> ('cb, 'u, 'h, 'x) server_state \<Rightarrow> ('cb, 'u, 'h, 'x) server_state" where
  "with_conn fd l ss =
     ss\<lparr>ss_heap := (ss_heap ss)(ss_next ss \<mapsto> \<lparr>tc_connfd = fd, tc_loop = l, tc_obuf = reactor_buf_new, tc_ibuf = reactor_buf_new\<rparr>), ss_next := ss_next ss + 1\<rparr>"

lemma with_conn_slots:
  assumes "bufs_ok ss"
  shows "slot (with_conn fd l ss) k = slot ss k" "bufs_ok (with_conn fd l ss)" "slot (with_conn fd l ss) (ss_next ss, s) = None"
proof -
  have none: "ss_heap ss (ss_next ss) = None" using bufs_okD(4) [OF assms] by simp
  show slots: "slot (with_conn fd l ss) k = slot ss k" for k
    using none by (cases k; cases "snd k") (auto simp: slot_def with_conn_def reactor_buf_new_def)
  show "bufs_ok (with_conn fd l ss)" using assms none unfolding bufs_ok_def slots by (simp add: with_conn_def)
  show "slot (with_conn fd l ss) (ss_next ss, s) = None" using none by (simp add: slots) (simp add: slot_def)
qed

lemma tcp_conn_new_hook:
  assumes inv: "bufs_ok ss" and lp: "ss_loops ss l = Some lp" "loop_inv lp" and fd: "0 \<le> fd" "fd < int (length (ss_conns ss))"
    and hook: "run_hook hs (ss_conn_start_cb ss) (ss_next ss) (with_conn fd l ss) = Inr ((with_conn fd l ss)\<lparr>ss_app := x\<rparr>)"
  defines "ss1 \<equiv> (with_conn fd l ss)\<lparr>ss_app := x, ss_loops := (ss_loops ss)(l \<mapsto> add_io_event fd Conn_Rd EPOLLIN (ss_next ss) lp),
      ss_conns := (ss_conns ss)[nat fd := Some (Some (ss_next ss))], ss_curr_conns := ss_curr_conns ss + 1\<rparr>"
  shows "tcp_conn_new hs fd l ss = Inr (ss_next ss, ss1)" and "out_inv (ss_next ss) fd l (ss_sent ss fd) ss1" and "slot ss1 (ss_next ss, In) = None"
proof -
  show "tcp_conn_new hs fd l ss = Inr (ss_next ss, ss1)"
    using hook lp(1) fd by (simp add: tcp_conn_new_def with_conn_def on_loop_def increase_conn_def ss1_def Let_def)
  note w = with_conn_slots [OF inv, of fd l]
  have e: "bufs_ok ss1" "slot ss1 = slot (with_conn fd l ss)" using w(2) bufs_ok_cong(1,4) [of ss1 "with_conn fd l ss"] by (simp_all add: ss1_def)
  have "slot ss1 (ss_next ss, s) = None" for s using w(3) e(2) by simp
  then have n: "slot ss1 (ss_next ss, In) = None" "slot ss1 (ss_next ss, Out) = None" by blast+
  then show "slot ss1 (ss_next ss, In) = None" by simp
  have "conn_live (ss_next ss) fd l ss1" using fd by (simp add: conn_live_def ss1_def with_conn_def)
  moreover have "ss_sent ss1 fd = ss_sent ss fd" by (simp add: ss1_def with_conn_def)
  moreover have "ss_loops ss1 l = Some (add_io_event fd Conn_Rd EPOLLIN (ss_next ss) lp)" by (simp add: ss1_def)
  ultimately show "out_inv (ss_next ss) fd l (ss_sent ss fd) ss1"
    using e(1) n(2) loop_inv_add_in [OF lp(2)] by (simp add: out_inv_def slot_bytes_def slot_head_def)
qed

lemma new_conn_others:
  assumes inv: "bufs_ok ss" and lp: "ss_loops ss l = Some lp" "loop_inv lp" and fd: "0 \<le> fd" "fd < int (length (ss_conns ss))"
    and hook: "run_hook hs (ss_conn_start_cb ss) (ss_next ss) (with_conn fd l ss) = Inr ((with_conn fd l ss)\<lparr>ss_app := x\<rparr>)"
  shows "others_kept (ss_next ss) fd ss ((with_conn fd l ss)\<lparr>ss_app := x, ss_loops := (ss_loops ss)(l \<mapsto> add_io_event fd Conn_Rd EPOLLIN (ss_next ss) lp),
      ss_conns := (ss_conns ss)[nat fd := Some (Some (ss_next ss))], ss_curr_conns := ss_curr_conns ss + 1\<rparr>)" (is "others_kept _ _ _ ?s1")
proof -
  note w = with_conn_slots(1) [OF inv, of fd l]
  have "slot_bytes ?s1 = slot_bytes (with_conn fd l ss)" "slot_head ?s1 = slot_head (with_conn fd l ss)" using bufs_ok_cong(2,3) [of ?s1 "with_conn fd l ss"] by simp_all
  moreover have "slot_bytes (with_conn fd l ss) = slot_bytes ss" "slot_head (with_conn fd l ss) = slot_head ss"
    using w by (simp_all add: fun_eq_iff slot_bytes_def slot_head_def) (simp_all add: with_conn_def)
  ultimately show ?thesis using lp loop_others_events(1) [of fd lp Conn_Rd "ss_next ss"] by (simp add: others_kept_def) (simp add: with_conn_def)
qed

text \<open>A start hook that sends: the new connection begins with what the hook has queued.\<close>

lemma with_conn_out:
  assumes "bufs_ok ss" "ss_loops ss l = Some lp" "loop_inv lp" "0 \<le> fd" "fd < int (length (ss_conns ss))"
  shows "out_inv (ss_next ss) fd l (ss_sent ss fd) (with_conn fd l ss)" "slot (with_conn fd l ss) (ss_next ss, s) = None"
proof -
  note w = with_conn_slots [OF assms(1), of fd l]
  show "slot (with_conn fd l ss) (ss_next ss, s) = None" by (rule w(3))
  show "out_inv (ss_next ss) fd l (ss_sent ss fd) (with_conn fd l ss)"
    using assms w(2) w(3) [of Out] by (simp add: out_inv_def slot_bytes_def slot_head_def conn_live_def) (simp add: with_conn_def)
qed

lemma watch_write_read: "loop_inv lp \<Longrightarrow> watch_write p fd lp \<Longrightarrow> watch_write p fd (add_io_event fd Conn_Rd EPOLLIN p lp)"
  by (auto simp: watch_write_def add_io_event_shape Let_def io_ev_at_def loop_inv_def bit.conj_disj_distrib2 or_eq_0_iff)

lemma tcp_conn_new_fails: "run_hook hs (ss_conn_start_cb ss) (ss_next ss) (with_conn fd l ss) = Inl e \<Longrightarrow> tcp_conn_new hs fd l ss = Inl e"
  by (simp add: tcp_conn_new_def with_conn_def Let_def)

lemma tcp_conn_new_sends:
  assumes hook: "run_hook hs (ss_conn_start_cb ss) (ss_next ss) (with_conn fd l ss) = Inr ss1" and out: "out_inv (ss_next ss) fd l strm ss1"
  obtains ss2 where "tcp_conn_new hs fd l ss = Inr (ss_next ss, ss2)" "out_inv (ss_next ss) fd l strm ss2" "slot ss2 = slot ss1" "slot_bytes ss2 = slot_bytes ss1"
    "ss_app ss2 = ss_app ss1" "ss_router ss2 = ss_router ss1" "ss_conn_close_cb ss2 = ss_conn_close_cb ss1"
    "ss_conns ss2 = (ss_conns ss1)[nat fd := Some (Some (ss_next ss))]" "slot_head ss2 = slot_head ss1"
proof -
  obtain lp where o: "bufs_ok ss1" "conn_live (ss_next ss) fd l ss1" "ss_loops ss1 l = Some lp" "loop_inv lp"
      "slot_bytes ss1 (ss_next ss, Out) \<noteq> [] \<Longrightarrow> watch_write (ss_next ss) fd lp"
    using out by (auto simp: out_inv_def)
  have fd: "0 \<le> fd" "fd < int (length (ss_conns ss1))" using o(2) by (simp_all add: conn_live_def)
  let ?s = "ss1\<lparr>ss_loops := (ss_loops ss1)(l \<mapsto> add_io_event fd Conn_Rd EPOLLIN (ss_next ss) lp),
      ss_conns := (ss_conns ss1)[nat fd := Some (Some (ss_next ss))], ss_curr_conns := ss_curr_conns ss1 + 1\<rparr>"
  have new: "tcp_conn_new hs fd l ss = Inr (ss_next ss, ?s)"
    using hook o(3) fd by (simp add: tcp_conn_new_def with_conn_def on_loop_def increase_conn_def Let_def)
  note same = bufs_ok_cong [of ?s ss1]
  have "out_inv (ss_next ss) fd l strm ?s"
    using out o(1) same o(2-4) watch_write_read [OF o(4) o(5)] loop_inv_add_in [OF o(4)] by (auto simp: out_inv_def conn_live_def)
  from that [OF new this] same show thesis by simp
qed

section \<open>Streams of frames\<close>

text \<open>The output stream depends on neither the application nor the input buffer.\<close>

lemma out_inv_app: "out_inv p fd l s (ss\<lparr>ss_app := x\<rparr>) \<longleftrightarrow> out_inv p fd l s ss"
  using bufs_ok_cong [of "ss\<lparr>ss_app := x\<rparr>" ss] by (simp add: out_inv_def conn_live_def)

lemma send_keeps_hooks: "conn_send_message data len msgid p ss = Inr (ret, ss') \<Longrightarrow> ss_conn_close_cb ss' = ss_conn_close_cb ss \<and> ss_sent ss' = ss_sent ss"
  by (auto simp: conn_send_message_def on_loop_def Let_def bindR_eq_Inr split: if_splits)

lemma out_inv_put_in:
  assumes "out_inv p fd l s ss" "rb_ok q st" "rb_frame (slot ss (p, In)) (ss_pool ss) q st"
  shows "out_inv p fd l s (put_buf In p (q, st) ss)" "slot_bytes (put_buf In p (q, st) ss) (p, Out) = slot_bytes ss (p, Out)"
proof -
  have live: "bufs_ok ss" "conn_live p fd l ss" using assms(1) by (simp_all add: out_inv_def)
  obtain c where c: "ss_heap ss p = Some c" using conn_live_heap [OF live(2)] by blast
  have "bufs_ok (put_buf In p (q, st) ss)" by (rule put_buf_ok(1) [OF live(1) c assms(2,3)])
  moreover have b: "slot_bytes (put_buf In p (q, st) ss) (p, Out) = slot_bytes ss (p, Out)" "slot_head (put_buf In p (q, st) ss) (p, Out) = slot_head ss (p, Out)"
    using put_buf_ok(2) [OF live(1) c assms(2,3), of "(p, Out)"] by simp_all
  ultimately show "out_inv p fd l s (put_buf In p (q, st) ss)" using assms(1) by (simp add: out_inv_def)
  show "slot_bytes (put_buf In p (q, st) ss) (p, Out) = slot_bytes ss (p, Out)" by (rule b(1))
qed

lemma concat_frames_nonempty: "reqs \<noteq> [] \<Longrightarrow> 0 < length (concat (map (\<lambda>r. frame (f r)) reqs))"
  by (cases reqs) simp_all

lemma frames_parsed:
  assumes "\<forall>r \<in> set reqs. int (length (snd (f r))) \<le> MESSAGE_LENGTH_LIMIT"
  shows "parse_frames (concat (map (\<lambda>r. frame (f r)) reqs)) = (map f reqs, [], Incomplete)"
  using parse_frames_concat [of "map f reqs" "[]"] assms by (simp add: comp_def)

lemma no_empty_tail: "\<forall>r \<in> set reqs. snd (f r) \<noteq> [] \<Longrightarrow> \<not> empty_tail (map f reqs) rest"
  by (auto simp: empty_tail_def last_map)

end
