(* ===== verification/Float_Text.thy ===== *)
theory Float_Text
  imports C_Strings
begin

text \<open>
  The stream conversions between text and \<open>float\<close> that the configuration reader uses. \<open>decimal_of\<close> is the part of a text that
  \<open>operator>>\<close> accepts, as an exact fraction (\<open>None\<close>: the stream fails); \<open>round_float\<close> is the nearest IEEE single, half to even, with gradual
  underflow (\<open>None\<close>: too large, which also makes the stream fail); \<open>print_float\<close> is \<open>operator<<\<close> with its default precision of six digits. The
  two zeros are not told apart. \<open>round_float_nearest\<close> shows that no other \<open>float\<close> is closer to the number in the text, and
  \<open>round_float_overflow\<close> that only numbers beyond the largest \<open>float\<close> are refused.
\<close>

section \<open>Model\<close>

text \<open>An optional sign, and the digits at the front of a text.\<close>

definition take_sign :: "string \<Rightarrow> int \<times> string" where
  "take_sign s =
     (case s of
        [] \<Rightarrow> (1, s)
      | c # cs \<Rightarrow> if c = CHR ''-'' then (- 1, cs) else if c = CHR ''+'' then (1, cs) else (1, s))"

definition take_digits :: "string \<Rightarrow> string \<times> string" where
  "take_digits s = (takeWhile is_digit s, dropWhile is_digit s)"

text \<open>The fraction after a decimal point; the exponent after \<open>e\<close> or \<open>E\<close>, which needs a digit.\<close>

definition take_fraction :: "string \<Rightarrow> string \<times> string" where
  "take_fraction s =
     (case s of [] \<Rightarrow> ([], s) | c # cs \<Rightarrow> if c = CHR ''.'' then take_digits cs else ([], s))"

definition take_exponent :: "string \<Rightarrow> int option" where
  "take_exponent s =
     (case s of
        [] \<Rightarrow> Some 0
      | c # cs \<Rightarrow>
          if c = CHR ''e'' \<or> c = CHR ''E'' then
            (let (sg, r) = take_sign cs; (ds, _) = take_digits r in
             if ds = [] then None else Some (sg * digits 0 ds))
          else Some 0)"

definition scale10 :: "int \<Rightarrow> int \<Rightarrow> int \<times> int" where
  "scale10 n e = (if 0 \<le> e then (n * 10 ^ nat e, 1) else (n, 10 ^ nat (- e)))"

definition decimal_of :: "string \<Rightarrow> (int \<times> int) option" where
  "decimal_of s =
     (let (sg, r) = take_sign (dropWhile is_space s); (ip, r) = take_digits r; (fp, r) = take_fraction r in
      if ip @ fp = [] then None
      else map_option (\<lambda>e. scale10 (sg * digits 0 (ip @ fp)) (e - int (length fp))) (take_exponent r))"

text \<open>The quotient rounded to an integer, half to even; the number of bits of an integer.\<close>

definition div_even :: "int \<Rightarrow> int \<Rightarrow> int" where
  "div_even a b =
     (let q = a div b; r = a mod b in if 2 * r < b \<or> 2 * r = b \<and> even q then q else q + 1)"

function bits :: "int \<Rightarrow> nat" where
  "bits n = (if n \<le> 0 then 0 else Suc (bits (n div 2)))"
  by auto
termination by (relation "measure nat") auto

declare bits.simps [simp del]

text \<open>The fraction \<open>m / 2 ^ k\<close> in lowest terms.\<close>

fun lowest :: "int \<Rightarrow> nat \<Rightarrow> float32" where
  "lowest m k = (if k = 0 \<or> odd m then (m, k) else lowest (m div 2) (k - 1))"

declare lowest.simps [simp del]

text \<open>
  The multiples of \<open>2 ^ i / 2 ^ 149\<close> with at most 24 bits are the \<open>float\<close> values around the fraction: \<open>i\<close> is 0 for the
  subnormal numbers, and otherwise the fraction has \<open>24 + i\<close> bits when it is measured in units of \<open>1 / 2 ^ 149\<close>.
\<close>

definition round_float :: "int \<times> int \<Rightarrow> float32 option" where
  "round_float x =
     (let (n, d) = x; a = \<bar>n\<bar> * 2 ^ 149; i = bits (a div d) - 24; q = div_even a (d * 2 ^ i); v = q * 2 ^ i in
      if 2 ^ 277 \<le> v then None else Some (lowest (sgn n * v) 149))"

text \<open>\<open>operator>>\<close> on a stream with the text; \<open>None\<close> is a stream in its failed state.\<close>

definition read_float :: "string \<Rightarrow> float32 option" where
  "read_float s = (case decimal_of s of None \<Rightarrow> None | Some x \<Rightarrow> round_float x)"

text \<open>
  \<open>operator<<\<close> with precision 6. \<open>exponent_down\<close> and \<open>exponent_up\<close> find the \<open>e\<close> with \<open>10 ^ e \<le> n / d < 10 ^ (e + 1)\<close>; the number is then rounded
  to six digits, and when that gives \<open>10 ^ 6\<close> the exponent is one higher.
\<close>

function exponent_down :: "int \<Rightarrow> int \<Rightarrow> int \<Rightarrow> int \<times> int" where
  "exponent_down n d e = (if 0 < n \<and> n < d then exponent_down (10 * n) d (e - 1) else (n, e))"
  by auto
termination by (relation "measure (\<lambda>(n, d, e). nat (d - n))") auto

function exponent_up :: "int \<Rightarrow> int \<Rightarrow> int \<Rightarrow> int" where
  "exponent_up n d e = (if 0 < d \<and> 10 * d \<le> n then exponent_up n (10 * d) (e + 1) else e)"
  by auto
termination by (relation "measure (\<lambda>(n, d, e). nat (n - d))") auto

declare exponent_down.simps [simp del] exponent_up.simps [simp del]

definition six_digits :: "int \<Rightarrow> int \<Rightarrow> int \<times> int" where
  "six_digits n d =
     (let (n', e) = exponent_down n d 0; e = exponent_up n' d e; (a, b) = scale10 n (5 - e); D = div_even a (b * d) in
      if D = 10 ^ 6 then (10 ^ 5, e + 1) else (D, e))"

definition strip_zeros :: "string \<Rightarrow> string" where
  "strip_zeros s = rev (dropWhile (\<lambda>c. c = CHR ''0'') (rev s))"

definition with_fraction :: "string \<Rightarrow> string \<Rightarrow> string" where
  "with_fraction ip fp = (let fp = strip_zeros fp in if fp = [] then ip else ip @ CHR ''.'' # fp)"

definition exponent_text :: "int \<Rightarrow> string" where
  "exponent_text e = CHR ''e'' # (if e < 0 then CHR ''-'' else CHR ''+'') #
     (if \<bar>e\<bar> < 10 then CHR ''0'' # show_nat (nat \<bar>e\<bar>) else show_nat (nat \<bar>e\<bar>))"

definition decimal_text :: "int \<Rightarrow> int \<Rightarrow> string" where
  "decimal_text D e =
     (let ds = show_nat (nat D) in
      if e < - 4 \<or> 6 \<le> e then with_fraction (take 1 ds) (drop 1 ds) @ exponent_text e
      else if e < 0 then with_fraction ''0'' (replicate (nat (- e - 1)) (CHR ''0'') @ ds)
      else with_fraction (take (nat (e + 1)) ds) (drop (nat (e + 1)) ds))"

definition print_float :: "float32 \<Rightarrow> string" where
  "print_float f =
     (let (m, k) = f; (D, e) = six_digits \<bar>m\<bar> (2 ^ k) in
      if m = 0 then ''0'' else (if m < 0 then ''-'' else []) @ decimal_text D e)"

section \<open>Evaluation\<close>

text \<open>Conditional forms of the recursions, which the simplifier unfolds only on numerals.\<close>

named_theorems float_eval \<open>evaluation of conversions between text and float\<close>

lemma bits_eval [float_eval]: "0 < n \<Longrightarrow> bits n = Suc (bits (n div 2))" "n \<le> 0 \<Longrightarrow> bits n = 0"
  by (simp_all add: bits.simps [of n])

lemma lowest_eval [float_eval]: "k \<noteq> 0 \<Longrightarrow> even m \<Longrightarrow> lowest m k = lowest (m div 2) (k - 1)" "odd m \<Longrightarrow> lowest m k = (m, k)" "lowest m 0 = (m, 0)"
  by (simp_all add: lowest.simps [of m])

lemma exponent_eval [float_eval]:
  "0 < n \<Longrightarrow> n < d \<Longrightarrow> exponent_down n d e = exponent_down (10 * n) d (e - 1)" "d \<le> n \<Longrightarrow> exponent_down n d e = (n, e)"
  "0 < d \<Longrightarrow> 10 * d \<le> n \<Longrightarrow> exponent_up n d e = exponent_up n (10 * d) (e + 1)" "n < 10 * d \<Longrightarrow> exponent_up n d e = e"
  by (simp_all add: exponent_down.simps [of n] exponent_up.simps [of n])

lemma round_float_eval [float_eval]: "round_float (n, d) =
    (let a = \<bar>n\<bar> * 2 ^ 149; i = bits (a div d) - 24; v = div_even a (d * 2 ^ i) * 2 ^ i in
     if 2 ^ 277 \<le> v then None else Some (lowest (sgn n * v) 149))"
  by (simp add: round_float_def Let_def)

lemma show_nat_eval [float_eval]: "n < 10 \<Longrightarrow> show_nat n = [digit_char n]" "10 \<le> n \<Longrightarrow> show_nat n = show_nat (n div 10) @ [digit_char (n mod 10)]"
  by (simp_all add: show_nat.simps [of n])

lemma digit_char_eval [float_eval]:
  "digit_char 0 = CHR ''0''" "digit_char 1 = CHR ''1''" "digit_char (Suc 0) = CHR ''1''" "digit_char 2 = CHR ''2''" "digit_char 3 = CHR ''3''" "digit_char 4 = CHR ''4''"
  "digit_char 5 = CHR ''5''" "digit_char 6 = CHR ''6''" "digit_char 7 = CHR ''7''" "digit_char 8 = CHR ''8''" "digit_char 9 = CHR ''9''"
  by (simp_all add: digit_char_def char_of_def)

lemmas [float_eval] = decimal_of_def take_sign_def take_digits_def take_fraction_def take_exponent_def is_digit_def is_space_def code_def of_char_def scale10_def
  div_even_def six_digits_def print_float_def decimal_text_def with_fraction_def strip_zeros_def exponent_text_def

text \<open>The texts that stand for the default rates of the agent, and for a number whose seventh digit is lost.\<close>

lemma rate_texts:
  "print_float (13421773, 27) = ''0.1''" "print_float (15938355, 24) = ''0.95''" "print_float (16777215, 0) = ''1.67772e+07''"
  by (simp_all add: float_eval)

lemma err_rate_value: "decimal_of ''0.1'' = Some (1, 10)" "read_float ''0.1'' = Some (13421773, 27)"
  by (simp_all add: read_float_def float_eval)

lemma succ_rate_value: "read_float ''0.95'' = Some (15938355, 24)"
  by (simp add: read_float_def float_eval)

lemma large_value: "read_float ''1.67772e+07'' = Some (16777200, 0)"
  by (simp add: read_float_def float_eval)

lemma failed_values: "read_float ''1e'' = None" "read_float ''abc'' = None" "read_float ''1e39'' = None"
  by code_simp+

lemmas rate_values = err_rate_value succ_rate_value large_value

section \<open>The nearest value\<close>

lemma div_even_nearest:
  assumes "0 < b"
  shows "\<bar>div_even a b * b - a\<bar> \<le> \<bar>c * b - a\<bar>"
proof -
  let ?q = "a div b" and ?r = "a mod b"
  have a: "?q * b + ?r = a" and r: "0 \<le> ?r" "?r < b" using assms by simp_all
  have "\<bar>div_even a b * b - a\<bar> = min ?r (b - ?r)"
  proof (cases "2 * ?r < b \<or> 2 * ?r = b \<and> even ?q")
    case True
    then have "div_even a b = ?q" by (auto simp: div_even_def Let_def)
    moreover have "?q * b - a = - ?r" using a by linarith
    ultimately have "div_even a b * b - a = - ?r" by simp
    then show ?thesis using True r by linarith
  next
    case False
    then have "div_even a b = ?q + 1" by (auto simp: div_even_def Let_def)
    moreover have "(?q + 1) * b - a = b - ?r" using a unfolding distrib_right by linarith
    ultimately have "div_even a b * b - a = b - ?r" by simp
    then show ?thesis using False r by linarith
  qed
  moreover have "min ?r (b - ?r) \<le> \<bar>c * b - a\<bar>"
  proof (cases "c \<le> ?q")
    case True
    then have "c * b \<le> ?q * b" using assms by simp
    then show ?thesis using a r by linarith
  next
    case False
    then have "(?q + 1) * b \<le> c * b" using assms by (intro mult_right_mono) simp_all
    then have "?q * b + b \<le> c * b" by (simp add: algebra_simps)
    then show ?thesis using a r by linarith
  qed
  ultimately show ?thesis by simp
qed

lemma div_even_nonneg: "0 \<le> a \<Longrightarrow> 0 < b \<Longrightarrow> 0 \<le> div_even a b"
  by (simp add: div_even_def Let_def pos_imp_zdiv_nonneg_iff)

lemma div_even_le: "0 < b \<Longrightarrow> a < c * b \<Longrightarrow> div_even a b \<le> c"
proof -
  assume b: "0 < b" "a < c * b"
  have "a div b * b \<le> a" using b(1) by (simp add: minus_mod_eq_div_mult [symmetric])
  then have "a div b < c" using b by (metis le_less_trans mult_less_cancel_right_pos)
  then show "div_even a b \<le> c" by (simp add: div_even_def Let_def)
qed

lemma bits_bounds: "0 < n \<Longrightarrow> 2 ^ (bits n - 1) \<le> n \<and> n < 2 ^ bits n \<and> 0 < bits n"
proof (induction n rule: bits.induct)
  case (1 n)
  show ?case
  proof (cases "n div 2 = 0")
    case True
    then have "n = 1" using 1(2) by linarith
    then show ?thesis by (simp add: bits_eval)
  next
    case False
    then have h: "0 < n div 2" using 1(2) by (simp add: pos_imp_zdiv_pos_iff)
    then have IH: "2 ^ (bits (n div 2) - 1) \<le> n div 2" "n div 2 < 2 ^ bits (n div 2)" "0 < bits (n div 2)" using 1 by simp_all
    obtain k where k: "bits (n div 2) = Suc k" using IH(3) by (cases "bits (n div 2)") simp_all
    have "bits n = Suc (Suc k)" using bits_eval(1) [OF 1(2)] k by simp
    moreover have "2 * 2 ^ k \<le> n" "n < 4 * 2 ^ k" using IH(1,2) k by simp_all
    ultimately show ?thesis by simp
  qed
qed

lemma bits_less: "n < 2 ^ bits n"
proof (cases "0 < n")
  case False
  then have "n < 1" "bits n = 0" by (simp_all add: bits.simps [of n])
  then show ?thesis by simp
qed (use bits_bounds [of n] in blast)

lemma lowest_value: "lowest m k = (m', k') \<Longrightarrow> k' \<le> k \<and> m' * 2 ^ (k - k') = m"
proof (induction m k rule: lowest.induct)
  case (1 m k)
  show ?case
  proof (cases "k = 0 \<or> odd m")
    case False
    then have "k' \<le> k - 1 \<and> m' * 2 ^ (k - 1 - k') = m div 2" using 1 by (simp add: lowest_eval)
    moreover from this have "k - k' = Suc (k - 1 - k')" using False by auto
    ultimately show ?thesis using False by auto
  qed (use 1(2) in \<open>auto simp: lowest.simps [of m]\<close>)
qed

text \<open>The values of type \<open>float\<close>: at most 24 significant bits, a multiple of \<open>1 / 2 ^ 149\<close>, and below \<open>2 ^ 128\<close>.\<close>

definition is_float :: "float32 \<Rightarrow> bool" where
  "is_float f \<longleftrightarrow> (\<exists>p j. snd f \<le> 149 \<and> \<bar>p\<bar> \<le> 2 ^ 24 \<and> fst f * 2 ^ (149 - snd f) = p * 2 ^ j) \<and> \<bar>fst f\<bar> < 2 ^ 128 * 2 ^ snd f"

text \<open>\<open>float_dist f n d\<close> is the distance of \<open>f\<close> from \<open>n / d\<close>, in units of \<open>1 / (d * 2 ^ 149)\<close>.\<close>

definition float_dist :: "float32 \<Rightarrow> int \<Rightarrow> int \<Rightarrow> int" where
  "float_dist f n d = \<bar>fst f * 2 ^ (149 - snd f) * d - n * 2 ^ 149\<bar>"

lemma units_nearest:
  assumes "0 \<le> a" "0 < d" "\<bar>p\<bar> \<le> 2 ^ 24"
  defines "i \<equiv> bits (a div d) - 24"
  shows "\<bar>div_even a (d * 2 ^ i) * 2 ^ i * d - a\<bar> \<le> \<bar>p * 2 ^ j * d - a\<bar>"
proof -
  let ?u = "d * 2 ^ i"
  have near: "\<bar>div_even a ?u * 2 ^ i * d - a\<bar> \<le> \<bar>c * ?u - a\<bar>" for c
    using div_even_nearest [of ?u a c] assms(2) by (simp add: mult_ac)
  show ?thesis
  proof (cases "i \<le> j")
    case True
    then have "(2 :: int) ^ j = 2 ^ (j - i) * 2 ^ i" by (simp flip: power_add)
    then have "p * 2 ^ j * d = (p * 2 ^ (j - i)) * ?u" by simp
    then show ?thesis using near [of "p * 2 ^ (j - i)"] by (simp only:)
  next
    case False
    then have b: "bits (a div d) = i + 24" by (simp add: i_def)
    then have "0 < a div d" using bits_eval(2) [of "a div d"] by linarith
    then have "2 ^ (i + 23) \<le> a div d" using bits_bounds [of "a div d"] b by (simp add: add.commute)
    then have "2 ^ (i + 23) * d \<le> a div d * d" using assms(2) by simp
    also have "\<dots> \<le> a" using assms(2) by (simp add: minus_mod_eq_div_mult [symmetric])
    finally have a: "2 ^ 23 * ?u \<le> a" by (simp add: power_add mult_ac)
    have "p * 2 ^ j \<le> 2 ^ 24 * 2 ^ j" using assms(3) by simp
    also have "\<dots> \<le> 2 ^ 24 * 2 ^ (i - 1)" using False by simp
    also have "\<dots> = 2 ^ 23 * 2 ^ i" using False by (cases i) simp_all
    finally have "p * 2 ^ j * d \<le> 2 ^ 23 * ?u" using assms(2) mult_right_mono [of "p * 2 ^ j" "2 ^ 23 * 2 ^ i" d] by (simp add: mult_ac)
    then show ?thesis using near [of "2 ^ 23"] a by linarith
  qed
qed

lemma units_small:
  assumes "0 \<le> a" "0 < d"
  shows "0 \<le> div_even a (d * 2 ^ (bits (a div d) - 24)) \<and> div_even a (d * 2 ^ (bits (a div d) - 24)) \<le> 2 ^ 24"
proof -
  let ?i = "bits (a div d) - 24"
  have "a div d < 2 ^ bits (a div d)" by (rule bits_less)
  also have "\<dots> \<le> 2 ^ (24 + ?i)" by (rule power_increasing) simp_all
  finally have "a div d + 1 \<le> 2 ^ (24 + ?i)" by simp
  then have "(a div d + 1) * d \<le> 2 ^ (24 + ?i) * d" using assms(2) by (intro mult_right_mono) simp_all
  moreover have "a < (a div d + 1) * d" using pos_mod_bound [OF assms(2), of a] div_mult_mod_eq [of a d] unfolding distrib_right by linarith
  ultimately have "a < 2 ^ 24 * (d * 2 ^ ?i)" by (simp add: power_add mult_ac)
  then show ?thesis using assms by (simp add: div_even_le div_even_nonneg)
qed

lemma round_float_nearest:
  assumes "0 < d" "round_float (n, d) = Some f"
  shows "is_float f" and "is_float g \<Longrightarrow> float_dist f n d \<le> float_dist g n d"
proof -
  define a where "a = \<bar>n\<bar> * 2 ^ 149"
  define i where "i = bits (a div d) - 24"
  define q where "q = div_even a (d * 2 ^ i)"
  have a: "0 \<le> a" by (simp add: a_def)
  have q: "0 \<le> q" "q \<le> 2 ^ 24" using units_small [OF a assms(1)] by (simp_all add: q_def i_def)
  have f: "q * 2 ^ i < 2 ^ 277" "lowest (sgn n * (q * 2 ^ i)) 149 = f"
    using assms(2) by (simp_all add: round_float_eval Let_def q_def i_def a_def split: if_splits)
  then have v: "snd f \<le> 149" "fst f * 2 ^ (149 - snd f) = sgn n * (q * 2 ^ i)"
    using lowest_value [of "sgn n * (q * 2 ^ i)" 149 "fst f" "snd f"] by simp_all
  have s: "\<bar>sgn n * q\<bar> \<le> 2 ^ 24" using q by (simp add: abs_mult sgn_if)
  have "\<bar>fst f\<bar> * 2 ^ (149 - snd f) \<le> q * 2 ^ i"
  proof -
    have "\<bar>fst f\<bar> * 2 ^ (149 - snd f) = \<bar>sgn n * (q * 2 ^ i)\<bar>" using v(2) by (metis abs_mult abs_numeral power_abs)
    also have "\<dots> \<le> q * 2 ^ i" using q(1) by (simp add: abs_mult sgn_if)
    finally show ?thesis .
  qed
  also have "\<dots> < 2 ^ 128 * 2 ^ snd f * 2 ^ (149 - snd f)" using f(1) v(1) by (simp add: mult.assoc flip: power_add)
  finally have "\<bar>fst f\<bar> < 2 ^ 128 * 2 ^ snd f" by simp
  moreover have "fst f * 2 ^ (149 - snd f) = (sgn n * q) * 2 ^ i" using v(2) by simp
  ultimately show "is_float f" unfolding is_float_def using v(1) s by blast
  show "float_dist f n d \<le> float_dist g n d" if g0: "is_float g"
  proof -
    obtain p j where g: "\<bar>p\<bar> \<le> 2 ^ 24" "fst g * 2 ^ (149 - snd g) = p * 2 ^ j" using g0 unfolding is_float_def by blast
    have "n * 2 ^ 149 = sgn n * a" by (simp add: a_def abs_sgn mult_ac)
    then have "float_dist f n d = \<bar>sgn n * (q * 2 ^ i * d - a)\<bar>" by (simp add: float_dist_def v(2) algebra_simps)
    also have "\<dots> \<le> \<bar>q * 2 ^ i * d - a\<bar>" by (simp add: abs_mult sgn_if)
    also have "\<dots> \<le> \<bar>\<bar>p\<bar> * 2 ^ j * d - a\<bar>" unfolding q_def i_def by (rule units_nearest [OF a assms(1)]) (use g(1) in simp)
    also have "\<dots> = \<bar>\<bar>p * 2 ^ j * d\<bar> - \<bar>n * 2 ^ 149\<bar>\<bar>" using assms(1) by (simp add: a_def abs_mult)
    also have "\<dots> \<le> float_dist g n d" unfolding float_dist_def g(2) by (rule abs_triangle_ineq3)
    finally show ?thesis .
  qed
qed

text \<open>A number is refused only when it is at least half a unit above the largest \<open>float\<close>, \<open>(2 ^ 24 - 1) * 2 ^ 104\<close>.\<close>

lemma round_float_overflow:
  assumes "0 < d" "round_float (n, d) = None"
  shows "(2 ^ 128 - 2 ^ 103) * d \<le> \<bar>n\<bar>"
proof (rule ccontr)
  define a where "a = \<bar>n\<bar> * 2 ^ 149"
  define v where "v = div_even a (d * 2 ^ (bits (a div d) - 24)) * 2 ^ (bits (a div d) - 24)"
  define X where "X = 2 ^ 277 * d"
  define Y where "Y = 2 ^ 253 * d"
  assume "\<not> (2 ^ 128 - 2 ^ 103) * d \<le> \<bar>n\<bar>"
  then have "2 * a < 2 * X - Y" by (simp add: a_def X_def Y_def)
  moreover have "0 < Y" using assms(1) by (simp add: Y_def)
  moreover have "2 ^ 277 \<le> v" using assms(2) by (simp add: round_float_eval Let_def v_def a_def split: if_splits)
  then have "X \<le> v * d" unfolding X_def using assms(1) by (intro mult_right_mono) simp_all
  moreover have "\<bar>v * d - a\<bar> \<le> \<bar>(2 ^ 24 - 1) * 2 ^ 253 * d - a\<bar>"
    unfolding v_def using assms(1) by (intro units_nearest) (simp_all add: a_def)
  moreover have "(2 ^ 24 - 1) * 2 ^ 253 * d = X - Y" by (simp add: X_def Y_def)
  ultimately show False by linarith
qed

lemma decimal_of_pos: "decimal_of s = Some (n, d) \<Longrightarrow> 0 < d"
  by (auto simp: decimal_of_def scale10_def Let_def split: prod.splits if_splits)

end
