(* ===== verification/Config_File.thy ===== *)
theory Config_File
  imports Float_Text
begin

text \<open>
  \<^verbatim>\<open>lars_reactor/include/config_file.h\<close> and \<^verbatim>\<open>lars_reactor/src/config_file.cpp\<close>: the reader of the \<open>.ini\<close> files. A file is the
  string of its characters (\<open>None\<close>: it cannot be opened). The map of a section is named by the section, so the pointer \<open>m\<close> of \<open>Load\<close> is a
  section name, or \<open>None\<close> before the first section line. The singleton is an optional configuration. Stream input of a
  number behaves as \<open>strtol\<close>.
\<close>

section \<open>Model\<close>

type_synonym config_file = "string \<Rightarrow> (string \<Rightarrow> string option) option"

definition trimLeft :: "string \<Rightarrow> string" where
  "trimLeft s = dropWhile is_space s"

definition trimRight :: "string \<Rightarrow> string" where
  "trimRight s = rev (dropWhile is_space (rev s))"

definition trim :: "string \<Rightarrow> string" where
  "trim s = trimLeft (trimRight s)"

definition isSection :: "string \<Rightarrow> string option" where
  "isSection line =
     (let section = trim line in
      if section = [] \<or> length section \<le> 2 then None
      else if hd section \<noteq> CHR ''['' \<or> last section \<noteq> CHR '']'' then None
      else Some (trim (butlast (tl section))))"

definition parseNumber :: "string \<Rightarrow> u32" where
  "parseNumber s = word_of_int (strtol s)"

definition lookup_key :: "string \<Rightarrow> string \<Rightarrow> config_file \<Rightarrow> string option" where
  "lookup_key section key cfg = (case cfg section of None \<Rightarrow> None | Some m \<Rightarrow> m key)"

definition GetString :: "string \<Rightarrow> string \<Rightarrow> string \<Rightarrow> config_file \<Rightarrow> string" where
  "GetString section key default_value cfg =
     (case lookup_key section key cfg of Some v \<Rightarrow> v | None \<Rightarrow> default_value)"

text \<open>The default is printed, and the text that is found (the printed default, when there is no entry) is read as a number.\<close>

definition GetFloat :: "string \<Rightarrow> string \<Rightarrow> float32 \<Rightarrow> config_file \<Rightarrow> float32" where
  "GetFloat section key default_value cfg =
     (let default_value_str = print_float default_value; txt = GetString section key default_value_str cfg in
      case read_float txt of Some fresult \<Rightarrow> fresult | None \<Rightarrow> (0, 0))"

definition GetNumber :: "string \<Rightarrow> string \<Rightarrow> u32 \<Rightarrow> config_file \<Rightarrow> u32" where
  "GetNumber section key default_value cfg =
     (case lookup_key section key cfg of Some v \<Rightarrow> parseNumber v | None \<Rightarrow> default_value)"

definition lower :: "char \<Rightarrow> int" where
  "lower c = (if 65 \<le> code c \<and> code c \<le> 90 then code c + 32 else code c)"

definition GetBool :: "string \<Rightarrow> string \<Rightarrow> bool \<Rightarrow> config_file \<Rightarrow> bool" where
  "GetBool section key default_value cfg =
     (case lookup_key section key cfg of
        Some v \<Rightarrow> if map lower v = map lower ''true'' then True else default_value
      | None \<Rightarrow> default_value)"

definition is_sep :: "char \<Rightarrow> bool" where
  "is_sep c \<longleftrightarrow> code c = 44 \<or> code c = 32 \<or> code c = 9"

function split_list_loop :: "string \<Rightarrow> string list" where
  "split_list_loop str =
     (let substr = takeWhile (\<lambda>c. \<not> is_sep c) str; rest = dropWhile (\<lambda>c. \<not> is_sep c) str in
      if rest = [] then [str]
      else (let rest = dropWhile is_sep rest in
            if rest = [] then [substr] else substr # split_list_loop rest))"
  by pat_completeness auto
termination
proof (relation "measure length")
  fix str substr rest rest'
  assume r: "rest = dropWhile (\<lambda>c. \<not> is_sep c) str" "rest \<noteq> []" "rest' = dropWhile is_sep rest"
  have "is_sep (hd rest)" using r hd_dropWhile by blast
  then obtain c cs where "rest = c # cs" "is_sep c" using r(2) by (cases rest) auto
  then have "length rest' < length rest" using r(3) by (simp add: le_imp_less_Suc length_dropWhile_le)
  also have "\<dots> \<le> length str" using r(1) by (simp add: length_dropWhile_le)
  finally show "(rest', str) \<in> measure length" by simp
qed simp

definition GetStringList :: "string \<Rightarrow> string \<Rightarrow> config_file \<Rightarrow> string list" where
  "GetStringList section key cfg = split_list_loop (GetString section key [] cfg)"

text \<open>One line of the file, with the current section.\<close>

definition load_line :: "string \<Rightarrow> string option \<times> config_file \<Rightarrow> (string option \<times> config_file) res" where
  "load_line line s =
     (let (m, cfg) = s in
      case isSection line of
        Some section \<Rightarrow> Inr (Some section, if cfg section = None then cfg(section \<mapsto> Map.empty) else cfg)
      | None \<Rightarrow>
          if CHR ''='' \<notin> set line then Inr (m, cfg)
          else
            (let key = trim (takeWhile (\<lambda>c. c \<noteq> CHR ''='') line); v = trim (tl (dropWhile (\<lambda>c. c \<noteq> CHR ''='') line)) in
             if key = [] then Inr (m, cfg)
             else if hd key = CHR ''#'' \<or> hd key = CHR '';'' then Inr (m, cfg)
             else (case m of
                     None \<Rightarrow> Inl Null_Deref
                   | Some section \<Rightarrow> (case cfg section of
                        None \<Rightarrow> Inl Use_After_Free
                      | Some kv \<Rightarrow> Inr (m, cfg(section \<mapsto> kv(key \<mapsto> v)))))))"

fun load_lines :: "string list \<Rightarrow> string option \<times> config_file \<Rightarrow> (string option \<times> config_file) res" where
  "load_lines [] s = Inr s"
| "load_lines (l # ls) s = bindR (load_line l s) (load_lines ls)"

text \<open>The lines that successive calls of \<open>getline\<close> deliver until the end of the file.\<close>

fun getlines :: "string \<Rightarrow> string list" where
  "getlines [] = [[]]"
| "getlines (c # cs) =
     (if c = CHR 0x0A then [] # getlines cs
      else (case getlines cs of [] \<Rightarrow> [[c]] | l # ls \<Rightarrow> (c # l) # ls))"

definition Load :: "string option \<Rightarrow> config_file \<Rightarrow> (bool \<times> config_file) res" where
  "Load file cfg =
     (case file of
        None \<Rightarrow> Inr (False, cfg)
      | Some contents \<Rightarrow> bindR (load_lines (getlines contents) (None, cfg)) (\<lambda>(_, cfg). Inr (True, cfg)))"

definition setPath :: "string option \<Rightarrow> config_file option \<Rightarrow> (bool \<times> config_file option) res" where
  "setPath file config =
     bindR (ensure (config = None) Assert_Failed) (\<lambda>_.
     bindR (Load file Map.empty) (\<lambda>(ok, cfg). Inr (ok, Some cfg)))"

definition instance_config :: "config_file option \<Rightarrow> config_file res" where
  "instance_config config = (case config of None \<Rightarrow> Inl Assert_Failed | Some cfg \<Rightarrow> Inr cfg)"

section \<open>Files as they are written\<close>

text \<open>The sections of a file with their entries, its lines, and the value a key has: that of its last entry.\<close>

type_synonym ini = "(string \<times> (string \<times> string) list) list"

definition entry_line :: "string \<times> string \<Rightarrow> string" where
  "entry_line e = fst e @ CHR ''='' # snd e"

definition ini_lines :: "ini \<Rightarrow> string list" where
  "ini_lines ini = concat (map (\<lambda>(s, es). (CHR ''['' # s @ [CHR '']'']) # map entry_line es) ini)"

definition trimmed :: "string \<Rightarrow> bool" where
  "trimmed s \<longleftrightarrow> s = [] \<or> \<not> is_space (hd s) \<and> \<not> is_space (last s)"

definition ini_ok :: "ini \<Rightarrow> bool" where
  "ini_ok ini \<longleftrightarrow>
     (\<forall>(s, es) \<in> set ini. s \<noteq> [] \<and> trimmed s \<and> CHR 0x0A \<notin> set s \<and>
        (\<forall>(k, v) \<in> set es. CHR 0x0A \<notin> set k \<union> set v \<and> k \<noteq> [] \<and> trimmed k \<and> trimmed v \<and> CHR ''='' \<notin> set k \<and> hd k \<noteq> CHR ''['' \<and> hd k \<noteq> CHR ''#'' \<and> hd k \<noteq> CHR '';''))"

definition ini_lookup :: "ini \<Rightarrow> string \<Rightarrow> string \<Rightarrow> string option" where
  "ini_lookup ini section key = map_of (rev (concat (map snd (filter (\<lambda>(s, _). s = section) ini)))) key"

lemma trim_trimmed:
  assumes "trimmed s"
  shows "trim s = s"
proof (cases "s = []")
  case False
  then have "dropWhile is_space (rev s) = rev s" using assms by (cases "rev s") (auto simp: trimmed_def hd_rev [symmetric])
  moreover have "dropWhile is_space s = s" using False assms by (cases s) (auto simp: trimmed_def)
  ultimately show ?thesis by (simp add: trim_def trimLeft_def trimRight_def)
qed (simp add: trim_def trimLeft_def trimRight_def)

lemma not_space [simp]: "\<not> is_space (CHR ''['')" "\<not> is_space (CHR '']'')" "\<not> is_space (CHR ''='')"
  by (simp_all add: is_space_def code_def of_char_def)

lemma isSection_header: "s \<noteq> [] \<Longrightarrow> trimmed s \<Longrightarrow> isSection (CHR ''['' # s @ [CHR '']'']) = Some s"
proof -
  assume s: "s \<noteq> []" "trimmed s"
  have "trim (CHR ''['' # s @ [CHR '']'']) = CHR ''['' # s @ [CHR '']'']" by (rule trim_trimmed) (simp add: trimmed_def)
  moreover have "\<not> length (CHR ''['' # s @ [CHR '']'']) \<le> 2" using s(1) by (cases s) simp_all
  ultimately show ?thesis using trim_trimmed [OF s(2)] s(1) by (simp add: isSection_def Let_def)
qed

lemma load_entry:
  assumes k: "k \<noteq> []" "trimmed k" "trimmed v" "CHR ''='' \<notin> set k" "hd k \<noteq> CHR ''[''" "hd k \<noteq> CHR ''#''" "hd k \<noteq> CHR '';''"
    and c: "cfg s = Some kv"
  shows "load_line (entry_line (k, v)) (Some s, cfg) = Inr (Some s, cfg(s \<mapsto> kv(k \<mapsto> v)))"
proof -
  have "trimmed (entry_line (k, v))" using k(1-3) by (auto simp: trimmed_def entry_line_def)
  then have "trim (entry_line (k, v)) = entry_line (k, v)" by (rule trim_trimmed)
  then have sec: "isSection (entry_line (k, v)) = None" using k(1,5) by (simp add: isSection_def Let_def entry_line_def)
  have "takeWhile (\<lambda>c. c \<noteq> CHR ''='') (entry_line (k, v)) = k" "dropWhile (\<lambda>c. c \<noteq> CHR ''='') (entry_line (k, v)) = CHR ''='' # v"
    using k(4) by (auto simp: entry_line_def takeWhile_append2 dropWhile_append2 takeWhile_append dropWhile_append)
  then show ?thesis
    using sec k c trim_trimmed by (simp add: load_line_def Let_def) (simp add: entry_line_def)
qed

lemma load_entries:
  assumes "\<forall>(k, v) \<in> set es. k \<noteq> [] \<and> trimmed k \<and> trimmed v \<and> CHR ''='' \<notin> set k \<and> hd k \<noteq> CHR ''['' \<and> hd k \<noteq> CHR ''#'' \<and> hd k \<noteq> CHR '';''"
    and "cfg s = Some kv"
  shows "load_lines (map entry_line es) (Some s, cfg) = Inr (Some s, cfg(s \<mapsto> kv ++ map_of (rev es)))"
  using assms
proof (induction es arbitrary: kv cfg)
  case (Cons e es)
  obtain k v where e: "e = (k, v)" by (cases e)
  have "load_line (entry_line e) (Some s, cfg) = Inr (Some s, cfg(s \<mapsto> kv(k \<mapsto> v)))"
    unfolding e by (rule load_entry) (use Cons.prems e in auto)
  moreover have "load_lines (map entry_line es) (Some s, cfg(s \<mapsto> kv(k \<mapsto> v))) = Inr (Some s, cfg(s \<mapsto> kv(k \<mapsto> v) ++ map_of (rev es)))"
  proof -
    let ?c = "cfg(s \<mapsto> kv(k \<mapsto> v))"
    have "load_lines (map entry_line es) (Some s, ?c) = Inr (Some s, ?c(s \<mapsto> kv(k \<mapsto> v) ++ map_of (rev es)))"
      using Cons.IH [of ?c "kv(k \<mapsto> v)"] Cons.prems(1) by (simp del: fun_upd_apply fun_upd_upd add: fun_upd_same)
    then show ?thesis by simp
  qed
  moreover have "kv ++ map_of (rev (e # es)) = kv(k \<mapsto> v) ++ map_of (rev es)" by (simp add: e map_add_assoc)
  ultimately show ?case by (simp del: fun_upd_apply add: e)
qed (auto simp: fun_upd_idem)

lemma load_lines_append: "load_lines (xs @ ys) s = bindR (load_lines xs s) (load_lines ys)"
  by (induction xs arbitrary: s) (auto simp: bindR_def split: sum.splits)

lemma load_ini:
  assumes "ini_ok ini"
  shows "\<exists>m cfg'. load_lines (ini_lines ini) (m0, cfg) = Inr (m, cfg') \<and>
    (\<forall>s k. lookup_key s k cfg' = (case ini_lookup ini s k of None \<Rightarrow> lookup_key s k cfg | Some v \<Rightarrow> Some v))"
  using assms
proof (induction ini arbitrary: m0 cfg)
  case Nil
  then show ?case by (simp add: ini_lines_def ini_lookup_def)
next
  case (Cons x ini)
  obtain s es where x: "x = (s, es)" by (cases x)
  have ok: "s \<noteq> []" "trimmed s" "ini_ok ini"
      "\<forall>(k, v) \<in> set es. k \<noteq> [] \<and> trimmed k \<and> trimmed v \<and> CHR ''='' \<notin> set k \<and> hd k \<noteq> CHR ''['' \<and> hd k \<noteq> CHR ''#'' \<and> hd k \<noteq> CHR '';''"
    using Cons.prems x by (auto simp: ini_ok_def)
  define c1 where "c1 = (if cfg s = None then cfg(s \<mapsto> Map.empty) else cfg)"
  obtain kv where kv: "c1 s = Some kv" by (cases "cfg s") (simp_all add: c1_def)
  have l1: "lookup_key t k c1 = lookup_key t k cfg" for t k by (auto simp: lookup_key_def c1_def)
  define c2 where "c2 = c1(s \<mapsto> kv ++ map_of (rev es))"
  have l2: "lookup_key t k c2 = (case map_of (rev (if t = s then es else [])) k of None \<Rightarrow> lookup_key t k c1 | Some v \<Rightarrow> Some v)" for t k
    using kv by (auto simp: lookup_key_def c2_def map_add_def split: option.splits)
  obtain m cfg' where IH: "load_lines (ini_lines ini) (Some s, c2) = Inr (m, cfg')"
      "\<forall>t k. lookup_key t k cfg' = (case ini_lookup ini t k of None \<Rightarrow> lookup_key t k c2 | Some v \<Rightarrow> Some v)"
    using Cons.IH [OF ok(3)] by blast
  have "load_line (CHR ''['' # s @ [CHR '']'']) (m0, cfg) = Inr (Some s, c1)"
    using isSection_header [OF ok(1,2)] by (simp add: load_line_def c1_def)
  moreover have "load_lines (map entry_line es) (Some s, c1) = Inr (Some s, c2)" unfolding c2_def by (rule load_entries [OF ok(4), of c1 s kv, OF kv])
  moreover have "ini_lines (x # ini) = (CHR ''['' # s @ [CHR '']'']) # map entry_line es @ ini_lines ini" by (simp add: ini_lines_def x)
  ultimately have "load_lines (ini_lines (x # ini)) (m0, cfg) = Inr (m, cfg')" using IH(1) by (simp add: load_lines_append)
  moreover have "ini_lookup (x # ini) t k = (case ini_lookup ini t k of None \<Rightarrow> map_of (rev (if t = s then es else [])) k | Some v \<Rightarrow> Some v)" for t k
    by (auto simp: ini_lookup_def x map_add_def split: option.splits)
  ultimately show ?case using IH(2) l1 l2 by (auto split: option.splits)
qed

lemma getlines_lines:
  "\<forall>l \<in> set ls. CHR 0x0A \<notin> set l \<Longrightarrow> getlines (concat (map (\<lambda>l. l @ [CHR 0x0A]) ls)) = ls @ [[]]"
proof (induction ls)
  case (Cons l ls)
  have "getlines (l @ CHR 0x0A # rest) = l # getlines rest" if "CHR 0x0A \<notin> set l" for rest
    using that by (induction l) auto
  then show ?case using Cons by simp
qed simp

text \<open>
  C33 [config_roundtrip]. A file whose sections and entries are written as \<open>[section]\<close> and \<open>key=value\<close> lines (with names that do not contain
  the separators) is read back completely: loading succeeds, and every lookup returns the value of the last entry for this
  section and key, or the default when there is none.
\<close>

theorem config_roundtrip:
  assumes "ini_ok ini"
  shows "\<exists>cfg. setPath (Some (concat (map (\<lambda>l. l @ [CHR 0x0A]) (ini_lines ini)))) None = Inr (True, Some cfg) \<and>
    (\<forall>s k d. GetString s k d cfg = (case ini_lookup ini s k of None \<Rightarrow> d | Some v \<Rightarrow> v)) \<and>
    (\<forall>s k d. GetNumber s k d cfg = (case ini_lookup ini s k of None \<Rightarrow> d | Some v \<Rightarrow> parseNumber v))"
proof -
  have "\<forall>l \<in> set (ini_lines ini). CHR 0x0A \<notin> set l"
    using assms by (fastforce simp: ini_lines_def ini_ok_def entry_line_def)
  then have g: "getlines (concat (map (\<lambda>l. l @ [CHR 0x0A]) (ini_lines ini))) = ini_lines ini @ [[]]" by (rule getlines_lines)
  obtain m cfg where l: "load_lines (ini_lines ini) (None, Map.empty) = Inr (m, cfg)"
      "\<forall>s k. lookup_key s k cfg = (case ini_lookup ini s k of None \<Rightarrow> lookup_key s k Map.empty | Some v \<Rightarrow> Some v)"
    using load_ini [OF assms] by blast
  have "load_line [] (m, cfg) = Inr (m, cfg)" by (simp add: load_line_def isSection_def trim_def trimLeft_def trimRight_def)
  then have "setPath (Some (concat (map (\<lambda>l. l @ [CHR 0x0A]) (ini_lines ini)))) None = Inr (True, Some cfg)"
    using l(1) by (simp add: setPath_def Load_def g load_lines_append)
  moreover have "lookup_key s k Map.empty = None" for s k by (simp add: lookup_key_def)
  ultimately show ?thesis using l(2) by (auto simp: GetString_def GetNumber_def split: option.splits)
qed

theorem config_roundtrip_witness:
  "\<exists>cfg. setPath (Some (concat (map (\<lambda>l. l @ [CHR 0x0A]) (ini_lines [(''reactor'', [(''port'', ''7777''), (''ip'', ''0.0.0.0'')])])))) None = Inr (True, Some cfg) \<and>
     GetNumber ''reactor'' ''port'' 8888 cfg = 7777 \<and> GetString ''dns'' ''ip'' ''none'' cfg = ''none''"
proof -
  let ?ini = "[(''reactor'', [(''port'', ''7777''), (''ip'', ''0.0.0.0'')])]"
  have "ini_ok ?ini" by (simp add: ini_ok_def trimmed_def is_space_def code_def of_char_def)
  from config_roundtrip [OF this] obtain cfg where
      c: "setPath (Some (concat (map (\<lambda>l. l @ [CHR 0x0A]) (ini_lines ?ini)))) None = Inr (True, Some cfg)"
      "\<forall>s k d. GetString s k d cfg = (case ini_lookup ?ini s k of None \<Rightarrow> d | Some v \<Rightarrow> v)"
      "\<forall>s k d. GetNumber s k d cfg = (case ini_lookup ?ini s k of None \<Rightarrow> d | Some v \<Rightarrow> parseNumber v)"
    by blast
  have "parseNumber ''7777'' = 7777" by (simp add: parseNumber_def strtol_def is_space_def is_digit_def code_def of_char_def LONG_MAX_def)
  then have "GetNumber ''reactor'' ''port'' 8888 cfg = 7777" "GetString ''dns'' ''ip'' ''none'' cfg = ''none''"
    using c(2,3) by (simp_all add: ini_lookup_def)
  with c(1) show ?thesis by blast
qed

text \<open>
  C34 [get_float_nearest]. A configured \<open>float\<close> is the one that is closest to the number written in the file: no other \<open>float\<close> is nearer to it. A
  text that does not start with a complete number gives zero, and so does a number beyond the largest \<open>float\<close>, which lies half a unit
  or more above it.
\<close>

theorem get_float_nearest:
  assumes "lookup_key section key cfg = Some txt"
  shows "case decimal_of txt of
      None \<Rightarrow> GetFloat section key dflt cfg = (0, 0)
    | Some (n, d) \<Rightarrow>
        is_float (GetFloat section key dflt cfg) \<and>
        ((\<forall>g. is_float g \<longrightarrow> float_dist (GetFloat section key dflt cfg) n d \<le> float_dist g n d) \<or>
         GetFloat section key dflt cfg = (0, 0) \<and> (2 ^ 128 - 2 ^ 103) * d \<le> \<bar>n\<bar>)"
proof (cases "decimal_of txt")
  case (Some x)
  obtain n d where x: "x = (n, d)" by (cases x)
  have d: "0 < d" using decimal_of_pos Some x by simp
  have get: "GetFloat section key dflt cfg = (case round_float (n, d) of Some f \<Rightarrow> f | None \<Rightarrow> (0, 0))"
    using assms Some x by (simp add: GetFloat_def GetString_def read_float_def Let_def)
  have zero: "is_float (0, 0)" by (auto simp: is_float_def intro: exI [of _ 0])
  show ?thesis
  proof (cases "round_float (n, d)")
    case None
    then show ?thesis using round_float_overflow [OF d None] get zero by (simp add: Some x)
  next
    case (Some f)
    then have f: "GetFloat section key dflt cfg = f" using get by simp
    show ?thesis using round_float_nearest [OF d Some] unfolding f \<open>decimal_of txt = Some x\<close> x by simp
  qed
qed (use assms in \<open>simp add: GetFloat_def GetString_def read_float_def Let_def\<close>)

theorem get_float_nearest_witness:
  "GetFloat ''lb'' ''err_rate'' (1, 0) [''lb'' \<mapsto> [''err_rate'' \<mapsto> ''0.1'']] = (13421773, 27) \<and>
   float_dist (13421773, 27) 1 10 \<le> float_dist (13421772, 27) 1 10 \<and> float_dist (13421773, 27) 1 10 \<le> float_dist (13421774, 27) 1 10"
proof -
  have "GetFloat ''lb'' ''err_rate'' (1, 0) [''lb'' \<mapsto> [''err_rate'' \<mapsto> ''0.1'']] = (13421773, 27)" "decimal_of ''0.1'' = Some (1, 10)"
    by (simp_all add: GetFloat_def GetString_def lookup_key_def rate_values)
  moreover have "is_float (p, 27)" if "\<bar>p\<bar> \<le> 2 ^ 24" for p
    using that unfolding is_float_def by (intro conjI exI [of _ p] exI [of _ 122]) simp_all
  then have "is_float (13421772, 27)" "is_float (13421774, 27)" by simp_all
  ultimately show ?thesis
    using get_float_nearest [of "''lb''" "''err_rate''" "[''lb'' \<mapsto> [''err_rate'' \<mapsto> ''0.1'']]" "''0.1''" "(1, 0)"] by (simp add: lookup_key_def)
qed

text \<open>The rates that the agent uses when the file does not give them, and a default of seven digits, which is not kept.\<close>

lemma agent_rates:
  assumes "lookup_key section key cfg = None"
  shows "GetFloat section key (13421773, 27) cfg = (13421773, 27)" "GetFloat section key (15938355, 24) cfg = (15938355, 24)"
  using assms by (simp_all add: GetFloat_def GetString_def rate_texts rate_values)

lemma default_loses_digits: "GetFloat section key (16777215, 0) Map.empty = (16777200, 0)"
  by (simp add: GetFloat_def GetString_def lookup_key_def rate_texts rate_values)

end
