(* ===== verification/Dns_Service.thy ===== *)
theory Dns_Service
  imports Subscribe Protobuf Tcp_Session Config_File
begin

text \<open>
  The network side of the route service, \<open>main\<close> and the callbacks of \<^verbatim>\<open>lars_dns/src/dns_service.cpp\<close> on the connections of the TCP server. The application
  state has the route table, the subscriptions, and the member \<open>param\<close> of every connection object (\<^verbatim>\<open>lars_reactor/include/net_connection.h\<close>), which points to
  the set of modules that the client has subscribed to. The callbacks see their connection through \<open>conn_view\<close>, with the operations of \<open>Subscribe\<close>; answers and
  pushed routes go out through \<open>conn_send_message\<close>.
\<close>

section \<open>Model\<close>

record service_app =
  dn_route :: Route
  dn_sub :: SubscribeList
  dn_param :: "ptr \<Rightarrow> u64 list option"

datatype dns_msg_cb = Get_Route
datatype service_hook = Create_Subscribe | Clear_Subscribe

type_synonym dns_server = "(dns_msg_cb, unit, service_hook, service_app) server_state"

text \<open>The callbacks' view of the connection \<open>p\<close>, with \<open>get_fd()\<close> and \<open>param\<close>, and the storing of what they change.\<close>

definition conn_view :: "ptr \<Rightarrow> dns_server \<Rightarrow> dns_conn res" where
  "conn_view p ss = bindR (deref (ss_heap ss) p) (\<lambda>c. Inr \<lparr>dc_fd = tc_connfd c, dc_param = dn_param (ss_app ss) p\<rparr>)"

definition store_view :: "ptr \<Rightarrow> dns_conn \<Rightarrow> SubscribeList \<Rightarrow> dns_server \<Rightarrow> dns_server" where
  "store_view p conn sl ss = ss\<lparr>ss_app := (ss_app ss)\<lparr>dn_sub := sl, dn_param := (dn_param (ss_app ss))(p := dc_param conn)\<rparr>\<rparr>"

definition on_get_route :: "wire \<Rightarrow> bytes option \<Rightarrow> ptr \<Rightarrow> dns_server \<Rightarrow> dns_server res" where
  "on_get_route W data p ss =
     bindR (conn_view p ss) (\<lambda>conn.
     (let (conn, sl, body, msgid) =
            get_route (\<lambda>bs. snd (GetRouteRequest_Parse W bs)) (GetRouteResponse_Serialize W) (case data of None \<Rightarrow> [] | Some bs \<Rightarrow> bs)
              (dn_route (ss_app ss)) conn (dn_sub (ss_app ss));
          ss = store_view p conn sl ss in
      bindR (conn_send_message body (of_nat (length body)) msgid p ss) (\<lambda>(_, ss). Inr ss)))"

definition on_create_subscribe :: "ptr \<Rightarrow> dns_server \<Rightarrow> dns_server res" where
  "on_create_subscribe p ss = bindR (conn_view p ss) (\<lambda>conn. Inr (store_view p (create_subscribe conn) (dn_sub (ss_app ss)) ss))"

definition on_clear_subscribe :: "ptr \<Rightarrow> dns_server \<Rightarrow> dns_server res" where
  "on_clear_subscribe p ss =
     bindR (conn_view p ss) (\<lambda>conn. bindR (clear_subscribe conn (dn_sub (ss_app ss))) (\<lambda>(conn, sl). Inr (store_view p conn sl ss)))"

definition service_handlers :: "wire \<Rightarrow> (dns_msg_cb, unit, service_hook, service_app) handlers" where
  "service_handlers W =
     \<lparr>on_message = (\<lambda>cb data len msgid conn u. on_get_route W data conn),
      on_hook = (\<lambda>h. case h of Create_Subscribe \<Rightarrow> on_create_subscribe | Clear_Subscribe \<Rightarrow> on_clear_subscribe)\<rparr>"

text \<open>
  \<open>main\<close> up to \<open>event_process\<close>; \<open>thread_ret\<close> is the result of starting the thread that checks for changed routes. The settings of the reactor are
  arguments of \<open>tcp_server_new\<close>.
\<close>

definition dns_main ::
  "config_file \<Rightarrow> int \<Rightarrow> int \<Rightarrow> int \<Rightarrow> int list \<Rightarrow> int list \<Rightarrow> int \<Rightarrow> ptr \<Rightarrow> ptr \<Rightarrow> dns_server \<Rightarrow> (tcp_server \<times> dns_server) res" where
  "dns_main cfg sockfd bind_ret listen_ret evfds created thread_ret self loop ss =
     bindR (tcp_server_new sockfd bind_ret listen_ret (sint (GetNumber ''reactor'' ''threadNum'' 3 cfg)) (sint (GetNumber ''reactor'' ''maxConn'' 1000 cfg))
       evfds created self loop ss) (\<lambda>(server, ss).
     (let ss = set_conn_start Create_Subscribe ss;
          ss = set_conn_close Clear_Subscribe ss;
          ss = add_msg_router ID_GetRouteRequest Get_Route () ss in
      bindR (ensure (thread_ret \<noteq> -1) Exit_1) (\<lambda>_. Inr (server, ss))))"

text \<open>
  \<open>push_change_task\<close> in the loop \<open>l\<close> of a worker: \<open>tcp_server::conns[fd]\<close> is the entry of the table, and the responses are sent as messages. A descriptor
  of the push list belongs to a connection that has been entered into the table before it subscribed.
\<close>

definition conn_entry :: "dns_server \<Rightarrow> int \<Rightarrow> ptr option" where
  "conn_entry ss fd =
     (if 0 \<le> fd \<and> fd < int (length (ss_conns ss)) then (case ss_conns ss ! nat fd of Some (Some p) \<Rightarrow> Some p | _ \<Rightarrow> None) else None)"

definition send_route :: "wire \<Rightarrow> ptr \<Rightarrow> GetRouteResponse \<Rightarrow> dns_server \<Rightarrow> dns_server res" where
  "send_route W p rsp ss =
     (let body = GetRouteResponse_Serialize W rsp in
      bindR (conn_send_message body (of_nat (length body)) ID_GetRouteResponse p ss) (\<lambda>(_, ss). Inr ss))"

definition push_task :: "wire \<Rightarrow> ptr \<Rightarrow> dns_server \<Rightarrow> dns_server res" where
  "push_task W l ss =
     bindR (deref (ss_loops ss) l) (\<lambda>loop.
     bindR (push_change_task (send_route W) (conn_entry ss) (dn_route (ss_app ss)) loop (dn_sub (ss_app ss), ss)) (\<lambda>(sl, ss).
     Inr (ss\<lparr>ss_app := (ss_app ss)\<lparr>dn_sub := sl\<rparr>\<rparr>)))"

section \<open>One request\<close>

text \<open>What a message adds to the output stream of its connection, and what it does to the subscriptions.\<close>

definition dns_answer :: "wire \<Rightarrow> Route \<Rightarrow> i32 \<times> bytes \<Rightarrow> bytes" where
  "dns_answer W rt m =
     (if fst m = ID_GetRouteRequest
      then (let req = snd (GetRouteRequest_Parse W (snd m)) in
            frame (ID_GetRouteResponse, GetRouteResponse_Serialize W (route_response (grq_modid req) (grq_cmdid req) rt)))
      else [])"

definition dns_effect :: "wire \<Rightarrow> ptr \<Rightarrow> int \<Rightarrow> i32 \<times> bytes \<Rightarrow> service_app \<Rightarrow> service_app" where
  "dns_effect W p fd m app =
     (if fst m = ID_GetRouteRequest
      then (let req = snd (GetRouteRequest_Parse W (snd m)); k = mk_key (grq_modid req) (grq_cmdid req) in
            case dn_param app p of
              None \<Rightarrow> app
            | Some ms \<Rightarrow> if k \<in> set ms then app
                else app\<lparr>dn_sub := subscribe k fd (dn_sub app), dn_param := (dn_param app)(p \<mapsto> set_insert k ms)\<rparr>)
      else app)"

definition dns_router :: "(dns_msg_cb, unit) msg_router \<Rightarrow> bool" where
  "dns_router r \<longleftrightarrow> (\<forall>m. mr_router r m = (if m = ID_GetRouteRequest then Some Get_Route else None))"

lemma dns_effect_param: "dn_param app p \<noteq> None \<Longrightarrow> dn_param (dns_effect W p fd m app) p \<noteq> None \<and> dn_route (dns_effect W p fd m app) = dn_route app"
  by (auto simp: dns_effect_def Let_def split: option.splits)

text \<open>A request that is served: the answer goes behind the pending bytes and the module is subscribed to.\<close>

lemma on_get_route_ok:
  assumes out: "out_inv p fd l s ss" and prm: "dn_param (ss_app ss) p \<noteq> None" and d: "d = Some body \<or> d = None \<and> body = []"
    and fits: "length (slot_bytes ss (p, Out)) + length (dns_answer W (dn_route (ss_app ss)) (ID_GetRouteRequest, body)) \<le> 8388608"
  shows "case on_get_route W d p ss of
      Inl e \<Rightarrow> e = Exit_1
    | Inr ss' \<Rightarrow> kept p ss ss' \<and> out_inv p fd l (s @ dns_answer W (dn_route (ss_app ss)) (ID_GetRouteRequest, body)) ss' \<and>
        slot_bytes ss' (p, Out) = slot_bytes ss (p, Out) @ dns_answer W (dn_route (ss_app ss)) (ID_GetRouteRequest, body) \<and>
        ss_app ss' = dns_effect W p fd (ID_GetRouteRequest, body) (ss_app ss)"
proof -
  have live: "bufs_ok ss" "conn_live p fd l ss" using out by (simp_all add: out_inv_def)
  obtain c where c: "ss_heap ss p = Some c" "tc_connfd c = fd" using conn_live_heap [OF live(2)] by blast
  obtain ms where ms: "dn_param (ss_app ss) p = Some ms" using prm by blast
  let ?req = "snd (GetRouteRequest_Parse W body)"
  let ?data = "GetRouteResponse_Serialize W (route_response (grq_modid ?req) (grq_cmdid ?req) (dn_route (ss_app ss)))"
  let ?x = "dns_effect W p fd (ID_GetRouteRequest, body) (ss_app ss)"
  let ?s = "ss\<lparr>ss_app := ?x\<rparr>"
  have ans: "dns_answer W (dn_route (ss_app ss)) (ID_GetRouteRequest, body) = frame (ID_GetRouteResponse, ?data)" by (simp add: dns_answer_def Let_def)
  have "(case d of None \<Rightarrow> [] | Some bs \<Rightarrow> bs) = body" using d by auto
  then have run: "on_get_route W d p ss = bindR (conn_send_message ?data (of_nat (length ?data)) ID_GetRouteResponse p ?s) (\<lambda>(_, ss). Inr ss)"
    using c ms by (simp add: on_get_route_def conn_view_def get_route_def store_view_def dns_effect_def Let_def fun_upd_idem)
  have o: "out_inv p fd l s ?s" using out by (simp add: out_inv_app)
  have b: "bufs_ok ?s" "conn_live p fd l ?s" "slot_bytes ?s = slot_bytes ss" using o bufs_ok_cong(2) [of ?s ss] by (simp_all add: out_inv_def)
  have k: "kept p ss ?s" by (rule kept_app [OF live(1)])
  have f: "int (length ?data) < 2 ^ 31" "8 + int (length ?data) + int (length (slot_bytes ?s (p, Out))) \<le> 8388608"
    using fits unfolding ans b(3) by simp_all
  show ?thesis
  proof (cases "conn_send_message ?data (of_nat (length ?data)) ID_GetRouteResponse p ?s")
    case (Inl e)
    then show ?thesis using conn_send_message_out [OF o f, of ID_GetRouteResponse] run by simp
  next
    case (Inr x)
    obtain ret s' where x: "x = (ret, s')" by (cases x)
    have "out_inv p fd l (s @ frame (ID_GetRouteResponse, ?data)) s'" "slot_bytes s' (p, Out) = slot_bytes ss (p, Out) @ frame (ID_GetRouteResponse, ?data)"
      using conn_send_message_out [OF o f, of ID_GetRouteResponse] Inr x b(3) by simp_all
    moreover have "kept p ?s s'" "ss_app s' = ?x" using send_message_kept [OF b(1,2) Inr [unfolded x]] by simp_all
    moreover have "kept p ss s'" using k \<open>kept p ?s s'\<close> by (auto simp: kept_def)
    ultimately show ?thesis using run Inr x ans by simp
  qed
qed

section \<open>Sessions\<close>

text \<open>
  While the messages \<open>ms\<close> have still to be delivered: the stream of the connection, extended by the answers to them, is \<open>strm\<close>, the answers fit
  the output buffer, and the subscriptions that they add lead to the state \<open>final\<close>.
\<close>

definition dns_session ::
  "wire \<Rightarrow> ptr \<Rightarrow> int \<Rightarrow> ptr \<Rightarrow> bytes \<Rightarrow> service_app \<Rightarrow> (i32 \<times> bytes) list \<Rightarrow> dns_server \<Rightarrow> bool" where
  "dns_session W p fd l strm final ms ss \<longleftrightarrow>
     (\<exists>s. out_inv p fd l s ss \<and> s @ concat (map (dns_answer W (dn_route (ss_app ss))) ms) = strm) \<and>
     length (slot_bytes ss (p, Out)) + length (concat (map (dns_answer W (dn_route (ss_app ss))) ms)) \<le> 8388608 \<and>
     dn_param (ss_app ss) p \<noteq> None \<and> fold (dns_effect W p fd) ms (ss_app ss) = final \<and>
     ss_conn_close_cb ss = Some Clear_Subscribe"

lemma on_get_route_hooks: "on_get_route W d p ss = Inr ss' \<Longrightarrow> ss_conn_close_cb ss' = ss_conn_close_cb ss"
  by (auto simp: on_get_route_def store_view_def Let_def bindR_eq_Inr case_prod_beta dest: send_keeps_hooks)

lemma on_get_route_others:
  assumes "bufs_ok ss" "conn_live p fd l ss" "on_get_route W d p ss = Inr ss'"
  shows "others_kept p fd ss ss'"
proof -
  obtain body msgid x ret where s: "conn_send_message body (of_nat (length body)) msgid p (ss\<lparr>ss_app := x\<rparr>) = Inr (ret, ss')"
    using assms(3) by (auto simp: on_get_route_def store_view_def Let_def bindR_eq_Inr case_prod_beta)
  have "bufs_ok (ss\<lparr>ss_app := x\<rparr>)" "conn_live p fd l (ss\<lparr>ss_app := x\<rparr>)"
    using assms(1,2) bufs_ok_cong(1) [of "ss\<lparr>ss_app := x\<rparr>" ss] by (simp_all add: conn_live_def)
  from others_trans [OF others_app others_send [OF this s]] show ?thesis .
qed

text \<open>What closing the connection does: all its subscriptions are cancelled and the set is deleted.\<close>

definition dns_leave :: "ptr \<Rightarrow> int \<Rightarrow> service_app \<Rightarrow> service_app" where
  "dns_leave p fd app =
     app\<lparr>dn_sub := fold (\<lambda>m. unsubscribe m fd) (case dn_param app p of None \<Rightarrow> [] | Some ms \<Rightarrow> ms) (dn_sub app), dn_param := (dn_param app)(p := None)\<rparr>"

lemma clear_hook_ok:
  assumes "bufs_ok ss" "conn_live p fd l ss" "dn_param (ss_app ss) p = Some ms"
  shows "on_clear_subscribe p ss = Inr (ss\<lparr>ss_app := dns_leave p fd (ss_app ss)\<rparr>)"
  using conn_live_heap [OF assms(2)] assms(3) by (auto simp: on_clear_subscribe_def conn_view_def clear_subscribe_def store_view_def dns_leave_def)

lemma dns_session_message:
  assumes "reading p fd l r ss" "dns_router r" "dns_session W p fd l strm final ((msgid, body) # ms) ss" "d = Some body \<or> d = None \<and> body = []"
  shows "case conn_call (service_handlers W) p msgid (of_nat (length body)) d ss of
      Inl e \<Rightarrow> e \<in> {Exit_1} | Inr ss' \<Rightarrow> kept p ss ss' \<and> dns_session W p fd l strm final ms ss'"
proof -
  let ?rt = "dn_route (ss_app ss)"
  obtain s where o: "out_inv p fd l s ss" "s @ concat (map (dns_answer W ?rt) ((msgid, body) # ms)) = strm"
      and f: "length (slot_bytes ss (p, Out)) + length (concat (map (dns_answer W ?rt) ((msgid, body) # ms))) \<le> 8388608"
      and i: "dn_param (ss_app ss) p \<noteq> None" "fold (dns_effect W p fd) ((msgid, body) # ms) (ss_app ss) = final"
        "ss_conn_close_cb ss = Some Clear_Subscribe"
    using assms(3) unfolding dns_session_def by blast
  show ?thesis
  proof (cases "msgid = ID_GetRouteRequest")
    case False
    then have "conn_call (service_handlers W) p msgid (of_nat (length body)) d ss = Inr ss"
      using assms(1,2) by (simp add: conn_call_def router_call_def reading_def dns_router_def)
    moreover have "dns_session W p fd l strm final ms ss"
      using o f i False unfolding dns_session_def by (auto simp: dns_answer_def dns_effect_def)
    ultimately show ?thesis using assms(1) by (simp add: kept_refl reading_def)
  next
    case True
    have call: "conn_call (service_handlers W) p msgid (of_nat (length body)) d ss = on_get_route W d p ss"
      using assms(1,2) True by (simp add: conn_call_def router_call_def reading_def dns_router_def service_handlers_def)
    have fit1: "length (slot_bytes ss (p, Out)) + length (dns_answer W ?rt (ID_GetRouteRequest, body)) \<le> 8388608" using f True by simp
    note ok = on_get_route_ok [OF o(1) i(1) assms(4) fit1]
    show ?thesis
    proof (cases "on_get_route W d p ss")
      case (Inl e)
      then show ?thesis using ok call by simp
    next
      case (Inr ss')
      then have ss': "kept p ss ss'" "out_inv p fd l (s @ dns_answer W ?rt (ID_GetRouteRequest, body)) ss'"
          "slot_bytes ss' (p, Out) = slot_bytes ss (p, Out) @ dns_answer W ?rt (ID_GetRouteRequest, body)"
          "ss_app ss' = dns_effect W p fd (ID_GetRouteRequest, body) (ss_app ss)"
        using ok by simp_all
      have e: "dn_param (ss_app ss') p \<noteq> None" "dn_route (ss_app ss') = ?rt" unfolding ss'(4) using dns_effect_param [of "ss_app ss" p] i(1) by blast+
      have "dns_session W p fd l strm final ms ss'"
        unfolding dns_session_def e(2)
        using ss'(2) o(2) f i(2,3) e(1) True on_get_route_hooks [OF Inr] by (auto simp: ss'(3,4))
      then show ?thesis using ss'(1) call Inr by simp
    qed
  qed
qed

lemma dns_session_close:
  assumes "reading p fd l r ss" "dns_session W p fd l strm final [] ss"
  shows "case run_hook (service_handlers W) (ss_conn_close_cb ss) p ss of Inl e \<Rightarrow> e \<in> {Exit_1} | Inr ss' \<Rightarrow> kept p ss ss'"
proof -
  have r: "bufs_ok ss" "conn_live p fd l ss" using assms(1) by (simp_all add: reading_def)
  obtain ms where ms: "dn_param (ss_app ss) p = Some ms" and cb: "ss_conn_close_cb ss = Some Clear_Subscribe"
    using assms(2) unfolding dns_session_def by blast
  then show ?thesis using clear_hook_ok [OF r ms] kept_app [OF r(1)] by (simp add: run_hook_def service_handlers_def)
qed

text \<open>The routing table that \<open>main\<close> sets up.\<close>

definition dns_routes :: "(dns_msg_cb, unit) msg_router" where
  "dns_routes = snd (register_msg_router ID_GetRouteRequest Get_Route () msg_router_new)"

lemma dns_routes_ok: "dns_router dns_routes"
  by (simp add: dns_router_def dns_routes_def register_msg_router_def msg_router_new_def)

text \<open>A session of one connection leaves the other connections, as they were in \<open>ss0\<close>, alone.\<close>

definition lone_session ::
  "wire \<Rightarrow> ptr \<Rightarrow> int \<Rightarrow> ptr \<Rightarrow> bytes \<Rightarrow> service_app \<Rightarrow> dns_server \<Rightarrow> (i32 \<times> bytes) list \<Rightarrow> dns_server \<Rightarrow> bool" where
  "lone_session W p fd l strm final ss0 ms ss \<longleftrightarrow>
     dns_session W p fd l strm final ms ss \<and> others_kept p fd ss0 ss \<and> ss_conns ss = ss_conns ss0"

lemma conn_call_others:
  assumes "reading p fd l dns_routes ss" "conn_call (service_handlers W) p msgid len d ss = Inr ss'"
  shows "others_kept p fd ss ss'"
proof (cases "msgid = ID_GetRouteRequest")
  case True
  then have "on_get_route W d p ss = Inr ss'"
    using assms dns_routes_ok by (simp add: conn_call_def router_call_def reading_def dns_router_def service_handlers_def)
  then show ?thesis using on_get_route_others assms(1) by (auto simp: reading_def)
next
  case False
  then have "ss' = ss" using assms dns_routes_ok by (simp add: conn_call_def router_call_def reading_def dns_router_def)
  then show ?thesis by simp
qed

interpretation dns_conns: server_session "service_handlers W" p fd l dns_routes "lone_session W p fd l strm final ss0" "{Exit_1}" for W p fd l strm final ss0
proof unfold_locales
  fix ss msgid body ms and d :: "bytes option"
  assume r: "reading p fd l dns_routes ss" and s: "lone_session W p fd l strm final ss0 ((msgid, body) # ms) ss" and d: "d = Some body \<or> d = None \<and> body = []"
  have "case conn_call (service_handlers W) p msgid (of_nat (length body)) d ss of
      Inl e \<Rightarrow> e \<in> {Exit_1} | Inr ss' \<Rightarrow> kept p ss ss' \<and> dns_session W p fd l strm final ms ss'"
    using dns_session_message [OF r dns_routes_ok _ d] s unfolding lone_session_def by blast
  then show "case conn_call (service_handlers W) p msgid (of_nat (length body)) d ss of
      Inl e \<Rightarrow> e \<in> {Exit_1} | Inr ss' \<Rightarrow> kept p ss ss' \<and> lone_session W p fd l strm final ss0 ms ss'"
    using s others_trans [OF _ conn_call_others [OF r]]
    by (cases "conn_call (service_handlers W) p msgid (of_nat (length body)) d ss") (auto simp: lone_session_def kept_def)
next
  fix ss ms q st
  assume r: "reading p fd l dns_routes ss" and l: "lone_session W p fd l strm final ss0 ms ss" and q: "rb_ok q st" "rb_frame (slot ss (p, In)) (ss_pool ss) q st"
  have s: "dns_session W p fd l strm final ms ss" using l by (simp add: lone_session_def)
  obtain c where c: "ss_heap ss p = Some c" using r conn_live_heap [of p fd l ss] by (auto simp: reading_def)
  have "others_kept p fd ss (put_buf In p (q, st) ss)" using r by (intro others_put [OF _ c q]) (simp add: reading_def)
  then have oth: "others_kept p fd ss0 (put_buf In p (q, st) ss)" using l others_trans by (auto simp: lone_session_def)
  from s obtain s0 where o: "out_inv p fd l s0 ss" "s0 @ concat (map (dns_answer W (dn_route (ss_app ss))) ms) = strm" unfolding dns_session_def by blast
  from out_inv_put_in [OF o(1) q] o(2) s have "dns_session W p fd l strm final ms (put_buf In p (q, st) ss)"
    unfolding dns_session_def by auto
  then show "lone_session W p fd l strm final ss0 ms (put_buf In p (q, st) ss)" using oth l by (simp add: lone_session_def)
next
  fix ss
  assume "reading p fd l dns_routes ss" "lone_session W p fd l strm final ss0 [] ss"
  then have "reading p fd l dns_routes ss" "dns_session W p fd l strm final [] ss" by (simp_all add: lone_session_def)
  then show "case run_hook (service_handlers W) (ss_conn_close_cb ss) p ss of Inl e \<Rightarrow> e \<in> {Exit_1} | Inr ss' \<Rightarrow> kept p ss ss'"
    by (rule dns_session_close)
qed

text \<open>A new connection starts with an empty set of subscriptions and nothing pending.\<close>

lemma dns_conn_open:
  assumes inv: "bufs_ok ss" "ss_loops ss l = Some lp" "loop_inv lp" "0 \<le> fd" "fd < int (length (ss_conns ss))"
    and cb: "ss_conn_start_cb ss = Some Create_Subscribe"
  shows "\<exists>ss1. tcp_conn_new (service_handlers W) fd l ss = Inr (ss_next ss, ss1) \<and> out_inv (ss_next ss) fd l (ss_sent ss fd) ss1 \<and>
    slot ss1 (ss_next ss, In) = None \<and> ss_app ss1 = (ss_app ss)\<lparr>dn_param := (dn_param (ss_app ss))(ss_next ss \<mapsto> [])\<rparr> \<and>
    ss_router ss1 = ss_router ss \<and> ss_conn_close_cb ss1 = ss_conn_close_cb ss \<and>
    ss_loops ss1 = (ss_loops ss)(l \<mapsto> add_io_event fd Conn_Rd EPOLLIN (ss_next ss) lp) \<and> ss_conns ss1 = (ss_conns ss)[nat fd := Some (Some (ss_next ss))]"
proof -
  let ?x = "(ss_app ss)\<lparr>dn_param := (dn_param (ss_app ss))(ss_next ss \<mapsto> [])\<rparr>"
  have "run_hook (service_handlers W) (ss_conn_start_cb ss) (ss_next ss) (with_conn fd l ss) = Inr ((with_conn fd l ss)\<lparr>ss_app := ?x\<rparr>)"
    using cb by (simp add: run_hook_def service_handlers_def on_create_subscribe_def conn_view_def store_view_def create_subscribe_def with_conn_def)
  from tcp_conn_new_hook [OF inv this] show ?thesis by (simp add: with_conn_def)
qed

text \<open>Reading on a connection of the service.\<close>

lemma dns_do_read:
  assumes out: "out_inv p fd l stream ss" and srv: "ss_router ss = dns_routes" "ss_conn_close_cb ss = Some Clear_Subscribe" "dn_param (ss_app ss) p \<noteq> None"
    and inp: "slot_head ss (p, In) = 0" "0 < n" "n + int (length (slot_bytes ss (p, In))) \<le> 8388608"
      "sys_read (nat n) as = Inr (Rd bs)" "length bs = nat n" "parse_frames (slot_bytes ss (p, In) @ bs) = (ms, rest, e)"
    and fits: "length (slot_bytes ss (p, Out)) + length (concat (map (dns_answer W (dn_route (ss_app ss))) ms)) \<le> 8388608"
  shows "case conn_do_read (service_handlers W) (Some n) as p ss of
      Inl f \<Rightarrow> f = Exit_1 \<or> f = Assert_Failed \<and> empty_tail ms rest
    | Inr ss' \<Rightarrow> \<not> empty_tail ms rest \<and> bufs_ok ss' \<and> others_kept p fd ss ss' \<and>
        (if e = Malformed then closed p fd l ss' \<and> ss_app ss' = dns_leave p fd (fold (dns_effect W p fd) ms (ss_app ss))
         else out_inv p fd l (stream @ concat (map (dns_answer W (dn_route (ss_app ss))) ms)) ss' \<and> ss_conns ss' = ss_conns ss \<and>
              ss_app ss' = fold (dns_effect W p fd) ms (ss_app ss) \<and> slot_bytes ss' (p, In) = rest \<and> slot_head ss' (p, In) = 0)"
proof -
  let ?strm = "stream @ concat (map (dns_answer W (dn_route (ss_app ss))) ms)" and ?final = "fold (dns_effect W p fd) ms (ss_app ss)"
  let ?J = "lone_session W p fd l ?strm ?final ss"
  have rd: "reading p fd l dns_routes ss" using out srv(1) by (simp add: reading_def out_inv_def)
  have "dns_session W p fd l ?strm ?final ms ss" unfolding dns_session_def using out srv(2,3) fits by blast
  then have J: "?J ms ss" by (simp add: lone_session_def)
  note run = dns_conns.do_read_session [OF rd J inp]
  have close: "ss_app s1 = dns_leave p fd ?final \<and> others_kept p fd ss ss'"
    if w: "reading p fd l dns_routes w" "?J [] w" "run_hook (service_handlers W) (ss_conn_close_cb w) p w = Inr s1" "clean_conn (service_handlers W) p w = Inr ss'" for w s1 ss'
  proof -
    have r: "bufs_ok w" "conn_live p fd l w" using w(1) by (simp_all add: reading_def)
    obtain xs where "dn_param (ss_app w) p = Some xs" "ss_conn_close_cb w = Some Clear_Subscribe" "ss_app w = ?final" "others_kept p fd ss w"
      using w(2) unfolding lone_session_def dns_session_def by auto
    note x = this
    have "run_hook (service_handlers W) (ss_conn_close_cb w) p w = on_clear_subscribe p w" unfolding x(2) by (simp add: run_hook_def service_handlers_def)
    then have s1: "s1 = w\<lparr>ss_app := dns_leave p fd ?final\<rparr>" using w(3) clear_hook_ok [OF r x(1)] unfolding x(3) by simp
    have "bufs_ok s1" "conn_live p fd l s1" using kept_app [OF r(1)] r(2) by (auto simp: s1 kept_def)
    from others_clean [OF w(3) this w(4)] have "others_kept p fd w ss'" unfolding s1 by (rule others_trans [OF others_app])
    from others_trans [OF x(4) this] show ?thesis unfolding s1 by simp
  qed
  show ?thesis
  proof (cases "conn_do_read (service_handlers W) (Some n) as p ss")
    case (Inl f)
    then show ?thesis using run by simp
  next
    case (Inr ss')
    show ?thesis
    proof (cases "e = Malformed")
      case True
      then obtain w s1 where w: "\<not> empty_tail ms rest" "bufs_ok ss'" "closed p fd l ss'" "reading p fd l dns_routes w" "?J [] w"
          "run_hook (service_handlers W) (ss_conn_close_cb w) p w = Inr s1" "clean_conn (service_handlers W) p w = Inr ss'" "ss_app ss' = ss_app s1"
        using run unfolding Inr sum.case by (simp only: if_True simp_thms) blast
      then show ?thesis using close [OF w(4-7)] True unfolding Inr by simp
    next
      case False
      then have "?J [] ss'" using run unfolding Inr by simp
      then have "out_inv p fd l ?strm ss'" "ss_app ss' = ?final" "others_kept p fd ss ss'" "ss_conns ss' = ss_conns ss"
        unfolding lone_session_def dns_session_def by auto
      then show ?thesis using False run unfolding Inr by simp
    qed
  qed
qed

section \<open>Properties\<close>

text \<open>
  C17 [dns_requests_answered]. When bytes arrive on a connection of the route service, every complete request in them is answered: the output stream of the connection grows
  by exactly the responses, in the order of the requests, each with the hosts that the route table has for the requested module, and the client is subscribed
  to exactly the modules it has asked for; other messages are ignored, and the incomplete rest is kept. A stream with an illegal length closes the connection and cancels
  its subscriptions. The read aborts only if the buffer pool is exhausted or on the failed assert after an empty body at the end.
\<close>

theorem dns_requests_answered:
  assumes out: "out_inv p fd l stream ss" and srv: "ss_router ss = dns_routes" "ss_conn_close_cb ss = Some Clear_Subscribe" "dn_param (ss_app ss) p \<noteq> None"
    and inp: "slot_head ss (p, In) = 0" "0 < n" "n + int (length (slot_bytes ss (p, In))) \<le> 8388608"
      "sys_read (nat n) as = Inr (Rd bs)" "length bs = nat n" "parse_frames (slot_bytes ss (p, In) @ bs) = (ms, rest, e)"
    and fits: "length (slot_bytes ss (p, Out)) + length (concat (map (dns_answer W (dn_route (ss_app ss))) ms)) \<le> 8388608"
  shows "case conn_do_read (service_handlers W) (Some n) as p ss of
      Inl f \<Rightarrow> f = Exit_1 \<or> f = Assert_Failed \<and> empty_tail ms rest
    | Inr ss' \<Rightarrow> \<not> empty_tail ms rest \<and>
        (if e = Malformed then closed p fd l ss' \<and> ss_app ss' = dns_leave p fd (fold (dns_effect W p fd) ms (ss_app ss))
         else out_inv p fd l (stream @ concat (map (dns_answer W (dn_route (ss_app ss))) ms)) ss' \<and>
              ss_app ss' = fold (dns_effect W p fd) ms (ss_app ss) \<and> slot_bytes ss' (p, In) = rest \<and> slot_head ss' (p, In) = 0)"
  using dns_do_read [OF assms] by (cases "conn_do_read (service_handlers W) (Some n) as p ss") (simp_all split: if_splits)

text \<open>The service after \<open>main\<close>, with one host for the module 1/2, and a client on descriptor 7.\<close>

definition dns_boot :: dns_server where
  "dns_boot = \<lparr>ss_pool = boot_pool, ss_loops = [1 \<mapsto> event_loop_new], ss_heap = Map.empty, ss_next = 0, ss_conns = replicate 10 None, ss_curr_conns = 0,
     ss_max_conns = 5, ss_router = dns_routes, ss_conn_start_cb = Some Create_Subscribe, ss_conn_close_cb = Some Clear_Subscribe, ss_open = {7},
     ss_sent = (\<lambda>_. []), ss_app = \<lparr>dn_route = \<lparr>rt_data = [mk_key 1 2 \<mapsto> [mk_key 100 80]], rt_temp = Map.empty, rt_version = 1\<rparr>,
       dn_sub = SubscribeList_new, dn_param = Map.empty\<rparr>\<rparr>"

lemma dns_boot_conn:
  obtains ss1 where "tcp_conn_new (service_handlers W) 7 1 dns_boot = Inr (0, ss1)" "out_inv 0 7 1 [] ss1" "slot ss1 (0, In) = None"
    "ss_app ss1 = (ss_app dns_boot)\<lparr>dn_param := [0 \<mapsto> []]\<rparr>" "ss_router ss1 = dns_routes" "ss_conn_close_cb ss1 = Some Clear_Subscribe"
    "ss_loops ss1 = [1 \<mapsto> add_io_event 7 Conn_Rd EPOLLIN 0 event_loop_new]" "ss_conns ss1 = (replicate 10 None)[7 := Some (Some 0)]"
proof -
  have n: "slot dns_boot k = None" for k by (simp add: slot_def dns_boot_def)
  have b: "bufs_ok dns_boot" unfolding bufs_ok_def n by (simp add: dns_boot_def)
  have d: "ss_loops dns_boot 1 = Some event_loop_new" "(0 :: int) \<le> 7" "7 < int (length (ss_conns dns_boot))"
      "ss_conn_start_cb dns_boot = Some Create_Subscribe" "ss_next dns_boot = 0" "ss_sent dns_boot 7 = []" "dn_param (ss_app dns_boot) = Map.empty"
      "ss_router dns_boot = dns_routes" "ss_conn_close_cb dns_boot = Some Clear_Subscribe" "ss_loops dns_boot = [1 \<mapsto> event_loop_new]"
      "ss_conns dns_boot = replicate 10 None"
    by (simp_all add: dns_boot_def)
  from dns_conn_open [OF b d(1) loop_inv_new d(2-4), of W] that show thesis by (auto simp: d)
qed

theorem dns_requests_answered_witness:
  "\<exists>ss1. tcp_conn_new (service_handlers base128) 7 1 dns_boot = Inr (0, ss1) \<and>
     (case conn_do_read (service_handlers base128) (Some 12) [Rd (frame (ID_GetRouteRequest, [8, 1, 16, 2]))] 0 ss1 of
        Inl f \<Rightarrow> f = Exit_1
      | Inr ss' \<Rightarrow> ss_sent ss' 7 @ slot_bytes ss' (0, Out) = frame (ID_GetRouteResponse, [8, 1, 16, 2, 26, 4, 8, 100, 16, 80]) \<and>
          dn_param (ss_app ss') 0 = Some [mk_key 1 2] \<and> subs (dn_sub (ss_app ss')) (mk_key 1 2) = {7})"
proof -
  obtain ss1 where ss1: "tcp_conn_new (service_handlers base128) 7 1 dns_boot = Inr (0, ss1)" "out_inv 0 7 1 [] ss1" "slot ss1 (0, In) = None"
      "ss_app ss1 = (ss_app dns_boot)\<lparr>dn_param := [0 \<mapsto> []]\<rparr>" "ss_router ss1 = dns_routes" "ss_conn_close_cb ss1 = Some Clear_Subscribe"
    by (rule dns_boot_conn)
  let ?m = "(ID_GetRouteRequest, [8, 1, 16, 2])" and ?bs = "frame (ID_GetRouteRequest, [8, 1, 16, 2])"
  have e: "slot_bytes ss1 (0, In) = []" "slot_head ss1 (0, In) = 0" by (simp_all add: slot_bytes_def slot_head_def ss1(3))
  have pf: "parse_frames ?bs = ([?m], [], Incomplete)"
    using parse_frames_concat [of "[?m]" "[]"] by (simp add: MESSAGE_LENGTH_LIMIT_def MESSAGE_HEAD_LEN_def)
  have req: "snd (GetRouteRequest_Parse base128 [8, 1, 16, 2]) = \<lparr>grq_modid = 1, grq_cmdid = 2\<rparr>" by code_simp
  have rsp: "GetRouteResponse_Serialize base128 \<lparr>grs_modid = 1, grs_cmdid = 2, grs_host = [\<lparr>pb_ip = 100, pb_port = 80\<rparr>]\<rparr> = [8, 1, 16, 2, 26, 4, 8, 100, 16, 80]"
    by code_simp
  have keys: "key_hi (mk_key 100 80) = 100" "key_lo (mk_key 100 80) = 80" by code_simp+
  have ans: "dns_answer base128 (dn_route (ss_app ss1)) ?m = frame (ID_GetRouteResponse, [8, 1, 16, 2, 26, 4, 8, 100, 16, 80])"
    by (simp add: dns_answer_def req route_response_def get_hosts_def ss1(4) dns_boot_def rsp keys)
  have eff: "dns_effect base128 0 7 ?m (ss_app ss1) = (ss_app ss1)\<lparr>dn_sub := subscribe (mk_key 1 2) 7 SubscribeList_new, dn_param := [0 \<mapsto> [mk_key 1 2]]\<rparr>"
    by (simp add: dns_effect_def req ss1(4) dns_boot_def set_insert_def Let_def)
  have prm: "dn_param (ss_app ss1) 0 \<noteq> None" by (simp add: ss1(4))
  have o: "slot_bytes ss1 (0, Out) = []" using ss1(2) by (simp add: out_inv_def)
  have run: "case conn_do_read (service_handlers base128) (Some 12) [Rd ?bs] 0 ss1 of
      Inl f \<Rightarrow> f = Exit_1 \<or> f = Assert_Failed \<and> empty_tail [?m] []
    | Inr ss' \<Rightarrow> \<not> empty_tail [?m] [] \<and>
        (if Incomplete = Malformed then closed 0 7 1 ss' \<and> ss_app ss' = dns_leave 0 7 (fold (dns_effect base128 0 7) [?m] (ss_app ss1))
         else out_inv 0 7 1 ([] @ concat (map (dns_answer base128 (dn_route (ss_app ss1))) [?m])) ss' \<and>
              ss_app ss' = fold (dns_effect base128 0 7) [?m] (ss_app ss1) \<and> slot_bytes ss' (0, In) = [] \<and> slot_head ss' (0, In) = 0)"
    by (rule dns_requests_answered [OF ss1(2,5,6) prm e(2), where bs = ?bs]) (simp_all add: e(1) pf o ans)
  have "subs (subscribe (mk_key 1 2) 7 SubscribeList_new) (mk_key 1 2) = {7}" by (simp add: subs_subscribe) (simp add: subs_def SubscribeList_new_def)
  with run ss1(1) show ?thesis by (auto simp: ans eff empty_tail_def out_inv_def split: sum.splits)
qed

end
