(* ===== verification/Dns_Push.thy ===== *)
theory Dns_Push
  imports Dns_Service
begin

text \<open>
  Pushing changed routes to the clients of the route service, \<open>push_change_task\<close> of \<^verbatim>\<open>lars_dns/src/subscribe.cpp\<close> on the TCP connections of \<open>Dns_Service\<close>. Many connections
  are concerned: the streams of all of them are followed through a sequence of messages.
\<close>

section \<open>Messages to several connections\<close>

text \<open>The bytes of the responses of a plan that go to connection \<open>p\<close>.\<close>

definition route_frame :: "wire \<Rightarrow> GetRouteResponse \<Rightarrow> bytes" where
  "route_frame W rsp = frame (ID_GetRouteResponse, GetRouteResponse_Serialize W rsp)"

definition plan_bytes :: "wire \<Rightarrow> ptr \<Rightarrow> (ptr \<times> GetRouteResponse) list \<Rightarrow> bytes" where
  "plan_bytes W p plan = concat (map (\<lambda>x. route_frame W (snd x)) (filter (\<lambda>x. fst x = p) plan))"

lemma plan_bytes_simps [simp]:
  "plan_bytes W p [] = []" "plan_bytes W p ((q, rsp) # plan) = (if q = p then route_frame W rsp else []) @ plan_bytes W p plan"
  "plan_bytes W p (xs @ ys) = plan_bytes W p xs @ plan_bytes W p ys"
  by (simp_all add: plan_bytes_def)

text \<open>What sending messages leaves alone on the whole server.\<close>

definition only_sends :: "('cb, 'u, 'h, 'x) server_state \<Rightarrow> ('cb, 'u, 'h, 'x) server_state \<Rightarrow> bool" where
  "only_sends ss ss' \<longleftrightarrow>
     ss_conns ss' = ss_conns ss \<and> ss_router ss' = ss_router ss \<and> ss_conn_start_cb ss' = ss_conn_start_cb ss \<and> ss_conn_close_cb ss' = ss_conn_close_cb ss \<and>
     ss_app ss' = ss_app ss \<and> (\<forall>q. slot_head ss' (q, In) = slot_head ss (q, In)) \<and> bufs_ok ss' \<and>
     (\<forall>l lp. ss_loops ss l = Some lp \<and> loop_inv lp \<longrightarrow> (\<exists>lp'. ss_loops ss' l = Some lp' \<and> loop_inv lp'))"

lemma only_sends_trans: "only_sends ss ss' \<Longrightarrow> only_sends ss' ss'' \<Longrightarrow> only_sends ss ss''"
  unfolding only_sends_def by (intro conjI allI impI; (elim conjE)?; metis)

lemma send_only:
  assumes inv: "bufs_ok ss" "conn_live p fd l ss" and s: "conn_send_message data msglen msgid p ss = Inr (ret, ss')"
  shows "only_sends ss ss'"
proof -
  obtain q st where k: "rb_ok q st" "rb_frame (slot ss (p, Out)) (ss_pool ss) q st"
      and ss': "ss' = put_buf Out p (q, st) ss \<or>
        (\<exists>lp. ss_loops ss l = Some lp \<and> ss' = (put_buf Out p (q, st) ss)\<lparr>ss_loops := (ss_loops ss)(l \<mapsto> add_io_event fd Conn_Wt EPOLLOUT p lp)\<rparr>)"
    by (rule conn_send_message_shape [OF inv s])
  obtain c where c: "ss_heap ss p = Some c" using conn_live_heap [OF inv(2)] by blast
  note oth = others_send [OF inv s]
  have "slot_head ss' (q', In) = slot_head ss (q', In)" for q'
    using ss' put_buf_ok(2) [OF inv(1) c k, of "(q', In)"] bufs_ok_cong(3) [of "(put_buf Out p (q, st) ss)\<lparr>ss_loops := x\<rparr>" "put_buf Out p (q, st) ss" for x] by auto
  moreover have "\<exists>lp'. ss_loops ss' l' = Some lp' \<and> loop_inv lp'" if "ss_loops ss l' = Some lp" "loop_inv lp" for l' lp
    using oth that unfolding others_kept_def loop_others_def by blast
  moreover have "kept p ss ss'" "ss_app ss' = ss_app ss" using send_message_kept [OF inv s] by simp_all
  ultimately show ?thesis using oth by (simp add: only_sends_def others_kept_def kept_def)
qed

text \<open>One message extends the stream of its connection and of no other.\<close>

lemma send_route_streams:
  assumes all: "\<forall>q \<in> P. out_inv q (fdof q) l (str q) ss" and P: "p \<in> P" "inj_on fdof P"
    and fits: "length (slot_bytes ss (p, Out)) + length (route_frame W rsp) \<le> 8388608"
  shows "case send_route W p rsp ss of
      Inl e \<Rightarrow> e = Exit_1
    | Inr ss' \<Rightarrow> only_sends ss ss' \<and>
        (\<forall>q \<in> P. out_inv q (fdof q) l (str q @ (if q = p then route_frame W rsp else [])) ss' \<and>
           slot_bytes ss' (q, Out) = slot_bytes ss (q, Out) @ (if q = p then route_frame W rsp else []))"
proof -
  let ?data = "GetRouteResponse_Serialize W rsp"
  have o: "out_inv p (fdof p) l (str p) ss" using all P(1) by blast
  then have live: "bufs_ok ss" "conn_live p (fdof p) l ss" by (simp_all add: out_inv_def)
  have f: "int (length ?data) < 2 ^ 31" "8 + int (length ?data) + int (length (slot_bytes ss (p, Out))) \<le> 8388608"
    using fits by (simp_all add: route_frame_def)
  note own = conn_send_message_out [OF o f, of ID_GetRouteResponse]
  show ?thesis
  proof (cases "conn_send_message ?data (of_nat (length ?data)) ID_GetRouteResponse p ss")
    case (Inl e)
    then show ?thesis using own by (simp add: send_route_def Let_def)
  next
    case (Inr x)
    obtain ret s' where x: "x = (ret, s')" by (cases x)
    note send = Inr [unfolded x]
    have "out_inv q (fdof q) l (str q) s' \<and> slot_bytes s' (q, Out) = slot_bytes ss (q, Out)" if q: "q \<in> P" "q \<noteq> p" for q
    proof -
      have "fdof q \<noteq> fdof p" using P q by (auto dest: inj_onD)
      then show ?thesis using out_inv_other [OF live send _ q(2)] all q(1) by blast
    qed
    moreover have "out_inv p (fdof p) l (str p @ route_frame W rsp) s'" "slot_bytes s' (p, Out) = slot_bytes ss (p, Out) @ route_frame W rsp"
      using own send by (simp_all add: route_frame_def)
    moreover have "only_sends ss s'" by (rule send_only [OF live send])
    ultimately show ?thesis using send by (simp add: send_route_def Let_def)
  qed
qed

lemma send_all_streams:
  assumes "\<forall>q \<in> P. out_inv q (fdof q) l (str q) ss" "inj_on fdof P" "fst ` set plan \<subseteq> P"
    and "\<forall>q \<in> P. length (slot_bytes ss (q, Out)) + length (plan_bytes W q plan) \<le> 8388608" "bufs_ok ss"
  shows "case send_all (send_route W) plan ss of
      Inl e \<Rightarrow> e = Exit_1
    | Inr ss' \<Rightarrow> only_sends ss ss' \<and> (\<forall>q \<in> P. out_inv q (fdof q) l (str q @ plan_bytes W q plan) ss')"
  using assms
proof (induction plan arbitrary: ss str)
  case (Cons x plan)
  obtain p rsp where x: "x = (p, rsp)" by (cases x)
  have p: "p \<in> P" using Cons.prems(3) x by simp
  have "length (slot_bytes ss (p, Out)) + length (plan_bytes W p (x # plan)) \<le> 8388608" using Cons.prems(4) p by blast
  then have f: "length (slot_bytes ss (p, Out)) + length (route_frame W rsp) \<le> 8388608" by (simp add: x)
  note one = send_route_streams [OF Cons.prems(1) p Cons.prems(2) f]
  show ?case
  proof (cases "send_route W p rsp ss")
    case (Inl e)
    then show ?thesis using one by (simp add: x)
  next
    case (Inr s')
    let ?str = "\<lambda>q. str q @ (if q = p then route_frame W rsp else [])"
    have s': "only_sends ss s'" "\<forall>q \<in> P. out_inv q (fdof q) l (?str q) s'"
        "\<forall>q \<in> P. slot_bytes s' (q, Out) = slot_bytes ss (q, Out) @ (if q = p then route_frame W rsp else [])"
      using one Inr by simp_all
    have "length (slot_bytes s' (q, Out)) + length (plan_bytes W q plan) \<le> 8388608" if q: "q \<in> P" for q
    proof -
      have "length (slot_bytes ss (q, Out)) + length (plan_bytes W q (x # plan)) \<le> 8388608" using Cons.prems(4) q by blast
      then show ?thesis using s'(3) q by (auto simp: x split: if_splits)
    qed
    then have IH: "case send_all (send_route W) plan s' of
        Inl e \<Rightarrow> e = Exit_1
      | Inr ss' \<Rightarrow> only_sends s' ss' \<and> (\<forall>q \<in> P. out_inv q (fdof q) l (?str q @ plan_bytes W q plan) ss')"
      using Cons.IH [OF s'(2) Cons.prems(2)] Cons.prems(3) s'(1) by (simp add: only_sends_def)
    have str: "(\<lambda>q. ?str q @ plan_bytes W q plan) = (\<lambda>q. str q @ plan_bytes W q (x # plan))" by (auto simp: x)
    have "send_all (send_route W) (x # plan) ss = send_all (send_route W) plan s'" by (simp add: x Inr)
    then show ?thesis using IH only_sends_trans [OF s'(1)] unfolding fun_cong [OF str] by (cases "send_all (send_route W) plan s'") simp_all
  qed
qed (simp add: only_sends_def)

section \<open>The plan of a push\<close>

text \<open>The pushed bytes for descriptor \<open>fd\<close>: the current routes of the modules it has to be told about.\<close>

definition pushed_bytes :: "wire \<Rightarrow> Route \<Rightarrow> (int \<times> u64 list) list \<Rightarrow> int \<Rightarrow> bytes" where
  "pushed_bytes W rt need fd =
     concat (map (\<lambda>m. route_frame W (route_response (key_hi m) (key_lo m) rt)) (case map_of need fd of None \<Rightarrow> [] | Some ms \<Rightarrow> ms))"

lemma plan_bytes_push:
  assumes "distinct (map fst need)" "conns fd = Some p" "\<forall>fd' \<in> fst ` set need. conns fd' = Some p \<longrightarrow> fd' = fd"
  shows "plan_bytes W p (push_plan conns rt need) = pushed_bytes W rt need fd"
  using assms(1,3)
proof (induction need)
  case (Cons x need)
  obtain fd' ms where x: "x = (fd', ms)" by (cases x)
  have split: "push_plan conns rt (x # need) =
      (case conns fd' of None \<Rightarrow> [] | Some c \<Rightarrow> map (\<lambda>m. (c, route_response (key_hi m) (key_lo m) rt)) ms) @ push_plan conns rt need"
    by (simp add: push_plan_def x)
  have all: "plan_bytes W p (map (\<lambda>m. (p, f m)) ms) = concat (map (\<lambda>m. route_frame W (f m)) ms)" for f
    by (induction ms) simp_all
  have none: "plan_bytes W p (map (\<lambda>m. (c, f m)) ms) = []" if "c \<noteq> p" for c f using that by (induction ms) simp_all
  have IH: "plan_bytes W p (push_plan conns rt need) = pushed_bytes W rt need fd" using Cons by simp
  show ?case
  proof (cases "fd' = fd")
    case True
    then have "map_of need fd = None" using Cons.prems(1) by (force simp: x map_of_eq_None_iff)
    then show ?thesis using IH True assms(2) by (simp add: split all) (simp add: pushed_bytes_def x)
  next
    case False
    then have "conns fd' \<noteq> Some p" using Cons.prems(2) x by auto
    then have "plan_bytes W p (case conns fd' of None \<Rightarrow> [] | Some c \<Rightarrow> map (\<lambda>m. (c, route_response (key_hi m) (key_lo m) rt)) ms) = []"
      using none by (cases "conns fd'") auto
    then have "plan_bytes W p (push_plan conns rt (x # need)) = pushed_bytes W rt need fd" unfolding split using IH by simp
    then show ?thesis using False by (simp add: pushed_bytes_def x)
  qed
qed (simp add: push_plan_def pushed_bytes_def)

lemma map_of_filter_key: "fd \<in> on \<Longrightarrow> map_of (filter (\<lambda>(fd, ms). fd \<in> on) ps) fd = map_of ps fd"
  by (induction ps) auto

lemma map_of_filter_out: "fd \<notin> on \<Longrightarrow> map_of (filter (\<lambda>(fd, ms). fd \<in> on) ps) fd = None"
  by (induction ps) auto

text \<open>A push, for the connections with descriptors in \<open>F\<close>, those of the loop among them.\<close>

lemma push_task_streams:
  assumes loop: "ss_loops ss l = Some lp" "bufs_ok ss" and wf: "push_wf (sl_push (dn_sub (ss_app ss)))" and F: "get_listen_fds lp \<subseteq> F"
    and conns: "\<forall>fd p. fd \<in> F \<and> conn_entry ss fd = Some p \<longrightarrow> out_inv p fd l (stream fd) ss"
    and fits: "\<forall>fd p. fd \<in> get_listen_fds lp \<and> conn_entry ss fd = Some p \<longrightarrow>
      length (slot_bytes ss (p, Out)) + length (pushed_bytes W (dn_route (ss_app ss)) (sl_push (dn_sub (ss_app ss))) fd) \<le> 8388608"
      "\<forall>fd p. fd \<in> F \<and> conn_entry ss fd = Some p \<longrightarrow> length (slot_bytes ss (p, Out)) \<le> 8388608"
  defines "sl' \<equiv> (dn_sub (ss_app ss))\<lparr>sl_push := filter (\<lambda>p. fst p \<notin> get_listen_fds lp) (sl_push (dn_sub (ss_app ss)))\<rparr>"
  shows "case push_task W l ss of
      Inl e \<Rightarrow> e = Exit_1
    | Inr ss' \<Rightarrow> \<exists>s'. only_sends ss s' \<and> ss' = s'\<lparr>ss_app := (ss_app ss)\<lparr>dn_sub := sl'\<rparr>\<rparr> \<and>
        (\<forall>fd p. fd \<in> F \<and> conn_entry ss fd = Some p \<longrightarrow>
           out_inv p fd l (stream fd @ (if fd \<in> get_listen_fds lp then pushed_bytes W (dn_route (ss_app ss)) (sl_push (dn_sub (ss_app ss))) fd else [])) s')"
proof -
  let ?sl = "dn_sub (ss_app ss)" and ?rt = "dn_route (ss_app ss)" and ?on = "get_listen_fds lp"
  let ?need = "filter (\<lambda>(fd, ms). fd \<in> ?on) (sl_push ?sl)"
  let ?plan = "push_plan (conn_entry ss) ?rt ?need" and ?b = "\<lambda>fd. if fd \<in> ?on then pushed_bytes W ?rt (sl_push ?sl) fd else []"
  define P where "P = {p. \<exists>fd \<in> F. conn_entry ss fd = Some p}"
  define fdof where "fdof p = (case ss_heap ss p of None \<Rightarrow> 0 | Some c \<Rightarrow> tc_connfd c)" for p
  have fd: "fdof p = fd" if "fd \<in> F" "conn_entry ss fd = Some p" for fd p
  proof -
    have "conn_live p fd l ss" using conns that unfolding out_inv_def by blast
    then show ?thesis using conn_live_heap by (force simp: fdof_def)
  qed
  have P: "\<forall>p \<in> P. out_inv p (fdof p) l (stream (fdof p)) ss" using conns fd by (auto simp: P_def)
  have inj: "inj_on fdof P" using fd by (auto simp: P_def inj_on_def)
  have entry: "conn_entry ss (fdof p) = Some p \<and> fdof p \<in> F" if "p \<in> P" for p using that fd by (auto simp: P_def)
  have sub: "fst ` set ?plan \<subseteq> P" using F by (force simp: push_plan_def P_def split: option.splits)
  have dist: "distinct (map fst ?need)" using wf by (simp add: push_wf_def distinct_map_filter)
  have bytes: "plan_bytes W p ?plan = ?b (fdof p)" if p: "p \<in> P" for p
  proof -
    have "\<forall>fd' \<in> fst ` set ?need. conn_entry ss fd' = Some p \<longrightarrow> fd' = fdof p" using fd F by force
    then have "plan_bytes W p ?plan = pushed_bytes W ?rt ?need (fdof p)" using entry [OF p] by (intro plan_bytes_push [OF dist]) simp_all
    then show ?thesis by (simp add: pushed_bytes_def map_of_filter_key map_of_filter_out)
  qed
  have "length (slot_bytes ss (p, Out)) + length (plan_bytes W p ?plan) \<le> 8388608" if "p \<in> P" for p
    using fits entry [OF that] by (auto simp: bytes [OF that])
  then have f: "\<forall>p \<in> P. length (slot_bytes ss (p, Out)) + length (plan_bytes W p ?plan) \<le> 8388608" by blast
  note sends = send_all_streams [OF P inj sub f loop(2)]
  have run: "push_task W l ss = bindR (send_all (send_route W) ?plan ss) (\<lambda>ss. Inr (ss\<lparr>ss_app := (ss_app ss)\<lparr>dn_sub := sl'\<rparr>\<rparr>))"
    using loop(1) by (cases "send_all (send_route W) ?plan ss") (simp_all add: push_task_def push_change_task_plan [OF wf] sl'_def)
  show ?thesis
  proof (cases "send_all (send_route W) ?plan ss")
    case (Inr s')
    then have s': "only_sends ss s'" "\<forall>q \<in> P. out_inv q (fdof q) l (stream (fdof q) @ plan_bytes W q ?plan) s'" using sends by simp_all
    have "out_inv p fd l (stream fd @ ?b fd) s'" if e: "fd \<in> F" "conn_entry ss fd = Some p" for fd p
    proof -
      have "p \<in> P" using e by (auto simp: P_def)
      then show ?thesis using s'(2) unfolding fd [OF e, symmetric] bytes [OF \<open>p \<in> P\<close>, symmetric] by blast
    qed
    then have "\<forall>fd p. fd \<in> F \<and> conn_entry ss fd = Some p \<longrightarrow> out_inv p fd l (stream fd @ ?b fd) s'" by blast
    note all = this
    have eq: "push_task W l ss = Inr (s'\<lparr>ss_app := (ss_app ss)\<lparr>dn_sub := sl'\<rparr>\<rparr>)" unfolding run Inr using s'(1) by (simp add: only_sends_def)
    show ?thesis unfolding eq sum.case by (rule exI, intro conjI, rule s'(1), rule refl, rule all)
  qed (use sends run in simp)
qed

section \<open>Properties\<close>

text \<open>
  C12 [push_reaches_subscribers]. One run of the push task in a worker's loop sends to every connection of that loop that has pending modules exactly one message per
  module, with its current hosts, behind what is already queued on that connection and nothing to anyone else; afterwards these descriptors have nothing
  pending, and the entries of descriptors in other loops are kept for their workers. The task fails only if the buffer pool is exhausted.
\<close>

theorem push_reaches_subscribers:
  assumes loop: "ss_loops ss l = Some lp" and ok: "bufs_ok ss" and wf: "push_wf (sl_push (dn_sub (ss_app ss)))"
    and conns: "\<forall>fd p. fd \<in> get_listen_fds lp \<and> conn_entry ss fd = Some p \<longrightarrow> out_inv p fd l (stream fd) ss"
    and fits: "\<forall>fd p. fd \<in> get_listen_fds lp \<and> conn_entry ss fd = Some p \<longrightarrow>
      length (slot_bytes ss (p, Out)) + length (pushed_bytes W (dn_route (ss_app ss)) (sl_push (dn_sub (ss_app ss))) fd) \<le> 8388608"
  shows "case push_task W l ss of
      Inl e \<Rightarrow> e = Exit_1
    | Inr ss' \<Rightarrow>
        (\<forall>fd p. fd \<in> get_listen_fds lp \<and> conn_entry ss fd = Some p \<longrightarrow>
           out_inv p fd l (stream fd @ pushed_bytes W (dn_route (ss_app ss)) (sl_push (dn_sub (ss_app ss))) fd) ss') \<and>
        (\<forall>fd. pend (dn_sub (ss_app ss')) fd = (if fd \<in> get_listen_fds lp then {} else pend (dn_sub (ss_app ss)) fd)) \<and>
        subs (dn_sub (ss_app ss')) = subs (dn_sub (ss_app ss)) \<and> dn_param (ss_app ss') = dn_param (ss_app ss)"
proof -
  let ?sl = "dn_sub (ss_app ss)" and ?on = "get_listen_fds lp"
  let ?sl' = "?sl\<lparr>sl_push := filter (\<lambda>p. fst p \<notin> ?on) (sl_push ?sl)\<rparr>"
  have "\<forall>fd p. fd \<in> ?on \<and> conn_entry ss fd = Some p \<longrightarrow> length (slot_bytes ss (p, Out)) \<le> 8388608" using fits by fastforce
  note run = push_task_streams [OF loop ok wf order_refl conns fits this]
  show ?thesis
  proof (cases "push_task W l ss")
    case (Inr ss')
    obtain s' where s': "ss' = s'\<lparr>ss_app := (ss_app ss)\<lparr>dn_sub := ?sl'\<rparr>\<rparr>"
        "\<forall>fd p. fd \<in> ?on \<and> conn_entry ss fd = Some p \<longrightarrow>
           out_inv p fd l (stream fd @ (if fd \<in> ?on then pushed_bytes W (dn_route (ss_app ss)) (sl_push ?sl) fd else [])) s'"
      using run unfolding Inr sum.case by blast
    then show ?thesis unfolding Inr by (simp add: out_inv_app pend_def pend_of_filter)
  qed (use run in simp)
qed

theorem push_reaches_subscribers_witness:
  "\<exists>ss1 ss. tcp_conn_new (service_handlers base128) 7 1 dns_boot = Inr (0, ss1) \<and>
     ss = ss1\<lparr>ss_app := (ss_app ss1)\<lparr>dn_sub := \<lparr>sl_book = [mk_key 1 2 \<mapsto> [7]], sl_push = [(7, [mk_key 1 2])]\<rparr>\<rparr>\<rparr> \<and>
     (case push_task base128 1 ss of
        Inl e \<Rightarrow> e = Exit_1
      | Inr ss' \<Rightarrow> ss_sent ss' 7 @ slot_bytes ss' (0, Out) = frame (ID_GetRouteResponse, [8, 1, 16, 2, 26, 4, 8, 100, 16, 80]) \<and> pend (dn_sub (ss_app ss')) 7 = {})"
proof -
  obtain ss1 where ss1: "tcp_conn_new (service_handlers base128) 7 1 dns_boot = Inr (0, ss1)" "out_inv 0 7 1 [] ss1" "slot ss1 (0, In) = None"
      "ss_app ss1 = (ss_app dns_boot)\<lparr>dn_param := [0 \<mapsto> []]\<rparr>" "ss_router ss1 = dns_routes" "ss_conn_close_cb ss1 = Some Clear_Subscribe"
      "ss_loops ss1 = [1 \<mapsto> add_io_event 7 Conn_Rd EPOLLIN 0 event_loop_new]" "ss_conns ss1 = (replicate 10 None)[7 := Some (Some 0)]"
    by (rule dns_boot_conn)
  let ?sl = "\<lparr>sl_book = [mk_key 1 2 \<mapsto> [7 :: int]], sl_push = [(7 :: int, [mk_key 1 2])]\<rparr>"
  let ?ss = "ss1\<lparr>ss_app := (ss_app ss1)\<lparr>dn_sub := ?sl\<rparr>\<rparr>" and ?lp = "add_io_event 7 Conn_Rd EPOLLIN (0 :: ptr) event_loop_new" and ?rt = "dn_route (ss_app dns_boot)"
  have l: "ss_loops ?ss 1 = Some ?lp" "get_listen_fds ?lp = {7}" "conn_entry ?ss 7 = Some 0"
    by (simp_all add: ss1(7) get_listen_fds_def add_io_event_shape [OF loop_inv_new] Let_def conn_entry_def ss1(8)) (simp add: event_loop_new_def)
  have app: "sl_push (dn_sub (ss_app ?ss)) = [(7, [mk_key 1 2])]" "dn_route (ss_app ?ss) = ?rt" by (simp_all add: ss1(4))
  have wf: "push_wf (sl_push (dn_sub (ss_app ?ss)))" by (simp add: push_wf_def)
  have keys: "key_hi (mk_key 1 2) = 1" "key_lo (mk_key 1 2) = 2" "key_hi (mk_key 100 80) = 100" "key_lo (mk_key 100 80) = 80" by code_simp+
  have rsp: "GetRouteResponse_Serialize base128 \<lparr>grs_modid = 1, grs_cmdid = 2, grs_host = [\<lparr>pb_ip = 100, pb_port = 80\<rparr>]\<rparr> = [8, 1, 16, 2, 26, 4, 8, 100, 16, 80]"
    by code_simp
  have bytes: "pushed_bytes base128 ?rt [(7, [mk_key 1 2])] 7 = frame (ID_GetRouteResponse, [8, 1, 16, 2, 26, 4, 8, 100, 16, 80])"
    by (simp add: pushed_bytes_def route_frame_def route_response_def get_hosts_def dns_boot_def keys rsp)
  have o: "out_inv 0 7 1 [] ?ss" using ss1(2) by (simp add: out_inv_app)
  then have e: "slot_bytes ?ss (0, Out) = []" by (simp add: out_inv_def)
  have conns: "\<forall>fd p. fd \<in> get_listen_fds ?lp \<and> conn_entry ?ss fd = Some p \<longrightarrow> out_inv p fd 1 ((\<lambda>_. []) fd) ?ss" using l o by auto
  have fits: "\<forall>fd p. fd \<in> get_listen_fds ?lp \<and> conn_entry ?ss fd = Some p \<longrightarrow>
      length (slot_bytes ?ss (p, Out)) + length (pushed_bytes base128 (dn_route (ss_app ?ss)) (sl_push (dn_sub (ss_app ?ss))) fd) \<le> 8388608"
    unfolding app using l e bytes by auto
  have "case push_task base128 1 ?ss of
      Inl e \<Rightarrow> e = Exit_1
    | Inr ss' \<Rightarrow> ss_sent ss' 7 @ slot_bytes ss' (0, Out) = frame (ID_GetRouteResponse, [8, 1, 16, 2, 26, 4, 8, 100, 16, 80]) \<and> pend (dn_sub (ss_app ss')) 7 = {}"
    using push_reaches_subscribers [OF l(1) _ wf conns fits] o unfolding app l(2) using l(3) bytes
    by (cases "push_task base128 1 ?ss") (auto simp: out_inv_def)
  with ss1(1) show ?thesis by blast
qed

end
