(* ===== verification/Dns_Runs.thy ===== *)
theory Dns_Runs
  imports Dns_Push
begin

text \<open>
  The route service with any number of clients on the loop of one worker, as a transition system: clients connect, send bytes, read their answers and hang up, the check
  thread publishes changes and exchanges the route table, and the worker runs the push task, in any order. Every run is a run of the abstract service of \<open>Subscribe\<close>, whose
  connections have no streams or buffers, and the invariants of both levels hold together.
\<close>

section \<open>Steps\<close>

text \<open>The second component is the worker pool that publications notify; \<open>cb\<close> and \<open>self\<close> are the task and its argument.\<close>

type_synonym service = "dns_server \<times> (io_cb, ptr) thread_pool"

inductive svc_step :: "wire \<Rightarrow> io_cb \<Rightarrow> ptr \<Rightarrow> ptr \<Rightarrow> service \<Rightarrow> service \<Rightarrow> bool" for W cb self l where
  svc_accept: "0 \<le> fd \<Longrightarrow> fd < int (length (ss_conns ss)) \<Longrightarrow> conn_entry ss fd = None \<Longrightarrow> tcp_conn_new (service_handlers W) fd l ss = Inr (p, ss') \<Longrightarrow>
    svc_step W cb self l (ss, tp) (ss', tp)"
| svc_read: "conn_entry ss fd = Some p \<Longrightarrow> 0 < n \<Longrightarrow> n + int (length (slot_bytes ss (p, In))) \<le> 8388608 \<Longrightarrow>
    sys_read (nat n) as = Inr (Rd bs) \<Longrightarrow> length bs = nat n \<Longrightarrow> parse_frames (slot_bytes ss (p, In) @ bs) = (ms, rest, e) \<Longrightarrow>
    length (slot_bytes ss (p, Out)) + length (concat (map (dns_answer W (dn_route (ss_app ss))) ms)) \<le> 8388608 \<Longrightarrow>
    conn_do_read (service_handlers W) (Some n) as p ss = Inr ss' \<Longrightarrow> svc_step W cb self l (ss, tp) (ss', tp)"
| svc_write: "conn_entry ss fd = Some p \<Longrightarrow> conn_do_write (service_handlers W) answers p ss = Inr ss' \<Longrightarrow> svc_step W cb self l (ss, tp) (ss', tp)"
| svc_hangup: "conn_entry ss fd = Some p \<Longrightarrow> clean_conn (service_handlers W) p ss = Inr ss' \<Longrightarrow> svc_step W cb self l (ss, tp) (ss', tp)"
| svc_publish: "publish cb self mods (dn_sub (ss_app ss)) tp = Inr (sl', tp') \<Longrightarrow>
    svc_step W cb self l (ss, tp) (ss\<lparr>ss_app := (ss_app ss)\<lparr>dn_sub := sl'\<rparr>\<rparr>, tp')"
| svc_push: "\<forall>fd p. conn_entry ss fd = Some p \<longrightarrow>
      length (slot_bytes ss (p, Out)) + length (pushed_bytes W (dn_route (ss_app ss)) (sl_push (dn_sub (ss_app ss))) fd) \<le> 8388608 \<Longrightarrow>
    push_task W l ss = Inr ss' \<Longrightarrow> svc_step W cb self l (ss, tp) (ss', tp)"
| svc_reload: "svc_step W cb self l (ss, tp) (ss\<lparr>ss_app := (ss_app ss)\<lparr>dn_route := rt\<rparr>\<rparr>, tp)"

section \<open>The invariant of the server\<close>

definition svc_inv :: "ptr \<Rightarrow> dns_server \<Rightarrow> bool" where
  "svc_inv l ss \<longleftrightarrow>
     bufs_ok ss \<and> (\<exists>lp. ss_loops ss l = Some lp \<and> loop_inv lp) \<and> ss_router ss = dns_routes \<and>
     ss_conn_start_cb ss = Some Create_Subscribe \<and> ss_conn_close_cb ss = Some Clear_Subscribe \<and>
     (\<forall>fd p. conn_entry ss fd = Some p \<longrightarrow> (\<exists>stream. out_inv p fd l stream ss) \<and> slot_head ss (p, In) = 0 \<and> dn_param (ss_app ss) p \<noteq> None)"

lemma svc_invD:
  assumes "svc_inv l ss"
  shows "bufs_ok ss" "\<exists>lp. ss_loops ss l = Some lp \<and> loop_inv lp" "ss_router ss = dns_routes" "ss_conn_start_cb ss = Some Create_Subscribe"
    "ss_conn_close_cb ss = Some Clear_Subscribe" "conn_entry ss fd = Some p \<Longrightarrow> \<exists>stream. out_inv p fd l stream ss"
    "conn_entry ss fd = Some p \<Longrightarrow> slot_head ss (p, In) = 0" "conn_entry ss fd = Some p \<Longrightarrow> dn_param (ss_app ss) p \<noteq> None"
  using assms unfolding svc_inv_def by blast+

lemma entry_live: "svc_inv l ss \<Longrightarrow> conn_entry ss fd = Some p \<Longrightarrow> conn_live p fd l ss"
  using svc_invD(6) [of l ss fd p] by (auto simp: out_inv_def)

text \<open>A connection has one entry of the table.\<close>

lemma entry_unique:
  assumes "svc_inv l ss" "conn_entry ss fd = Some p" "conn_entry ss fd' = Some p"
  shows "fd' = fd"
  using entry_live [OF assms(1,2)] entry_live [OF assms(1,3)] by (auto simp: conn_live_def)

lemma entry_range: "conn_entry ss fd = Some p \<Longrightarrow> 0 \<le> fd \<and> fd < int (length (ss_conns ss))"
  by (auto simp: conn_entry_def split: if_splits)

lemma entry_other:
  assumes "others_kept p fd ss ss'" "0 \<le> fd" "fd' \<noteq> fd"
  shows "conn_entry ss' fd' = conn_entry ss fd'"
proof -
  have "nat fd' \<noteq> nat fd" if "0 \<le> fd'" using that assms(2,3) by simp
  then show ?thesis using assms(1) by (auto simp: conn_entry_def others_kept_def)
qed

lemma entry_closed: "closed p fd l ss \<Longrightarrow> conn_entry ss fd = None"
  by (simp add: closed_def conn_entry_def)

lemma entry_cong: "ss_conns ss' = ss_conns ss \<Longrightarrow> conn_entry ss' = conn_entry ss"
  by (rule ext) (simp add: conn_entry_def)

text \<open>A step of one connection preserves the invariant if it does so for this connection.\<close>

lemma svc_inv_one:
  assumes inv: "svc_inv l ss" and o: "others_kept p fd ss ss'" and ok: "bufs_ok ss'" and fd: "0 \<le> fd"
    and alone: "\<And>fd'. fd' \<noteq> fd \<Longrightarrow> conn_entry ss fd' \<noteq> Some p"
    and param: "\<And>q. q \<noteq> p \<Longrightarrow> dn_param (ss_app ss') q = dn_param (ss_app ss) q"
    and own: "conn_entry ss' fd = None \<or> conn_entry ss' fd = Some p \<and> (\<exists>stream. out_inv p fd l stream ss') \<and> slot_head ss' (p, In) = 0 \<and>
      dn_param (ss_app ss') p \<noteq> None"
  shows "svc_inv l ss'"
proof -
  note d = svc_invD [OF inv]
  obtain lp where "ss_loops ss l = Some lp" "loop_inv lp" using d(2) by blast
  then have "\<exists>lp. ss_loops ss' l = Some lp \<and> loop_inv lp" using o unfolding others_kept_def loop_others_def by blast
  moreover have "(\<exists>stream. out_inv q fd' l stream ss') \<and> slot_head ss' (q, In) = 0 \<and> dn_param (ss_app ss') q \<noteq> None" if e: "conn_entry ss' fd' = Some q" for fd' q
  proof (cases "fd' = fd")
    case True
    then show ?thesis using own e by auto
  next
    case False
    then have e': "conn_entry ss fd' = Some q" and q: "q \<noteq> p" using e entry_other [OF o fd] alone by auto
    obtain stream where "out_inv q fd' l stream ss" using d(6) [OF e'] by blast
    then have "out_inv q fd' l stream ss'" using others_out [OF o ok _ q False] by blast
    moreover have "slot_head ss' (q, In) = slot_head ss (q, In)" using o q by (simp add: others_kept_def)
    ultimately show ?thesis using d(7,8) [OF e'] param [OF q] by auto
  qed
  ultimately show ?thesis using ok o d(3-5) unfolding svc_inv_def by (simp add: others_kept_def)
qed

text \<open>Changes of the tables of the application, which keep the sets of the connections.\<close>

lemma conn_entry_app [simp]: "conn_entry (ss\<lparr>ss_app := x\<rparr>) = conn_entry ss"
  by (rule entry_cong) simp

lemma svc_inv_app:
  assumes "dn_param x = dn_param (ss_app ss)"
  shows "svc_inv l (ss\<lparr>ss_app := x\<rparr>) \<longleftrightarrow> svc_inv l ss"
  using bufs_ok_cong(1,3) [of "ss\<lparr>ss_app := x\<rparr>" ss] assms by (simp add: svc_inv_def out_inv_app)

section \<open>The abstract service\<close>

definition svc_env :: "wire \<Rightarrow> io_cb \<Rightarrow> ptr \<Rightarrow> (io_cb, ptr, unit) dns_env" where
  "svc_env W cb self =
     \<lparr>de_parse = (\<lambda>bs. snd (GetRouteRequest_Parse W bs)), de_serialize = GetRouteResponse_Serialize W, de_send = (\<lambda>_ _ w. Inr w), de_push_task = cb, de_self = self\<rparr>"

text \<open>The connections of a table \<open>E\<close> with the sets that the application keeps for them.\<close>

definition app_abs :: "(int \<Rightarrow> ptr option) \<Rightarrow> (io_cb, ptr) thread_pool \<Rightarrow> service_app \<Rightarrow> (io_cb, ptr, unit) dns_state" where
  "app_abs E tp app =
     \<lparr>ds_conns = (\<lambda>fd. map_option (\<lambda>p. \<lparr>dc_fd = fd, dc_param = dn_param app p\<rparr>) (E fd)), ds_sub = dn_sub app, ds_pool = tp, ds_out = ()\<rparr>"

definition svc_abs :: "service \<Rightarrow> (io_cb, ptr, unit) dns_state" where
  "svc_abs s = app_abs (conn_entry (fst s)) (snd s) (ss_app (fst s))"

definition sole :: "(int \<Rightarrow> ptr option) \<Rightarrow> int \<Rightarrow> ptr \<Rightarrow> bool" where
  "sole E fd p \<longleftrightarrow> (\<forall>fd'. fd' \<noteq> fd \<longrightarrow> E fd' \<noteq> Some p)"

lemma soleD: "sole E fd p \<Longrightarrow> fd' \<noteq> fd \<Longrightarrow> E fd' = Some q \<Longrightarrow> q \<noteq> p"
  by (auto simp: sole_def)

lemma app_abs_fields [simp]:
  "ds_conns (app_abs E tp app) fd = map_option (\<lambda>p. \<lparr>dc_fd = fd, dc_param = dn_param app p\<rparr>) (E fd)"
  "ds_sub (app_abs E tp app) = dn_sub app" "ds_pool (app_abs E tp app) = tp"
  by (simp_all add: app_abs_def)

text \<open>Two states with the same connections and subscriptions.\<close>

lemma app_abs_eqI:
  fixes s :: "(io_cb, ptr, unit) dns_state"
  assumes "\<And>fd. ds_conns s fd = ds_conns (app_abs E tp app) fd" "ds_sub s = dn_sub app" "ds_pool s = tp"
  shows "s = app_abs E tp app"
proof -
  have "ds_conns s = ds_conns (app_abs E tp app)" using assms(1) by (rule ext)
  then show ?thesis using assms(2,3) by (simp add: app_abs_def)
qed

lemma app_abs_route: "app_abs E tp (app\<lparr>dn_route := rt\<rparr>) = app_abs E tp app"
  by (simp add: app_abs_def)

lemma abs_connect:
  assumes "E fd = None" "sole E fd p"
  shows "dns_step (svc_env W cb self) (app_abs E tp app) (app_abs (E(fd \<mapsto> p)) tp (app\<lparr>dn_param := (dn_param app)(p \<mapsto> [])\<rparr>))"
proof -
  let ?s = "app_abs E tp app"
  have "?s\<lparr>ds_conns := (ds_conns ?s)(fd \<mapsto> create_subscribe \<lparr>dc_fd = fd, dc_param = None\<rparr>)\<rparr> =
      app_abs (E(fd \<mapsto> p)) tp (app\<lparr>dn_param := (dn_param app)(p \<mapsto> [])\<rparr>)" (is "?s' = ?t")
  proof (rule app_abs_eqI)
    fix fd'
    show "ds_conns ?s' fd' = ds_conns ?t fd'" using soleD [OF assms(2)] by (cases "E fd'") (auto simp: create_subscribe_def)
  qed simp_all
  moreover have "dns_step (svc_env W cb self) ?s ?s'" using assms(1) by (intro dns_connect) simp
  ultimately show ?thesis by simp
qed

lemma abs_request:
  assumes "E fd = Some p" "sole E fd p" "dn_param app p \<noteq> None"
  shows "(dns_step (svc_env W cb self))\<^sup>*\<^sup>* (app_abs E tp app) (app_abs E tp (dns_effect W p fd m app))"
proof (cases "fst m = ID_GetRouteRequest")
  case True
  let ?s = "app_abs E tp app" and ?c = "\<lparr>dc_fd = fd, dc_param = dn_param app p\<rparr>" and ?app = "dns_effect W p fd m app"
  obtain c' sl' out msgid where g: "get_route (de_parse (svc_env W cb self)) (de_serialize (svc_env W cb self)) (snd m) (dn_route app) ?c (ds_sub ?s) = (c', sl', out, msgid)"
    by (metis prod_cases4)
  have c': "c' = \<lparr>dc_fd = fd, dc_param = dn_param ?app p\<rparr>" "sl' = dn_sub ?app"
    using g assms(3) True by (auto simp: get_route_def svc_env_def app_abs_def dns_effect_def Let_def split: if_splits)
  have other: "dn_param ?app q = dn_param app q" if "q \<noteq> p" for q using that by (auto simp: dns_effect_def Let_def split: option.splits)
  have "ds_conns ?s fd = Some ?c" using assms(1) by (simp add: app_abs_def)
  then have "dns_step (svc_env W cb self) ?s (?s\<lparr>ds_conns := (ds_conns ?s)(fd \<mapsto> c'), ds_sub := sl'\<rparr>)" using g by (rule dns_request)
  moreover have "?s\<lparr>ds_conns := (ds_conns ?s)(fd \<mapsto> c'), ds_sub := sl'\<rparr> = app_abs E tp ?app" (is "?s' = ?t")
  proof (rule app_abs_eqI)
    fix fd'
    show "ds_conns ?s' fd' = ds_conns ?t fd'" using assms(1) soleD [OF assms(2)] other c'(1) by (cases "E fd'") auto
  qed (use c'(2) in simp_all)
  ultimately show ?thesis by simp
qed (simp add: dns_effect_def)

lemma abs_requests:
  assumes "E fd = Some p" "sole E fd p" "dn_param app p \<noteq> None"
  shows "(dns_step (svc_env W cb self))\<^sup>*\<^sup>* (app_abs E tp app) (app_abs E tp (fold (dns_effect W p fd) ms app)) \<and> dn_param (fold (dns_effect W p fd) ms app) p \<noteq> None"
  using assms(3)
proof (induction ms arbitrary: app)
  case (Cons m ms)
  have "dn_param (dns_effect W p fd m app) p \<noteq> None" using dns_effect_param Cons.prems by blast
  note ih = Cons.IH [OF this]
  show ?case using rtranclp_trans [OF abs_request [OF assms(1,2) Cons.prems, of W cb self tp m] conjunct1 [OF ih]] conjunct2 [OF ih] by simp
qed simp

lemma abs_close:
  assumes "E fd = Some p" "sole E fd p" "dn_param app p \<noteq> None"
  shows "dns_step (svc_env W cb self) (app_abs E tp app) (app_abs (E(fd := None)) tp (dns_leave p fd app))"
proof -
  let ?s = "app_abs E tp app" and ?c = "\<lparr>dc_fd = fd, dc_param = dn_param app p\<rparr>"
  obtain ms where ms: "dn_param app p = Some ms" using assms(3) by blast
  have "ds_conns ?s fd = Some ?c" using assms(1) by (simp add: app_abs_def)
  moreover have "clear_subscribe ?c (ds_sub ?s) = Inr (?c\<lparr>dc_param := None\<rparr>, dn_sub (dns_leave p fd app))"
    using ms by (simp add: clear_subscribe_def app_abs_def dns_leave_def)
  ultimately have "dns_step (svc_env W cb self) ?s (?s\<lparr>ds_conns := (ds_conns ?s)(fd := None), ds_sub := dn_sub (dns_leave p fd app)\<rparr>)" by (rule dns_close)
  moreover have "?s\<lparr>ds_conns := (ds_conns ?s)(fd := None), ds_sub := dn_sub (dns_leave p fd app)\<rparr> = app_abs (E(fd := None)) tp (dns_leave p fd app)" (is "?s' = ?t")
  proof (rule app_abs_eqI)
    fix fd'
    show "ds_conns ?s' fd' = ds_conns ?t fd'" using soleD [OF assms(2)] by (cases "E fd'") (auto simp: dns_leave_def)
  qed simp_all
  ultimately show ?thesis by simp
qed

lemma send_nothing: "send_all (\<lambda>_ _ w. Inr w) plan w = Inr w"
  by (induction plan) auto

lemma abs_push:
  fixes lp :: "(io_cb, ptr) event_loop"
  assumes "push_wf (sl_push (dn_sub app))"
  shows "dns_step (svc_env W cb self) (app_abs E tp app)
    (app_abs E tp (app\<lparr>dn_sub := (dn_sub app)\<lparr>sl_push := filter (\<lambda>p. fst p \<notin> get_listen_fds lp) (sl_push (dn_sub app))\<rparr>\<rparr>))"
proof -
  let ?s = "app_abs E tp app" and ?sl = "(dn_sub app)\<lparr>sl_push := filter (\<lambda>p. fst p \<notin> get_listen_fds lp) (sl_push (dn_sub app))\<rparr>"
  have "push_change_task (de_send (svc_env W cb self)) (ds_conns ?s) (dn_route app) lp (ds_sub ?s, ds_out ?s) = Inr (?sl, ())"
    using assms by (simp add: push_change_task_plan svc_env_def send_nothing)
  then have "dns_step (svc_env W cb self) ?s (?s\<lparr>ds_sub := ?sl, ds_out := ()\<rparr>)" by (rule dns_push)
  then show ?thesis by (simp add: app_abs_def)
qed

lemma abs_publish:
  assumes "publish cb self mods (dn_sub app) tp = Inr (sl', tp')"
  shows "dns_step (svc_env W cb self) (app_abs E tp app) (app_abs E tp' (app\<lparr>dn_sub := sl'\<rparr>))"
  using dns_publish [of "svc_env W cb self" mods "app_abs E tp app" sl' tp'] assms by (simp add: svc_env_def app_abs_def)

section \<open>Every step is a run of the abstract service\<close>

lemma entry_sole: "svc_inv l ss \<Longrightarrow> conn_entry ss fd = Some p \<Longrightarrow> sole (conn_entry ss) fd p"
  using entry_unique by (auto simp: sole_def)

text \<open>Closing the connection \<open>p\<close>, in a state \<open>w\<close> that differs from \<open>ss\<close> in this connection only.\<close>

lemma close_step:
  assumes inv: "svc_inv l ss" and e: "conn_entry ss fd = Some p"
    and w: "others_kept p fd ss w" "bufs_ok w" "conn_live p fd l w" "dn_param (ss_app w) p \<noteq> None"
      "\<And>q. q \<noteq> p \<Longrightarrow> dn_param (ss_app w) q = dn_param (ss_app ss) q" and run: "clean_conn (service_handlers W) p w = Inr ss'"
  shows "svc_inv l ss'" "ss_app ss' = dns_leave p fd (ss_app w)" "conn_entry ss' = (conn_entry ss)(fd := None)"
proof -
  obtain ms where ms: "dn_param (ss_app w) p = Some ms" using w(4) by blast
  let ?s1 = "w\<lparr>ss_app := dns_leave p fd (ss_app w)\<rparr>"
  have cb: "ss_conn_close_cb w = Some Clear_Subscribe" using w(1) svc_invD(5) [OF inv] by (simp add: others_kept_def)
  have hook: "run_hook (service_handlers W) (ss_conn_close_cb w) p w = Inr ?s1"
    unfolding cb using clear_hook_ok [OF w(2,3) ms] by (simp add: run_hook_def service_handlers_def)
  have k: "kept p w ?s1" by (rule kept_app [OF w(2)])
  have s1: "bufs_ok ?s1" "conn_live p fd l ?s1" using k w(3) by (auto simp: kept_def)
  have c: "bufs_ok ss'" "closed p fd l ss'" "ss_app ss' = dns_leave p fd (ss_app w)" using clean_conn_hook [OF w(3) hook k] run by auto
  have o: "others_kept p fd ss ss'"
    by (rule others_trans [OF w(1) others_trans [OF others_app others_clean [OF hook s1 run]]])
  show "ss_app ss' = dns_leave p fd (ss_app w)" by (rule c(3))
  have fd: "0 \<le> fd" using entry_range [OF e] by simp
  show "conn_entry ss' = (conn_entry ss)(fd := None)" using entry_closed [OF c(2)] entry_other [OF o fd] by (auto simp: fun_eq_iff)
  show "svc_inv l ss'"
  proof (rule svc_inv_one [OF inv o c(1) fd])
    show "conn_entry ss fd' \<noteq> Some p" if "fd' \<noteq> fd" for fd' using entry_unique [OF inv e] that by blast
    show "dn_param (ss_app ss') q = dn_param (ss_app ss) q" if "q \<noteq> p" for q using w(5) [OF that] that by (simp add: c(3) dns_leave_def)
  qed (use entry_closed [OF c(2)] in simp)
qed

lemma close_refines:
  assumes "svc_inv l ss" "conn_entry ss fd = Some p" "others_kept p fd ss w" "bufs_ok w" "conn_live p fd l w" "ss_app w = ss_app ss"
    "clean_conn (service_handlers W) p w = Inr ss'"
  shows "svc_inv l ss' \<and> (dns_step (svc_env W cb self))\<^sup>*\<^sup>* (svc_abs (ss, tp)) (svc_abs (ss', tp))"
proof -
  have prm: "dn_param (ss_app ss) p \<noteq> None" using svc_invD(8) [OF assms(1,2)] .
  note c = close_step [OF assms(1-5) _ _ assms(7), unfolded assms(6), OF prm refl]
  have "dns_step (svc_env W cb self) (svc_abs (ss, tp)) (svc_abs (ss', tp))"
    unfolding svc_abs_def fst_conv snd_conv c(2,3) by (rule abs_close [OF assms(2) entry_sole [OF assms(1,2)] prm])
  then show ?thesis using c(1) by blast
qed

lemma accept_refines:
  assumes inv: "svc_inv l ss" and fd: "0 \<le> fd" "fd < int (length (ss_conns ss))" "conn_entry ss fd = None"
    and run: "tcp_conn_new (service_handlers W) fd l ss = Inr (p, ss')"
  shows "svc_inv l ss' \<and> (dns_step (svc_env W cb self))\<^sup>*\<^sup>* (svc_abs (ss, tp)) (svc_abs (ss', tp))"
proof -
  note d = svc_invD [OF inv]
  obtain lp where lp: "ss_loops ss l = Some lp" "loop_inv lp" using d(2) by blast
  let ?x = "(ss_app ss)\<lparr>dn_param := (dn_param (ss_app ss))(ss_next ss \<mapsto> [])\<rparr>"
  have hook: "run_hook (service_handlers W) (ss_conn_start_cb ss) (ss_next ss) (with_conn fd l ss) = Inr ((with_conn fd l ss)\<lparr>ss_app := ?x\<rparr>)"
    using d(4) by (simp add: run_hook_def service_handlers_def on_create_subscribe_def conn_view_def store_view_def create_subscribe_def with_conn_def)
  note new = tcp_conn_new_hook [OF d(1) lp fd(1,2) hook]
  note oth = new_conn_others [OF d(1) lp fd(1,2) hook]
  have p: "p = ss_next ss" and ss': "ss' = (with_conn fd l ss)\<lparr>ss_app := ?x, ss_loops := (ss_loops ss)(l \<mapsto> add_io_event fd Conn_Rd EPOLLIN (ss_next ss) lp),
      ss_conns := (ss_conns ss)[nat fd := Some (Some (ss_next ss))], ss_curr_conns := ss_curr_conns ss + 1\<rparr>"
    using trans [OF run [symmetric] new(1)] by (simp_all only: sum.inject prod.inject)
  have o: "others_kept p fd ss ss'" unfolding p ss' by (rule oth)
  have out: "out_inv p fd l (ss_sent ss fd) ss'" "slot ss' (p, In) = None" unfolding p ss' by (rule new(2), rule new(3))
  have app: "ss_app ss' = (ss_app ss)\<lparr>dn_param := (dn_param (ss_app ss))(p \<mapsto> [])\<rparr>" by (simp add: ss' p)
  have entry: "conn_entry ss' fd = Some p" using fd(1,2) by (simp add: ss' p conn_entry_def)
  have fresh: "conn_entry ss fd' \<noteq> Some p" for fd'
    using entry_live [OF inv, of fd' p] conn_live_heap [of p fd' l ss] bufs_okD(4) [OF d(1), of p] p by auto
  have "svc_inv l ss'"
    by (rule svc_inv_one [OF inv o _ fd(1)]) (use out entry app fresh in \<open>auto simp: slot_head_def out_inv_def\<close>)
  moreover have "conn_entry ss' = (conn_entry ss)(fd \<mapsto> p)" using entry entry_other [OF o fd(1)] by (auto simp: fun_eq_iff)
  moreover have "sole (conn_entry ss) fd p" using fresh by (simp add: sole_def)
  ultimately show ?thesis
    unfolding svc_abs_def fst_conv snd_conv app using abs_connect [where E = "conn_entry ss" and fd = fd and p = p] fd(3) by auto
qed

lemma effects_other: "q \<noteq> p \<Longrightarrow> dn_param (fold (dns_effect W p fd) ms app) q = dn_param app q"
  by (induction ms arbitrary: app) (simp_all add: dns_effect_def Let_def split: option.split)

lemma read_refines:
  assumes inv: "svc_inv l ss" and e: "conn_entry ss fd = Some p"
    and inp: "0 < n" "n + int (length (slot_bytes ss (p, In))) \<le> 8388608" "sys_read (nat n) as = Inr (Rd bs)" "length bs = nat n"
      "parse_frames (slot_bytes ss (p, In) @ bs) = (ms, rest, er)"
    and fits: "length (slot_bytes ss (p, Out)) + length (concat (map (dns_answer W (dn_route (ss_app ss))) ms)) \<le> 8388608"
    and run: "conn_do_read (service_handlers W) (Some n) as p ss = Inr ss'"
  shows "svc_inv l ss' \<and> (dns_step (svc_env W cb self))\<^sup>*\<^sup>* (svc_abs (ss, tp)) (svc_abs (ss', tp))"
proof -
  note d = svc_invD [OF inv]
  obtain stream where out: "out_inv p fd l stream ss" using d(6) [OF e] by blast
  let ?app = "fold (dns_effect W p fd) ms (ss_app ss)"
  note rd = dns_do_read [OF out d(3,5) d(8) [OF e] d(7) [OF e] inp fits, unfolded run sum.case]
  have o: "others_kept p fd ss ss'" "bufs_ok ss'" using rd by blast+
  have fd: "0 \<le> fd" using entry_range [OF e] by simp
  have alone: "conn_entry ss fd' \<noteq> Some p" if "fd' \<noteq> fd" for fd' using entry_unique [OF inv e] that by blast
  note steps = abs_requests [OF e entry_sole [OF inv e] d(8) [OF e], of W cb self tp ms]
  show ?thesis
  proof (cases "er = Malformed")
    case True
    then have c: "closed p fd l ss'" "ss_app ss' = dns_leave p fd ?app" using rd by simp_all
    have "svc_inv l ss'"
      by (rule svc_inv_one [OF inv o fd alone]) (use entry_closed [OF c(1)] effects_other [of _ p W fd ms "ss_app ss"] in \<open>auto simp: c(2) dns_leave_def\<close>)
    moreover have "conn_entry ss' = (conn_entry ss)(fd := None)" using entry_closed [OF c(1)] entry_other [OF o(1) fd] by (auto simp: fun_eq_iff)
    then have "dns_step (svc_env W cb self) (app_abs (conn_entry ss) tp ?app) (svc_abs (ss', tp))"
      unfolding svc_abs_def fst_conv snd_conv c(2) using abs_close [OF e entry_sole [OF inv e] conjunct2 [OF steps], of W cb self tp] by simp
    ultimately show ?thesis using rtranclp.rtrancl_into_rtrancl [OF conjunct1 [OF steps]] by (simp add: svc_abs_def)
  next
    case False
    then have c: "out_inv p fd l (stream @ concat (map (dns_answer W (dn_route (ss_app ss))) ms)) ss'" "ss_conns ss' = ss_conns ss" "ss_app ss' = ?app" "slot_head ss' (p, In) = 0"
      using rd by simp_all
    have entry: "conn_entry ss' = conn_entry ss" using entry_cong [OF c(2)] .
    have "dn_param (ss_app ss') p \<noteq> None" unfolding c(3) using steps by blast
    then have "svc_inv l ss'"
      by (intro svc_inv_one [OF inv o fd alone]) (use c(1,4) e entry effects_other [of _ p W fd ms "ss_app ss"] in \<open>auto simp: c(3)\<close>)
    then show ?thesis using steps unfolding svc_abs_def fst_conv snd_conv c(3) entry by blast
  qed
qed

lemma write_refines:
  assumes inv: "svc_inv l ss" and e: "conn_entry ss fd = Some p" and run: "conn_do_write (service_handlers W) answers p ss = Inr ss'"
  shows "svc_inv l ss' \<and> (dns_step (svc_env W cb self))\<^sup>*\<^sup>* (svc_abs (ss, tp)) (svc_abs (ss', tp))"
proof -
  note d = svc_invD [OF inv]
  obtain stream where out: "out_inv p fd l stream ss" using d(6) [OF e] by blast
  from out run show ?thesis
  proof (cases rule: conn_do_write_cases)
    case flushed
    have ok: "bufs_ok ss'" using flushed(1) by (simp add: out_inv_def)
    have entry: "conn_entry ss' = conn_entry ss" using entry_cong [OF flushed(5)] .
    have fd: "0 \<le> fd" using entry_range [OF e] by simp
    have alone: "conn_entry ss fd' \<noteq> Some p" if "fd' \<noteq> fd" for fd' using entry_unique [OF inv e] that by blast
    have own: "conn_entry ss' fd = Some p \<and> (\<exists>stream. out_inv p fd l stream ss') \<and> slot_head ss' (p, In) = 0 \<and> dn_param (ss_app ss') p \<noteq> None"
      unfolding entry flushed(3,4) using e flushed(1) d(7,8) [OF e] by blast
    have "svc_inv l ss'" by (rule svc_inv_one [OF inv flushed(2) ok fd alone _ disjI2 [OF own]]) (simp_all add: flushed(3))
    then show ?thesis using entry by (simp add: svc_abs_def flushed(3))
  next
    case (failed s0)
    then show ?thesis by (intro close_refines [OF inv e])
  qed
qed

lemma push_refines:
  assumes inv: "svc_inv l ss" and wf: "push_wf (sl_push (dn_sub (ss_app ss)))"
    and fits: "\<forall>fd p. conn_entry ss fd = Some p \<longrightarrow>
      length (slot_bytes ss (p, Out)) + length (pushed_bytes W (dn_route (ss_app ss)) (sl_push (dn_sub (ss_app ss))) fd) \<le> 8388608"
    and run: "push_task W l ss = Inr ss'"
  shows "svc_inv l ss' \<and> (dns_step (svc_env W cb self))\<^sup>*\<^sup>* (svc_abs (ss, tp)) (svc_abs (ss', tp))"
proof -
  note d = svc_invD [OF inv]
  obtain lp where lp: "ss_loops ss l = Some lp" "loop_inv lp" using d(2) by blast
  define stream where "stream fd = (case conn_entry ss fd of None \<Rightarrow> [] | Some p \<Rightarrow> ss_sent ss fd @ slot_bytes ss (p, Out))" for fd
  have "out_inv p fd l (stream fd) ss" if "conn_entry ss fd = Some p" for fd p
    using d(6) [OF that] that by (auto simp: stream_def out_inv_def)
  then have conns: "\<forall>fd p. fd \<in> UNIV \<and> conn_entry ss fd = Some p \<longrightarrow> out_inv p fd l (stream fd) ss" by blast
  let ?app = "(ss_app ss)\<lparr>dn_sub := (dn_sub (ss_app ss))\<lparr>sl_push := filter (\<lambda>p. fst p \<notin> get_listen_fds lp) (sl_push (dn_sub (ss_app ss)))\<rparr>\<rparr>"
  have f: "\<forall>fd p. fd \<in> get_listen_fds lp \<and> conn_entry ss fd = Some p \<longrightarrow>
      length (slot_bytes ss (p, Out)) + length (pushed_bytes W (dn_route (ss_app ss)) (sl_push (dn_sub (ss_app ss))) fd) \<le> 8388608"
    "\<forall>fd p. fd \<in> UNIV \<and> conn_entry ss fd = Some p \<longrightarrow> length (slot_bytes ss (p, Out)) \<le> 8388608" using fits by fastforce+
  obtain s' where s': "only_sends ss s'" "ss' = s'\<lparr>ss_app := ?app\<rparr>"
      "\<forall>fd p. fd \<in> UNIV \<and> conn_entry ss fd = Some p \<longrightarrow> out_inv p fd l (stream fd @ (if fd \<in> get_listen_fds lp then pushed_bytes W (dn_route (ss_app ss)) (sl_push (dn_sub (ss_app ss))) fd else [])) s'"
    using push_task_streams [OF lp(1) d(1) wf subset_UNIV conns f, unfolded run sum.case] by blast
  have entry: "conn_entry ss' = conn_entry ss" using s'(1,2) by (intro entry_cong) (simp add: only_sends_def)
  have e: "bufs_ok ss'" "slot_head ss' = slot_head s'" using s'(1,2) bufs_ok_cong [of ss' s'] by (simp_all add: only_sends_def)
  have "(\<exists>stream. out_inv p fd l stream ss') \<and> slot_head ss' (p, In) = 0 \<and> dn_param (ss_app ss') p \<noteq> None" if "conn_entry ss fd = Some p" for fd p
    using s' that d(7,8) [OF that] e(2) by (auto simp: out_inv_app only_sends_def)
  moreover have "\<exists>lp. ss_loops ss' l = Some lp \<and> loop_inv lp" using s'(1,2) lp by (auto simp: only_sends_def)
  ultimately have "svc_inv l ss'" unfolding svc_inv_def entry using e(1) s'(1,2) d(3-5) by (simp add: only_sends_def)
  moreover have "dns_step (svc_env W cb self) (svc_abs (ss, tp)) (svc_abs (ss', tp))"
    unfolding svc_abs_def fst_conv snd_conv entry using abs_push [OF wf, where E = "conn_entry ss" and lp = lp] by (simp add: s'(2))
  ultimately show ?thesis by blast
qed

lemma svc_step_refines:
  assumes "svc_step W cb self l s s'" "svc_inv l (fst s)" "sub_inv (svc_abs s)"
  shows "svc_inv l (fst s') \<and> (dns_step (svc_env W cb self))\<^sup>*\<^sup>* (svc_abs s) (svc_abs s')"
  using assms
proof (induction rule: svc_step.induct)
  case (svc_accept fd ss p ss' tp)
  then show ?case using accept_refines [of l ss fd W p ss' cb self tp] by simp
next
  case (svc_read ss fd p n as bs ms rest e ss' tp)
  then show ?case using read_refines [of l ss fd p n as bs ms rest e W ss' cb self tp] by simp
next
  case (svc_write ss fd p answers ss' tp)
  then show ?case using write_refines [of l ss fd p W answers ss' cb self tp] by simp
next
  case (svc_hangup ss fd p ss' tp)
  then have "bufs_ok ss" "conn_live p fd l ss" using svc_invD(1) entry_live by simp_all
  then show ?case using close_refines [of l ss fd p ss W ss' cb self tp] svc_hangup by simp
next
  case (svc_publish mods ss tp sl' tp')
  have "svc_inv l (ss\<lparr>ss_app := (ss_app ss)\<lparr>dn_sub := sl'\<rparr>\<rparr>)" using svc_publish(2) by (auto simp: svc_inv_app)
  then show ?case using abs_publish [OF svc_publish(1)] by (auto simp: svc_abs_def conn_entry_app)
next
  case (svc_push ss ss' tp)
  have "push_wf (sl_push (dn_sub (ss_app ss)))" using sub_invD(3) [OF svc_push(4)] by (simp add: svc_abs_def)
  then show ?case using push_refines [of l ss W ss' cb self tp] svc_push by simp
next
  case (svc_reload ss tp rt)
  have "svc_inv l (ss\<lparr>ss_app := (ss_app ss)\<lparr>dn_route := rt\<rparr>\<rparr>)" using svc_reload(1) by (auto simp: svc_inv_app)
  then show ?case by (simp add: svc_abs_def conn_entry_app app_abs_route)
qed

text \<open>The service starts without clients and subscriptions.\<close>

definition svc_start :: "ptr \<Rightarrow> (io_cb, ptr) thread_pool \<Rightarrow> service \<Rightarrow> bool" where
  "svc_start l tp s \<longleftrightarrow>
     svc_inv l (fst s) \<and> snd s = tp \<and> (\<forall>fd. conn_entry (fst s) fd = None) \<and> dn_sub (ss_app (fst s)) = SubscribeList_new"

lemma svc_start_abs: "svc_start l tp s \<Longrightarrow> svc_abs s = dns_start tp ()"
  by (simp add: svc_start_def svc_abs_def app_abs_def dns_start_def fun_eq_iff)

interpretation svc_run: step_system "svc_start l tp" "svc_step W cb self l" "\<lambda>s. svc_inv l (fst s) \<and> dns_reach (svc_env W cb self) tp () (svc_abs s)" for W cb self l tp
proof unfold_locales
  fix s assume "svc_start l tp s"
  then show "svc_inv l (fst s) \<and> dns_reach (svc_env W cb self) tp () (svc_abs s)"
    using svc_start_abs by (simp add: dns_reach_def) (simp add: svc_start_def)
next
  fix s s'
  assume s: "svc_inv l (fst s) \<and> dns_reach (svc_env W cb self) tp () (svc_abs s)" and step: "svc_step W cb self l s s'"
  have "sub_inv (svc_abs s)" by (rule sub_inv_reach [OF conjunct2 [OF s]])
  with svc_step_refines [OF step] s show "svc_inv l (fst s') \<and> dns_reach (svc_env W cb self) tp () (svc_abs s')"
    unfolding dns_reach_def by (meson rtranclp_trans)
qed

section \<open>Properties\<close>


lemma dns_boot_start: "svc_start 1 demo_pool (dns_boot, demo_pool)"
proof -
  have n: "slot dns_boot k = None" for k by (simp add: slot_def dns_boot_def)
  have "bufs_ok dns_boot" unfolding bufs_ok_def n by (simp add: dns_boot_def)
  moreover have e: "conn_entry dns_boot fd = None" for fd
    by (cases "0 \<le> fd \<and> fd < 10") (auto simp: conn_entry_def dns_boot_def nat_less_iff)
  ultimately show ?thesis by (simp add: svc_start_def svc_inv_def) (simp add: dns_boot_def loop_inv_new)
qed


end
