(* ===== verification/Udp.thy ===== *)
theory Udp
  imports Message Event_Loop Reactor_Buf
begin

text \<open>
  Datagram endpoints: \<^verbatim>\<open>lars_reactor/include/udp_server.h\<close>, \<^verbatim>\<open>lars_reactor/src/udp_server.cpp\<close>,
  \<^verbatim>\<open>lars_reactor/include/udp_client.h\<close> and \<^verbatim>\<open>lars_reactor/src/udp_client.cpp\<close>. The answers of \<open>recvfrom\<close> and \<open>sendto\<close> are
  arguments; a datagram longer than the buffer is cut off by the kernel, and a shorter one leaves the old bytes behind it. The bytes
  given to \<open>sendto\<close> are collected with their destination (\<open>None\<close>: the connected peer).
\<close>

section \<open>Model\<close>

type_synonym sockaddr = "u32 \<times> 16 word"

datatype recv_ans = Dgram sockaddr bytes | Rc_err errno

record ('cb, 'u, 'x) udp_client =
  ud_sockfd :: int
  ud_loop :: ptr
  ud_read_buf :: bytes
  ud_router :: "('cb, 'u) msg_router"
  ud_sent :: "(sockaddr option \<times> bytes) list"
  ud_app :: 'x

record ('cb, 'u, 'x) udp_server = "('cb, 'u, 'x) udp_client" +
  ud_client_addr :: sockaddr

text \<open>\<open>recvfrom\<close> into \<open>_read_buf\<close>: the number of bytes stored and the new contents.\<close>

definition recv_into :: "bytes \<Rightarrow> bytes \<Rightarrow> nat \<times> bytes" where
  "recv_into dg buf = (let pkg = take (length buf) dg in (length pkg, pkg @ drop (length pkg) buf))"

definition bad_dgram :: "msg_head \<Rightarrow> nat \<Rightarrow> bool" where
  "bad_dgram head pkg_len \<longleftrightarrow> bad_len (hd_msglen head) \<or> sint (hd_msglen head) + MESSAGE_HEAD_LEN \<noteq> int pkg_len"

definition dgram_body :: "msg_head \<Rightarrow> bytes \<Rightarrow> bytes" where
  "dgram_body head buf = take (nat (sint (hd_msglen head))) (drop (nat MESSAGE_HEAD_LEN) buf)"

fun udp_server_do_read ::
  "('cb \<Rightarrow> bytes \<Rightarrow> i32 \<Rightarrow> i32 \<Rightarrow> unit \<Rightarrow> 'u option \<Rightarrow> ('cb, 'u, 'x) udp_server \<Rightarrow> ('cb, 'u, 'x) udp_server res) \<Rightarrow>
   recv_ans list \<Rightarrow> ('cb, 'u, 'x) udp_server \<Rightarrow> ('cb, 'u, 'x) udp_server res" where
  "udp_server_do_read run [] us = Inl Blocked"
| "udp_server_do_read run (Rc_err e # answers) us =
     (if e = EINTR then udp_server_do_read run answers us else Inr us)"
| "udp_server_do_read run (Dgram addr dg # answers) us =
     (let (pkg_len, buf) = recv_into dg (ud_read_buf us); us = us\<lparr>ud_read_buf := buf, ud_client_addr := addr\<rparr> in
      bindR (head_of buf) (\<lambda>head.
      if bad_dgram head pkg_len then udp_server_do_read run answers us
      else
        bindR (router_call run (hd_msgid head) (hd_msglen head) (dgram_body head buf) () (ud_router us) us) (\<lambda>us.
        udp_server_do_read run answers us)))"

fun udp_client_do_read ::
  "('cb \<Rightarrow> bytes \<Rightarrow> i32 \<Rightarrow> i32 \<Rightarrow> unit \<Rightarrow> 'u option \<Rightarrow> ('cb, 'u, 'x) udp_client \<Rightarrow> ('cb, 'u, 'x) udp_client res) \<Rightarrow>
   recv_ans list \<Rightarrow> ('cb, 'u, 'x) udp_client \<Rightarrow> ('cb, 'u, 'x) udp_client res" where
  "udp_client_do_read run [] us = Inl Blocked"
| "udp_client_do_read run (Rc_err e # answers) us =
     (if e = EINTR then udp_client_do_read run answers us else Inr us)"
| "udp_client_do_read run (Dgram addr dg # answers) us =
     (let (pkg_len, buf) = recv_into dg (ud_read_buf us); us = us\<lparr>ud_read_buf := buf\<rparr> in
      bindR (head_of buf) (\<lambda>head.
      if bad_dgram head pkg_len then udp_client_do_read run answers us
      else
        bindR (router_call run (hd_msgid head) (hd_msglen head) (dgram_body head buf) () (ud_router us) us) (\<lambda>us.
        udp_client_do_read run answers us)))"

text \<open>
  \<open>send_message\<close>. \<open>_write_buf\<close> has \<open>MESSAGE_LENGTH_LIMIT\<close> bytes, for the head and the body; \<open>sent\<close> is the answer of \<open>sendto\<close>.
\<close>

definition udp_frame :: "bytes \<Rightarrow> i32 \<Rightarrow> i32 \<Rightarrow> bytes res" where
  "udp_frame data msglen msgid =
     bindR (ensure (0 \<le> sint msglen \<and> MESSAGE_HEAD_LEN + sint msglen \<le> MESSAGE_LENGTH_LIMIT \<and> nat (sint msglen) \<le> length data) Out_Of_Bounds) (\<lambda>_.
     Inr (head_bytes \<lparr>hd_msgid = msgid, hd_msglen = msglen\<rparr> @ take (nat (sint msglen)) data))"

definition udp_server_send_message ::
  "int option \<Rightarrow> bytes \<Rightarrow> i32 \<Rightarrow> i32 \<Rightarrow> ('cb, 'u, 'x) udp_server \<Rightarrow> (int \<times> ('cb, 'u, 'x) udp_server) res" where
  "udp_server_send_message sent data msglen msgid us =
     (if MESSAGE_LENGTH_LIMIT < sint msglen then Inr (-1, us)
      else
        bindR (udp_frame data msglen msgid) (\<lambda>out.
        case sent of
          None \<Rightarrow> Inr (-1, us)
        | Some ret \<Rightarrow> Inr (ret, us\<lparr>ud_sent := ud_sent us @ [(Some (ud_client_addr us), out)]\<rparr>)))"

definition udp_client_send_message ::
  "int option \<Rightarrow> bytes \<Rightarrow> i32 \<Rightarrow> i32 \<Rightarrow> ('cb, 'u, 'x) udp_client \<Rightarrow> (int \<times> ('cb, 'u, 'x) udp_client) res" where
  "udp_client_send_message sent data msglen msgid us =
     (if MESSAGE_LENGTH_LIMIT < sint msglen then Inr (-1, us)
      else
        bindR (udp_frame data msglen msgid) (\<lambda>out.
        case sent of
          None \<Rightarrow> Inr (-1, us)
        | Some ret \<Rightarrow> Inr (ret, us\<lparr>ud_sent := ud_sent us @ [(None, out)]\<rparr>)))"

definition udp_add_msg_router ::
  "i32 \<Rightarrow> 'cb \<Rightarrow> 'u \<Rightarrow> ('cb, 'u, 'x, 'm) udp_client_scheme \<Rightarrow> ('cb, 'u, 'x, 'm) udp_client_scheme" where
  "udp_add_msg_router msgid cb user_data us = us\<lparr>ud_router := snd (register_msg_router msgid cb user_data (ud_router us))\<rparr>"

text \<open>The constructors, with the results of the socket calls, the raw contents of the buffer and the loop to register with.\<close>

definition udp_server_new ::
  "int \<Rightarrow> int \<Rightarrow> bytes \<Rightarrow> 'io \<Rightarrow> 'p \<Rightarrow> ptr \<Rightarrow> 'x \<Rightarrow> ('io, 'p) event_loop \<Rightarrow> (('cb, 'u, 'x) udp_server \<times> ('io, 'p) event_loop) res" where
  "udp_server_new sockfd bind_ret raw server_read_callback self loop app l =
     bindR (ensure (sockfd \<noteq> -1) Exit_1) (\<lambda>_.
     bindR (ensure (0 \<le> bind_ret) Exit_1) (\<lambda>_.
     Inr (\<lparr>ud_sockfd = sockfd, ud_loop = loop, ud_read_buf = raw, ud_router = msg_router_new, ud_sent = [], ud_app = app,
           ud_client_addr = (0, 0)\<rparr>,
          add_io_event sockfd server_read_callback EPOLLIN self l)))"

definition udp_client_new ::
  "int \<Rightarrow> int \<Rightarrow> bytes \<Rightarrow> 'io \<Rightarrow> 'p \<Rightarrow> ptr \<Rightarrow> 'x \<Rightarrow> ('io, 'p) event_loop \<Rightarrow> (('cb, 'u, 'x) udp_client \<times> ('io, 'p) event_loop) res" where
  "udp_client_new sockfd connect_ret raw client_read_callback self loop app l =
     bindR (ensure (sockfd \<noteq> -1) Exit_1) (\<lambda>_.
     bindR (ensure (connect_ret \<noteq> -1) Exit_1) (\<lambda>_.
     Inr (\<lparr>ud_sockfd = sockfd, ud_loop = loop, ud_read_buf = raw, ud_router = msg_router_new, ud_sent = [], ud_app = app\<rparr>,
          add_io_event sockfd client_read_callback EPOLLIN self l)))"

text \<open>The destructors: the descriptor is removed from the loop (and closed).\<close>

definition udp_delete :: "('cb, 'u, 'x, 'm) udp_client_scheme \<Rightarrow> ('io, 'p) event_loop \<Rightarrow> ('io, 'p) event_loop" where
  "udp_delete us l = del_io_event (ud_sockfd us) l"

section \<open>Services\<close>

text \<open>
  The contract of the callbacks of a datagram server: they return and keep the invariant, whatever the body of the message is. The
  receive loop then keeps the invariant for every sequence of datagrams, of any length and contents.
\<close>

lemma recv_into_length: "length (snd (recv_into dg buf)) = length buf"
  by (simp add: recv_into_def Let_def)

locale udp_service =
  fixes run :: "'cb \<Rightarrow> bytes \<Rightarrow> i32 \<Rightarrow> i32 \<Rightarrow> unit \<Rightarrow> 'u option \<Rightarrow> ('cb, 'u, 'x) udp_server \<Rightarrow> ('cb, 'u, 'x) udp_server res"
    and inv :: "('cb, 'u, 'x) udp_server \<Rightarrow> bool"
  assumes buffer: "inv us \<Longrightarrow> 8 \<le> length (ud_read_buf us)"
    and receive: "inv us \<Longrightarrow> length buf = length (ud_read_buf us) \<Longrightarrow> inv (us\<lparr>ud_read_buf := buf, ud_client_addr := a\<rparr>)"
    and callback: "inv us \<Longrightarrow> mr_router (ud_router us) msgid = Some cb \<Longrightarrow>
      \<exists>us'. run cb body len msgid () (mr_args (ud_router us) msgid) us = Inr us' \<and> inv us'"
begin

lemma do_read_total:
  "inv us \<Longrightarrow> case udp_server_do_read run answers us of Inl e \<Rightarrow> e = Blocked | Inr us' \<Rightarrow> inv us'"
proof (induction answers arbitrary: us)
  case (Cons ans answers)
  show ?case
  proof (cases ans)
    case (Rc_err e)
    then show ?thesis using Cons by simp
  next
    case (Dgram a dg)
    obtain n buf where r: "recv_into dg (ud_read_buf us) = (n, buf)" by fastforce
    then have l: "length buf = length (ud_read_buf us)" using recv_into_length [of dg "ud_read_buf us"] by simp
    let ?us = "us\<lparr>ud_read_buf := buf, ud_client_addr := a\<rparr>"
    have inv: "inv ?us" by (rule receive [OF Cons.prems l])
    have "\<not> length buf < 8" using buffer [OF Cons.prems] l by simp
    then obtain h where h: "head_of buf = Inr h" using head_of_short head_of_fault by (metis sum.exhaust)
    let ?call = "router_call run (hd_msgid h) (hd_msglen h) (dgram_body h buf) () (ud_router ?us) ?us"
    have "\<exists>v. ?call = Inr v \<and> inv v"
      using callback [OF inv, of "hd_msgid h"] inv by (cases "mr_router (ud_router us) (hd_msgid h)") (simp_all add: router_call_def)
    then obtain v where v: "?call = Inr v" "inv v" by blast
    have "udp_server_do_read run (ans # answers) us =
        (if bad_dgram h n then udp_server_do_read run answers ?us else udp_server_do_read run answers v)"
      using h v(1) by (simp add: Dgram r)
    then show ?thesis using Cons.IH [OF inv] Cons.IH [OF v(2)] by simp
  qed
qed simp

end

section \<open>Properties\<close>

text \<open>The message a datagram carries: it must be exactly one frame.\<close>

definition dgram_msg :: "bytes \<Rightarrow> (i32 \<times> bytes) option" where
  "dgram_msg dg =
     (case head_of dg of
        Inl _ \<Rightarrow> None
      | Inr h \<Rightarrow> if bad_len (hd_msglen h) \<or> length dg \<noteq> 8 + nat (sint (hd_msglen h)) then None else Some (hd_msgid h, drop 8 dg))"

lemma dgram_msg_frame: "int (length (snd m)) \<le> MESSAGE_LENGTH_LIMIT \<Longrightarrow> dgram_msg (frame m) = Some m"
proof -
  assume l: "int (length (snd m)) \<le> MESSAGE_LENGTH_LIMIT"
  then have "sint (of_nat (length (snd m)) :: i32) = int (length (snd m))"
    by (intro sint_of_nat_small) (simp add: MESSAGE_LENGTH_LIMIT_def MESSAGE_HEAD_LEN_def)
  then show ?thesis using l by (simp add: dgram_msg_def frame_def bad_len_def)
qed

definition udp_handlers_ok ::
  "('cb \<Rightarrow> bytes \<Rightarrow> i32 \<Rightarrow> i32 \<Rightarrow> unit \<Rightarrow> 'u option \<Rightarrow> ('cb, 'u, 'x) udp_server \<Rightarrow> ('cb, 'u, 'x) udp_server res) \<Rightarrow>
   ('cb \<Rightarrow> 'u option \<Rightarrow> sockaddr \<Rightarrow> i32 \<times> bytes \<Rightarrow> 'x \<Rightarrow> 'x) \<Rightarrow> fault set \<Rightarrow> bool" where
  "udp_handlers_ok run act faults \<longleftrightarrow>
     (\<forall>cb body msgid u us.
        (case run cb body (of_nat (length body)) msgid () u us of
           Inl e \<Rightarrow> e \<in> faults
         | Inr us' \<Rightarrow> ud_router us' = ud_router us \<and> length (ud_read_buf us') = length (ud_read_buf us) \<and>
             ud_app us' = act cb u (ud_client_addr us) (msgid, body) (ud_app us)))"

definition udp_step ::
  "('cb \<Rightarrow> 'u option \<Rightarrow> sockaddr \<Rightarrow> i32 \<times> bytes \<Rightarrow> 'x \<Rightarrow> 'x) \<Rightarrow> ('cb, 'u) msg_router \<Rightarrow> sockaddr \<times> bytes \<Rightarrow> 'x \<Rightarrow> 'x" where
  "udp_step act r d x =
     (case dgram_msg (snd d) of
        None \<Rightarrow> x
      | Some m \<Rightarrow> (case mr_router r (fst m) of None \<Rightarrow> x | Some cb \<Rightarrow> act cb (mr_args r (fst m)) (fst d) m x))"

text \<open>How the receiver sees a datagram that fits its buffer, whatever an earlier one left there.\<close>

lemma recv_into_fits: "length dg \<le> length buf \<Longrightarrow> recv_into dg buf = (length dg, dg @ drop (length dg) buf)"
  by (simp add: recv_into_def)

lemma dgram_checks:
  assumes "length dg \<le> length buf" "8 \<le> length buf"
  shows "\<exists>h. head_of (dg @ drop (length dg) buf) = Inr h \<and>
    (case dgram_msg dg of
       None \<Rightarrow> bad_dgram h (length dg)
     | Some m \<Rightarrow> \<not> bad_dgram h (length dg) \<and> hd_msgid h = fst m \<and> hd_msglen h = of_nat (length (snd m)) \<and>
         dgram_body h (dg @ drop (length dg) buf) = snd m)"
proof (cases "head_of dg")
  case (Inl e)
  then have short: "length dg < 8" using head_of_fault head_of_short by blast
  have "\<not> length (dg @ drop (length dg) buf) < 8" using assms by simp
  then obtain h where h: "head_of (dg @ drop (length dg) buf) = Inr h"
    using head_of_short head_of_fault by (metis sum.exhaust)
  have "bad_dgram h (length dg)" using short by (auto simp: bad_dgram_def bad_len_def MESSAGE_HEAD_LEN_def)
  then show ?thesis using h Inl by (simp add: dgram_msg_def)
next
  case (Inr h)
  let ?n = "nat (sint (hd_msglen h))"
  show ?thesis
  proof (cases "bad_len (hd_msglen h) \<or> length dg \<noteq> 8 + ?n")
    case True
    then have "bad_dgram h (length dg)" by (auto simp: bad_dgram_def bad_len_def MESSAGE_HEAD_LEN_def)
    then show ?thesis using True head_of_prefix [OF Inr] Inr by (auto simp: dgram_msg_def)
  next
    case False
    then have s: "0 \<le> sint (hd_msglen h)" "length dg = 8 + ?n" "\<not> bad_len (hd_msglen h)" by (auto simp: bad_len_def)
    then have "(of_nat ?n :: i32) = of_int (sint (hd_msglen h))" by simp
    then have "of_nat ?n = hd_msglen h" by simp
    moreover have "dgram_body h (dg @ drop (length dg) buf) = drop 8 dg" using s(2) by (simp add: dgram_body_def MESSAGE_HEAD_LEN_def)
    moreover have "\<not> bad_dgram h (length dg)" using s by (simp add: bad_dgram_def MESSAGE_HEAD_LEN_def)
    ultimately show ?thesis using s head_of_prefix [OF Inr] Inr by (simp add: dgram_msg_def)
  qed
qed

text \<open>One round of the loop, for a datagram that fits the buffer.\<close>

lemma udp_round:
  assumes "length dg \<le> length (ud_read_buf us)" "8 \<le> length (ud_read_buf us)"
  obtains buf where "length buf = length (ud_read_buf us)"
    "udp_server_do_read run (Dgram a dg # answers) us =
      (let us = us\<lparr>ud_read_buf := buf, ud_client_addr := a\<rparr> in
       case dgram_msg dg of
         None \<Rightarrow> udp_server_do_read run answers us
       | Some m \<Rightarrow> bindR (router_call run (fst m) (of_nat (length (snd m))) (snd m) () (ud_router us) us) (udp_server_do_read run answers))"
proof
  let ?buf = "dg @ drop (length dg) (ud_read_buf us)"
  show "length ?buf = length (ud_read_buf us)" using assms(1) by simp
  obtain h where "head_of ?buf = Inr h"
      "case dgram_msg dg of None \<Rightarrow> bad_dgram h (length dg)
       | Some m \<Rightarrow> \<not> bad_dgram h (length dg) \<and> hd_msgid h = fst m \<and> hd_msglen h = of_nat (length (snd m)) \<and> dgram_body h ?buf = snd m"
    using dgram_checks [OF assms] by blast
  then show "udp_server_do_read run (Dgram a dg # answers) us =
      (let us = us\<lparr>ud_read_buf := ?buf, ud_client_addr := a\<rparr> in
       case dgram_msg dg of
         None \<Rightarrow> udp_server_do_read run answers us
       | Some m \<Rightarrow> bindR (router_call run (fst m) (of_nat (length (snd m))) (snd m) () (ud_router us) us) (udp_server_do_read run answers))"
    by (cases "dgram_msg dg") (simp_all add: recv_into_fits [OF assms(1)])
qed

lemma udp_call_ok:
  assumes "udp_handlers_ok run act faults" "dgram_msg dg = Some m"
  shows "case router_call run (fst m) (of_nat (length (snd m))) (snd m) () (ud_router us) us of
      Inl e \<Rightarrow> e \<in> faults
    | Inr us' \<Rightarrow> ud_router us' = ud_router us \<and> length (ud_read_buf us') = length (ud_read_buf us) \<and>
        ud_app us' = udp_step act (ud_router us) (ud_client_addr us, dg) (ud_app us)"
proof (cases "mr_router (ud_router us) (fst m)")
  case (Some cb)
  have "case run cb (snd m) (of_nat (length (snd m))) (fst m) () (mr_args (ud_router us) (fst m)) us of
      Inl e \<Rightarrow> e \<in> faults
    | Inr us' \<Rightarrow> ud_router us' = ud_router us \<and> length (ud_read_buf us') = length (ud_read_buf us) \<and>
        ud_app us' = act cb (mr_args (ud_router us) (fst m)) (ud_client_addr us) (fst m, snd m) (ud_app us)"
    using assms(1) unfolding udp_handlers_ok_def by blast
  then show ?thesis using Some assms(2) by (simp add: router_call_def udp_step_def split: sum.splits)
qed (simp add: router_call_def udp_step_def assms(2))

text \<open>
  For datagrams that fit the receive buffer, \<open>do_read\<close> runs the registered callback once for each datagram that is
  exactly one message, in order of arrival and with its sender as the client address; datagrams that are too short, too long for their
  head or have an illegal length are dropped, even though a short datagram leaves bytes of an earlier one in the buffer. It then stops at the
  first error other than an interruption.
\<close>

theorem udp_dispatches:
  assumes "udp_handlers_ok run act faults" "8 \<le> length (ud_read_buf us)" "\<forall>d \<in> set dgs. length (snd d) \<le> length (ud_read_buf us)"
    and "err \<noteq> EINTR"
  shows "case udp_server_do_read run (map (\<lambda>(a, d). Dgram a d) dgs @ [Rc_err err]) us of
      Inl e \<Rightarrow> e \<in> faults
    | Inr us' \<Rightarrow> ud_app us' = fold (udp_step act (ud_router us)) dgs (ud_app us)"
  using assms(2,3)
proof (induction dgs arbitrary: us)
  case Nil
  then show ?case using assms(4) by simp
next
  case (Cons d dgs)
  obtain a dg where d: "d = (a, dg)" by (cases d)
  let ?rest = "map (\<lambda>(a, d). Dgram a d) dgs @ [Rc_err err]"
  have fit: "length dg \<le> length (ud_read_buf us)" using Cons.prems(2) d by simp
  obtain buf where len: "length buf = length (ud_read_buf us)" and round: "udp_server_do_read run (Dgram a dg # ?rest) us =
      (let us = us\<lparr>ud_read_buf := buf, ud_client_addr := a\<rparr> in
       case dgram_msg dg of
         None \<Rightarrow> udp_server_do_read run ?rest us
       | Some m \<Rightarrow> bindR (router_call run (fst m) (of_nat (length (snd m))) (snd m) () (ud_router us) us) (udp_server_do_read run ?rest))"
    by (rule udp_round [OF fit Cons.prems(1)])
  let ?us = "us\<lparr>ud_read_buf := buf, ud_client_addr := a\<rparr>"
  have IH: "case udp_server_do_read run ?rest v of Inl e \<Rightarrow> e \<in> faults | Inr us' \<Rightarrow> ud_app us' = fold (udp_step act (ud_router v)) dgs (ud_app v)"
    if "length (ud_read_buf v) = length (ud_read_buf us)" for v
    using Cons.IH [of v] Cons.prems that by simp
  show ?case
  proof (cases "dgram_msg dg")
    case None
    then have eq: "udp_server_do_read run (map (\<lambda>(a, d). Dgram a d) (d # dgs) @ [Rc_err err]) us = udp_server_do_read run ?rest ?us"
      using round by (simp add: d del: udp_server_do_read.simps)
    have "udp_step act (ud_router us) d = (\<lambda>x. x)" using None by (simp add: udp_step_def d fun_eq_iff)
    then show ?thesis unfolding eq using IH [of ?us] len by (simp split: sum.splits)
  next
    case (Some m)
    let ?call = "router_call run (fst m) (of_nat (length (snd m))) (snd m) () (ud_router ?us) ?us"
    have eq: "udp_server_do_read run (map (\<lambda>(a, d). Dgram a d) (d # dgs) @ [Rc_err err]) us = bindR ?call (udp_server_do_read run ?rest)"
      using round Some by (simp add: d del: udp_server_do_read.simps)
    note call = udp_call_ok [OF assms(1) Some, of ?us]
    show ?thesis
    proof (cases ?call)
      case (Inl e)
      then show ?thesis unfolding eq using call by simp
    next
      case (Inr v)
      then have v: "length (ud_read_buf v) = length (ud_read_buf us)" "ud_router v = ud_router us" "ud_app v = udp_step act (ud_router us) d (ud_app us)"
        using call len d by simp_all
      show ?thesis unfolding eq Inr bindR_Inr using IH [OF v(1)] v by (simp split: sum.splits)
    qed
  qed
qed

definition demo_udp :: "(unit, unit, (sockaddr \<times> i32 \<times> bytes) list) udp_server" where
  "demo_udp = \<lparr>ud_sockfd = 3, ud_loop = 0, ud_read_buf = replicate 65527 0, ud_router = snd (register_msg_router 7 () () msg_router_new),
     ud_sent = [], ud_app = [], ud_client_addr = (0, 0)\<rparr>"

definition demo_udp_run :: "unit \<Rightarrow> bytes \<Rightarrow> i32 \<Rightarrow> i32 \<Rightarrow> unit \<Rightarrow> unit option \<Rightarrow> (unit, unit, (sockaddr \<times> i32 \<times> bytes) list) udp_server \<Rightarrow>
    (unit, unit, (sockaddr \<times> i32 \<times> bytes) list) udp_server res" where
  "demo_udp_run cb body len msgid conn u us = Inr (us\<lparr>ud_app := ud_app us @ [(ud_client_addr us, msgid, body)]\<rparr>)"

theorem udp_dispatches_witness:
  "case udp_server_do_read demo_udp_run [Dgram (1, 2) (frame (7, [4, 5])), Dgram (1, 3) [9], Rc_err EAGAIN] demo_udp of
     Inl e \<Rightarrow> False
   | Inr us' \<Rightarrow> ud_app us' = [((1, 2), 7, [4, 5])]"
proof -
  have h: "udp_handlers_ok demo_udp_run (\<lambda>cb u a m x. x @ [(a, m)]) {}" by (simp add: udp_handlers_ok_def demo_udp_run_def)
  have b: "8 \<le> length (ud_read_buf demo_udp)" "\<forall>d \<in> set [((1, 2), frame (7, [4, 5])), ((1, 3), [9])]. length (snd d) \<le> length (ud_read_buf demo_udp)"
    by (simp_all add: demo_udp_def frame_def)
  have m: "dgram_msg (frame (7, [4, 5])) = Some (7, [4, 5])" "dgram_msg [9] = None"
    by (simp_all add: dgram_msg_frame MESSAGE_LENGTH_LIMIT_def MESSAGE_HEAD_LEN_def) (simp add: dgram_msg_def)
  have r: "mr_router (ud_router demo_udp) 7 = Some ()" "ud_app demo_udp = []"
    by (simp_all add: demo_udp_def register_msg_router_def)
  from udp_dispatches [OF h b, of EAGAIN] show ?thesis by (simp add: udp_step_def m r split: sum.splits)
qed

end
