(* ===== verification/Protobuf_Loop.thy ===== *)
theory Protobuf_Loop
  imports Protobuf
begin

text \<open>
  Termination of the generated parsers. The loop of \<open>MergePartialFromCodedStream\<close> is a \<open>for (;;)\<close>, and \<open>merge_loop\<close> runs it with
  a number of rounds bounded by the length of the input. \<open>merge_run\<close> is the loop itself, without a bound, as a big-step relation: it relates an
  input to a result only when the loop ends. The two agree for every parser of \<^verbatim>\<open>lars.pb.cc\<close>, so the loops end on every input, malformed
  ones included, and the bound cuts nothing off. What the library has to promise for that is \<open>wire_progress\<close>: reading a tag takes
  bytes off the input and no other read gives bytes back.
\<close>

section \<open>The unbounded loop\<close>

inductive merge_run :: "wire \<Rightarrow> (u32 \<Rightarrow> bytes \<Rightarrow> 'm \<Rightarrow> bool \<times> 'm \<times> bytes) \<Rightarrow> bytes \<Rightarrow> 'm \<Rightarrow> bool \<times> 'm \<Rightarrow> bool"
  for W switch where
  run_end: "w_ReadTag W bs = (0, at_end, rest) \<Longrightarrow> merge_run W switch bs m (at_end, m)"
| run_failure: "w_ReadTag W bs = (tag, at_end, xs) \<Longrightarrow> tag \<noteq> 0 \<Longrightarrow> switch tag xs m = (False, m', rest) \<Longrightarrow> merge_run W switch bs m (False, m')"
| run_field: "w_ReadTag W bs = (tag, at_end, xs) \<Longrightarrow> tag \<noteq> 0 \<Longrightarrow> switch tag xs m = (True, m', rest) \<Longrightarrow>
    merge_run W switch rest m' r \<Longrightarrow> merge_run W switch bs m r"

inductive_cases merge_runE: "merge_run W switch bs m r"

definition wire_progress :: "wire \<Rightarrow> bool" where
  "wire_progress W \<longleftrightarrow>
     (\<forall>bs tag e rest. w_ReadTag W bs = (tag, e, rest) \<and> tag \<noteq> 0 \<longrightarrow> length rest < length bs) \<and>
     (\<forall>bs v rest. w_ReadInt32 W bs = Some (v, rest) \<longrightarrow> length rest \<le> length bs) \<and>
     (\<forall>bs v rest. w_ReadUInt32 W bs = Some (v, rest) \<longrightarrow> length rest \<le> length bs) \<and>
     (\<forall>bs v rest. w_ReadBool W bs = Some (v, rest) \<longrightarrow> length rest \<le> length bs) \<and>
     (\<forall>bs body rest. w_OpenMessage W bs = Some (body, rest) \<longrightarrow> length rest \<le> length bs) \<and>
     (\<forall>tag bs rest. w_SkipField W tag bs = Some rest \<longrightarrow> length rest \<le> length bs)"

section \<open>Loops whose rounds shrink the input\<close>

locale shrinking_loop =
  fixes W :: wire and switch :: "u32 \<Rightarrow> bytes \<Rightarrow> 'm \<Rightarrow> bool \<times> 'm \<times> bytes"
  assumes tag_shrinks: "w_ReadTag W bs = (tag, e, rest) \<Longrightarrow> tag \<noteq> 0 \<Longrightarrow> length rest < length bs"
    and case_shrinks: "switch tag bs m = (True, m', rest) \<Longrightarrow> length rest \<le> length bs"
begin

lemma merge_loop_run: "length bs < n \<Longrightarrow> merge_run W switch bs m (merge_loop W switch n bs m)"
proof (induction n arbitrary: bs m)
  case (Suc n)
  obtain tag e xs where t: "w_ReadTag W bs = (tag, e, xs)" by (metis prod_cases3)
  obtain ok m' rest where c: "switch tag xs m = (ok, m', rest)" by (metis prod_cases3)
  show ?case
  proof (cases "tag = 0 \<or> \<not> ok")
    case True
    then show ?thesis using t c by (auto intro: merge_run.intros)
  next
    case False
    then have "length rest < n" using tag_shrinks [OF t] case_shrinks [of tag xs m m' rest] c Suc.prems by simp
    then have "merge_run W switch rest m' (merge_loop W switch n rest m')" by (rule Suc.IH)
    then show ?thesis using t c False by (auto intro: run_field)
  qed
qed simp

lemma merge_run_unique: "merge_run W switch bs m r \<Longrightarrow> merge_run W switch bs m r' \<Longrightarrow> r = r'"
proof (induction arbitrary: r' rule: merge_run.induct)
  case (run_end bs at_end rest m)
  from run_end.prems run_end.hyps show ?case by - (erule merge_runE, simp_all)
next
  case (run_failure bs tag at_end xs m m' rest)
  from run_failure.prems run_failure.hyps show ?case by - (erule merge_runE, simp_all)
next
  case (run_field bs tag at_end xs m m' rest r)
  from run_field.prems have "merge_run W switch rest m' r'" using run_field.hyps(1-3) by - (erule merge_runE, simp_all)
  then show ?case by (rule run_field.IH)
qed

lemma merge_run_iff: "length bs < n \<Longrightarrow> merge_run W switch bs m r \<longleftrightarrow> r = merge_loop W switch n bs m"
  using merge_loop_run merge_run_unique by blast

end

locale progressing_wire =
  fixes W :: wire
  assumes progress: "wire_progress W"
begin

lemma tag_progress: "w_ReadTag W bs = (tag, e, rest) \<Longrightarrow> tag \<noteq> 0 \<Longrightarrow> length rest < length bs"
  using progress unfolding wire_progress_def by blast

lemma prim_progress:
  "read_prim (w_ReadInt32 W) updi bs m = (True, m', rest) \<Longrightarrow> length rest \<le> length bs"
  "read_prim (w_ReadUInt32 W) updu bs m = (True, m', rest) \<Longrightarrow> length rest \<le> length bs"
  "read_prim (w_ReadBool W) updb bs m = (True, m', rest) \<Longrightarrow> length rest \<le> length bs"
  using progress unfolding wire_progress_def by (auto simp: read_prim_def split: option.splits)

lemma message_progress: "read_message W mrg store bs s = (True, m', rest) \<Longrightarrow> length rest \<le> length bs"
  using progress unfolding wire_progress_def by (auto simp: read_message_def split: option.splits prod.splits)

lemma skip_progress: "skip_field W tag bs m = (True, m', rest) \<Longrightarrow> length rest \<le> length bs"
  using progress unfolding wire_progress_def by (auto simp: skip_field_def split: option.splits)

lemmas progress_laws = tag_progress prim_progress message_progress skip_progress

end

sublocale progressing_wire \<subseteq> hi_loop: shrinking_loop W "HostInfo_switch W"
  by unfold_locales (auto simp: HostInfo_switch_def split: if_splits intro: progress_laws)

sublocale progressing_wire \<subseteq> grq_loop: shrinking_loop W "GetRouteRequest_switch W"
  by unfold_locales (auto simp: GetRouteRequest_switch_def split: if_splits intro: progress_laws)

sublocale progressing_wire \<subseteq> grs_loop: shrinking_loop W "GetRouteResponse_switch W"
  by unfold_locales (auto simp: GetRouteResponse_switch_def split: if_splits intro: progress_laws)

sublocale progressing_wire \<subseteq> hcr_loop: shrinking_loop W "HostCallResult_switch W"
  by unfold_locales (auto simp: HostCallResult_switch_def split: if_splits intro: progress_laws)

sublocale progressing_wire \<subseteq> rsr_loop: shrinking_loop W "ReportStatusRequest_switch W"
  by unfold_locales (auto simp: ReportStatusRequest_switch_def split: if_splits intro: progress_laws)

sublocale progressing_wire \<subseteq> ghq_loop: shrinking_loop W "GetHostRequest_switch W"
  by unfold_locales (auto simp: GetHostRequest_switch_def split: if_splits intro: progress_laws)

sublocale progressing_wire \<subseteq> ghs_loop: shrinking_loop W "GetHostResponse_switch W"
  by unfold_locales (auto simp: GetHostResponse_switch_def split: if_splits intro: progress_laws)

sublocale progressing_wire \<subseteq> rpq_loop: shrinking_loop W "ReportRequest_switch W"
  by unfold_locales (auto simp: ReportRequest_switch_def split: if_splits intro: progress_laws)

context progressing_wire
begin

lemma HostInfo_run: "merge_run W (HostInfo_switch W) bs m r \<longleftrightarrow> r = HostInfo_MergePartial W bs m"
  by (simp add: HostInfo_MergePartial_def hi_loop.merge_run_iff [of bs "Suc (length bs)"])

lemma GetRouteRequest_run: "merge_run W (GetRouteRequest_switch W) bs m r \<longleftrightarrow> r = GetRouteRequest_MergePartial W bs m"
  by (simp add: GetRouteRequest_MergePartial_def grq_loop.merge_run_iff [of bs "Suc (length bs)"])

lemma GetRouteResponse_run: "merge_run W (GetRouteResponse_switch W) bs m r \<longleftrightarrow> r = GetRouteResponse_MergePartial W bs m"
  by (simp add: GetRouteResponse_MergePartial_def grs_loop.merge_run_iff [of bs "Suc (length bs)"])

lemma HostCallResult_run: "merge_run W (HostCallResult_switch W) bs m r \<longleftrightarrow> r = HostCallResult_MergePartial W bs m"
  by (simp add: HostCallResult_MergePartial_def hcr_loop.merge_run_iff [of bs "Suc (length bs)"])

lemma ReportStatusRequest_run: "merge_run W (ReportStatusRequest_switch W) bs m r \<longleftrightarrow> r = ReportStatusRequest_MergePartial W bs m"
  by (simp add: ReportStatusRequest_MergePartial_def rsr_loop.merge_run_iff [of bs "Suc (length bs)"])

lemma GetHostRequest_run: "merge_run W (GetHostRequest_switch W) bs m r \<longleftrightarrow> r = GetHostRequest_MergePartial W bs m"
  by (simp add: GetHostRequest_MergePartial_def ghq_loop.merge_run_iff [of bs "Suc (length bs)"])

lemma GetHostResponse_run: "merge_run W (GetHostResponse_switch W) bs m r \<longleftrightarrow> r = GetHostResponse_MergePartial W bs m"
  by (simp add: GetHostResponse_MergePartial_def ghs_loop.merge_run_iff [of bs "Suc (length bs)"])

lemma ReportRequest_run: "merge_run W (ReportRequest_switch W) bs m r \<longleftrightarrow> r = ReportRequest_MergePartial W bs m"
  by (simp add: ReportRequest_MergePartial_def rpq_loop.merge_run_iff [of bs "Suc (length bs)"])

lemmas parser_runs = HostInfo_run GetRouteRequest_run GetRouteResponse_run HostCallResult_run ReportStatusRequest_run GetHostRequest_run GetHostResponse_run ReportRequest_run

end

section \<open>The documented encoding\<close>

lemma unvarint_shrinks: "unvarint bs = Some (n, rest) \<Longrightarrow> length rest < length bs"
  by (induction bs arbitrary: n rest) (force split: if_splits)+

lemma cut_shrinks: "cut n bs = Some (body, rest) \<Longrightarrow> length rest \<le> length bs"
  by (auto simp: cut_def split: if_splits)

lemma skip128_shrinks: "skip128 tag bs = Some rest \<Longrightarrow> length rest \<le> length bs"
  by (fastforce simp: skip128_def Let_def split: if_splits option.splits dest: unvarint_shrinks cut_shrinks)

lemma base128_progress: "wire_progress base128"
proof -
  have "length rest < length bs" if "w_ReadTag base128 bs = (tag, e, rest)" "tag \<noteq> 0" for bs tag e rest
    using that by (auto simp: base128_def split: if_splits option.splits dest: unvarint_shrinks)
  moreover have "length rest \<le> length bs" if "w_OpenMessage base128 bs = Some (body, rest)" for bs body rest
    using that by (fastforce simp: base128_def split: option.splits dest: unvarint_shrinks cut_shrinks)
  moreover have "w_SkipField base128 = skip128" by (simp add: base128_def)
  moreover have "length rest \<le> length bs" if "map_option (map_prod f (\<lambda>r. r)) (unvarint bs) = Some (v, rest)" for f :: "nat \<Rightarrow> 'a" and bs v rest
    using that by (auto dest!: unvarint_shrinks)
  ultimately show ?thesis
    unfolding wire_progress_def by (auto simp: base128_def dest: skip128_shrinks unvarint_shrinks intro: less_imp_le)
qed

interpretation b128_progress: progressing_wire base128
  by unfold_locales (rule base128_progress)

section \<open>Properties\<close>

text \<open>
  C21 [parsers_terminate]. Whatever the bytes are, every generated parser returns, and with exactly one result: the unbounded loop of
  \<open>MergePartialFromCodedStream\<close> ends for every message type, every input and every object it merges into, and gives what the model computes in
  at most one round more than there are bytes.
\<close>

theorem parsers_terminate:
  assumes "wire_progress W"
  shows "(merge_run W (HostInfo_switch W) bs m1 r1 \<longleftrightarrow> r1 = HostInfo_MergePartial W bs m1) \<and>
    (merge_run W (GetRouteRequest_switch W) bs m2 r2 \<longleftrightarrow> r2 = GetRouteRequest_MergePartial W bs m2) \<and>
    (merge_run W (GetRouteResponse_switch W) bs m3 r3 \<longleftrightarrow> r3 = GetRouteResponse_MergePartial W bs m3) \<and>
    (merge_run W (HostCallResult_switch W) bs m4 r4 \<longleftrightarrow> r4 = HostCallResult_MergePartial W bs m4) \<and>
    (merge_run W (ReportStatusRequest_switch W) bs m5 r5 \<longleftrightarrow> r5 = ReportStatusRequest_MergePartial W bs m5) \<and>
    (merge_run W (GetHostRequest_switch W) bs m6 r6 \<longleftrightarrow> r6 = GetHostRequest_MergePartial W bs m6) \<and>
    (merge_run W (GetHostResponse_switch W) bs m7 r7 \<longleftrightarrow> r7 = GetHostResponse_MergePartial W bs m7) \<and>
    (merge_run W (ReportRequest_switch W) bs m8 r8 \<longleftrightarrow> r8 = ReportRequest_MergePartial W bs m8)"
  by (simp add: progressing_wire.parser_runs [OF progressing_wire.intro [OF assms]])

theorem parsers_terminate_witness:
  "\<forall>r. merge_run base128 (HostInfo_switch base128) [8, 5, 255] HostInfo_default r \<longleftrightarrow> r = (False, \<lparr>pb_ip = 5, pb_port = 0\<rparr>)"
proof -
  have "HostInfo_MergePartial base128 [8, 5, 255] HostInfo_default = (False, \<lparr>pb_ip = 5, pb_port = 0\<rparr>)" by code_simp
  then show ?thesis using parsers_terminate [OF base128_progress] by metis
qed

end
