(* ===== verification/Pb_Accessors.thy ===== *)
theory Pb_Accessors
  imports Protobuf
begin

text \<open>
  The accessors of the generated message classes (\<^verbatim>\<open>lars.pb.h\<close>) and the operations of \<^verbatim>\<open>lars.pb.cc\<close> on whole objects, \<open>Clear\<close>, \<open>Swap\<close> and the move assignment. The getter of a
  scalar field is the selector of the record. An accessor that returns a pointer into the message takes what the caller does through it as an argument. Arenas are
  not in use: \<open>GetArenaNoVirtual()\<close> returns a null pointer in every class.

  Three locales are the contracts that the generator gives for scalar fields, repeated fields and optional sub-messages; every field of the schema is an instance of one.
\<close>

section \<open>Contracts\<close>

locale pb_field =
  fixes get :: "'m \<Rightarrow> 'v" and set_field :: "'v \<Rightarrow> 'm \<Rightarrow> 'm" and clear :: "'m \<Rightarrow> 'm" and zero :: 'v
  assumes get_set: "get (set_field v m) = v"
    and set_set: "set_field v (set_field w m) = set_field v m"
    and set_get: "set_field (get m) m = m"
    and clear_zero: "clear m = set_field zero m"
begin

lemma get_clear: "get (clear m) = zero"
  by (simp add: clear_zero get_set)

lemma set_noop_iff: "set_field v m = m \<longleftrightarrow> get m = v"
  by (metis get_set set_get)

lemma set_after_clear: "set_field v (clear m) = set_field v m"
  by (simp add: clear_zero set_set)

lemma set_inj: "set_field v m = set_field w m \<longleftrightarrow> v = w"
  by (metis get_set)

end

text \<open>A repeated field: \<open>at_index\<close> and \<open>change\<close> are undefined outside of the range, \<open>add\<close> appends a default element and hands it to the caller.\<close>

locale pb_repeated =
  fixes size_of :: "'m \<Rightarrow> int" and at_index :: "int \<Rightarrow> 'm \<Rightarrow> 's res" and change :: "int \<Rightarrow> ('s \<Rightarrow> 's) \<Rightarrow> 'm \<Rightarrow> 'm res"
    and add :: "('s \<Rightarrow> 's) \<Rightarrow> 'm \<Rightarrow> 'm" and clear :: "'m \<Rightarrow> 'm" and zero :: 's
  assumes size_clear: "size_of (clear m) = 0"
    and size_add: "size_of (add f m) = size_of m + 1"
    and at_last: "at_index (size_of m) (add f m) = Inr (f zero)"
    and at_before: "i < size_of m \<Longrightarrow> at_index i (add f m) = at_index i m"
    and at_range: "at_index i m = Inl Out_Of_Bounds \<longleftrightarrow> i < 0 \<or> size_of m \<le> i"
    and change_at: "at_index i m = Inr s \<Longrightarrow> \<exists>m'. change i f m = Inr m' \<and> size_of m' = size_of m \<and> at_index i m' = Inr (f s)
      \<and> (\<forall>j. j \<noteq> i \<longrightarrow> at_index j m' = at_index j m)"
begin

text \<open>Adding copies of the elements of a list, one after the other.\<close>

lemma size_fold: "size_of (fold (\<lambda>x. add (\<lambda>_. x)) xs m) = size_of m + int (length xs)"
  by (induction xs arbitrary: m) (simp_all add: size_add)

lemma size_nonneg: "0 \<le> size_of m"
  using at_range [of "size_of m" "add (\<lambda>s. s) m"] by (simp add: at_last size_add)

lemma at_fold_before: "i < size_of m \<Longrightarrow> at_index i (fold (\<lambda>x. add (\<lambda>_. x)) xs m) = at_index i m"
  by (induction xs arbitrary: m) (simp_all add: size_add at_before)

lemma at_fold: "n < length xs \<Longrightarrow> at_index (size_of m + int n) (fold (\<lambda>x. add (\<lambda>_. x)) xs m) = Inr (xs ! n)"
proof (induction xs arbitrary: m n)
  case (Cons x xs)
  show ?case
  proof (cases n)
    case 0
    then show ?thesis by (simp add: at_fold_before size_add at_last)
  next
    case (Suc k)
    have "at_index (size_of (add (\<lambda>_. x) m) + int k) (fold (\<lambda>x. add (\<lambda>_. x)) xs (add (\<lambda>_. x) m)) = Inr (xs ! k)"
      using Cons Suc by simp
    then show ?thesis using Suc by (simp add: size_add add.assoc)
  qed
qed simp

text \<open>What was added after \<open>clear\<close> is what a loop over \<open>0, \<dots>, size - 1\<close> reads.\<close>

lemma read_back:
  "map (\<lambda>i. at_index (int i) (fold (\<lambda>x. add (\<lambda>_. x)) xs (clear m))) [0..<nat (size_of (fold (\<lambda>x. add (\<lambda>_. x)) xs (clear m)))] = map Inr xs"
  by (rule nth_equalityI) (use at_fold [of _ xs "clear m"] in \<open>simp_all add: size_fold size_clear\<close>)

end

text \<open>An optional sub-message, which the message owns.\<close>

locale pb_optional =
  fixes has :: "'m \<Rightarrow> bool" and get :: "'m \<Rightarrow> 's" and change :: "('s \<Rightarrow> 's) \<Rightarrow> 'm \<Rightarrow> 'm"
    and release :: "'m \<Rightarrow> 's option \<times> 'm" and set_allocated :: "'s option \<Rightarrow> 'm \<Rightarrow> 'm" and clear :: "'m \<Rightarrow> 'm" and zero :: 's
  assumes get_absent: "\<not> has m \<Longrightarrow> get m = zero"
    and change_get: "has (change f m) \<and> get (change f m) = f (get m)"
    and release_gives: "release m = (if has m then Some (get m) else None, clear m)"
    and clear_has: "\<not> has (clear m)"
    and allocated: "has (set_allocated p m) = (p \<noteq> None)" "p = Some s \<Longrightarrow> get (set_allocated p m) = s"
    and allocated_again: "set_allocated p (set_allocated q m) = set_allocated p m" "set_allocated p (clear m) = set_allocated p m"
    and allocated_same: "set_allocated (if has m then Some (get m) else None) m = m"
begin

lemma get_clear: "get (clear m) = zero"
  by (simp add: get_absent clear_has)

text \<open>Releasing a sub-message and handing it back restores the message.\<close>

lemma release_return: "release m = (p, m') \<Longrightarrow> set_allocated p m' = m"
  using allocated_same [of m] by (auto simp: release_gives allocated_again)

lemma allocated_release: "fst (release (set_allocated p m)) = p"
  by (cases p) (simp_all add: release_gives allocated)

end

section \<open>HostInfo\<close>

definition HostInfo_clear_ip :: "HostInfo \<Rightarrow> HostInfo" where
  "HostInfo_clear_ip m = m\<lparr>pb_ip := 0\<rparr>"

definition HostInfo_set_ip :: "i32 \<Rightarrow> HostInfo \<Rightarrow> HostInfo" where
  "HostInfo_set_ip value m = m\<lparr>pb_ip := value\<rparr>"

definition HostInfo_clear_port :: "HostInfo \<Rightarrow> HostInfo" where
  "HostInfo_clear_port m = m\<lparr>pb_port := 0\<rparr>"

definition HostInfo_set_port :: "i32 \<Rightarrow> HostInfo \<Rightarrow> HostInfo" where
  "HostInfo_set_port value m = m\<lparr>pb_port := value\<rparr>"

definition HostInfo_Clear :: "HostInfo \<Rightarrow> HostInfo" where
  "HostInfo_Clear m = m\<lparr>pb_ip := 0, pb_port := 0\<rparr>"

definition HostInfo_InternalSwap :: "HostInfo \<times> HostInfo \<Rightarrow> HostInfo \<times> HostInfo" where
  "HostInfo_InternalSwap = (\<lambda>(m, other).
     (m\<lparr>pb_ip := pb_ip other, pb_port := pb_port other\<rparr>,
      other\<lparr>pb_ip := pb_ip m, pb_port := pb_port m\<rparr>))"

definition HostInfo_Swap :: "bool \<Rightarrow> HostInfo \<times> HostInfo \<Rightarrow> HostInfo \<times> HostInfo" where
  "HostInfo_Swap same ms = (if same then ms else HostInfo_InternalSwap ms)"

definition HostInfo_move :: "bool \<Rightarrow> HostInfo \<times> HostInfo \<Rightarrow> HostInfo \<times> HostInfo" where
  "HostInfo_move same ms = (if \<not> same then HostInfo_InternalSwap ms else ms)"

lemmas HostInfo_accessors =
  HostInfo_clear_ip_def HostInfo_set_ip_def HostInfo_clear_port_def HostInfo_set_port_def

interpretation HostInfo_ip_field: pb_field pb_ip HostInfo_set_ip HostInfo_clear_ip 0
  by unfold_locales (simp_all add: HostInfo_accessors)

interpretation HostInfo_port_field: pb_field pb_port HostInfo_set_port HostInfo_clear_port 0
  by unfold_locales (simp_all add: HostInfo_accessors)

lemma HostInfo_clear_default: "HostInfo_Clear m = HostInfo_default"
  by (cases m) (simp add: HostInfo_Clear_def HostInfo_default_def)

lemma HostInfo_swaps: "HostInfo_InternalSwap (m, other) = (other, m)"
  by (cases m; cases other) (simp add: HostInfo_InternalSwap_def)

section \<open>GetRouteRequest\<close>

definition GetRouteRequest_clear_modid :: "GetRouteRequest \<Rightarrow> GetRouteRequest" where
  "GetRouteRequest_clear_modid m = m\<lparr>grq_modid := 0\<rparr>"

definition GetRouteRequest_set_modid :: "i32 \<Rightarrow> GetRouteRequest \<Rightarrow> GetRouteRequest" where
  "GetRouteRequest_set_modid value m = m\<lparr>grq_modid := value\<rparr>"

definition GetRouteRequest_clear_cmdid :: "GetRouteRequest \<Rightarrow> GetRouteRequest" where
  "GetRouteRequest_clear_cmdid m = m\<lparr>grq_cmdid := 0\<rparr>"

definition GetRouteRequest_set_cmdid :: "i32 \<Rightarrow> GetRouteRequest \<Rightarrow> GetRouteRequest" where
  "GetRouteRequest_set_cmdid value m = m\<lparr>grq_cmdid := value\<rparr>"

definition GetRouteRequest_Clear :: "GetRouteRequest \<Rightarrow> GetRouteRequest" where
  "GetRouteRequest_Clear m = m\<lparr>grq_modid := 0, grq_cmdid := 0\<rparr>"

definition GetRouteRequest_InternalSwap :: "GetRouteRequest \<times> GetRouteRequest \<Rightarrow> GetRouteRequest \<times> GetRouteRequest" where
  "GetRouteRequest_InternalSwap = (\<lambda>(m, other).
     (m\<lparr>grq_modid := grq_modid other, grq_cmdid := grq_cmdid other\<rparr>,
      other\<lparr>grq_modid := grq_modid m, grq_cmdid := grq_cmdid m\<rparr>))"

definition GetRouteRequest_Swap :: "bool \<Rightarrow> GetRouteRequest \<times> GetRouteRequest \<Rightarrow> GetRouteRequest \<times> GetRouteRequest" where
  "GetRouteRequest_Swap same ms = (if same then ms else GetRouteRequest_InternalSwap ms)"

definition GetRouteRequest_move :: "bool \<Rightarrow> GetRouteRequest \<times> GetRouteRequest \<Rightarrow> GetRouteRequest \<times> GetRouteRequest" where
  "GetRouteRequest_move same ms = (if \<not> same then GetRouteRequest_InternalSwap ms else ms)"

lemmas GetRouteRequest_accessors =
  GetRouteRequest_clear_modid_def GetRouteRequest_set_modid_def GetRouteRequest_clear_cmdid_def GetRouteRequest_set_cmdid_def

interpretation GetRouteRequest_modid_field: pb_field grq_modid GetRouteRequest_set_modid GetRouteRequest_clear_modid 0
  by unfold_locales (simp_all add: GetRouteRequest_accessors)

interpretation GetRouteRequest_cmdid_field: pb_field grq_cmdid GetRouteRequest_set_cmdid GetRouteRequest_clear_cmdid 0
  by unfold_locales (simp_all add: GetRouteRequest_accessors)

lemma GetRouteRequest_clear_default: "GetRouteRequest_Clear m = GetRouteRequest_default"
  by (cases m) (simp add: GetRouteRequest_Clear_def GetRouteRequest_default_def)

lemma GetRouteRequest_swaps: "GetRouteRequest_InternalSwap (m, other) = (other, m)"
  by (cases m; cases other) (simp add: GetRouteRequest_InternalSwap_def)

section \<open>GetRouteResponse\<close>

definition GetRouteResponse_clear_modid :: "GetRouteResponse \<Rightarrow> GetRouteResponse" where
  "GetRouteResponse_clear_modid m = m\<lparr>grs_modid := 0\<rparr>"

definition GetRouteResponse_set_modid :: "i32 \<Rightarrow> GetRouteResponse \<Rightarrow> GetRouteResponse" where
  "GetRouteResponse_set_modid value m = m\<lparr>grs_modid := value\<rparr>"

definition GetRouteResponse_clear_cmdid :: "GetRouteResponse \<Rightarrow> GetRouteResponse" where
  "GetRouteResponse_clear_cmdid m = m\<lparr>grs_cmdid := 0\<rparr>"

definition GetRouteResponse_set_cmdid :: "i32 \<Rightarrow> GetRouteResponse \<Rightarrow> GetRouteResponse" where
  "GetRouteResponse_set_cmdid value m = m\<lparr>grs_cmdid := value\<rparr>"

definition GetRouteResponse_host_size :: "GetRouteResponse \<Rightarrow> int" where
  "GetRouteResponse_host_size m = int (length (grs_host m))"

definition GetRouteResponse_clear_host :: "GetRouteResponse \<Rightarrow> GetRouteResponse" where
  "GetRouteResponse_clear_host m = m\<lparr>grs_host := []\<rparr>"

definition GetRouteResponse_mutable_host :: "int \<Rightarrow> (HostInfo \<Rightarrow> HostInfo) \<Rightarrow> GetRouteResponse \<Rightarrow> GetRouteResponse res" where
  "GetRouteResponse_mutable_host index f m =
     (if 0 \<le> index \<and> index < int (length (grs_host m)) then Inr (m\<lparr>grs_host := (grs_host m)[nat index := f (grs_host m ! nat index)]\<rparr>)
      else Inl Out_Of_Bounds)"

definition GetRouteResponse_host :: "int \<Rightarrow> GetRouteResponse \<Rightarrow> HostInfo res" where
  "GetRouteResponse_host index m = (if 0 \<le> index \<and> index < int (length (grs_host m)) then Inr (grs_host m ! nat index) else Inl Out_Of_Bounds)"

definition GetRouteResponse_add_host :: "(HostInfo \<Rightarrow> HostInfo) \<Rightarrow> GetRouteResponse \<Rightarrow> GetRouteResponse" where
  "GetRouteResponse_add_host f m = m\<lparr>grs_host := grs_host m @ [f HostInfo_default]\<rparr>"

definition GetRouteResponse_Clear :: "GetRouteResponse \<Rightarrow> GetRouteResponse" where
  "GetRouteResponse_Clear m = m\<lparr>grs_host := [], grs_modid := 0, grs_cmdid := 0\<rparr>"

definition GetRouteResponse_InternalSwap :: "GetRouteResponse \<times> GetRouteResponse \<Rightarrow> GetRouteResponse \<times> GetRouteResponse" where
  "GetRouteResponse_InternalSwap = (\<lambda>(m, other).
     (m\<lparr>grs_host := grs_host other, grs_modid := grs_modid other, grs_cmdid := grs_cmdid other\<rparr>,
      other\<lparr>grs_host := grs_host m, grs_modid := grs_modid m, grs_cmdid := grs_cmdid m\<rparr>))"

definition GetRouteResponse_Swap :: "bool \<Rightarrow> GetRouteResponse \<times> GetRouteResponse \<Rightarrow> GetRouteResponse \<times> GetRouteResponse" where
  "GetRouteResponse_Swap same ms = (if same then ms else GetRouteResponse_InternalSwap ms)"

definition GetRouteResponse_move :: "bool \<Rightarrow> GetRouteResponse \<times> GetRouteResponse \<Rightarrow> GetRouteResponse \<times> GetRouteResponse" where
  "GetRouteResponse_move same ms = (if \<not> same then GetRouteResponse_InternalSwap ms else ms)"

lemmas GetRouteResponse_accessors =
  GetRouteResponse_clear_modid_def GetRouteResponse_set_modid_def GetRouteResponse_clear_cmdid_def GetRouteResponse_set_cmdid_def GetRouteResponse_host_size_def GetRouteResponse_clear_host_def GetRouteResponse_mutable_host_def GetRouteResponse_host_def GetRouteResponse_add_host_def

interpretation GetRouteResponse_modid_field: pb_field grs_modid GetRouteResponse_set_modid GetRouteResponse_clear_modid 0
  by unfold_locales (simp_all add: GetRouteResponse_accessors)

interpretation GetRouteResponse_cmdid_field: pb_field grs_cmdid GetRouteResponse_set_cmdid GetRouteResponse_clear_cmdid 0
  by unfold_locales (simp_all add: GetRouteResponse_accessors)

interpretation GetRouteResponse_host_field: pb_repeated GetRouteResponse_host_size GetRouteResponse_host GetRouteResponse_mutable_host GetRouteResponse_add_host GetRouteResponse_clear_host HostInfo_default
  by unfold_locales (auto simp: GetRouteResponse_accessors nth_append nth_list_update split: if_splits)

lemma GetRouteResponse_clear_default: "GetRouteResponse_Clear m = GetRouteResponse_default"
  by (cases m) (simp add: GetRouteResponse_Clear_def GetRouteResponse_default_def)

lemma GetRouteResponse_swaps: "GetRouteResponse_InternalSwap (m, other) = (other, m)"
  by (cases m; cases other) (simp add: GetRouteResponse_InternalSwap_def)

section \<open>HostCallResult\<close>

definition HostCallResult_clear_ip :: "HostCallResult \<Rightarrow> HostCallResult" where
  "HostCallResult_clear_ip m = m\<lparr>hcr_ip := 0\<rparr>"

definition HostCallResult_set_ip :: "i32 \<Rightarrow> HostCallResult \<Rightarrow> HostCallResult" where
  "HostCallResult_set_ip value m = m\<lparr>hcr_ip := value\<rparr>"

definition HostCallResult_clear_port :: "HostCallResult \<Rightarrow> HostCallResult" where
  "HostCallResult_clear_port m = m\<lparr>hcr_port := 0\<rparr>"

definition HostCallResult_set_port :: "i32 \<Rightarrow> HostCallResult \<Rightarrow> HostCallResult" where
  "HostCallResult_set_port value m = m\<lparr>hcr_port := value\<rparr>"

definition HostCallResult_clear_succ :: "HostCallResult \<Rightarrow> HostCallResult" where
  "HostCallResult_clear_succ m = m\<lparr>hcr_succ := 0\<rparr>"

definition HostCallResult_set_succ :: "u32 \<Rightarrow> HostCallResult \<Rightarrow> HostCallResult" where
  "HostCallResult_set_succ value m = m\<lparr>hcr_succ := value\<rparr>"

definition HostCallResult_clear_err :: "HostCallResult \<Rightarrow> HostCallResult" where
  "HostCallResult_clear_err m = m\<lparr>hcr_err := 0\<rparr>"

definition HostCallResult_set_err :: "u32 \<Rightarrow> HostCallResult \<Rightarrow> HostCallResult" where
  "HostCallResult_set_err value m = m\<lparr>hcr_err := value\<rparr>"

definition HostCallResult_clear_overload :: "HostCallResult \<Rightarrow> HostCallResult" where
  "HostCallResult_clear_overload m = m\<lparr>hcr_overload := False\<rparr>"

definition HostCallResult_set_overload :: "bool \<Rightarrow> HostCallResult \<Rightarrow> HostCallResult" where
  "HostCallResult_set_overload value m = m\<lparr>hcr_overload := value\<rparr>"

definition HostCallResult_Clear :: "HostCallResult \<Rightarrow> HostCallResult" where
  "HostCallResult_Clear m = m\<lparr>hcr_ip := 0, hcr_port := 0, hcr_succ := 0, hcr_err := 0, hcr_overload := False\<rparr>"

definition HostCallResult_InternalSwap :: "HostCallResult \<times> HostCallResult \<Rightarrow> HostCallResult \<times> HostCallResult" where
  "HostCallResult_InternalSwap = (\<lambda>(m, other).
     (m\<lparr>hcr_ip := hcr_ip other, hcr_port := hcr_port other, hcr_succ := hcr_succ other, hcr_err := hcr_err other, hcr_overload := hcr_overload other\<rparr>,
      other\<lparr>hcr_ip := hcr_ip m, hcr_port := hcr_port m, hcr_succ := hcr_succ m, hcr_err := hcr_err m, hcr_overload := hcr_overload m\<rparr>))"

definition HostCallResult_Swap :: "bool \<Rightarrow> HostCallResult \<times> HostCallResult \<Rightarrow> HostCallResult \<times> HostCallResult" where
  "HostCallResult_Swap same ms = (if same then ms else HostCallResult_InternalSwap ms)"

definition HostCallResult_move :: "bool \<Rightarrow> HostCallResult \<times> HostCallResult \<Rightarrow> HostCallResult \<times> HostCallResult" where
  "HostCallResult_move same ms = (if \<not> same then HostCallResult_InternalSwap ms else ms)"

lemmas HostCallResult_accessors =
  HostCallResult_clear_ip_def HostCallResult_set_ip_def HostCallResult_clear_port_def HostCallResult_set_port_def HostCallResult_clear_succ_def HostCallResult_set_succ_def HostCallResult_clear_err_def HostCallResult_set_err_def HostCallResult_clear_overload_def HostCallResult_set_overload_def

interpretation HostCallResult_ip_field: pb_field hcr_ip HostCallResult_set_ip HostCallResult_clear_ip 0
  by unfold_locales (simp_all add: HostCallResult_accessors)

interpretation HostCallResult_port_field: pb_field hcr_port HostCallResult_set_port HostCallResult_clear_port 0
  by unfold_locales (simp_all add: HostCallResult_accessors)

interpretation HostCallResult_succ_field: pb_field hcr_succ HostCallResult_set_succ HostCallResult_clear_succ 0
  by unfold_locales (simp_all add: HostCallResult_accessors)

interpretation HostCallResult_err_field: pb_field hcr_err HostCallResult_set_err HostCallResult_clear_err 0
  by unfold_locales (simp_all add: HostCallResult_accessors)

interpretation HostCallResult_overload_field: pb_field hcr_overload HostCallResult_set_overload HostCallResult_clear_overload False
  by unfold_locales (simp_all add: HostCallResult_accessors)

lemma HostCallResult_clear_default: "HostCallResult_Clear m = HostCallResult_default"
  by (cases m) (simp add: HostCallResult_Clear_def HostCallResult_default_def)

lemma HostCallResult_swaps: "HostCallResult_InternalSwap (m, other) = (other, m)"
  by (cases m; cases other) (simp add: HostCallResult_InternalSwap_def)

section \<open>ReportStatusRequest\<close>

definition ReportStatusRequest_clear_modid :: "ReportStatusRequest \<Rightarrow> ReportStatusRequest" where
  "ReportStatusRequest_clear_modid m = m\<lparr>rsr_modid := 0\<rparr>"

definition ReportStatusRequest_set_modid :: "i32 \<Rightarrow> ReportStatusRequest \<Rightarrow> ReportStatusRequest" where
  "ReportStatusRequest_set_modid value m = m\<lparr>rsr_modid := value\<rparr>"

definition ReportStatusRequest_clear_cmdid :: "ReportStatusRequest \<Rightarrow> ReportStatusRequest" where
  "ReportStatusRequest_clear_cmdid m = m\<lparr>rsr_cmdid := 0\<rparr>"

definition ReportStatusRequest_set_cmdid :: "i32 \<Rightarrow> ReportStatusRequest \<Rightarrow> ReportStatusRequest" where
  "ReportStatusRequest_set_cmdid value m = m\<lparr>rsr_cmdid := value\<rparr>"

definition ReportStatusRequest_clear_caller :: "ReportStatusRequest \<Rightarrow> ReportStatusRequest" where
  "ReportStatusRequest_clear_caller m = m\<lparr>rsr_caller := 0\<rparr>"

definition ReportStatusRequest_set_caller :: "i32 \<Rightarrow> ReportStatusRequest \<Rightarrow> ReportStatusRequest" where
  "ReportStatusRequest_set_caller value m = m\<lparr>rsr_caller := value\<rparr>"

definition ReportStatusRequest_results_size :: "ReportStatusRequest \<Rightarrow> int" where
  "ReportStatusRequest_results_size m = int (length (rsr_results m))"

definition ReportStatusRequest_clear_results :: "ReportStatusRequest \<Rightarrow> ReportStatusRequest" where
  "ReportStatusRequest_clear_results m = m\<lparr>rsr_results := []\<rparr>"

definition ReportStatusRequest_mutable_results :: "int \<Rightarrow> (HostCallResult \<Rightarrow> HostCallResult) \<Rightarrow> ReportStatusRequest \<Rightarrow> ReportStatusRequest res" where
  "ReportStatusRequest_mutable_results index f m =
     (if 0 \<le> index \<and> index < int (length (rsr_results m)) then Inr (m\<lparr>rsr_results := (rsr_results m)[nat index := f (rsr_results m ! nat index)]\<rparr>)
      else Inl Out_Of_Bounds)"

definition ReportStatusRequest_results :: "int \<Rightarrow> ReportStatusRequest \<Rightarrow> HostCallResult res" where
  "ReportStatusRequest_results index m = (if 0 \<le> index \<and> index < int (length (rsr_results m)) then Inr (rsr_results m ! nat index) else Inl Out_Of_Bounds)"

definition ReportStatusRequest_add_results :: "(HostCallResult \<Rightarrow> HostCallResult) \<Rightarrow> ReportStatusRequest \<Rightarrow> ReportStatusRequest" where
  "ReportStatusRequest_add_results f m = m\<lparr>rsr_results := rsr_results m @ [f HostCallResult_default]\<rparr>"

definition ReportStatusRequest_clear_ts :: "ReportStatusRequest \<Rightarrow> ReportStatusRequest" where
  "ReportStatusRequest_clear_ts m = m\<lparr>rsr_ts := 0\<rparr>"

definition ReportStatusRequest_set_ts :: "u32 \<Rightarrow> ReportStatusRequest \<Rightarrow> ReportStatusRequest" where
  "ReportStatusRequest_set_ts value m = m\<lparr>rsr_ts := value\<rparr>"

definition ReportStatusRequest_Clear :: "ReportStatusRequest \<Rightarrow> ReportStatusRequest" where
  "ReportStatusRequest_Clear m = m\<lparr>rsr_results := [], rsr_modid := 0, rsr_cmdid := 0, rsr_caller := 0, rsr_ts := 0\<rparr>"

definition ReportStatusRequest_InternalSwap :: "ReportStatusRequest \<times> ReportStatusRequest \<Rightarrow> ReportStatusRequest \<times> ReportStatusRequest" where
  "ReportStatusRequest_InternalSwap = (\<lambda>(m, other).
     (m\<lparr>rsr_results := rsr_results other, rsr_modid := rsr_modid other, rsr_cmdid := rsr_cmdid other, rsr_caller := rsr_caller other, rsr_ts := rsr_ts other\<rparr>,
      other\<lparr>rsr_results := rsr_results m, rsr_modid := rsr_modid m, rsr_cmdid := rsr_cmdid m, rsr_caller := rsr_caller m, rsr_ts := rsr_ts m\<rparr>))"

definition ReportStatusRequest_Swap :: "bool \<Rightarrow> ReportStatusRequest \<times> ReportStatusRequest \<Rightarrow> ReportStatusRequest \<times> ReportStatusRequest" where
  "ReportStatusRequest_Swap same ms = (if same then ms else ReportStatusRequest_InternalSwap ms)"

definition ReportStatusRequest_move :: "bool \<Rightarrow> ReportStatusRequest \<times> ReportStatusRequest \<Rightarrow> ReportStatusRequest \<times> ReportStatusRequest" where
  "ReportStatusRequest_move same ms = (if \<not> same then ReportStatusRequest_InternalSwap ms else ms)"

lemmas ReportStatusRequest_accessors =
  ReportStatusRequest_clear_modid_def ReportStatusRequest_set_modid_def ReportStatusRequest_clear_cmdid_def ReportStatusRequest_set_cmdid_def ReportStatusRequest_clear_caller_def ReportStatusRequest_set_caller_def ReportStatusRequest_results_size_def ReportStatusRequest_clear_results_def ReportStatusRequest_mutable_results_def ReportStatusRequest_results_def ReportStatusRequest_add_results_def ReportStatusRequest_clear_ts_def ReportStatusRequest_set_ts_def

interpretation ReportStatusRequest_modid_field: pb_field rsr_modid ReportStatusRequest_set_modid ReportStatusRequest_clear_modid 0
  by unfold_locales (simp_all add: ReportStatusRequest_accessors)

interpretation ReportStatusRequest_cmdid_field: pb_field rsr_cmdid ReportStatusRequest_set_cmdid ReportStatusRequest_clear_cmdid 0
  by unfold_locales (simp_all add: ReportStatusRequest_accessors)

interpretation ReportStatusRequest_caller_field: pb_field rsr_caller ReportStatusRequest_set_caller ReportStatusRequest_clear_caller 0
  by unfold_locales (simp_all add: ReportStatusRequest_accessors)

interpretation ReportStatusRequest_results_field: pb_repeated ReportStatusRequest_results_size ReportStatusRequest_results ReportStatusRequest_mutable_results ReportStatusRequest_add_results ReportStatusRequest_clear_results HostCallResult_default
  by unfold_locales (auto simp: ReportStatusRequest_accessors nth_append nth_list_update split: if_splits)

interpretation ReportStatusRequest_ts_field: pb_field rsr_ts ReportStatusRequest_set_ts ReportStatusRequest_clear_ts 0
  by unfold_locales (simp_all add: ReportStatusRequest_accessors)

lemma ReportStatusRequest_clear_default: "ReportStatusRequest_Clear m = ReportStatusRequest_default"
  by (cases m) (simp add: ReportStatusRequest_Clear_def ReportStatusRequest_default_def)

lemma ReportStatusRequest_swaps: "ReportStatusRequest_InternalSwap (m, other) = (other, m)"
  by (cases m; cases other) (simp add: ReportStatusRequest_InternalSwap_def)

section \<open>GetHostRequest\<close>

definition GetHostRequest_clear_seq :: "GetHostRequest \<Rightarrow> GetHostRequest" where
  "GetHostRequest_clear_seq m = m\<lparr>ghq_seq := 0\<rparr>"

definition GetHostRequest_set_seq :: "u32 \<Rightarrow> GetHostRequest \<Rightarrow> GetHostRequest" where
  "GetHostRequest_set_seq value m = m\<lparr>ghq_seq := value\<rparr>"

definition GetHostRequest_clear_modid :: "GetHostRequest \<Rightarrow> GetHostRequest" where
  "GetHostRequest_clear_modid m = m\<lparr>ghq_modid := 0\<rparr>"

definition GetHostRequest_set_modid :: "i32 \<Rightarrow> GetHostRequest \<Rightarrow> GetHostRequest" where
  "GetHostRequest_set_modid value m = m\<lparr>ghq_modid := value\<rparr>"

definition GetHostRequest_clear_cmdid :: "GetHostRequest \<Rightarrow> GetHostRequest" where
  "GetHostRequest_clear_cmdid m = m\<lparr>ghq_cmdid := 0\<rparr>"

definition GetHostRequest_set_cmdid :: "i32 \<Rightarrow> GetHostRequest \<Rightarrow> GetHostRequest" where
  "GetHostRequest_set_cmdid value m = m\<lparr>ghq_cmdid := value\<rparr>"

definition GetHostRequest_Clear :: "GetHostRequest \<Rightarrow> GetHostRequest" where
  "GetHostRequest_Clear m = m\<lparr>ghq_seq := 0, ghq_modid := 0, ghq_cmdid := 0\<rparr>"

definition GetHostRequest_InternalSwap :: "GetHostRequest \<times> GetHostRequest \<Rightarrow> GetHostRequest \<times> GetHostRequest" where
  "GetHostRequest_InternalSwap = (\<lambda>(m, other).
     (m\<lparr>ghq_seq := ghq_seq other, ghq_modid := ghq_modid other, ghq_cmdid := ghq_cmdid other\<rparr>,
      other\<lparr>ghq_seq := ghq_seq m, ghq_modid := ghq_modid m, ghq_cmdid := ghq_cmdid m\<rparr>))"

definition GetHostRequest_Swap :: "bool \<Rightarrow> GetHostRequest \<times> GetHostRequest \<Rightarrow> GetHostRequest \<times> GetHostRequest" where
  "GetHostRequest_Swap same ms = (if same then ms else GetHostRequest_InternalSwap ms)"

definition GetHostRequest_move :: "bool \<Rightarrow> GetHostRequest \<times> GetHostRequest \<Rightarrow> GetHostRequest \<times> GetHostRequest" where
  "GetHostRequest_move same ms = (if \<not> same then GetHostRequest_InternalSwap ms else ms)"

lemmas GetHostRequest_accessors =
  GetHostRequest_clear_seq_def GetHostRequest_set_seq_def GetHostRequest_clear_modid_def GetHostRequest_set_modid_def GetHostRequest_clear_cmdid_def GetHostRequest_set_cmdid_def

interpretation GetHostRequest_seq_field: pb_field ghq_seq GetHostRequest_set_seq GetHostRequest_clear_seq 0
  by unfold_locales (simp_all add: GetHostRequest_accessors)

interpretation GetHostRequest_modid_field: pb_field ghq_modid GetHostRequest_set_modid GetHostRequest_clear_modid 0
  by unfold_locales (simp_all add: GetHostRequest_accessors)

interpretation GetHostRequest_cmdid_field: pb_field ghq_cmdid GetHostRequest_set_cmdid GetHostRequest_clear_cmdid 0
  by unfold_locales (simp_all add: GetHostRequest_accessors)

lemma GetHostRequest_clear_default: "GetHostRequest_Clear m = GetHostRequest_default"
  by (cases m) (simp add: GetHostRequest_Clear_def GetHostRequest_default_def)

lemma GetHostRequest_swaps: "GetHostRequest_InternalSwap (m, other) = (other, m)"
  by (cases m; cases other) (simp add: GetHostRequest_InternalSwap_def)

section \<open>GetHostResponse\<close>

definition GetHostResponse_clear_seq :: "GetHostResponse \<Rightarrow> GetHostResponse" where
  "GetHostResponse_clear_seq m = m\<lparr>ghs_seq := 0\<rparr>"

definition GetHostResponse_set_seq :: "u32 \<Rightarrow> GetHostResponse \<Rightarrow> GetHostResponse" where
  "GetHostResponse_set_seq value m = m\<lparr>ghs_seq := value\<rparr>"

definition GetHostResponse_clear_modid :: "GetHostResponse \<Rightarrow> GetHostResponse" where
  "GetHostResponse_clear_modid m = m\<lparr>ghs_modid := 0\<rparr>"

definition GetHostResponse_set_modid :: "i32 \<Rightarrow> GetHostResponse \<Rightarrow> GetHostResponse" where
  "GetHostResponse_set_modid value m = m\<lparr>ghs_modid := value\<rparr>"

definition GetHostResponse_clear_cmdid :: "GetHostResponse \<Rightarrow> GetHostResponse" where
  "GetHostResponse_clear_cmdid m = m\<lparr>ghs_cmdid := 0\<rparr>"

definition GetHostResponse_set_cmdid :: "i32 \<Rightarrow> GetHostResponse \<Rightarrow> GetHostResponse" where
  "GetHostResponse_set_cmdid value m = m\<lparr>ghs_cmdid := value\<rparr>"

definition GetHostResponse_clear_retcode :: "GetHostResponse \<Rightarrow> GetHostResponse" where
  "GetHostResponse_clear_retcode m = m\<lparr>ghs_retcode := 0\<rparr>"

definition GetHostResponse_set_retcode :: "i32 \<Rightarrow> GetHostResponse \<Rightarrow> GetHostResponse" where
  "GetHostResponse_set_retcode value m = m\<lparr>ghs_retcode := value\<rparr>"

definition GetHostResponse_has_host :: "GetHostResponse \<Rightarrow> bool" where
  "GetHostResponse_has_host m \<longleftrightarrow> ghs_host m \<noteq> None"

definition GetHostResponse_clear_host :: "GetHostResponse \<Rightarrow> GetHostResponse" where
  "GetHostResponse_clear_host m = m\<lparr>ghs_host := None\<rparr>"

definition GetHostResponse_host :: "GetHostResponse \<Rightarrow> HostInfo" where
  "GetHostResponse_host m = (case ghs_host m of Some p \<Rightarrow> p | None \<Rightarrow> HostInfo_default)"

definition GetHostResponse_release_host :: "GetHostResponse \<Rightarrow> HostInfo option \<times> GetHostResponse" where
  "GetHostResponse_release_host m = (let temp = ghs_host m in (temp, m\<lparr>ghs_host := None\<rparr>))"

definition GetHostResponse_mutable_host :: "(HostInfo \<Rightarrow> HostInfo) \<Rightarrow> GetHostResponse \<Rightarrow> GetHostResponse" where
  "GetHostResponse_mutable_host f m =
     (let m = (if ghs_host m = None then m\<lparr>ghs_host := Some HostInfo_default\<rparr> else m) in m\<lparr>ghs_host := map_option f (ghs_host m)\<rparr>)"

definition GetHostResponse_set_allocated_host :: "HostInfo option \<Rightarrow> GetHostResponse \<Rightarrow> GetHostResponse" where
  "GetHostResponse_set_allocated_host host m = m\<lparr>ghs_host := host\<rparr>"

definition GetHostResponse_Clear :: "GetHostResponse \<Rightarrow> GetHostResponse" where
  "GetHostResponse_Clear m = m\<lparr>ghs_host := None, ghs_seq := 0, ghs_modid := 0, ghs_cmdid := 0, ghs_retcode := 0\<rparr>"

definition GetHostResponse_InternalSwap :: "GetHostResponse \<times> GetHostResponse \<Rightarrow> GetHostResponse \<times> GetHostResponse" where
  "GetHostResponse_InternalSwap = (\<lambda>(m, other).
     (m\<lparr>ghs_host := ghs_host other, ghs_seq := ghs_seq other, ghs_modid := ghs_modid other, ghs_cmdid := ghs_cmdid other, ghs_retcode := ghs_retcode other\<rparr>,
      other\<lparr>ghs_host := ghs_host m, ghs_seq := ghs_seq m, ghs_modid := ghs_modid m, ghs_cmdid := ghs_cmdid m, ghs_retcode := ghs_retcode m\<rparr>))"

definition GetHostResponse_Swap :: "bool \<Rightarrow> GetHostResponse \<times> GetHostResponse \<Rightarrow> GetHostResponse \<times> GetHostResponse" where
  "GetHostResponse_Swap same ms = (if same then ms else GetHostResponse_InternalSwap ms)"

definition GetHostResponse_move :: "bool \<Rightarrow> GetHostResponse \<times> GetHostResponse \<Rightarrow> GetHostResponse \<times> GetHostResponse" where
  "GetHostResponse_move same ms = (if \<not> same then GetHostResponse_InternalSwap ms else ms)"

lemmas GetHostResponse_accessors =
  GetHostResponse_clear_seq_def GetHostResponse_set_seq_def GetHostResponse_clear_modid_def GetHostResponse_set_modid_def GetHostResponse_clear_cmdid_def GetHostResponse_set_cmdid_def GetHostResponse_clear_retcode_def GetHostResponse_set_retcode_def GetHostResponse_has_host_def GetHostResponse_clear_host_def GetHostResponse_release_host_def GetHostResponse_mutable_host_def GetHostResponse_set_allocated_host_def GetHostResponse_host_def

interpretation GetHostResponse_seq_field: pb_field ghs_seq GetHostResponse_set_seq GetHostResponse_clear_seq 0
  by unfold_locales (simp_all add: GetHostResponse_accessors)

interpretation GetHostResponse_modid_field: pb_field ghs_modid GetHostResponse_set_modid GetHostResponse_clear_modid 0
  by unfold_locales (simp_all add: GetHostResponse_accessors)

interpretation GetHostResponse_cmdid_field: pb_field ghs_cmdid GetHostResponse_set_cmdid GetHostResponse_clear_cmdid 0
  by unfold_locales (simp_all add: GetHostResponse_accessors)

interpretation GetHostResponse_retcode_field: pb_field ghs_retcode GetHostResponse_set_retcode GetHostResponse_clear_retcode 0
  by unfold_locales (simp_all add: GetHostResponse_accessors)

interpretation GetHostResponse_host_field: pb_optional GetHostResponse_has_host GetHostResponse_host GetHostResponse_mutable_host GetHostResponse_release_host GetHostResponse_set_allocated_host GetHostResponse_clear_host HostInfo_default
  by unfold_locales (auto simp: GetHostResponse_accessors Let_def split: option.splits)

lemma GetHostResponse_clear_default: "GetHostResponse_Clear m = GetHostResponse_default"
  by (cases m) (simp add: GetHostResponse_Clear_def GetHostResponse_default_def)

lemma GetHostResponse_swaps: "GetHostResponse_InternalSwap (m, other) = (other, m)"
  by (cases m; cases other) (simp add: GetHostResponse_InternalSwap_def)

section \<open>ReportRequest\<close>

definition ReportRequest_clear_modid :: "ReportRequest \<Rightarrow> ReportRequest" where
  "ReportRequest_clear_modid m = m\<lparr>rpq_modid := 0\<rparr>"

definition ReportRequest_set_modid :: "i32 \<Rightarrow> ReportRequest \<Rightarrow> ReportRequest" where
  "ReportRequest_set_modid value m = m\<lparr>rpq_modid := value\<rparr>"

definition ReportRequest_clear_cmdid :: "ReportRequest \<Rightarrow> ReportRequest" where
  "ReportRequest_clear_cmdid m = m\<lparr>rpq_cmdid := 0\<rparr>"

definition ReportRequest_set_cmdid :: "i32 \<Rightarrow> ReportRequest \<Rightarrow> ReportRequest" where
  "ReportRequest_set_cmdid value m = m\<lparr>rpq_cmdid := value\<rparr>"

definition ReportRequest_has_host :: "ReportRequest \<Rightarrow> bool" where
  "ReportRequest_has_host m \<longleftrightarrow> rpq_host m \<noteq> None"

definition ReportRequest_clear_host :: "ReportRequest \<Rightarrow> ReportRequest" where
  "ReportRequest_clear_host m = m\<lparr>rpq_host := None\<rparr>"

definition ReportRequest_host :: "ReportRequest \<Rightarrow> HostInfo" where
  "ReportRequest_host m = (case rpq_host m of Some p \<Rightarrow> p | None \<Rightarrow> HostInfo_default)"

definition ReportRequest_release_host :: "ReportRequest \<Rightarrow> HostInfo option \<times> ReportRequest" where
  "ReportRequest_release_host m = (let temp = rpq_host m in (temp, m\<lparr>rpq_host := None\<rparr>))"

definition ReportRequest_mutable_host :: "(HostInfo \<Rightarrow> HostInfo) \<Rightarrow> ReportRequest \<Rightarrow> ReportRequest" where
  "ReportRequest_mutable_host f m =
     (let m = (if rpq_host m = None then m\<lparr>rpq_host := Some HostInfo_default\<rparr> else m) in m\<lparr>rpq_host := map_option f (rpq_host m)\<rparr>)"

definition ReportRequest_set_allocated_host :: "HostInfo option \<Rightarrow> ReportRequest \<Rightarrow> ReportRequest" where
  "ReportRequest_set_allocated_host host m = m\<lparr>rpq_host := host\<rparr>"

definition ReportRequest_clear_retcode :: "ReportRequest \<Rightarrow> ReportRequest" where
  "ReportRequest_clear_retcode m = m\<lparr>rpq_retcode := 0\<rparr>"

definition ReportRequest_set_retcode :: "i32 \<Rightarrow> ReportRequest \<Rightarrow> ReportRequest" where
  "ReportRequest_set_retcode value m = m\<lparr>rpq_retcode := value\<rparr>"

definition ReportRequest_Clear :: "ReportRequest \<Rightarrow> ReportRequest" where
  "ReportRequest_Clear m = m\<lparr>rpq_host := None, rpq_modid := 0, rpq_cmdid := 0, rpq_retcode := 0\<rparr>"

definition ReportRequest_InternalSwap :: "ReportRequest \<times> ReportRequest \<Rightarrow> ReportRequest \<times> ReportRequest" where
  "ReportRequest_InternalSwap = (\<lambda>(m, other).
     (m\<lparr>rpq_host := rpq_host other, rpq_modid := rpq_modid other, rpq_cmdid := rpq_cmdid other, rpq_retcode := rpq_retcode other\<rparr>,
      other\<lparr>rpq_host := rpq_host m, rpq_modid := rpq_modid m, rpq_cmdid := rpq_cmdid m, rpq_retcode := rpq_retcode m\<rparr>))"

definition ReportRequest_Swap :: "bool \<Rightarrow> ReportRequest \<times> ReportRequest \<Rightarrow> ReportRequest \<times> ReportRequest" where
  "ReportRequest_Swap same ms = (if same then ms else ReportRequest_InternalSwap ms)"

definition ReportRequest_move :: "bool \<Rightarrow> ReportRequest \<times> ReportRequest \<Rightarrow> ReportRequest \<times> ReportRequest" where
  "ReportRequest_move same ms = (if \<not> same then ReportRequest_InternalSwap ms else ms)"

lemmas ReportRequest_accessors =
  ReportRequest_clear_modid_def ReportRequest_set_modid_def ReportRequest_clear_cmdid_def ReportRequest_set_cmdid_def ReportRequest_has_host_def ReportRequest_clear_host_def ReportRequest_release_host_def ReportRequest_mutable_host_def ReportRequest_set_allocated_host_def ReportRequest_host_def ReportRequest_clear_retcode_def ReportRequest_set_retcode_def

interpretation ReportRequest_modid_field: pb_field rpq_modid ReportRequest_set_modid ReportRequest_clear_modid 0
  by unfold_locales (simp_all add: ReportRequest_accessors)

interpretation ReportRequest_cmdid_field: pb_field rpq_cmdid ReportRequest_set_cmdid ReportRequest_clear_cmdid 0
  by unfold_locales (simp_all add: ReportRequest_accessors)

interpretation ReportRequest_host_field: pb_optional ReportRequest_has_host ReportRequest_host ReportRequest_mutable_host ReportRequest_release_host ReportRequest_set_allocated_host ReportRequest_clear_host HostInfo_default
  by unfold_locales (auto simp: ReportRequest_accessors Let_def split: option.splits)

interpretation ReportRequest_retcode_field: pb_field rpq_retcode ReportRequest_set_retcode ReportRequest_clear_retcode 0
  by unfold_locales (simp_all add: ReportRequest_accessors)

lemma ReportRequest_clear_default: "ReportRequest_Clear m = ReportRequest_default"
  by (cases m) (simp add: ReportRequest_Clear_def ReportRequest_default_def)

lemma ReportRequest_swaps: "ReportRequest_InternalSwap (m, other) = (other, m)"
  by (cases m; cases other) (simp add: ReportRequest_InternalSwap_def)

end
