(* ===== verification/Reporter.thy ===== *)
theory Reporter
  imports Protobuf Thread_Queue Config_File
begin

text \<open>
  The report service: \<^verbatim>\<open>lars_reporter/src/reporter_service.cpp\<close>, \<^verbatim>\<open>lars_reporter/src/store_thread.cpp\<close>,
  \<^verbatim>\<open>lars_reporter/src/store_report.cpp\<close> and \<^verbatim>\<open>lars_reporter/include/store_report.h\<close>. Received reports are dealt out in turn to the
  queues of the store threads; each store thread writes the results of its reports to the database. The MySQL client library is
  the record \<open>mysql\<close>, an argument: connecting and executing a query change the state \<open>'d\<close> of the database. \<open>printf\<close> conversions are
  those of C: \<open>%d\<close> of a 32-bit value prints it signed, \<open>%u\<close> unsigned, and \<open>snprintf\<close> cuts off what does not fit.
\<close>

section \<open>Model\<close>

record 'd mysql =
  my_connect :: "string \<Rightarrow> string \<Rightarrow> string \<Rightarrow> string \<Rightarrow> 16 word \<Rightarrow> 'd \<Rightarrow> bool \<times> 'd"
  my_query :: "string \<Rightarrow> 'd \<Rightarrow> int \<times> 'd"

definition fmt_d :: "i32 \<Rightarrow> string" where
  "fmt_d w = show_int (sint w)"

definition fmt_u :: "u32 \<Rightarrow> string" where
  "fmt_u w = show_nat (unat w)"

definition snprintf :: "nat \<Rightarrow> string \<Rightarrow> string" where
  "snprintf n s = take (n - 1) s"

text \<open>\<open>StoreReport::StoreReport\<close>.\<close>

definition StoreReport_new :: "'d mysql \<Rightarrow> config_file \<Rightarrow> 'd \<Rightarrow> 'd res" where
  "StoreReport_new my cfg db =
     (let db_host = GetString ''mysql'' ''db_host'' ''127.0.0.1'' cfg;
          db_port = ucast (GetNumber ''mysql'' ''db_port'' 3306 cfg);
          db_user = GetString ''mysql'' ''db_user'' ''root'' cfg;
          db_passwd = GetString ''mysql'' ''db_passwd'' ''dell12345678'' cfg;
          db_name = GetString ''mysql'' ''db_name'' ''lar_dns'' cfg;
          (ok, db) = my_connect my db_host db_user db_passwd db_name db_port db in
      if ok then Inr db else Inl Exit_1)"

text \<open>The statement for one result, before \<open>snprintf\<close> stores it in a buffer of 1024 bytes.\<close>

definition store_sql :: "ReportStatusRequest \<Rightarrow> HostCallResult \<Rightarrow> string" where
  "store_sql req result =
     (let overload = (if hcr_overload result then 1 else 0 :: i32) in
      ''INSERT INTO ServerCallStatus '' @ ''(modid, cmdid, ip, port, caller, succ_cnt, err_cnt, ts, overload) '' @ ''VALUES ('' @
      fmt_d (rsr_modid req) @ '', '' @ fmt_d (rsr_cmdid req) @ '', '' @ fmt_u (hcr_ip result) @ '', '' @ fmt_u (hcr_port result) @ '', '' @
      fmt_u (rsr_caller req) @ '', '' @ fmt_u (hcr_succ result) @ '', '' @ fmt_u (hcr_err result) @ '', '' @ fmt_u (rsr_ts req) @ '', '' @
      fmt_d overload @ '') ON DUPLICATE KEY '' @ ''UPDATE succ_cnt = '' @ fmt_u (hcr_succ result) @ '', err_cnt = '' @ fmt_u (hcr_err result) @
      '', ts = '' @ fmt_u (rsr_ts req) @ '', overload = '' @ fmt_d overload)"

text \<open>\<open>StoreReport::store\<close>; a failing query is only printed.\<close>

fun store_results :: "'d mysql \<Rightarrow> ReportStatusRequest \<Rightarrow> HostCallResult list \<Rightarrow> 'd \<Rightarrow> 'd" where
  "store_results my req [] db = db"
| "store_results my req (result # results) db =
     store_results my req results (snd (my_query my (snprintf 1024 (store_sql req result)) db))"

definition store :: "'d mysql \<Rightarrow> ReportStatusRequest \<Rightarrow> 'd \<Rightarrow> 'd" where
  "store my req db = store_results my req (rsr_results req) db"

text \<open>
  The state of the service: the queues of the store threads, their event loops by thread number, the function-static \<open>index\<close>, \<open>thread_cnt\<close>, and the
  database.
\<close>

datatype store_cb = Thread_Report

record 'd reporter =
  rp_queues :: "ReportStatusRequest thread_queue list"
  rp_loops :: "ptr \<Rightarrow> (store_cb, nat) event_loop option"
  rp_index :: int
  rp_thread_cnt :: int
  rp_db :: 'd

definition get_report_status :: "wire \<Rightarrow> bytes \<Rightarrow> 'd reporter \<Rightarrow> 'd reporter res" where
  "get_report_status W data rp =
     (let req = snd (ReportStatusRequest_Parse W data); i = nat (rp_index rp) in
      bindR (ensure (0 \<le> rp_index rp \<and> i < length (rp_queues rp)) Out_Of_Bounds) (\<lambda>_.
      (let rp = rp\<lparr>rp_queues := (rp_queues rp)[i := tq_send req (rp_queues rp ! i)]\<rparr> in
       Inr (rp\<lparr>rp_index := (rp_index rp + 1) mod rp_thread_cnt rp\<rparr>))))"

text \<open>The queues of the threads; \<open>evfds\<close> and \<open>created\<close> are the results of \<open>eventfd\<close> and \<open>pthread_create\<close>.\<close>

fun make_report_queues :: "int list \<Rightarrow> int list \<Rightarrow> ReportStatusRequest thread_queue list res" where
  "make_report_queues (evfd # evfds) (ret # rets) =
     bindR (thread_queue_new evfd) (\<lambda>q.
     bindR (ensure (ret \<noteq> -1) Exit_1) (\<lambda>_.
     bindR (make_report_queues evfds rets) (\<lambda>qs.
     Inr (q # qs))))"
| "make_report_queues _ _ = Inr []"

definition create_report_threads :: "config_file \<Rightarrow> (nat \<Rightarrow> int) \<Rightarrow> (nat \<Rightarrow> int) \<Rightarrow> 'd \<Rightarrow> 'd reporter res" where
  "create_report_threads cfg evfd created db =
     (let thread_cnt = sint (GetNumber ''reporter'' ''db_thread_cnt'' 3 cfg) in
      bindR (ensure (0 \<le> thread_cnt) Exit_1) (\<lambda>_.
      bindR (make_report_queues (map evfd [0..<nat thread_cnt]) (map created [0..<nat thread_cnt])) (\<lambda>qs.
      Inr \<lparr>rp_queues = qs, rp_loops = Map.empty, rp_index = 0, rp_thread_cnt = thread_cnt, rp_db = db\<rparr>)))"

text \<open>The start of store thread \<open>i\<close>; its loop gets the address \<open>i\<close>.\<close>

definition store_main :: "'d mysql \<Rightarrow> config_file \<Rightarrow> int \<Rightarrow> nat \<Rightarrow> 'd reporter \<Rightarrow> 'd reporter res" where
  "store_main my cfg epfd i rp =
     bindR (event_loop_create epfd) (\<lambda>loop.
     bindR (StoreReport_new my cfg (rp_db rp)) (\<lambda>db.
     (let q = tq_set_loop i (rp_queues rp ! i) in
      bindR (tq_set_callback Thread_Report i q ((rp_loops rp)(i \<mapsto> loop))) (\<lambda>loops.
      Inr (rp\<lparr>rp_db := db, rp_queues := (rp_queues rp)[i := q], rp_loops := loops\<rparr>)))))"

text \<open>The queue callback of store thread \<open>i\<close>, with the reports it stored.\<close>

fun store_all :: "'d mysql \<Rightarrow> ReportStatusRequest list \<Rightarrow> 'd \<Rightarrow> 'd" where
  "store_all my [] db = db"
| "store_all my (msg # report_msgs) db = store_all my report_msgs (store my msg db)"

definition thread_report :: "'d mysql \<Rightarrow> nat \<Rightarrow> 'd reporter \<Rightarrow> ReportStatusRequest list \<times> 'd reporter" where
  "thread_report my i rp =
     (let (report_msgs, q) = tq_recv [] (rp_queues rp ! i) in
      (report_msgs, rp\<lparr>rp_queues := (rp_queues rp)[i := q], rp_db := store_all my report_msgs (rp_db rp)\<rparr>))"

section \<open>The text of a statement\<close>

lemma length_show_nat: "n < 10 ^ Suc k \<Longrightarrow> length (show_nat n) \<le> Suc k"
proof (induction k arbitrary: n)
  case (Suc k)
  then have "length (show_nat (n div 10)) \<le> Suc k" by (intro Suc.IH) (simp add: less_mult_imp_div_less mult.commute)
  then show ?case by (simp add: show_nat.simps [of n])
qed (simp add: show_nat.simps)

lemma length_fmt: "length (fmt_u w) \<le> 10" "length (fmt_d w) \<le> 11"
proof -
  have "unat w < 2 ^ 32" using unsigned_less [of w] by simp
  then have "unat w < 10 ^ Suc 9" by simp
  then show "length (fmt_u w) \<le> 10" unfolding fmt_u_def using length_show_nat by fastforce
  have "- (2 ^ 31) \<le> sint w" "sint w < 2 ^ 31" using sint_ge [of w] sint_lt [of w] by simp_all
  then have "nat (sint w) < 10 ^ Suc 9" "nat (- sint w) < 10 ^ Suc 9" by (simp_all add: nat_less_iff)
  then have "length (show_nat (nat (sint w))) \<le> 10" "length (show_nat (nat (- sint w))) \<le> 10" using length_show_nat by fastforce+
  then show "length (fmt_d w) \<le> 11" by (simp add: fmt_d_def show_int_def)
qed

lemma store_sql_length: "length (store_sql req result) \<le> 325"
proof -
  let ?o = "if hcr_overload result then 1 else 0 :: i32"
  have "length (fmt_d ?o) = 1" by (simp add: fmt_d_def show_int_def show_nat.simps)
  then show ?thesis
    using length_fmt(2) [of "rsr_modid req"] length_fmt(2) [of "rsr_cmdid req"] length_fmt(1) [of "hcr_ip result"]
      length_fmt(1) [of "hcr_port result"] length_fmt(1) [of "rsr_caller req"] length_fmt(1) [of "hcr_succ result"]
      length_fmt(1) [of "hcr_err result"] length_fmt(1) [of "rsr_ts req"]
    unfolding store_sql_def Let_def length_append by simp
qed

section \<open>Dealing out and storing reports\<close>

text \<open>An execution: reports arriving and store threads being woken up, in any order, with the trace of stored reports.\<close>

datatype report_op = Arrive ReportStatusRequest | Drain nat

fun report_run :: "wire \<Rightarrow> 'd mysql \<Rightarrow> report_op list \<Rightarrow> 'd reporter \<Rightarrow> ((nat \<times> ReportStatusRequest) list \<times> 'd reporter) res" where
  "report_run W my [] rp = Inr ([], rp)"
| "report_run W my (Arrive req # ops) rp =
     bindR (get_report_status W (ReportStatusRequest_Serialize W req) rp) (report_run W my ops)"
| "report_run W my (Drain i # ops) rp =
     (let (msgs, rp) = thread_report my i rp in
      bindR (report_run W my ops rp) (\<lambda>(trace, rp). Inr (map (Pair i) msgs @ trace, rp)))"

fun arrivals :: "report_op list \<Rightarrow> ReportStatusRequest list" where
  "arrivals [] = []"
| "arrivals (Arrive req # ops) = req # arrivals ops"
| "arrivals (Drain i # ops) = arrivals ops"

text \<open>The reports of \<open>rs\<close>, numbered from \<open>k\<close>, that thread \<open>i\<close> of \<open>n\<close> gets.\<close>

fun share :: "nat \<Rightarrow> nat \<Rightarrow> nat \<Rightarrow> 'r list \<Rightarrow> 'r list" where
  "share n i k [] = []"
| "share n i k (r # rs) = (if k mod n = i then r # share n i (Suc k) rs else share n i (Suc k) rs)"

definition of_thread :: "nat \<Rightarrow> (nat \<times> 'r) list \<Rightarrow> 'r list" where
  "of_thread i trace = map snd (filter (\<lambda>x. fst x = i) trace)"

lemma of_thread_simps [simp]:
  "of_thread i [] = []" "of_thread i (xs @ ys) = of_thread i xs @ of_thread i ys" "of_thread i (map (Pair j) ms) = (if i = j then ms else [])"
  by (auto simp: of_thread_def filter_map o_def)

lemma store_all_fold: "store_all my ms db = fold (store my) ms db"
  by (induction ms arbitrary: db) simp_all

lemma report_run_ok:
  assumes "wire_ok W" "0 < n" "\<forall>i. Drain i \<in> set ops \<longrightarrow> i < n"
    and "length (rp_queues rp) = n" "rp_thread_cnt rp = int n" "rp_index rp = int (k mod n)"
  shows "\<exists>trace rp'. report_run W my ops rp = Inr (trace, rp') \<and> length (rp_queues rp') = n \<and>
    rp_db rp' = fold (store my) (map snd trace) (rp_db rp) \<and>
    (\<forall>i < n. of_thread i trace @ tq_queue (rp_queues rp' ! i) = tq_queue (rp_queues rp ! i) @ share n i k (arrivals ops))"
  using assms(3-6)
proof (induction ops arbitrary: rp k)
  case (Cons op ops)
  have d: "\<forall>i. Drain i \<in> set ops \<longrightarrow> i < n" using Cons.prems(1) by simp
  show ?case
  proof (cases op)
    case (Arrive req)
    have p: "ReportStatusRequest_Parse W (ReportStatusRequest_Serialize W req) = (True, req)"
      unfolding ReportStatusRequest_Parse_def by (rule wire_format.ReportStatusRequest_parse) (rule wire_format.intro [OF assms(1)])
    let ?j = "k mod n"
    let ?rp = "rp\<lparr>rp_queues := (rp_queues rp)[?j := tq_send req (rp_queues rp ! ?j)], rp_index := int (Suc k mod n)\<rparr>"
    have j: "?j < n" using assms(2) by simp
    have "int (k mod n) + 1 = int (Suc (k mod n))" by simp
    then have "(int (k mod n) + 1) mod int n = int (Suc k mod n)" by (metis mod_Suc_eq zmod_int)
    then have g: "get_report_status W (ReportStatusRequest_Serialize W req) rp = Inr ?rp"
      using Cons.prems(2-4) j by (simp add: get_report_status_def p Let_def)
    obtain trace rp' where ih: "report_run W my ops ?rp = Inr (trace, rp')" "length (rp_queues rp') = n"
        "rp_db rp' = fold (store my) (map snd trace) (rp_db ?rp)"
        "\<forall>i < n. of_thread i trace @ tq_queue (rp_queues rp' ! i) = tq_queue (rp_queues ?rp ! i) @ share n i (Suc k) (arrivals ops)"
      using Cons.IH [OF d, of ?rp "Suc k"] Cons.prems(2-4) by auto
    have "tq_queue (rp_queues ?rp ! i) = tq_queue (rp_queues rp ! i) @ (if ?j = i then [req] else [])" if "i < n" for i
      using Cons.prems(2) j by (simp add: nth_list_update tq_send_def Let_def)
    then show ?thesis using ih g Arrive by simp
  next
    case (Drain i)
    then have i: "i < n" using Cons.prems(1) by simp
    let ?q = "rp_queues rp ! i"
    let ?rp = "rp\<lparr>rp_queues := (rp_queues rp)[i := snd (tq_recv [] ?q)], rp_db := store_all my (tq_queue ?q) (rp_db rp)\<rparr>"
    have t: "thread_report my i rp = (tq_queue ?q, ?rp)" by (simp add: thread_report_def tq_recv_def Let_def)
    obtain trace rp' where ih: "report_run W my ops ?rp = Inr (trace, rp')" "length (rp_queues rp') = n"
        "rp_db rp' = fold (store my) (map snd trace) (rp_db ?rp)"
        "\<forall>i < n. of_thread i trace @ tq_queue (rp_queues rp' ! i) = tq_queue (rp_queues ?rp ! i) @ share n i k (arrivals ops)"
      using Cons.IH [OF d, of ?rp k] Cons.prems(2-4) by auto
    have "report_run W my (op # ops) rp = Inr (map (Pair i) (tq_queue ?q) @ trace, rp')" using Drain t ih(1) by simp
    moreover have "rp_db rp' = fold (store my) (map snd (map (Pair i) (tq_queue ?q) @ trace)) (rp_db rp)"
      using ih(3) by (simp add: store_all_fold o_def)
    moreover have "of_thread j (map (Pair i) (tq_queue ?q) @ trace) @ tq_queue (rp_queues rp' ! j) = tq_queue (rp_queues rp ! j) @ share n j k (arrivals (op # ops))"
      if "j < n" for j
      using ih(4) that Drain i Cons.prems(2) by (auto simp: nth_list_update tq_recv_def Let_def split: if_splits)
    ultimately show ?thesis using ih(2) by blast
  qed
qed (simp add: assms)

lemma make_report_queues_ok:
  assumes "make_report_queues es rs = Inr qs" "length es = length rs"
  shows "length qs = length es" "\<forall>q \<in> set qs. tq_queue q = []"
  using assms
proof (induction es rs arbitrary: qs rule: make_report_queues.induct)
  case (1 e es r rs)
  { case 1 then show ?case using "1.IH"(1) by (auto simp: bindR_eq_Inr) }
  { case 2 then show ?case using "1.IH"(2) by (auto simp: bindR_eq_Inr thread_queue_new_def split: if_splits) }
qed auto

section \<open>Properties\<close>


definition log_db :: "string list mysql" where
  "log_db = \<lparr>my_connect = (\<lambda>h u p n port db. (True, db)), my_query = (\<lambda>q db. (0, db @ [q]))\<rparr>"

definition demo_report :: ReportStatusRequest where
  "demo_report = \<lparr>rsr_modid = 1, rsr_cmdid = - 2, rsr_caller = 127, rsr_results = [\<lparr>hcr_ip = 10, hcr_port = 80, hcr_succ = 5, hcr_err = 1, hcr_overload = False\<rparr>],
     rsr_ts = 99\<rparr>"


text \<open>
  C37 [report_sql_fits]. For all field values the statement of a result fits the 1024-byte buffer with its terminating zero, so \<open>snprintf\<close> never cuts it off.
\<close>

theorem report_sql_fits:
  "snprintf 1024 (store_sql req result) = store_sql req result \<and> length (store_sql req result) < 1024"
  using store_sql_length [of req result] by (simp add: snprintf_def)

end
