(* ===== verification/Message_Build.thy ===== *)
theory Message_Build
  imports Pb_Accessors Subscribe Route_Lb Reporter
begin

text \<open>
  The places where the program builds and reads messages, with the calls of the generated accessors that the source makes, in its order: setters on a fresh object,
  \<open>add_\<dots>()->CopyFrom(\<dots>)\<close> in loops, \<open>mutable_host()\<close>, and loops over an index up to \<open>\<dots>_size()\<close>. The components use records and lists instead; the property of this theory
  is that both are the same.
\<close>

section \<open>Loops over an index\<close>

text \<open>\<open>for (int i = 0; i < size; ++i)\<close> with the element at \<open>i\<close>.\<close>

function index_loop :: "(int \<Rightarrow> 's res) \<Rightarrow> int \<Rightarrow> (int \<Rightarrow> 's \<Rightarrow> 'x \<Rightarrow> 'x res) \<Rightarrow> int \<Rightarrow> 'x \<Rightarrow> 'x res" where
  "index_loop elem n body i x =
     (if i < n then bindR (elem i) (\<lambda>s. bindR (body i s x) (\<lambda>x. index_loop elem n body (i + 1) x)) else Inr x)"
  by auto
termination
  by (relation "measure (\<lambda>(elem, n, body, i, x). nat (n - i))") auto

declare index_loop.simps [simp del]

fun each_from :: "(int \<Rightarrow> 's \<Rightarrow> 'x \<Rightarrow> 'x res) \<Rightarrow> int \<Rightarrow> 's list \<Rightarrow> 'x \<Rightarrow> 'x res" where
  "each_from body i [] x = Inr x"
| "each_from body i (s # ss) x = bindR (body i s x) (\<lambda>x. each_from body (i + 1) ss x)"

lemma index_loop_list:
  assumes "\<And>n. n < length ss \<Longrightarrow> elem (i + int n) = Inr (ss ! n)"
  shows "index_loop elem (i + int (length ss)) body i x = each_from body i ss x"
  using assms
proof (induction ss arbitrary: i x)
  case Nil
  then show ?case by (simp add: index_loop.simps)
next
  case (Cons s ss)
  have "elem i = Inr s" using Cons.prems [of 0] by simp
  moreover have "index_loop elem (i + int (length (s # ss))) body (i + 1) = each_from body (i + 1) ss"
    using Cons.IH [of "i + 1"] Cons.prems [of "Suc n" for n] by (intro ext) (simp add: add.assoc)
  ultimately show ?case
    by (subst index_loop.simps) simp
qed

lemma hosts_loop: "index_loop (\<lambda>i. GetRouteResponse_host i rsp) (GetRouteResponse_host_size rsp) body 0 x = each_from body 0 (grs_host rsp) x"
  using index_loop_list [of "grs_host rsp" "\<lambda>i. GetRouteResponse_host i rsp" 0 body x] by (simp add: GetRouteResponse_accessors)

lemma results_loop: "index_loop (\<lambda>i. ReportStatusRequest_results i req) (ReportStatusRequest_results_size req) body 0 x = each_from body 0 (rsr_results req) x"
  using index_loop_list [of "rsr_results req" "\<lambda>i. ReportStatusRequest_results i req" 0 body x] by (simp add: ReportStatusRequest_accessors)

section \<open>Route service: the answer to a route request\<close>

fun add_route_hosts :: "u64 list \<Rightarrow> GetRouteResponse \<Rightarrow> GetRouteResponse" where
  "add_route_hosts [] rsp = rsp"
| "add_route_hosts (ip_port # hosts) rsp =
     (let host = HostInfo_set_port (key_lo ip_port) (HostInfo_set_ip (key_hi ip_port) HostInfo_default) in
      add_route_hosts hosts (GetRouteResponse_add_host (\<lambda>_. HostInfo_CopyFrom host) rsp))"

definition build_route_response :: "i32 \<Rightarrow> i32 \<Rightarrow> Route \<Rightarrow> GetRouteResponse" where
  "build_route_response modid cmdid rt =
     (let hosts = get_hosts modid cmdid rt;
          rsp = GetRouteResponse_set_cmdid cmdid (GetRouteResponse_set_modid modid GetRouteResponse_default) in
      add_route_hosts hosts rsp)"

section \<open>Agent: answers, updates and reports\<close>

definition build_host_answer :: "GetHostResponse \<Rightarrow> ptr list \<Rightarrow> host_heap \<Rightarrow> (GetHostResponse \<times> ptr list) res" where
  "build_host_answer rsp l mem =
     (case l of
        [] \<Rightarrow> Inl Empty_Container
      | p # ps \<Rightarrow>
          bindR (deref (hh_hosts mem) p) (\<lambda>host.
          (let rsp = GetHostResponse_mutable_host (\<lambda>hip. HostInfo_set_port (hi_port host) (HostInfo_set_ip (hi_ip host) hip)) rsp in
           Inr (rsp, ps @ [p]))))"

fun add_known_hosts :: "ptr list \<Rightarrow> host_heap \<Rightarrow> GetRouteResponse \<Rightarrow> GetRouteResponse res" where
  "add_known_hosts [] mem rsp = Inr rsp"
| "add_known_hosts (p # ps) mem rsp =
     bindR (deref (hh_hosts mem) p) (\<lambda>hi.
     (let host = HostInfo_set_port (hi_port hi) (HostInfo_set_ip (hi_ip hi) HostInfo_default) in
      add_known_hosts ps mem (GetRouteResponse_add_host (\<lambda>_. HostInfo_CopyFrom host) rsp)))"

definition read_route_hosts ::
  "load_balance_config \<Rightarrow> (nat \<Rightarrow> int) \<Rightarrow> GetRouteResponse \<Rightarrow> load_balance \<Rightarrow> host_heap \<Rightarrow> (u64 set \<times> load_balance \<times> host_heap) res" where
  "read_route_hosts cfg ts rsp lb mem =
     index_loop (\<lambda>i. GetRouteResponse_host i rsp) (GetRouteResponse_host_size rsp)
       (\<lambda>i h (remote_hosts, lb, mem). Inr (insert_hosts cfg ts (nat i) [h] remote_hosts lb mem)) 0 ({}, lb, mem)"

fun add_call_results :: "bool \<Rightarrow> ptr list \<Rightarrow> host_heap \<Rightarrow> ReportStatusRequest \<Rightarrow> ReportStatusRequest res" where
  "add_call_results over [] mem req = Inr req"
| "add_call_results over (p # ps) mem req =
     bindR (deref (hh_hosts mem) p) (\<lambda>hi.
     (let call_res = HostCallResult_set_overload over (HostCallResult_set_err (hi_rerr hi) (HostCallResult_set_succ (hi_rsucc hi)
            (HostCallResult_set_port (hi_port hi) (HostCallResult_set_ip (hi_ip hi) HostCallResult_default)))) in
      add_call_results over ps mem (ReportStatusRequest_add_results (\<lambda>_. HostCallResult_CopyFrom call_res) req)))"

definition build_commit ::
  "int \<Rightarrow> load_balance \<Rightarrow> host_heap \<Rightarrow> ReportStatusRequest thread_queue \<Rightarrow> ReportStatusRequest thread_queue res" where
  "build_commit now lb mem report_queue =
     (if lb_empty lb then Inr report_queue
      else
        (let req = ReportStatusRequest_set_caller 127 (ReportStatusRequest_set_ts (word_of_int now)
               (ReportStatusRequest_set_cmdid (lb_cmdid lb) (ReportStatusRequest_set_modid (lb_modid lb) ReportStatusRequest_default))) in
         bindR (add_call_results False (lb_idle_list lb) mem req) (\<lambda>req.
         bindR (add_call_results True (lb_overload_list lb) mem req) (\<lambda>req.
         Inr (tq_send req report_queue)))))"

section \<open>Report service: reading a report\<close>

definition store_report :: "'d mysql \<Rightarrow> ReportStatusRequest \<Rightarrow> 'd \<Rightarrow> 'd res" where
  "store_report my req db =
     index_loop (\<lambda>i. ReportStatusRequest_results i req) (ReportStatusRequest_results_size req)
       (\<lambda>i result db. Inr (snd (my_query my (snprintf 1024 (store_sql req result)) db))) 0 db"

section \<open>The two ways agree\<close>

lemma add_route_hosts_eq:
  "add_route_hosts ks rsp = rsp\<lparr>grs_host := grs_host rsp @ map (\<lambda>k. \<lparr>pb_ip = key_hi k, pb_port = key_lo k\<rparr>) ks\<rparr>"
  by (induction ks arbitrary: rsp)
    (simp_all add: HostInfo_copy HostInfo_accessors HostInfo_default_def GetRouteResponse_accessors)

lemma add_known_hosts_eq:
  "add_known_hosts ps mem rsp = bindR (host_infos ps mem) (\<lambda>hs. Inr (rsp\<lparr>grs_host := grs_host rsp @ hs\<rparr>))"
  by (induction ps arbitrary: rsp)
    (simp_all add: HostInfo_copy HostInfo_accessors HostInfo_default_def GetRouteResponse_accessors bindR_assoc)

lemma add_call_results_eq:
  "add_call_results over ps mem req = bindR (call_results over ps mem) (\<lambda>rs. Inr (req\<lparr>rsr_results := rsr_results req @ rs\<rparr>))"
  by (induction ps arbitrary: req)
    (simp_all add: HostCallResult_copy HostCallResult_accessors HostCallResult_default_def ReportStatusRequest_accessors bindR_assoc)

lemma mutable_host_eq: "GetHostResponse_mutable_host (\<lambda>hip. HostInfo_set_port p (HostInfo_set_ip i hip)) rsp = rsp\<lparr>ghs_host := Some \<lparr>pb_ip = i, pb_port = p\<rparr>\<rparr>"
  by (cases "ghs_host rsp"; cases "pb_host (ghs_host rsp)")
    (simp_all add: GetHostResponse_accessors HostInfo_accessors HostInfo_default_def pb_host_def)

lemma build_host_answer_eq: "build_host_answer rsp l mem = get_host_from_list rsp l mem"
  by (simp add: build_host_answer_def get_host_from_list_def mutable_host_eq split: list.split)

lemma read_route_hosts_eq:
  "each_from (\<lambda>i h (r, lb, mem). Inr (insert_hosts cfg ts (nat i) [h] r lb mem)) (int n) hs (r, lb, mem) = Inr (insert_hosts cfg ts n hs r lb mem)"
proof (induction hs arbitrary: n r lb mem)
  case (Cons h hs)
  obtain r' lb' mem' where s: "insert_hosts cfg ts n [h] r lb mem = (r', lb', mem')" by (metis prod_cases3)
  have "insert_hosts cfg ts n (h # hs) r lb mem = insert_hosts cfg ts (Suc n) hs r' lb' mem'"
    using s by (auto simp: Let_def split: if_splits)
  then show ?case using Cons [of "Suc n" r' lb' mem'] s by (simp add: add.commute del: insert_hosts.simps)
qed simp

lemma store_report_eq:
  "each_from (\<lambda>i result db. Inr (snd (my_query my (snprintf 1024 (store_sql req result)) db))) i rs db = Inr (store_results my req rs db)"
  by (induction rs arbitrary: i db) simp_all

lemma build_commit_eq: "build_commit now lb mem q = lb_commit now lb mem q"
  by (simp add: build_commit_def lb_commit_def add_call_results_eq bindR_assoc ReportStatusRequest_accessors ReportStatusRequest_default_def Let_def)


end
