(* ===== verification/Inet.thy ===== *)
theory Inet
  imports C_Strings Message
begin

unbundle bit_operations_syntax

text \<open>
  The address functions of the C library that the sources use, for a little-endian host: \<open>ntohl\<close>, \<open>inet_ntoa\<close>, and \<open>inet_aton\<close> in
  all its forms (one to four parts, each decimal, octal or hexadecimal as \<open>strtoul\<close> with base 0 reads it; the last part fills
  the remaining bytes; white space may follow). \<open>None\<close> is the failure of \<open>inet_aton\<close>, which leaves the address as it was.
\<close>

section \<open>Model\<close>

definition ntohl :: "u32 \<Rightarrow> u32" where
  "ntohl w = of_le32 (ucast (drop_bit 24 w)) (ucast (drop_bit 16 w)) (ucast (drop_bit 8 w)) (ucast w)"

definition inet_ntoa :: "u32 \<Rightarrow> string" where
  "inet_ntoa s_addr =
     show_nat (unat (ucast s_addr :: byte)) @ ''.'' @ show_nat (unat (ucast (drop_bit 8 s_addr) :: byte)) @ ''.'' @
     show_nat (unat (ucast (drop_bit 16 s_addr) :: byte)) @ ''.'' @ show_nat (unat (ucast (drop_bit 24 s_addr) :: byte))"

definition digit_val :: "char \<Rightarrow> int" where
  "digit_val c =
     (if is_digit c then code c - 48
      else if 97 \<le> code c \<and> code c \<le> 102 then code c - 87
      else if 65 \<le> code c \<and> code c \<le> 70 then code c - 55
      else 99)"

fun read_digits :: "int \<Rightarrow> int \<Rightarrow> string \<Rightarrow> int \<times> string" where
  "read_digits base acc [] = (acc, [])"
| "read_digits base acc (c # cs) =
     (if digit_val c < base then read_digits base (base * acc + digit_val c) cs else (acc, c # cs))"

text \<open>\<open>strtoul(s, &endp, 0)\<close> on a string that starts with a digit.\<close>

definition strtoul0 :: "string \<Rightarrow> int \<times> string" where
  "strtoul0 s =
     (if take 1 s = ''0'' then
        (if (take 1 (drop 1 s) = ''x'' \<or> take 1 (drop 1 s) = ''X'') \<and> drop 2 s \<noteq> [] \<and> digit_val (hd (drop 2 s)) < 16
         then read_digits 16 0 (drop 2 s)
         else read_digits 8 0 s)
      else read_digits 10 0 s)"

text \<open>The parts in front of the last one, the last one, and the rest of the string; at most \<open>k\<close> further dots.\<close>

fun inet_scan :: "nat \<Rightarrow> int list \<Rightarrow> string \<Rightarrow> (int list \<times> int \<times> string) option" where
  "inet_scan k ps s =
     (if s = [] \<or> \<not> is_digit (hd s) then None
      else
        (case strtoul0 s of (v, r) \<Rightarrow>
         if 4294967295 < v then None
         else if take 1 r = ''.'' then
           (case k of 0 \<Rightarrow> None | Suc k \<Rightarrow> if 255 < v then None else inet_scan k (ps @ [v]) (drop 1 r))
         else Some (ps, v, r)))"

declare inet_scan.simps [simp del]

definition part :: "int list \<Rightarrow> nat \<Rightarrow> byte" where
  "part ps i = (if i < length ps then word_of_int (ps ! i) else 0)"

definition inet_aton :: "string \<Rightarrow> u32 option" where
  "inet_aton s =
     (case inet_scan 3 [] s of
        None \<Rightarrow> None
      | Some (ps, v, r) \<Rightarrow>
          if r \<noteq> [] \<and> \<not> is_space (hd r) then None
          else if 256 ^ (4 - length ps) \<le> v then None
          else Some (of_le32 (part ps 0) (part ps 1) (part ps 2) 0 OR ntohl (word_of_int v)))"

section \<open>Printed addresses are read back\<close>

lemma show_nat_pos: "0 < n \<Longrightarrow> \<exists>d cs. 0 < d \<and> d < 10 \<and> show_nat n = digit_char d # cs"
proof (induction n rule: show_nat.induct)
  case (1 n)
  show ?case
  proof (cases "n < 10")
    case False
    then have "0 < n div 10" by simp
    with 1 False show ?thesis by (auto simp: show_nat.simps [of n])
  qed (use 1 in \<open>auto simp: show_nat.simps [of n]\<close>)
qed

lemma digit_val_digit: "d < 10 \<Longrightarrow> digit_val (digit_char d) = int d"
  by (simp add: digit_val_def digit_char_digit code_digit_char)

lemma read_digits_num:
  assumes "\<forall>c \<in> set ds. is_digit c" "r = [] \<or> 10 \<le> digit_val (hd r)"
  shows "read_digits 10 acc (ds @ r) = (digits acc ds, r)"
  using assms
proof (induction ds arbitrary: acc)
  case Nil
  then show ?case by (cases r) auto
next
  case (Cons c ds)
  have "digit_val c = code c - 48" "digit_val c < 10" using Cons.prems(1) by (auto simp: digit_val_def is_digit_def)
  then show ?case using Cons by simp
qed

lemma strtoul0_show:
  assumes r: "r = [] \<or> hd r = CHR ''.''"
  shows "strtoul0 (show_nat n @ r) = (int n, r)"
proof (cases "n = 0")
  case True
  have d: "digit_val CHR ''.'' = 99" "digit_val CHR ''0'' = 0" by (simp_all add: digit_val_def is_digit_def code_def)
  have z: "show_nat 0 = ''0''" by (simp add: show_nat.simps digit_char_def char_of_def)
  show ?thesis using r True d by (cases r) (auto simp: strtoul0_def z)
next
  case False
  then obtain e cs where e: "0 < e" "e < 10" "show_nat n = digit_char e # cs" using show_nat_pos [of n] by auto
  have "digit_char e \<noteq> CHR ''0''" using code_digit_char [OF e(2)] e(1) by (auto simp: code_def)
  moreover have "read_digits 10 0 (show_nat n @ r) = (int n, r)"
    using r read_digits_num [OF show_nat_digits, of r 0 n] by (auto simp: digits_show_nat digit_val_def is_digit_def code_def)
  ultimately show ?thesis using e(3) by (simp add: strtoul0_def)
qed

lemma inet_scan_show:
  assumes "n < 256"
  shows "inet_scan (Suc k) ps (show_nat n @ CHR ''.'' # r) = inet_scan k (ps @ [int n]) r"
    and "inet_scan k ps (show_nat n) = Some (ps, int n, [])"
proof -
  obtain d cs where d: "d < 10" "show_nat n = digit_char d # cs" using show_nat_Cons by blast
  have v: "\<not> 4294967295 < int n" "\<not> 255 < int n" using assms by simp_all
  show "inet_scan (Suc k) ps (show_nat n @ CHR ''.'' # r) = inet_scan k (ps @ [int n]) r"
    using strtoul0_show [of "CHR ''.'' # r" n] d v digit_char_digit by (simp add: inet_scan.simps [of "Suc k"])
  show "inet_scan k ps (show_nat n) = Some (ps, int n, [])"
    using strtoul0_show [of "[]" n] d v digit_char_digit by (simp add: inet_scan.simps [of k])
qed

lemma of_le32_or: "of_le32 a b c d = ucast a OR push_bit 8 (ucast b) OR push_bit 16 (ucast c) OR push_bit 24 (ucast d)"
proof -
  have h: "bit x n \<Longrightarrow> n < 8" for x :: byte and n using bit_imp_le_length [of x n] by simp
  have "ucast a + push_bit 8 (ucast b) = (ucast a OR push_bit 8 (ucast b) :: u32)"
    by (rule disjunctive_add) (auto simp: bit_simps dest: h)
  moreover have "(ucast a OR push_bit 8 (ucast b)) + push_bit 16 (ucast c) = (ucast a OR push_bit 8 (ucast b) OR push_bit 16 (ucast c) :: u32)"
    unfolding or.assoc [symmetric] by (rule disjunctive_add) (auto simp: bit_simps dest: h)
  moreover have "(ucast a OR push_bit 8 (ucast b) OR push_bit 16 (ucast c)) + push_bit 24 (ucast d) =
      (ucast a OR push_bit 8 (ucast b) OR push_bit 16 (ucast c) OR push_bit 24 (ucast d) :: u32)"
    unfolding or.assoc [symmetric] by (rule disjunctive_add) (auto simp: bit_simps dest: h)
  ultimately show ?thesis by (simp add: of_le32_def)
qed

lemma of_le32_last: "of_le32 a b c 0 OR ntohl (ucast d) = of_le32 a b c d"
proof -
  have h: "bit x n \<Longrightarrow> n < 8" for x :: byte and n using bit_imp_le_length [of x n] by simp
  have "ntohl (ucast d) = push_bit 24 (ucast d)"
    by (rule bit_word_eqI) (auto simp: ntohl_def of_le32_or bit_simps dest: h)
  then show ?thesis by (simp add: of_le32_or or.assoc)
qed

lemma inet_aton_ntoa: "inet_aton (inet_ntoa w) = Some w"
proof -
  let ?b = "\<lambda>i. ucast (drop_bit i w) :: byte"
  have l: "unat (x :: byte) < 256" for x using unsigned_less [of x] by simp
  have i: "word_of_int (int (unat x)) = x" "(word_of_int (int (unat x)) :: u32) = ucast x" for x :: byte
    by simp_all
  have "inet_scan 3 [] (inet_ntoa w) = Some ([int (unat (?b 0)), int (unat (?b 8)), int (unat (?b 16))], int (unat (?b 24)), [])"
    by (simp add: inet_ntoa_def inet_scan_show l numeral_3_eq_3)
  moreover have "uint (?b 24) < 256" using uint_lt2p [of "?b 24"] by simp
  ultimately show ?thesis using of_le32_last [of "?b 0" "?b 8" "?b 16" "?b 24"] of_le32_le32 [of w]
    by (simp add: inet_aton_def part_def i)
qed

end
