(* ===== verification/Tcp_Client.thy ===== *)
theory Tcp_Client
  imports Net_Stream Inet
begin

text \<open>
  The client side of a TCP connection: \<^verbatim>\<open>lars_reactor/include/tcp_client.h\<close> and \<^verbatim>\<open>lars_reactor/src/tcp_client.cpp\<close>. The state has
  the one client object of a client thread, its event loop, the buffer pool, the open descriptors, the bytes written and the state \<open>'x\<close> of the
  application. The results of \<open>socket\<close>, \<open>connect\<close> and \<open>getsockopt\<close> are arguments. Message callbacks and hooks are names; \<open>cli_handlers\<close> gives
  their behaviour. Closing a descriptor also removes it from the kernel's interest list.
\<close>

section \<open>Model\<close>

datatype client_cb = Read_Callback | Write_Callback | Connection_Succ | Queue_Callback

type_synonym client_loop = "(client_cb, unit) event_loop"

record ('cb, 'u, 'h, 'x) client_state =
  cl_pool :: buf_pool
  cl_loop :: client_loop
  cl_sockfd :: int
  cl_obuf :: rbuf
  cl_ibuf :: rbuf
  cl_server_addr :: "u32 \<times> 16 word"
  cl_router :: "('cb, 'u) msg_router"
  cl_conn_start_cb :: "'h option"
  cl_conn_close_cb :: "'h option"
  cl_open :: "int set"
  cl_sent :: "int \<Rightarrow> bytes"
  cl_app :: 'x

record ('cb, 'u, 'h, 'x) cli_handlers =
  cli_message :: "'cb \<Rightarrow> bytes option \<Rightarrow> i32 \<Rightarrow> i32 \<Rightarrow> unit \<Rightarrow> 'u option \<Rightarrow>
    ('cb, 'u, 'h, 'x) client_state \<Rightarrow> ('cb, 'u, 'h, 'x) client_state res"
  cli_hook :: "'h \<Rightarrow> ('cb, 'u, 'h, 'x) client_state \<Rightarrow> ('cb, 'u, 'h, 'x) client_state res"

datatype connect_ans = Connected | Conn_err errno

definition cl_get :: "('cb, 'u, 'h, 'x) client_state \<Rightarrow> (rbuf \<times> buf_pool) res" where
  "cl_get cl = Inr (cl_ibuf cl, cl_pool cl)"

definition cl_put :: "rbuf \<times> buf_pool \<Rightarrow> ('cb, 'u, 'h, 'x) client_state \<Rightarrow> ('cb, 'u, 'h, 'x) client_state" where
  "cl_put x cl = cl\<lparr>cl_ibuf := fst x, cl_pool := snd x\<rparr>"

definition upd_loop :: "(client_loop \<Rightarrow> client_loop) \<Rightarrow> ('cb, 'u, 'h, 'x) client_state \<Rightarrow> ('cb, 'u, 'h, 'x) client_state" where
  "upd_loop f cl = cl\<lparr>cl_loop := f (cl_loop cl)\<rparr>"

definition close_fd :: "int \<Rightarrow> ('cb, 'u, 'h, 'x) client_state \<Rightarrow> ('cb, 'u, 'h, 'x) client_state" where
  "close_fd fd cl = upd_loop (\<lambda>l. l\<lparr>el_epoll := (el_epoll l)(fd := None)\<rparr>) (cl\<lparr>cl_open := cl_open cl - {fd}\<rparr>)"

definition client_hook :: "('cb, 'u, 'h, 'x) cli_handlers \<Rightarrow> 'h option \<Rightarrow> ('cb, 'u, 'h, 'x) client_state \<Rightarrow> ('cb, 'u, 'h, 'x) client_state res" where
  "client_hook hs h cl = (case h of None \<Rightarrow> Inr cl | Some cb \<Rightarrow> cli_hook hs cb cl)"

definition client_send_message ::
  "bytes \<Rightarrow> i32 \<Rightarrow> i32 \<Rightarrow> ('cb, 'u, 'h, 'x) client_state \<Rightarrow> (int \<times> ('cb, 'u, 'h, 'x) client_state) res" where
  "client_send_message data msglen msgid cl =
     bindR (queue_message data msglen msgid (cl_obuf cl) (cl_pool cl)) (\<lambda>(ret, active_epollout, q, st).
     (let cl = cl\<lparr>cl_obuf := q, cl_pool := st\<rparr> in
      Inr (ret, if active_epollout then upd_loop (add_io_event (cl_sockfd cl) Write_Callback EPOLLOUT ()) cl else cl)))"

definition client_clean_conn ::
  "('cb, 'u, 'h, 'x) cli_handlers \<Rightarrow> ('cb, 'u, 'h, 'x) client_state \<Rightarrow> ('cb, 'u, 'h, 'x) client_state res" where
  "client_clean_conn hs cl =
     bindR (client_hook hs (cl_conn_close_cb cl) cl) (\<lambda>cl.
     if cl_sockfd cl \<noteq> -1 then Inr (close_fd (cl_sockfd cl) (upd_loop (del_io_event (cl_sockfd cl)) cl)) else Inr cl)"

definition client_call ::
  "('cb, 'u, 'h, 'x) cli_handlers \<Rightarrow> i32 \<Rightarrow> i32 \<Rightarrow> bytes option \<Rightarrow> ('cb, 'u, 'h, 'x) client_state \<Rightarrow> ('cb, 'u, 'h, 'x) client_state res" where
  "client_call hs msgid msglen data cl = router_call (cli_message hs) msgid msglen data () (cl_router cl) cl"

definition client_do_read ::
  "('cb, 'u, 'h, 'x) cli_handlers \<Rightarrow> int option \<Rightarrow> read_ans list \<Rightarrow> ('cb, 'u, 'h, 'x) client_state \<Rightarrow> ('cb, 'u, 'h, 'x) client_state res" where
  "client_do_read hs = stream_read cl_get cl_put (client_call hs) (client_clean_conn hs)"

definition client_do_write ::
  "('cb, 'u, 'h, 'x) cli_handlers \<Rightarrow> write_ans list list \<Rightarrow> ('cb, 'u, 'h, 'x) client_state \<Rightarrow> ('cb, 'u, 'h, 'x) client_state res" where
  "client_do_write hs answers cl =
     bindR (flush_loop answers [] (cl_obuf cl) (cl_pool cl)) (\<lambda>(failed, out, st).
     (let fd = cl_sockfd cl; cl = cl\<lparr>cl_pool := st, cl_sent := (cl_sent cl)(fd := cl_sent cl fd @ out)\<rparr> in
      if failed then client_clean_conn hs cl
      else bindR (rb_length (cl_obuf cl) st) (\<lambda>len.
           if len = 0 then Inr (upd_loop (del_io_event_mask fd EPOLLOUT) cl) else Inr cl)))"

text \<open>\<open>result\<close> is the pending socket error that \<open>getsockopt\<close> returns.\<close>

definition connection_succ ::
  "('cb, 'u, 'h, 'x) cli_handlers \<Rightarrow> int \<Rightarrow> int \<Rightarrow> ('cb, 'u, 'h, 'x) client_state \<Rightarrow> ('cb, 'u, 'h, 'x) client_state res" where
  "connection_succ hs result fd cl =
     (let cl = upd_loop (del_io_event fd) cl in
      if result = 0 then
        bindR (client_hook hs (cl_conn_start_cb cl) cl) (\<lambda>cl.
        (let cl = upd_loop (add_io_event fd Read_Callback EPOLLIN ()) cl in
         bindR (rb_length (cl_obuf cl) (cl_pool cl)) (\<lambda>len.
         Inr (if len \<noteq> 0 then upd_loop (add_io_event fd Write_Callback EPOLLOUT ()) cl else cl))))
      else Inr cl)"

definition do_connect ::
  "('cb, 'u, 'h, 'x) cli_handlers \<Rightarrow> int \<Rightarrow> connect_ans \<Rightarrow> int \<Rightarrow> ('cb, 'u, 'h, 'x) client_state \<Rightarrow> ('cb, 'u, 'h, 'x) client_state res" where
  "do_connect hs sock ans result cl =
     (let cl = (if cl_sockfd cl \<noteq> -1 then close_fd (cl_sockfd cl) cl else cl); cl = cl\<lparr>cl_sockfd := sock\<rparr> in
      bindR (ensure (sock \<noteq> -1) Exit_1) (\<lambda>_.
      (let cl = cl\<lparr>cl_open := insert sock (cl_open cl)\<rparr> in
       case ans of
         Connected \<Rightarrow> connection_succ hs result sock cl
       | Conn_err e \<Rightarrow>
           if e = EINPROGRESS then Inr (upd_loop (add_io_event sock Connection_Succ EPOLLOUT ()) cl) else Inl Exit_1)))"

text \<open>The constructor. An address that \<open>inet_aton\<close> rejects stays zero; \<open>htons\<close> swaps the bytes of the port.\<close>

definition htons :: "16 word \<Rightarrow> 16 word" where
  "htons w = push_bit 8 w OR drop_bit 8 w"

definition tcp_client_new ::
  "('cb, 'u, 'h, 'x) cli_handlers \<Rightarrow> buf_pool \<Rightarrow> client_loop \<Rightarrow> int set \<Rightarrow> 'x \<Rightarrow> string \<Rightarrow> 16 word \<Rightarrow> int \<Rightarrow> connect_ans \<Rightarrow> int \<Rightarrow>
   ('cb, 'u, 'h, 'x) client_state res" where
  "tcp_client_new hs pool loop fds app ip port sock ans result =
     do_connect hs sock ans result
       \<lparr>cl_pool = pool, cl_loop = loop, cl_sockfd = -1, cl_obuf = reactor_buf_new, cl_ibuf = reactor_buf_new,
        cl_server_addr = (case inet_aton ip of None \<Rightarrow> 0 | Some a \<Rightarrow> a, htons port), cl_router = msg_router_new,
        cl_conn_start_cb = None, cl_conn_close_cb = None, cl_open = fds, cl_sent = (\<lambda>_. []), cl_app = app\<rparr>"

definition client_add_msg_router :: "i32 \<Rightarrow> 'cb \<Rightarrow> 'u \<Rightarrow> ('cb, 'u, 'h, 'x) client_state \<Rightarrow> ('cb, 'u, 'h, 'x) client_state" where
  "client_add_msg_router msgid cb user_data cl = cl\<lparr>cl_router := snd (register_msg_router msgid cb user_data (cl_router cl))\<rparr>"

definition client_set_conn_start :: "'h \<Rightarrow> ('cb, 'u, 'h, 'x) client_state \<Rightarrow> ('cb, 'u, 'h, 'x) client_state" where
  "client_set_conn_start cb cl = cl\<lparr>cl_conn_start_cb := Some cb\<rparr>"

definition client_set_conn_close :: "'h \<Rightarrow> ('cb, 'u, 'h, 'x) client_state \<Rightarrow> ('cb, 'u, 'h, 'x) client_state" where
  "client_set_conn_close cb cl = cl\<lparr>cl_conn_close_cb := Some cb\<rparr>"

section \<open>The contract of the application\<close>

definition client_ok :: "('cb, 'u, 'h, 'x) client_state \<Rightarrow> bool" where
  "client_ok cl \<longleftrightarrow>
     rb_ok (cl_ibuf cl) (cl_pool cl) \<and> rb_ok (cl_obuf cl) (cl_pool cl) \<and> rb_owns (cl_ibuf cl) \<inter> rb_owns (cl_obuf cl) = {} \<and>
     loop_inv (cl_loop cl)"

definition unread_bytes :: "('cb, 'u, 'h, 'x) client_state \<Rightarrow> bytes" where
  "unread_bytes cl = rb_bytes (cl_ibuf cl) (cl_pool cl)"

definition pending :: "('cb, 'u, 'h, 'x) client_state \<Rightarrow> bytes" where
  "pending cl = rb_bytes (cl_obuf cl) (cl_pool cl)"

text \<open>What a callback or hook leaves alone: it may send messages, but not touch the unread bytes, the routing table or the connection.\<close>

definition cl_kept :: "('cb, 'u, 'h, 'x) client_state \<Rightarrow> ('cb, 'u, 'h, 'x) client_state \<Rightarrow> bool" where
  "cl_kept cl cl' \<longleftrightarrow>
     client_ok cl' \<and> cl_ibuf cl' = cl_ibuf cl \<and> unread_bytes cl' = unread_bytes cl \<and> cl_router cl' = cl_router cl \<and>
     cl_sockfd cl' = cl_sockfd cl \<and> cl_open cl' = cl_open cl \<and> rb_head (cl_ibuf cl') (cl_pool cl') = rb_head (cl_ibuf cl) (cl_pool cl)"

definition cli_handlers_ok ::
  "('cb, 'u, 'h, 'x) cli_handlers \<Rightarrow> ('cb \<Rightarrow> 'u option \<Rightarrow> i32 \<times> bytes \<Rightarrow> 'x \<Rightarrow> 'x) \<Rightarrow> ('h \<Rightarrow> 'x \<Rightarrow> 'x) \<Rightarrow> fault set \<Rightarrow> bool" where
  "cli_handlers_ok hs act hact faults \<longleftrightarrow>
     (\<forall>cb d body msgid u cl. client_ok cl \<and> (d = Some body \<or> d = None \<and> body = []) \<longrightarrow>
        (case cli_message hs cb d (of_nat (length body)) msgid () u cl of
           Inl e \<Rightarrow> e \<in> faults
         | Inr cl' \<Rightarrow> cl_kept cl cl' \<and> cl_app cl' = act cb u (msgid, body) (cl_app cl))) \<and>
     (\<forall>h cl. client_ok cl \<longrightarrow>
        (case cli_hook hs h cl of Inl e \<Rightarrow> e \<in> faults | Inr cl' \<Rightarrow> cl_kept cl cl' \<and> cl_app cl' = hact h (cl_app cl)))"

lemma client_okD:
  assumes "client_ok cl"
  shows "rb_ok (cl_ibuf cl) (cl_pool cl)" "rb_ok (cl_obuf cl) (cl_pool cl)" "rb_owns (cl_ibuf cl) \<inter> rb_owns (cl_obuf cl) = {}"
    "rb_owns (cl_obuf cl) \<inter> rb_owns (cl_ibuf cl) = {}" "loop_inv (cl_loop cl)"
  using assms unfolding client_ok_def by blast+

lemma cl_kept_refl: "client_ok cl \<Longrightarrow> cl_kept cl cl"
  by (simp add: cl_kept_def)

text \<open>Replacing one of the two buffers by the result of an operation on it.\<close>

lemma cl_put_ok:
  assumes "client_ok cl" "rb_ok q st" "rb_frame (cl_ibuf cl) (cl_pool cl) q st"
  shows "client_ok (cl_put (q, st) cl)" "pending (cl_put (q, st) cl) = pending cl"
proof -
  have "pool_inv st" using assms(2) by (simp add: rb_ok_def)
  from rb_frame_other [OF assms(3) this client_okD(2,4) [OF assms(1)]] client_okD [OF assms(1)] assms(2)
  show "client_ok (cl_put (q, st) cl)" "pending (cl_put (q, st) cl) = pending cl"
    by (auto simp: client_ok_def cl_put_def pending_def)
qed

lemma put_out_ok:
  assumes "client_ok cl" "rb_ok q st" "rb_frame (cl_obuf cl) (cl_pool cl) q st"
  shows "client_ok (cl\<lparr>cl_obuf := q, cl_pool := st\<rparr>)" "unread_bytes (cl\<lparr>cl_obuf := q, cl_pool := st\<rparr>) = unread_bytes cl"
    "rb_head (cl_ibuf cl) st = rb_head (cl_ibuf cl) (cl_pool cl)"
proof -
  have "pool_inv st" using assms(2) by (simp add: rb_ok_def)
  from rb_frame_other [OF assms(3) this client_okD(1,3) [OF assms(1)]] client_okD [OF assms(1)] assms(2)
  show "client_ok (cl\<lparr>cl_obuf := q, cl_pool := st\<rparr>)" "unread_bytes (cl\<lparr>cl_obuf := q, cl_pool := st\<rparr>) = unread_bytes cl"
      "rb_head (cl_ibuf cl) st = rb_head (cl_ibuf cl) (cl_pool cl)"
    by (auto simp: client_ok_def unread_bytes_def)
qed

lemma upd_loop_fields [simp]:
  "cl_pool (upd_loop f cl) = cl_pool cl" "cl_loop (upd_loop f cl) = f (cl_loop cl)" "cl_sockfd (upd_loop f cl) = cl_sockfd cl"
  "cl_obuf (upd_loop f cl) = cl_obuf cl" "cl_ibuf (upd_loop f cl) = cl_ibuf cl" "cl_router (upd_loop f cl) = cl_router cl"
  "cl_conn_start_cb (upd_loop f cl) = cl_conn_start_cb cl" "cl_conn_close_cb (upd_loop f cl) = cl_conn_close_cb cl"
  "cl_open (upd_loop f cl) = cl_open cl" "cl_sent (upd_loop f cl) = cl_sent cl" "cl_app (upd_loop f cl) = cl_app cl"
  "unread_bytes (upd_loop f cl) = unread_bytes cl" "pending (upd_loop f cl) = pending cl"
  by (simp_all add: upd_loop_def unread_bytes_def pending_def)

lemma upd_loop_ok: "client_ok cl \<Longrightarrow> loop_inv (f (cl_loop cl)) \<Longrightarrow> client_ok (upd_loop f cl)"
  by (simp add: client_ok_def)

lemma client_hook_ok:
  assumes "cli_handlers_ok hs act hact faults" "client_ok cl"
  shows "case client_hook hs h cl of
      Inl e \<Rightarrow> e \<in> faults
    | Inr cl' \<Rightarrow> cl_kept cl cl' \<and> cl_app cl' = (case h of None \<Rightarrow> cl_app cl | Some cb \<Rightarrow> hact cb (cl_app cl))"
proof (cases h)
  case (Some cb)
  have "case cli_hook hs cb cl of Inl e \<Rightarrow> e \<in> faults | Inr cl' \<Rightarrow> cl_kept cl cl' \<and> cl_app cl' = hact cb (cl_app cl)"
    using assms unfolding cli_handlers_ok_def by blast
  then show ?thesis unfolding Some client_hook_def option.case .
qed (simp add: client_hook_def cl_kept_refl [OF assms(2)])

text \<open>The socket is closed and forgotten by the loop; the buffers keep their contents.\<close>

definition disconnected :: "int \<Rightarrow> ('cb, 'u, 'h, 'x) client_state \<Rightarrow> bool" where
  "disconnected fd cl \<longleftrightarrow> fd \<notin> cl_open cl \<and> el_io_evs (cl_loop cl) fd = None \<and> el_epoll (cl_loop cl) fd = None"

lemma client_clean_conn_ok:
  assumes hs: "cli_handlers_ok hs act hact faults" and inv: "client_ok cl" and fd: "cl_sockfd cl \<noteq> -1"
  shows "case client_clean_conn hs cl of
      Inl e \<Rightarrow> e \<in> faults
    | Inr cl' \<Rightarrow> client_ok cl' \<and> disconnected (cl_sockfd cl) cl' \<and> cl_ibuf cl' = cl_ibuf cl \<and> unread_bytes cl' = unread_bytes cl \<and>
        cl_router cl' = cl_router cl \<and> cl_sockfd cl' = cl_sockfd cl"
proof (cases "client_hook hs (cl_conn_close_cb cl) cl")
  case (Inl e)
  then show ?thesis using client_hook_ok [OF hs inv, of "cl_conn_close_cb cl"] by (simp add: client_clean_conn_def)
next
  case (Inr c1)
  then have k: "cl_kept cl c1" using client_hook_ok [OF hs inv, of "cl_conn_close_cb cl"] by simp
  let ?fd = "cl_sockfd cl"
  have same: "el_epoll (del_io_event ?fd l) ?fd = None" for l :: client_loop by (simp add: del_io_event_def)
  then have close: "(del_io_event ?fd l)\<lparr>el_epoll := (el_epoll (del_io_event ?fd l))(?fd := None)\<rparr> = del_io_event ?fd l" for l :: client_loop
    by (simp add: fun_upd_idem)
  let ?c = "upd_loop (del_io_event ?fd) (c1\<lparr>cl_open := cl_open c1 - {?fd}\<rparr>)"
  have "client_clean_conn hs cl = Inr ?c"
    using Inr k fd close by (simp add: client_clean_conn_def cl_kept_def close_fd_def upd_loop_def)
  moreover have "client_ok ?c"
    using k loop_inv_del [of "cl_loop c1" ?fd] by (auto simp: cl_kept_def client_ok_def)
  ultimately show ?thesis
    using k same by (auto simp: cl_kept_def disconnected_def unread_bytes_def del_io_event_def)
qed

section \<open>Reading\<close>

definition cl_reading :: "int \<Rightarrow> ('cb, 'u) msg_router \<Rightarrow> ('cb, 'u, 'h, 'x) client_state \<Rightarrow> bool" where
  "cl_reading fd r cl \<longleftrightarrow> client_ok cl \<and> cl_router cl = r \<and> cl_sockfd cl = fd"

lemma client_call_ok:
  assumes hs: "cli_handlers_ok hs act hact faults" and inv: "cl_reading fd r cl" and d: "d = Some body \<or> d = None \<and> body = []"
  shows "case client_call hs msgid (of_nat (length body)) d cl of
      Inl e \<Rightarrow> e \<in> faults
    | Inr cl' \<Rightarrow> cl_kept cl cl' \<and> cl_app cl' = app_step act r (msgid, body) (cl_app cl)"
proof (cases "mr_router r msgid")
  case None
  then show ?thesis using inv cl_kept_refl [of cl] by (simp add: client_call_def router_call_def cl_reading_def app_step_def)
next
  case (Some cb)
  have r: "client_ok cl" "cl_router cl = r" using inv by (simp_all add: cl_reading_def)
  then have "case cli_message hs cb d (of_nat (length body)) msgid () (mr_args r msgid) cl of
      Inl e \<Rightarrow> e \<in> faults
    | Inr cl' \<Rightarrow> cl_kept cl cl' \<and> cl_app cl' = act cb (mr_args r msgid) (msgid, body) (cl_app cl)"
    using hs d unfolding cli_handlers_ok_def by blast
  then show ?thesis using Some r(2) by (simp add: client_call_def router_call_def app_step_def split: sum.splits)
qed

locale client_app =
  fixes hs :: "('cb, 'u, 'h, 'x) cli_handlers" and act :: "'cb \<Rightarrow> 'u option \<Rightarrow> i32 \<times> bytes \<Rightarrow> 'x \<Rightarrow> 'x"
    and hact :: "'h \<Rightarrow> 'x \<Rightarrow> 'x" and faults :: "fault set" and fd :: int and r :: "('cb, 'u) msg_router"
  assumes contract: "cli_handlers_ok hs act hact faults"

sublocale client_app \<subseteq> cli_in: stream_input cl_get cl_put "client_call hs" "client_clean_conn hs" "cl_reading fd r" cl_app
  "app_step act r" faults
proof unfold_locales
  fix cl :: "('cb, 'u, 'h, 'x) client_state"
  assume "cl_reading fd r cl"
  then show "\<exists>q st. cl_get cl = Inr (q, st) \<and> rb_ok q st" using client_okD(1) by (auto simp: cl_get_def cl_reading_def)
next
  fix cl :: "('cb, 'u, 'h, 'x) client_state" and q st q' st'
  assume r: "cl_reading fd r cl" "cl_get cl = Inr (q, st)" "rb_ok q' st'" "rb_frame q st q' st'"
  then have "client_ok (cl_put (q', st') cl)" by (intro cl_put_ok(1)) (auto simp: cl_reading_def cl_get_def)
  then show "cl_reading fd r (cl_put (q', st') cl) \<and> cl_get (cl_put (q', st') cl) = Inr (q', st') \<and> cl_app (cl_put (q', st') cl) = cl_app cl"
    using r(1) by (simp add: cl_reading_def cl_get_def cl_put_def)
next
  fix cl :: "('cb, 'u, 'h, 'x) client_state" and q st msgid and d :: "bytes option" and body
  assume r: "cl_reading fd r cl" "cl_get cl = Inr (q, st)" "d = Some body \<or> d = None \<and> body = []"
  then show "case client_call hs msgid (of_nat (length body)) d cl of
      Inl e \<Rightarrow> e \<in> faults
    | Inr cl' \<Rightarrow> cl_reading fd r cl' \<and> cl_app cl' = app_step act r (msgid, body) (cl_app cl) \<and>
        (\<exists>st'. cl_get cl' = Inr (q, st') \<and> rb_bytes q st' = rb_bytes q st)"
    using client_call_ok [OF contract r(1,3), of msgid]
    by (auto simp: cl_kept_def cl_reading_def cl_get_def unread_bytes_def split: sum.splits)
qed

context client_app
begin

lemma client_read_outcome:
  assumes inv: "cl_reading fd r cl" and fd: "fd \<noteq> -1" and hd: "rb_head (cl_ibuf cl) (cl_pool cl) = 0"
    and n: "0 < n" "n + int (length (unread_bytes cl)) \<le> 8388608"
    and kernel: "sys_read (nat n) as = Inr (Rd bs)" "length bs = nat n"
    and split: "parse_frames (unread_bytes cl @ bs) = (ms, rest, e)"
  shows "case client_do_read hs (Some n) as cl of
      Inl f \<Rightarrow> f = Exit_1 \<or> f \<in> faults \<or> f = Assert_Failed \<and> empty_tail ms rest
    | Inr cl' \<Rightarrow> \<not> empty_tail ms rest \<and> client_ok cl' \<and>
        (if e = Malformed then disconnected fd cl'
         else cl_app cl' = fold (app_step act r) ms (cl_app cl) \<and> unread_bytes cl' = rest \<and> rb_head (cl_ibuf cl') (cl_pool cl') = 0)"
proof -
  have u: "cli_in.unread c = unread_bytes c" for c by (simp add: cli_in.unread_def cl_get_def unread_bytes_def)
  have g: "cl_get cl = Inr (cl_ibuf cl, cl_pool cl)" by (simp add: cl_get_def)
  have post: "cli_in.read_post (ms, rest, e) cl (client_do_read hs (Some n) as cl)"
    using cli_in.stream_read_ok [OF inv g hd n(1) n(2) [folded u] kernel] split by (simp add: u client_do_read_def)
  have fin: "case bindR (client_clean_conn hs w) (adjust_input cl_get cl_put) of
      Inl f \<Rightarrow> f \<in> faults | Inr cl' \<Rightarrow> client_ok cl' \<and> disconnected fd cl'" if w: "cl_reading fd r w" for w
  proof (cases "client_clean_conn hs w")
    case (Inl f)
    then show ?thesis using client_clean_conn_ok [OF contract, of w] w fd by (simp add: cl_reading_def)
  next
    case (Inr w')
    then have c: "client_ok w'" "disconnected fd w'" "cl_reading fd r w'"
      using client_clean_conn_ok [OF contract, of w] w fd by (simp_all add: cl_reading_def)
    obtain w2 where w2: "adjust_input cl_get cl_put w' = Inr w2" "cl_reading fd r w2"
      using cli_in.adjust_input_ok [OF c(3)] by blast
    then have "cl_open w2 = cl_open w'" "cl_loop w2 = cl_loop w'"
      by (auto simp: adjust_input_def bindR_eq_Inr cl_get_def cl_put_def)
    then show ?thesis using c w2 Inr by (simp add: disconnected_def cl_reading_def)
  qed
  show ?thesis
  proof (cases "client_do_read hs (Some n) as cl")
    case (Inl f)
    then show ?thesis using post fin by (fastforce simp: cli_in.read_post_def)
  next
    case (Inr cl')
    show ?thesis
    proof (cases "e = Malformed")
      case True
      then obtain w where "\<not> empty_tail ms rest" "cl_reading fd r w" "bindR (client_clean_conn hs w) (adjust_input cl_get cl_put) = Inr cl'"
        using post Inr by (auto simp: cli_in.read_post_def)
      with fin [of w] True Inr show ?thesis by simp
    next
      case False
      then show ?thesis using post Inr by (auto simp: cli_in.read_post_def u cl_reading_def cl_get_def)
    qed
  qed
qed

end

text \<open>
  The contract of a client whose callbacks are described by an invariant that may depend on the messages still to be delivered; it says more than \<open>client_app\<close> when
  a callback succeeds only for certain messages.
\<close>

locale client_session =
  fixes hs :: "('cb, 'u, 'h, 'x) cli_handlers" and fd :: int and r :: "('cb, 'u) msg_router"
    and J :: "(i32 \<times> bytes) list \<Rightarrow> ('cb, 'u, 'h, 'x) client_state \<Rightarrow> bool" and faults :: "fault set"
  assumes message_ok: "cl_reading fd r cl \<Longrightarrow> J ((msgid, body) # ms) cl \<Longrightarrow> d = Some body \<or> d = None \<and> body = [] \<Longrightarrow>
      (case client_call hs msgid (of_nat (length body)) d cl of Inl e \<Rightarrow> e \<in> faults | Inr cl' \<Rightarrow> cl_kept cl cl' \<and> J ms cl')"
    and input_ok: "cl_reading fd r cl \<Longrightarrow> J ms cl \<Longrightarrow> rb_ok q st \<Longrightarrow> rb_frame (cl_ibuf cl) (cl_pool cl) q st \<Longrightarrow> J ms (cl_put (q, st) cl)"

sublocale client_session \<subseteq> cli_in: stream_handler cl_get cl_put "client_call hs" "client_clean_conn hs" "\<lambda>ms cl. cl_reading fd r cl \<and> J ms cl" faults
proof unfold_locales
  fix ms and cl :: "('cb, 'u, 'h, 'x) client_state"
  assume "cl_reading fd r cl \<and> J ms cl"
  then show "\<exists>q st. cl_get cl = Inr (q, st) \<and> rb_ok q st" using client_okD(1) by (auto simp: cl_get_def cl_reading_def)
next
  fix ms and cl :: "('cb, 'u, 'h, 'x) client_state" and q st q' st'
  assume r: "cl_reading fd r cl \<and> J ms cl" "cl_get cl = Inr (q, st)" "rb_ok q' st'" "rb_frame q st q' st'"
  then have "client_ok (cl_put (q', st') cl)" by (intro cl_put_ok(1)) (auto simp: cl_reading_def cl_get_def)
  then show "(cl_reading fd r (cl_put (q', st') cl) \<and> J ms (cl_put (q', st') cl)) \<and> cl_get (cl_put (q', st') cl) = Inr (q', st')"
    using r input_ok [of cl ms q' st'] by (simp add: cl_reading_def cl_get_def cl_put_def)
next
  fix msgid and body :: bytes and ms and cl :: "('cb, 'u, 'h, 'x) client_state" and q st and d :: "bytes option"
  assume r: "cl_reading fd r cl \<and> J ((msgid, body) # ms) cl" "cl_get cl = Inr (q, st)" "d = Some body \<or> d = None \<and> body = []"
  then show "case client_call hs msgid (of_nat (length body)) d cl of
      Inl e \<Rightarrow> e \<in> faults
    | Inr cl' \<Rightarrow> (cl_reading fd r cl' \<and> J ms cl') \<and> (\<exists>st'. cl_get cl' = Inr (q, st') \<and> rb_bytes q st' = rb_bytes q st)"
    using message_ok [of cl msgid body ms d]
    by (auto simp: cl_kept_def cl_reading_def cl_get_def unread_bytes_def split: sum.splits)
qed

context client_session
begin

lemma client_read_session:
  assumes inv: "cl_reading fd r cl" "J ms cl" and hd: "rb_head (cl_ibuf cl) (cl_pool cl) = 0"
    and n: "0 < n" "n + int (length (unread_bytes cl)) \<le> 8388608"
    and kernel: "sys_read (nat n) as = Inr (Rd bs)" "length bs = nat n"
    and split: "parse_frames (unread_bytes cl @ bs) = (ms, rest, Incomplete)"
  shows "case client_do_read hs (Some n) as cl of
      Inl f \<Rightarrow> f = Exit_1 \<or> f \<in> faults \<or> f = Assert_Failed \<and> empty_tail ms rest
    | Inr cl' \<Rightarrow> \<not> empty_tail ms rest \<and> cl_reading fd r cl' \<and> J [] cl' \<and> unread_bytes cl' = rest \<and> rb_head (cl_ibuf cl') (cl_pool cl') = 0"
proof -
  have u: "cli_in.unread c = unread_bytes c" for c by (simp add: cli_in.unread_def cl_get_def unread_bytes_def)
  have g: "cl_get cl = Inr (cl_ibuf cl, cl_pool cl)" by (simp add: cl_get_def)
  have "cli_in.read_post (ms, rest, Incomplete) (client_do_read hs (Some n) as cl)"
    using cli_in.stream_read_ok [OF _ g hd n(1) n(2) [folded u] kernel] inv split by (simp add: u client_do_read_def)
  then show ?thesis by (auto simp: cli_in.read_post_def u cl_get_def split: sum.splits)
qed

end

section \<open>Writing\<close>

definition cl_watch_write :: "('cb, 'u, 'h, 'x) client_state \<Rightarrow> bool" where
  "cl_watch_write cl \<longleftrightarrow>
     (\<exists>m e. el_epoll (cl_loop cl) (cl_sockfd cl) = Some m \<and> m AND EPOLLOUT \<noteq> 0 \<and> el_io_evs (cl_loop cl) (cl_sockfd cl) = Some e \<and>
        ev_write_callback e = Some Write_Callback)"

text \<open>Everything given to \<open>send_message\<close> so far: the bytes written to the socket and the bytes pending.\<close>

definition stream_of :: "('cb, 'u, 'h, 'x) client_state \<Rightarrow> bytes" where
  "stream_of cl = cl_sent cl (cl_sockfd cl) @ pending cl"

definition cl_out :: "('cb, 'u, 'h, 'x) client_state \<Rightarrow> bool" where
  "cl_out cl \<longleftrightarrow> client_ok cl \<and> rb_head (cl_obuf cl) (cl_pool cl) = 0 \<and> (pending cl \<noteq> [] \<longrightarrow> cl_watch_write cl)"

lemma watch_add: "loop_inv (cl_loop cl) \<Longrightarrow> cl_watch_write (upd_loop (add_io_event (cl_sockfd cl) Write_Callback EPOLLOUT ()) cl)"
  by (simp add: cl_watch_write_def add_io_event_shape Let_def bit.conj_disj_distrib2 or_eq_0_iff)

lemma cl_put_out:
  assumes "cl_out cl" "rb_ok q st" "rb_frame (cl_ibuf cl) (cl_pool cl) q st"
  shows "cl_out (cl_put (q, st) cl)" "stream_of (cl_put (q, st) cl) = stream_of cl"
proof -
  have ok: "client_ok cl" using assms(1) by (simp add: cl_out_def)
  note put = cl_put_ok [OF ok assms(2,3)]
  have "pool_inv st" using assms(2) by (simp add: rb_ok_def)
  from rb_frame_other [OF assms(3) this client_okD(2,4) [OF ok]] have "rb_head (cl_obuf cl) st = rb_head (cl_obuf cl) (cl_pool cl)" by simp
  with put assms(1) show "cl_out (cl_put (q, st) cl)" by (simp add: cl_out_def cl_watch_write_def cl_put_def)
  from put(2) show "stream_of (cl_put (q, st) cl) = stream_of cl" by (simp add: stream_of_def) (simp add: cl_put_def)
qed

lemma client_send_message_ok:
  assumes inv: "cl_out cl" and len: "int (length data) < 2 ^ 31" and fits: "8 + int (length data) + int (length (pending cl)) \<le> 8388608"
  shows "case client_send_message data (of_nat (length data)) msgid cl of
      Inl e \<Rightarrow> e = Exit_1
    | Inr (ret, cl') \<Rightarrow> ret = 0 \<and> cl_out cl' \<and> pending cl' = pending cl @ frame (msgid, data) \<and> cl_sent cl' = cl_sent cl \<and>
        cl_kept cl cl' \<and> cl_app cl' = cl_app cl \<and>
        cl_loop cl' = (if pending cl = [] then add_io_event (cl_sockfd cl) Write_Callback EPOLLOUT () (cl_loop cl) else cl_loop cl)"
proof -
  have i: "client_ok cl" "rb_head (cl_obuf cl) (cl_pool cl) = 0" "pending cl \<noteq> [] \<Longrightarrow> cl_watch_write cl"
    using inv by (auto simp: cl_out_def)
  have sl: "sint (of_nat (length data) :: i32) = int (length data)" using len by (intro sint_of_nat_small) simp
  have q: "case queue_message data (of_nat (length data)) msgid (cl_obuf cl) (cl_pool cl) of
      Inl e \<Rightarrow> e = Exit_1
    | Inr (ret, active, q', st') \<Rightarrow> ret = 0 \<and> (active \<longleftrightarrow> pending cl = []) \<and> appended (frame (msgid, data)) (cl_obuf cl) (cl_pool cl) q' st'"
    unfolding pending_def
    by (rule queue_message_ok) (use i(2) fits sl client_okD(2) [OF i(1)] in \<open>simp_all add: pending_def\<close>)
  show ?thesis
  proof (cases "queue_message data (of_nat (length data)) msgid (cl_obuf cl) (cl_pool cl)")
    case (Inl e)
    then show ?thesis using q by (simp add: client_send_message_def)
  next
    case (Inr x)
    then obtain active q' st' where x: "x = (0, active, q', st')" "active \<longleftrightarrow> pending cl = []"
        and ap: "appended (frame (msgid, data)) (cl_obuf cl) (cl_pool cl) q' st'" using q by (cases x) auto
    let ?c = "cl\<lparr>cl_obuf := q', cl_pool := st'\<rparr>"
    let ?c' = "if active then upd_loop (add_io_event (cl_sockfd ?c) Write_Callback EPOLLOUT ()) ?c else ?c"
    have ap': "rb_ok q' st'" "rb_frame (cl_obuf cl) (cl_pool cl) q' st'" using ap by (simp_all add: appended_def)
    note c = put_out_ok [OF i(1) ap']
    have "client_ok ?c'" using c(1) loop_inv_add_out [OF client_okD(5) [OF i(1)]] by (auto intro!: upd_loop_ok)
    moreover have "cl_watch_write ?c'"
      using i(3) x(2) watch_add [of ?c] client_okD(5) [OF i(1)] by (auto simp: cl_watch_write_def)
    moreover have "pending ?c' = pending cl @ frame (msgid, data)" "rb_head (cl_obuf ?c') (cl_pool ?c') = 0"
      using ap by (auto simp: pending_def appended_def)
    ultimately have "cl_out ?c'" by (simp add: cl_out_def)
    moreover have "cl_kept cl ?c'" using c \<open>client_ok ?c'\<close> by (simp add: cl_kept_def)
    moreover have "client_send_message data (of_nat (length data)) msgid cl = Inr (0, ?c')"
      using Inr x by (simp add: client_send_message_def Let_def)
    ultimately show ?thesis using \<open>pending ?c' = _\<close> x(2) by simp
  qed
qed

lemma client_do_write_ok:
  assumes inv: "cl_out cl" and ne: "no_error answers"
  shows "case client_do_write hs answers cl of
      Inl e \<Rightarrow> e = Blocked
    | Inr cl' \<Rightarrow> cl_out cl' \<and> stream_of cl' = stream_of cl \<and> cl_kept cl cl' \<and> cl_app cl' = cl_app cl \<and>
        cl_loop cl' = (if pending cl' = [] then del_io_event_mask (cl_sockfd cl) EPOLLOUT (cl_loop cl) else cl_loop cl)"
proof -
  have i: "client_ok cl" "rb_head (cl_obuf cl) (cl_pool cl) = 0" "pending cl \<noteq> [] \<Longrightarrow> cl_watch_write cl"
    using inv by (auto simp: cl_out_def)
  note fl = flush_loop_ok [OF client_okD(2) [OF i(1)] i(2), where answers = answers and out = "[]"]
  show ?thesis
  proof (cases "flush_loop answers [] (cl_obuf cl) (cl_pool cl)")
    case (Inl e)
    then show ?thesis using fl by (simp add: client_do_write_def)
  next
    case (Inr x)
    obtain f out st where "x = (f, out, st)" by (cases x)
    moreover from this have "\<not> f" using flush_loop_no_error [OF ne] Inr by blast
    ultimately have x: "flush_loop answers [] (cl_obuf cl) (cl_pool cl) = Inr (False, out, st)" using Inr by simp
    with fl have f: "rb_ok (cl_obuf cl) st" "rb_head (cl_obuf cl) st = 0" "rb_frame (cl_obuf cl) (cl_pool cl) (cl_obuf cl) st"
        "out @ rb_bytes (cl_obuf cl) st = pending cl" by (auto simp: pending_def)
    let ?fd = "cl_sockfd cl"
    let ?base = "cl\<lparr>cl_pool := st\<rparr>"
    let ?c = "?base\<lparr>cl_sent := (cl_sent cl)(?fd := cl_sent cl ?fd @ out)\<rparr>"
    let ?c' = "if rb_bytes (cl_obuf cl) st = [] then upd_loop (del_io_event_mask ?fd EPOLLOUT) ?c else ?c"
    have "cl\<lparr>cl_obuf := cl_obuf cl, cl_pool := st\<rparr> = ?base" by simp
    then have c0: "client_ok ?base" "unread_bytes ?base = unread_bytes cl" using put_out_ok(1,2) [OF i(1) f(1,3)] by simp_all
    have h0: "rb_head (cl_ibuf cl) st = rb_head (cl_ibuf cl) (cl_pool cl)" by (rule put_out_ok(3) [OF i(1) f(1,3)])
    have c: "client_ok ?c'" "unread_bytes ?c' = unread_bytes cl"
      using c0 loop_inv_del_mask [OF client_okD(5) [OF i(1)]] by (simp_all add: client_ok_def unread_bytes_def)
    have p: "pending ?c' = rb_bytes (cl_obuf cl) st" by (simp add: pending_def)
    have "cl_watch_write ?c'" if "pending ?c' \<noteq> []"
    proof -
      have "pending cl \<noteq> []" using that p f(4) by force
      then show ?thesis using i(3) that p by (auto simp: cl_watch_write_def)
    qed
    then have "cl_out ?c'" using c f(2) by (simp add: cl_out_def)
    moreover have "client_do_write hs answers cl = Inr ?c'"
      using x rb_length_bytes [OF f(1)] by (simp add: client_do_write_def Let_def)
    moreover have sent: "cl_sent ?c' ?fd = cl_sent cl ?fd @ out" "cl_sockfd ?c' = ?fd" by simp_all
    have "stream_of ?c' = stream_of cl" by (simp only: stream_of_def sent p append_assoc f(4))
    moreover have "cl_loop ?c' = (if pending ?c' = [] then del_io_event_mask ?fd EPOLLOUT (cl_loop cl) else cl_loop cl)" unfolding p by simp
    ultimately show ?thesis using c h0 by (simp add: cl_kept_def)
  qed
qed

section \<open>Properties\<close>

text \<open>A client whose connection is being established on descriptor 6, with nothing read or queued.\<close>

definition demo_client :: "(unit, unit, unit, (i32 \<times> bytes) list) client_state" where
  "demo_client = \<lparr>cl_pool = boot_pool, cl_loop = add_io_event 6 Connection_Succ EPOLLOUT () event_loop_new, cl_sockfd = 6, cl_obuf = None, cl_ibuf = None,
     cl_server_addr = (0, 0), cl_router = snd (register_msg_router 3 () () msg_router_new), cl_conn_start_cb = None, cl_conn_close_cb = None,
     cl_open = {6}, cl_sent = (\<lambda>_. []), cl_app = []\<rparr>"

definition log_client :: "(unit, unit, unit, (i32 \<times> bytes) list) cli_handlers" where
  "log_client = \<lparr>cli_message = (\<lambda>cb data len msgid conn u cl. Inr (cl\<lparr>cl_app := cl_app cl @ [(msgid, case data of None \<Rightarrow> [] | Some bs \<Rightarrow> bs)]\<rparr>)),
     cli_hook = (\<lambda>h. Inr)\<rparr>"

lemma demo_client_ok: "client_ok demo_client"
  by (simp add: client_ok_def demo_client_def loop_inv_add_out loop_inv_new)

lemma log_client_ok: "cli_handlers_ok log_client (\<lambda>cb u m x. x @ [m]) (\<lambda>h x. x) {}"
  by (auto simp: cli_handlers_ok_def log_client_def cl_kept_def client_ok_def unread_bytes_def)

interpretation logger: client_app log_client "\<lambda>cb u m x. x @ [m]" "\<lambda>h x. x" "{}" fd r for fd r
  by unfold_locales (rule log_client_ok)

text \<open>
  C18 [client_read_dispatches]. When the kernel announces and delivers \<open>n\<close> bytes, the client runs the registered callbacks exactly on the
  complete messages of its unread bytes followed by the new ones, in order, each once, and keeps exactly the incomplete rest; an illegal length
  closes the socket and removes it from the loop. The loop terminates, and aborts only if a callback does, if the pool is exhausted, or on a
  message with an empty body at the end of the received bytes.
\<close>

theorem client_read_dispatches:
  assumes "cli_handlers_ok hs act hact faults" "client_ok cl" "cl_sockfd cl \<noteq> -1" "rb_head (cl_ibuf cl) (cl_pool cl) = 0"
    and "0 < n" "n + int (length (unread_bytes cl)) \<le> 8388608"
    and "sys_read (nat n) as = Inr (Rd bs)" "length bs = nat n"
    and "parse_frames (unread_bytes cl @ bs) = (ms, rest, e)"
  shows "case client_do_read hs (Some n) as cl of
      Inl f \<Rightarrow> f = Exit_1 \<or> f \<in> faults \<or> f = Assert_Failed \<and> empty_tail ms rest
    | Inr cl' \<Rightarrow> \<not> empty_tail ms rest \<and> client_ok cl' \<and>
        (if e = Malformed then disconnected (cl_sockfd cl) cl'
         else cl_app cl' = fold (app_step act (cl_router cl)) ms (cl_app cl) \<and> unread_bytes cl' = rest \<and>
              rb_head (cl_ibuf cl') (cl_pool cl') = 0)"
proof -
  have "client_app hs act hact faults" by (rule client_app.intro [OF assms(1)])
  moreover have "cl_reading (cl_sockfd cl) (cl_router cl) cl" using assms(2) by (simp add: cl_reading_def)
  ultimately show ?thesis by (rule client_app.client_read_outcome [OF _ _ assms(3-9)])
qed

theorem client_read_dispatches_witness:
  "case client_do_read log_client (Some 12) [Rd (frame (3, [5, 6]) @ [1, 0])] demo_client of
     Inl f \<Rightarrow> f = Exit_1
   | Inr cl' \<Rightarrow> cl_app cl' = [(3, [5, 6])] \<and> unread_bytes cl' = [1, 0]"
proof -
  let ?bs = "frame (3, [5, 6]) @ [1, 0]"
  have u: "unread_bytes demo_client = []" "rb_head (cl_ibuf demo_client) (cl_pool demo_client) = 0" "cl_sockfd demo_client \<noteq> -1"
      "cl_app demo_client = []" "mr_router (cl_router demo_client) 3 = Some ()"
    by (simp_all add: unread_bytes_def demo_client_def register_msg_router_def msg_router_new_def)
  have pf: "parse_frames ?bs = ([(3, [5, 6])], [1, 0], Incomplete)"
    using parse_frames_concat [of "[(3, [5, 6])]" "[1, 0]"]
    by (simp add: MESSAGE_LENGTH_LIMIT_def MESSAGE_HEAD_LEN_def parse_frames.simps [of "[1, 0]"])
  have l: "length ?bs = nat 12" by (simp add: frame_def)
  have "case client_do_read log_client (Some 12) [Rd ?bs] demo_client of
      Inl f \<Rightarrow> f = Exit_1 \<or> f \<in> {} \<or> f = Assert_Failed \<and> empty_tail [(3, [5, 6])] [1, 0]
    | Inr cl' \<Rightarrow> \<not> empty_tail [(3, [5, 6])] [1, 0] \<and> client_ok cl' \<and>
        (if Incomplete = Malformed then disconnected (cl_sockfd demo_client) cl'
         else cl_app cl' = fold (app_step (\<lambda>cb u m x. x @ [m]) (cl_router demo_client)) [(3, [5, 6])] (cl_app demo_client) \<and>
              unread_bytes cl' = [1, 0] \<and> rb_head (cl_ibuf cl') (cl_pool cl') = 0)"
    by (rule client_read_dispatches [OF log_client_ok demo_client_ok u(3,2), where bs = ?bs]) (use l pf in \<open>simp_all add: u(1)\<close>)
  then show ?thesis using u by (auto simp: app_step_def empty_tail_def split: sum.splits)
qed

text \<open>
  When the pending connection of a client is reported as established, the start hook runs (in the agent: every module is
  marked for a new route request), the read callback is registered, and whatever the client has pending at that moment will be written: the kernel
  watches the socket for writing, with the write callback. Only a fault of the hook can prevent this.
\<close>

theorem connect_then_serve:
  assumes "cli_handlers_ok hs act hact faults" "client_ok cl"
  shows "case connection_succ hs 0 (cl_sockfd cl) cl of
      Inl e \<Rightarrow> e \<in> faults
    | Inr cl' \<Rightarrow> client_ok cl' \<and> cl_app cl' = (case cl_conn_start_cb cl of None \<Rightarrow> cl_app cl | Some h \<Rightarrow> hact h (cl_app cl)) \<and>
        select_callback (cl_sockfd cl) EPOLLIN (cl_loop cl') = Inr (Call Read_Callback (Some ())) \<and>
        (pending cl' \<noteq> [] \<longrightarrow> cl_watch_write cl' \<and> select_callback (cl_sockfd cl) EPOLLOUT (cl_loop cl') = Inr (Call Write_Callback (Some ())))"
proof -
  let ?fd = "cl_sockfd cl" and ?d = "upd_loop (del_io_event (cl_sockfd cl)) cl"
  have d: "client_ok ?d" using assms(2) loop_inv_del [OF client_okD(5) [OF assms(2)]] by (intro upd_loop_ok)
  note hook = client_hook_ok [OF assms(1) d, of "cl_conn_start_cb cl"]
  show ?thesis
  proof (cases "client_hook hs (cl_conn_start_cb cl) ?d")
    case (Inl e)
    then show ?thesis using hook by (simp add: connection_succ_def Let_def)
  next
    case (Inr c1)
    then have k: "client_ok c1" "cl_sockfd c1 = ?fd" "cl_app c1 = (case cl_conn_start_cb cl of None \<Rightarrow> cl_app cl | Some h \<Rightarrow> hact h (cl_app cl))"
      using hook by (auto simp: cl_kept_def split: option.splits)
    let ?c2 = "upd_loop (add_io_event ?fd Read_Callback EPOLLIN ()) c1"
    let ?c3 = "if pending c1 \<noteq> [] then upd_loop (add_io_event ?fd Write_Callback EPOLLOUT ()) ?c2 else ?c2"
    have l: "loop_inv (cl_loop c1)" by (rule client_okD(5) [OF k(1)])
    have c2: "client_ok ?c2" using k(1) loop_inv_add_in [OF l] by (intro upd_loop_ok)
    then have c3: "client_ok ?c3" using loop_inv_add_out [OF client_okD(5) [OF c2]] by (auto intro!: upd_loop_ok)
    have "connection_succ hs 0 ?fd cl = Inr ?c3"
      using Inr rb_length_bytes [OF client_okD(2) [OF k(1)]] by (simp add: connection_succ_def Let_def pending_def)
    moreover have "select_callback ?fd EPOLLIN (cl_loop ?c2) = Inr (Call Read_Callback (Some ()))" using select_add_in [OF l] by simp
    then have "select_callback ?fd EPOLLIN (cl_loop ?c3) = Inr (Call Read_Callback (Some ()))"
      using select_in_add_out [OF client_okD(5) [OF c2]] by simp
    moreover have "cl_watch_write ?c3 \<and> select_callback ?fd EPOLLOUT (cl_loop ?c3) = Inr (Call Write_Callback (Some ()))" if "pending ?c3 \<noteq> []"
    proof -
      have "pending c1 \<noteq> []" using that by (auto split: if_splits)
      then show ?thesis using watch_add [OF client_okD(5) [OF c2]] select_add_out [OF client_okD(5) [OF c2]] k(2) by simp
    qed
    ultimately show ?thesis using c3 k(3) by simp
  qed
qed

theorem connect_then_serve_witness:
  "case connection_succ log_client 0 6 demo_client of
     Inl e \<Rightarrow> False
   | Inr cl' \<Rightarrow> select_callback 6 EPOLLIN (cl_loop cl') = Inr (Call Read_Callback (Some ()))"
proof -
  have "cl_sockfd demo_client = 6" by (simp add: demo_client_def)
  then show ?thesis using connect_then_serve [OF log_client_ok demo_client_ok] by (simp split: sum.splits)
qed

text \<open>
  C35 [early_send_loses_connect]. A message sent while the connection is still being established replaces the callback that waits for the
  connection: the event that reports the established connection then runs the write callback, not \<open>connection_succ\<close>, so that the start hook
  is never run and the read callback never registered; once the pending bytes are written the loop does not watch the socket at all.
\<close>

theorem early_send_loses_connect:
  assumes "cl_out cl" "pending cl = []" "el_io_evs (cl_loop cl) sock = None" "sock \<noteq> -1" "cl_sockfd cl = -1"
    and "int (length data) < 8388600" "no_error answers"
  shows "\<exists>cl1. do_connect hs sock (Conn_err EINPROGRESS) so_error cl = Inr cl1 \<and>
    select_callback sock EPOLLOUT (cl_loop cl1) = Inr (Call Connection_Succ (Some ())) \<and>
    (case client_send_message data (of_nat (length data)) msgid cl1 of
       Inl e \<Rightarrow> e = Exit_1
     | Inr (ret, cl2) \<Rightarrow> ret = 0 \<and> select_callback sock EPOLLOUT (cl_loop cl2) = Inr (Call Write_Callback (Some ())) \<and>
         el_epoll (cl_loop cl2) sock = Some EPOLLOUT \<and>
         (case client_do_write hs answers cl2 of
            Inl e \<Rightarrow> e = Blocked
          | Inr cl3 \<Rightarrow> pending cl3 = [] \<longrightarrow> el_epoll (cl_loop cl3) sock = None \<and> el_io_evs (cl_loop cl3) sock = None))"
proof -
  let ?cl = "cl\<lparr>cl_sockfd := sock, cl_open := insert sock (cl_open cl)\<rparr>"
  let ?cl1 = "upd_loop (add_io_event sock Connection_Succ EPOLLOUT ()) ?cl"
  have l: "loop_inv (cl_loop cl)" using assms(1) client_okD(5) unfolding cl_out_def by blast
  have l1: "loop_inv (cl_loop ?cl1)" using loop_inv_add_out [OF l] by simp
  have c: "do_connect hs sock (Conn_err EINPROGRESS) so_error cl = Inr ?cl1" using assms(4,5) by (simp add: do_connect_def Let_def)
  have "client_ok ?cl1" using assms(1) l1 by (intro upd_loop_ok) (simp_all add: cl_out_def client_ok_def)
  moreover have p1: "pending ?cl1 = []" using assms(2) by (simp add: pending_def)
  ultimately have o1: "cl_out ?cl1" using assms(1) by (simp add: cl_out_def)
  have ev1: "el_io_evs (cl_loop ?cl1) sock = Some \<lparr>ev_mask = EPOLLOUT, ev_read_callback = None, ev_write_callback = Some Connection_Succ,
      ev_rcb_args = None, ev_wcb_args = Some ()\<rparr>"
    using assms(3) by (simp add: add_io_event_shape [OF l] io_ev_at_def io_event_new_def Let_def)
  have "select_callback sock EPOLLOUT (cl_loop ?cl1) = Inr (Call Connection_Succ (Some ()))"
    using ev1 by (simp add: select_callback_def call_cb_def)
  moreover have "case client_send_message data (of_nat (length data)) msgid ?cl1 of
       Inl e \<Rightarrow> e = Exit_1
     | Inr (ret, cl2) \<Rightarrow> ret = 0 \<and> select_callback sock EPOLLOUT (cl_loop cl2) = Inr (Call Write_Callback (Some ())) \<and>
         el_epoll (cl_loop cl2) sock = Some EPOLLOUT \<and>
         (case client_do_write hs answers cl2 of
            Inl e \<Rightarrow> e = Blocked
          | Inr cl3 \<Rightarrow> pending cl3 = [] \<longrightarrow> el_epoll (cl_loop cl3) sock = None \<and> el_io_evs (cl_loop cl3) sock = None)"
  proof (cases "client_send_message data (of_nat (length data)) msgid ?cl1")
    case (Inl e)
    then show ?thesis using client_send_message_ok [OF o1, of data msgid] assms(6) p1 by simp
  next
    case (Inr x)
    obtain ret cl2 where x: "x = (ret, cl2)" by (cases x)
    have s: "ret = 0" "cl_out cl2" "cl_sockfd cl2 = sock" "cl_loop cl2 = add_io_event sock Write_Callback EPOLLOUT () (cl_loop ?cl1)"
      using client_send_message_ok [OF o1, of data msgid] assms(6) p1 Inr x by (simp_all add: cl_kept_def)
    have ev2: "el_io_evs (cl_loop cl2) sock = Some \<lparr>ev_mask = EPOLLOUT, ev_read_callback = None, ev_write_callback = Some Write_Callback,
        ev_rcb_args = None, ev_wcb_args = Some ()\<rparr>" "el_epoll (cl_loop cl2) sock = Some EPOLLOUT"
      unfolding s(4) add_io_event_shape [OF l1] Let_def using ev1 by (simp_all add: io_ev_at_def)
    have gone: "el_epoll (del_io_event_mask sock EPOLLOUT (cl_loop cl2)) sock = None" "el_io_evs (del_io_event_mask sock EPOLLOUT (cl_loop cl2)) sock = None"
      using ev2 by (simp_all add: del_io_event_mask_def del_io_event_def Let_def)
    show ?thesis
      using client_do_write_ok [OF s(2) assms(7), of hs] s(1,3) ev2 gone Inr x
      by (auto simp: select_callback_def call_cb_def split: sum.splits)
  qed
  ultimately show ?thesis using c by blast
qed

definition fresh_client :: "(unit, unit, unit, (i32 \<times> bytes) list) client_state" where
  "fresh_client = demo_client\<lparr>cl_loop := event_loop_new, cl_sockfd := -1, cl_open := {}\<rparr>"

theorem early_send_loses_connect_witness:
  "\<exists>cl1. do_connect log_client 6 (Conn_err EINPROGRESS) 0 fresh_client = Inr cl1 \<and>
     select_callback 6 EPOLLOUT (cl_loop cl1) = Inr (Call Connection_Succ (Some ())) \<and>
     (case client_send_message [1, 2] 2 1 cl1 of
        Inl e \<Rightarrow> e = Exit_1
      | Inr (ret, cl2) \<Rightarrow> select_callback 6 EPOLLOUT (cl_loop cl2) = Inr (Call Write_Callback (Some ())))"
proof -
  have "cl_out fresh_client" "pending fresh_client = []" "el_io_evs (cl_loop fresh_client) 6 = None" "cl_sockfd fresh_client = -1"
    by (simp_all add: cl_out_def client_ok_def pending_def fresh_client_def demo_client_def loop_inv_new) (simp add: event_loop_new_def)
  then obtain cl1 where c: "do_connect log_client 6 (Conn_err EINPROGRESS) 0 fresh_client = Inr cl1"
      "select_callback 6 EPOLLOUT (cl_loop cl1) = Inr (Call Connection_Succ (Some ()))"
      "case client_send_message [1, 2] 2 1 cl1 of
         Inl e \<Rightarrow> e = Exit_1
       | Inr (ret, cl2) \<Rightarrow> ret = 0 \<and> select_callback 6 EPOLLOUT (cl_loop cl2) = Inr (Call Write_Callback (Some ())) \<and>
         el_epoll (cl_loop cl2) 6 = Some EPOLLOUT \<and>
         (case client_do_write log_client [] cl2 of
            Inl e \<Rightarrow> e = Blocked
          | Inr cl3 \<Rightarrow> pending cl3 = [] \<longrightarrow> el_epoll (cl_loop cl3) 6 = None \<and> el_io_evs (cl_loop cl3) 6 = None)"
    using early_send_loses_connect [of fresh_client 6 "[1, 2]" "[]" log_client 0 1] by (auto simp: no_error_def)
  then have "case client_send_message [1, 2] 2 1 cl1 of
      Inl e \<Rightarrow> e = Exit_1 | Inr (ret, cl2) \<Rightarrow> select_callback 6 EPOLLOUT (cl_loop cl2) = Inr (Call Write_Callback (Some ()))"
    using c(3) by (cases "client_send_message [1, 2] 2 1 cl1") auto
  with c(1,2) show ?thesis by blast
qed

end
