(* ===== verification/Reporter_Service.thy ===== *)
theory Reporter_Service
  imports Reporter Tcp_Session
begin

text \<open>
  The network side of the report service, \<open>main\<close> of \<^verbatim>\<open>lars_reporter/src/reporter_service.cpp\<close>: a TCP server whose only callback is \<open>get_report_status\<close>. The
  state \<open>'d reporter\<close> of the service is the application state of the server.
\<close>

section \<open>Model\<close>

datatype report_msg_cb = Get_Report_Status

definition on_report :: "wire \<Rightarrow> bytes option \<Rightarrow> ('cb, 'u, 'h, 'd reporter) server_state \<Rightarrow> ('cb, 'u, 'h, 'd reporter) server_state res" where
  "on_report W data ss =
     bindR (get_report_status W (case data of None \<Rightarrow> [] | Some bs \<Rightarrow> bs) (ss_app ss)) (\<lambda>rp. Inr (ss\<lparr>ss_app := rp\<rparr>))"

definition report_handlers :: "wire \<Rightarrow> (report_msg_cb, unit, unit, 'd reporter) handlers" where
  "report_handlers W = \<lparr>on_message = (\<lambda>cb data len msgid conn u. on_report W data), on_hook = (\<lambda>h p. Inr)\<rparr>"

text \<open>
  \<open>main\<close> up to \<open>event_process\<close>. The settings of the reactor are arguments of \<open>tcp_server_new\<close>: the results of the socket calls, the number of threads
  and connections of the configuration, and the state in which the static members of \<open>tcp_server\<close> and the loop \<open>loop\<close> start.
\<close>

definition reporter_main ::
  "config_file \<Rightarrow> int \<Rightarrow> int \<Rightarrow> int \<Rightarrow> int list \<Rightarrow> int list \<Rightarrow> (nat \<Rightarrow> int) \<Rightarrow> (nat \<Rightarrow> int) \<Rightarrow> ptr \<Rightarrow> ptr \<Rightarrow>
   (report_msg_cb, unit, unit, 'd reporter) server_state \<Rightarrow> (tcp_server \<times> (report_msg_cb, unit, unit, 'd reporter) server_state) res" where
  "reporter_main cfg sockfd bind_ret listen_ret evfds created store_evfd store_created self loop ss =
     bindR (tcp_server_new sockfd bind_ret listen_ret (sint (GetNumber ''reactor'' ''threadNum'' 3 cfg)) (sint (GetNumber ''reactor'' ''maxConn'' 1000 cfg))
       evfds created self loop ss) (\<lambda>(server, ss).
     (let ss = add_msg_router ID_ReportStatusRequest Get_Report_Status () ss in
      bindR (create_report_threads cfg store_evfd store_created (rp_db (ss_app ss))) (\<lambda>rp.
      Inr (server, ss\<lparr>ss_app := rp\<rparr>))))"

section \<open>The service as an application of the server\<close>

text \<open>What one message does to the service; a report that finds no queue is the only fault.\<close>

definition deal :: "wire \<Rightarrow> bytes \<Rightarrow> 'd reporter \<Rightarrow> 'd reporter" where
  "deal W body rp = (case get_report_status W body rp of Inl _ \<Rightarrow> rp | Inr rp' \<Rightarrow> rp')"

lemma get_report_status_fault: "get_report_status W body rp = Inl e \<Longrightarrow> e = Out_Of_Bounds"
  by (auto simp: get_report_status_def Let_def ensure_def split: if_splits)

lemma report_handlers_ok: "handlers_ok (report_handlers W :: (report_msg_cb, unit, unit, 'd reporter) handlers) (\<lambda>cb u m. deal W (snd m)) {Out_Of_Bounds}"
  by (auto simp: handlers_ok_def report_handlers_def on_report_def deal_def kept_refl kept_app split: sum.splits dest: get_report_status_fault)

interpretation report_service: server_app "report_handlers W" "\<lambda>cb u m. deal W (snd m)" "{Out_Of_Bounds}" p fd l r for W p fd l r
  by unfold_locales (rule report_handlers_ok)

section \<open>Dealing out a sequence of messages\<close>

fun deal_all :: "wire \<Rightarrow> (i32 \<times> bytes) list \<Rightarrow> 'd reporter \<Rightarrow> 'd reporter res" where
  "deal_all W [] rp = Inr rp"
| "deal_all W (m # ms) rp =
     (if fst m = ID_ReportStatusRequest then bindR (get_report_status W (snd m) rp) (deal_all W ms) else deal_all W ms rp)"

text \<open>The routing table that \<open>main\<close> sets up.\<close>

definition report_routes :: "(report_msg_cb, unit) msg_router" where
  "report_routes = snd (register_msg_router ID_ReportStatusRequest Get_Report_Status () msg_router_new)"

interpretation report_conns: server_session "report_handlers W" p fd l report_routes
  "\<lambda>ms ss. deal_all W ms (ss_app ss) = Inr final \<and> ss_conn_close_cb ss = None" "{}" for W p fd l and final :: "'d reporter"
proof unfold_locales
  fix msgid body ms and d :: "bytes option" and ss :: "(report_msg_cb, unit, unit, 'd reporter) server_state"
  assume c: "reading p fd l report_routes ss" "deal_all W ((msgid, body) # ms) (ss_app ss) = Inr final \<and> ss_conn_close_cb ss = None"
    "d = Some body \<or> d = None \<and> body = []"
  have ok: "bufs_ok ss" "ss_router ss = report_routes" using c(1) by (simp_all add: reading_def)
  have data: "(case d of None \<Rightarrow> [] | Some bs \<Rightarrow> bs) = body" using c(3) by auto
  have kept: "kept p ss (ss\<lparr>ss_app := x\<rparr>)" for x using ok(1) by (rule kept_app)
  note routes = conn_call_def router_call_def report_routes_def register_msg_router_def msg_router_new_def
  show "case conn_call (report_handlers W) p msgid (of_nat (length body)) d ss of
      Inl e \<Rightarrow> e \<in> {} | Inr ss' \<Rightarrow> kept p ss ss' \<and> deal_all W ms (ss_app ss') = Inr final \<and> ss_conn_close_cb ss' = None"
  proof (cases "msgid = ID_ReportStatusRequest")
    case False
    then have "conn_call (report_handlers W) p msgid (of_nat (length body)) d ss = Inr ss" using ok(2) by (simp add: routes)
    then show ?thesis using c(2) False ok(1) by (simp add: kept_refl)
  next
    case True
    then obtain rp where rp: "get_report_status W body (ss_app ss) = Inr rp" "deal_all W ms rp = Inr final" using c(2) by (auto simp: bindR_eq_Inr)
    have "conn_call (report_handlers W) p msgid (of_nat (length body)) d ss = Inr (ss\<lparr>ss_app := rp\<rparr>)"
      using ok(2) True rp(1) data by (simp add: routes report_handlers_def on_report_def)
    then show ?thesis using rp(2) c(2) kept by simp
  qed
next
  fix ms q st and ss :: "(report_msg_cb, unit, unit, 'd reporter) server_state"
  assume "deal_all W ms (ss_app ss) = Inr final \<and> ss_conn_close_cb ss = None"
  then show "deal_all W ms (ss_app (put_buf In p (q, st) ss)) = Inr final \<and> ss_conn_close_cb (put_buf In p (q, st) ss) = None" by simp
next
  fix ss :: "(report_msg_cb, unit, unit, 'd reporter) server_state"
  assume "reading p fd l report_routes ss" "deal_all W [] (ss_app ss) = Inr final \<and> ss_conn_close_cb ss = None"
  then show "case run_hook (report_handlers W) (ss_conn_close_cb ss) p ss of Inl e \<Rightarrow> e \<in> {} | Inr ss' \<Rightarrow> kept p ss ss'"
    by (simp add: run_hook_def reading_def kept_refl)
qed

end
