(* ===== verification/Lars_Api.thy ===== *)
theory Lars_Api
  imports Protobuf Inet Udp
begin

text \<open>
  The client library \<^verbatim>\<open>api/cpp/lars_api/lars_api.h\<close> and \<^verbatim>\<open>api/cpp/lars_api/lars_api.cpp\<close>: three connected datagram sockets to the agent
  servers on this host, chosen by module and command, and a sequence number that identifies the answer to a request. The results of the socket calls, the
  received datagrams and the raw contents of the receive buffer are arguments; the datagrams sent are collected with their socket. The index
  \<open>(modid + cmdid) % 3\<close> is the remainder of C: it is negative for a negative sum, and the array access is then out of bounds. An \<open>inet_aton\<close> that
  fails leaves the address uninitialised.
\<close>

section \<open>Model\<close>

type_synonym ip_port = "string \<times> i32"
type_synonym route_set = "ip_port list"

record lars_client =
  lc_sockfd :: "int list"
  lc_seqid :: u32
  lc_sent :: "(int \<times> bytes) list"

fun open_sockets :: "int list \<Rightarrow> int list \<Rightarrow> int list res" where
  "open_sockets (s # socks) (c # conns) =
     bindR (ensure (s \<noteq> -1) Exit_1) (\<lambda>_.
     bindR (ensure (c \<noteq> -1) Exit_1) (\<lambda>_.
     bindR (open_sockets socks conns) (\<lambda>fds.
     Inr (s # fds))))"
| "open_sockets _ _ = Inr []"

definition lars_client_new :: "int \<times> int \<times> int \<Rightarrow> int \<times> int \<times> int \<Rightarrow> lars_client res" where
  "lars_client_new socks conns =
     (case socks of (s0, s1, s2) \<Rightarrow> case conns of (c0, c1, c2) \<Rightarrow>
      bindR (open_sockets [s0, s1, s2] [c0, c1, c2]) (\<lambda>fds.
      Inr \<lparr>lc_sockfd = fds, lc_seqid = 0, lc_sent = []\<rparr>))"

definition lars_client_delete :: "lars_client \<Rightarrow> int set \<Rightarrow> int set" where
  "lars_client_delete lc fds = fds - set (take 3 (lc_sockfd lc))"

definition WRITE_BUF :: int where "WRITE_BUF = 4096"
definition READ_BUF :: nat where "READ_BUF = 20 * 4096"

definition sock_at :: "int \<Rightarrow> lars_client \<Rightarrow> int res" where
  "sock_at i lc = bindR (ensure (0 \<le> i \<and> nat i < length (lc_sockfd lc)) Out_Of_Bounds) (\<lambda>_. Inr (lc_sockfd lc ! nat i))"

text \<open>Head and body in \<open>write_buf\<close>, given the announced size and the serialised bytes, and the \<open>sendto\<close> on the chosen socket.\<close>

definition api_send :: "bool \<Rightarrow> i32 \<Rightarrow> i32 \<Rightarrow> nat \<Rightarrow> bytes \<Rightarrow> i32 \<Rightarrow> lars_client \<Rightarrow> (bool \<times> lars_client) res" where
  "api_send sent modid cmdid msglen body msgid lc =
     bindR (ensure (MESSAGE_HEAD_LEN + int msglen \<le> WRITE_BUF) Out_Of_Bounds) (\<lambda>_.
     bindR (server_index modid cmdid) (\<lambda>index.
     bindR (sock_at index lc) (\<lambda>fd.
     Inr (sent, if sent then lc\<lparr>lc_sent := lc_sent lc @ [(fd, head_bytes \<lparr>hd_msgid = msgid, hd_msglen = of_nat msglen\<rparr> @ take msglen body)]\<rparr> else lc))))"

text \<open>
  The \<open>do\<close> loop of \<open>get_host\<close>: answers to earlier requests are dropped. \<open>None\<close> is the return with \<open>RET_SYSTEM_ERROR\<close>.
\<close>

fun wait_host :: "wire \<Rightarrow> u32 \<Rightarrow> recv_ans list \<Rightarrow> bytes \<Rightarrow> GetHostResponse option res" where
  "wait_host W seq [] read_buf = Inl Blocked"
| "wait_host W seq (Rc_err e # answers) read_buf = Inr None"
| "wait_host W seq (Dgram a dg # answers) read_buf =
     (case recv_into dg read_buf of (message_len, read_buf) \<Rightarrow>
      bindR (head_of read_buf) (\<lambda>head.
      if hd_msgid head \<noteq> ID_GetHostResponse then Inr None
      else
        bindR (ensure (8 \<le> message_len) Out_Of_Bounds) (\<lambda>_.
        (case GetHostResponse_Parse W (take (message_len - 8) (drop 8 read_buf)) of (ok, rsp) \<Rightarrow>
         if \<not> ok then Inr None
         else if ghs_seq rsp < seq then wait_host W seq answers read_buf
         else Inr (Some rsp)))))"

text \<open>\<open>get_host\<close>: the return value and the output arguments \<open>ip\<close> and \<open>port\<close>.\<close>

definition lc_get_host ::
  "wire \<Rightarrow> bool \<Rightarrow> recv_ans list \<Rightarrow> bytes \<Rightarrow> i32 \<Rightarrow> i32 \<Rightarrow> ip_port \<Rightarrow> lars_client \<Rightarrow> (i32 \<times> ip_port \<times> lars_client) res" where
  "lc_get_host W sent answers read_buf modid cmdid out lc =
     (let seq = lc_seqid lc; lc = lc\<lparr>lc_seqid := seq + 1\<rparr>;
          req = \<lparr>ghq_seq = seq, ghq_modid = modid, ghq_cmdid = cmdid\<rparr> in
      bindR (api_send sent modid cmdid (GetHostRequest_ByteSizeLong W req) (GetHostRequest_Serialize W req) ID_GetHostRequest lc) (\<lambda>(sent, lc).
      if \<not> sent then Inr (RET_SYSTEM_ERROR, out, lc)
      else
        bindR (wait_host W seq answers read_buf) (\<lambda>r.
        case r of
          None \<Rightarrow> Inr (RET_SYSTEM_ERROR, out, lc)
        | Some rsp \<Rightarrow>
            if ghs_seq rsp \<noteq> seq \<or> ghs_modid rsp \<noteq> modid \<or> ghs_cmdid rsp \<noteq> cmdid then Inr (RET_SYSTEM_ERROR, out, lc)
            else if ghs_retcode rsp = RET_SUCC
            then (let host = pb_host (ghs_host rsp) in Inr (ghs_retcode rsp, (inet_ntoa (pb_ip host), pb_port host), lc))
            else Inr (ghs_retcode rsp, out, lc))))"

definition lc_report :: "wire \<Rightarrow> bool \<Rightarrow> i32 \<Rightarrow> i32 \<Rightarrow> string \<Rightarrow> i32 \<Rightarrow> i32 \<Rightarrow> lars_client \<Rightarrow> lars_client res" where
  "lc_report W sent modid cmdid ip port retcode lc =
     (case inet_aton ip of
        None \<Rightarrow> Inl Uninitialised
      | Some s_addr \<Rightarrow>
          (let req = \<lparr>rpq_modid = modid, rpq_cmdid = cmdid, rpq_host = Some \<lparr>pb_ip = s_addr, pb_port = port\<rparr>, rpq_retcode = retcode\<rparr> in
           bindR (api_send sent modid cmdid (ReportRequest_ByteSizeLong W req) (ReportRequest_Serialize W req) ID_ReportRequest lc) (\<lambda>(_, lc).
           Inr lc)))"

definition lc_get_route ::
  "wire \<Rightarrow> bool \<Rightarrow> recv_ans \<Rightarrow> bytes \<Rightarrow> i32 \<Rightarrow> i32 \<Rightarrow> route_set \<Rightarrow> lars_client \<Rightarrow> (i32 \<times> route_set \<times> lars_client) res" where
  "lc_get_route W sent answer read_buf modid cmdid route lc =
     (let req = \<lparr>grq_modid = modid, grq_cmdid = cmdid\<rparr> in
      bindR (api_send sent modid cmdid (GetRouteRequest_ByteSizeLong W req) (GetRouteRequest_Serialize W req) ID_API_GetRouteRequest lc) (\<lambda>(sent, lc).
      if \<not> sent then Inr (RET_SYSTEM_ERROR, route, lc)
      else
        (case answer of
           Rc_err e \<Rightarrow> Inr (RET_SYSTEM_ERROR, route, lc)
         | Dgram a dg \<Rightarrow>
             (case recv_into dg read_buf of (message_len, read_buf) \<Rightarrow>
              bindR (head_of read_buf) (\<lambda>head.
              if hd_msgid head \<noteq> ID_API_GetRouteResponse then Inr (RET_SYSTEM_ERROR, route, lc)
              else
                bindR (ensure (8 \<le> message_len) Out_Of_Bounds) (\<lambda>_.
                (case GetRouteResponse_Parse W (take (message_len - 8) (drop 8 read_buf)) of (ok, rsp) \<Rightarrow>
                 if \<not> ok \<or> grs_modid rsp \<noteq> modid \<or> grs_cmdid rsp \<noteq> cmdid then Inr (RET_SYSTEM_ERROR, route, lc)
                 else Inr (RET_SUCC, route @ map (\<lambda>host. (inet_ntoa (ntohl (pb_ip host)), pb_port host)) (grs_host rsp), lc))))))))"

text \<open>The loop of \<open>reg_init\<close>, with the kernel's answers for each try.\<close>

fun reg_tries ::
  "wire \<Rightarrow> (bool \<times> recv_ans) list \<Rightarrow> bytes \<Rightarrow> nat \<Rightarrow> i32 \<Rightarrow> i32 \<Rightarrow> route_set \<Rightarrow> lars_client \<Rightarrow> (route_set \<times> lars_client) res" where
  "reg_tries W tries read_buf retry_cnt modid cmdid route lc =
     (if route = [] \<and> retry_cnt < 3 then
        (case tries of
           [] \<Rightarrow> Inl Blocked
         | (sent, answer) # tries \<Rightarrow>
             bindR (lc_get_route W sent answer read_buf modid cmdid route lc) (\<lambda>(_, route, lc).
             if route = [] then reg_tries W tries read_buf (Suc retry_cnt) modid cmdid route lc
             else Inr (route, lc)))
      else Inr (route, lc))"

declare reg_tries.simps [simp del]

definition reg_init :: "wire \<Rightarrow> (bool \<times> recv_ans) list \<Rightarrow> bytes \<Rightarrow> i32 \<Rightarrow> i32 \<Rightarrow> lars_client \<Rightarrow> (i32 \<times> lars_client) res" where
  "reg_init W tries read_buf modid cmdid lc =
     bindR (reg_tries W tries read_buf 0 modid cmdid [] lc) (\<lambda>(route, lc).
     Inr (if route = [] then RET_NOEXIST else RET_SUCC, lc))"

section \<open>Requests and answers\<close>

definition api_ok :: "lars_client \<Rightarrow> bool" where
  "api_ok lc \<longleftrightarrow> length (lc_sockfd lc) = 3"

lemma lars_client_new_ok: "lars_client_new socks conns = Inr lc \<Longrightarrow> api_ok lc"
  by (auto simp: lars_client_new_def api_ok_def bindR_eq_Inr split: prod.splits)

lemma api_send_ok:
  assumes "api_ok lc" "good_module modid cmdid" "length body \<le> 4088"
  shows "api_send sent modid cmdid (length body) body msgid lc =
    Inr (sent, if sent then lc\<lparr>lc_sent := lc_sent lc @ [(lc_sockfd lc ! server_of modid cmdid, frame (msgid, body))]\<rparr> else lc)"
  using server_index_good [OF assms(2)] assms(1,3)
  by (simp add: api_send_def sock_at_def api_ok_def frame_def MESSAGE_HEAD_LEN_def WRITE_BUF_def)

text \<open>A framed body, as the receiver finds it in its buffer.\<close>

lemma recv_frame:
  assumes "8 + length body \<le> length buf"
  obtains buf' where "recv_into (frame (msgid, body)) buf = (8 + length body, buf')" "length buf' = length buf"
    "head_of buf' = Inr \<lparr>hd_msgid = msgid, hd_msglen = of_nat (length body)\<rparr>" "take (length body) (drop 8 buf') = body"
proof
  let ?buf = "frame (msgid, body) @ drop (8 + length body) buf"
  have l: "length (frame (msgid, body)) = 8 + length body" by (simp add: frame_def)
  show "recv_into (frame (msgid, body)) buf = (8 + length body, ?buf)" using recv_into_fits [of "frame (msgid, body)" buf] l assms by simp
  show "length ?buf = length buf" using l assms by simp
  show "head_of ?buf = Inr \<lparr>hd_msgid = msgid, hd_msglen = of_nat (length body)\<rparr>" by (simp add: frame_def)
  show "take (length body) (drop 8 ?buf) = body" by (simp add: frame_def)
qed

context wire_format
begin

lemma GetHostResponse_length: "length (GetHostResponse_Serialize W rsp) \<le> 67"
  using GetHostResponse_bound [of rsp] by (simp add: GetHostResponse_size)

lemma wait_host_frame:
  assumes "length buf = READ_BUF"
  obtains buf' where "length buf' = READ_BUF"
    "wait_host W seq (Dgram a (frame (ID_GetHostResponse, GetHostResponse_Serialize W rsp)) # answers) buf =
       (if ghs_seq rsp < seq then wait_host W seq answers buf' else Inr (Some rsp))"
proof -
  let ?body = "GetHostResponse_Serialize W rsp"
  have "8 + length ?body \<le> length buf" using GetHostResponse_length [of rsp] assms by (simp add: READ_BUF_def)
  from recv_frame [OF this, of ID_GetHostResponse] obtain buf' where b: "recv_into (frame (ID_GetHostResponse, ?body)) buf = (8 + length ?body, buf')"
      "length buf' = length buf" "head_of buf' = Inr \<lparr>hd_msgid = ID_GetHostResponse, hd_msglen = of_nat (length ?body)\<rparr>"
      "take (length ?body) (drop 8 buf') = ?body" by blast
  then have "wait_host W seq (Dgram a (frame (ID_GetHostResponse, ?body)) # answers) buf =
      (if ghs_seq rsp < seq then wait_host W seq answers buf' else Inr (Some rsp))"
    using GetHostResponse_parse [of rsp] by (simp add: GetHostResponse_Parse_def)
  then show thesis using that [of buf'] b(2) assms by simp
qed

lemma wait_host_stale:
  assumes "length buf = READ_BUF" "\<forall>rsp \<in> set stale. ghs_seq rsp < seq" "\<not> ghs_seq rsp < seq"
  shows "wait_host W seq (map (\<lambda>r. Dgram a (frame (ID_GetHostResponse, GetHostResponse_Serialize W r))) (stale @ [rsp]) @ answers) buf = Inr (Some rsp)"
  using assms(1,2)
proof (induction stale arbitrary: buf)
  case Nil
  then show ?case by (rule_tac wait_host_frame [OF Nil(1), of seq a rsp answers]) (use assms(3) in simp)
next
  case (Cons r stale)
  obtain buf' where b: "length buf' = READ_BUF"
    "wait_host W seq (Dgram a (frame (ID_GetHostResponse, GetHostResponse_Serialize W r)) #
        map (\<lambda>r. Dgram a (frame (ID_GetHostResponse, GetHostResponse_Serialize W r))) (stale @ [rsp]) @ answers) buf =
       (if ghs_seq r < seq then wait_host W seq (map (\<lambda>r. Dgram a (frame (ID_GetHostResponse, GetHostResponse_Serialize W r))) (stale @ [rsp]) @ answers) buf'
        else Inr (Some r))"
    by (rule wait_host_frame [OF Cons.prems(1)])
  then show ?case using Cons.IH [OF b(1)] Cons.prems(2) by simp
qed

lemma get_host_sends:
  assumes "api_ok lc" "good_module modid cmdid"
  shows "lc_get_host W True answers buf modid cmdid out lc =
    (let seq = lc_seqid lc;
         lc' = lc\<lparr>lc_seqid := seq + 1, lc_sent := lc_sent lc @ [(lc_sockfd lc ! server_of modid cmdid,
           frame (ID_GetHostRequest, GetHostRequest_Serialize W \<lparr>ghq_seq = seq, ghq_modid = modid, ghq_cmdid = cmdid\<rparr>))]\<rparr> in
     bindR (wait_host W seq answers buf) (\<lambda>r.
        case r of
          None \<Rightarrow> Inr (RET_SYSTEM_ERROR, out, lc')
        | Some rsp \<Rightarrow>
            if ghs_seq rsp \<noteq> seq \<or> ghs_modid rsp \<noteq> modid \<or> ghs_cmdid rsp \<noteq> cmdid then Inr (RET_SYSTEM_ERROR, out, lc')
            else if ghs_retcode rsp = RET_SUCC
            then (let host = pb_host (ghs_host rsp) in Inr (ghs_retcode rsp, (inet_ntoa (pb_ip host), pb_port host), lc'))
            else Inr (ghs_retcode rsp, out, lc')))"
proof -
  let ?req = "\<lparr>ghq_seq = lc_seqid lc, ghq_modid = modid, ghq_cmdid = cmdid\<rparr>"
  have "length (GetHostRequest_Serialize W ?req) \<le> 4088" using GetHostRequest_bound [of ?req] by (simp add: GetHostRequest_size)
  then show ?thesis
    using api_send_ok [of "lc\<lparr>lc_seqid := lc_seqid lc + 1\<rparr>" modid cmdid "GetHostRequest_Serialize W ?req" True ID_GetHostRequest] assms
    by (simp add: lc_get_host_def Let_def GetHostRequest_size api_ok_def)
qed

text \<open>The answer to the own request is found behind any number of late answers to earlier requests.\<close>

lemma get_host_answer:
  assumes "api_ok lc" "good_module modid cmdid" "length buf = READ_BUF" "\<forall>r \<in> set stale. ghs_seq r < lc_seqid lc"
    and "ghs_seq rsp = lc_seqid lc" "ghs_modid rsp = modid" "ghs_cmdid rsp = cmdid"
  shows "lc_get_host W True (map (\<lambda>r. Dgram a (frame (ID_GetHostResponse, GetHostResponse_Serialize W r))) (stale @ [rsp]) @ answers) buf modid cmdid out lc =
    Inr (ghs_retcode rsp,
         if ghs_retcode rsp = RET_SUCC then (inet_ntoa (pb_ip (pb_host (ghs_host rsp))), pb_port (pb_host (ghs_host rsp))) else out,
         lc\<lparr>lc_seqid := lc_seqid lc + 1, lc_sent := lc_sent lc @ [(lc_sockfd lc ! server_of modid cmdid,
           frame (ID_GetHostRequest, GetHostRequest_Serialize W \<lparr>ghq_seq = lc_seqid lc, ghq_modid = modid, ghq_cmdid = cmdid\<rparr>))]\<rparr>)"
proof -
  have "\<not> ghs_seq rsp < lc_seqid lc" using assms(5) by simp
  note w = wait_host_stale [OF assms(3,4) this, of a answers]
  show ?thesis unfolding get_host_sends [OF assms(1,2)] Let_def w using assms(5-7) by simp
qed

lemma report_sends:
  assumes "api_ok lc" "good_module modid cmdid"
  shows "lc_report W True modid cmdid (inet_ntoa (pb_ip h)) (pb_port h) retcode lc =
    Inr (lc\<lparr>lc_sent := lc_sent lc @ [(lc_sockfd lc ! server_of modid cmdid, frame (ID_ReportRequest,
      ReportRequest_Serialize W \<lparr>rpq_modid = modid, rpq_cmdid = cmdid, rpq_host = Some h, rpq_retcode = retcode\<rparr>))]\<rparr>)"
proof -
  let ?req = "\<lparr>rpq_modid = modid, rpq_cmdid = cmdid, rpq_host = Some h, rpq_retcode = retcode\<rparr>"
  have "length (ReportRequest_Serialize W ?req) \<le> 4088" using ReportRequest_bound [of ?req] by (simp add: ReportRequest_size)
  then show ?thesis
    using api_send_ok [OF assms, of "ReportRequest_Serialize W ?req" True ID_ReportRequest]
    by (cases h) (simp add: lc_report_def inet_aton_ntoa Let_def ReportRequest_size)
qed

lemma get_route_answer:
  assumes "api_ok lc" "good_module modid cmdid" "length buf = READ_BUF" "length hs \<le> 2924"
  shows "lc_get_route W True (Dgram a (frame (ID_API_GetRouteResponse, GetRouteResponse_Serialize W \<lparr>grs_modid = modid, grs_cmdid = cmdid, grs_host = hs\<rparr>)))
      buf modid cmdid route lc =
    Inr (RET_SUCC, route @ map (\<lambda>h. (inet_ntoa (ntohl (pb_ip h)), pb_port h)) hs,
         lc\<lparr>lc_sent := lc_sent lc @ [(lc_sockfd lc ! server_of modid cmdid,
           frame (ID_API_GetRouteRequest, GetRouteRequest_Serialize W \<lparr>grq_modid = modid, grq_cmdid = cmdid\<rparr>))]\<rparr>)"
proof -
  let ?rsp = "\<lparr>grs_modid = modid, grs_cmdid = cmdid, grs_host = hs\<rparr>" and ?req = "\<lparr>grq_modid = modid, grq_cmdid = cmdid\<rparr>"
  let ?body = "GetRouteResponse_Serialize W ?rsp"
  have q: "length (GetRouteRequest_Serialize W ?req) \<le> 4088" using GetRouteRequest_bound [of ?req] by (simp add: GetRouteRequest_size)
  have "8 + length ?body \<le> length buf" using GetRouteResponse_bound [of ?rsp] assms(3,4) by (simp add: GetRouteResponse_size READ_BUF_def)
  from recv_frame [OF this, of ID_API_GetRouteResponse] obtain buf' where b:
      "recv_into (frame (ID_API_GetRouteResponse, ?body)) buf = (8 + length ?body, buf')"
      "head_of buf' = Inr \<lparr>hd_msgid = ID_API_GetRouteResponse, hd_msglen = of_nat (length ?body)\<rparr>"
      "take (length ?body) (drop 8 buf') = ?body" by blast
  then show ?thesis
    using api_send_ok [OF assms(1,2) q, of True ID_API_GetRouteRequest] GetRouteResponse_parse [of ?rsp]
    by (simp add: lc_get_route_def Let_def GetRouteRequest_size GetRouteResponse_Parse_def)
qed

end

section \<open>Properties\<close>

text \<open>The message a received datagram carries for \<open>get_host\<close>.\<close>

definition host_answer :: "wire \<Rightarrow> bytes \<Rightarrow> GetHostResponse option" where
  "host_answer W dg =
     (case head_of (take READ_BUF dg) of
        Inl _ \<Rightarrow> None
      | Inr h \<Rightarrow> if hd_msgid h = ID_GetHostResponse then
          (case GetHostResponse_Parse W (drop 8 (take READ_BUF dg)) of (ok, rsp) \<Rightarrow> if ok then Some rsp else None)
        else None)"

lemma wait_host_some:
  assumes "wait_host W seq answers buf = Inr (Some rsp)" "length buf = READ_BUF"
  shows "\<exists>a dg. Dgram a dg \<in> set answers \<and> host_answer W dg = Some rsp"
  using assms
proof (induction answers arbitrary: buf)
  case (Cons ans answers)
  show ?case
  proof (cases ans)
    case (Rc_err e)
    then show ?thesis using Cons.prems(1) by simp
  next
    case (Dgram a dg)
    let ?pkg = "take READ_BUF dg"
    let ?buf = "?pkg @ drop (length ?pkg) buf"
    have r: "recv_into dg buf = (length ?pkg, ?buf)" using Cons.prems(2) by (simp add: recv_into_def Let_def)
    have len: "length ?buf = READ_BUF" using Cons.prems(2) by simp
    obtain h where h: "head_of ?buf = Inr h" "hd_msgid h = ID_GetHostResponse" "8 \<le> length ?pkg"
      using Cons.prems(1) unfolding Dgram wait_host.simps r by (auto simp: bindR_eq_Inr ensure_eq_Inr split: if_splits)
    then have hd: "head_of ?pkg = Inr h" using head_of_short [of ?pkg] head_of_fault [of ?pkg] head_of_prefix [of ?pkg _ "drop (length ?pkg) buf"]
      by (metis Inr_inject linorder_not_less sum.exhaust)
    have body: "take (length ?pkg - 8) (drop 8 ?buf) = drop 8 ?pkg" using h(3) by (simp add: min_def)
    obtain ok r' where p: "GetHostResponse_Parse W (drop 8 ?pkg) = (ok, r')" by fastforce
    have w: "wait_host W seq (Dgram a dg # answers) buf =
        (if \<not> ok then Inr None else if ghs_seq r' < seq then wait_host W seq answers ?buf else Inr (Some r'))"
      unfolding wait_host.simps r using h body p by simp
    show ?thesis
    proof (cases "ghs_seq r' < seq")
      case True
      then have "wait_host W seq answers ?buf = Inr (Some rsp)" using Cons.prems(1) w Dgram by (simp split: if_splits)
      then show ?thesis using Cons.IH [OF _ len] by (meson list.set_intros(2))
    next
      case False
      then have "ok" "r' = rsp" using Cons.prems(1) w Dgram by (simp_all split: if_splits)
      then have "host_answer W dg = Some rsp" using hd h(2) p by (simp add: host_answer_def)
      then show ?thesis using Dgram by (meson list.set_intros(1))
    qed
  qed
qed simp_all

text \<open>
  C25 [api_answer_authentic]. Whatever datagrams arrive, \<open>get_host\<close> reports success only with the address of a received answer that
  carries the sequence number of this very call, the module and command asked for and the code for success; late answers to earlier calls,
  answers for other modules and malformed messages are never returned as a host.
\<close>

theorem api_answer_authentic:
  assumes "lc_get_host W sent answers buf modid cmdid out lc = Inr (RET_SUCC, (ip, port), lc')" "length buf = READ_BUF"
  shows "\<exists>a dg rsp. Dgram a dg \<in> set answers \<and> host_answer W dg = Some rsp \<and> ghs_seq rsp = lc_seqid lc \<and> ghs_modid rsp = modid \<and>
    ghs_cmdid rsp = cmdid \<and> ghs_retcode rsp = RET_SUCC \<and> ip = inet_ntoa (pb_ip (pb_host (ghs_host rsp))) \<and> port = pb_port (pb_host (ghs_host rsp)) \<and>
    lc_seqid lc' = lc_seqid lc + 1"
proof -
  let ?req = "\<lparr>ghq_seq = lc_seqid lc, ghq_modid = modid, ghq_cmdid = cmdid\<rparr>"
  obtain sent' lc1 where send: "api_send sent modid cmdid (GetHostRequest_ByteSizeLong W ?req) (GetHostRequest_Serialize W ?req) ID_GetHostRequest
      (lc\<lparr>lc_seqid := lc_seqid lc + 1\<rparr>) = Inr (sent', lc1)" and s: "sent'"
    using assms(1) by (auto simp: lc_get_host_def Let_def bindR_eq_Inr split: if_splits)
  then have seq: "lc_seqid lc1 = lc_seqid lc + 1" by (auto simp: api_send_def bindR_eq_Inr)
  obtain rsp where w: "wait_host W (lc_seqid lc) answers buf = Inr (Some rsp)"
    using assms(1) send s by (auto simp: lc_get_host_def Let_def bindR_eq_Inr split: option.splits)
  then show ?thesis using assms(1) send s seq wait_host_some [OF w assms(2)]
    by (auto simp: lc_get_host_def Let_def split: if_splits)
qed

definition demo_api :: lars_client where
  "demo_api = \<lparr>lc_sockfd = [4, 5, 6], lc_seqid = 9, lc_sent = []\<rparr>"

definition demo_answer :: "u32 \<Rightarrow> GetHostResponse" where
  "demo_answer seq = \<lparr>ghs_seq = seq, ghs_modid = 1, ghs_cmdid = 2, ghs_retcode = 0, ghs_host = Some \<lparr>pb_ip = 100, pb_port = 80\<rparr>\<rparr>"

lemma demo_api_ok: "api_ok demo_api" "good_module 1 2"
  by (simp_all add: api_ok_def demo_api_def good_module_def)

theorem api_answer_authentic_witness:
  "\<exists>lc'. lc_get_host base128 True [Dgram (0, 0) (frame (ID_GetHostResponse, GetHostResponse_Serialize base128 (demo_answer 8))),
       Dgram (0, 0) (frame (ID_GetHostResponse, GetHostResponse_Serialize base128 (demo_answer 9)))] (replicate READ_BUF 0) 1 2 ([], 0) demo_api =
     Inr (RET_SUCC, (inet_ntoa 100, 80), lc') \<and> lc_seqid lc' = 10"
proof -
  have a: "ghs_seq (demo_answer 9) = lc_seqid demo_api" "ghs_modid (demo_answer 9) = 1" "ghs_cmdid (demo_answer 9) = 2" "ghs_retcode (demo_answer 9) = RET_SUCC"
      "pb_host (ghs_host (demo_answer 9)) = \<lparr>pb_ip = 100, pb_port = 80\<rparr>" "\<forall>r \<in> set [demo_answer 8]. ghs_seq r < lc_seqid demo_api"
    by (simp_all add: demo_answer_def demo_api_def ret_defs pb_host_def)
  have l: "length (replicate READ_BUF (0 :: byte)) = READ_BUF" by simp
  obtain lc' where g: "lc_get_host base128 True [Dgram (0, 0) (frame (ID_GetHostResponse, GetHostResponse_Serialize base128 (demo_answer 8))),
      Dgram (0, 0) (frame (ID_GetHostResponse, GetHostResponse_Serialize base128 (demo_answer 9)))] (replicate READ_BUF 0) 1 2 ([], 0) demo_api =
      Inr (RET_SUCC, (inet_ntoa 100, 80), lc')"
    using b128.get_host_answer [OF demo_api_ok l a(6) a(1-3), of "(0, 0)" "[]" "([], 0)"] a(4,5) by simp
  then show ?thesis using api_answer_authentic [OF g l] by (auto simp: demo_api_def)
qed

text \<open>
  A client that reports the result of a call with the address strings that \<open>get_host\<close> gave it names exactly that
  host: the report is sent to the server that is responsible for the module, and its receiver parses the address and port of the host and the result.
\<close>

theorem report_names_offered_host:
  assumes "wire_ok W" "api_ok lc" "good_module modid cmdid"
  shows "\<exists>body. lc_report W True modid cmdid (inet_ntoa (pb_ip h)) (pb_port h) retcode lc =
      Inr (lc\<lparr>lc_sent := lc_sent lc @ [(lc_sockfd lc ! server_of modid cmdid, frame (ID_ReportRequest, body))]\<rparr>) \<and>
    ReportRequest_Parse W body = (True, \<lparr>rpq_modid = modid, rpq_cmdid = cmdid, rpq_host = Some h, rpq_retcode = retcode\<rparr>)"
proof -
  have w: "wire_format W" by (rule wire_format.intro [OF assms(1)])
  show ?thesis
    using wire_format.report_sends [OF w assms(2,3), of h retcode] wire_format.ReportRequest_parse [OF w] unfolding ReportRequest_Parse_def by blast
qed

theorem report_names_offered_host_witness:
  "\<exists>body. lc_report base128 True 1 2 (inet_ntoa 100) 80 0 demo_api = Inr (demo_api\<lparr>lc_sent := [(4, frame (ID_ReportRequest, body))]\<rparr>) \<and>
     ReportRequest_Parse base128 body = (True, \<lparr>rpq_modid = 1, rpq_cmdid = 2, rpq_host = Some \<lparr>pb_ip = 100, pb_port = 80\<rparr>, rpq_retcode = 0\<rparr>)"
  using report_names_offered_host [OF base128_ok demo_api_ok, of "\<lparr>pb_ip = 100, pb_port = 80\<rparr>" 0]
  by (simp add: demo_api_def server_of_def)

text \<open>
  For a module whose number and command have a negative sum that is not a multiple of three, the server index is negative and
  every call of the library reads outside its array of sockets.
\<close>

theorem negative_module_index:
  assumes "sint modid + sint cmdid < 0" "- (2 ^ 31) \<le> sint modid + sint cmdid" "(sint modid + sint cmdid) mod 3 \<noteq> 0"
  shows "(\<exists>i < 0. server_index modid cmdid = Inr i) \<and> lc_get_host W sent answers buf modid cmdid out lc = Inl Out_Of_Bounds \<and>
    lc_get_route W sent answer buf modid cmdid route lc = Inl Out_Of_Bounds"
proof -
  have neg: "- ((- (sint modid + sint cmdid)) mod 3) < 0" using assms(3) by presburger
  then have i: "server_index modid cmdid = Inr (- ((- (sint modid + sint cmdid)) mod 3))" using assms(1,2) by (simp add: server_index_def smod3)
  have "api_send s modid cmdid n body k l = Inl Out_Of_Bounds" for s n body k l
    using neg by (auto simp: api_send_def i sock_at_def ensure_def)
  then show ?thesis using neg i by (auto simp: lc_get_host_def lc_get_route_def Let_def)
qed

theorem negative_module_index_witness:
  "lc_get_host base128 True [] [] (- 1) 0 ([], 0) demo_api = Inl Out_Of_Bounds"
  using negative_module_index [of "- 1" 0] by simp

lemma reg_tries_ok:
  assumes "wire_ok W" "good_module modid cmdid" "length buf = READ_BUF" "\<forall>hs \<in> set hss. length hs \<le> 2924"
    and "api_ok lc" "retry \<le> 3" "3 - retry \<le> length hss"
  shows "\<exists>route lc'. reg_tries W (map (\<lambda>hs. (True, Dgram a (frame (ID_API_GetRouteResponse,
        GetRouteResponse_Serialize W \<lparr>grs_modid = modid, grs_cmdid = cmdid, grs_host = hs\<rparr>)))) hss) buf retry modid cmdid [] lc = Inr (route, lc') \<and>
    (route = [] \<longleftrightarrow> (\<forall>hs \<in> set (take (3 - retry) hss). hs = [])) \<and>
    length (lc_sent lc') = length (lc_sent lc) + min (3 - retry) (Suc (length (takeWhile (\<lambda>hs. hs = []) hss)))"
  using assms(4-)
proof (induction hss arbitrary: lc retry)
  case Nil
  then show ?case by (subst reg_tries.simps) simp
next
  case (Cons hs hss)
  have w: "wire_format W" by (rule wire_format.intro [OF assms(1)])
  let ?req = "frame (ID_API_GetRouteRequest, GetRouteRequest_Serialize W \<lparr>grq_modid = modid, grq_cmdid = cmdid\<rparr>)"
  let ?lc = "lc\<lparr>lc_sent := lc_sent lc @ [(lc_sockfd lc ! server_of modid cmdid, ?req)]\<rparr>"
  show ?case
  proof (cases "retry < 3")
    case False
    then show ?thesis using Cons.prems(3) by (subst reg_tries.simps) simp
  next
    case True
    have g: "lc_get_route W True (Dgram a (frame (ID_API_GetRouteResponse, GetRouteResponse_Serialize W \<lparr>grs_modid = modid, grs_cmdid = cmdid, grs_host = hs\<rparr>)))
        buf modid cmdid [] lc = Inr (RET_SUCC, [] @ map (\<lambda>h. (inet_ntoa (ntohl (pb_ip h)), pb_port h)) hs, ?lc)"
      using Cons.prems(1) by (intro wire_format.get_route_answer [OF w Cons.prems(2) assms(2,3)]) simp
    show ?thesis
    proof (cases "hs = []")
      case False
      then show ?thesis using True g by (subst reg_tries.simps) (auto simp: take_Cons' min_def)
    next
      case hs: True
      obtain route lc' where ih: "reg_tries W (map (\<lambda>hs. (True, Dgram a (frame (ID_API_GetRouteResponse,
            GetRouteResponse_Serialize W \<lparr>grs_modid = modid, grs_cmdid = cmdid, grs_host = hs\<rparr>)))) hss) buf (Suc retry) modid cmdid [] ?lc = Inr (route, lc')"
          "route = [] \<longleftrightarrow> (\<forall>hs \<in> set (take (3 - Suc retry) hss). hs = [])"
          "length (lc_sent lc') = length (lc_sent ?lc) + min (3 - Suc retry) (Suc (length (takeWhile (\<lambda>hs. hs = []) hss)))"
        using Cons.IH [of ?lc "Suc retry"] Cons.prems True by (auto simp: api_ok_def le_diff_conv)
      have "take (3 - retry) (hs # hss) = hs # take (3 - Suc retry) hss" using True by (simp add: take_Cons' Suc_diff_Suc)
      then show ?thesis using True hs g ih by (subst reg_tries.simps) (auto simp: min_def)
    qed
  qed
qed

text \<open>
  When the agent answers each of the route requests of \<open>reg_init\<close> with some list of hosts, registration makes at most three
  requests, stops at the first answer that has a host, and succeeds exactly if one of the first three answers has one.
\<close>

theorem reg_init_outcome:
  assumes "wire_ok W" "api_ok lc" "good_module modid cmdid" "length buf = READ_BUF" "3 \<le> length hss" "\<forall>hs \<in> set hss. length hs \<le> 2924"
  shows "\<exists>lc'. reg_init W (map (\<lambda>hs. (True, Dgram a (frame (ID_API_GetRouteResponse,
        GetRouteResponse_Serialize W \<lparr>grs_modid = modid, grs_cmdid = cmdid, grs_host = hs\<rparr>)))) hss) buf modid cmdid lc =
      Inr (if \<exists>hs \<in> set (take 3 hss). hs \<noteq> [] then RET_SUCC else RET_NOEXIST, lc') \<and>
    length (lc_sent lc') = length (lc_sent lc) + min 3 (Suc (length (takeWhile (\<lambda>hs. hs = []) hss)))"
  using reg_tries_ok [OF assms(1,3,4,6,2), of 0 a] assms(5) by (auto simp: reg_init_def)

theorem reg_init_outcome_witness:
  "\<exists>lc'. reg_init base128 (map (\<lambda>hs. (True, Dgram (0, 0) (frame (ID_API_GetRouteResponse,
        GetRouteResponse_Serialize base128 \<lparr>grs_modid = 1, grs_cmdid = 2, grs_host = hs\<rparr>)))) [[], [\<lparr>pb_ip = 9, pb_port = 80\<rparr>], []])
      (replicate READ_BUF 0) 1 2 demo_api = Inr (RET_SUCC, lc') \<and> length (lc_sent lc') = Suc (Suc 0)"
  using reg_init_outcome [OF base128_ok demo_api_ok, of "replicate READ_BUF 0" "[[], [\<lparr>pb_ip = 9, pb_port = 80\<rparr>], []]" "(0, 0)"]
  by (simp add: demo_api_def)

end
