(* ===== verification/Agent.thy ===== *)
theory Agent
  imports Route_Lb Protobuf Udp Tcp_Client Config_File
begin

text \<open>
  The agent process: \<^verbatim>\<open>lars_lb_agent/src/agent_udp_server.cpp\<close>, \<^verbatim>\<open>lars_lb_agent/src/dns_client.cpp\<close>,
  \<^verbatim>\<open>lars_lb_agent/src/report_client.cpp\<close> and \<^verbatim>\<open>lars_lb_agent/src/main_server.cpp\<close>. Three datagram servers answer the clients from the
  three tables \<open>r_lb\<close>; one TCP client forwards route requests to the route service and stores its answers; another one forwards reports. The global
  variables are the record \<open>agent\<close>; a queue that has not been created yet is \<open>None\<close>, the null pointer, and sending through it is a fault.
  The readings of the clock during a callback and the answer of \<open>sendto\<close> are the record \<open>agent_env\<close>. The callbacks ignore the
  result of \<open>ParseFromArray\<close>: they work with whatever the message object then holds.
\<close>

section \<open>Model\<close>

record agent =
  ag_r_lb :: "route_lb list"
  ag_dns_queue :: "GetRouteRequest thread_queue option"
  ag_report_queue :: "ReportStatusRequest thread_queue option"

record agent_env =
  ae_cfg :: load_balance_config
  ae_time :: int
  ae_now :: int
  ae_commit_time :: int
  ae_ts :: "nat \<Rightarrow> int"
  ae_sendto :: "int option"

definition r_lb_at :: "int \<Rightarrow> agent \<Rightarrow> route_lb res" where
  "r_lb_at i ag = bindR (ensure (0 \<le> i \<and> nat i < length (ag_r_lb ag)) Out_Of_Bounds) (\<lambda>_. Inr (ag_r_lb ag ! nat i))"

definition put_r_lb :: "int \<Rightarrow> route_lb \<Rightarrow> agent \<Rightarrow> agent" where
  "put_r_lb i rl ag = ag\<lparr>ag_r_lb := (ag_r_lb ag)[nat i := rl]\<rparr>"

text \<open>An operation that may send through a queue pointer: it fails if it does send and the pointer is null.\<close>

definition null_queue :: "'t thread_queue" where
  "null_queue = \<lparr>tq_evfd = -1, tq_counter = 0, tq_loop = None, tq_queue = []\<rparr>"

definition via_queue :: "'t thread_queue option \<Rightarrow> ('t thread_queue \<Rightarrow> ('r \<times> 't thread_queue) res) \<Rightarrow> ('r \<times> 't thread_queue option) res" where
  "via_queue q f =
     (case q of
        Some q \<Rightarrow> bindR (f q) (\<lambda>(r, q). Inr (r, Some q))
      | None \<Rightarrow> bindR (f null_queue) (\<lambda>(r, q). if q = null_queue then Inr (r, None) else Inl Null_Deref))"

subsection \<open>The datagram servers\<close>

datatype agent_cb = Report_Cb | Get_Host_Cb | Get_Route_Cb

type_synonym agent_server = "(agent_cb, int, agent) udp_server"

definition report_cb :: "wire \<Rightarrow> agent_env \<Rightarrow> bytes \<Rightarrow> int \<Rightarrow> agent_server \<Rightarrow> agent_server res" where
  "report_cb W env data i us =
     (let req = snd (ReportRequest_Parse W data); ag = ud_app us in
      bindR (r_lb_at i ag) (\<lambda>rl.
      bindR (via_queue (ag_report_queue ag) (report_host (ae_cfg env) (ae_time env) (ae_now env) (ae_commit_time env) req rl)) (\<lambda>(rl, q).
      Inr (us\<lparr>ud_app := (put_r_lb i rl ag)\<lparr>ag_report_queue := q\<rparr>\<rparr>))))"

definition get_host_cb :: "wire \<Rightarrow> agent_env \<Rightarrow> bytes \<Rightarrow> int \<Rightarrow> agent_server \<Rightarrow> agent_server res" where
  "get_host_cb W env data i us =
     (let req = snd (GetHostRequest_Parse W data); modid = ghq_modid req; cmdid = ghq_cmdid req;
          rsp = \<lparr>ghs_seq = ghq_seq req, ghs_modid = modid, ghs_cmdid = cmdid, ghs_retcode = 0, ghs_host = None\<rparr>; ag = ud_app us in
      bindR (r_lb_at i ag) (\<lambda>rl.
      bindR (via_queue (ag_dns_queue ag) (\<lambda>q.
          bindR (rl_get_host (ae_cfg env) (ae_now env) modid cmdid rsp rl q) (\<lambda>(_, rsp, rl, q). Inr ((rsp, rl), q)))) (\<lambda>((rsp, rl), q).
      (let us = us\<lparr>ud_app := (put_r_lb i rl ag)\<lparr>ag_dns_queue := q\<rparr>\<rparr>; responseString = GetHostResponse_Serialize W rsp in
       bindR (udp_server_send_message (ae_sendto env) responseString (of_nat (length responseString)) ID_GetHostResponse us) (\<lambda>(_, us).
       Inr us)))))"

definition get_route_cb :: "wire \<Rightarrow> agent_env \<Rightarrow> bytes \<Rightarrow> int \<Rightarrow> agent_server \<Rightarrow> agent_server res" where
  "get_route_cb W env data i us =
     (let req = snd (GetRouteRequest_Parse W data); modid = grq_modid req; cmdid = grq_cmdid req;
          rsp = \<lparr>grs_modid = modid, grs_cmdid = cmdid, grs_host = []\<rparr>; ag = ud_app us in
      bindR (r_lb_at i ag) (\<lambda>rl.
      bindR (via_queue (ag_dns_queue ag) (\<lambda>q.
          bindR (rl_get_route (ae_cfg env) (ae_now env) modid cmdid rsp rl q) (\<lambda>(_, rsp, rl, q). Inr ((rsp, rl), q)))) (\<lambda>((rsp, rl), q).
      (let us = us\<lparr>ud_app := (put_r_lb i rl ag)\<lparr>ag_dns_queue := q\<rparr>\<rparr>; responseString = GetRouteResponse_Serialize W rsp in
       bindR (udp_server_send_message (ae_sendto env) responseString (of_nat (length responseString)) ID_API_GetRouteResponse us) (\<lambda>(_, us).
       Inr us)))))"

text \<open>The callbacks by name; the user data is the index of the table.\<close>

definition agent_run :: "wire \<Rightarrow> agent_env \<Rightarrow> agent_cb \<Rightarrow> bytes \<Rightarrow> i32 \<Rightarrow> i32 \<Rightarrow> unit \<Rightarrow> int option \<Rightarrow> agent_server \<Rightarrow> agent_server res" where
  "agent_run W env cb data len msgid conn user_data us =
     (case user_data of
        None \<Rightarrow> Inl Null_Deref
      | Some i \<Rightarrow>
          (case cb of Report_Cb \<Rightarrow> report_cb W env data i us | Get_Host_Cb \<Rightarrow> get_host_cb W env data i us | Get_Route_Cb \<Rightarrow> get_route_cb W env data i us))"

definition agent_server_main ::
  "int \<Rightarrow> int \<Rightarrow> int \<Rightarrow> bytes \<Rightarrow> ptr \<Rightarrow> int \<Rightarrow> agent \<Rightarrow> (agent_server \<times> (unit, unit) event_loop) res" where
  "agent_server_main epfd sockfd bind_ret raw loop index ag =
     bindR (event_loop_create epfd) (\<lambda>l.
     bindR (udp_server_new sockfd bind_ret raw () () loop ag l) (\<lambda>(server, l).
     (let server = udp_add_msg_router ID_GetHostRequest Get_Host_Cb index server;
          server = udp_add_msg_router ID_ReportRequest Report_Cb index server;
          server = udp_add_msg_router ID_API_GetRouteRequest Get_Route_Cb index server in
      Inr (server, l))))"

subsection \<open>The client of the route service\<close>

datatype dns_cb = Deal_Recv_Route
datatype dns_hook = Conn_Init

type_synonym dns_client = "(dns_cb, unit, dns_hook, agent) client_state"

definition store_route :: "wire \<Rightarrow> agent_env \<Rightarrow> bytes \<Rightarrow> agent \<Rightarrow> agent res" where
  "store_route W env data ag =
     (let rsp = snd (GetRouteResponse_Parse W data); modid = grs_modid rsp; cmdid = grs_cmdid rsp in
      bindR (server_index modid cmdid) (\<lambda>index.
      bindR (r_lb_at index ag) (\<lambda>rl.
      bindR (update_host (ae_cfg env) (ae_time env) (ae_ts env) modid cmdid rsp rl) (\<lambda>(_, rl).
      Inr (put_r_lb index rl ag)))))"

definition deal_recv_route :: "wire \<Rightarrow> agent_env \<Rightarrow> bytes option \<Rightarrow> dns_client \<Rightarrow> dns_client res" where
  "deal_recv_route W env data cl =
     bindR (store_route W env (case data of None \<Rightarrow> [] | Some bs \<Rightarrow> bs) (cl_app cl)) (\<lambda>ag. Inr (cl\<lparr>cl_app := ag\<rparr>))"

fun send_requests :: "(bytes \<times> i32) list \<Rightarrow> ('cb, 'u, 'h, 'x) client_state \<Rightarrow> ('cb, 'u, 'h, 'x) client_state res" where
  "send_requests [] cl = Inr cl"
| "send_requests ((requestString, msgid) # msgs) cl =
     bindR (client_send_message requestString (of_nat (length requestString)) msgid cl) (\<lambda>(_, cl). send_requests msgs cl)"

definition new_dns_request :: "wire \<Rightarrow> dns_client \<Rightarrow> dns_client res" where
  "new_dns_request W cl =
     (case ag_dns_queue (cl_app cl) of
        None \<Rightarrow> Inl Null_Deref
      | Some q \<Rightarrow>
          (let (msgs, q) = tq_recv [] q in
           send_requests (map (\<lambda>req. (GetRouteRequest_Serialize W req, ID_GetRouteRequest)) msgs) (cl\<lparr>cl_app := (cl_app cl)\<lparr>ag_dns_queue := Some q\<rparr>\<rparr>)))"

text \<open>The three tables of an agent exist for its whole life; \<open>conn_init\<close> resets all of them.\<close>

definition reset_tables :: "agent \<Rightarrow> agent res" where
  "reset_tables ag =
     bindR (ensure (3 \<le> length (ag_r_lb ag)) Out_Of_Bounds) (\<lambda>_.
     Inr (ag\<lparr>ag_r_lb := map reset_lb_status (take 3 (ag_r_lb ag)) @ drop 3 (ag_r_lb ag)\<rparr>))"

definition conn_init :: "dns_client \<Rightarrow> dns_client res" where
  "conn_init cl = bindR (reset_tables (cl_app cl)) (\<lambda>ag. Inr (cl\<lparr>cl_app := ag\<rparr>))"

definition dns_handlers :: "wire \<Rightarrow> agent_env \<Rightarrow> (dns_cb, unit, dns_hook, agent) cli_handlers" where
  "dns_handlers W env = \<lparr>cli_message = (\<lambda>cb data len msgid conn u. deal_recv_route W env data), cli_hook = (\<lambda>h. conn_init)\<rparr>"

text \<open>\<open>queue->set_loop(&loop); queue->set_callback(...)\<close> with the client's loop at address 0.\<close>

definition watch_queue :: "'t thread_queue option \<Rightarrow> ('cb, 'u, 'h, 'x) client_state \<Rightarrow> ('t thread_queue \<times> ('cb, 'u, 'h, 'x) client_state) res" where
  "watch_queue queue cl =
     (case queue of
        None \<Rightarrow> Inl Null_Deref
      | Some q \<Rightarrow>
          (let q = tq_set_loop 0 q in
           bindR (tq_set_callback Queue_Callback () q [0 \<mapsto> cl_loop cl]) (\<lambda>loops.
           bindR (deref loops 0) (\<lambda>l. Inr (q, cl\<lparr>cl_loop := l\<rparr>)))))"

definition dns_client_thread ::
  "wire \<Rightarrow> agent_env \<Rightarrow> config_file \<Rightarrow> buf_pool \<Rightarrow> int \<Rightarrow> int \<Rightarrow> connect_ans \<Rightarrow> int \<Rightarrow> agent \<Rightarrow> dns_client res" where
  "dns_client_thread W env cfg pool epfd sock ans result ag =
     bindR (event_loop_create epfd) (\<lambda>loop.
     (let ip = GetString ''dns'' ''ip'' ''127.0.0.1'' cfg; port = ucast (GetNumber ''dns'' ''port'' 7778 cfg) in
      bindR (tcp_client_new (dns_handlers W env) pool loop {} ag ip port sock ans result) (\<lambda>client.
      bindR (watch_queue (ag_dns_queue (cl_app client)) client) (\<lambda>(q, client).
      (let client = client\<lparr>cl_app := (cl_app client)\<lparr>ag_dns_queue := Some q\<rparr>\<rparr>;
           client = client_add_msg_router ID_GetRouteResponse Deal_Recv_Route () client in
       Inr (client_set_conn_start Conn_Init client))))))"

subsection \<open>The client of the report service\<close>

type_synonym report_client = "(unit, unit, unit, agent) client_state"

definition new_report_request :: "wire \<Rightarrow> report_client \<Rightarrow> report_client res" where
  "new_report_request W cl =
     (case ag_report_queue (cl_app cl) of
        None \<Rightarrow> Inl Null_Deref
      | Some q \<Rightarrow>
          (let (msgs, q) = tq_recv [] q in
           send_requests (map (\<lambda>req. (ReportStatusRequest_Serialize W req, ID_ReportStatusRequest)) msgs) (cl\<lparr>cl_app := (cl_app cl)\<lparr>ag_report_queue := Some q\<rparr>\<rparr>)))"

definition report_client_thread ::
  "(unit, unit, unit, agent) cli_handlers \<Rightarrow> config_file \<Rightarrow> buf_pool \<Rightarrow> int \<Rightarrow> int \<Rightarrow> connect_ans \<Rightarrow> int \<Rightarrow> agent \<Rightarrow> report_client res" where
  "report_client_thread hs cfg pool epfd sock ans result ag =
     bindR (event_loop_create epfd) (\<lambda>loop.
     (let ip = GetString ''reporter'' ''ip'' ''127.0.0.1'' cfg; port = ucast (GetNumber ''reporter'' ''port'' 7779 cfg) in
      bindR (tcp_client_new hs pool loop {} ag ip port sock ans result) (\<lambda>client.
      bindR (watch_queue (ag_report_queue (cl_app client)) client) (\<lambda>(q, client).
      Inr (client\<lparr>cl_app := (cl_app client)\<lparr>ag_report_queue := Some q\<rparr>\<rparr>)))))"

subsection \<open>Start-up\<close>

text \<open>The defaults 0.1 and 0.95 of the two rates are the \<open>float\<close> values \<open>13421773 / 2 ^ 27\<close> and \<open>15938355 / 2 ^ 24\<close>.\<close>

definition init_lb_agent :: "config_file \<Rightarrow> load_balance_config \<times> agent" where
  "init_lb_agent cfg =
     (let num = (\<lambda>k d. GetNumber ''loadbalance'' k d cfg) in
      (\<lparr>probe_num = sint (num ''probe_num'' 10), init_succ_cnt = num ''init_succ_cnt'' 180, init_err_cnt = num ''init_err_cnt'' 5,
        err_rate = GetFloat ''loadbalance'' ''err_rate'' (13421773, 27) cfg,
        succ_rate = GetFloat ''loadbalance'' ''succ_rate'' (15938355, 24) cfg,
        contin_err_limit = num ''contin_err_limit'' 10, contin_succ_limit = num ''contin_succ_limit'' 10,
        idle_timeout = sint (num ''idle_timeout'' 15), overload_timeout = sint (num ''overload_timeout'' 15),
        update_timeout = uint (num ''update_timeout'' 15)\<rparr>,
       \<lparr>ag_r_lb = [route_lb_new 1, route_lb_new 2, route_lb_new 3], ag_dns_queue = None, ag_report_queue = None\<rparr>))"

text \<open>The two steps of \<open>main\<close> that create the queues, after the datagram servers have been started.\<close>

definition create_report_queue :: "int \<Rightarrow> agent \<Rightarrow> agent res" where
  "create_report_queue evfd ag = bindR (thread_queue_new evfd) (\<lambda>q. Inr (ag\<lparr>ag_report_queue := Some q\<rparr>))"

definition create_dns_queue :: "int \<Rightarrow> agent \<Rightarrow> agent res" where
  "create_dns_queue evfd ag = bindR (thread_queue_new evfd) (\<lambda>q. Inr (ag\<lparr>ag_dns_queue := Some q\<rparr>))"

section \<open>Answering clients\<close>

definition agent_ok :: "agent_env \<Rightarrow> agent \<Rightarrow> bool" where
  "agent_ok env ag \<longleftrightarrow> length (ag_r_lb ag) = 3 \<and> (\<forall>rl \<in> set (ag_r_lb ag). rl_inv (ae_cfg env) rl)"

text \<open>The routes that \<open>agent_server_main\<close> registers for the server of table \<open>i\<close>.\<close>

definition serving :: "int \<Rightarrow> agent_server \<Rightarrow> bool" where
  "serving i us \<longleftrightarrow> length (ud_read_buf us) = nat MESSAGE_LENGTH_LIMIT \<and>
     (\<forall>(m, cb) \<in> {(ID_GetHostRequest, Get_Host_Cb), (ID_ReportRequest, Report_Cb), (ID_API_GetRouteRequest, Get_Route_Cb)}.
        mr_router (ud_router us) m = Some cb \<and> mr_args (ud_router us) m = Some i) \<and>
     (\<forall>m cb. mr_router (ud_router us) m = Some cb \<longrightarrow> mr_args (ud_router us) m = Some i)"

lemma ID_distinct [simp]:
  "ID_GetHostRequest \<noteq> ID_ReportRequest" "ID_GetHostRequest \<noteq> ID_API_GetRouteRequest" "ID_ReportRequest \<noteq> ID_API_GetRouteRequest"
  "ID_ReportRequest \<noteq> ID_GetHostRequest" "ID_API_GetRouteRequest \<noteq> ID_GetHostRequest" "ID_API_GetRouteRequest \<noteq> ID_ReportRequest"
  by (simp_all add: ID_GetHostRequest_def ID_ReportRequest_def ID_API_GetRouteRequest_def)

lemma agent_server_main_serving:
  assumes "agent_server_main epfd sockfd bind_ret raw loop i ag = Inr (us, l)" "length raw = nat MESSAGE_LENGTH_LIMIT"
  shows "serving i us" "ud_app us = ag" "ud_sent us = []"
  using assms
  by (auto simp: agent_server_main_def serving_def bindR_eq_Inr ensure_eq_Inr udp_server_new_def udp_add_msg_router_def register_msg_router_def
      msg_router_new_def Let_def split: if_splits)

lemma serving_upd [simp]:
  "serving i (us\<lparr>ud_app := ag\<rparr>) = serving i us" "serving i (us\<lparr>ud_sent := out\<rparr>) = serving i us"
  by (simp_all add: serving_def)

text \<open>A datagram with one message reaches the callback registered for it.\<close>

lemma do_read_one:
  assumes "serving i us" "(msgid, cb) \<in> {(ID_GetHostRequest, Get_Host_Cb), (ID_ReportRequest, Report_Cb), (ID_API_GetRouteRequest, Get_Route_Cb)}"
    and "8 + length body \<le> nat MESSAGE_LENGTH_LIMIT"
  obtains buf where "length buf = length (ud_read_buf us)"
    "udp_server_do_read run [Dgram a (frame (msgid, body)), Rc_err EAGAIN] us =
       run cb body (of_nat (length body)) msgid () (Some i) (us\<lparr>ud_read_buf := buf, ud_client_addr := a\<rparr>)"
proof -
  let ?dg = "frame (msgid, body)"
  have fit: "length ?dg \<le> length (ud_read_buf us)" "8 \<le> length (ud_read_buf us)"
    using assms(1,3) by (simp_all add: serving_def frame_def MESSAGE_LENGTH_LIMIT_def MESSAGE_HEAD_LEN_def)
  have m: "dgram_msg ?dg = Some (msgid, body)" using assms(3) dgram_msg_frame [of "(msgid, body)"] by simp
  have r: "mr_router (ud_router us) msgid = Some cb" "mr_args (ud_router us) msgid = Some i" using assms(1,2) by (auto simp: serving_def)
  have stop: "udp_server_do_read run [Rc_err EAGAIN] = Inr" by (rule ext) simp
  have id: "bindR x Inr = x" for x :: "agent_server res" by (cases x) simp_all
  show thesis
    by (rule udp_round [OF fit, of run a "[Rc_err EAGAIN]"], rule that, assumption) (simp add: m r router_call_def stop id Let_def del: udp_server_do_read.simps)
qed

lemma choice_ids_kept:
  "choice_one_host cfg rsp lb mem = Inr (ret, rsp', lb') \<Longrightarrow> ghs_seq rsp' = ghs_seq rsp \<and> ghs_modid rsp' = ghs_modid rsp \<and> ghs_cmdid rsp' = ghs_cmdid rsp"
  by (auto simp: choice_one_host_def get_host_from_list_def Let_def bindR_eq_Inr split: if_splits list.splits)

lemma get_host_ids_kept:
  "rl_get_host cfg now m c rsp rl q = Inr (ret, rsp', rl', q') \<Longrightarrow> ghs_seq rsp' = ghs_seq rsp \<and> ghs_modid rsp' = ghs_modid rsp \<and> ghs_cmdid rsp' = ghs_cmdid rsp"
  by (auto simp: rl_get_host_def Let_def bindR_eq_Inr case_prod_beta dest!: choice_ids_kept split: option.splits if_splits)

lemma agent_ok_put:
  assumes "agent_ok env ag" "rl_inv (ae_cfg env) rl"
  shows "agent_ok env (put_r_lb i rl ag)" "agent_ok env ((put_r_lb i rl ag)\<lparr>ag_dns_queue := q\<rparr>)" "agent_ok env ((put_r_lb i rl ag)\<lparr>ag_report_queue := q'\<rparr>)"
proof -
  have "set ((ag_r_lb ag)[nat i := rl]) \<subseteq> insert rl (set (ag_r_lb ag))" by (rule set_update_subset_insert)
  then show "agent_ok env (put_r_lb i rl ag)" "agent_ok env ((put_r_lb i rl ag)\<lparr>ag_dns_queue := q\<rparr>)" "agent_ok env ((put_r_lb i rl ag)\<lparr>ag_report_queue := q'\<rparr>)"
    using assms by (auto simp: agent_ok_def put_r_lb_def)
qed

lemma agent_ok_at:
  assumes "agent_ok env ag" "0 \<le> i" "i < 3"
  shows "r_lb_at i ag = Inr (ag_r_lb ag ! nat i)" "rl_inv (ae_cfg env) (ag_r_lb ag ! nat i)"
proof -
  have "nat i < length (ag_r_lb ag)" using assms by (simp add: agent_ok_def nat_less_iff)
  then show "r_lb_at i ag = Inr (ag_r_lb ag ! nat i)" "rl_inv (ae_cfg env) (ag_r_lb ag ! nat i)"
    using assms nth_mem by (auto simp: agent_ok_def r_lb_at_def)
qed

text \<open>A message that fits the send buffer leaves as one datagram to the sender of the request.\<close>

lemma udp_send_ok:
  assumes "length body \<le> 65519"
  shows "udp_server_send_message (Some n) body (of_nat (length body)) msgid us =
    Inr (n, us\<lparr>ud_sent := ud_sent us @ [(Some (ud_client_addr us), frame (msgid, body))]\<rparr>)"
proof -
  have "sint (of_nat (length body) :: i32) = int (length body)" using assms by (intro sint_of_nat_small) simp
  then show ?thesis using assms by (simp add: udp_server_send_message_def udp_frame_def frame_def MESSAGE_LENGTH_LIMIT_def MESSAGE_HEAD_LEN_def)
qed

context wire_format
begin

lemma get_host_cb_ok:
  assumes "agent_ok env (ud_app us)" "ag_dns_queue (ud_app us) = Some q" "0 \<le> i" "i < 3" "ae_sendto env = Some n"
  obtains ret rsp rl' q' where
    "rl_get_host (ae_cfg env) (ae_now env) (ghq_modid req) (ghq_cmdid req)
       \<lparr>ghs_seq = ghq_seq req, ghs_modid = ghq_modid req, ghs_cmdid = ghq_cmdid req, ghs_retcode = 0, ghs_host = None\<rparr> (ag_r_lb (ud_app us) ! nat i) q =
     Inr (ret, rsp, rl', q')"
    "ghs_seq rsp = ghq_seq req" "ghs_modid rsp = ghq_modid req" "ghs_cmdid rsp = ghq_cmdid req" "rl_inv (ae_cfg env) rl'"
    "get_host_cb W env (GetHostRequest_Serialize W req) i us =
     Inr (us\<lparr>ud_app := (put_r_lb i rl' (ud_app us))\<lparr>ag_dns_queue := Some q'\<rparr>,
             ud_sent := ud_sent us @ [(Some (ud_client_addr us), frame (ID_GetHostResponse, GetHostResponse_Serialize W rsp))]\<rparr>)"
proof -
  let ?rsp = "\<lparr>ghs_seq = ghq_seq req, ghs_modid = ghq_modid req, ghs_cmdid = ghq_cmdid req, ghs_retcode = 0, ghs_host = None\<rparr>"
  note at = agent_ok_at [OF assms(1,3,4)]
  obtain ret rsp rl' q' where g: "rl_get_host (ae_cfg env) (ae_now env) (ghq_modid req) (ghq_cmdid req) ?rsp (ag_r_lb (ud_app us) ! nat i) q =
      Inr (ret, rsp, rl', q')" "rl_inv (ae_cfg env) rl'"
    using rl_get_host_inv [OF at(2)] by blast
  have ids: "ghs_seq rsp = ghq_seq req" "ghs_modid rsp = ghq_modid req" "ghs_cmdid rsp = ghq_cmdid req" using get_host_ids_kept [OF g(1)] by simp_all
  have "length (GetHostResponse_Serialize W rsp) \<le> 65519" using GetHostResponse_bound [of rsp] by (simp add: GetHostResponse_size)
  note send = udp_send_ok [OF this, of n ID_GetHostResponse]
  have "get_host_cb W env (GetHostRequest_Serialize W req) i us =
     Inr (us\<lparr>ud_app := (put_r_lb i rl' (ud_app us))\<lparr>ag_dns_queue := Some q'\<rparr>,
             ud_sent := ud_sent us @ [(Some (ud_client_addr us), frame (ID_GetHostResponse, GetHostResponse_Serialize W rsp))]\<rparr>)"
    using g(1) at(1) assms(2,5) GetHostRequest_parse [of req]
    by (simp add: get_host_cb_def GetHostRequest_Parse_def via_queue_def Let_def send)
  then show thesis using that g ids by blast
qed

end

section \<open>Any datagram\<close>

text \<open>The size of a module is what bounds the answer to a route request.\<close>

definition rl_small :: "route_lb \<Rightarrow> bool" where
  "rl_small rl \<longleftrightarrow> (\<forall>(k, lb) \<in> set (rl_map rl). length (lb_host_map lb) \<le> 2339)"

definition agent_ready :: "agent_env \<Rightarrow> agent \<Rightarrow> bool" where
  "agent_ready env ag \<longleftrightarrow>
     agent_ok env ag \<and> (\<forall>rl \<in> set (ag_r_lb ag). rl_small rl) \<and> ag_dns_queue ag \<noteq> None \<and> ag_report_queue ag \<noteq> None"

lemma set_alist_update: "set (AList.update k v xs) \<subseteq> insert (k, v) (set xs)"
  by (induction xs) auto

lemma rl_small_update:
  assumes "rl_small rl" "length (lb_host_map lb) \<le> 2339"
  shows "rl_small (rl\<lparr>rl_map := AList.update k lb (rl_map rl)\<rparr>)" "rl_small (rl\<lparr>rl_map := AList.update k lb (rl_map rl), rl_mem := mem\<rparr>)"
    "rl_small (rl\<lparr>rl_map := rl_map rl @ [(k, lb)]\<rparr>)"
  using set_alist_update [of k lb "rl_map rl"] assms by (auto simp: rl_small_def)

lemma rl_small_at: "rl_small rl \<Longrightarrow> map_of (rl_map rl) k = Some lb \<Longrightarrow> length (lb_host_map lb) \<le> 2339"
  using map_of_SomeD [of "rl_map rl" k lb] by (auto simp: rl_small_def)

lemma pull_if_stale_map [simp]: "lb_host_map (fst (pull_if_stale cfg now lb q)) = lb_host_map lb"
  by (simp add: pull_if_stale_def lb_pull_def)

lemma choice_map: "choice_one_host cfg rsp lb mem = Inr (ret, rsp', lb') \<Longrightarrow> lb_host_map lb' = lb_host_map lb"
  by (auto simp: choice_one_host_def get_host_from_list_def Let_def bindR_eq_Inr split: if_splits list.splits)

lemma host_infos_length: "host_infos ps mem = Inr hs \<Longrightarrow> length hs = length ps"
  by (induction ps arbitrary: hs) (auto simp: bindR_eq_Inr)

lemma get_host_small:
  assumes "rl_small rl" "rl_get_host cfg now m c rsp rl q = Inr (ret, rsp', rl', q')"
  shows "rl_small rl'"
  using assms rl_small_at [OF assms(1)]
  by (auto simp: rl_get_host_def lb_pull_def load_balance_new_def Let_def bindR_eq_Inr case_prod_beta intro!: rl_small_update
      split: option.splits if_splits dest!: choice_map)

lemma get_route_small:
  assumes "rl_small rl" "rl_get_route cfg now m c rsp rl q = Inr (ret, rsp', rl', q')" "grs_host rsp = []"
  shows "rl_small rl'" "length (grs_host rsp') \<le> 2339"
  using assms rl_small_at [OF assms(1)]
  by (auto simp: rl_get_route_def lb_pull_def load_balance_new_def get_all_hosts_def Let_def bindR_eq_Inr case_prod_beta intro!: rl_small_update
      split: option.splits if_splits dest!: host_infos_length)

lemma report_small:
  assumes "rl_inv cfg rl" "rl_small rl" "report_host cfg t now tc req rl q = Inr (rl', q')"
  shows "rl_small rl'"
proof (cases "map_of (rl_map rl) (mk_key (rpq_modid req) (rpq_cmdid req))")
  case None
  then show ?thesis using assms by (simp add: report_host_def)
next
  case (Some lb)
  obtain lb' mem' where "lb_report cfg t now (pb_ip (pb_host (rpq_host req))) (pb_port (pb_host (rpq_host req))) (rpq_retcode req) lb (rl_mem rl) = Inr (lb', mem')"
      "lb_host_map lb' = lb_host_map lb"
    using lb_report_inv [OF rl_inv_lookup(1) [OF assms(1) Some]] by blast
  then show ?thesis using Some assms rl_small_at [OF assms(2) Some] by (auto simp: report_host_def bindR_eq_Inr intro!: rl_small_update)
qed

text \<open>Replacing one table and one queue of an agent that is ready.\<close>

lemma agent_ready_put:
  assumes "agent_ready env ag" "rl_inv (ae_cfg env) rl" "rl_small rl"
  shows "agent_ready env ((put_r_lb i rl ag)\<lparr>ag_dns_queue := Some q\<rparr>)" "agent_ready env ((put_r_lb i rl ag)\<lparr>ag_report_queue := Some q'\<rparr>)"
proof -
  have "set ((ag_r_lb ag)[nat i := rl]) \<subseteq> insert rl (set (ag_r_lb ag))" by (rule set_update_subset_insert)
  then show "agent_ready env ((put_r_lb i rl ag)\<lparr>ag_dns_queue := Some q\<rparr>)" "agent_ready env ((put_r_lb i rl ag)\<lparr>ag_report_queue := Some q'\<rparr>)"
    using assms by (auto simp: agent_ready_def agent_ok_def put_r_lb_def)
qed

definition served :: "agent_env \<Rightarrow> int \<Rightarrow> agent_server \<Rightarrow> bool" where
  "served env i us \<longleftrightarrow> 0 \<le> i \<and> i < 3 \<and> serving i us \<and> agent_ready env (ud_app us)"

lemma served_put:
  assumes "served env i us" "rl_inv (ae_cfg env) rl" "rl_small rl"
  shows "served env i (us\<lparr>ud_app := (put_r_lb i rl (ud_app us))\<lparr>ag_dns_queue := Some q\<rparr>\<rparr>)"
    "served env i (us\<lparr>ud_app := (put_r_lb i rl (ud_app us))\<lparr>ag_report_queue := Some q'\<rparr>\<rparr>)"
  using assms agent_ready_put [OF _ assms(2,3)] by (simp_all add: served_def)

lemma served_at:
  assumes "served env i us"
  shows "r_lb_at i (ud_app us) = Inr (ag_r_lb (ud_app us) ! nat i)" "rl_inv (ae_cfg env) (ag_r_lb (ud_app us) ! nat i)"
    "rl_small (ag_r_lb (ud_app us) ! nat i)"
proof -
  have "agent_ok env (ud_app us)" "0 \<le> i" "i < 3" using assms by (auto simp: served_def agent_ready_def)
  then show "r_lb_at i (ud_app us) = Inr (ag_r_lb (ud_app us) ! nat i)" "rl_inv (ae_cfg env) (ag_r_lb (ud_app us) ! nat i)"
    by (rule agent_ok_at)+
  show "rl_small (ag_r_lb (ud_app us) ! nat i)"
    using assms by (auto simp: served_def agent_ready_def agent_ok_def)
qed

lemma served_queues:
  assumes "served env i us"
  obtains q rq where "ag_dns_queue (ud_app us) = Some q" "ag_report_queue (ud_app us) = Some rq"
  using assms by (auto simp: served_def agent_ready_def)

text \<open>An answer of legal size is sent or reported as not sent; the server goes on.\<close>

lemma served_send:
  assumes "length body \<le> 65519" "served env i us"
  shows "\<exists>ret us'. udp_server_send_message answer body (of_nat (length body)) msgid us = Inr (ret, us') \<and> served env i us'"
proof (cases answer)
  case (Some n)
  then show ?thesis using udp_send_ok [OF assms(1), of n msgid us] assms(2) by (simp add: served_def)
next
  case None
  have "sint (of_nat (length body) :: i32) = int (length body)" using assms by (intro sint_of_nat_small) simp
  then show ?thesis using None assms by (simp add: udp_server_send_message_def udp_frame_def MESSAGE_LENGTH_LIMIT_def MESSAGE_HEAD_LEN_def)
qed

lemma report_cb_served:
  assumes "served env i us"
  shows "\<exists>us'. report_cb W env data i us = Inr us' \<and> served env i us'"
proof -
  let ?req = "snd (ReportRequest_Parse W data)" and ?rl = "ag_r_lb (ud_app us) ! nat i"
  obtain q rq where q: "ag_report_queue (ud_app us) = Some rq" by (rule served_queues [OF assms])
  note at = served_at [OF assms]
  obtain rl' q' where r: "report_host (ae_cfg env) (ae_time env) (ae_now env) (ae_commit_time env) ?req ?rl rq = Inr (rl', q')" "rl_inv (ae_cfg env) rl'"
    using report_host_inv [OF at(2)] by blast
  have "served env i (us\<lparr>ud_app := (put_r_lb i rl' (ud_app us))\<lparr>ag_report_queue := Some q'\<rparr>\<rparr>)"
    by (rule served_put [OF assms r(2) report_small [OF at(2,3) r(1)]])
  then show ?thesis using r(1) at(1) q by (simp add: report_cb_def via_queue_def Let_def)
qed

context wire_format
begin

lemma get_host_cb_served:
  assumes "served env i us"
  shows "\<exists>us'. get_host_cb W env data i us = Inr us' \<and> served env i us'"
proof -
  let ?req = "snd (GetHostRequest_Parse W data)" and ?rl = "ag_r_lb (ud_app us) ! nat i"
  let ?rsp = "\<lparr>ghs_seq = ghq_seq ?req, ghs_modid = ghq_modid ?req, ghs_cmdid = ghq_cmdid ?req, ghs_retcode = 0, ghs_host = None\<rparr>"
  obtain q rq where q: "ag_dns_queue (ud_app us) = Some q" by (rule served_queues [OF assms])
  note at = served_at [OF assms]
  obtain ret rsp rl' q' where g: "rl_get_host (ae_cfg env) (ae_now env) (ghq_modid ?req) (ghq_cmdid ?req) ?rsp ?rl q = Inr (ret, rsp, rl', q')" "rl_inv (ae_cfg env) rl'"
    using rl_get_host_inv [OF at(2)] by blast
  let ?us = "us\<lparr>ud_app := (put_r_lb i rl' (ud_app us))\<lparr>ag_dns_queue := Some q'\<rparr>\<rparr>"
  have s: "served env i ?us"
    by (rule served_put [OF assms g(2) get_host_small [OF at(3) g(1)]])
  have "length (GetHostResponse_Serialize W rsp) \<le> 65519" using GetHostResponse_bound [of rsp] by (simp add: GetHostResponse_size)
  from served_send [OF this s, of "ae_sendto env" ID_GetHostResponse] show ?thesis
    using g(1) at(1) q by (auto simp: get_host_cb_def via_queue_def Let_def)
qed

lemma get_route_cb_served:
  assumes "served env i us"
  shows "\<exists>us'. get_route_cb W env data i us = Inr us' \<and> served env i us'"
proof -
  let ?req = "snd (GetRouteRequest_Parse W data)" and ?rl = "ag_r_lb (ud_app us) ! nat i"
  let ?rsp = "\<lparr>grs_modid = grq_modid ?req, grs_cmdid = grq_cmdid ?req, grs_host = []\<rparr>"
  obtain q rq where q: "ag_dns_queue (ud_app us) = Some q" by (rule served_queues [OF assms])
  note at = served_at [OF assms]
  obtain ret rsp rl' q' where g: "rl_get_route (ae_cfg env) (ae_now env) (grq_modid ?req) (grq_cmdid ?req) ?rsp ?rl q = Inr (ret, rsp, rl', q')" "rl_inv (ae_cfg env) rl'"
    using rl_get_route_inv [OF at(2)] by blast
  let ?us = "us\<lparr>ud_app := (put_r_lb i rl' (ud_app us))\<lparr>ag_dns_queue := Some q'\<rparr>\<rparr>"
  have sm: "rl_small rl'" "length (grs_host rsp) \<le> 2339" using get_route_small [OF at(3) g(1)] by simp_all
  have s: "served env i ?us" by (rule served_put [OF assms g(2) sm(1)])
  have "length (GetRouteResponse_Serialize W rsp) \<le> 65519" using GetRouteResponse_bound [of rsp] sm(2) by (simp add: GetRouteResponse_size)
  from served_send [OF this s, of "ae_sendto env" ID_API_GetRouteResponse] show ?thesis
    using g(1) at(1) q by (auto simp: get_route_cb_def via_queue_def Let_def)
qed

end

sublocale wire_format \<subseteq> agent_service: udp_service "agent_run W env" "served env i" for env i
proof unfold_locales
  fix us :: agent_server and buf :: bytes and a
  assume "served env i us"
  then show "8 \<le> length (ud_read_buf us)" by (simp add: served_def serving_def MESSAGE_LENGTH_LIMIT_def MESSAGE_HEAD_LEN_def)
next
  fix us :: agent_server and buf :: bytes and a
  assume "served env i us" "length buf = length (ud_read_buf us)"
  then show "served env i (us\<lparr>ud_read_buf := buf, ud_client_addr := a\<rparr>)" by (simp add: served_def serving_def)
next
  fix us :: agent_server and msgid cb body len
  assume s: "served env i us" and r: "mr_router (ud_router us) msgid = Some cb"
  then have a: "mr_args (ud_router us) msgid = Some i" by (auto simp: served_def serving_def)
  show "\<exists>us'. agent_run W env cb body len msgid () (mr_args (ud_router us) msgid) us = Inr us' \<and> served env i us'"
    using report_cb_served [OF s] get_host_cb_served [OF s] get_route_cb_served [OF s] a by (cases cb) (simp_all add: agent_run_def)
qed

context wire_format
begin

lemmas agent_loop = agent_service.do_read_total

end

section \<open>Forwarding\<close>

lemma send_requests_ok:
  assumes "cl_out cl" "int (length (pending cl)) + int (length (concat (map (\<lambda>(body, msgid). frame (msgid, body)) msgs))) \<le> 8388608"
  shows "case send_requests msgs cl of
      Inl e \<Rightarrow> e = Exit_1
    | Inr cl' \<Rightarrow> cl_out cl' \<and> pending cl' = pending cl @ concat (map (\<lambda>(body, msgid). frame (msgid, body)) msgs) \<and>
        cl_kept cl cl' \<and> cl_app cl' = cl_app cl \<and> cl_sent cl' = cl_sent cl"
  using assms
proof (induction msgs arbitrary: cl)
  case Nil
  then show ?case by (simp add: cl_out_def cl_kept_refl)
next
  case (Cons m msgs)
  obtain body msgid where m: "m = (body, msgid)" by (cases m)
  have len: "length (frame (msgid, body)) = 8 + length body" by (simp add: frame_def)
  have sm: "int (length body) < 2 ^ 31" "8 + int (length body) + int (length (pending cl)) \<le> 8388608"
    using Cons.prems(2) m len by simp_all
  note send = client_send_message_ok [OF Cons.prems(1) sm, of msgid]
  show ?case
  proof (cases "client_send_message body (of_nat (length body)) msgid cl")
    case (Inl e)
    then show ?thesis using send m by simp
  next
    case (Inr x)
    obtain ret c1 where x: "x = (ret, c1)" by (cases x)
    have c1: "cl_out c1" "pending c1 = pending cl @ frame (msgid, body)" "cl_sent c1 = cl_sent cl" "cl_kept cl c1" "cl_app c1 = cl_app cl"
      using send Inr x by simp_all
    have "int (length (pending c1)) + int (length (concat (map (\<lambda>(body, msgid). frame (msgid, body)) msgs))) \<le> 8388608"
      using Cons.prems(2) c1(2) m by simp
    from Cons.IH [OF c1(1) this] show ?thesis
      using Inr x m c1 by (auto simp: cl_kept_def split: sum.splits)
  qed
qed

text \<open>Taking the queue out changes neither buffers nor loop.\<close>

lemma client_app_upd [simp]:
  "cl_out (cl\<lparr>cl_app := x\<rparr>) = cl_out cl" "pending (cl\<lparr>cl_app := x\<rparr>) = pending cl" "client_ok (cl\<lparr>cl_app := x\<rparr>) = client_ok cl"
  "unread_bytes (cl\<lparr>cl_app := x\<rparr>) = unread_bytes cl"
  by (simp_all add: cl_out_def client_ok_def pending_def cl_watch_write_def unread_bytes_def)

lemma store_route_act:
  "cli_handlers_ok (dns_handlers W env)
     (\<lambda>cb u (msgid, body) ag. case store_route W env body ag of Inl _ \<Rightarrow> ag | Inr ag' \<Rightarrow> ag')
     (\<lambda>h ag. case reset_tables ag of Inl _ \<Rightarrow> ag | Inr ag' \<Rightarrow> ag') UNIV"
  unfolding cli_handlers_ok_def
  by (auto simp: dns_handlers_def deal_recv_route_def conn_init_def cl_kept_def split: sum.splits)

interpretation dns_app: client_app "dns_handlers W env" "\<lambda>cb u (msgid, body) ag. case store_route W env body ag of Inl _ \<Rightarrow> ag | Inr ag' \<Rightarrow> ag'"
  "\<lambda>h ag. case reset_tables ag of Inl _ \<Rightarrow> ag | Inr ag' \<Rightarrow> ag'" UNIV fd r for W env fd r
  by unfold_locales (rule store_route_act)

section \<open>Properties\<close>

definition demo_env :: agent_env where
  "demo_env = \<lparr>ae_cfg = demo_cfg, ae_time = 6, ae_now = 6, ae_commit_time = 6, ae_ts = (\<lambda>_. 6), ae_sendto = Some 50\<rparr>"

definition demo_agent :: agent where
  "demo_agent = \<lparr>ag_r_lb = [route_lb_new 1, route_lb_new 2, route_lb_new 3], ag_dns_queue = Some demo_queue, ag_report_queue = Some demo_queue\<rparr>"

lemma demo_agent_ready: "agent_ready demo_env demo_agent"
proof -
  have "probe_num (ae_cfg demo_env) < 2 ^ 31" by (simp add: demo_env_def demo_cfg_def)
  then show ?thesis using rl_inv_new by (auto simp: agent_ready_def agent_ok_def demo_agent_def rl_small_def route_lb_new_def)
qed

abbreviation zero_buf :: bytes where
  "zero_buf \<equiv> replicate (nat MESSAGE_LENGTH_LIMIT) 0"

lemma main_server_starts:
  obtains us l where "agent_server_main 3 5 0 zero_buf 0 i ag = Inr (us, l)" "serving i us" "ud_app us = ag" "ud_sent us = []"
proof -
  obtain us l where m: "agent_server_main 3 5 0 zero_buf 0 i ag = Inr (us, l)"
    by (simp add: agent_server_main_def event_loop_create_def udp_server_new_def Let_def)
  from agent_server_main_serving [OF this] that [OF m] show thesis by simp
qed

text \<open>
  C9 [agent_survives_datagrams]. No sequence of datagrams, of any length and contents, makes an agent server fail once both queues exist and while
  no module has more hosts than fit an answer: the receive loop returns, every table keeps its invariant, and the server stays ready.
\<close>

theorem agent_survives_datagrams:
  assumes "wire_ok W" "served env i us"
  shows "case udp_server_do_read (agent_run W env) answers us of Inl e \<Rightarrow> e = Blocked | Inr us' \<Rightarrow> served env i us'"
proof -
  have "wire_format W" by (rule wire_format.intro [OF assms(1)])
  then show ?thesis using assms(2) by (rule wire_format.agent_loop)
qed

theorem agent_survives_datagrams_witness:
  "\<exists>us l. agent_server_main 3 5 0 zero_buf 0 0 demo_agent = Inr (us, l) \<and>
     (case udp_server_do_read (agent_run base128 demo_env) [Dgram (1, 2) [], Dgram (1, 2) (frame (ID_ReportRequest, [255, 255])), Rc_err EAGAIN] us of
        Inl e \<Rightarrow> e = Blocked | Inr us' \<Rightarrow> served demo_env 0 us')"
proof -
  obtain us :: agent_server and l where m: "agent_server_main 3 5 0 zero_buf 0 0 demo_agent = Inr (us, l)" "serving 0 us" "ud_app us = demo_agent"
    by (rule main_server_starts)
  then have "served demo_env 0 us" using demo_agent_ready by (simp add: served_def)
  from agent_survives_datagrams [OF base128_ok this] m(1) show ?thesis by blast
qed

text \<open>
  C36 [early_request_crashes]. The datagram servers are started before the queues are created: a request for a host that arrives in between makes the
  agent follow a null pointer.
\<close>

theorem early_request_crashes:
  assumes "wire_ok W" "agent_server_main epfd sockfd bind_ret raw loop i (snd (init_lb_agent cfg)) = Inr (us, l)"
    and "length raw = nat MESSAGE_LENGTH_LIMIT" "0 \<le> i" "i < 3"
  shows "udp_server_do_read (agent_run W env) [Dgram a (frame (ID_GetHostRequest, GetHostRequest_Serialize W req)), Rc_err EAGAIN] us = Inl Null_Deref"
proof -
  have w: "wire_format W" by (rule wire_format.intro [OF assms(1)])
  note us = agent_server_main_serving [OF assms(2,3)]
  have "i = 0 \<or> i = 1 \<or> i = 2" using assms(4,5) by arith
  then obtain ident where at: "r_lb_at i (ud_app us) = Inr (route_lb_new ident)"
    by (auto simp: us(2) init_lb_agent_def Let_def r_lb_at_def)
  have n: "ag_dns_queue (ud_app us) = None" by (simp add: us(2) init_lb_agent_def Let_def)
  have "8 + length (GetHostRequest_Serialize W req) \<le> nat MESSAGE_LENGTH_LIMIT"
    using wire_format.GetHostRequest_bound [OF w, of req] by (simp add: wire_format.GetHostRequest_size [OF w] MESSAGE_LENGTH_LIMIT_def MESSAGE_HEAD_LEN_def)
  then obtain buf where "udp_server_do_read (agent_run W env) [Dgram a (frame (ID_GetHostRequest, GetHostRequest_Serialize W req)), Rc_err EAGAIN] us =
      get_host_cb W env (GetHostRequest_Serialize W req) i (us\<lparr>ud_read_buf := buf, ud_client_addr := a\<rparr>)"
    using do_read_one [OF us(1), of ID_GetHostRequest Get_Host_Cb "GetHostRequest_Serialize W req" "agent_run W env" a] by (auto simp: agent_run_def)
  then show ?thesis using at n
    by (simp add: get_host_cb_def via_queue_def Let_def rl_get_host_def route_lb_new_def lb_pull_def)
qed

theorem early_request_crashes_witness:
  "\<exists>us l. agent_server_main 3 5 0 zero_buf 0 0 (snd (init_lb_agent Map.empty)) = Inr (us, l) \<and>
     udp_server_do_read (agent_run base128 demo_env)
       [Dgram (1, 2) (frame (ID_GetHostRequest, GetHostRequest_Serialize base128 \<lparr>ghq_seq = 0, ghq_modid = 1, ghq_cmdid = 2\<rparr>)), Rc_err EAGAIN] us = Inl Null_Deref"
proof -
  obtain us :: agent_server and l where m: "agent_server_main 3 5 0 zero_buf 0 0 (snd (init_lb_agent Map.empty)) = Inr (us, l)"
    by (rule main_server_starts)
  from early_request_crashes [OF base128_ok this] m show ?thesis by simp
qed

text \<open>
  When the event of a queue fires, every request in it is sent to the service, once and in order, behind what the client
  already has pending, as a message that the service parses as the same request; the queue is left empty and nothing else of the agent changes.
\<close>

theorem requests_forwarded:
  assumes "wire_ok W" "cl_out cl" "ag_dns_queue (cl_app cl) = Some q" "30 * int (length (tq_queue q)) + int (length (pending cl)) \<le> 8388608"
  shows "\<exists>bodies. (case new_dns_request W cl of
      Inl e \<Rightarrow> e = Exit_1
    | Inr cl' \<Rightarrow> cl_out cl' \<and> pending cl' = pending cl @ concat (map (\<lambda>body. frame (ID_GetRouteRequest, body)) bodies) \<and>
        cl_app cl' = (cl_app cl)\<lparr>ag_dns_queue := Some (q\<lparr>tq_counter := 0, tq_queue := []\<rparr>)\<rparr>) \<and>
    map (GetRouteRequest_Parse W) bodies = map (Pair True) (tq_queue q)"
proof -
  have w: "wire_format W" by (rule wire_format.intro [OF assms(1)])
  let ?bodies = "map (GetRouteRequest_Serialize W) (tq_queue q)"
  let ?msgs = "map (\<lambda>req. (GetRouteRequest_Serialize W req, ID_GetRouteRequest)) (tq_queue q)"
  let ?cl = "cl\<lparr>cl_app := (cl_app cl)\<lparr>ag_dns_queue := Some (q\<lparr>tq_counter := 0, tq_queue := []\<rparr>)\<rparr>\<rparr>"
  have "length (concat (map (\<lambda>(body, msgid). frame (msgid, body)) (map (\<lambda>req. (GetRouteRequest_Serialize W req, ID_GetRouteRequest)) rs))) \<le> 30 * length rs" for rs
  proof (induction rs)
    case (Cons r rs)
    have "length (frame (ID_GetRouteRequest, GetRouteRequest_Serialize W r)) \<le> 30"
      using wire_format.GetRouteRequest_bound [OF w, of r] by (simp add: frame_def wire_format.GetRouteRequest_size [OF w])
    then show ?case using Cons by simp
  qed simp
  from this [of "tq_queue q"] have "int (length (pending ?cl)) + int (length (concat (map (\<lambda>(body, msgid). frame (msgid, body)) ?msgs))) \<le> 8388608"
    using assms(4) by simp
  with send_requests_ok [of ?cl ?msgs] assms(2) have ok: "case send_requests ?msgs ?cl of
      Inl e \<Rightarrow> e = Exit_1
    | Inr cl' \<Rightarrow> cl_out cl' \<and> pending cl' = pending cl @ concat (map (\<lambda>body. frame (ID_GetRouteRequest, body)) ?bodies) \<and> cl_app cl' = cl_app ?cl"
    by (simp add: comp_def split: sum.splits)
  have run: "new_dns_request W cl = send_requests ?msgs ?cl" using assms(3) by (simp add: new_dns_request_def tq_recv_def Let_def)
  have "map (GetRouteRequest_Parse W) ?bodies = map (Pair True) (tq_queue q)"
    using wire_format.GetRouteRequest_parse [OF w] by (simp add: GetRouteRequest_Parse_def)
  then show ?thesis using ok unfolding run by (intro exI [of _ ?bodies]) (simp split: sum.splits)
qed

text \<open>The same for the reports, whose messages have one entry for each host of a module.\<close>

lemma reports_forwarded:
  assumes "cl_out cl" "ag_report_queue (cl_app cl) = Some q"
    and "int (length (pending cl)) + int (length (concat (map (\<lambda>r. frame (ID_ReportStatusRequest, ReportStatusRequest_Serialize W r)) (tq_queue q)))) \<le> 8388608"
  shows "case new_report_request W cl of
      Inl e \<Rightarrow> e = Exit_1
    | Inr cl' \<Rightarrow> cl_out cl' \<and> pending cl' = pending cl @ concat (map (\<lambda>r. frame (ID_ReportStatusRequest, ReportStatusRequest_Serialize W r)) (tq_queue q)) \<and>
        cl_app cl' = (cl_app cl)\<lparr>ag_report_queue := Some (q\<lparr>tq_counter := 0, tq_queue := []\<rparr>)\<rparr>"
  using send_requests_ok [of "cl\<lparr>cl_app := (cl_app cl)\<lparr>ag_report_queue := Some (q\<lparr>tq_counter := 0, tq_queue := []\<rparr>)\<rparr>\<rparr>"
      "map (\<lambda>req. (ReportStatusRequest_Serialize W req, ID_ReportStatusRequest)) (tq_queue q)"] assms
  by (simp add: new_report_request_def tq_recv_def Let_def comp_def split: sum.splits)

definition demo_dns_client :: dns_client where
  "demo_dns_client = \<lparr>cl_pool = boot_pool, cl_loop = event_loop_new, cl_sockfd = 6, cl_obuf = None, cl_ibuf = None,
     cl_server_addr = (0, 0), cl_router = snd (register_msg_router ID_GetRouteResponse Deal_Recv_Route () msg_router_new), cl_conn_start_cb = Some Conn_Init,
     cl_conn_close_cb = None, cl_open = {6}, cl_sent = (\<lambda>_. []), cl_app = demo_agent\<lparr>ag_dns_queue := Some (tq_send \<lparr>grq_modid = 1, grq_cmdid = 2\<rparr> demo_queue)\<rparr>\<rparr>"

lemma demo_dns_client_ok: "cl_out demo_dns_client" "client_ok demo_dns_client" "pending demo_dns_client = []"
  by (simp_all add: cl_out_def client_ok_def pending_def demo_dns_client_def loop_inv_new)

theorem requests_forwarded_witness:
  "\<exists>body. (case new_dns_request base128 demo_dns_client of
      Inl e \<Rightarrow> e = Exit_1
    | Inr cl' \<Rightarrow> pending cl' = frame (ID_GetRouteRequest, body)) \<and> GetRouteRequest_Parse base128 body = (True, \<lparr>grq_modid = 1, grq_cmdid = 2\<rparr>)"
proof -
  let ?q = "tq_send \<lparr>grq_modid = 1, grq_cmdid = 2\<rparr> demo_queue"
  have q: "ag_dns_queue (cl_app demo_dns_client) = Some ?q" "tq_queue ?q = [\<lparr>grq_modid = 1, grq_cmdid = 2\<rparr>]"
    by (simp_all add: demo_dns_client_def demo_queue_def tq_send_def Let_def)
  obtain bodies where b: "case new_dns_request base128 demo_dns_client of
      Inl e \<Rightarrow> e = Exit_1
    | Inr cl' \<Rightarrow> cl_out cl' \<and> pending cl' = pending demo_dns_client @ concat (map (\<lambda>body. frame (ID_GetRouteRequest, body)) bodies) \<and>
        cl_app cl' = (cl_app demo_dns_client)\<lparr>ag_dns_queue := Some (?q\<lparr>tq_counter := 0, tq_queue := []\<rparr>)\<rparr>"
      "map (GetRouteRequest_Parse base128) bodies = map (Pair True) (tq_queue ?q)"
    using requests_forwarded [OF base128_ok demo_dns_client_ok(1) q(1)] q(2) demo_dns_client_ok(3) by auto
  then obtain body where "bodies = [body]" "GetRouteRequest_Parse base128 body = (True, \<lparr>grq_modid = 1, grq_cmdid = 2\<rparr>)"
    using q(2) by (auto simp: map_eq_Cons_conv)
  with b(1) demo_dns_client_ok(3) show ?thesis by (intro exI [of _ body]) (simp split: sum.splits)
qed

end
