(* ===== verification/Route_Sync.thy ===== *)
theory Route_Sync
  imports Dns_Push Agent
begin

text \<open>
  The agent and the route service together, over their TCP connection: the requests in the queue of the agent, the bytes that its client sends, the bytes with which the service
  answers, and the tables of the agent after its client has read them. Both directions are byte streams; the messages are found again by the framing of the receiver.
\<close>

section \<open>Storing a sequence of responses\<close>

fun store_answers :: "wire \<Rightarrow> agent_env \<Rightarrow> (i32 \<times> bytes) list \<Rightarrow> agent \<Rightarrow> agent res" where
  "store_answers W env [] ag = Inr ag"
| "store_answers W env (m # ms) ag =
     (if fst m = ID_GetRouteResponse then bindR (store_route W env (snd m) ag) (store_answers W env ms) else store_answers W env ms ag)"

text \<open>The routing table of the client.\<close>

definition route_client_routes :: "(dns_cb, unit) msg_router" where
  "route_client_routes = snd (register_msg_router ID_GetRouteResponse Deal_Recv_Route () msg_router_new)"

lemma cl_kept_app: "client_ok cl \<Longrightarrow> cl_kept cl (cl\<lparr>cl_app := x\<rparr>)"
  by (simp add: cl_kept_def)

interpretation route_client: client_session "dns_handlers W env" fd route_client_routes "\<lambda>ms cl. store_answers W env ms (cl_app cl) = Inr final" "{}" for W env fd final
proof unfold_locales
  fix cl :: dns_client and msgid body ms and d :: "bytes option"
  assume c: "cl_reading fd route_client_routes cl" "store_answers W env ((msgid, body) # ms) (cl_app cl) = Inr final" "d = Some body \<or> d = None \<and> body = []"
  have ok: "client_ok cl" "cl_router cl = route_client_routes" using c(1) by (simp_all add: cl_reading_def)
  have data: "(case d of None \<Rightarrow> [] | Some bs \<Rightarrow> bs) = body" using c(3) by auto
  show "case client_call (dns_handlers W env) msgid (of_nat (length body)) d cl of
      Inl e \<Rightarrow> e \<in> {} | Inr cl' \<Rightarrow> cl_kept cl cl' \<and> store_answers W env ms (cl_app cl') = Inr final"
  proof (cases "msgid = ID_GetRouteResponse")
    case False
    then have "client_call (dns_handlers W env) msgid (of_nat (length body)) d cl = Inr cl"
      using ok(2) by (simp add: client_call_def router_call_def route_client_routes_def register_msg_router_def msg_router_new_def)
    then show ?thesis using c(2) False cl_kept_refl [OF ok(1)] by simp
  next
    case True
    then obtain ag where ag: "store_route W env body (cl_app cl) = Inr ag" "store_answers W env ms ag = Inr final"
      using c(2) by (auto simp: bindR_eq_Inr)
    have "client_call (dns_handlers W env) msgid (of_nat (length body)) d cl = Inr (cl\<lparr>cl_app := ag\<rparr>)"
      using ok(2) True ag(1) data
      by (simp add: client_call_def router_call_def route_client_routes_def register_msg_router_def msg_router_new_def dns_handlers_def deal_recv_route_def)
    then show ?thesis using ag(2) cl_kept_app [OF ok(1)] by simp
  qed
next
  fix cl :: dns_client and ms q st
  assume "store_answers W env ms (cl_app cl) = Inr final"
  then show "store_answers W env ms (cl_app (cl_put (q, st) cl)) = Inr final" by (simp add: cl_put_def)
qed

section \<open>Requests and answers as bytes\<close>

definition request_msg :: "wire \<Rightarrow> GetRouteRequest \<Rightarrow> i32 \<times> bytes" where
  "request_msg W req = (ID_GetRouteRequest, GetRouteRequest_Serialize W req)"

definition answer_msg :: "wire \<Rightarrow> Route \<Rightarrow> GetRouteRequest \<Rightarrow> i32 \<times> bytes" where
  "answer_msg W rt req = (ID_GetRouteResponse, GetRouteResponse_Serialize W (route_response (grq_modid req) (grq_cmdid req) rt))"

definition req_key :: "GetRouteRequest \<Rightarrow> u64" where
  "req_key req = mk_key (grq_modid req) (grq_cmdid req)"

context wire_format
begin

lemma parsed_request: "snd (GetRouteRequest_Parse W (GetRouteRequest_Serialize W req)) = req"
  using GetRouteRequest_parse [of req] by (simp add: GetRouteRequest_Parse_def)

lemma answer_of_request: "dns_answer W rt (request_msg W req) = frame (answer_msg W rt req)"
  by (simp add: dns_answer_def request_msg_def answer_msg_def parsed_request Let_def)

lemma answers_of_requests: "map (dns_answer W rt) (map (request_msg W) reqs) = map (\<lambda>r. frame (answer_msg W rt r)) reqs"
  by (simp add: answer_of_request comp_def)

lemma request_nonempty: "req \<noteq> GetRouteRequest_default \<Longrightarrow> snd (request_msg W req) \<noteq> []"
proof -
  assume "req \<noteq> GetRouteRequest_default"
  then have "0 < GetRouteRequest_ByteSizeLong W req" by (cases req) (auto simp: GetRouteRequest_ByteSizeLong_def GetRouteRequest_default_def)
  then show ?thesis by (simp add: GetRouteRequest_size request_msg_def)
qed

lemma answer_nonempty: "req \<noteq> GetRouteRequest_default \<Longrightarrow> snd (answer_msg W rt req) \<noteq> []"
proof -
  assume "req \<noteq> GetRouteRequest_default"
  then have "0 < GetRouteResponse_ByteSizeLong W (route_response (grq_modid req) (grq_cmdid req) rt)"
    by (cases req) (auto simp: GetRouteResponse_ByteSizeLong_def GetRouteRequest_default_def route_response_def)
  then show ?thesis by (simp add: GetRouteResponse_size answer_msg_def)
qed

lemma request_small: "int (length (snd (request_msg W req))) \<le> MESSAGE_LENGTH_LIMIT"
  using GetRouteRequest_bound [of req] by (simp add: request_msg_def GetRouteRequest_size MESSAGE_LENGTH_LIMIT_def MESSAGE_HEAD_LEN_def)

lemma requests_length: "length (concat (map (\<lambda>r. frame (request_msg W r)) reqs)) \<le> 30 * length reqs"
proof (induction reqs)
  case (Cons r reqs)
  then show ?case using GetRouteRequest_bound [of r] by (simp add: request_msg_def GetRouteRequest_size)
qed simp

end

text \<open>A client that asks for modules is subscribed to each of them.\<close>

lemma requests_subscribe:
  assumes "wire_format W" "dn_param app p = Some ms" "\<forall>k \<in> set ms. fd \<in> subs (dn_sub app) k"
  shows "\<exists>ms'. dn_param (fold (dns_effect W p fd) (map (request_msg W) reqs) app) p = Some ms' \<and> set ms' = set ms \<union> req_key ` set reqs \<and>
    (\<forall>k \<in> set ms'. fd \<in> subs (dn_sub (fold (dns_effect W p fd) (map (request_msg W) reqs) app)) k)"
  using assms(2,3)
proof (induction reqs arbitrary: app ms)
  case (Cons r reqs)
  let ?app = "dns_effect W p fd (request_msg W r) app"
  have eff: "?app = (if req_key r \<in> set ms then app
      else app\<lparr>dn_sub := subscribe (req_key r) fd (dn_sub app), dn_param := (dn_param app)(p \<mapsto> set_insert (req_key r) ms)\<rparr>)"
    using Cons.prems(1) by (simp add: dns_effect_def request_msg_def wire_format.parsed_request [OF assms(1)] req_key_def Let_def)
  show ?case
  proof (cases "req_key r \<in> set ms")
    case True
    then show ?thesis using Cons.IH [of app ms] Cons.prems eff by auto
  next
    case False
    have "dn_param ?app p = Some (set_insert (req_key r) ms)" "\<forall>k \<in> set (set_insert (req_key r) ms). fd \<in> subs (dn_sub ?app) k"
      using eff False Cons.prems(2) by (auto simp: subs_subscribe set_insert_def)
    from Cons.IH [OF this] show ?thesis by (auto simp: set_insert_def)
  qed
qed simp

text \<open>The client's half: the requests leave the queue as frames, and nothing is read meanwhile.\<close>

lemma new_dns_request_bytes:
  assumes w: "wire_format W" and out: "cl_out cl" "ag_dns_queue (cl_app cl) = Some q" "pending cl = []" "30 * int (length (tq_queue q)) \<le> 8388608"
  shows "case new_dns_request W cl of
      Inl e \<Rightarrow> e = Exit_1
    | Inr cl' \<Rightarrow> pending cl' = concat (map (\<lambda>r. frame (request_msg W r)) (tq_queue q)) \<and> cl_kept cl cl' \<and>
        cl_app cl' = (cl_app cl)\<lparr>ag_dns_queue := Some (q\<lparr>tq_counter := 0, tq_queue := []\<rparr>)\<rparr>"
proof -
  let ?msgs = "map (\<lambda>req. (GetRouteRequest_Serialize W req, ID_GetRouteRequest)) (tq_queue q)"
  let ?cl = "cl\<lparr>cl_app := (cl_app cl)\<lparr>ag_dns_queue := Some (q\<lparr>tq_counter := 0, tq_queue := []\<rparr>)\<rparr>\<rparr>"
  have run: "new_dns_request W cl = send_requests ?msgs ?cl" using out(2) by (simp add: new_dns_request_def tq_recv_def Let_def)
  have eq: "concat (map (\<lambda>(body, msgid). frame (msgid, body)) ?msgs) = concat (map (\<lambda>r. frame (request_msg W r)) (tq_queue q))"
    by (simp add: request_msg_def comp_def)
  have "int (length (pending ?cl)) + int (length (concat (map (\<lambda>(body, msgid). frame (msgid, body)) ?msgs))) \<le> 8388608"
    using wire_format.requests_length [OF w, of "tq_queue q"] out(3,4) unfolding eq by simp
  from send_requests_ok [OF _ this] out(1,3) show ?thesis unfolding run eq
    by (auto simp: cl_kept_def split: sum.splits)
qed

text \<open>The service's half: the bytes of the requests are answered by the bytes of the responses.\<close>

lemma service_answers:
  assumes w: "wire_format W" and srv: "out_inv p fd l stream ss" "ss_router ss = dns_routes" "ss_conn_close_cb ss = Some Clear_Subscribe"
      "dn_param (ss_app ss) p = Some ms" "\<forall>k \<in> set ms. fd \<in> subs (dn_sub (ss_app ss)) k" "slot ss (p, In) = None"
    and reqs: "reqs \<noteq> []" "\<forall>r \<in> set reqs. r \<noteq> GetRouteRequest_default" "30 * int (length reqs) \<le> 8388608"
    and fits: "length (slot_bytes ss (p, Out)) + length (concat (map (\<lambda>r. frame (answer_msg W (dn_route (ss_app ss)) r)) reqs)) \<le> 8388608"
  shows "case conn_do_read (service_handlers W) (Some (int (length (concat (map (\<lambda>r. frame (request_msg W r)) reqs)))))
        [Rd (concat (map (\<lambda>r. frame (request_msg W r)) reqs))] p ss of
      Inl f \<Rightarrow> f = Exit_1
    | Inr ss' \<Rightarrow> out_inv p fd l (stream @ concat (map (\<lambda>r. frame (answer_msg W (dn_route (ss_app ss)) r)) reqs)) ss' \<and>
        (\<forall>r \<in> set reqs. fd \<in> subs (dn_sub (ss_app ss')) (req_key r))"
proof -
  let ?B = "concat (map (\<lambda>r. frame (request_msg W r)) reqs)" and ?ms = "map (request_msg W) reqs" and ?rt = "dn_route (ss_app ss)"
  have pf: "parse_frames ?B = (?ms, [], Incomplete)" using wire_format.request_small [OF w] by (intro frames_parsed) simp
  have e: "slot_bytes ss (p, In) = []" "slot_head ss (p, In) = 0" using srv(6) by (simp_all add: slot_bytes_def slot_head_def)
  have t: "\<not> empty_tail ?ms []" using reqs(2) wire_format.request_nonempty [OF w] by (intro no_empty_tail) blast
  have len: "0 < int (length ?B)" "int (length ?B) + int (length (slot_bytes ss (p, In))) \<le> 8388608" "sys_read (nat (int (length ?B))) [Rd ?B] = Inr (Rd ?B)"
      "length ?B = nat (int (length ?B))" "parse_frames (slot_bytes ss (p, In) @ ?B) = (?ms, [], Incomplete)"
    using concat_frames_nonempty [OF reqs(1), of "request_msg W"] wire_format.requests_length [OF w, of reqs] reqs(3) by (simp_all add: e(1) pf)
  have ans: "concat (map (dns_answer W ?rt) ?ms) = concat (map (\<lambda>r. frame (answer_msg W ?rt r)) reqs)"
    by (simp only: wire_format.answers_of_requests [OF w])
  have prm: "dn_param (ss_app ss) p \<noteq> None" using srv(4) by simp
  note run = dns_do_read [OF srv(1-3) prm e(2) len, of W, unfolded ans, OF fits]
  obtain ms' where "set ms' = set ms \<union> req_key ` set reqs" "\<forall>k \<in> set ms'. fd \<in> subs (dn_sub (fold (dns_effect W p fd) ?ms (ss_app ss))) k"
    using requests_subscribe [OF w srv(4,5), of reqs] by blast
  then show ?thesis using run t by (cases "conn_do_read (service_handlers W) (Some (int (length ?B))) [Rd ?B] p ss") auto
qed

text \<open>The client's second half: the bytes of the responses are stored.\<close>

lemma client_stores:
  assumes w: "wire_format W" and cl: "cl_reading fd route_client_routes cl" "rb_head (cl_ibuf cl) (cl_pool cl) = 0" "unread_bytes cl = []"
    and reqs: "reqs \<noteq> []" "\<forall>r \<in> set reqs. r \<noteq> GetRouteRequest_default" "\<forall>r \<in> set reqs. int (length (snd (answer_msg W rt r))) \<le> MESSAGE_LENGTH_LIMIT"
      "length (concat (map (\<lambda>r. frame (answer_msg W rt r)) reqs)) \<le> 8388608"
    and store: "store_answers W env (map (answer_msg W rt) reqs) (cl_app cl) = Inr final"
  shows "case client_do_read (dns_handlers W env) (Some (int (length (concat (map (\<lambda>r. frame (answer_msg W rt r)) reqs)))))
        [Rd (concat (map (\<lambda>r. frame (answer_msg W rt r)) reqs))] cl of
      Inl f \<Rightarrow> f = Exit_1
    | Inr cl' \<Rightarrow> cl_app cl' = final"
proof -
  let ?A = "concat (map (\<lambda>r. frame (answer_msg W rt r)) reqs)" and ?ms = "map (answer_msg W rt) reqs"
  have pf: "parse_frames ?A = (?ms, [], Incomplete)" using reqs(3) by (rule frames_parsed)
  have t: "\<not> empty_tail ?ms []" using reqs(2) wire_format.answer_nonempty [OF w] by (intro no_empty_tail) blast
  have len: "0 < int (length ?A)" "int (length ?A) + int (length (unread_bytes cl)) \<le> 8388608" "sys_read (nat (int (length ?A))) [Rd ?A] = Inr (Rd ?A)"
      "length ?A = nat (int (length ?A))" "parse_frames (unread_bytes cl @ ?A) = (?ms, [], Incomplete)"
    using concat_frames_nonempty [OF reqs(1), of "answer_msg W rt"] reqs(4) by (simp_all add: cl(3) pf)
  from route_client.client_read_session [OF cl(1) store cl(2) len] t show ?thesis by (auto split: sum.splits)
qed

section \<open>Properties\<close>

text \<open>
  C7 [route_sync_over_tcp]. One round trip of the agent's client with the route service, over the byte streams of their connection: when the queue event fires, all queued requests
  leave as one run of bytes; the service that reads these bytes appends to its output stream the responses with the hosts of its table, in the same order, and has the client
  subscribed to all the requested modules; and when the client reads the bytes of the responses, its tables are exactly those that result from storing the responses one
  after the other. The steps fail only if a buffer pool is exhausted.
\<close>

theorem route_sync_over_tcp:
  assumes "wire_ok W"
    and cl: "cl_out cl" "cl_router cl = route_client_routes" "rb_head (cl_ibuf cl) (cl_pool cl) = 0" "unread_bytes cl = []" "pending cl = []"
      "ag_dns_queue (cl_app cl) = Some q"
    and reqs: "tq_queue q \<noteq> []" "\<forall>r \<in> set (tq_queue q). r \<noteq> GetRouteRequest_default" "30 * int (length (tq_queue q)) \<le> 8388608"
    and srv: "out_inv p fd l stream ss" "ss_router ss = dns_routes" "ss_conn_close_cb ss = Some Clear_Subscribe"
      "dn_param (ss_app ss) p = Some ms" "\<forall>k \<in> set ms. fd \<in> subs (dn_sub (ss_app ss)) k" "slot ss (p, In) = None" "dn_route (ss_app ss) = rt"
    and fits: "length (slot_bytes ss (p, Out)) + length (concat (map (\<lambda>r. frame (answer_msg W rt r)) (tq_queue q))) \<le> 8388608"
      "\<forall>r \<in> set (tq_queue q). int (length (snd (answer_msg W rt r))) \<le> MESSAGE_LENGTH_LIMIT"
    and store: "store_answers W env (map (answer_msg W rt) (tq_queue q)) ((cl_app cl)\<lparr>ag_dns_queue := Some (q\<lparr>tq_counter := 0, tq_queue := []\<rparr>)\<rparr>) = Inr final"
  shows "case new_dns_request W cl of
      Inl e \<Rightarrow> e = Exit_1
    | Inr cl1 \<Rightarrow>
        (case conn_do_read (service_handlers W) (Some (int (length (pending cl1)))) [Rd (pending cl1)] p ss of
           Inl e \<Rightarrow> e = Exit_1
         | Inr ss1 \<Rightarrow> \<exists>answer. out_inv p fd l (stream @ answer) ss1 \<and> (\<forall>r \<in> set (tq_queue q). fd \<in> subs (dn_sub (ss_app ss1)) (req_key r)) \<and>
             (case client_do_read (dns_handlers W env) (Some (int (length answer))) [Rd answer] cl1 of
                Inl e \<Rightarrow> e = Exit_1
              | Inr cl2 \<Rightarrow> cl_app cl2 = final))"
proof -
  have w: "wire_format W" by (rule wire_format.intro [OF assms(1)])
  let ?B = "concat (map (\<lambda>r. frame (request_msg W r)) (tq_queue q))" and ?A = "concat (map (\<lambda>r. frame (answer_msg W rt r)) (tq_queue q))"
  note n = new_dns_request_bytes [OF w cl(1,6,5) reqs(3)]
  show ?thesis
  proof (cases "new_dns_request W cl")
    case (Inl e)
    then show ?thesis using n by simp
  next
    case (Inr cl1)
    then have c1: "pending cl1 = ?B" "cl_kept cl cl1" "cl_app cl1 = (cl_app cl)\<lparr>ag_dns_queue := Some (q\<lparr>tq_counter := 0, tq_queue := []\<rparr>)\<rparr>" using n by simp_all
    have "rb_head (cl_ibuf cl1) (cl_pool cl1) = rb_head (cl_ibuf cl) (cl_pool cl)" using c1(2) unfolding cl_kept_def by blast
    moreover have "cl_reading (cl_sockfd cl) route_client_routes cl1" "unread_bytes cl1 = []" using c1(2) cl(2,4) by (auto simp: cl_kept_def cl_reading_def)
    ultimately have r1: "cl_reading (cl_sockfd cl) route_client_routes cl1" "rb_head (cl_ibuf cl1) (cl_pool cl1) = 0" "unread_bytes cl1 = []" using cl(3) by simp_all
    have "length ?A \<le> 8388608" using fits(1) by simp
    from client_stores [OF w r1 reqs(1,2) fits(2) this] store c1(3)
    have c2: "case client_do_read (dns_handlers W env) (Some (int (length ?A))) [Rd ?A] cl1 of Inl e \<Rightarrow> e = Exit_1 | Inr cl2 \<Rightarrow> cl_app cl2 = final" by simp
    note s = service_answers [OF w srv(1-6) reqs, unfolded srv(7), OF fits(1)]
    show ?thesis unfolding Inr sum.case c1(1) using s c2 by (cases "conn_do_read (service_handlers W) (Some (int (length ?B))) [Rd ?B] p ss") auto
  qed
qed

text \<open>An agent whose table 0 has asked for module 1/2 learns its host from the service.\<close>

theorem route_sync_over_tcp_witness:
  "\<exists>rsp1 rl1 rl2 ag cl ss. rl_get_host demo_cfg 5 1 2 demo_rsp (route_lb_new 1) demo_queue = Inr (RET_NOEXIST, rsp1, rl1, tq_send \<lparr>grq_modid = 1, grq_cmdid = 2\<rparr> demo_queue) \<and>
     ag = demo_agent\<lparr>ag_r_lb := [rl1, route_lb_new 2, route_lb_new 3], ag_dns_queue := Some (tq_send \<lparr>grq_modid = 1, grq_cmdid = 2\<rparr> demo_queue)\<rparr> \<and>
     cl = demo_dns_client\<lparr>cl_app := ag\<rparr> \<and> tcp_conn_new (service_handlers base128) 7 1 dns_boot = Inr (0, ss) \<and>
     update_host demo_cfg 6 (\<lambda>_. 6) 1 2 (route_response 1 2 (dn_route (ss_app dns_boot))) rl1 = Inr (0, rl2) \<and>
     (case new_dns_request base128 cl of
        Inl e \<Rightarrow> e = Exit_1
      | Inr cl1 \<Rightarrow>
          (case conn_do_read (service_handlers base128) (Some (int (length (pending cl1)))) [Rd (pending cl1)] 0 ss of
             Inl e \<Rightarrow> e = Exit_1
           | Inr ss1 \<Rightarrow> \<exists>answer. 7 \<in> subs (dn_sub (ss_app ss1)) (mk_key 1 2) \<and>
               (case client_do_read (dns_handlers base128 demo_env) (Some (int (length answer))) [Rd answer] cl1 of
                  Inl e \<Rightarrow> e = Exit_1
                | Inr cl2 \<Rightarrow> ag_r_lb (cl_app cl2) = [rl2, route_lb_new 2, route_lb_new 3])))"
proof -
  let ?req = "\<lparr>grq_modid = 1, grq_cmdid = 2\<rparr>" and ?rt = "dn_route (ss_app dns_boot)"
  let ?q = "tq_send ?req demo_queue" and ?grsp = "route_response 1 2 ?rt"
  have inv: "rl_inv demo_cfg (route_lb_new 1)" by (rule rl_inv_new) (simp add: demo_cfg_def)
  have hosts: "grs_host ?grsp = \<lparr>pb_ip = key_hi (mk_key 100 80), pb_port = key_lo (mk_key 100 80)\<rparr> # []"
    by (simp add: route_response_def get_hosts_def dns_boot_def)
  obtain rsp1 rl1 rl2 where l: "rl_get_host demo_cfg 5 1 2 demo_rsp (route_lb_new 1) demo_queue = Inr (RET_NOEXIST, rsp1, rl1, ?q)"
      "update_host demo_cfg 6 (\<lambda>_. 6) 1 2 ?grsp rl1 = Inr (0, rl2)"
    using first_route_offered [OF inv _ hosts, of 1 2 5 demo_rsp demo_queue 6 "\<lambda>_. 6" 7 demo_rsp demo_queue] by (auto simp: route_lb_new_def)
  let ?ag = "demo_agent\<lparr>ag_r_lb := [rl1, route_lb_new 2, route_lb_new 3], ag_dns_queue := Some ?q\<rparr>"
  let ?cl = "demo_dns_client\<lparr>cl_app := ?ag\<rparr>"
  have q: "tq_queue ?q = [?req]" by (simp add: demo_queue_def tq_send_def Let_def)
  have cl: "cl_out ?cl" "cl_router ?cl = route_client_routes" "rb_head (cl_ibuf ?cl) (cl_pool ?cl) = 0" "unread_bytes ?cl = []" "pending ?cl = []"
      "ag_dns_queue (cl_app ?cl) = Some ?q"
    using demo_dns_client_ok by (simp_all add: route_client_routes_def) (simp_all add: demo_dns_client_def unread_bytes_def)
  obtain ss where ss: "tcp_conn_new (service_handlers base128) 7 1 dns_boot = Inr (0, ss)" "out_inv 0 7 1 [] ss" "slot ss (0, In) = None"
      "ss_app ss = (ss_app dns_boot)\<lparr>dn_param := [0 \<mapsto> []]\<rparr>" "ss_router ss = dns_routes" "ss_conn_close_cb ss = Some Clear_Subscribe"
    by (rule dns_boot_conn)
  have app: "dn_param (ss_app ss) 0 = Some []" "dn_route (ss_app ss) = ?rt" by (simp_all add: ss(4))
  have o: "slot_bytes ss (0, Out) = []" using ss(2) by (simp add: out_inv_def)
  have keys: "key_hi (mk_key 100 80) = 100" "key_lo (mk_key 100 80) = 80" by code_simp+
  have rsp: "GetRouteResponse_Serialize base128 \<lparr>grs_modid = 1, grs_cmdid = 2, grs_host = [\<lparr>pb_ip = 100, pb_port = 80\<rparr>]\<rparr> = [8, 1, 16, 2, 26, 4, 8, 100, 16, 80]"
    by code_simp
  have ans: "answer_msg base128 ?rt ?req = (ID_GetRouteResponse, [8, 1, 16, 2, 26, 4, 8, 100, 16, 80])"
    using hosts by (simp add: answer_msg_def route_response_def keys rsp)
  have reqs: "tq_queue ?q \<noteq> []" "\<forall>r \<in> set (tq_queue ?q). r \<noteq> GetRouteRequest_default" "30 * int (length (tq_queue ?q)) \<le> 8388608"
    by (simp_all add: q GetRouteRequest_default_def)
  have fits: "length (slot_bytes ss (0, Out)) + length (concat (map (\<lambda>r. frame (answer_msg base128 ?rt r)) (tq_queue ?q))) \<le> 8388608"
      "\<forall>r \<in> set (tq_queue ?q). int (length (snd (answer_msg base128 ?rt r))) \<le> MESSAGE_LENGTH_LIMIT"
    by (simp_all add: o q ans MESSAGE_LENGTH_LIMIT_def MESSAGE_HEAD_LEN_def)
  let ?ag0 = "?ag\<lparr>ag_dns_queue := Some (?q\<lparr>tq_counter := 0, tq_queue := []\<rparr>)\<rparr>"
  have good: "good_module 1 2" by (simp add: good_module_def)
  have parse: "snd (GetRouteResponse_Parse base128 (snd (answer_msg base128 ?rt ?req))) = ?grsp" "grs_modid ?grsp = 1" "grs_cmdid ?grsp = 2"
    using b128.GetRouteResponse_parse [of ?grsp] by (simp_all add: answer_msg_def GetRouteResponse_Parse_def route_response_def)
  have "server_index 1 2 = Inr 0" using server_index_good [OF good] by (simp add: server_of_def)
  then have "store_route base128 demo_env (snd (answer_msg base128 ?rt ?req)) ?ag0 = Inr (put_r_lb 0 rl2 ?ag0)"
    using l(2) by (simp add: store_route_def parse r_lb_at_def demo_env_def Let_def)
  then have store: "store_answers base128 demo_env (map (answer_msg base128 ?rt) (tq_queue ?q)) ((cl_app ?cl)\<lparr>ag_dns_queue := Some (?q\<lparr>tq_counter := 0, tq_queue := []\<rparr>)\<rparr>) =
      Inr (put_r_lb 0 rl2 ?ag0)"
    by (simp add: q) (simp add: answer_msg_def)
  have sub: "\<forall>k \<in> set []. 7 \<in> subs (dn_sub (ss_app ss)) k" by simp
  note run = route_sync_over_tcp [OF base128_ok cl reqs ss(2,5,6) app(1) sub ss(3) app(2) fits store]
  have "put_r_lb 0 rl2 ?ag0 = ?ag0\<lparr>ag_r_lb := [rl2, route_lb_new 2, route_lb_new 3]\<rparr>" by (simp add: put_r_lb_def)
  then have "ag_r_lb (put_r_lb 0 rl2 ?ag0) = [rl2, route_lb_new 2, route_lb_new 3]" by simp
  then have fin: "ag_r_lb final = [rl2, route_lb_new 2, route_lb_new 3]" if "final = put_r_lb 0 rl2 ?ag0" for final using that by simp
  have "case new_dns_request base128 ?cl of
      Inl e \<Rightarrow> e = Exit_1
    | Inr cl1 \<Rightarrow>
        (case conn_do_read (service_handlers base128) (Some (int (length (pending cl1)))) [Rd (pending cl1)] 0 ss of
           Inl e \<Rightarrow> e = Exit_1
         | Inr ss1 \<Rightarrow> \<exists>answer. 7 \<in> subs (dn_sub (ss_app ss1)) (mk_key 1 2) \<and>
             (case client_do_read (dns_handlers base128 demo_env) (Some (int (length answer))) [Rd answer] cl1 of
                Inl e \<Rightarrow> e = Exit_1
              | Inr cl2 \<Rightarrow> ag_r_lb (cl_app cl2) = [rl2, route_lb_new 2, route_lb_new 3]))"
  proof (cases "new_dns_request base128 ?cl")
    case (Inr cl1)
    note run1 = run [unfolded Inr sum.case]
    show ?thesis unfolding Inr sum.case
    proof (cases "conn_do_read (service_handlers base128) (Some (int (length (pending cl1)))) [Rd (pending cl1)] 0 ss")
      case (Inr ss1)
      obtain answer where a: "\<forall>r \<in> set (tq_queue ?q). 7 \<in> subs (dn_sub (ss_app ss1)) (req_key r)"
          "case client_do_read (dns_handlers base128 demo_env) (Some (int (length answer))) [Rd answer] cl1 of
             Inl e \<Rightarrow> e = Exit_1 | Inr cl2 \<Rightarrow> cl_app cl2 = put_r_lb 0 rl2 ?ag0"
        using run1 [unfolded Inr sum.case] by blast
      have "7 \<in> subs (dn_sub (ss_app ss1)) (mk_key 1 2)" using a(1) by (simp add: q req_key_def)
      moreover have "case client_do_read (dns_handlers base128 demo_env) (Some (int (length answer))) [Rd answer] cl1 of
          Inl e \<Rightarrow> e = Exit_1 | Inr cl2 \<Rightarrow> ag_r_lb (cl_app cl2) = [rl2, route_lb_new 2, route_lb_new 3]"
        using a(2) fin by (cases "client_do_read (dns_handlers base128 demo_env) (Some (int (length answer))) [Rd answer] cl1") simp_all
      ultimately show "case conn_do_read (service_handlers base128) (Some (int (length (pending cl1)))) [Rd (pending cl1)] 0 ss of
           Inl e \<Rightarrow> e = Exit_1
         | Inr ss1 \<Rightarrow> \<exists>answer. 7 \<in> subs (dn_sub (ss_app ss1)) (mk_key 1 2) \<and>
             (case client_do_read (dns_handlers base128 demo_env) (Some (int (length answer))) [Rd answer] cl1 of
                Inl e \<Rightarrow> e = Exit_1
              | Inr cl2 \<Rightarrow> ag_r_lb (cl_app cl2) = [rl2, route_lb_new 2, route_lb_new 3])"
        unfolding Inr sum.case by blast
    qed (use run1 in simp)
  qed (use run in simp)
  with l ss(1) show ?thesis by blast
qed

end
