(* ===== verification/Report_Sync.thy ===== *)
theory Report_Sync
  imports Reporter_Service Agent
begin

text \<open>
  The agent and the report service together, over their TCP connection: the reports in the queue of the agent, the bytes that its client sends, the queues of the
  store threads after the service has read them, and the statements the threads execute.
\<close>

section \<open>Reports as bytes\<close>

definition report_msg :: "wire \<Rightarrow> ReportStatusRequest \<Rightarrow> i32 \<times> bytes" where
  "report_msg W req = (ID_ReportStatusRequest, ReportStatusRequest_Serialize W req)"

lemma deal_all_run: "deal_all W (map (report_msg W) reps) rp = bindR (report_run W my (map Arrive reps) rp) (\<lambda>(trace, rp). Inr rp)"
proof (induction reps arbitrary: rp)
  case (Cons r reps)
  have "deal_all W (map (report_msg W) reps) = (\<lambda>rp. bindR (report_run W my (map Arrive reps) rp) (\<lambda>(trace, rp). Inr rp))" using Cons by (intro ext)
  moreover have "report_msg W r = (ID_ReportStatusRequest, ReportStatusRequest_Serialize W r)" by (simp add: report_msg_def)
  ultimately show ?case by (simp add: bindR_assoc)
qed simp

lemma arrivals_only: "report_run W my (map Arrive reps) rp = Inr (trace, rp') \<Longrightarrow> trace = []"
  by (induction reps arbitrary: rp) (auto simp: bindR_eq_Inr)

lemma arrivals_map: "arrivals (map Arrive reps) = reps"
  by (induction reps) simp_all

text \<open>The threads' queues after a sequence of reports.\<close>

lemma deal_all_ok:
  assumes "wire_ok W" "0 < n" "length (rp_queues rp) = n" "rp_thread_cnt rp = int n" "rp_index rp = int (k mod n)"
  obtains final where "deal_all W (map (report_msg W) reps) rp = Inr final" "rp_db final = rp_db rp" "length (rp_queues final) = n"
    "\<And>i. i < n \<Longrightarrow> tq_queue (rp_queues final ! i) = tq_queue (rp_queues rp ! i) @ share n i k reps"
proof -
  let ?my = "undefined :: 'a mysql"
  have "\<forall>i. Drain i \<in> set (map Arrive reps) \<longrightarrow> i < n" by auto
  from report_run_ok [OF assms(1,2) this assms(3-5), of ?my] obtain trace rp' where r: "report_run W ?my (map Arrive reps) rp = Inr (trace, rp')"
      "length (rp_queues rp') = n" "rp_db rp' = fold (store ?my) (map snd trace) (rp_db rp)"
      "\<forall>i < n. of_thread i trace @ tq_queue (rp_queues rp' ! i) = tq_queue (rp_queues rp ! i) @ share n i k (arrivals (map Arrive reps))"
    by blast
  have "trace = []" using arrivals_only [OF r(1)] .
  then show thesis using that [of rp'] r deal_all_run [of W reps rp ?my] by (simp add: arrivals_map)
qed

context wire_format
begin

lemma report_nonempty: "req \<noteq> ReportStatusRequest_default \<Longrightarrow> snd (report_msg W req) \<noteq> []"
proof -
  assume "req \<noteq> ReportStatusRequest_default"
  then have "0 < ReportStatusRequest_ByteSizeLong W req" by (cases req) (auto simp: ReportStatusRequest_ByteSizeLong_def ReportStatusRequest_default_def)
  then show ?thesis by (simp add: ReportStatusRequest_size report_msg_def)
qed

lemma report_bound: "length (ReportStatusRequest_Serialize W req) \<le> 39 + 42 * length (rsr_results req)"
proof -
  have "length rs + sum_list (map (\<lambda>s. w_LengthDelimitedSize W (HostCallResult_ByteSizeLong W s)) rs) \<le> 42 * length rs" for rs
  proof (induction rs)
    case (Cons s rs)
    have "w_LengthDelimitedSize W (HostCallResult_ByteSizeLong W s) \<le> HostCallResult_ByteSizeLong W s + 5"
      using message_law(3) [of 1 "HostCallResult_Serialize W s"] HostCallResult_small [of s] by (simp add: HostCallResult_size)
    then show ?case using Cons HostCallResult_bound [of s] by simp
  qed simp
  from this [of "rsr_results req"] show ?thesis
    unfolding ReportStatusRequest_size [symmetric] ReportStatusRequest_ByteSizeLong_def
    using scalar_bound(1) [of "rsr_modid req"] scalar_bound(1) [of "rsr_cmdid req"] scalar_bound(1) [of "rsr_caller req"] scalar_bound(2) [of "rsr_ts req"] by linarith
qed

lemma report_msg_small: "length (rsr_results req) \<le> 1559 \<Longrightarrow> int (length (snd (report_msg W req))) \<le> MESSAGE_LENGTH_LIMIT"
  using report_bound [of req] by (simp add: report_msg_def MESSAGE_LENGTH_LIMIT_def MESSAGE_HEAD_LEN_def)

end

text \<open>The service's half: the bytes of the reports fill the queues of the store threads.\<close>

lemma service_deals:
  assumes w: "wire_ok W" and srv: "reading p fd l report_routes ss" "ss_conn_close_cb ss = None" "slot ss (p, In) = None"
    and rp: "0 < n" "length (rp_queues (ss_app ss)) = n" "rp_thread_cnt (ss_app ss) = int n" "rp_index (ss_app ss) = int (k mod n)"
    and reps: "reps \<noteq> []" "\<forall>r \<in> set reps. r \<noteq> ReportStatusRequest_default \<and> length (rsr_results r) \<le> 1559"
      "length (concat (map (\<lambda>r. frame (report_msg W r)) reps)) \<le> 8388608"
  shows "case conn_do_read (report_handlers W) (Some (int (length (concat (map (\<lambda>r. frame (report_msg W r)) reps)))))
        [Rd (concat (map (\<lambda>r. frame (report_msg W r)) reps))] p ss of
      Inl f \<Rightarrow> f = Exit_1
    | Inr ss' \<Rightarrow> rp_db (ss_app ss') = rp_db (ss_app ss) \<and> length (rp_queues (ss_app ss')) = n \<and>
        (\<forall>i < n. tq_queue (rp_queues (ss_app ss') ! i) = tq_queue (rp_queues (ss_app ss) ! i) @ share n i k reps)"
proof -
  have wf: "wire_format W" by (rule wire_format.intro [OF w])
  let ?B = "concat (map (\<lambda>r. frame (report_msg W r)) reps)" and ?ms = "map (report_msg W) reps"
  obtain final where fin: "deal_all W ?ms (ss_app ss) = Inr final" "rp_db final = rp_db (ss_app ss)" "length (rp_queues final) = n"
      "\<And>i. i < n \<Longrightarrow> tq_queue (rp_queues final ! i) = tq_queue (rp_queues (ss_app ss) ! i) @ share n i k reps"
    by (rule deal_all_ok [OF w rp]) blast
  have pf: "parse_frames ?B = (?ms, [], Incomplete)" using reps(2) wire_format.report_msg_small [OF wf] by (intro frames_parsed) blast
  have e: "slot_bytes ss (p, In) = []" "slot_head ss (p, In) = 0" using srv(3) by (simp_all add: slot_bytes_def slot_head_def)
  have t: "\<not> empty_tail ?ms []" using reps(2) wire_format.report_nonempty [OF wf] by (intro no_empty_tail) blast
  have len: "0 < int (length ?B)" "int (length ?B) + int (length (slot_bytes ss (p, In))) \<le> 8388608" "sys_read (nat (int (length ?B))) [Rd ?B] = Inr (Rd ?B)"
      "length ?B = nat (int (length ?B))" "parse_frames (slot_bytes ss (p, In) @ ?B) = (?ms, [], Incomplete)"
    using concat_frames_nonempty [OF reps(1), of "report_msg W"] reps(3) by (simp_all add: e(1) pf)
  have J: "deal_all W ?ms (ss_app ss) = Inr final \<and> ss_conn_close_cb ss = None" using fin(1) srv(2) by simp
  from report_conns.do_read_session [OF srv(1) J e(2) len] t fin(2-4) show ?thesis
    by (cases "conn_do_read (report_handlers W) (Some (int (length ?B))) [Rd ?B] p ss") auto
qed

section \<open>Properties\<close>

text \<open>
  C8 [report_sync_over_tcp]. The way of the reports from the agent to the database: when the event of the report queue fires, all queued reports leave as one run of bytes; the
  report service that reads these bytes deals them out to its \<open>n\<close> store threads in rotation, from where it stopped, behind what their queues had; and when thread \<open>i\<close> is
  woken, it takes exactly its share, in order, and changes the database by exactly these reports. The steps fail only if a buffer pool is exhausted. A
  report of up to 1559 results fits a message; \<open>commit\<close> sends one result for each host of a module.
\<close>

theorem report_sync_over_tcp:
  assumes "wire_ok W"
    and cl: "cl_out cl" "pending cl = []" "ag_report_queue (cl_app cl) = Some q"
    and reps: "tq_queue q \<noteq> []" "\<forall>r \<in> set (tq_queue q). r \<noteq> ReportStatusRequest_default \<and> length (rsr_results r) \<le> 1559"
      "length (concat (map (\<lambda>r. frame (report_msg W r)) (tq_queue q))) \<le> 8388608"
    and srv: "reading p fd l report_routes ss" "ss_conn_close_cb ss = None" "slot ss (p, In) = None" "ss_app ss = rp"
    and rp: "0 < n" "length (rp_queues rp) = n" "rp_thread_cnt rp = int n" "rp_index rp = int (k mod n)"
  shows "case new_report_request W cl of
      Inl e \<Rightarrow> e = Exit_1
    | Inr cl1 \<Rightarrow> ag_report_queue (cl_app cl1) = Some (q\<lparr>tq_counter := 0, tq_queue := []\<rparr>) \<and>
        (case conn_do_read (report_handlers W) (Some (int (length (pending cl1)))) [Rd (pending cl1)] p ss of
           Inl e \<Rightarrow> e = Exit_1
         | Inr ss1 \<Rightarrow> \<forall>i < n. \<exists>rp'. thread_report my i (ss_app ss1) = (tq_queue (rp_queues rp ! i) @ share n i k (tq_queue q), rp') \<and>
             rp_db rp' = fold (store my) (tq_queue (rp_queues rp ! i) @ share n i k (tq_queue q)) (rp_db rp) \<and> tq_queue (rp_queues rp' ! i) = [])"
proof -
  let ?B = "concat (map (\<lambda>r. frame (report_msg W r)) (tq_queue q))"
  have n: "case new_report_request W cl of
      Inl e \<Rightarrow> e = Exit_1
    | Inr cl' \<Rightarrow> pending cl' = ?B \<and> cl_app cl' = (cl_app cl)\<lparr>ag_report_queue := Some (q\<lparr>tq_counter := 0, tq_queue := []\<rparr>)\<rparr>"
    using reports_forwarded [OF cl(1,3), of W] cl(2) reps(3) by (simp add: report_msg_def split: sum.splits)
  note s = service_deals [OF assms(1) srv(1-3), unfolded srv(4), OF rp reps]
  show ?thesis
  proof (cases "new_report_request W cl")
    case (Inr cl1)
    then have c1: "pending cl1 = ?B" "ag_report_queue (cl_app cl1) = Some (q\<lparr>tq_counter := 0, tq_queue := []\<rparr>)" using n by simp_all
    show ?thesis unfolding Inr sum.case c1(1) using s c1(2)
      by (cases "conn_do_read (report_handlers W) (Some (int (length ?B))) [Rd ?B] p ss")
        (auto simp: thread_report_def tq_recv_def store_all_fold Let_def)
  qed (use n in simp)
qed

text \<open>Two reports on their way to a service with two store threads, whose next report goes to the second thread.\<close>

definition demo_report_client :: report_client where
  "demo_report_client = \<lparr>cl_pool = boot_pool, cl_loop = event_loop_new, cl_sockfd = 6, cl_obuf = None, cl_ibuf = None,
     cl_server_addr = (0, 0), cl_router = msg_router_new, cl_conn_start_cb = None, cl_conn_close_cb = None, cl_open = {6}, cl_sent = (\<lambda>_. []),
     cl_app = demo_agent\<lparr>ag_report_queue := Some (tq_send (demo_report\<lparr>rsr_modid := 7\<rparr>) (tq_send demo_report demo_queue))\<rparr>\<rparr>"

definition report_boot :: "(report_msg_cb, unit, unit, string list reporter) server_state" where
  "report_boot = \<lparr>ss_pool = boot_pool, ss_loops = [1 \<mapsto> event_loop_new], ss_heap = Map.empty, ss_next = 0, ss_conns = replicate 10 None, ss_curr_conns = 0,
     ss_max_conns = 5, ss_router = report_routes, ss_conn_start_cb = None, ss_conn_close_cb = None, ss_open = {7}, ss_sent = (\<lambda>_. []),
     ss_app = \<lparr>rp_queues = [demo_queue, demo_queue], rp_loops = Map.empty, rp_index = 1, rp_thread_cnt = 2, rp_db = []\<rparr>\<rparr>"

lemma report_boot_conn:
  obtains ss where "tcp_conn_new (report_handlers W) 7 1 report_boot = Inr (0, ss)" "reading 0 7 1 report_routes ss" "ss_conn_close_cb ss = None"
    "slot ss (0, In) = None" "ss_app ss = ss_app report_boot"
proof -
  have n: "slot report_boot k = None" for k by (simp add: slot_def report_boot_def)
  have b: "bufs_ok report_boot" unfolding bufs_ok_def n by (simp add: report_boot_def)
  have d: "ss_loops report_boot 1 = Some event_loop_new" "(0 :: int) \<le> 7" "7 < int (length (ss_conns report_boot))" "ss_conn_start_cb report_boot = None"
      "ss_next report_boot = 0" "ss_router report_boot = report_routes" "ss_conn_close_cb report_boot = None"
    by (simp_all add: report_boot_def)
  have h: "run_hook (report_handlers W) (ss_conn_start_cb report_boot) (ss_next report_boot) (with_conn 7 1 report_boot) =
      Inr ((with_conn 7 1 report_boot)\<lparr>ss_app := ss_app report_boot\<rparr>)"
    by (simp add: run_hook_def with_conn_def report_boot_def)
  note c = tcp_conn_new_hook [OF b d(1) loop_inv_new d(2,3) h]
  show thesis
    by (rule that [OF c(1) [unfolded d(5)]]) (use c(2,3) d in \<open>auto simp: reading_def out_inv_def with_conn_def\<close>)
qed

theorem report_sync_over_tcp_witness:
  "\<exists>ss. tcp_conn_new (report_handlers base128) 7 1 report_boot = Inr (0, ss) \<and>
     (case new_report_request base128 demo_report_client of
        Inl e \<Rightarrow> e = Exit_1
      | Inr cl1 \<Rightarrow>
          (case conn_do_read (report_handlers base128) (Some (int (length (pending cl1)))) [Rd (pending cl1)] 0 ss of
             Inl e \<Rightarrow> e = Exit_1
           | Inr ss1 \<Rightarrow> fst (thread_report log_db 1 (ss_app ss1)) = [demo_report] \<and>
               rp_db (snd (thread_report log_db 0 (ss_app ss1))) = store log_db (demo_report\<lparr>rsr_modid := 7\<rparr>) []))"
proof -
  obtain ss where ss: "tcp_conn_new (report_handlers base128) 7 1 report_boot = Inr (0, ss)" "reading 0 7 1 report_routes ss" "ss_conn_close_cb ss = None"
      "slot ss (0, In) = None" "ss_app ss = ss_app report_boot"
    by (rule report_boot_conn)
  let ?r = "demo_report\<lparr>rsr_modid := 7\<rparr>" and ?rp = "ss_app report_boot"
  let ?q = "tq_send ?r (tq_send demo_report demo_queue)"
  have q: "tq_queue ?q = [demo_report, ?r]" by (simp add: demo_queue_def tq_send_def Let_def)
  have cl: "cl_out demo_report_client" "pending demo_report_client = []" "ag_report_queue (cl_app demo_report_client) = Some ?q"
    by (simp_all add: cl_out_def client_ok_def pending_def demo_report_client_def loop_inv_new)
  have len: "length (rsr_results demo_report) = 1" by (simp_all add: demo_report_def)
  have "demo_report \<noteq> ReportStatusRequest_default" "?r \<noteq> ReportStatusRequest_default" by (simp_all add: demo_report_def ReportStatusRequest_default_def)
  then have reps: "tq_queue ?q \<noteq> []" "\<forall>r \<in> set (tq_queue ?q). r \<noteq> ReportStatusRequest_default \<and> length (rsr_results r) \<le> 1559"
    using len unfolding q by simp_all
  have "length (ReportStatusRequest_Serialize base128 r) \<le> 81" if "length (rsr_results r) = 1" for r using b128.report_bound [of r] that by simp
  from this [of demo_report] this [of ?r] have small: "length (concat (map (\<lambda>r. frame (report_msg base128 r)) (tq_queue ?q))) \<le> 8388608"
    using len by (simp add: q report_msg_def)
  have rp: "(0 :: nat) < 2" "length (rp_queues ?rp) = 2" "rp_thread_cnt ?rp = int 2" "rp_index ?rp = int (1 mod 2)" by (simp_all add: report_boot_def)
  have d: "tq_queue (rp_queues ?rp ! 0) = []" "tq_queue (rp_queues ?rp ! 1) = []" "rp_db ?rp = []" by (simp_all add: report_boot_def demo_queue_def)
  have sh: "share 2 0 1 [demo_report, ?r] = [?r]" "share 2 1 1 [demo_report, ?r] = [demo_report]" by simp_all
  note run = report_sync_over_tcp [OF base128_ok cl reps small ss(2-5) rp, of log_db, unfolded q]
  have "case new_report_request base128 demo_report_client of
      Inl e \<Rightarrow> e = Exit_1
    | Inr cl1 \<Rightarrow>
        (case conn_do_read (report_handlers base128) (Some (int (length (pending cl1)))) [Rd (pending cl1)] 0 ss of
           Inl e \<Rightarrow> e = Exit_1
         | Inr ss1 \<Rightarrow> fst (thread_report log_db 1 (ss_app ss1)) = [demo_report] \<and>
             rp_db (snd (thread_report log_db 0 (ss_app ss1))) = store log_db ?r [])"
  proof (cases "new_report_request base128 demo_report_client")
    case (Inr cl1)
    note run1 = run [unfolded Inr sum.case]
    show ?thesis
    proof (cases "conn_do_read (report_handlers base128) (Some (int (length (pending cl1)))) [Rd (pending cl1)] 0 ss")
      case (Inr ss1)
      have t: "\<forall>i < 2. \<exists>rp'. thread_report log_db i (ss_app ss1) = (tq_queue (rp_queues ?rp ! i) @ share 2 i 1 [demo_report, ?r], rp') \<and>
          rp_db rp' = fold (store log_db) (tq_queue (rp_queues ?rp ! i) @ share 2 i 1 [demo_report, ?r]) (rp_db ?rp)"
        using run1 [unfolded Inr sum.case] by blast
      have "fst (thread_report log_db 1 (ss_app ss1)) = [demo_report]" using t [rule_format, of 1] d sh by auto
      moreover have "rp_db (snd (thread_report log_db 0 (ss_app ss1))) = store log_db ?r []" using t [rule_format, of 0] d sh by auto
      ultimately show ?thesis using \<open>new_report_request base128 demo_report_client = Inr cl1\<close> Inr by simp
    qed (use run1 Inr in simp)
  qed (use run in simp)
  with ss(1) show ?thesis by blast
qed

end
