(* ===== verification/Api_Programs.thy ===== *)
theory Api_Programs
  imports Lars_Api C_Strings "HOL-Library.Char_ord" "HOL-Library.List_Lexorder"
begin

text \<open>
  The programs under \<^verbatim>\<open>api/cpp/example\<close>, which call the client library the way an application does: \<^verbatim>\<open>simulator.cpp\<close> asks for hosts and reports simulated
  results, \<^verbatim>\<open>qps.cpp\<close> measures the rate of answers, \<^verbatim>\<open>example.cpp\<close>, \<^verbatim>\<open>get_host.cpp\<close> and \<^verbatim>\<open>get_route.cpp\<close> make single calls. A program takes its arguments and what the
  kernel answers to its calls, and yields its exit code, the lines it prints and the client object with the datagrams it has sent. \<open>std::map\<close> with string keys is
  a list of pairs in the order of the keys; \<open>string\<close> has the lexicographic order of the character codes, as \<open>std::string\<close>.
\<close>

section \<open>Model\<close>

text \<open>What the environment contributes to one round of a program: the outcome of \<open>sendto\<close>, the received datagrams, the raw receive buffer, \<open>rand()\<close>, and the outcome of the report's \<open>sendto\<close>.\<close>

record query =
  q_sent :: bool
  q_answers :: "recv_ans list"
  q_buf :: bytes
  q_rand :: nat
  q_report :: bool

definition fmt :: "i32 \<Rightarrow> string" where
  "fmt i = show_int (sint i)"

text \<open>\<open>result.find(ip)\<close> and \<open>result[ip] = v\<close>.\<close>

fun map_put :: "'k::linorder \<Rightarrow> 'v \<Rightarrow> ('k \<times> 'v) list \<Rightarrow> ('k \<times> 'v) list" where
  "map_put k v [] = [(k, v)]"
| "map_put k v ((k', v') # m) =
     (if k < k' then (k, v) # (k', v') # m else if k = k' then (k, v) # m else (k', v') # map_put k v m)"

record simulator =
  sm_api :: lars_client
  sm_ip :: string
  sm_port :: i32
  sm_result :: "(string \<times> i32 \<times> i32) list"
  sm_lines :: "string list"

definition sm_print :: "string \<Rightarrow> simulator \<Rightarrow> simulator" where
  "sm_print s sm = sm\<lparr>sm_lines := sm_lines sm @ [s]\<rparr>"

text \<open>The branch of the loop for a host: \<open>succ_err\<close> is the entry \<open>result[ip]\<close>.\<close>

definition simulate_call :: "wire \<Rightarrow> i32 \<Rightarrow> i32 \<Rightarrow> i32 \<Rightarrow> query \<Rightarrow> simulator \<Rightarrow> simulator res" where
  "simulate_call W modid cmdid err_rate q sm =
     (let ip = sm_ip sm;
          result = (if map_of (sm_result sm) ip = None then map_put ip (0, 0) (sm_result sm) else sm_result sm);
          succ_err = (case map_of result ip of None \<Rightarrow> (0, 0) | Some v \<Rightarrow> v);
          sm = sm_print (''host'' @ ip @ '':'' @ ''host called'') (sm\<lparr>sm_result := result\<rparr>) in
      if int (q_rand q mod 10) < sint err_rate then
        bindR (lc_report W (q_report q) modid cmdid ip (sm_port sm) 1 (sm_api sm)) (\<lambda>api.
        Inr (sm_print ''ERROR!!!'' (sm\<lparr>sm_result := map_put ip (fst succ_err, snd succ_err + 1) result, sm_api := api\<rparr>)))
      else
        bindR (lc_report W (q_report q) modid cmdid ip (sm_port sm) 0 (sm_api sm)) (\<lambda>api.
        Inr (sm_print ''SUCC.'' (sm\<lparr>sm_result := map_put ip (fst succ_err + 1, snd succ_err) result, sm_api := api\<rparr>))))"

definition simulate :: "wire \<Rightarrow> i32 \<Rightarrow> i32 \<Rightarrow> i32 \<Rightarrow> query \<Rightarrow> simulator \<Rightarrow> simulator res" where
  "simulate W modid cmdid err_rate q sm =
     bindR (lc_get_host W (q_sent q) (q_answers q) (q_buf q) modid cmdid (sm_ip sm, sm_port sm) (sm_api sm)) (\<lambda>(ret, (ip, port), api).
     (let sm = sm\<lparr>sm_api := api, sm_ip := ip, sm_port := port\<rparr> in
      if ret = 0 then simulate_call W modid cmdid err_rate q sm
      else if ret = 3 then Inr (sm_print (fmt modid @ '', '' @ fmt cmdid @ '' not exist'') sm)
      else if ret = 1 then Inr (sm_print (fmt modid @ '', '' @ fmt cmdid @ '' all hosts overload'') sm)
      else if ret = 2 then Inr (sm_print ''lars system error!!!'' sm)
      else Inr sm))"

fun simulate_all :: "wire \<Rightarrow> i32 \<Rightarrow> i32 \<Rightarrow> i32 \<Rightarrow> nat \<Rightarrow> query list \<Rightarrow> simulator \<Rightarrow> simulator res" where
  "simulate_all W modid cmdid err_rate 0 qs sm = Inr sm"
| "simulate_all W modid cmdid err_rate (Suc n) [] sm = Inl Blocked"
| "simulate_all W modid cmdid err_rate (Suc n) (q # qs) sm = bindR (simulate W modid cmdid err_rate q sm) (simulate_all W modid cmdid err_rate n qs)"

text \<open>The line that all programs print when the registration fails.\<close>

definition reg_line :: "i32 \<Rightarrow> i32 \<Rightarrow> i32 \<Rightarrow> string list" where
  "reg_line modid cmdid ret =
     (if ret \<noteq> 0 then [''modid '' @ fmt modid @ '' cmdid '' @ fmt cmdid @ '' not exist, register error ret = '' @ fmt ret] else [])"

definition tally_line :: "string \<times> i32 \<times> i32 \<Rightarrow> string" where
  "tally_line r = ''ip '' @ fst r @ '': '' @ ''succ '' @ fmt (fst (snd r)) @ '', '' @ ''error '' @ fmt (snd (snd r))"

type_synonym program = "(int \<times> string list \<times> lars_client option) res"

definition simulator_main ::
  "wire \<Rightarrow> string list \<Rightarrow> int \<times> int \<times> int \<Rightarrow> int \<times> int \<times> int \<Rightarrow> (bool \<times> recv_ans) list \<Rightarrow> bytes \<Rightarrow> query list \<Rightarrow> program" where
  "simulator_main W argv socks conns tries buf queries =
     (if length argv < 3 then Inr (1, [''usage : ./simulator [modid] [cmdid] [errRate(0-10)] [query cnt(0-999999)]''], None)
      else
        (let modid = atoi (argv ! 1); cmdid = atoi (argv ! 2);
             err_rate = (if 3 < length argv then atoi (argv ! 3) else 2);
             query_cnt = (if 4 < length argv then atoi (argv ! 4) else 100) in
         bindR (lars_client_new socks conns) (\<lambda>api.
         bindR (reg_init W tries buf modid cmdid api) (\<lambda>(ret, api).
         bindR (simulate_all W modid cmdid err_rate (nat (sint query_cnt)) queries
             \<lparr>sm_api = api, sm_ip = [], sm_port = 0, sm_result = [], sm_lines = [''err_rate = '' @ fmt err_rate] @ reg_line modid cmdid ret\<rparr>) (\<lambda>sm.
         Inr (0, sm_lines sm @ map tally_line (sm_result sm), Some (sm_api sm)))))))"

text \<open>The programs that make one call of each kind.\<close>

definition route_lines :: "i32 \<times> route_set \<Rightarrow> string list" where
  "route_lines r = (if fst r = 0 then map (\<lambda>(ip, port). ''ip '' @ ip @ '', port = '' @ fmt port) (snd r) else [])"

definition get_host_main ::
  "wire \<Rightarrow> string list \<Rightarrow> int \<times> int \<times> int \<Rightarrow> int \<times> int \<times> int \<Rightarrow> (bool \<times> recv_ans) list \<Rightarrow> bytes \<Rightarrow> query \<Rightarrow> program" where
  "get_host_main W argv socks conns tries buf q =
     (if length argv \<noteq> 3 then Inr (1, [''usage : ./get_host [modid] [cmdid]''], None)
      else
        bindR (lars_client_new socks conns) (\<lambda>api.
        (let modid = atoi (argv ! 1); cmdid = atoi (argv ! 2) in
         bindR (reg_init W tries buf modid cmdid api) (\<lambda>(ret, api).
         (let out = reg_line modid cmdid ret in
          bindR (lc_get_host W (q_sent q) (q_answers q) (q_buf q) modid cmdid ([], 0) api) (\<lambda>(ret, (ip, port), api).
          Inr (0, out @ (if ret = 0 then [''ip = '' @ ip @ '', port = '' @ fmt port] else if ret = 3 then [''not exsit!''] else []), Some api)))))))"

definition get_route_main ::
  "wire \<Rightarrow> string list \<Rightarrow> int \<times> int \<times> int \<Rightarrow> int \<times> int \<times> int \<Rightarrow> (bool \<times> recv_ans) list \<Rightarrow> bytes \<Rightarrow> bool \<times> recv_ans \<times> bytes \<Rightarrow> program" where
  "get_route_main W argv socks conns tries buf r =
     (if length argv \<noteq> 3 then Inr (1, [''usage : ./get_route [modid] [cmdid]''], None)
      else
        bindR (lars_client_new socks conns) (\<lambda>api.
        (let modid = atoi (argv ! 1); cmdid = atoi (argv ! 2) in
         bindR (reg_init W tries buf modid cmdid api) (\<lambda>(ret, api).
         (let out = reg_line modid cmdid ret in
          bindR (lc_get_route W (fst r) (fst (snd r)) (snd (snd r)) modid cmdid [] api) (\<lambda>(ret, route, api).
          Inr (0, out @ route_lines (ret, route), Some api)))))))"

definition example_main ::
  "wire \<Rightarrow> string list \<Rightarrow> int \<times> int \<times> int \<Rightarrow> int \<times> int \<times> int \<Rightarrow> (bool \<times> recv_ans) list \<Rightarrow> bytes \<Rightarrow> query \<Rightarrow> bool \<times> recv_ans \<times> bytes \<Rightarrow> program" where
  "example_main W argv socks conns tries buf q r =
     (if length argv \<noteq> 3 then Inr (1, [''usage : ./example [modid] [cmdid]''], None)
      else
        bindR (lars_client_new socks conns) (\<lambda>api.
        (let modid = atoi (argv ! 1); cmdid = atoi (argv ! 2) in
         bindR (reg_init W tries buf modid cmdid api) (\<lambda>(ret, api).
         (let out = reg_line modid cmdid ret in
          bindR (lc_get_host W (q_sent q) (q_answers q) (q_buf q) modid cmdid ([], 0) api) (\<lambda>(ret, (ip, port), api).
          bindR (if ret = 0 then lc_report W (q_report q) modid cmdid ip port 1 api else Inr api) (\<lambda>api.
          (let out = out @ (if ret = 0 then [''host is '' @ ip @ '':'' @ fmt port] else if ret = 3 then [''not exsit!''] else []) in
           bindR (lc_get_route W (fst r) (fst (snd r)) (snd (snd r)) modid cmdid [] api) (\<lambda>(ret, route, api).
           Inr (0, out @ route_lines (ret, route), Some api))))))))))"

text \<open>\<^verbatim>\<open>qps.cpp\<close>: one thread, which asks for a host again and again; a round also has the current time. The loop has no end, \<open>qps_rounds\<close> is the state after some rounds. The variable \<open>port\<close>, which no program initialises, starts as 0.\<close>

record qps_thread =
  qt_api :: lars_client
  qt_ip :: string
  qt_port :: i32
  qt_qps :: int
  qt_last_time :: int
  qt_total_qps :: int
  qt_total_time :: int
  qt_lines :: "string list"

definition qps_answer :: "wire \<Rightarrow> i32 \<Rightarrow> i32 \<Rightarrow> query \<Rightarrow> i32 \<Rightarrow> qps_thread \<Rightarrow> qps_thread res" where
  "qps_answer W modid cmdid q ret s =
     (if ret = 0 \<or> ret = 1 \<or> ret = 3 then
        (let s = s\<lparr>qt_qps := qt_qps s + 1\<rparr> in
         if ret = 0 then bindR (lc_report W (q_report q) modid cmdid (qt_ip s) (qt_port s) 0 (qt_api s)) (\<lambda>api. Inr (s\<lparr>qt_api := api\<rparr>))
         else if ret = 1 then bindR (lc_report W (q_report q) modid cmdid (qt_ip s) (qt_port s) 1 (qt_api s)) (\<lambda>api. Inr (s\<lparr>qt_api := api\<rparr>))
         else Inr s)
      else Inr (s\<lparr>qt_lines := qt_lines s @ [''['' @ fmt modid @ '', '' @ fmt cmdid @ ''] get error ret = '' @ fmt ret]\<rparr>))"

definition qps_statistics :: "i32 \<Rightarrow> int \<Rightarrow> qps_thread \<Rightarrow> qps_thread" where
  "qps_statistics t_id current_time s =
     (if 1 \<le> current_time - qt_last_time s then
        (let total_time = qt_total_time s + 1; total = qt_total_qps s + qt_qps s in
         s\<lparr>qt_total_time := total_time, qt_total_qps := total, qt_last_time := current_time, qt_qps := 0,
           qt_lines := qt_lines s @ [''thread '' @ fmt t_id @ '' ---> qps = '' @ show_int (qt_qps s) @ '', average = '' @ show_int (total div total_time)]\<rparr>)
      else s)"

definition qps_round :: "wire \<Rightarrow> i32 \<times> i32 \<times> i32 \<Rightarrow> query \<times> int \<Rightarrow> qps_thread \<Rightarrow> (i32 \<times> qps_thread) res" where
  "qps_round W thread_id r s =
     (case (thread_id, r) of ((t_id, modid, cmdid), (q, current_time)) \<Rightarrow>
      bindR (lc_get_host W (q_sent q) (q_answers q) (q_buf q) modid cmdid (qt_ip s, qt_port s) (qt_api s)) (\<lambda>(ret, (ip, port), api).
      bindR (qps_answer W modid cmdid q ret (s\<lparr>qt_api := api, qt_ip := ip, qt_port := port\<rparr>)) (\<lambda>s.
      Inr (ret, qps_statistics t_id current_time s))))"

fun qps_rounds :: "wire \<Rightarrow> i32 \<times> i32 \<times> i32 \<Rightarrow> (query \<times> int) list \<Rightarrow> qps_thread \<Rightarrow> (i32 list \<times> qps_thread) res" where
  "qps_rounds W thread_id [] s = Inr ([], s)"
| "qps_rounds W thread_id (r # rs) s =
     bindR (qps_round W thread_id r s) (\<lambda>(ret, s). bindR (qps_rounds W thread_id rs s) (\<lambda>(rets, s). Inr (ret # rets, s)))"

definition test_qps ::
  "wire \<Rightarrow> i32 \<times> i32 \<times> i32 \<Rightarrow> int \<times> int \<times> int \<Rightarrow> int \<times> int \<times> int \<Rightarrow> int \<Rightarrow> (bool \<times> recv_ans) list \<Rightarrow> bytes \<Rightarrow> (query \<times> int) list \<Rightarrow> (i32 list \<times> qps_thread) res" where
  "test_qps W thread_id socks conns now tries buf rounds =
     (case thread_id of (t_id, modid, cmdid) \<Rightarrow>
      bindR (lars_client_new socks conns) (\<lambda>api.
      bindR (reg_init W tries buf modid cmdid api) (\<lambda>(ret, api).
      qps_rounds W thread_id rounds
        \<lparr>qt_api = api, qt_ip = [], qt_port = 0, qt_qps = 0, qt_last_time = now, qt_total_qps = 0, qt_total_time = 0, qt_lines = reg_line modid cmdid ret\<rparr>)))"

text \<open>\<open>main\<close> of \<^verbatim>\<open>qps.cpp\<close>, up to the start of the threads: their arguments. The length of an array must not be negative.\<close>

definition qps_main :: "string list \<Rightarrow> (int \<times> string list \<times> (i32 \<times> i32 \<times> i32) list) res" where
  "qps_main argv =
     (if length argv \<noteq> 2 then Inr (1, [''usage : ./qps [thread_num]''], [])
      else
        (let cnt = sint (atoi (argv ! 1)) in
         bindR (ensure (0 \<le> cnt) Out_Of_Bounds) (\<lambda>_. Inr (0, [], map (\<lambda>i. (of_nat i, of_nat i + 1, 1)) [0..<nat cnt]))))"

section \<open>Ordered maps\<close>

lemma map_of_put: "map_of (map_put k v m) = (map_of m)(k \<mapsto> v)"
  by (induction k v m rule: map_put.induct) auto

lemma map_put_keys: "fst ` set (map_put k v m) = insert k (fst ` set m)"
  by (induction k v m rule: map_put.induct) auto

lemma map_put_sorted: "sorted_wrt (<) (map fst m) \<Longrightarrow> sorted_wrt (<) (map fst (map_put k v m))"
proof (induction k v m rule: map_put.induct)
  case (2 k v k' v' m)
  have "\<forall>x \<in> set (map fst (map_put k v m)). k' < x" if "k' < k"
    using 2(2) that map_put_keys [of k v m] by auto
  then show ?case using 2 by (auto simp: not_less_iff_gr_or_eq)
qed simp

section \<open>The simulator and the answers it gets\<close>

text \<open>
  An answer to a query: the return code, the host, and the random number of the round. \<open>sim_query\<close> is the query whose answer has arrived, \<open>sim_lines\<close> what
  the round prints, \<open>sim_sends\<close> the datagrams it sends, and \<open>sim_calls\<close> are the simulated calls, with the address and whether the call fails.
\<close>

type_synonym sim_answer = "i32 \<times> HostInfo \<times> nat"

abbreviation answer_ip :: "sim_answer \<Rightarrow> string" where
  "answer_ip x \<equiv> inet_ntoa (pb_ip (fst (snd x)))"

abbreviation call_fails :: "i32 \<Rightarrow> sim_answer \<Rightarrow> bool" where
  "call_fails err x \<equiv> int (snd (snd x) mod 10) < sint err"

fun sim_queries :: "wire \<Rightarrow> sockaddr \<Rightarrow> bytes \<Rightarrow> i32 \<Rightarrow> i32 \<Rightarrow> u32 \<Rightarrow> sim_answer list \<Rightarrow> query list" where
  "sim_queries W a buf m c seq [] = []"
| "sim_queries W a buf m c seq (x # xs) =
     \<lparr>q_sent = True, q_answers = [Dgram a (frame (ID_GetHostResponse, GetHostResponse_Serialize W
         \<lparr>ghs_seq = seq, ghs_modid = m, ghs_cmdid = c, ghs_retcode = fst x, ghs_host = Some (fst (snd x))\<rparr>))],
       q_buf = buf, q_rand = snd (snd x), q_report = True\<rparr> # sim_queries W a buf m c (seq + 1) xs"

definition sim_lines :: "i32 \<Rightarrow> i32 \<Rightarrow> i32 \<Rightarrow> sim_answer \<Rightarrow> string list" where
  "sim_lines m c err x =
     (if fst x = 0 then [''host'' @ answer_ip x @ '':host called'', if call_fails err x then ''ERROR!!!'' else ''SUCC.'']
      else if fst x = 3 then [fmt m @ '', '' @ fmt c @ '' not exist'']
      else if fst x = 1 then [fmt m @ '', '' @ fmt c @ '' all hosts overload'']
      else if fst x = 2 then [''lars system error!!!''] else [])"

fun sim_sends :: "wire \<Rightarrow> i32 \<Rightarrow> i32 \<Rightarrow> i32 \<Rightarrow> u32 \<Rightarrow> sim_answer list \<Rightarrow> bytes list" where
  "sim_sends W m c err seq [] = []"
| "sim_sends W m c err seq (x # xs) =
     frame (ID_GetHostRequest, GetHostRequest_Serialize W \<lparr>ghq_seq = seq, ghq_modid = m, ghq_cmdid = c\<rparr>) #
     (if fst x = 0 then [frame (ID_ReportRequest, ReportRequest_Serialize W
        \<lparr>rpq_modid = m, rpq_cmdid = c, rpq_host = Some (fst (snd x)), rpq_retcode = of_bool (call_fails err x)\<rparr>)] else []) @
     sim_sends W m c err (seq + 1) xs"

definition sim_calls :: "i32 \<Rightarrow> sim_answer list \<Rightarrow> (string \<times> bool) list" where
  "sim_calls err xs = map (\<lambda>x. (answer_ip x, call_fails err x)) (filter (\<lambda>x. fst x = 0) xs)"

definition tally :: "string \<times> bool \<Rightarrow> (string \<times> i32 \<times> i32) list \<Rightarrow> (string \<times> i32 \<times> i32) list" where
  "tally call result =
     (case map_of result (fst call) of
        None \<Rightarrow> map_put (fst call) (of_bool (\<not> snd call), of_bool (snd call)) (map_put (fst call) (0, 0) result)
      | Some (s, e) \<Rightarrow> map_put (fst call) (s + of_bool (\<not> snd call), e + of_bool (snd call)) result)"

definition count_calls :: "string \<Rightarrow> bool \<Rightarrow> (string \<times> bool) list \<Rightarrow> i32" where
  "count_calls ip failed calls = of_nat (length (filter (\<lambda>call. call = (ip, failed)) calls))"

lemma tally_sorted: "sorted_wrt (<) (map fst r) \<Longrightarrow> sorted_wrt (<) (map fst (tally call r))"
  by (auto simp: tally_def intro!: map_put_sorted split: option.splits)

lemma tallies_sorted: "sorted_wrt (<) (map fst r) \<Longrightarrow> sorted_wrt (<) (map fst (fold tally calls r))"
  by (induction calls arbitrary: r) (auto simp: tally_sorted)

lemma count_calls_snoc: "count_calls ip b (calls @ [call]) = count_calls ip b calls + of_bool (call = (ip, b))"
  by (simp add: count_calls_def)

text \<open>The table of the simulator counts the calls.\<close>

lemma tallies_count:
  "map_of (fold tally calls []) ip = (if ip \<in> fst ` set calls then Some (count_calls ip False calls, count_calls ip True calls) else None)"
proof (induction calls rule: rev_induct)
  case (snoc call calls)
  let ?r = "fold tally calls []"
  have none: "count_calls ip b calls = 0" if "ip \<notin> fst ` set calls" for b
  proof -
    have "filter (\<lambda>call. call = (ip, b)) calls = []" using that by (auto simp: filter_empty_conv image_iff)
    then show ?thesis unfolding count_calls_def by simp
  qed
  show ?case
  proof (cases "ip = fst call")
    case True
    then have "call = (ip, snd call)" by simp
    then obtain b where c: "call = (ip, b)" by blast
    show ?thesis using snoc.IH none by (cases "ip \<in> fst ` set calls"; cases b) (auto simp: c tally_def map_of_put count_calls_snoc)
  next
    case False
    then have "map_of (tally call ?r) ip = map_of ?r ip" by (auto simp: tally_def map_of_put split: option.splits)
    moreover have "count_calls ip b (calls @ [call]) = count_calls ip b calls" for b using False by (cases call) (simp add: count_calls_snoc)
    ultimately show ?thesis using snoc.IH False by simp
  qed
qed simp

context wire_format
begin

text \<open>Registration sends nothing but requests for the route, and keeps the sequence number.\<close>

lemma get_route_sends:
  assumes "api_ok lc" "good_module m c" "lc_get_route W True answer buf m c route lc = Inr (ret, route', lc')"
  shows "lc' = lc\<lparr>lc_sent := lc_sent lc @ [(lc_sockfd lc ! server_of m c, frame (ID_API_GetRouteRequest, GetRouteRequest_Serialize W \<lparr>grq_modid = m, grq_cmdid = c\<rparr>))]\<rparr>"
proof -
  let ?req = "\<lparr>grq_modid = m, grq_cmdid = c\<rparr>"
  have q: "length (GetRouteRequest_Serialize W ?req) \<le> 4088" using GetRouteRequest_bound [of ?req] by (simp add: GetRouteRequest_size)
  show ?thesis
    using assms(3) api_send_ok [OF assms(1,2) q, of True ID_API_GetRouteRequest]
    by (auto simp: lc_get_route_def Let_def GetRouteRequest_size bindR_eq_Inr split: recv_ans.splits prod.splits if_splits)
qed

lemma reg_tries_sends:
  assumes "api_ok lc" "good_module m c" "\<forall>t \<in> set tries. fst t" "reg_tries W tries buf retry m c [] lc = Inr (route, lc')"
  shows "\<exists>n. lc' = lc\<lparr>lc_sent := lc_sent lc @
    replicate n (lc_sockfd lc ! server_of m c, frame (ID_API_GetRouteRequest, GetRouteRequest_Serialize W \<lparr>grq_modid = m, grq_cmdid = c\<rparr>))\<rparr>"
  using assms(1,3,4)
proof (induction tries arbitrary: retry lc)
  case Nil
  then have "lc' = lc" by (subst (asm) reg_tries.simps) (auto split: if_splits)
  then show ?case by (intro exI [of _ 0]) simp
next
  case (Cons t tries)
  let ?e = "(lc_sockfd lc ! server_of m c, frame (ID_API_GetRouteRequest, GetRouteRequest_Serialize W \<lparr>grq_modid = m, grq_cmdid = c\<rparr>))"
  show ?case
  proof (cases "retry < 3")
    case False
    then have "lc' = lc" using Cons.prems(3) by (subst (asm) reg_tries.simps) simp
    then show ?thesis by (intro exI [of _ 0]) simp
  next
    case True
    obtain answer where t: "t = (True, answer)" using Cons.prems(2) by (cases t) auto
    obtain ret route1 lc1 where g: "lc_get_route W True answer buf m c [] lc = Inr (ret, route1, lc1)"
        and r: "if route1 = [] then reg_tries W tries buf (Suc retry) m c [] lc1 = Inr (route, lc') else lc' = lc1"
      using Cons.prems(3) True t by (subst (asm) reg_tries.simps) (auto simp: bindR_eq_Inr split: if_splits)
    note lc1 = get_route_sends [OF Cons.prems(1) assms(2) g]
    show ?thesis
    proof (cases "route1 = []")
      case False
      then have "lc' = lc1" using r by simp
      then show ?thesis using lc1 by (intro exI [of _ 1]) simp
    next
      case True
      then have "api_ok lc1" "\<forall>t \<in> set tries. fst t" "reg_tries W tries buf (Suc retry) m c [] lc1 = Inr (route, lc')"
        using r lc1 Cons.prems by (auto simp: api_ok_def)
      from Cons.IH [OF this] obtain n where "lc' = lc1\<lparr>lc_sent := lc_sent lc1 @ replicate n ?e\<rparr>" unfolding lc1 by auto
      then show ?thesis using lc1 by (intro exI [of _ "Suc n"]) simp
    qed
  qed
qed

lemma simulate_answered:
  assumes "api_ok (sm_api sm)" "good_module m c" "length buf = READ_BUF"
  shows "\<exists>sm'. simulate W m c err (hd (sim_queries W a buf m c (lc_seqid (sm_api sm)) [x])) sm = Inr sm' \<and> api_ok (sm_api sm') \<and>
    lc_sockfd (sm_api sm') = lc_sockfd (sm_api sm) \<and> lc_seqid (sm_api sm') = lc_seqid (sm_api sm) + 1 \<and>
    sm_lines sm' = sm_lines sm @ sim_lines m c err x \<and> sm_result sm' = fold tally (sim_calls err [x]) (sm_result sm) \<and>
    lc_sent (sm_api sm') = lc_sent (sm_api sm) @ map (Pair (lc_sockfd (sm_api sm) ! server_of m c)) (sim_sends W m c err (lc_seqid (sm_api sm)) [x])"
proof -
  let ?api = "sm_api sm"
  let ?rsp = "\<lparr>ghs_seq = lc_seqid ?api, ghs_modid = m, ghs_cmdid = c, ghs_retcode = fst x, ghs_host = Some (fst (snd x))\<rparr>"
  let ?fd = "lc_sockfd ?api ! server_of m c"
  let ?req = "frame (ID_GetHostRequest, GetHostRequest_Serialize W \<lparr>ghq_seq = lc_seqid ?api, ghq_modid = m, ghq_cmdid = c\<rparr>)"
  let ?out = "if fst x = 0 then (answer_ip x, pb_port (fst (snd x))) else (sm_ip sm, sm_port sm)"
  let ?lc = "?api\<lparr>lc_seqid := lc_seqid ?api + 1, lc_sent := lc_sent ?api @ [(?fd, ?req)]\<rparr>"
  have g: "lc_get_host W True [Dgram a (frame (ID_GetHostResponse, GetHostResponse_Serialize W ?rsp))] buf m c (sm_ip sm, sm_port sm) ?api = Inr (fst x, ?out, ?lc)"
    using get_host_answer [OF assms, of "[]" ?rsp a "[]" "(sm_ip sm, sm_port sm)"] by (simp add: ret_defs pb_host_def)
  have ok: "api_ok ?lc" using assms(1) by (simp add: api_ok_def)
  note rep = report_sends [OF ok assms(2), of "fst (snd x)"]
  show ?thesis
  proof (cases "fst x = 0")
    case True
    then show ?thesis
      using g rep ok
      by (cases "call_fails err x"; cases "map_of (sm_result sm) (answer_ip x)")
        (auto simp: simulate_def simulate_call_def sm_print_def sim_lines_def sim_calls_def tally_def map_of_put api_ok_def Let_def split: option.splits)
  next
    case False
    then show ?thesis using g ok by (auto simp: simulate_def sm_print_def sim_lines_def sim_calls_def api_ok_def Let_def)
  qed
qed

lemma simulate_all_answered:
  assumes "api_ok (sm_api sm)" "good_module m c" "length buf = READ_BUF"
  shows "\<exists>sm'. simulate_all W m c err (length xs) (sim_queries W a buf m c (lc_seqid (sm_api sm)) xs) sm = Inr sm' \<and>
    sm_lines sm' = sm_lines sm @ concat (map (sim_lines m c err) xs) \<and> sm_result sm' = fold tally (sim_calls err xs) (sm_result sm) \<and>
    lc_sent (sm_api sm') = lc_sent (sm_api sm) @ map (Pair (lc_sockfd (sm_api sm) ! server_of m c)) (sim_sends W m c err (lc_seqid (sm_api sm)) xs)"
  using assms(1)
proof (induction xs arbitrary: sm)
  case (Cons x xs)
  from simulate_answered [OF Cons.prems assms(2,3), of err a x] obtain sm1 where s1:
      "simulate W m c err (hd (sim_queries W a buf m c (lc_seqid (sm_api sm)) [x])) sm = Inr sm1" "api_ok (sm_api sm1)"
      "lc_sockfd (sm_api sm1) = lc_sockfd (sm_api sm)" "lc_seqid (sm_api sm1) = lc_seqid (sm_api sm) + 1"
      "sm_lines sm1 = sm_lines sm @ sim_lines m c err x" "sm_result sm1 = fold tally (sim_calls err [x]) (sm_result sm)"
      "lc_sent (sm_api sm1) = lc_sent (sm_api sm) @ map (Pair (lc_sockfd (sm_api sm) ! server_of m c)) (sim_sends W m c err (lc_seqid (sm_api sm)) [x])"
    by blast
  from Cons.IH [OF s1(2)] s1 show ?case by (auto simp: sim_calls_def)
qed (auto simp: sim_calls_def)

end

section \<open>Properties\<close>

text \<open>
  C40 [simulator_accounts]. A run of the simulator with numeric arguments against an agent that answers every query: the program registers the module, makes exactly the
  requested number of queries, reports every host it was given exactly once, with the result of the simulated call, and ends with exit code 0. It prints one line for each address it was given, in
  ascending order, with the numbers of successful and failed calls to it; a call fails if the random digit of its round is below the error rate.
\<close>

theorem simulator_accounts:
  assumes "wire_ok W" "good_module m c" "length buf = READ_BUF" "0 < s0" "0 < s1" "0 < s2" "length xs = nat (sint cnt)"
    and "3 \<le> length hss" "\<forall>hs \<in> set hss. length hs \<le> 2924"
  shows "\<exists>result api. simulator_main W [prog, fmt m, fmt c, fmt err, fmt cnt] (s0, s1, s2) (0, 0, 0)
      (map (\<lambda>hs. (True, Dgram a (frame (ID_API_GetRouteResponse, GetRouteResponse_Serialize W \<lparr>grs_modid = m, grs_cmdid = c, grs_host = hs\<rparr>)))) hss)
      buf (sim_queries W a buf m c 0 xs) =
      Inr (0, [''err_rate = '' @ fmt err] @ reg_line m c (if \<exists>hs \<in> set (take 3 hss). hs \<noteq> [] then RET_SUCC else RET_NOEXIST) @
        concat (map (sim_lines m c err) xs) @ map tally_line result, Some api) \<and>
    lc_sent api = map (Pair ([s0, s1, s2] ! server_of m c))
      (replicate (min 3 (Suc (length (takeWhile (\<lambda>hs. hs = []) hss)))) (frame (ID_API_GetRouteRequest, GetRouteRequest_Serialize W \<lparr>grq_modid = m, grq_cmdid = c\<rparr>)) @
       sim_sends W m c err 0 xs) \<and>
    sorted_wrt (<) (map fst result) \<and>
    (\<forall>ip. map_of result ip = (if ip \<in> fst ` set (sim_calls err xs) then Some (count_calls ip False (sim_calls err xs), count_calls ip True (sim_calls err xs)) else None))"
proof -
  have w: "wire_format W" by (rule wire_format.intro [OF assms(1)])
  have args: "atoi (fmt v) = v" for v using atoi_roundtrip [of v] by (simp add: fmt_def)
  let ?lc = "\<lparr>lc_sockfd = [s0, s1, s2], lc_seqid = 0, lc_sent = []\<rparr>"
  let ?tries = "map (\<lambda>hs. (True, Dgram a (frame (ID_API_GetRouteResponse, GetRouteResponse_Serialize W \<lparr>grs_modid = m, grs_cmdid = c, grs_host = hs\<rparr>)))) hss"
  let ?k = "min 3 (Suc (length (takeWhile (\<lambda>hs. hs = []) hss)))" and ?fd = "[s0, s1, s2] ! server_of m c"
  let ?req = "frame (ID_API_GetRouteRequest, GetRouteRequest_Serialize W \<lparr>grq_modid = m, grq_cmdid = c\<rparr>)"
  let ?ret = "if \<exists>hs \<in> set (take 3 hss). hs \<noteq> [] then RET_SUCC else RET_NOEXIST"
  have new: "lars_client_new (s0, s1, s2) (0, 0, 0) = Inr ?lc" "api_ok ?lc" using assms(4-6) by (simp_all add: lars_client_new_def api_ok_def)
  obtain route lc1 where r: "reg_tries W ?tries buf 0 m c [] ?lc = Inr (route, lc1)" "route = [] \<longleftrightarrow> (\<forall>hs \<in> set (take (3 - 0) hss). hs = [])"
      "length (lc_sent lc1) = length (lc_sent ?lc) + min (3 - 0) (Suc (length (takeWhile (\<lambda>hs. hs = []) hss)))"
    using reg_tries_ok [OF assms(1-3) assms(9) new(2), of 0 a] assms(8) by auto
  from wire_format.reg_tries_sends [OF w new(2) assms(2) _ r(1)] have lc1: "lc1 = ?lc\<lparr>lc_sent := replicate ?k (?fd, ?req)\<rparr>" using r(3) by auto
  have reg: "reg_init W ?tries buf m c ?lc = Inr (?ret, lc1)" using r(1,2) by (simp add: reg_init_def)
  let ?sm = "\<lparr>sm_api = lc1, sm_ip = [], sm_port = 0, sm_result = [], sm_lines = [''err_rate = '' @ fmt err] @ reg_line m c ?ret\<rparr>"
  have "api_ok (sm_api ?sm)" using new(2) lc1 by (simp add: api_ok_def)
  from wire_format.simulate_all_answered [OF w this assms(2,3), of err xs a] obtain sm where sm:
      "simulate_all W m c err (length xs) (sim_queries W a buf m c 0 xs) ?sm = Inr sm" "sm_lines sm = sm_lines ?sm @ concat (map (sim_lines m c err) xs)"
      "sm_result sm = fold tally (sim_calls err xs) []" "lc_sent (sm_api sm) = replicate ?k (?fd, ?req) @ map (Pair ?fd) (sim_sends W m c err 0 xs)"
    using lc1 by auto
  have "simulator_main W [prog, fmt m, fmt c, fmt err, fmt cnt] (s0, s1, s2) (0, 0, 0) ?tries buf (sim_queries W a buf m c 0 xs) =
      Inr (0, sm_lines sm @ map tally_line (sm_result sm), Some (sm_api sm))"
    using sm(1) assms(7) unfolding simulator_main_def by (simp add: args new(1) reg)
  moreover have "sorted_wrt (<) (map fst (sm_result sm))" unfolding sm(3) by (rule tallies_sorted) simp
  ultimately show ?thesis
    using sm(2,4) tallies_count [of "sim_calls err xs"] unfolding sm(3) by (intro exI [of _ "fold tally (sim_calls err xs) []"] exI [of _ "sm_api sm"]) simp
qed

lemma one_entry:
  fixes r :: "('k::linorder \<times> 'v) list"
  assumes "sorted_wrt (<) (map fst r)" "map_of r = [k \<mapsto> v]"
  shows "r = [(k, v)]"
proof (cases r)
  case (Cons x xs)
  have d: "dom (map_of r) = {k}" by (simp add: assms(2))
  then have keys: "fst ` set r = {k}" by (simp add: dom_map_of_conv_image_fst)
  then have "xs = []" using assms(1) Cons by (cases xs) auto
  moreover have "map_of r k = Some v" by (simp add: assms(2))
  ultimately show ?thesis using keys Cons by (cases x) auto
qed (use fun_cong [OF assms(2), of k] in simp)

text \<open>Three queries with an error rate of 30 percent: two answers name a host, one call succeeds and one fails.\<close>

theorem simulator_accounts_witness:
  "\<exists>api. simulator_main base128 [''simulator'', fmt 1, fmt 2, fmt 3, fmt 3] (4, 5, 6) (0, 0, 0)
      (map (\<lambda>hs. (True, Dgram (0, 0) (frame (ID_API_GetRouteResponse, GetRouteResponse_Serialize base128 \<lparr>grs_modid = 1, grs_cmdid = 2, grs_host = hs\<rparr>))))
        [[\<lparr>pb_ip = 9, pb_port = 80\<rparr>], [], []]) (replicate READ_BUF 0)
      (sim_queries base128 (0, 0) (replicate READ_BUF 0) 1 2 0 [(0, \<lparr>pb_ip = 9, pb_port = 80\<rparr>, 17), (1, HostInfo_default, 4), (0, \<lparr>pb_ip = 9, pb_port = 80\<rparr>, 42)]) =
      Inr (0, [''err_rate = 3'', ''host9.0.0.0:host called'', ''SUCC.'', ''1, 2 all hosts overload'', ''host9.0.0.0:host called'', ''ERROR!!!'',
        ''ip 9.0.0.0: succ 1, error 1''], Some api) \<and> length (lc_sent api) = 6"
proof -
  let ?x = "\<lparr>pb_ip = 9, pb_port = 80\<rparr>"
  let ?xs = "[(0, ?x, 17), (1, HostInfo_default, 4), (0, ?x, 42)] :: sim_answer list"
  have n: "length ?xs = nat (sint (3 :: i32))" by simp
  have l: "3 \<le> length [[?x], [], []]" "\<forall>hs \<in> set [[?x], [], []]. length hs \<le> 2924" "length (replicate READ_BUF (0 :: byte)) = READ_BUF" by simp_all
  have calls: "sim_calls 3 ?xs = [(''9.0.0.0'', False), (''9.0.0.0'', True)]" by code_simp
  have lines: "concat (map (sim_lines 1 2 3) ?xs) = [''host9.0.0.0:host called'', ''SUCC.'', ''1, 2 all hosts overload'', ''host9.0.0.0:host called'', ''ERROR!!!'']"
    "''err_rate = '' @ fmt 3 = ''err_rate = 3''" "tally_line (''9.0.0.0'', 1, 1) = ''ip 9.0.0.0: succ 1, error 1''" by code_simp+
  have counts: "count_calls ip b [(''9.0.0.0'', False), (''9.0.0.0'', True)] = of_bool (ip = ''9.0.0.0'')" for ip b by (cases b) (auto simp: count_calls_def)
  have sends: "length (sim_sends base128 1 2 3 0 ?xs) = 5" by simp
  have reg: "reg_line 1 2 RET_SUCC = []" by (simp add: reg_line_def ret_defs)
  have pos: "(0 :: int) < 4" "(0 :: int) < 5" "(0 :: int) < 6" by simp_all
  obtain result api where r: "simulator_main base128 [''simulator'', fmt 1, fmt 2, fmt 3, fmt 3] (4, 5, 6) (0, 0, 0)
      (map (\<lambda>hs. (True, Dgram (0, 0) (frame (ID_API_GetRouteResponse, GetRouteResponse_Serialize base128 \<lparr>grs_modid = 1, grs_cmdid = 2, grs_host = hs\<rparr>)))) [[?x], [], []])
      (replicate READ_BUF 0) (sim_queries base128 (0, 0) (replicate READ_BUF 0) 1 2 0 ?xs) =
      Inr (0, [''err_rate = '' @ fmt 3] @ reg_line 1 2 (if \<exists>hs \<in> set (take 3 [[?x], [], []]). hs \<noteq> [] then RET_SUCC else RET_NOEXIST) @
        concat (map (sim_lines 1 2 3) ?xs) @ map tally_line result, Some api)"
    and sent: "lc_sent api = map (Pair ([4, 5, 6] ! server_of 1 2))
      (replicate (min 3 (Suc (length (takeWhile (\<lambda>hs. hs = []) [[?x], [], []])))) (frame (ID_API_GetRouteRequest, GetRouteRequest_Serialize base128 \<lparr>grq_modid = 1, grq_cmdid = 2\<rparr>)) @
       sim_sends base128 1 2 3 0 ?xs)"
    and res: "sorted_wrt (<) (map fst result)"
      "\<forall>ip. map_of result ip = (if ip \<in> fst ` set (sim_calls 3 ?xs) then Some (count_calls ip False (sim_calls 3 ?xs), count_calls ip True (sim_calls 3 ?xs)) else None)"
    using simulator_accounts [OF base128_ok demo_api_ok(2) l(3) pos n l(1,2), of "''simulator''" 3 "(0, 0)"] by (elim exE conjE) (rule that)
  have "map_of result = [''9.0.0.0'' \<mapsto> (1, 1)]" using res(2) unfolding calls counts by (intro ext) auto
  from one_entry [OF res(1) this] have "result = [(''9.0.0.0'', 1, 1)]" .
  moreover have "length (lc_sent api) = 6" unfolding sent using sends by simp
  moreover have "(\<exists>hs \<in> set (take 3 [[?x], [], []]). hs \<noteq> []) = True" by simp
  ultimately show ?thesis using r unfolding lines reg by (intro exI [of _ api]) (simp add: lines reg)
qed

text \<open>The rate program counts every answer of the agent, whatever its code: what was printed so far and the current second add up to the answers received.\<close>

lemma qps_answer_counts:
  "qps_answer W m c q ret s = Inr s' \<Longrightarrow>
     qt_qps s' = qt_qps s + of_bool (ret = 0 \<or> ret = 1 \<or> ret = 3) \<and> qt_total_qps s' = qt_total_qps s \<and> qt_total_time s' = qt_total_time s"
  by (auto simp: qps_answer_def Let_def bindR_eq_Inr split: if_splits)

lemma qps_statistics_counts:
  "qt_total_qps (qps_statistics t now s) + qt_qps (qps_statistics t now s) = qt_total_qps s + qt_qps s"
  by (simp add: qps_statistics_def Let_def)

theorem qps_counts:
  assumes "qps_rounds W thread_id rs s = Inr (rets, s')"
  shows "length rets = length rs \<and>
    qt_total_qps s' + qt_qps s' = qt_total_qps s + qt_qps s + int (length (filter (\<lambda>ret. ret = 0 \<or> ret = 1 \<or> ret = 3) rets))"
  using assms
proof (induction rs arbitrary: s rets)
  case (Cons r rs)
  obtain ret s1 rets1 where r: "qps_round W thread_id r s = Inr (ret, s1)" "qps_rounds W thread_id rs s1 = Inr (rets1, s')" "rets = ret # rets1"
    using Cons.prems by (auto simp: bindR_eq_Inr)
  have "qt_total_qps s1 + qt_qps s1 = qt_total_qps s + qt_qps s + of_bool (ret = 0 \<or> ret = 1 \<or> ret = 3)"
    using r(1) by (auto simp: qps_round_def bindR_eq_Inr qps_statistics_counts dest!: qps_answer_counts split: prod.splits)
  then show ?case using Cons.IH [OF r(2)] r(3) by auto
qed simp

text \<open>
  When all hosts of the module are overloaded, \<open>get_host\<close> leaves its output arguments alone. The rate program reports an error all the same, with what the
  variables hold: the host of an earlier answer is blamed for a call that was never made, and before the first host the address is uninitialised.
\<close>

context wire_format
begin

lemma qps_overload:
  assumes "api_ok (qt_api s)" "good_module m c" "length buf = READ_BUF"
    and q: "q = hd (sim_queries W a buf m c (lc_seqid (qt_api s)) [(1, h, 0)])"
  shows "lc_get_host W (q_sent q) (q_answers q) (q_buf q) m c (qt_ip s, qt_port s) (qt_api s) =
    Inr (1, (qt_ip s, qt_port s), (qt_api s)\<lparr>lc_seqid := lc_seqid (qt_api s) + 1, lc_sent := lc_sent (qt_api s) @ [(lc_sockfd (qt_api s) ! server_of m c,
      frame (ID_GetHostRequest, GetHostRequest_Serialize W \<lparr>ghq_seq = lc_seqid (qt_api s), ghq_modid = m, ghq_cmdid = c\<rparr>))]\<rparr>)"
  using get_host_answer [OF assms(1-3), of "[]" "\<lparr>ghs_seq = lc_seqid (qt_api s), ghs_modid = m, ghs_cmdid = c, ghs_retcode = 1, ghs_host = Some h\<rparr>" a "[]" "(qt_ip s, qt_port s)"]
  by (simp add: q ret_defs)

end

theorem qps_blames_last_host:
  assumes "wire_ok W" "api_ok (qt_api s)" "good_module m c" "length buf = READ_BUF"
    and "q = hd (sim_queries W a buf m c (lc_seqid (qt_api s)) [(1, h, 0)])"
  shows "(qt_ip s = [] \<longrightarrow> qps_round W (t, m, c) (q, now) s = Inl Uninitialised) \<and>
    (\<forall>last. qt_ip s = inet_ntoa (pb_ip last) \<and> qt_port s = pb_port last \<longrightarrow>
      (\<exists>s' sent. qps_round W (t, m, c) (q, now) s = Inr (1, s') \<and> lc_sent (qt_api s') = sent @ [(lc_sockfd (qt_api s) ! server_of m c, frame (ID_ReportRequest,
        ReportRequest_Serialize W \<lparr>rpq_modid = m, rpq_cmdid = c, rpq_host = Some last, rpq_retcode = 1\<rparr>))]))"
proof (intro conjI impI allI)
  have w: "wire_format W" by (rule wire_format.intro [OF assms(1)])
  note g = wire_format.qps_overload [OF w assms(2-5)]
  have "inet_aton [] = None" by code_simp
  then show "qps_round W (t, m, c) (q, now) s = Inl Uninitialised" if "qt_ip s = []"
    using g that by (simp add: qps_round_def qps_answer_def Let_def lc_report_def)
  fix last :: HostInfo
  assume h: "qt_ip s = inet_ntoa (pb_ip last) \<and> qt_port s = pb_port last"
  let ?lc = "(qt_api s)\<lparr>lc_seqid := lc_seqid (qt_api s) + 1, lc_sent := lc_sent (qt_api s) @ [(lc_sockfd (qt_api s) ! server_of m c,
      frame (ID_GetHostRequest, GetHostRequest_Serialize W \<lparr>ghq_seq = lc_seqid (qt_api s), ghq_modid = m, ghq_cmdid = c\<rparr>))]\<rparr>"
  have ok: "api_ok ?lc" "q_report q" using assms(2,5) by (simp_all add: api_ok_def)
  have "qt_api (qps_statistics t now x) = qt_api x" for x by (simp add: qps_statistics_def Let_def)
  then show "\<exists>s' sent. qps_round W (t, m, c) (q, now) s = Inr (1, s') \<and> lc_sent (qt_api s') = sent @ [(lc_sockfd (qt_api s) ! server_of m c, frame (ID_ReportRequest,
        ReportRequest_Serialize W \<lparr>rpq_modid = m, rpq_cmdid = c, rpq_host = Some last, rpq_retcode = 1\<rparr>))]"
    using g h ok(2) wire_format.report_sends [OF w ok(1) assms(3), of last 1] by (simp add: qps_round_def qps_answer_def Let_def)
qed

end
