(* ===== verification/Tcp_Reply.thy ===== *)
theory Tcp_Reply
  imports Tcp_Session Tcp_Client
begin

text \<open>
  Applications in which a message has at most one reply, on the same connection: a function \<open>react\<close> maps the message and the state of the application to the reply and the new state. The
  contracts \<open>reply_server\<close> and \<open>reply_client\<close> only ask that the callbacks do what \<open>react\<close> says; that the replies then arrive on the output stream, in order, follows from those of
  \<open>server_session\<close> and \<open>client_session\<close>.
\<close>

section \<open>Reactions\<close>

type_synonym net_msg = "i32 \<times> bytes"
type_synonym 'x reaction = "net_msg \<Rightarrow> 'x \<Rightarrow> (net_msg option \<times> 'x) res"

fun reacts :: "'x reaction \<Rightarrow> net_msg list \<Rightarrow> 'x \<Rightarrow> (net_msg list \<times> 'x) res" where
  "reacts react [] x = Inr ([], x)"
| "reacts react (m # ms) x =
     bindR (react m x) (\<lambda>(reply, x).
     bindR (reacts react ms x) (\<lambda>(replies, x).
     Inr (case reply of None \<Rightarrow> replies | Some r \<Rightarrow> r # replies, x)))"

abbreviation frames :: "net_msg list \<Rightarrow> bytes" where
  "frames ms \<equiv> concat (map frame ms)"

lemma reacts_ConsE:
  assumes "reacts react (m # ms) x = Inr (rs, final)"
  obtains reply y rs' where "react m x = Inr (reply, y)" "reacts react ms y = Inr (rs', final)" "rs = (case reply of None \<Rightarrow> rs' | Some r \<Rightarrow> r # rs')"
  using assms by (auto simp: bindR_eq_Inr)

lemma reacts_append:
  "reacts react (ms @ ms') x = bindR (reacts react ms x) (\<lambda>(rs, x). bindR (reacts react ms' x) (\<lambda>(rs', x). Inr (rs @ rs', x)))"
proof (induction ms arbitrary: x)
  case (Cons m ms)
  show ?case
  proof (cases "react m x")
    case (Inr a)
    then show ?thesis using Cons.IH by (cases a; cases "reacts react ms (snd a)") (auto split: option.splits simp: bindR_def split: sum.splits)
  qed simp
qed (simp add: bindR_def split: sum.splits)

section \<open>Servers\<close>

definition send_reply :: "ptr \<Rightarrow> net_msg option \<Rightarrow> ('cb, 'u, 'h, 'x) server_state \<Rightarrow> ('cb, 'u, 'h, 'x) server_state res" where
  "send_reply p reply ss =
     (case reply of None \<Rightarrow> Inr ss | Some (msgid, data) \<Rightarrow> bindR (conn_send_message data (of_nat (length data)) msgid p ss) (\<lambda>(_, ss). Inr ss))"

text \<open>While \<open>ms\<close> are to be delivered: the replies to them lead to the stream \<open>strm\<close> and the state \<open>final\<close>, and fit the output buffer; nothing is written.\<close>

definition reply_session ::
  "'x reaction \<Rightarrow> 'h option \<Rightarrow> ptr \<Rightarrow> int \<Rightarrow> ptr \<Rightarrow> bytes \<Rightarrow> bytes \<Rightarrow> 'x \<Rightarrow> net_msg list \<Rightarrow> ('cb, 'u, 'h, 'x) server_state \<Rightarrow> bool" where
  "reply_session react h p fd l written strm final ms ss \<longleftrightarrow>
     (\<exists>s rs. out_inv p fd l s ss \<and> reacts react ms (ss_app ss) = Inr (rs, final) \<and> s @ frames rs = strm \<and>
        length (slot_bytes ss (p, Out)) + length (frames rs) \<le> 8388608) \<and> ss_conn_close_cb ss = h \<and> ss_sent ss fd = written"

lemma send_reply_ok:
  assumes out: "out_inv p fd l s ss" and fits: "length (slot_bytes ss (p, Out)) + length (case reply of None \<Rightarrow> [] | Some r \<Rightarrow> frame r) \<le> 8388608"
  shows "case send_reply p reply (ss\<lparr>ss_app := x\<rparr>) of
      Inl e \<Rightarrow> e = Exit_1
    | Inr ss' \<Rightarrow> kept p ss ss' \<and> out_inv p fd l (s @ (case reply of None \<Rightarrow> [] | Some r \<Rightarrow> frame r)) ss' \<and>
        slot_bytes ss' (p, Out) = slot_bytes ss (p, Out) @ (case reply of None \<Rightarrow> [] | Some r \<Rightarrow> frame r) \<and>
        ss_app ss' = x \<and> ss_conn_close_cb ss' = ss_conn_close_cb ss \<and> ss_sent ss' = ss_sent ss"
proof -
  let ?s = "ss\<lparr>ss_app := x\<rparr>"
  have live: "bufs_ok ss" "conn_live p fd l ss" using out by (simp_all add: out_inv_def)
  have o: "out_inv p fd l s ?s" using out by (simp add: out_inv_app)
  have b: "bufs_ok ?s" "conn_live p fd l ?s" "slot_bytes ?s = slot_bytes ss" using o bufs_ok_cong(2) [of ?s ss] by (simp_all add: out_inv_def)
  have k: "kept p ss ?s" by (rule kept_app [OF live(1)])
  show ?thesis
  proof (cases reply)
    case None
    then show ?thesis using o k b(3) by (simp add: send_reply_def)
  next
    case (Some r)
    obtain msgid data where r: "r = (msgid, data)" by (cases r)
    have f: "int (length data) < 2 ^ 31" "8 + int (length data) + int (length (slot_bytes ?s (p, Out))) \<le> 8388608"
      using fits unfolding Some r b(3) by simp_all
    show ?thesis
    proof (cases "conn_send_message data (of_nat (length data)) msgid p ?s")
      case (Inl e)
      then show ?thesis using conn_send_message_out [OF o f, of msgid] Some r by (simp add: send_reply_def)
    next
      case (Inr y)
      obtain ret s' where y: "y = (ret, s')" by (cases y)
      have "out_inv p fd l (s @ frame (msgid, data)) s'" "slot_bytes s' (p, Out) = slot_bytes ss (p, Out) @ frame (msgid, data)"
        using conn_send_message_out [OF o f, of msgid] Inr y b(3) by simp_all
      moreover have ka: "kept p ?s s'" "ss_app s' = x" using send_message_kept [OF b(1,2) Inr [unfolded y]] by simp_all
      moreover have "ss_conn_close_cb s' = ss_conn_close_cb ss" "ss_sent s' = ss_sent ss" using send_keeps_hooks [OF Inr [unfolded y]] by simp_all
      moreover have "kept p ss s'" using k ka(1) by (auto simp: kept_def)
      ultimately show ?thesis using Inr y Some r by (simp add: send_reply_def)
    qed
  qed
qed

locale reply_server =
  fixes hs :: "('cb, 'u, 'h, 'x) handlers" and p :: ptr and fd :: int and l :: ptr and r :: "('cb, 'u) msg_router"
    and react :: "'x reaction" and h :: "'h option" and leave :: "'x \<Rightarrow> 'x"
  assumes message: "reading p fd l r ss \<Longrightarrow> d = Some body \<or> d = None \<and> body = [] \<Longrightarrow> react (msgid, body) (ss_app ss) = Inr (reply, x) \<Longrightarrow>
      conn_call hs p msgid (of_nat (length body)) d ss = send_reply p reply (ss\<lparr>ss_app := x\<rparr>)"
    and close: "reading p fd l r ss \<Longrightarrow> run_hook hs h p ss = Inr (ss\<lparr>ss_app := leave (ss_app ss)\<rparr>)"

sublocale reply_server \<subseteq> session: server_session hs p fd l r "reply_session react h p fd l written strm final" "{Exit_1}" for written strm final
proof unfold_locales
  fix ss :: "('cb, 'u, 'h, 'x) server_state" and msgid body ms and d :: "bytes option"
  assume rd: "reading p fd l r ss" and s: "reply_session react h p fd l written strm final ((msgid, body) # ms) ss" and d: "d = Some body \<or> d = None \<and> body = []"
  obtain str rs where o: "out_inv p fd l str ss" "reacts react ((msgid, body) # ms) (ss_app ss) = Inr (rs, final)" "str @ frames rs = strm"
      "length (slot_bytes ss (p, Out)) + length (frames rs) \<le> 8388608" and h: "ss_conn_close_cb ss = h" "ss_sent ss fd = written"
    using s unfolding reply_session_def by blast
  obtain reply y rs' where y: "react (msgid, body) (ss_app ss) = Inr (reply, y)" "reacts react ms y = Inr (rs', final)"
      "rs = (case reply of None \<Rightarrow> rs' | Some r \<Rightarrow> r # rs')"
    by (rule reacts_ConsE [OF o(2)])
  let ?f = "case reply of None \<Rightarrow> [] | Some r \<Rightarrow> frame r"
  have split: "frames rs = ?f @ frames rs'" using y(3) by (cases reply) simp_all
  have fits: "length (slot_bytes ss (p, Out)) + length ?f \<le> 8388608" using o(4) unfolding split by simp
  note reply_ok = send_reply_ok [OF o(1) fits, of y]
  show "case conn_call hs p msgid (of_nat (length body)) d ss of
      Inl e \<Rightarrow> e \<in> {Exit_1} | Inr ss' \<Rightarrow> kept p ss ss' \<and> reply_session react h p fd l written strm final ms ss'"
    unfolding message [OF rd d y(1)]
  proof (cases "send_reply p reply (ss\<lparr>ss_app := y\<rparr>)")
    case (Inl e)
    then show "case send_reply p reply (ss\<lparr>ss_app := y\<rparr>) of Inl e \<Rightarrow> e \<in> {Exit_1} | Inr ss' \<Rightarrow> kept p ss ss' \<and> reply_session react h p fd l written strm final ms ss'"
      using reply_ok by simp
  next
    case (Inr ss')
    then have s': "kept p ss ss'" "out_inv p fd l (str @ ?f) ss'" "slot_bytes ss' (p, Out) = slot_bytes ss (p, Out) @ ?f" "ss_app ss' = y" "ss_conn_close_cb ss' = h" "ss_sent ss' fd = written"
      using reply_ok h by simp_all
    have "(str @ ?f) @ frames rs' = strm" "length (slot_bytes ss' (p, Out)) + length (frames rs') \<le> 8388608"
      using o(3,4) unfolding split s'(3) by simp_all
    then have "reply_session react h p fd l written strm final ms ss'" unfolding reply_session_def s'(4) using s'(2,5,6) y(2) by blast
    then show "case send_reply p reply (ss\<lparr>ss_app := y\<rparr>) of Inl e \<Rightarrow> e \<in> {Exit_1} | Inr ss' \<Rightarrow> kept p ss ss' \<and> reply_session react h p fd l written strm final ms ss'"
      using Inr s'(1) by simp
  qed
next
  fix ss :: "('cb, 'u, 'h, 'x) server_state" and ms q st
  assume "reading p fd l r ss" and s: "reply_session react h p fd l written strm final ms ss" and q: "rb_ok q st" "rb_frame (slot ss (p, In)) (ss_pool ss) q st"
  from s obtain str rs where o: "out_inv p fd l str ss" "reacts react ms (ss_app ss) = Inr (rs, final)" "str @ frames rs = strm"
      "length (slot_bytes ss (p, Out)) + length (frames rs) \<le> 8388608" and h: "ss_conn_close_cb ss = h" "ss_sent ss fd = written"
    unfolding reply_session_def by blast
  with out_inv_put_in [OF o(1) q] show "reply_session react h p fd l written strm final ms (put_buf In p (q, st) ss)" unfolding reply_session_def by auto
next
  fix ss :: "('cb, 'u, 'h, 'x) server_state"
  assume rd: "reading p fd l r ss" and s: "reply_session react h p fd l written strm final [] ss"
  have "bufs_ok ss" using rd by (simp add: reading_def)
  then show "case run_hook hs (ss_conn_close_cb ss) p ss of Inl e \<Rightarrow> e \<in> {Exit_1} | Inr ss' \<Rightarrow> kept p ss ss'"
    using close [OF rd] s kept_app by (auto simp: reply_session_def)
qed

context reply_server
begin

lemma replies_sent:
  assumes out: "out_inv p fd l stream ss" and srv: "ss_router ss = r" "ss_conn_close_cb ss = h"
    and inp: "slot_head ss (p, In) = 0" "0 < n" "n + int (length (slot_bytes ss (p, In))) \<le> 8388608"
      "sys_read (nat n) as = Inr (Rd bs)" "length bs = nat n" "parse_frames (slot_bytes ss (p, In) @ bs) = (ms, rest, e)"
    and rs: "reacts react ms (ss_app ss) = Inr (rs, final)" and fits: "length (slot_bytes ss (p, Out)) + length (frames rs) \<le> 8388608"
  shows "case conn_do_read hs (Some n) as p ss of
      Inl f \<Rightarrow> f = Exit_1 \<or> f = Assert_Failed \<and> empty_tail ms rest
    | Inr ss' \<Rightarrow> \<not> empty_tail ms rest \<and>
        (if e = Malformed then closed p fd l ss' \<and> ss_app ss' = leave final
         else out_inv p fd l (stream @ frames rs) ss' \<and> ss_app ss' = final \<and> ss_sent ss' fd = ss_sent ss fd \<and> ss_conn_close_cb ss' = h \<and> ss_router ss' = r \<and> slot_bytes ss' (p, In) = rest \<and> slot_head ss' (p, In) = 0)"
proof -
  let ?J = "reply_session react h p fd l (ss_sent ss fd) (stream @ frames rs) final"
  have rd: "reading p fd l r ss" using out srv(1) by (simp add: reading_def out_inv_def)
  have J: "?J ms ss" unfolding reply_session_def using out srv(2) rs fits by blast
  note run = session.do_read_session [OF rd J inp]
  have done_app: "ss_app w = final" "out_inv p fd l (stream @ frames rs) w" "ss_conn_close_cb w = h" "ss_sent w fd = ss_sent ss fd" if "?J [] w" for w
    using that unfolding reply_session_def by auto
  show ?thesis
  proof (cases "conn_do_read hs (Some n) as p ss")
    case (Inl f)
    then show ?thesis using run by auto
  next
    case (Inr ss')
    show ?thesis
    proof (cases "e = Malformed")
      case True
      then obtain w s1 where w: "\<not> empty_tail ms rest" "closed p fd l ss'" "reading p fd l r w" "?J [] w"
          "run_hook hs (ss_conn_close_cb w) p w = Inr s1" "ss_app ss' = ss_app s1"
        using run unfolding Inr sum.case by (simp only: if_True simp_thms) blast
      have "ss_app s1 = leave final" using w(5) close [OF w(3)] done_app [OF w(4)] by auto
      then show ?thesis using w True Inr by simp
    next
      case False
      then have "\<not> empty_tail ms rest" "?J [] ss'" "slot_bytes ss' (p, In) = rest" "slot_head ss' (p, In) = 0" "ss_router ss' = r" using run unfolding Inr by (simp_all add: reading_def)
      then show ?thesis using False Inr done_app [of ss'] by simp
    qed
  qed
qed

end

section \<open>Clients\<close>

definition client_reply :: "net_msg option \<Rightarrow> ('cb, 'u, 'h, 'x) client_state \<Rightarrow> ('cb, 'u, 'h, 'x) client_state res" where
  "client_reply reply cl =
     (case reply of None \<Rightarrow> Inr cl | Some (msgid, data) \<Rightarrow> bindR (client_send_message data (of_nat (length data)) msgid cl) (\<lambda>(_, cl). Inr cl))"

definition client_replies :: "'x reaction \<Rightarrow> (int \<Rightarrow> bytes) \<Rightarrow> bytes \<Rightarrow> 'x \<Rightarrow> net_msg list \<Rightarrow> ('cb, 'u, 'h, 'x) client_state \<Rightarrow> bool" where
  "client_replies react written strm final ms cl \<longleftrightarrow>
     (\<exists>rs. cl_out cl \<and> reacts react ms (cl_app cl) = Inr (rs, final) \<and> stream_of cl @ frames rs = strm \<and> length (pending cl) + length (frames rs) \<le> 8388608) \<and> cl_sent cl = written"

lemma cl_out_app: "cl_out (cl\<lparr>cl_app := x\<rparr>) \<longleftrightarrow> cl_out cl"
  by (simp add: cl_out_def client_ok_def pending_def cl_watch_write_def)

lemma client_reply_ok:
  assumes out: "cl_out cl" and fits: "length (pending cl) + length (case reply of None \<Rightarrow> [] | Some r \<Rightarrow> frame r) \<le> 8388608"
  shows "case client_reply reply (cl\<lparr>cl_app := x\<rparr>) of
      Inl e \<Rightarrow> e = Exit_1
    | Inr cl' \<Rightarrow> cl_kept cl cl' \<and> cl_out cl' \<and> pending cl' = pending cl @ (case reply of None \<Rightarrow> [] | Some r \<Rightarrow> frame r) \<and>
        stream_of cl' = stream_of cl @ (case reply of None \<Rightarrow> [] | Some r \<Rightarrow> frame r) \<and> cl_app cl' = x \<and> cl_sent cl' = cl_sent cl"
proof -
  let ?c = "cl\<lparr>cl_app := x\<rparr>"
  have o: "cl_out ?c" "pending ?c = pending cl" "unread_bytes ?c = unread_bytes cl" using out by (simp_all add: cl_out_app pending_def unread_bytes_def)
  show ?thesis
  proof (cases reply)
    case None
    then show ?thesis using o out by (simp add: client_reply_def cl_kept_def stream_of_def cl_out_def)
  next
    case (Some r)
    obtain msgid data where r: "r = (msgid, data)" by (cases r)
    have f: "int (length data) < 2 ^ 31" "8 + int (length data) + int (length (pending ?c)) \<le> 8388608" using fits unfolding Some r o(2) by simp_all
    have "case client_send_message data (of_nat (length data)) msgid ?c of
        Inl e \<Rightarrow> e = Exit_1
      | Inr (ret, cl') \<Rightarrow> cl_out cl' \<and> pending cl' = pending ?c @ frame (msgid, data) \<and> cl_sent cl' = cl_sent ?c \<and> cl_kept ?c cl' \<and> cl_app cl' = cl_app ?c"
      using client_send_message_ok [OF o(1) f, of msgid] by (auto split: sum.splits)
    then show ?thesis using o Some r
      by (cases "client_send_message data (of_nat (length data)) msgid ?c") (auto simp: client_reply_def cl_kept_def stream_of_def)
  qed
qed

locale reply_client =
  fixes hs :: "('cb, 'u, 'h, 'x) cli_handlers" and fd :: int and r :: "('cb, 'u) msg_router" and react :: "'x reaction"
  assumes message: "cl_reading fd r cl \<Longrightarrow> d = Some body \<or> d = None \<and> body = [] \<Longrightarrow> react (msgid, body) (cl_app cl) = Inr (reply, x) \<Longrightarrow>
      client_call hs msgid (of_nat (length body)) d cl = client_reply reply (cl\<lparr>cl_app := x\<rparr>)"

sublocale reply_client \<subseteq> session: client_session hs fd r "client_replies react written strm final" "{Exit_1}" for written strm final
proof unfold_locales
  fix cl :: "('cb, 'u, 'h, 'x) client_state" and msgid body ms and d :: "bytes option"
  assume rd: "cl_reading fd r cl" and s: "client_replies react written strm final ((msgid, body) # ms) cl" and d: "d = Some body \<or> d = None \<and> body = []"
  obtain rs where o: "cl_out cl" "reacts react ((msgid, body) # ms) (cl_app cl) = Inr (rs, final)" "stream_of cl @ frames rs = strm"
      "length (pending cl) + length (frames rs) \<le> 8388608" "cl_sent cl = written"
    using s unfolding client_replies_def by blast
  obtain reply y rs' where y: "react (msgid, body) (cl_app cl) = Inr (reply, y)" "reacts react ms y = Inr (rs', final)"
      "rs = (case reply of None \<Rightarrow> rs' | Some r \<Rightarrow> r # rs')"
    by (rule reacts_ConsE [OF o(2)])
  let ?f = "case reply of None \<Rightarrow> [] | Some r \<Rightarrow> frame r"
  have split: "frames rs = ?f @ frames rs'" using y(3) by (cases reply) simp_all
  have fits: "length (pending cl) + length ?f \<le> 8388608" using o(4) unfolding split by simp
  note reply_ok = client_reply_ok [OF o(1) fits, of y]
  show "case client_call hs msgid (of_nat (length body)) d cl of
      Inl e \<Rightarrow> e \<in> {Exit_1} | Inr cl' \<Rightarrow> cl_kept cl cl' \<and> client_replies react written strm final ms cl'"
    unfolding message [OF rd d y(1)]
  proof (cases "client_reply reply (cl\<lparr>cl_app := y\<rparr>)")
    case (Inl e)
    then show "case client_reply reply (cl\<lparr>cl_app := y\<rparr>) of Inl e \<Rightarrow> e \<in> {Exit_1} | Inr cl' \<Rightarrow> cl_kept cl cl' \<and> client_replies react written strm final ms cl'"
      using reply_ok by simp
  next
    case (Inr cl')
    then have c: "cl_kept cl cl'" "cl_out cl'" "pending cl' = pending cl @ ?f" "stream_of cl' = stream_of cl @ ?f" "cl_app cl' = y" "cl_sent cl' = written" using reply_ok o(5) by simp_all
    have "stream_of cl' @ frames rs' = strm" "length (pending cl') + length (frames rs') \<le> 8388608" using o(3,4) unfolding split c(3,4) by simp_all
    then have "client_replies react written strm final ms cl'" unfolding client_replies_def c(5) using c(2,6) y(2) by blast
    then show "case client_reply reply (cl\<lparr>cl_app := y\<rparr>) of Inl e \<Rightarrow> e \<in> {Exit_1} | Inr cl' \<Rightarrow> cl_kept cl cl' \<and> client_replies react written strm final ms cl'"
      using Inr c(1) by simp
  qed
next
  fix cl :: "('cb, 'u, 'h, 'x) client_state" and ms q st
  assume "cl_reading fd r cl" and s: "client_replies react written strm final ms cl" and q: "rb_ok q st" "rb_frame (cl_ibuf cl) (cl_pool cl) q st"
  then obtain rs where o: "cl_out cl" "reacts react ms (cl_app cl) = Inr (rs, final)" "stream_of cl @ frames rs = strm"
      "length (pending cl) + length (frames rs) \<le> 8388608" "cl_sent cl = written" unfolding client_replies_def by blast
  have "client_ok cl" using o(1) by (simp add: cl_out_def)
  from cl_put_ok(2) [OF this q] cl_put_out [OF o(1) q] o show "client_replies react written strm final ms (cl_put (q, st) cl)"
    unfolding client_replies_def by (simp add: cl_put_def)
qed

context reply_client
begin

lemma replies_sent:
  assumes out: "cl_out cl" and cli: "cl_sockfd cl = fd" "cl_router cl = r"
    and inp: "rb_head (cl_ibuf cl) (cl_pool cl) = 0" "0 < n" "n + int (length (unread_bytes cl)) \<le> 8388608"
      "sys_read (nat n) as = Inr (Rd bs)" "length bs = nat n" "parse_frames (unread_bytes cl @ bs) = (ms, rest, Incomplete)"
    and rs: "reacts react ms (cl_app cl) = Inr (rs, final)" and fits: "length (pending cl) + length (frames rs) \<le> 8388608"
  shows "case client_do_read hs (Some n) as cl of
      Inl f \<Rightarrow> f = Exit_1 \<or> f = Assert_Failed \<and> empty_tail ms rest
    | Inr cl' \<Rightarrow> \<not> empty_tail ms rest \<and> cl_out cl' \<and> stream_of cl' = stream_of cl @ frames rs \<and> cl_app cl' = final \<and> cl_sent cl' = cl_sent cl \<and> unread_bytes cl' = rest \<and>
        cl_reading fd r cl' \<and> rb_head (cl_ibuf cl') (cl_pool cl') = 0"
proof -
  have rd: "cl_reading fd r cl" using out cli by (simp add: cl_reading_def cl_out_def)
  have "client_replies react (cl_sent cl) (stream_of cl @ frames rs) final ms cl" unfolding client_replies_def using out rs fits by blast
  from session.client_read_session [OF rd this inp] show ?thesis
    by (cases "client_do_read hs (Some n) as cl") (auto simp: client_replies_def)
qed

end

end
