(* ===== verification/Echo_Server.thy ===== *)
theory Echo_Server
  imports Tcp_Reply Config_File
begin

text \<open>
  The programs \<^verbatim>\<open>lars_reactor/example/server.cpp\<close> and \<^verbatim>\<open>lars_reactor/example/client.cpp\<close>: a server that greets its clients, sends messages with the number 1 back and prints those with
  the number 2, and notifies all connections when a client comes; and a client for it. Printing does not influence the state and is left out. The server is an instance of \<open>reply_server\<close>, the client of \<open>reply_client\<close>.
\<close>

section \<open>Model\<close>

definition chars :: "string \<Rightarrow> bytes" where
  "chars s = map of_char s"

datatype echo_cb = Callback_Busi | Print_Busi
datatype echo_hook = On_Client_Build | On_Client_Lost

text \<open>The worker pool of \<open>server->get_th_pool()\<close>, and the member \<open>param\<close> of every connection.\<close>

record echo_app =
  ea_pool :: "(io_cb, ptr) thread_pool"
  ea_param :: "ptr \<Rightarrow> string option"

type_synonym echo_server = "(echo_cb, unit, echo_hook, echo_app) server_state"

definition srv_callback_busi :: "bytes option \<Rightarrow> i32 \<Rightarrow> i32 \<Rightarrow> ptr \<Rightarrow> echo_server \<Rightarrow> echo_server res" where
  "srv_callback_busi data len msgid conn ss =
     bindR (conn_send_message (case data of None \<Rightarrow> [] | Some bs \<Rightarrow> bs) len msgid conn ss) (\<lambda>(_, ss). Inr ss)"

definition srv_print_busi :: "bytes option \<Rightarrow> i32 \<Rightarrow> i32 \<Rightarrow> ptr \<Rightarrow> echo_server \<Rightarrow> echo_server res" where
  "srv_print_busi data len msgid conn ss = Inr ss"

definition welcome_msg :: net_msg where
  "welcome_msg = (200, chars ''Welcome! you are online'')"

text \<open>The first task is \<open>print_lars_task\<close>, sent without an argument.\<close>

definition srv_on_client_build :: "ptr \<Rightarrow> echo_server \<Rightarrow> echo_server res" where
  "srv_on_client_build conn ss =
     bindR (conn_send_message (snd welcome_msg) (of_nat (length (snd welcome_msg))) (fst welcome_msg) conn ss) (\<lambda>(_, ss).
     bindR (send_task (Task 0) 0 (ea_pool (ss_app ss))) (\<lambda>tp.
     Inr (ss\<lparr>ss_app := (ss_app ss)\<lparr>ea_pool := tp, ea_param := (ea_param (ss_app ss))(conn \<mapsto> ''I am the conn param for you!'')\<rparr>\<rparr>)))"

definition srv_on_client_lost :: "ptr \<Rightarrow> echo_server \<Rightarrow> echo_server res" where
  "srv_on_client_lost conn ss = Inr ss"

definition srv_handlers :: "(echo_cb, unit, echo_hook, echo_app) handlers" where
  "srv_handlers =
     \<lparr>on_message = (\<lambda>cb data len msgid conn u. case cb of Callback_Busi \<Rightarrow> srv_callback_busi data len msgid conn | Print_Busi \<Rightarrow> srv_print_busi data len msgid conn),
      on_hook = (\<lambda>h. case h of On_Client_Build \<Rightarrow> srv_on_client_build | On_Client_Lost \<Rightarrow> srv_on_client_lost)\<rparr>"

text \<open>
  \<open>print_lars_task\<close>, for the descriptors in the order in which the hash set yields them. An entry of \<open>conns\<close> that was never written has no value.
\<close>

definition conn_at :: "int \<Rightarrow> ('cb, 'u, 'h, 'x) server_state \<Rightarrow> ptr option res" where
  "conn_at fd ss =
     bindR (ensure (0 \<le> fd \<and> fd < int (length (ss_conns ss))) Out_Of_Bounds) (\<lambda>_.
     case ss_conns ss ! nat fd of None \<Rightarrow> Inl Uninitialised | Some conn \<Rightarrow> Inr conn)"

fun print_fds :: "int list \<Rightarrow> ('cb, 'u, 'h, 'x) server_state \<Rightarrow> ('cb, 'u, 'h, 'x) server_state res" where
  "print_fds [] ss = Inr ss"
| "print_fds (fd # fds) ss =
     bindR (conn_at fd ss) (\<lambda>conn.
     bindR (case conn of
              None \<Rightarrow> Inr ss
            | Some p \<Rightarrow> bindR (conn_send_message (chars ''Hello I am a Task!'') 18 404 p ss) (\<lambda>(_, ss). Inr ss))
       (print_fds fds))"

definition print_lars_task :: "(int set \<Rightarrow> int list) \<Rightarrow> ptr \<Rightarrow> ('cb, 'u, 'h, 'x) server_state \<Rightarrow> ('cb, 'u, 'h, 'x) server_state res" where
  "print_lars_task order l ss = bindR (deref (ss_loops ss) l) (\<lambda>loop. print_fds (order (get_listen_fds loop)) ss)"

text \<open>\<open>main\<close> up to \<open>event_process\<close>; the worker pool of the new server is what \<open>get_th_pool\<close> yields.\<close>

definition echo_main ::
  "config_file \<Rightarrow> int \<Rightarrow> int \<Rightarrow> int \<Rightarrow> int list \<Rightarrow> int list \<Rightarrow> ptr \<Rightarrow> ptr \<Rightarrow> echo_server \<Rightarrow> (tcp_server \<times> echo_server) res" where
  "echo_main cfg sockfd bind_ret listen_ret evfds created self loop ss =
     bindR (tcp_server_new sockfd bind_ret listen_ret (sint (GetNumber ''reactor'' ''threadNum'' 3 cfg)) (sint (GetNumber ''reactor'' ''maxConn'' 1000 cfg))
       evfds created self loop ss) (\<lambda>(server, ss).
     (let ss = add_msg_router 1 Callback_Busi () ss;
          ss = add_msg_router 2 Print_Busi () ss;
          ss = set_conn_start On_Client_Build ss;
          ss = set_conn_close On_Client_Lost ss in
      Inr (server, case sv_thread_pool server of Some (Some tp) \<Rightarrow> ss\<lparr>ss_app := (ss_app ss)\<lparr>ea_pool := tp\<rparr>\<rparr> | _ \<Rightarrow> ss)))"

text \<open>The client.\<close>

type_synonym echo_client = "(echo_cb, unit, echo_hook, unit) client_state"

definition cli_callback_busi :: "bytes option \<Rightarrow> i32 \<Rightarrow> i32 \<Rightarrow> echo_client \<Rightarrow> echo_client res" where
  "cli_callback_busi data len msgid cl = bindR (client_send_message (case data of None \<Rightarrow> [] | Some bs \<Rightarrow> bs) len msgid cl) (\<lambda>(_, cl). Inr cl)"

definition cli_print_busi :: "bytes option \<Rightarrow> i32 \<Rightarrow> i32 \<Rightarrow> echo_client \<Rightarrow> echo_client res" where
  "cli_print_busi data len msgid cl = Inr cl"

definition hello_msg :: net_msg where
  "hello_msg = (1, chars ''hello Lars'' @ [10])"

definition cli_on_client_build :: "echo_client \<Rightarrow> echo_client res" where
  "cli_on_client_build cl = bindR (client_send_message (snd hello_msg) (of_nat (length (snd hello_msg))) (fst hello_msg) cl) (\<lambda>(_, cl). Inr cl)"

definition cli_on_client_lost :: "echo_client \<Rightarrow> echo_client res" where
  "cli_on_client_lost cl = Inr cl"

definition echo_cli_handlers :: "(echo_cb, unit, echo_hook, unit) cli_handlers" where
  "echo_cli_handlers =
     \<lparr>cli_message = (\<lambda>cb data len msgid conn u. case cb of Callback_Busi \<Rightarrow> cli_callback_busi data len msgid | Print_Busi \<Rightarrow> cli_print_busi data len msgid),
      cli_hook = (\<lambda>h. case h of On_Client_Build \<Rightarrow> cli_on_client_build | On_Client_Lost \<Rightarrow> cli_on_client_lost)\<rparr>"

definition echo_cli_routes :: "(echo_cb, unit) msg_router" where
  "echo_cli_routes =
     snd (register_msg_router 404 Print_Busi () (snd (register_msg_router 200 Print_Busi () (snd (register_msg_router 2 Callback_Busi ()
       (snd (register_msg_router 1 Print_Busi () msg_router_new)))))))"

definition echo_cli_main :: "buf_pool \<Rightarrow> int \<Rightarrow> int set \<Rightarrow> int \<Rightarrow> connect_ans \<Rightarrow> int \<Rightarrow> echo_client res" where
  "echo_cli_main pool epfd fds sock ans result =
     bindR (event_loop_create epfd) (\<lambda>loop.
     bindR (tcp_client_new echo_cli_handlers pool loop fds () ''127.0.0.1'' 7777 sock ans result) (\<lambda>client.
     (let client = client_add_msg_router 1 Print_Busi () client;
          client = client_add_msg_router 2 Callback_Busi () client;
          client = client_add_msg_router 200 Print_Busi () client;
          client = client_add_msg_router 404 Print_Busi () client in
      Inr (client_set_conn_close On_Client_Lost (client_set_conn_start On_Client_Build client)))))"

section \<open>The reactions\<close>

definition srv_routes :: "(echo_cb, unit) msg_router" where
  "srv_routes = snd (register_msg_router 2 Print_Busi () (snd (register_msg_router 1 Callback_Busi () msg_router_new)))"

lemma srv_routes_entries: "mr_router srv_routes m = (if m = 1 then Some Callback_Busi else if m = 2 then Some Print_Busi else None)"
  by (simp add: srv_routes_def register_msg_router_def msg_router_new_def)

lemma cli_routes_entries:
  "mr_router echo_cli_routes m = (if m = 2 then Some Callback_Busi else if m = 1 \<or> m = 200 \<or> m = 404 then Some Print_Busi else None)"
  by (simp add: echo_cli_routes_def register_msg_router_def msg_router_new_def)

text \<open>A message with the number \<open>k\<close> is sent back, any other has no reply.\<close>

definition echo_react :: "i32 \<Rightarrow> 'x reaction" where
  "echo_react k m x = Inr (if fst m = k then Some m else None, x)"

lemma reacts_echo: "reacts (echo_react k) ms x = Inr (filter (\<lambda>m. fst m = k) ms, x)"
  by (induction ms) (simp_all add: echo_react_def)

interpretation echo_conns: reply_server srv_handlers p fd l srv_routes "echo_react 1" "Some On_Client_Lost" "\<lambda>x. x" for p fd l
proof unfold_locales
  fix ss :: echo_server and d :: "bytes option" and body msgid reply x
  assume a: "reading p fd l srv_routes ss" "d = Some body \<or> d = None \<and> body = []" "echo_react 1 (msgid, body) (ss_app ss) = Inr (reply, x)"
  have "(case d of None \<Rightarrow> [] | Some bs \<Rightarrow> bs) = body" "ss_router ss = srv_routes" using a(1,2) by (auto simp: reading_def)
  then show "conn_call srv_handlers p msgid (of_nat (length body)) d ss = send_reply p reply (ss\<lparr>ss_app := x\<rparr>)"
    using a(3) by (auto simp: conn_call_def router_call_def srv_routes_entries srv_handlers_def echo_react_def srv_callback_busi_def srv_print_busi_def send_reply_def)
qed (simp add: run_hook_def srv_handlers_def srv_on_client_lost_def)

interpretation echo_cli: reply_client echo_cli_handlers fd echo_cli_routes "echo_react 2" for fd
proof unfold_locales
  fix cl :: echo_client and d :: "bytes option" and body msgid reply x
  assume a: "cl_reading fd echo_cli_routes cl" "d = Some body \<or> d = None \<and> body = []" "echo_react 2 (msgid, body) (cl_app cl) = Inr (reply, x)"
  have "(case d of None \<Rightarrow> [] | Some bs \<Rightarrow> bs) = body" "cl_router cl = echo_cli_routes" using a(1,2) by (auto simp: cl_reading_def)
  moreover have app: "cl\<lparr>cl_app := y\<rparr> = cl" for y by (cases cl) simp
  ultimately show "client_call echo_cli_handlers msgid (of_nat (length body)) d cl = client_reply reply (cl\<lparr>cl_app := x\<rparr>)"
    unfolding app using a(3) by (auto simp: client_call_def router_call_def cli_routes_entries echo_cli_handlers_def echo_react_def cli_callback_busi_def cli_print_busi_def client_reply_def)
qed

section \<open>Properties\<close>

text \<open>A new client is greeted, and the task for all connections is queued for every worker.\<close>

lemma echo_conn_open:
  assumes inv: "bufs_ok ss" "ss_loops ss l = Some lp" "loop_inv lp" "0 \<le> fd" "fd < int (length (ss_conns ss))"
    and srv: "ss_conn_start_cb ss = Some On_Client_Build" and pool: "send_task (Task 0) 0 (ea_pool (ss_app ss)) = Inr tp"
  shows "case tcp_conn_new srv_handlers fd l ss of
      Inl e \<Rightarrow> e = Exit_1
    | Inr (p, ss') \<Rightarrow> p = ss_next ss \<and> out_inv p fd l (ss_sent ss fd @ frame welcome_msg) ss' \<and> slot_bytes ss' (p, Out) = frame welcome_msg \<and>
        slot ss' (p, In) = None \<and> ea_pool (ss_app ss') = tp \<and> ss_router ss' = ss_router ss \<and> ss_conn_close_cb ss' = ss_conn_close_cb ss \<and>
        ss_conns ss' = (ss_conns ss)[nat fd := Some (Some p)]"
proof -
  let ?p = "ss_next ss" and ?w = "with_conn fd l ss"
  note w = with_conn_out [OF inv]
  have o: "slot_bytes ?w (?p, Out) = []" "slot ?w (?p, In) = None" using w(2) by (simp_all add: slot_bytes_def)
  have app: "ss_app ?w = ss_app ss" "ss_conn_start_cb ?w = Some On_Client_Build" "ss_router ?w = ss_router ss" "ss_conn_close_cb ?w = ss_conn_close_cb ss" "ss_conns ?w = ss_conns ss"
    using srv by (simp_all add: with_conn_def)
  have len: "length (snd welcome_msg) = 23" by (simp add: welcome_msg_def chars_def)
  note send = conn_send_message_out [OF w(1), of "snd welcome_msg" "fst welcome_msg", unfolded len o(1), simplified]
  have hook: "run_hook srv_handlers (ss_conn_start_cb ss) ?p ?w = srv_on_client_build ?p ?w" by (simp add: srv run_hook_def srv_handlers_def)
  show ?thesis
  proof (cases "conn_send_message (snd welcome_msg) 23 (fst welcome_msg) ?p ?w")
    case (Inl e)
    then have "run_hook srv_handlers (ss_conn_start_cb ss) ?p ?w = Inl e" unfolding hook srv_on_client_build_def len by simp
    then show ?thesis using send Inl tcp_conn_new_fails by fastforce
  next
    case (Inr x)
    obtain ret s1 where x: "x = (ret, s1)" by (cases x)
    have s1: "out_inv ?p fd l (ss_sent ss fd @ frame welcome_msg) s1" "slot_bytes s1 (?p, Out) = frame welcome_msg" using send Inr x by simp_all
    have live: "bufs_ok ?w" "conn_live ?p fd l ?w" using w(1) by (simp_all add: out_inv_def)
    have k: "kept ?p ?w s1" "ss_app s1 = ss_app ss" using send_message_kept [OF live Inr [unfolded x]] app(1) by simp_all
    have cb: "ss_conn_close_cb s1 = ss_conn_close_cb ss" using send_keeps_hooks [OF Inr [unfolded x]] app(4) by simp
    let ?a = "(ss_app ss)\<lparr>ea_pool := tp, ea_param := (ea_param (ss_app ss))(?p \<mapsto> ''I am the conn param for you!'')\<rparr>"
    let ?s = "s1\<lparr>ss_app := ?a\<rparr>"
    have run: "run_hook srv_handlers (ss_conn_start_cb ss) ?p ?w = Inr ?s"
      unfolding hook srv_on_client_build_def len using Inr x k(2) pool by simp
    have "out_inv ?p fd l (ss_sent ss fd @ frame welcome_msg) ?s" using s1(1) by (simp add: out_inv_app)
    then obtain s2 where s2: "tcp_conn_new srv_handlers fd l ss = Inr (?p, s2)"
        "out_inv ?p fd l (ss_sent ss fd @ frame welcome_msg) s2" "slot s2 = slot ?s" "slot_bytes s2 = slot_bytes ?s" "ss_app s2 = ss_app ?s"
        "ss_router s2 = ss_router ?s" "ss_conn_close_cb s2 = ss_conn_close_cb ?s" "ss_conns s2 = (ss_conns ?s)[nat fd := Some (Some ?p)]"
      by (rule tcp_conn_new_sends [OF run])
    note same = bufs_ok_cong [of ?s s1]
    have "slot s2 (?p, In) = None" "slot_bytes s2 (?p, Out) = frame welcome_msg" using s2(3,4) same(2,4) k(1) o(2) s1(2) by (simp_all add: kept_def)
    then show ?thesis using s2 k(1) cb app by (simp add: kept_def)
  qed
qed


text \<open>The server with three workers, after \<open>main\<close>; a client sends one message to be printed and one to be echoed.\<close>

definition echo_pool :: "(io_cb, ptr) thread_pool" where
  "echo_pool = (case thread_pool_new 3 [10, 11, 12] [0, 0, 0] of Inl _ \<Rightarrow> \<lparr>tp_queues = [], tp_thread_cnt = 0, tp_index = 0\<rparr> | Inr tp \<Rightarrow> tp)"

definition echo_boot :: echo_server where
  "echo_boot = \<lparr>ss_pool = boot_pool, ss_loops = [1 \<mapsto> event_loop_new], ss_heap = Map.empty, ss_next = 0, ss_conns = replicate 10 None, ss_curr_conns = 0,
     ss_max_conns = 5, ss_router = srv_routes, ss_conn_start_cb = Some On_Client_Build, ss_conn_close_cb = Some On_Client_Lost, ss_open = {7},
     ss_sent = (\<lambda>_. []), ss_app = \<lparr>ea_pool = echo_pool, ea_param = Map.empty\<rparr>\<rparr>"


text \<open>
  The loop of a worker also watches the queue of the worker, whose descriptor is not that of a connection. \<open>print_lars_task\<close> looks it up in \<open>conns\<close> all the same, where nothing has
  been written for it: whenever the task runs in a worker, it reads an uninitialised pointer, or fails before it gets there.
\<close>

lemma send_keeps_conns: "conn_send_message data len msgid p ss = Inr (ret, ss') \<Longrightarrow> ss_conns ss' = ss_conns ss"
  by (auto simp: conn_send_message_def on_loop_def Let_def bindR_eq_Inr split: if_splits)

lemma print_fds_fault:
  assumes "fd \<in> set fds" "conn_at fd ss = Inl Uninitialised"
  shows "\<exists>f. print_fds fds ss = Inl f"
  using assms
proof (induction fds arbitrary: ss)
  case (Cons fd' fds)
  show ?case
  proof (cases "print_fds (fd' # fds) ss")
    case (Inr ss')
    obtain conn s1 where c: "conn_at fd' ss = Inr conn" and s1: "print_fds fds s1 = Inr ss'"
      and send: "(case conn of None \<Rightarrow> Inr ss | Some p \<Rightarrow> bindR (conn_send_message (chars ''Hello I am a Task!'') 18 404 p ss) (\<lambda>(_, ss). Inr ss)) = Inr s1"
      using Inr by (auto simp: bindR_eq_Inr)
    have "fd \<in> set fds" using Cons.prems c by auto
    moreover have "conn_at fd s1 = conn_at fd ss" using send by (auto simp: conn_at_def bindR_eq_Inr dest!: send_keeps_conns split: option.splits)
    ultimately show ?thesis using Cons.IH [of s1] Cons.prems(2) s1 by auto
  qed blast
qed simp

lemma worker_watches_queue:
  assumes "thread_main dt arg epfd l queue loops = Inr (queue', loops')" "loops' l = Some lp"
  shows "tq_evfd queue \<in> get_listen_fds lp"
proof -
  obtain l0 where "event_loop_create epfd = Inr l0" "Some lp = Some (add_io_event (tq_evfd queue) dt EPOLLIN arg l0)"
    using assms by (auto simp: thread_main_def tq_set_loop_def tq_set_callback_def Let_def bindR_eq_Inr)
  then show ?thesis using add_io_event_shape [OF loop_inv_new, of "tq_evfd queue" dt EPOLLIN arg] by (auto simp: event_loop_create_def get_listen_fds_def Let_def split: if_splits)
qed

theorem print_task_uninitialised:
  assumes "thread_main dt arg epfd l queue loops = Inr (queue', loops')" "loops' l = Some lp0" "ss_loops ss l = Some lp" "get_listen_fds lp0 \<subseteq> get_listen_fds lp"
    and "conn_at (tq_evfd queue) ss = Inl Uninitialised" "set (order (get_listen_fds lp)) = get_listen_fds lp"
  shows "\<exists>f. print_lars_task order l ss = Inl f"
proof -
  have "tq_evfd queue \<in> set (order (get_listen_fds lp))" using worker_watches_queue [OF assms(1,2)] assms(4,6) by blast
  from print_fds_fault [OF this assms(5)] show ?thesis using assms(3) by (simp add: print_lars_task_def)
qed

text \<open>The example client: what comes back with the number 2 is sent on, everything else is printed.\<close>

lemma echo_client_session:
  assumes "cl_out cl" "cl_sockfd cl = fd" "cl_router cl = echo_cli_routes"
    and "rb_head (cl_ibuf cl) (cl_pool cl) = 0" "0 < n" "n + int (length (unread_bytes cl)) \<le> 8388608"
      "sys_read (nat n) as = Inr (Rd bs)" "length bs = nat n" "parse_frames (unread_bytes cl @ bs) = (ms, rest, Incomplete)"
    and "length (pending cl) + length (frames (filter (\<lambda>m. fst m = 2) ms)) \<le> 8388608"
  shows "case client_do_read echo_cli_handlers (Some n) as cl of
      Inl f \<Rightarrow> f = Exit_1 \<or> f = Assert_Failed \<and> empty_tail ms rest
    | Inr cl' \<Rightarrow> stream_of cl' = stream_of cl @ frames (filter (\<lambda>m. fst m = 2) ms) \<and> unread_bytes cl' = rest"
  using echo_cli.replies_sent [OF assms(1-9) reacts_echo assms(10)]
  by (cases "client_do_read echo_cli_handlers (Some n) as cl") auto

end
