(* ===== verification/Echo_Message.thy ===== *)
theory Echo_Message
  imports Protobuf Pb_Accessors
begin

text \<open>
  The message class of the benchmark programs, \<^verbatim>\<open>lars_reactor/example/qps_test/echoMessage.proto\<close> with the generated \<^verbatim>\<open>echoMessage.pb.h\<close> and \<^verbatim>\<open>echoMessage.pb.cc\<close>: a string and
  a number. The primitives of the protobuf library for strings are the fields of \<open>string_wire\<close>, beside those of \<open>wire\<close>; \<open>strings_ok\<close> is their documented behaviour. A string that is not valid UTF-8
  is written all the same, and refused by the parser.
\<close>

section \<open>Model\<close>

record EchoMessage =
  em_content :: bytes
  em_id :: i32

text \<open>\<open>t_ReadString\<close> gets the old contents of the string, which a failure may leave changed.\<close>

record string_wire =
  t_ReadString :: "bytes \<Rightarrow> bytes \<Rightarrow> bool \<times> bytes \<times> bytes"
  t_VerifyUtf8String :: "bytes \<Rightarrow> bool"
  t_WriteString :: "nat \<Rightarrow> bytes \<Rightarrow> bytes"
  t_StringSize :: "bytes \<Rightarrow> nat"

definition EchoMessage_default :: EchoMessage where
  "EchoMessage_default = \<lparr>em_content = [], em_id = 0\<rparr>"

text \<open>\<open>DO_(ReadString(input, mutable_content()))\<close> and \<open>DO_(VerifyUtf8String(content()))\<close>.\<close>

definition EchoMessage_read_content :: "string_wire \<Rightarrow> bytes \<Rightarrow> EchoMessage \<Rightarrow> bool \<times> EchoMessage \<times> bytes" where
  "EchoMessage_read_content T bs m =
     (case t_ReadString T bs (em_content m) of (ok, content, bs) \<Rightarrow>
      (let m = m\<lparr>em_content := content\<rparr> in
       if \<not> ok then (False, m, bs) else if t_VerifyUtf8String T content then (True, m, bs) else (False, m, bs)))"

definition EchoMessage_switch :: "wire \<Rightarrow> string_wire \<Rightarrow> u32 \<Rightarrow> bytes \<Rightarrow> EchoMessage \<Rightarrow> bool \<times> EchoMessage \<times> bytes" where
  "EchoMessage_switch W T tag bs m =
     (if field_is 1 10 tag then EchoMessage_read_content T bs m
      else if field_is 2 16 tag then read_prim (w_ReadInt32 W) (\<lambda>v. em_id_update (\<lambda>_. v)) bs m
      else skip_field W tag bs m)"

definition EchoMessage_MergePartial :: "wire \<Rightarrow> string_wire \<Rightarrow> bytes \<Rightarrow> EchoMessage \<Rightarrow> bool \<times> EchoMessage" where
  "EchoMessage_MergePartial W T bs m = merge_loop W (EchoMessage_switch W T) (Suc (length bs)) bs m"

definition EchoMessage_Parse :: "wire \<Rightarrow> string_wire \<Rightarrow> bytes \<Rightarrow> bool \<times> EchoMessage" where
  "EchoMessage_Parse W T bs = EchoMessage_MergePartial W T bs EchoMessage_default"

definition EchoMessage_ByteSizeLong :: "wire \<Rightarrow> string_wire \<Rightarrow> EchoMessage \<Rightarrow> nat" where
  "EchoMessage_ByteSizeLong W T m =
     (if 0 < length (em_content m) then 1 + t_StringSize T (em_content m) else 0) +
     (if em_id m \<noteq> 0 then 1 + w_Int32Size W (em_id m) else 0)"

definition EchoMessage_Serialize :: "wire \<Rightarrow> string_wire \<Rightarrow> EchoMessage \<Rightarrow> bytes" where
  "EchoMessage_Serialize W T m =
     (if 0 < length (em_content m) then t_WriteString T 1 (em_content m) else []) @
     (if em_id m \<noteq> 0 then w_WriteInt32 W 2 (em_id m) else [])"

definition EchoMessage_MergeFrom :: "EchoMessage \<Rightarrow> EchoMessage \<Rightarrow> EchoMessage" where
  "EchoMessage_MergeFrom src m =
     (let m = (if 0 < length (em_content src) then m\<lparr>em_content := em_content src\<rparr> else m) in
      if em_id src \<noteq> 0 then m\<lparr>em_id := em_id src\<rparr> else m)"

definition EchoMessage_Clear :: "EchoMessage \<Rightarrow> EchoMessage" where
  "EchoMessage_Clear m = m\<lparr>em_content := [], em_id := 0\<rparr>"

definition EchoMessage_CopyFrom :: "EchoMessage \<Rightarrow> EchoMessage \<Rightarrow> EchoMessage" where
  "EchoMessage_CopyFrom src m = EchoMessage_MergeFrom src (EchoMessage_Clear m)"

definition EchoMessage_copy :: "EchoMessage \<Rightarrow> EchoMessage" where
  "EchoMessage_copy src =
     (let m = \<lparr>em_content = [], em_id = 0\<rparr>; m = (if 0 < length (em_content src) then m\<lparr>em_content := em_content src\<rparr> else m) in
      m\<lparr>em_id := em_id src\<rparr>)"

definition EchoMessage_InternalSwap :: "EchoMessage \<times> EchoMessage \<Rightarrow> EchoMessage \<times> EchoMessage" where
  "EchoMessage_InternalSwap = (\<lambda>(m, other).
     (m\<lparr>em_content := em_content other, em_id := em_id other\<rparr>, other\<lparr>em_content := em_content m, em_id := em_id m\<rparr>))"

definition EchoMessage_Swap :: "bool \<Rightarrow> EchoMessage \<times> EchoMessage \<Rightarrow> EchoMessage \<times> EchoMessage" where
  "EchoMessage_Swap same ms = (if same then ms else EchoMessage_InternalSwap ms)"

definition EchoMessage_move :: "bool \<Rightarrow> EchoMessage \<times> EchoMessage \<Rightarrow> EchoMessage \<times> EchoMessage" where
  "EchoMessage_move same ms = (if \<not> same then EchoMessage_InternalSwap ms else ms)"

definition EchoMessage_clear_content :: "EchoMessage \<Rightarrow> EchoMessage" where
  "EchoMessage_clear_content m = m\<lparr>em_content := []\<rparr>"

definition EchoMessage_set_content :: "bytes \<Rightarrow> EchoMessage \<Rightarrow> EchoMessage" where
  "EchoMessage_set_content value m = m\<lparr>em_content := value\<rparr>"

definition EchoMessage_clear_id :: "EchoMessage \<Rightarrow> EchoMessage" where
  "EchoMessage_clear_id m = m\<lparr>em_id := 0\<rparr>"

definition EchoMessage_set_id :: "i32 \<Rightarrow> EchoMessage \<Rightarrow> EchoMessage" where
  "EchoMessage_set_id value m = m\<lparr>em_id := value\<rparr>"

section \<open>Accessors\<close>

lemmas EchoMessage_accessors = EchoMessage_clear_content_def EchoMessage_set_content_def EchoMessage_clear_id_def EchoMessage_set_id_def

interpretation EchoMessage_content_field: pb_field em_content EchoMessage_set_content EchoMessage_clear_content "[]"
  by unfold_locales (simp_all add: EchoMessage_accessors)

interpretation EchoMessage_id_field: pb_field em_id EchoMessage_set_id EchoMessage_clear_id 0
  by unfold_locales (simp_all add: EchoMessage_accessors)

lemma EchoMessage_copies: "EchoMessage_CopyFrom src m = src" "EchoMessage_copy src = src" "EchoMessage_Clear m = EchoMessage_default"
  by (cases src; cases m; simp add: EchoMessage_CopyFrom_def EchoMessage_MergeFrom_def EchoMessage_Clear_def EchoMessage_copy_def EchoMessage_default_def Let_def)+

lemma EchoMessage_swaps: "EchoMessage_InternalSwap (m, other) = (other, m)"
  by (cases m; cases other) (simp add: EchoMessage_InternalSwap_def)

section \<open>The documented behaviour of string fields\<close>

definition strings_ok :: "wire \<Rightarrow> string_wire \<Rightarrow> bool" where
  "strings_ok W T \<longleftrightarrow>
     (\<forall>n s old. 0 < n \<and> n < 16 \<and> length s < 2 ^ 31 \<longrightarrow>
        (\<forall>rest. \<exists>xs. w_ReadTag W (t_WriteString T n s @ rest) = (of_nat (8 * n + 2), False, xs) \<and> t_ReadString T xs old = (True, s, rest)) \<and>
        length (t_WriteString T n s) = 1 + t_StringSize T s \<and> t_StringSize T s \<le> length s + 5)"

locale string_format = wire_format +
  fixes T :: string_wire
  assumes strings: "strings_ok W T"
begin

lemma string_law:
  assumes "0 < n" "n < 16" "length s < 2 ^ 31"
  shows "\<exists>xs. w_ReadTag W (t_WriteString T n s @ rest) = (of_nat (8 * n + 2), False, xs) \<and> t_ReadString T xs old = (True, s, rest)"
    "length (t_WriteString T n s) = 1 + t_StringSize T s" "t_StringSize T s \<le> length s + 5"
  using strings assms unfolding strings_ok_def by blast+

lemma EchoMessage_size: "length (em_content m) < 2 ^ 31 \<Longrightarrow> EchoMessage_ByteSizeLong W T m = length (EchoMessage_Serialize W T m)"
  by (simp add: EchoMessage_ByteSizeLong_def EchoMessage_Serialize_def string_law int32_law)

lemma EchoMessage_bound: "length (em_content m) < 2 ^ 31 \<Longrightarrow> length (EchoMessage_Serialize W T m) \<le> length (em_content m) + 17"
  using size_law(1) [of "em_id m"] string_law(3) [of 1 "em_content m"] by (auto simp: EchoMessage_size [symmetric] EchoMessage_ByteSizeLong_def)

lemma consumes_content:
  assumes "length s < 2 ^ 31" "t_VerifyUtf8String T s" "em_content m = []"
  shows "consumes W (EchoMessage_switch W T) (if 0 < length s then t_WriteString T 1 s else []) m (m\<lparr>em_content := s\<rparr>)"
proof (cases "s = []")
  case True
  then show ?thesis using assms(3) by (cases m) (simp add: consumes_Nil)
next
  case False
  have ne: "t_WriteString T 1 s \<noteq> []" using string_law(2) [of 1 s] assms(1) by auto
  have rd: "reads_field W (t_WriteString T 1 s) 10 (\<lambda>xs. case t_ReadString T xs [] of (ok, v, rest) \<Rightarrow> if ok then Some (v, rest) else None) s"
    unfolding reads_field_def
  proof
    fix rest
    from string_law(1) [of 1 s rest "[]"] assms(1)
    show "\<exists>xs. w_ReadTag W (t_WriteString T 1 s @ rest) = (of_nat 10, False, xs) \<and>
        (case t_ReadString T xs [] of (ok, v, rest) \<Rightarrow> if ok then Some (v, rest) else None) = Some (s, rest)" by fastforce
  qed
  have sw: "EchoMessage_switch W T (of_nat 10) xs m = (True, m\<lparr>em_content := s\<rparr>, rest)"
    if "(case t_ReadString T xs [] of (ok, v, rest) \<Rightarrow> if ok then Some (v, rest) else None) = Some (s, rest)" for xs rest
    using that assms(2,3) by (auto simp: EchoMessage_switch_def field_is_def EchoMessage_read_content_def Let_def split: prod.splits if_splits)
  have "consumes W (EchoMessage_switch W T) (t_WriteString T 1 s) m (m\<lparr>em_content := s\<rparr>)"
    by (rule consumes_field [OF rd _ ne]) (simp, rule sw)
  then show ?thesis using False by simp
qed

lemma EchoMessage_parse:
  assumes "length (em_content m) < 2 ^ 31" "t_VerifyUtf8String T (em_content m)"
  shows "EchoMessage_Parse W T (EchoMessage_Serialize W T m) = (True, m)"
proof -
  let ?c = "consumes W (EchoMessage_switch W T)" and ?m = "EchoMessage_default\<lparr>em_content := em_content m\<rparr>"
  have "?c (if 0 < length (em_content m) then t_WriteString T 1 (em_content m) else []) EchoMessage_default ?m"
    by (rule consumes_content [OF assms]) (simp add: EchoMessage_default_def)
  moreover have "?c (if em_id m \<noteq> 0 then w_WriteInt32 W 2 (em_id m) else []) ?m (?m\<lparr>em_id := em_id m\<rparr>)"
    by (rule consumes_int32 [where upd = "\<lambda>v. em_id_update (\<lambda>_. v)"]) (simp_all add: EchoMessage_switch_def field_is_def EchoMessage_default_def)
  ultimately have "?c (EchoMessage_Serialize W T m) EchoMessage_default (?m\<lparr>em_id := em_id m\<rparr>)"
    unfolding EchoMessage_Serialize_def by (rule consumes_append)
  from consumes_all [OF this] show ?thesis by (simp add: EchoMessage_Parse_def EchoMessage_MergePartial_def EchoMessage_default_def)
qed

end

text \<open>The documented encoding of strings, with the UTF-8 test left to \<open>valid\<close>.\<close>

definition strings128 :: "(bytes \<Rightarrow> bool) \<Rightarrow> string_wire" where
  "strings128 valid =
     \<lparr>t_ReadString = (\<lambda>bs old. case w_OpenMessage base128 bs of None \<Rightarrow> (False, old, bs) | Some (s, rest) \<Rightarrow> (True, s, rest)),
      t_VerifyUtf8String = valid,
      t_WriteString = (\<lambda>n s. w_WriteMessage base128 n (length s) s),
      t_StringSize = (\<lambda>s. w_LengthDelimitedSize base128 (length s))\<rparr>"

lemma strings128_ok: "strings_ok base128 (strings128 valid)"
  unfolding strings_ok_def
proof (intro allI impI conjI)
  fix n :: nat and s rest old :: bytes
  assume n: "0 < n \<and> n < 16 \<and> length s < 2 ^ 31"
  note law = b128.message_law [of n s]
  show "\<exists>xs. w_ReadTag base128 (t_WriteString (strings128 valid) n s @ rest) = (of_nat (8 * n + 2), False, xs) \<and> t_ReadString (strings128 valid) xs old = (True, s, rest)"
    using law(1) n unfolding reads_field_def strings128_def by fastforce
  show "length (t_WriteString (strings128 valid) n s) = 1 + t_StringSize (strings128 valid) s" "t_StringSize (strings128 valid) s \<le> length s + 5"
    using law(2,3) n by (simp_all add: strings128_def)
qed

interpretation echo128: string_format base128 "strings128 valid" for valid
  by unfold_locales (rule strings128_ok)

end
