(* ===== verification/Qps_Test.thy ===== *)
theory Qps_Test
  imports Echo_Server Echo_Message C_Strings
begin

text \<open>
  The benchmark of the reactor, \<^verbatim>\<open>lars_reactor/example/qps_test/server.cpp\<close> and \<^verbatim>\<open>client.cpp\<close>: the client sends a numbered message, the server parses it and sends its contents back, and the client counts the
  answer and sends the next number. Both are instances of the contracts for replies; the property follows one message around.
\<close>

section \<open>Model\<close>

datatype qps_cb = Qps_Busi
datatype qps_hook = Qps_Client_Build

type_synonym qps_server = "(qps_cb, unit, qps_hook, unit) server_state"

definition echo_reply :: "EchoMessage \<Rightarrow> EchoMessage" where
  "echo_reply request = EchoMessage_set_content (em_content request) (EchoMessage_set_id (em_id request) EchoMessage_default)"

text \<open>\<open>callback_busi\<close> of the server. The result of \<open>ParseFromArray\<close> is ignored.\<close>

definition qps_callback_busi :: "wire \<Rightarrow> string_wire \<Rightarrow> bytes option \<Rightarrow> i32 \<Rightarrow> ptr \<Rightarrow> qps_server \<Rightarrow> qps_server res" where
  "qps_callback_busi W T data msgid conn ss =
     (let request = snd (EchoMessage_Parse W T (case data of None \<Rightarrow> [] | Some bs \<Rightarrow> bs));
          responseString = EchoMessage_Serialize W T (echo_reply request) in
      bindR (conn_send_message responseString (of_nat (length responseString)) msgid conn ss) (\<lambda>(_, ss). Inr ss))"

definition qps_srv_handlers :: "wire \<Rightarrow> string_wire \<Rightarrow> (qps_cb, unit, qps_hook, unit) handlers" where
  "qps_srv_handlers W T = \<lparr>on_message = (\<lambda>cb data len msgid conn u. qps_callback_busi W T data msgid conn), on_hook = (\<lambda>h conn. Inr)\<rparr>"

definition qps_routes :: "(qps_cb, unit) msg_router" where
  "qps_routes = snd (register_msg_router 1 Qps_Busi () msg_router_new)"

definition qps_srv_main ::
  "config_file \<Rightarrow> int \<Rightarrow> int \<Rightarrow> int \<Rightarrow> int list \<Rightarrow> int list \<Rightarrow> ptr \<Rightarrow> ptr \<Rightarrow> qps_server \<Rightarrow> (tcp_server \<times> qps_server) res" where
  "qps_srv_main cfg sockfd bind_ret listen_ret evfds created self loop ss =
     bindR (tcp_server_new sockfd bind_ret listen_ret (sint (GetNumber ''reactor'' ''threadNum'' 3 cfg)) (sint (GetNumber ''reactor'' ''maxConn'' 1000 cfg))
       evfds created self loop ss) (\<lambda>(server, ss).
     Inr (server, add_msg_router 1 Qps_Busi () ss))"

record Qps =
  last_time :: int
  succ_cnt :: int

definition Qps_new :: "int \<Rightarrow> Qps" where
  "Qps_new now = \<lparr>last_time = now, succ_cnt = 0\<rparr>"

type_synonym qps_client = "(qps_cb, unit, qps_hook, Qps) client_state"

definition qps_content :: bytes where
  "qps_content = chars ''QPS test!''"

text \<open>The statistics of \<open>qps_busi\<close>: the answer is counted, and every second the counter, an \<open>int\<close>, is printed and starts again.\<close>

definition qps_count :: "int \<Rightarrow> EchoMessage \<Rightarrow> Qps \<Rightarrow> Qps res" where
  "qps_count current_time response qps =
     bindR (if em_content response = qps_content then bindR (add_i32 (succ_cnt qps) 1) (\<lambda>n. Inr (qps\<lparr>succ_cnt := n\<rparr>)) else Inr qps) (\<lambda>qps.
     Inr (if 1 \<le> current_time - last_time qps then qps\<lparr>last_time := current_time, succ_cnt := 0\<rparr> else qps))"

definition qps_busi :: "wire \<Rightarrow> string_wire \<Rightarrow> int \<Rightarrow> bytes option \<Rightarrow> i32 \<Rightarrow> qps_client \<Rightarrow> qps_client res" where
  "qps_busi W T now data msgid cl =
     (case EchoMessage_Parse W T (case data of None \<Rightarrow> [] | Some bs \<Rightarrow> bs) of (ok, response) \<Rightarrow>
      if \<not> ok then Inr cl
      else
        bindR (qps_count now response (cl_app cl)) (\<lambda>qps.
        bindR (add_i32 (sint (em_id response)) 1) (\<lambda>next.
        (let request = EchoMessage_set_content (em_content response) (EchoMessage_set_id (word_of_int next) EchoMessage_default);
             requestString = EchoMessage_Serialize W T request in
         bindR (client_send_message requestString (of_nat (length requestString)) msgid (cl\<lparr>cl_app := qps\<rparr>)) (\<lambda>(_, cl). Inr cl)))))"

definition qps_on_client_build :: "wire \<Rightarrow> string_wire \<Rightarrow> qps_client \<Rightarrow> qps_client res" where
  "qps_on_client_build W T cl =
     (let request = EchoMessage_set_content qps_content (EchoMessage_set_id 1 EchoMessage_default);
          requestString = EchoMessage_Serialize W T request in
      bindR (client_send_message requestString (of_nat (length requestString)) 1 cl) (\<lambda>(_, cl). Inr cl))"

definition qps_cli_handlers :: "wire \<Rightarrow> string_wire \<Rightarrow> int \<Rightarrow> (qps_cb, unit, qps_hook, Qps) cli_handlers" where
  "qps_cli_handlers W T now =
     \<lparr>cli_message = (\<lambda>cb data len msgid conn u. qps_busi W T now data msgid), cli_hook = (\<lambda>h. qps_on_client_build W T)\<rparr>"

text \<open>\<open>thread_main\<close> up to \<open>event_process\<close>. The constructor has already connected: the hook is set too late for a connection that is established at once.\<close>

definition qps_thread_main :: "wire \<Rightarrow> string_wire \<Rightarrow> int \<Rightarrow> buf_pool \<Rightarrow> client_loop \<Rightarrow> int set \<Rightarrow> int \<Rightarrow> connect_ans \<Rightarrow> int \<Rightarrow> qps_client res" where
  "qps_thread_main W T now pool loop fds sock ans result =
     bindR (tcp_client_new (qps_cli_handlers W T now) pool loop fds (Qps_new now) ''127.0.0.1'' 7777 sock ans result) (\<lambda>cl.
     Inr (client_set_conn_start Qps_Client_Build (client_add_msg_router 1 Qps_Busi () cl)))"

text \<open>\<open>main\<close> of the client, up to the start of the threads: their number. Without an argument it prints a usage line and goes on, to read the null pointer behind the last argument.\<close>

definition qps_client_main :: "string list \<Rightarrow> nat res" where
  "qps_client_main argv =
     bindR (ensure (1 < length argv) Null_Deref) (\<lambda>_.
     (let thread_num = sint (atoi (argv ! 1)) in
      bindR (ensure (0 \<le> thread_num) Out_Of_Bounds) (\<lambda>_. Inr (nat thread_num))))"

section \<open>The reactions\<close>

definition qps_srv_react :: "wire \<Rightarrow> string_wire \<Rightarrow> 'x reaction" where
  "qps_srv_react W T m x = Inr (if fst m = 1 then Some (1, EchoMessage_Serialize W T (snd (EchoMessage_Parse W T (snd m)))) else None, x)"

definition qps_cli_react :: "wire \<Rightarrow> string_wire \<Rightarrow> int \<Rightarrow> Qps reaction" where
  "qps_cli_react W T now m qps =
     (if fst m = 1 then
        (case EchoMessage_Parse W T (snd m) of (ok, response) \<Rightarrow>
         if \<not> ok then Inr (None, qps)
         else bindR (qps_count now response qps) (\<lambda>qps. bindR (add_i32 (sint (em_id response)) 1) (\<lambda>next.
           Inr (Some (1, EchoMessage_Serialize W T (response\<lparr>em_id := word_of_int next\<rparr>)), qps))))
      else Inr (None, qps))"

lemma qps_routes_entries: "mr_router qps_routes m = (if m = 1 then Some Qps_Busi else None)"
  by (simp add: qps_routes_def register_msg_router_def msg_router_new_def)

lemma echo_reply_same: "echo_reply m = m"
  by (cases m) (simp add: echo_reply_def EchoMessage_accessors EchoMessage_default_def)

interpretation qps_srv: reply_server "qps_srv_handlers W T" p fd l qps_routes "qps_srv_react W T" None "\<lambda>x. x" for W T p fd l
proof unfold_locales
  fix ss :: qps_server and d :: "bytes option" and body msgid reply x
  assume a: "reading p fd l qps_routes ss" "d = Some body \<or> d = None \<and> body = []" "qps_srv_react W T (msgid, body) (ss_app ss) = Inr (reply, x)"
  have "(case d of None \<Rightarrow> [] | Some bs \<Rightarrow> bs) = body" "ss_router ss = qps_routes" using a(1,2) by (auto simp: reading_def)
  moreover have app: "ss\<lparr>ss_app := y\<rparr> = ss" for y by (cases ss) simp
  ultimately show "conn_call (qps_srv_handlers W T) p msgid (of_nat (length body)) d ss = send_reply p reply (ss\<lparr>ss_app := x\<rparr>)"
    unfolding app using a(3)
    by (auto simp: conn_call_def router_call_def qps_routes_entries qps_srv_handlers_def qps_srv_react_def qps_callback_busi_def send_reply_def echo_reply_same Let_def)
qed (simp add: run_hook_def)

interpretation qps_cli: reply_client "qps_cli_handlers W T now" fd qps_routes "qps_cli_react W T now" for W T now fd
proof unfold_locales
  fix cl :: qps_client and d :: "bytes option" and body msgid reply x
  assume a: "cl_reading fd qps_routes cl" "d = Some body \<or> d = None \<and> body = []" "qps_cli_react W T now (msgid, body) (cl_app cl) = Inr (reply, x)"
  have b: "(case d of None \<Rightarrow> [] | Some bs \<Rightarrow> bs) = body" "cl_router cl = qps_routes" using a(1,2) by (auto simp: cl_reading_def)
  obtain ok response where p: "EchoMessage_Parse W T body = (ok, response)" by fastforce
  have set: "EchoMessage_set_content (em_content response) (EchoMessage_set_id v EchoMessage_default) = response\<lparr>em_id := v\<rparr>" for v
    by (cases response) (simp add: EchoMessage_accessors EchoMessage_default_def)
  show "client_call (qps_cli_handlers W T now) msgid (of_nat (length body)) d cl = client_reply reply (cl\<lparr>cl_app := x\<rparr>)"
  proof (cases "msgid = 1 \<and> ok")
    case True
    then show ?thesis using a(3) b p
      by (auto simp: client_call_def router_call_def qps_routes_entries qps_cli_handlers_def qps_cli_react_def qps_busi_def client_reply_def set Let_def bindR_eq_Inr)
  next
    case False
    moreover have "cl\<lparr>cl_app := cl_app cl\<rparr> = cl" by simp
    ultimately show ?thesis using a(3) b p
      by (auto simp: client_call_def router_call_def qps_routes_entries qps_cli_handlers_def qps_cli_react_def qps_busi_def client_reply_def split: if_splits)
  qed
qed

section \<open>The benchmark as a system\<close>

text \<open>
  One client and the server, connected by two byte streams: \<open>a\<close> bytes of the client's stream have been delivered to the server, and \<open>b\<close> bytes of the server's stream to the client. Any of the four
  handlers may run at any time, and the network may deliver what was written in pieces of any size. The clock of the client stands still.
\<close>

type_synonym qps_system = "qps_server \<times> qps_client \<times> nat \<times> nat"

inductive qps_step :: "wire \<Rightarrow> string_wire \<Rightarrow> int \<Rightarrow> ptr \<Rightarrow> int \<Rightarrow> int \<Rightarrow> qps_system \<Rightarrow> qps_system \<Rightarrow> bool" for W T now p fd cfd where
  client_writes: "no_error answers \<Longrightarrow> client_do_write (qps_cli_handlers W T now) answers cl = Inr cl' \<Longrightarrow> qps_step W T now p fd cfd (ss, cl, a, b) (ss, cl', a, b)"
| server_reads: "bs \<noteq> [] \<Longrightarrow> drop a (cl_sent cl cfd) = bs @ later \<Longrightarrow>
    conn_do_read (qps_srv_handlers W T) (Some (int (length bs))) [Rd bs] p ss = Inr ss' \<Longrightarrow> qps_step W T now p fd cfd (ss, cl, a, b) (ss', cl, a + length bs, b)"
| server_writes: "no_error answers \<Longrightarrow> conn_do_write (qps_srv_handlers W T) answers p ss = Inr ss' \<Longrightarrow> qps_step W T now p fd cfd (ss, cl, a, b) (ss', cl, a, b)"
| client_reads: "bs \<noteq> [] \<Longrightarrow> drop b (ss_sent ss fd) = bs @ later \<Longrightarrow>
    client_do_read (qps_cli_handlers W T now) (Some (int (length bs))) [Rd bs] cl = Inr cl' \<Longrightarrow> qps_step W T now p fd cfd (ss, cl, a, b) (ss, cl', a, b + length bs)"

text \<open>The message with the number \<open>k\<close>, and the first \<open>k\<close> messages.\<close>

definition qps_msg :: "wire \<Rightarrow> string_wire \<Rightarrow> nat \<Rightarrow> net_msg" where
  "qps_msg W T k = (1, EchoMessage_Serialize W T \<lparr>em_content = qps_content, em_id = of_nat k\<rparr>)"

fun qps_stream :: "wire \<Rightarrow> string_wire \<Rightarrow> nat \<Rightarrow> bytes" where
  "qps_stream W T 0 = []"
| "qps_stream W T (Suc k) = qps_stream W T k @ frame (qps_msg W T (Suc k))"

text \<open>
  After \<open>i\<close> answers have been counted and \<open>j\<close> messages have been echoed: the client has sent the messages \<open>1\<close> to \<open>i + 1\<close>, and both sides have only parts of the next message unread.
\<close>

definition srv_side :: "wire \<Rightarrow> string_wire \<Rightarrow> ptr \<Rightarrow> int \<Rightarrow> ptr \<Rightarrow> nat \<Rightarrow> bytes \<Rightarrow> qps_server \<Rightarrow> bool" where
  "srv_side W T p fd l j u ss \<longleftrightarrow>
     out_inv p fd l (qps_stream W T j) ss \<and> ss_router ss = qps_routes \<and> ss_conn_close_cb ss = None \<and> slot_head ss (p, In) = 0 \<and> slot_bytes ss (p, In) = u"

definition cli_side :: "wire \<Rightarrow> string_wire \<Rightarrow> int \<Rightarrow> int \<Rightarrow> nat \<Rightarrow> bytes \<Rightarrow> qps_client \<Rightarrow> bool" where
  "cli_side W T now cfd i v cl \<longleftrightarrow>
     cl_out cl \<and> cl_reading cfd qps_routes cl \<and> stream_of cl = qps_stream W T (Suc i) \<and> rb_head (cl_ibuf cl) (cl_pool cl) = 0 \<and> unread_bytes cl = v \<and>
     cl_app cl = \<lparr>last_time = now, succ_cnt = int i\<rparr>"

definition in_step :: "wire \<Rightarrow> string_wire \<Rightarrow> int \<Rightarrow> ptr \<Rightarrow> int \<Rightarrow> ptr \<Rightarrow> int \<Rightarrow> nat \<Rightarrow> nat \<Rightarrow> qps_system \<Rightarrow> bool" where
  "in_step W T now p fd l cfd i j s \<longleftrightarrow> (case s of (ss, cl, a, b) \<Rightarrow>
     i \<le> j \<and> j \<le> Suc i \<and> a \<le> length (cl_sent cl cfd) \<and> b \<le> length (ss_sent ss fd) \<and>
     (\<exists>u v. srv_side W T p fd l j u ss \<and> cli_side W T now cfd i v cl \<and>
       take a (qps_stream W T (Suc i)) = qps_stream W T j @ u \<and> take b (qps_stream W T j) = qps_stream W T i @ v))"

context string_format
begin

lemma qps_content_length: "length qps_content = 9"
  by (simp add: qps_content_def chars_def)

lemma qps_msg_length: "length (snd (qps_msg W T k)) \<le> 26"
  using EchoMessage_bound [of "\<lparr>em_content = qps_content, em_id = of_nat k\<rparr>"] by (simp add: qps_msg_def qps_content_length)

lemma qps_msg_short: "int (length (snd (qps_msg W T k))) \<le> MESSAGE_LENGTH_LIMIT"
  using qps_msg_length [of k] by (simp add: MESSAGE_LENGTH_LIMIT_def MESSAGE_HEAD_LEN_def)

lemma qps_msg_parse:
  assumes "t_VerifyUtf8String T qps_content"
  shows "EchoMessage_Parse W T (snd (qps_msg W T k)) = (True, \<lparr>em_content = qps_content, em_id = of_nat k\<rparr>)"
  using EchoMessage_parse [of "\<lparr>em_content = qps_content, em_id = of_nat k\<rparr>"] assms by (simp add: qps_msg_def qps_content_length)

lemma qps_msg_nonempty: "snd (qps_msg W T k) \<noteq> []"
proof -
  have "0 < EchoMessage_ByteSizeLong W T \<lparr>em_content = qps_content, em_id = of_nat k\<rparr>" by (simp add: EchoMessage_ByteSizeLong_def qps_content_length flip: length_greater_0_conv)
  then show ?thesis using EchoMessage_size [of "\<lparr>em_content = qps_content, em_id = of_nat k\<rparr>"] by (simp add: qps_msg_def qps_content_length)
qed

text \<open>What the parser finds in a part of the next message, and what the two programs make of it.\<close>

lemma next_part:
  assumes "xs @ ys = frame (qps_msg W T k)"
  shows "parse_frames xs = (if ys = [] then ([qps_msg W T k], [], Incomplete) else ([], xs, Incomplete))"
proof (cases "ys = []")
  case True
  have "parse_frames [] = ([], [], Incomplete)" by (simp add: parse_frames.simps)
  then show ?thesis using True assms parse_frames_concat [of "[qps_msg W T k]" "[]"] qps_msg_short by simp
next
  case False
  then show ?thesis using parse_frames_part [OF qps_msg_short assms [symmetric]] by simp
qed

lemma srv_reacts:
  assumes "t_VerifyUtf8String T qps_content"
  shows "reacts (qps_srv_react W T) [qps_msg W T k] x = Inr ([qps_msg W T k], x)"
  using qps_msg_parse [OF assms, of k] by (simp add: qps_srv_react_def) (simp add: qps_msg_def)

lemma cli_reacts:
  assumes "t_VerifyUtf8String T qps_content" "k < 2 ^ 31 - 1" "last_time x = now" "0 \<le> succ_cnt x" "succ_cnt x < int k"
  shows "reacts (qps_cli_react W T now) [qps_msg W T k] x = Inr ([qps_msg W T (Suc k)], x\<lparr>succ_cnt := succ_cnt x + 1\<rparr>)"
proof -
  have "sint (of_nat k :: i32) = int k" using assms(2) by (intro sint_of_nat_small) simp
  moreover have "add_i32 (int k) 1 = Inr (int k + 1)" "add_i32 (succ_cnt x) 1 = Inr (succ_cnt x + 1)" using assms(2,4,5) by (simp_all add: add_i32_def)
  moreover have "(word_of_int (int k + 1) :: i32) = of_nat (Suc k)" by simp
  ultimately show ?thesis
    using qps_msg_parse [OF assms(1), of k] assms(3) by (simp add: qps_cli_react_def qps_count_def Let_def) (simp add: qps_msg_def add.commute)
qed

text \<open>The four handlers, seen from one side.\<close>

lemma server_side_write:
  assumes "srv_side W T p fd l j u ss" "no_error answers" "conn_do_write hs answers p ss = Inr ss'"
  shows "srv_side W T p fd l j u ss' \<and> length (ss_sent ss fd) \<le> length (ss_sent ss' fd)"
proof -
  have out: "out_inv p fd l (qps_stream W T j) ss" using assms(1) by (simp add: srv_side_def)
  have "length (slot_bytes ss' (p, Out)) \<le> length (slot_bytes ss (p, Out))" "out_inv p fd l (qps_stream W T j) ss'"
    using conn_do_write_out [OF out assms(2), of hs] assms(3) by simp_all
  moreover from this out have "length (ss_sent ss' fd) + length (slot_bytes ss' (p, Out)) = length (ss_sent ss fd) + length (slot_bytes ss (p, Out))"
    unfolding out_inv_def by (metis length_append)
  moreover have "srv_side W T p fd l j u ss'"
    using out assms(3)
  proof (cases rule: conn_do_write_cases)
    case flushed
    then show ?thesis using assms(1) by (simp add: srv_side_def others_kept_def)
  next
    case (failed s0)
    then show ?thesis using assms(2) by simp
  qed
  ultimately show ?thesis by simp
qed

lemma client_side_write:
  assumes "cli_side W T now cfd i v cl" "no_error answers" "client_do_write hs answers cl = Inr cl'"
  shows "cli_side W T now cfd i v cl' \<and> length (cl_sent cl cfd) \<le> length (cl_sent cl' cfd)"
proof -
  have out: "cl_out cl" using assms(1) by (simp add: cli_side_def)
  obtain f out' st where "flush_loop answers [] (cl_obuf cl) (cl_pool cl) = Inr (f, out', st)"
    using assms(3) by (auto simp: client_do_write_def bindR_eq_Inr)
  then have fl: "flush_loop answers [] (cl_obuf cl) (cl_pool cl) = Inr (False, out', st)" using flush_loop_no_error [OF assms(2), of "[]" "cl_obuf cl" "cl_pool cl" f out' st] by simp
  from this have "cl_sent cl' = (cl_sent cl)(cl_sockfd cl := cl_sent cl (cl_sockfd cl) @ out')"
    using assms(3) by (auto simp: client_do_write_def Let_def bindR_eq_Inr split: if_splits)
  then have "length (cl_sent cl cfd) \<le> length (cl_sent cl' cfd)" by simp
  then show ?thesis using client_do_write_ok [OF out assms(2), of hs] assms(1,3) by (auto simp: cli_side_def cl_kept_def cl_reading_def)
qed

lemma server_side_read:
  assumes side: "srv_side W T p fd l j u ss" and idle: "slot_bytes ss (p, Out) = []" and bs: "bs \<noteq> []" "(u @ bs) @ ys = frame (qps_msg W T (Suc j))"
    and utf8: "t_VerifyUtf8String T qps_content" and run: "conn_do_read (qps_srv_handlers W T) (Some (int (length bs))) [Rd bs] p ss = Inr ss'"
  shows "srv_side W T p fd l (if ys = [] then Suc j else j) (if ys = [] then [] else u @ bs) ss' \<and> ss_sent ss' fd = ss_sent ss fd"
proof -
  have s: "out_inv p fd l (qps_stream W T j) ss" "ss_router ss = qps_routes" "ss_conn_close_cb ss = None" "slot_head ss (p, In) = 0" "slot_bytes ss (p, In) = u"
    using side by (simp_all add: srv_side_def)
  have "length ((u @ bs) @ ys) \<le> 34" unfolding bs(2) using qps_msg_length [of "Suc j"] by simp
  then have len: "int (length bs) + int (length (slot_bytes ss (p, In))) \<le> 8388608" using s(5) by simp
  have k: "0 < int (length bs)" "sys_read (nat (int (length bs))) [Rd bs] = Inr (Rd bs)" "length bs = nat (int (length bs))" using bs(1) by simp_all
  have part: "parse_frames (slot_bytes ss (p, In) @ bs) = (if ys = [] then [qps_msg W T (Suc j)] else [], if ys = [] then [] else u @ bs, Incomplete)"
    unfolding s(5) using next_part [OF bs(2)] by simp
  have r: "reacts (qps_srv_react W T) (if ys = [] then [qps_msg W T (Suc j)] else []) (ss_app ss) = Inr (if ys = [] then [qps_msg W T (Suc j)] else [], ss_app ss)"
    using srv_reacts [OF utf8, of "Suc j" "ss_app ss"] by (cases "ys = []") simp_all
  have fits: "length (slot_bytes ss (p, Out)) + length (frames (if ys = [] then [qps_msg W T (Suc j)] else [])) \<le> 8388608"
    using idle qps_msg_length [of "Suc j"] by simp
  from qps_srv.replies_sent [OF s(1-4) k(1) len k(2,3) part r fits] show ?thesis
    unfolding run sum.case srv_side_def by (cases "ys = []") simp_all
qed

lemma client_side_read:
  assumes side: "cli_side W T now cfd i v cl" and idle: "pending cl = []" and bs: "bs \<noteq> []" "(v @ bs) @ ys = frame (qps_msg W T (Suc i))"
    and utf8: "t_VerifyUtf8String T qps_content" and bound: "Suc i < 2 ^ 31 - 1"
    and run: "client_do_read (qps_cli_handlers W T now) (Some (int (length bs))) [Rd bs] cl = Inr cl'"
  shows "cli_side W T now cfd (if ys = [] then Suc i else i) (if ys = [] then [] else v @ bs) cl' \<and> cl_sent cl' = cl_sent cl"
proof -
  have s: "cl_out cl" "cl_sockfd cl = cfd" "cl_router cl = qps_routes" "rb_head (cl_ibuf cl) (cl_pool cl) = 0" "unread_bytes cl = v"
      "stream_of cl = qps_stream W T (Suc i)" "cl_app cl = \<lparr>last_time = now, succ_cnt = int i\<rparr>"
    using side by (simp_all add: cli_side_def cl_reading_def)
  have "length ((v @ bs) @ ys) \<le> 34" unfolding bs(2) using qps_msg_length [of "Suc i"] by simp
  then have len: "int (length bs) + int (length (unread_bytes cl)) \<le> 8388608" using s(5) by simp
  have k: "0 < int (length bs)" "sys_read (nat (int (length bs))) [Rd bs] = Inr (Rd bs)" "length bs = nat (int (length bs))" using bs(1) by simp_all
  have part: "parse_frames (unread_bytes cl @ bs) = (if ys = [] then [qps_msg W T (Suc i)] else [], if ys = [] then [] else v @ bs, Incomplete)"
    unfolding s(5) using next_part [OF bs(2)] by simp
  have r: "reacts (qps_cli_react W T now) (if ys = [] then [qps_msg W T (Suc i)] else []) (cl_app cl) =
      Inr (if ys = [] then [qps_msg W T (Suc (Suc i))] else [], if ys = [] then (cl_app cl)\<lparr>succ_cnt := succ_cnt (cl_app cl) + 1\<rparr> else cl_app cl)"
    using cli_reacts [OF utf8 bound, of "cl_app cl" now] s(7) by simp
  have fits: "length (pending cl) + length (frames (if ys = [] then [qps_msg W T (Suc (Suc i))] else [])) \<le> 8388608"
    using idle qps_msg_length [of "Suc (Suc i)"] by simp
  from qps_cli.replies_sent [OF s(1-4) k(1) len k(2,3) part r fits] show ?thesis
    unfolding run sum.case cli_side_def s(6,7) by (cases "ys = []") simp_all
qed

text \<open>Both sides stay in step.\<close>

lemma delivered:
  assumes "a \<le> length xs" "drop a xs = bs @ later"
  shows "take (a + length bs) (xs @ pend) = take a (xs @ pend) @ bs" "a + length bs \<le> length xs"
proof -
  have "length xs - a = length bs + length later" using arg_cong [OF assms(2), of length] by simp
  then show len: "a + length bs \<le> length xs" using assms(1) by simp
  have "xs = take a xs @ bs @ later" using assms(2) by (metis append_take_drop_id)
  then have "take (a + length bs) xs = take a xs @ bs" using assms(1) by (metis append.assoc append_eq_conv_conj length_append length_take min.absorb2)
  then show "take (a + length bs) (xs @ pend) = take a (xs @ pend) @ bs" using len by simp
qed

lemma rest_of: "take n (xs @ f) = xs @ zs \<Longrightarrow> \<exists>ys. zs @ ys = f"
  by (metis append.assoc append_take_drop_id same_append_eq)

lemma in_step_server_reads:
  assumes st: "in_step W T now p fd l cfd i j (ss, cl, a, b)" and utf8: "t_VerifyUtf8String T qps_content" and bs: "bs \<noteq> []" "drop a (cl_sent cl cfd) = bs @ later"
    and run: "conn_do_read (qps_srv_handlers W T) (Some (int (length bs))) [Rd bs] p ss = Inr ss'"
  shows "\<exists>j'. in_step W T now p fd l cfd i j' (ss', cl, a + length bs, b)"
proof -
  obtain u v where o: "i \<le> j" "j \<le> Suc i" "a \<le> length (cl_sent cl cfd)" "b \<le> length (ss_sent ss fd)" "srv_side W T p fd l j u ss" "cli_side W T now cfd i v cl"
      "take a (qps_stream W T (Suc i)) = qps_stream W T j @ u" "take b (qps_stream W T j) = qps_stream W T i @ v"
    using st unfolding in_step_def by auto
  have C: "qps_stream W T (Suc i) = cl_sent cl cfd @ pending cl" using o(6) unfolding cli_side_def cl_reading_def stream_of_def by metis
  have S: "qps_stream W T j = ss_sent ss fd @ slot_bytes ss (p, Out)" using o(5) by (simp add: srv_side_def out_inv_def)
  note d = delivered(1) [OF o(3) bs(2), of "pending cl", folded C, unfolded o(7)] delivered(2) [OF o(3) bs(2)]
  have "length (bs @ later) = length (cl_sent cl cfd) - a" by (simp flip: bs(2))
  then have lt: "a < length (cl_sent cl cfd)" using bs(1) by (cases bs) auto
  have ji: "j = i"
  proof (rule ccontr)
    assume "j \<noteq> i"
    then have "j = Suc i" using o(1,2) by simp
    then have "length (qps_stream W T (Suc i)) \<le> a" using arg_cong [OF o(7), of length] by simp
    then show False using lt unfolding C by simp
  qed
  have "length (qps_stream W T i) \<le> b" using arg_cong [OF o(8), of length] unfolding ji by simp
  then have b: "b = length (qps_stream W T i)" "slot_bytes ss (p, Out) = []" "v = []" using o(4,8) S unfolding ji by simp_all
  have "take (a + length bs) (qps_stream W T i @ frame (qps_msg W T (Suc i))) = qps_stream W T i @ u @ bs" using d(1) unfolding ji by simp
  from rest_of [OF this] obtain ys where ys: "(u @ bs) @ ys = frame (qps_msg W T (Suc j))" unfolding ji by auto
  let ?j = "if ys = [] then Suc j else j" and ?u = "if ys = [] then [] else u @ bs"
  have side: "srv_side W T p fd l ?j ?u ss'" "ss_sent ss' fd = ss_sent ss fd" using server_side_read [OF o(5) b(2) bs(1) ys utf8 run] by simp_all
  have "take (a + length bs) (qps_stream W T (Suc i)) = qps_stream W T ?j @ ?u" using d(1) ys unfolding ji by (cases "ys = []") simp_all
  moreover have "take b (qps_stream W T ?j) = qps_stream W T i @ v" using b(1,3) unfolding ji by simp
  ultimately have "in_step W T now p fd l cfd i ?j (ss', cl, a + length bs, b)"
    unfolding in_step_def prod.case using o(4,6) side d(2) ji by (intro conjI exI [of _ ?u] exI [of _ v]) simp_all
  then show ?thesis by blast
qed

lemma in_step_client_reads:
  assumes st: "in_step W T now p fd l cfd i j (ss, cl, a, b)" and utf8: "t_VerifyUtf8String T qps_content" and bound: "Suc i < 2 ^ 31 - 1"
    and bs: "bs \<noteq> []" "drop b (ss_sent ss fd) = bs @ later"
    and run: "client_do_read (qps_cli_handlers W T now) (Some (int (length bs))) [Rd bs] cl = Inr cl'"
  shows "\<exists>i' \<le> Suc i. in_step W T now p fd l cfd i' j (ss, cl', a, b + length bs)"
proof -
  obtain u v where o: "i \<le> j" "j \<le> Suc i" "a \<le> length (cl_sent cl cfd)" "b \<le> length (ss_sent ss fd)" "srv_side W T p fd l j u ss" "cli_side W T now cfd i v cl"
      "take a (qps_stream W T (Suc i)) = qps_stream W T j @ u" "take b (qps_stream W T j) = qps_stream W T i @ v"
    using st unfolding in_step_def by auto
  have C: "qps_stream W T (Suc i) = cl_sent cl cfd @ pending cl" using o(6) unfolding cli_side_def cl_reading_def stream_of_def by metis
  have S: "qps_stream W T j = ss_sent ss fd @ slot_bytes ss (p, Out)" using o(5) by (simp add: srv_side_def out_inv_def)
  note d = delivered(1) [OF o(4) bs(2), of "slot_bytes ss (p, Out)", folded S, unfolded o(8)] delivered(2) [OF o(4) bs(2)]
  have "length (bs @ later) = length (ss_sent ss fd) - b" by (simp flip: bs(2))
  then have lt: "b < length (ss_sent ss fd)" using bs(1) by (cases bs) auto
  have ji: "j = Suc i"
  proof (rule ccontr)
    assume "j \<noteq> Suc i"
    then have "j = i" using o(1,2) by simp
    then have "length (qps_stream W T i) \<le> b" using arg_cong [OF o(8), of length] by simp
    then show False using lt S \<open>j = i\<close> by simp
  qed
  have "length (qps_stream W T (Suc i)) \<le> a" using arg_cong [OF o(7), of length] unfolding ji by simp
  moreover have "length (qps_stream W T (Suc i)) = length (cl_sent cl cfd) + length (pending cl)" using arg_cong [OF C, of length] by (simp only: length_append)
  ultimately have "a = length (qps_stream W T (Suc i))" "length (pending cl) = 0" using o(3) by linarith+
  then have a: "a = length (qps_stream W T (Suc i))" "pending cl = []" "u = []" using o(7) unfolding ji by simp_all
  have "take (b + length bs) (qps_stream W T i @ frame (qps_msg W T (Suc i))) = qps_stream W T i @ v @ bs" using d(1) unfolding ji by simp
  from rest_of [OF this] obtain ys where ys: "(v @ bs) @ ys = frame (qps_msg W T (Suc i))" by auto
  let ?i = "if ys = [] then Suc i else i" and ?v = "if ys = [] then [] else v @ bs"
  have side: "cli_side W T now cfd ?i ?v cl'" "cl_sent cl' = cl_sent cl" using client_side_read [OF o(6) a(2) bs(1) ys utf8 bound run] by simp_all
  have "take (b + length bs) (qps_stream W T j) = qps_stream W T ?i @ ?v" using d(1) ys unfolding ji by (cases "ys = []") simp_all
  moreover have "take a (qps_stream W T (Suc ?i)) = qps_stream W T j @ u" using a(1,3) unfolding ji by (cases "ys = []") simp_all
  ultimately have "in_step W T now p fd l cfd ?i j (ss, cl', a, b + length bs)"
    unfolding in_step_def prod.case using o(3,5) side d(2) ji by (intro conjI exI [of _ u] exI [of _ ?v]) simp_all
  then show ?thesis by (intro exI [of _ ?i]) simp
qed

lemma in_step_step:
  assumes "qps_step W T now p fd cfd s s'" "in_step W T now p fd l cfd i j s" "t_VerifyUtf8String T qps_content" "Suc i < 2 ^ 31 - 1"
  shows "\<exists>i' j'. i' \<le> Suc i \<and> in_step W T now p fd l cfd i' j' s'"
  using assms
proof (induction rule: qps_step.induct)
  case (client_writes answers cl cl' ss a b)
  then obtain u v where o: "i \<le> j" "j \<le> Suc i" "a \<le> length (cl_sent cl cfd)" "b \<le> length (ss_sent ss fd)" "srv_side W T p fd l j u ss" "cli_side W T now cfd i v cl"
      "take a (qps_stream W T (Suc i)) = qps_stream W T j @ u" "take b (qps_stream W T j) = qps_stream W T i @ v"
    unfolding in_step_def by auto
  from client_side_write [OF o(6) client_writes(1,2)] o have "in_step W T now p fd l cfd i j (ss, cl', a, b)" unfolding in_step_def by auto
  then show ?case by (intro exI [of _ i] exI [of _ j]) simp
next
  case (server_writes answers ss ss' cl a b)
  then obtain u v where o: "i \<le> j" "j \<le> Suc i" "a \<le> length (cl_sent cl cfd)" "b \<le> length (ss_sent ss fd)" "srv_side W T p fd l j u ss" "cli_side W T now cfd i v cl"
      "take a (qps_stream W T (Suc i)) = qps_stream W T j @ u" "take b (qps_stream W T j) = qps_stream W T i @ v"
    unfolding in_step_def by auto
  from server_side_write [OF o(5) server_writes(1,2)] o have "in_step W T now p fd l cfd i j (ss', cl, a, b)" unfolding in_step_def by auto
  then show ?case by (intro exI [of _ i] exI [of _ j]) simp
next
  case (server_reads bs a cl later ss ss' b)
  from in_step_server_reads [OF server_reads(4,5,1-3)] show ?case by (meson le_SucI order_refl)
next
  case (client_reads bs b ss later cl cl' a)
  from in_step_client_reads [OF client_reads(4-6,1-3)] show ?case by blast
qed

lemma in_step_run:
  assumes "(qps_step W T now p fd cfd ^^ n) s s'" "in_step W T now p fd l cfd 0 0 s" "t_VerifyUtf8String T qps_content" "n < 2 ^ 31 - 1"
  shows "\<exists>i j. i \<le> n \<and> in_step W T now p fd l cfd i j s'"
  using assms(1,4)
proof (induction n arbitrary: s')
  case 0
  then show ?case using assms(2) by auto
next
  case (Suc n)
  then obtain s1 where s1: "(qps_step W T now p fd cfd ^^ n) s s1" "qps_step W T now p fd cfd s1 s'" by auto
  from Suc.IH [OF s1(1)] Suc.prems(2) obtain i j where i: "i \<le> n" "in_step W T now p fd l cfd i j s1" by auto
  have "Suc i < 2 ^ 31 - 1" using i(1) Suc.prems(2) by simp
  from in_step_step [OF s1(2) i(2) assms(3) this] i(1) show ?case by (meson Suc_le_mono le_trans)
qed

end

section \<open>The start of the benchmark\<close>

text \<open>The start hook of the client queues the first message; a new connection of the server has sent nothing.\<close>

context string_format
begin

lemma qps_client_start:
  assumes "cl_out cl" "cl_reading cfd qps_routes cl" "pending cl = []" "cl_sent cl cfd = []" "unread_bytes cl = []" "rb_head (cl_ibuf cl) (cl_pool cl) = 0" "cl_app cl = Qps_new now"
  shows "case qps_on_client_build W T cl of Inl e \<Rightarrow> e = Exit_1 | Inr cl' \<Rightarrow> cli_side W T now cfd 0 [] cl'"
proof -
  let ?m = "qps_msg W T (Suc 0)"
  have m: "EchoMessage_set_content qps_content (EchoMessage_set_id 1 EchoMessage_default) = \<lparr>em_content = qps_content, em_id = of_nat (Suc 0)\<rparr>"
    by (simp add: EchoMessage_accessors EchoMessage_default_def)
  have "cl\<lparr>cl_app := cl_app cl\<rparr> = cl" by simp
  then have run: "qps_on_client_build W T cl = client_reply (Some ?m) (cl\<lparr>cl_app := cl_app cl\<rparr>)"
    unfolding qps_on_client_build_def m by (simp only: client_reply_def qps_msg_def Let_def option.case prod.case)
  have "length (pending cl) + length (case Some ?m of None \<Rightarrow> [] | Some r \<Rightarrow> frame r) \<le> 8388608"
    using assms(3) qps_msg_length [of "Suc 0"] by simp
  note ok = client_reply_ok [OF assms(1) this, of "cl_app cl", folded run]
  have sock: "cl_sockfd cl = cfd" "cl_router cl = qps_routes" using assms(2) by (simp_all add: cl_reading_def)
  show ?thesis
  proof (cases "qps_on_client_build W T cl")
    case (Inl e)
    then show ?thesis using ok by simp
  next
    case (Inr cl')
    then have c: "cl_kept cl cl'" "cl_out cl'" "stream_of cl' = stream_of cl @ frame ?m" "cl_app cl' = cl_app cl" using ok by simp_all
    have "stream_of cl = []" using sock(1) assms(3,4) by (simp add: stream_of_def)
    then have "stream_of cl' = qps_stream W T (Suc 0)" using c(3) by simp
    moreover have "cl_reading cfd qps_routes cl'" "rb_head (cl_ibuf cl') (cl_pool cl') = 0" "unread_bytes cl' = []"
      using c(1) sock assms(5,6) by (auto simp: cl_kept_def cl_reading_def)
    ultimately have "cli_side W T now cfd 0 [] cl'" unfolding cli_side_def using c(2,4) assms(7) by (simp add: Qps_new_def)
    then show ?thesis using Inr by simp
  qed
qed

end

lemma qps_server_start:
  assumes "bufs_ok ss" "ss_loops ss l = Some lp" "loop_inv lp" "0 \<le> fd" "fd < int (length (ss_conns ss))" "ss_sent ss fd = []"
    and "ss_router ss = qps_routes" "ss_conn_start_cb ss = None" "ss_conn_close_cb ss = None"
  obtains ss1 where "tcp_conn_new (qps_srv_handlers W T) fd l ss = Inr (ss_next ss, ss1)" "srv_side W T (ss_next ss) fd l 0 [] ss1"
proof -
  have "run_hook (qps_srv_handlers W T) (ss_conn_start_cb ss) (ss_next ss) (with_conn fd l ss) = Inr (with_conn fd l ss)" using assms(8) by (simp add: run_hook_def)
  from tcp_conn_new_sends [OF this with_conn_out(1) [OF assms(1-5)]] obtain ss1 where s: "tcp_conn_new (qps_srv_handlers W T) fd l ss = Inr (ss_next ss, ss1)"
      "out_inv (ss_next ss) fd l (ss_sent ss fd) ss1" "slot ss1 = slot (with_conn fd l ss)" "ss_router ss1 = ss_router (with_conn fd l ss)"
      "ss_conn_close_cb ss1 = ss_conn_close_cb (with_conn fd l ss)"
    by metis
  have "slot ss1 (ss_next ss, In) = None" using with_conn_slots(3) [OF assms(1)] s(3) by simp
  then have "srv_side W T (ss_next ss) fd l 0 [] ss1" using s assms(6-9) by (simp add: srv_side_def slot_bytes_def slot_head_def) (simp add: with_conn_def)
  with s(1) that show thesis by blast
qed

section \<open>Properties\<close>


text \<open>A client on descriptor 6 and the server, which has its connection on descriptor 7; the client writes its first message in two parts.\<close>

definition qps_demo_client :: qps_client where
  "qps_demo_client = \<lparr>cl_pool = boot_pool, cl_loop = event_loop_new, cl_sockfd = 6, cl_obuf = None, cl_ibuf = None, cl_server_addr = (0, 0), cl_router = qps_routes,
     cl_conn_start_cb = Some Qps_Client_Build, cl_conn_close_cb = None, cl_open = {6}, cl_sent = (\<lambda>_. []), cl_app = Qps_new 100\<rparr>"

definition qps_boot :: qps_server where
  "qps_boot = \<lparr>ss_pool = boot_pool, ss_loops = [1 \<mapsto> event_loop_new], ss_heap = Map.empty, ss_next = 0, ss_conns = replicate 10 None, ss_curr_conns = 0,
     ss_max_conns = 5, ss_router = qps_routes, ss_conn_start_cb = None, ss_conn_close_cb = None, ss_open = {7}, ss_sent = (\<lambda>_. []), ss_app = ()\<rparr>"


end
