(* ===== verification/Test_Clients.thy ===== *)
theory Test_Clients
  imports Report_Sync Route_Sync Echo_Server Udp Pb_Accessors
begin

text \<open>
  The test clients of the services and the datagram example: \<^verbatim>\<open>lars_dns/test/lars_dns_test.cpp\<close>, \<^verbatim>\<open>lars_reporter/test/reportClient.cpp\<close>,
  \<^verbatim>\<open>lars_reactor/example/u_server.cpp\<close> and \<^verbatim>\<open>u_client.cpp\<close>, and the publishing thread for tests of \<^verbatim>\<open>lars_dns/src/dns_route.cpp\<close>. The lines a program prints are part of its state.
\<close>

section \<open>Model\<close>

subsection \<open>The test client of the route service\<close>

datatype dns_test_cb = Deal_Get_Route
datatype dns_test_hook = On_Connection

type_synonym dns_test_client = "(dns_test_cb, unit, dns_test_hook, string list) client_state"

definition host_lines :: "HostInfo \<Rightarrow> string list" where
  "host_lines h = [''---> ip = '' @ fmt_u (pb_ip h), ''---> port = '' @ fmt_d (pb_port h)]"

definition answer_lines :: "GetRouteResponse \<Rightarrow> string list" where
  "answer_lines rsp =
     [''modid = '' @ fmt_d (grs_modid rsp), ''cmdid = '' @ fmt_d (grs_cmdid rsp), ''host_size = '' @ show_int (int (length (grs_host rsp)))] @
     concat (map host_lines (grs_host rsp))"

definition deal_get_route :: "wire \<Rightarrow> bytes option \<Rightarrow> dns_test_client \<Rightarrow> dns_test_client res" where
  "deal_get_route W data cl =
     (let rsp = snd (GetRouteResponse_Parse W (case data of None \<Rightarrow> [] | Some bs \<Rightarrow> bs)) in Inr (cl\<lparr>cl_app := cl_app cl @ answer_lines rsp\<rparr>))"

definition on_connection :: "wire \<Rightarrow> dns_test_client \<Rightarrow> dns_test_client res" where
  "on_connection W cl =
     (let req = GetRouteRequest_set_cmdid 2 (GetRouteRequest_set_modid 1 GetRouteRequest_default);
          requestString = GetRouteRequest_Serialize W req in
      bindR (client_send_message requestString (of_nat (length requestString)) ID_GetRouteRequest cl) (\<lambda>(_, cl). Inr cl))"

definition dns_test_handlers :: "wire \<Rightarrow> (dns_test_cb, unit, dns_test_hook, string list) cli_handlers" where
  "dns_test_handlers W = \<lparr>cli_message = (\<lambda>cb data len msgid conn u. deal_get_route W data), cli_hook = (\<lambda>h. on_connection W)\<rparr>"

definition dns_test_main :: "wire \<Rightarrow> buf_pool \<Rightarrow> int \<Rightarrow> int set \<Rightarrow> int \<Rightarrow> connect_ans \<Rightarrow> int \<Rightarrow> dns_test_client res" where
  "dns_test_main W pool epfd fds sock ans result =
     bindR (event_loop_create epfd) (\<lambda>loop.
     bindR (tcp_client_new (dns_test_handlers W) pool loop fds [] ''127.0.0.1'' 7778 sock ans result) (\<lambda>client.
     Inr (client_add_msg_router ID_GetRouteResponse Deal_Get_Route () (client_set_conn_start On_Connection client))))"

subsection \<open>The test client of the report service\<close>

type_synonym report_test_client = "(unit, unit, unit, unit) client_state"

definition test_result :: "nat \<Rightarrow> HostCallResult" where
  "test_result i =
     HostCallResult_set_overload True (HostCallResult_set_err 3 (HostCallResult_set_succ 100
       (HostCallResult_set_port (of_nat i + 100) (HostCallResult_set_ip (of_nat i + 1) HostCallResult_default))))"

definition test_report :: "int \<Rightarrow> ReportStatusRequest" where
  "test_report now =
     fold (\<lambda>i. ReportStatusRequest_add_results (\<lambda>_. HostCallResult_CopyFrom (test_result i))) [0..<3]
       (ReportStatusRequest_set_ts (word_of_int now) (ReportStatusRequest_set_caller 888 (ReportStatusRequest_set_cmdid 2 (ReportStatusRequest_set_modid 2
         ReportStatusRequest_default))))"

definition report_host_status :: "wire \<Rightarrow> int \<Rightarrow> report_test_client \<Rightarrow> report_test_client res" where
  "report_host_status W now cl =
     (let requestString = ReportStatusRequest_Serialize W (test_report now) in
      bindR (client_send_message requestString (of_nat (length requestString)) ID_ReportStatusRequest cl) (\<lambda>(_, cl). Inr cl))"

definition report_test_main :: "wire \<Rightarrow> int \<Rightarrow> buf_pool \<Rightarrow> int \<Rightarrow> int set \<Rightarrow> int \<Rightarrow> connect_ans \<Rightarrow> int \<Rightarrow> report_test_client res" where
  "report_test_main W now pool epfd fds sock ans result =
     bindR (event_loop_create epfd) (\<lambda>loop.
     bindR (tcp_client_new \<lparr>cli_message = (\<lambda>cb data len msgid conn u. Inr), cli_hook = (\<lambda>h. report_host_status W now)\<rparr> pool loop fds () ''127.0.0.1'' 7779 sock ans result) (\<lambda>client.
     Inr (client_set_conn_start () client)))"

subsection \<open>One round of the publishing thread\<close>

definition publish_change_mod_test :: "'cb \<Rightarrow> 'a \<Rightarrow> SubscribeList \<Rightarrow> ('cb, 'a) thread_pool \<Rightarrow> (SubscribeList \<times> ('cb, 'a) thread_pool) res" where
  "publish_change_mod_test task self sl tp = publish task self [mk_key 1 1, mk_key 1 2] sl tp"

subsection \<open>The datagram example\<close>

type_synonym echo_udp = "(unit, unit, unit) udp_server"

text \<open>The answers of \<open>sendto\<close> are given by the peer and the datagram.\<close>

definition udp_callback_busi :: "(sockaddr \<Rightarrow> bytes \<Rightarrow> int option) \<Rightarrow> bytes \<Rightarrow> i32 \<Rightarrow> i32 \<Rightarrow> echo_udp \<Rightarrow> echo_udp res" where
  "udp_callback_busi answer data len msgid us =
     bindR (udp_server_send_message (answer (ud_client_addr us) data) data len msgid us) (\<lambda>(_, us). Inr us)"

definition udp_echo_run ::
  "(sockaddr \<Rightarrow> bytes \<Rightarrow> int option) \<Rightarrow> unit \<Rightarrow> bytes \<Rightarrow> i32 \<Rightarrow> i32 \<Rightarrow> unit \<Rightarrow> unit option \<Rightarrow> echo_udp \<Rightarrow> echo_udp res" where
  "udp_echo_run answer cb data len msgid conn u us = udp_callback_busi answer data len msgid us"

definition u_server_main :: "int \<Rightarrow> int \<Rightarrow> int \<Rightarrow> bytes \<Rightarrow> 'io \<Rightarrow> 'p \<Rightarrow> ptr \<Rightarrow> (echo_udp \<times> ('io, 'p) event_loop) res" where
  "u_server_main epfd sockfd bind_ret raw server_read_callback self loop =
     bindR (event_loop_create epfd) (\<lambda>l.
     bindR (udp_server_new sockfd bind_ret raw server_read_callback self loop () l) (\<lambda>(server, l).
     Inr (udp_add_msg_router 1 () () server, l)))"

definition udp_hello :: bytes where
  "udp_hello = chars ''hello I am Lars udp client!'' @ [10]"

definition u_client_main ::
  "int \<Rightarrow> int \<Rightarrow> int \<Rightarrow> bytes \<Rightarrow> 'io \<Rightarrow> 'p \<Rightarrow> ptr \<Rightarrow> int option \<Rightarrow> ((unit, unit, unit) udp_client \<times> ('io, 'p) event_loop) res" where
  "u_client_main epfd sockfd connect_ret raw client_read_callback self loop answer =
     bindR (event_loop_create epfd) (\<lambda>l.
     bindR (udp_client_new sockfd connect_ret raw client_read_callback self loop () l) (\<lambda>(client, l).
     bindR (udp_client_send_message answer udp_hello (of_nat (length udp_hello)) 1 (udp_add_msg_router 1 () () client)) (\<lambda>(_, client).
     Inr (client, l))))"

section \<open>The requests of the hooks\<close>

text \<open>A hook that sends one message: it is queued behind what the client has to write.\<close>

lemma client_sends_one:
  assumes "cl_out cl" "length (pending cl) + length (frame (msgid, data)) \<le> 8388608"
  shows "case bindR (client_send_message data (of_nat (length data)) msgid cl) (\<lambda>(_, cl). Inr cl) of
      Inl e \<Rightarrow> e = Exit_1
    | Inr cl' \<Rightarrow> cl_kept cl cl' \<and> cl_out cl' \<and> pending cl' = pending cl @ frame (msgid, data) \<and> cl_app cl' = cl_app cl \<and> cl_sent cl' = cl_sent cl"
proof -
  have "length (pending cl) + length (case Some (msgid, data) of None \<Rightarrow> [] | Some r \<Rightarrow> frame r) \<le> 8388608" using assms(2) by simp
  from client_reply_ok [OF assms(1) this, of "cl_app cl"] show ?thesis by (auto simp: client_reply_def split: sum.splits)
qed

lemma test_report_shape:
  "test_report now = \<lparr>rsr_modid = 2, rsr_cmdid = 2, rsr_caller = 888, rsr_results = map (\<lambda>i. \<lparr>hcr_ip = of_nat i + 1, hcr_port = of_nat i + 100, hcr_succ = 100, hcr_err = 3, hcr_overload = True\<rparr>) [0..<3],
     rsr_ts = word_of_int now\<rparr>"
  by (simp add: test_report_def test_result_def upt_rec HostCallResult_copy HostCallResult_accessors ReportStatusRequest_accessors HostCallResult_default_def ReportStatusRequest_default_def)

section \<open>The printed answers\<close>

definition dns_test_routes :: "(dns_test_cb, unit) msg_router" where
  "dns_test_routes = snd (register_msg_router ID_GetRouteResponse Deal_Get_Route () msg_router_new)"

definition print_react :: "wire \<Rightarrow> string list reaction" where
  "print_react W m x = Inr (None, if fst m = ID_GetRouteResponse then x @ answer_lines (snd (GetRouteResponse_Parse W (snd m))) else x)"

lemma dns_test_routes_entries: "mr_router dns_test_routes m = (if m = ID_GetRouteResponse then Some Deal_Get_Route else None)"
  by (simp add: dns_test_routes_def register_msg_router_def msg_router_new_def)

interpretation dns_test: reply_client "dns_test_handlers W" fd dns_test_routes "print_react W" for W fd
proof unfold_locales
  fix cl :: dns_test_client and d :: "bytes option" and body msgid reply x
  assume a: "cl_reading fd dns_test_routes cl" "d = Some body \<or> d = None \<and> body = []" "print_react W (msgid, body) (cl_app cl) = Inr (reply, x)"
  have "(case d of None \<Rightarrow> [] | Some bs \<Rightarrow> bs) = body" "cl_router cl = dns_test_routes" using a(1,2) by (auto simp: cl_reading_def)
  then show "client_call (dns_test_handlers W) msgid (of_nat (length body)) d cl = client_reply reply (cl\<lparr>cl_app := x\<rparr>)"
    using a(3) by (auto simp: client_call_def router_call_def dns_test_routes_entries dns_test_handlers_def print_react_def deal_get_route_def client_reply_def Let_def split: if_splits)
qed

text \<open>The test of the route service: the client asks for the module 1/2, and prints the modules and hosts of the answer.\<close>

lemma dns_test_round:
  assumes w: "wire_ok W" and cl: "cl_out cl" "cl_reading cfd dns_test_routes cl" "pending cl = []" "rb_head (cl_ibuf cl) (cl_pool cl) = 0" "unread_bytes cl = []"
    and srv: "out_inv p fd l stream ss" "ss_router ss = dns_routes" "ss_conn_close_cb ss = Some Clear_Subscribe"
      "dn_param (ss_app ss) p = Some ms" "\<forall>k \<in> set ms. fd \<in> subs (dn_sub (ss_app ss)) k" "slot ss (p, In) = None"
    and A: "A = frame (answer_msg W (dn_route (ss_app ss)) \<lparr>grq_modid = 1, grq_cmdid = 2\<rparr>)"
    and fits: "length (slot_bytes ss (p, Out)) + length A \<le> 8388608" "int (length A) \<le> MESSAGE_LENGTH_LIMIT"
  shows "case on_connection W cl of
      Inl e \<Rightarrow> e = Exit_1
    | Inr cl1 \<Rightarrow>
        (case conn_do_read (service_handlers W) (Some (int (length (pending cl1)))) [Rd (pending cl1)] p ss of
           Inl f \<Rightarrow> f = Exit_1
         | Inr ss' \<Rightarrow> out_inv p fd l (stream @ A) ss' \<and> fd \<in> subs (dn_sub (ss_app ss')) (mk_key 1 2)) \<and>
        (case client_do_read (dns_test_handlers W) (Some (int (length A))) [Rd A] cl1 of
           Inl f \<Rightarrow> f = Exit_1
         | Inr cl2 \<Rightarrow> cl_app cl2 = cl_app cl @ answer_lines (route_response 1 2 (dn_route (ss_app ss))))"
proof -
  have wf: "wire_format W" by (rule wire_format.intro [OF w])
  let ?r = "\<lparr>grq_modid = 1, grq_cmdid = 2\<rparr>" and ?rt = "dn_route (ss_app ss)"
  let ?m = "answer_msg W ?rt ?r"
  have run: "on_connection W cl = bindR (client_send_message (snd (request_msg W ?r)) (of_nat (length (snd (request_msg W ?r)))) ID_GetRouteRequest cl) (\<lambda>(_, cl). Inr cl)"
    by (simp add: on_connection_def request_msg_def GetRouteRequest_accessors GetRouteRequest_default_def Let_def)
  have req: "(ID_GetRouteRequest, snd (request_msg W ?r)) = request_msg W ?r" by (simp add: request_msg_def)
  have ne: "?r \<noteq> GetRouteRequest_default" by (simp add: GetRouteRequest_default_def)
  have "length (pending cl) + length (frame (request_msg W ?r)) \<le> 8388608" using wire_format.requests_length [OF wf, of "[?r]"] cl(3) by simp
  moreover from this have "length (frame (request_msg W ?r)) \<le> 8388608" by (rule add_leD2)
  ultimately have small_req: "length (pending cl) + length (frame (request_msg W ?r)) \<le> 8388608" "length (frame (request_msg W ?r)) \<le> 8388608" by blast+
  note snt = client_sends_one [OF cl(1), of ID_GetRouteRequest "snd (request_msg W ?r)", unfolded req, OF small_req(1), folded run]
  have srv_run: "case conn_do_read (service_handlers W) (Some (int (length (frame (request_msg W ?r))))) [Rd (frame (request_msg W ?r))] p ss of
      Inl f \<Rightarrow> f = Exit_1
    | Inr ss' \<Rightarrow> out_inv p fd l (stream @ A) ss' \<and> fd \<in> subs (dn_sub (ss_app ss')) (mk_key 1 2)"
    using service_answers [OF wf srv, of "[?r]"] ne fits(1) by (simp add: A req_key_def split: sum.splits)
  have small: "int (length (snd ?m)) \<le> MESSAGE_LENGTH_LIMIT" using fits(2) by (simp add: A)
  have body: "snd ?m \<noteq> []" by (rule wire_format.answer_nonempty [OF wf ne])
  have parsed: "snd (GetRouteResponse_Parse W (snd ?m)) = route_response 1 2 ?rt"
    using wire_format.GetRouteResponse_parse [OF wf] by (simp add: answer_msg_def GetRouteResponse_Parse_def)
  have answer: "case client_do_read (dns_test_handlers W) (Some (int (length A))) [Rd A] cl1 of
      Inl f \<Rightarrow> f = Exit_1
    | Inr cl2 \<Rightarrow> cl_app cl2 = cl_app cl @ answer_lines (route_response 1 2 ?rt)"
    if c: "cl_kept cl cl1" "cl_out cl1" "cl_app cl1 = cl_app cl" "length (pending cl1) \<le> 8388608" for cl1
  proof -
    have k: "cl_sockfd cl1 = cfd" "cl_router cl1 = dns_test_routes" "rb_head (cl_ibuf cl1) (cl_pool cl1) = 0" "unread_bytes cl1 = []"
      using c(1) cl(2,4,5) by (auto simp: cl_kept_def cl_reading_def)
    have "parse_frames A = ([?m], [], Incomplete)" using frames_parsed [of "[?r]" "answer_msg W ?rt"] small by (simp add: A)
    then have inp: "0 < int (length A)" "int (length A) + int (length (unread_bytes cl1)) \<le> 8388608" "sys_read (nat (int (length A))) [Rd A] = Inr (Rd A)"
        "length A = nat (int (length A))" "parse_frames (unread_bytes cl1 @ A) = ([?m], [], Incomplete)"
      using fits(1) by (simp_all add: A k(4))
    have tail: "\<not> empty_tail [?m] []" using body by (simp add: empty_tail_def)
    have "fst ?m = ID_GetRouteResponse" by (simp add: answer_msg_def)
    then have "reacts (print_react W) [?m] (cl_app cl1) = Inr ([], cl_app cl @ answer_lines (route_response 1 2 ?rt))" using parsed c(3) by (simp add: print_react_def)
    from dns_test.replies_sent [OF c(2) k(1-3) inp this] tail show ?thesis using c(4) by (auto split: sum.splits)
  qed
  show ?thesis
  proof (cases "on_connection W cl")
    case (Inl e)
    then show ?thesis using snt by simp
  next
    case (Inr cl1)
    then have c: "cl_kept cl cl1" "cl_out cl1" "pending cl1 = frame (request_msg W ?r)" "cl_app cl1 = cl_app cl" using snt cl(3) by simp_all
    have "length (pending cl1) \<le> 8388608" unfolding c(3) by (rule small_req(2))
    from answer [OF c(1,2,4) this] srv_run show ?thesis unfolding Inr sum.case c(3) by blast
  qed
qed

text \<open>The test of the report service: the three results arrive in the queue of the thread whose turn it is.\<close>

lemma report_test_round:
  assumes w: "wire_ok W" and cl: "cl_out cl" "pending cl = []"
    and srv: "reading p fd l report_routes ss" "ss_conn_close_cb ss = None" "slot ss (p, In) = None"
    and rp: "0 < n" "length (rp_queues (ss_app ss)) = n" "rp_thread_cnt (ss_app ss) = int n" "rp_index (ss_app ss) = int (k mod n)"
  shows "case report_host_status W now cl of
      Inl e \<Rightarrow> e = Exit_1
    | Inr cl1 \<Rightarrow>
        (case conn_do_read (report_handlers W) (Some (int (length (pending cl1)))) [Rd (pending cl1)] p ss of
           Inl f \<Rightarrow> f = Exit_1
         | Inr ss' \<Rightarrow> \<forall>i < n. tq_queue (rp_queues (ss_app ss') ! i) = tq_queue (rp_queues (ss_app ss) ! i) @ share n i k [test_report now])"
proof -
  let ?m = "report_msg W (test_report now)"
  have wf: "wire_format W" by (rule wire_format.intro [OF w])
  have run: "report_host_status W now cl = bindR (client_send_message (snd ?m) (of_nat (length (snd ?m))) ID_ReportStatusRequest cl) (\<lambda>(_, cl). Inr cl)"
    by (simp add: report_host_status_def report_msg_def Let_def)
  have m: "(ID_ReportStatusRequest, snd ?m) = ?m" by (simp add: report_msg_def)
  have len: "length (rsr_results (test_report now)) = 3" by (simp add: test_report_shape)
  then have small: "length (frame ?m) \<le> 8388608" using wire_format.report_bound [OF wf, of "test_report now"] by (simp add: report_msg_def)
  then have "length (pending cl) + length (frame ?m) \<le> 8388608" using cl(2) by simp
  note snt = client_sends_one [OF cl(1), of ID_ReportStatusRequest "snd ?m", unfolded m, OF this, folded run]
  have "test_report now \<noteq> ReportStatusRequest_default" using len by (auto simp: ReportStatusRequest_default_def)
  then have "case conn_do_read (report_handlers W) (Some (int (length (frame ?m)))) [Rd (frame ?m)] p ss of
      Inl f \<Rightarrow> f = Exit_1
    | Inr ss' \<Rightarrow> \<forall>i < n. tq_queue (rp_queues (ss_app ss') ! i) = tq_queue (rp_queues (ss_app ss) ! i) @ share n i k [test_report now]"
    using service_deals [OF w srv rp, of "[test_report now]"] small len by (simp split: sum.splits)
  then show ?thesis using snt cl(2) by (cases "report_host_status W now cl") simp_all
qed

text \<open>The publishing thread marks both modules for exactly their subscribers.\<close>

lemma publish_test_marks:
  assumes "publish_change_mod_test task self sl tp = Inr (sl', tp')"
  shows "pend sl' fd = pend sl fd \<union> {m \<in> {mk_key 1 1, mk_key 1 2}. fd \<in> subs sl m}"
  using publish_effect [OF assms [unfolded publish_change_mod_test_def]] mark_changes_pend [of "[mk_key 1 1, mk_key 1 2]" sl fd] by simp

section \<open>The datagram echo\<close>

text \<open>What the server sends for one datagram: the message goes back to its sender, if the kernel takes it.\<close>

definition udp_echo :: "(sockaddr \<Rightarrow> bytes \<Rightarrow> int option) \<Rightarrow> sockaddr \<times> bytes \<Rightarrow> (sockaddr option \<times> bytes) list" where
  "udp_echo answer d =
     (case dgram_msg (snd d) of
        Some m \<Rightarrow> if fst m = 1 \<and> answer (fst d) (snd m) \<noteq> None then [(Some (fst d), frame m)] else []
      | None \<Rightarrow> [])"

definition udp_echoing :: "echo_udp \<Rightarrow> bool" where
  "udp_echoing us \<longleftrightarrow> int (length (ud_read_buf us)) = MESSAGE_LENGTH_LIMIT \<and> ud_router us = snd (register_msg_router 1 () () msg_router_new)"

lemma dgram_msg_length: "dgram_msg dg = Some m \<Longrightarrow> length dg = 8 + length (snd m)"
  by (auto simp: dgram_msg_def split: sum.splits if_splits)

lemma echo_call:
  assumes "udp_echoing us" "dgram_msg dg = Some m" "int (length dg) \<le> MESSAGE_LENGTH_LIMIT"
  shows "router_call (udp_echo_run answer) (fst m) (of_nat (length (snd m))) (snd m) () (ud_router us) us =
    Inr (us\<lparr>ud_sent := ud_sent us @ udp_echo answer (ud_client_addr us, dg)\<rparr>)"
proof -
  have r: "mr_router (ud_router us) k = (if k = 1 then Some () else None)" for k
    using assms(1) by (simp add: udp_echoing_def register_msg_router_def msg_router_new_def)
  have small: "length (snd m) \<le> 65519" using dgram_msg_length [OF assms(2)] assms(3) by (simp add: MESSAGE_LENGTH_LIMIT_def MESSAGE_HEAD_LEN_def)
  have "sint (of_nat (length (snd m)) :: i32) = int (length (snd m))" using small by (intro sint_of_nat_small) simp
  then have none: "udp_server_send_message None (snd m) (of_nat (length (snd m))) k us = Inr (-1, us)" for k
    using small by (simp add: udp_server_send_message_def udp_frame_def MESSAGE_LENGTH_LIMIT_def MESSAGE_HEAD_LEN_def)
  have one: "udp_server_send_message (Some n) (snd m) (of_nat (length (snd m))) k us =
      Inr (n, us\<lparr>ud_sent := ud_sent us @ [(Some (ud_client_addr us), frame (k, snd m))]\<rparr>)" for n k
    by (rule udp_send_ok [OF small])
  show ?thesis
    using none one assms(2) r
    by (cases "answer (ud_client_addr us) (snd m)"; cases m) (simp_all add: router_call_def udp_echo_run_def udp_callback_busi_def udp_echo_def)
qed

text \<open>Datagrams that fit the receive buffer are answered one by one, in order; whatever is not a message with the number 1 has no answer.\<close>

theorem udp_echoes:
  assumes "udp_echoing us" "\<forall>d \<in> set dgs. int (length (snd d)) \<le> MESSAGE_LENGTH_LIMIT" "err \<noteq> EINTR"
  shows "\<exists>us'. udp_server_do_read (udp_echo_run answer) (map (\<lambda>(a, d). Dgram a d) dgs @ [Rc_err err]) us = Inr us' \<and> udp_echoing us' \<and>
    ud_sent us' = ud_sent us @ concat (map (udp_echo answer) dgs)"
  using assms(1,2)
proof (induction dgs arbitrary: us)
  case Nil
  then show ?case using assms(3) by simp
next
  case (Cons d dgs)
  obtain a dg where d: "d = (a, dg)" by (cases d)
  let ?rest = "map (\<lambda>(a, d). Dgram a d) dgs @ [Rc_err err]"
  have small: "int (length dg) \<le> MESSAGE_LENGTH_LIMIT" using Cons.prems(2) d by simp
  then have fit: "length dg \<le> length (ud_read_buf us)" "8 \<le> length (ud_read_buf us)"
    using Cons.prems(1) by (simp_all add: udp_echoing_def MESSAGE_LENGTH_LIMIT_def MESSAGE_HEAD_LEN_def)
  obtain buf where len: "length buf = length (ud_read_buf us)" and round: "udp_server_do_read (udp_echo_run answer) (Dgram a dg # ?rest) us =
      (let us = us\<lparr>ud_read_buf := buf, ud_client_addr := a\<rparr> in
       case dgram_msg dg of
         None \<Rightarrow> udp_server_do_read (udp_echo_run answer) ?rest us
       | Some m \<Rightarrow> bindR (router_call (udp_echo_run answer) (fst m) (of_nat (length (snd m))) (snd m) () (ud_router us) us) (udp_server_do_read (udp_echo_run answer) ?rest))"
    by (rule udp_round [OF fit])
  let ?us = "us\<lparr>ud_read_buf := buf, ud_client_addr := a\<rparr>"
  let ?vs = "?us\<lparr>ud_sent := ud_sent us @ udp_echo answer (a, dg)\<rparr>"
  have inv: "udp_echoing ?us" "udp_echoing ?vs" using Cons.prems(1) len by (simp_all add: udp_echoing_def)
  have "udp_server_do_read (udp_echo_run answer) (Dgram a dg # ?rest) us = udp_server_do_read (udp_echo_run answer) ?rest ?vs"
  proof (cases "dgram_msg dg")
    case None
    then have "udp_echo answer (a, dg) = []" by (simp add: udp_echo_def)
    then show ?thesis unfolding round by (simp add: None)
  next
    case (Some m)
    then show ?thesis unfolding round using echo_call [OF inv(1) Some small, of answer] by (simp add: Let_def)
  qed
  moreover have "\<exists>us'. udp_server_do_read (udp_echo_run answer) ?rest ?vs = Inr us' \<and> udp_echoing us' \<and>
      ud_sent us' = ud_sent ?vs @ concat (map (udp_echo answer) dgs)"
    using Cons.prems(2) by (intro Cons.IH [OF inv(2)]) simp
  ultimately show ?case by (simp add: d del: udp_server_do_read.simps)
qed

end
