(* ===== verification/Spec2Isabelle.thy ===== *)
theory Spec2Isabelle
  imports Load_Balance_Runs Route_Lb Subscribe Dns_Runs Tcp_Server Udp Config_File Protobuf Protobuf_Loop Message_Build Tcp_Client Reporter_Service Lars_Api Agent Route_Sync Report_Sync Api_Programs Qps_Test Test_Clients
begin

text \<open>
  \<^bold>\<open>Lars\<close>, a load-balancing service for calls between back-end services. A client asks the agent on its own host for an address of a module (a pair \<open>modid\<close>,
  \<open>cmdid\<close>), calls that address, and reports the outcome; the agent moves hosts with too many failures to an overload list and probes them now and then. Agents learn the
  hosts of a module from the route service, which reads them from a database and pushes changes, and forward call statistics to the report service, which
  stores them. All processes share a reactor library for TCP and UDP.

  \<^bold>\<open>Parts of the program and their theories.\<close>

  \<^descr>[Shared vocabulary] \<open>Lars_Prelude\<close>: machine integers, faults as values (\<open>'a res\<close>), packed 64-bit keys, the index \<open>(modid + cmdid) % 3\<close>, and the locale \<open>step_system\<close>
  (invariants of reachable states). \<open>C_Strings\<close> and \<open>Inet\<close>: the parts of the C library that the sources use (\<open>strtol\<close>, \<open>atoi\<close>, \<open>inet_aton\<close>, \<open>inet_ntoa\<close>, \<open>ntohl\<close>).
  \<open>Float_Text\<close>: how C++ streams read and print a \<open>float\<close>, with the round-to-nearest lemma.

  \<^descr>[Reactor: buffers] \<open>Io_Buf\<close> (\<^verbatim>\<open>io_buf.cpp\<close>), \<open>Buf_Pool\<close> (\<^verbatim>\<open>buf_pool.cpp\<close>) and \<open>Reactor_Buf\<close> (\<^verbatim>\<open>reactor_buf.cpp\<close>). Blocks live in an explicit heap with free lists, as in the
  source. The locale \<open>allocator\<close> is what buffers rely on, interpreted on the pool. Shown: every request is answered with a fresh block of the smallest fitting class or ends
  the process at the 5 GB limit, a returned block is the next one used, buffers never share a block, and the stream operations append, consume and lose nothing.

  \<^descr>[Reactor: events and threads] \<open>Event_Loop\<close> (\<^verbatim>\<open>event_loop.cpp\<close>), \<open>Thread_Queue\<close> (\<^verbatim>\<open>thread_queue.h\<close>), \<open>Thread_Pool\<close> (\<^verbatim>\<open>thread_pool.cpp\<close>). The kernel's interest list is part of the state. Shown: no
  event runs a null or missing callback in any reachable state, the queue refines a lossless first-in-first-out channel (locale \<open>channel\<close>) in every interleaving, and workers are used in rotation.

  \<^descr>[Reactor: messages and connections] \<open>Message\<close> (\<^verbatim>\<open>message.h\<close>), \<open>Net_Stream\<close> (the loops that \<^verbatim>\<open>tcp_conn.cpp\<close> and \<^verbatim>\<open>tcp_client.cpp\<close> both have), \<open>Tcp_Conn\<close>, \<open>Tcp_Server\<close>, \<open>Tcp_Client\<close>, \<open>Udp\<close>. \<open>parse_frames\<close>
  is the specification of framing. The locale \<open>stream_handler\<close> has the read loop once, for an invariant that may depend on the messages still to be delivered; \<open>stream_input\<close> is the instance whose
  messages have an effect of their own. \<open>server_app\<close> and \<open>client_app\<close> are the contracts of callbacks that only change the state of the application, \<open>server_session\<close> (\<open>Tcp_Session\<close>) and
  \<open>client_session\<close> those of callbacks that also send; all of them are sublocales. \<open>udp_service\<close> is the contract for datagrams. Shown: exactly the complete messages are dispatched, for every split of the stream; what is sent
  arrives; opening and closing are inverse; connection limits; what is pending is written; and the cases in which the code aborts.

  \<^descr>[Messages on the wire] \<open>Lars_Pb\<close> (\<^verbatim>\<open>lars.proto\<close>), \<open>Wire_Format\<close> and \<open>Protobuf\<close> (\<^verbatim>\<open>lars.pb.cc\<close>). The protobuf run-time library is the parameter \<open>wire\<close>; \<open>wire_ok\<close> is its documented behaviour and the base-128
  encoding fulfils it. Shown: the generated parser inverts the generated serialiser for every message class, and sizes are exact. \<open>Protobuf_Loop\<close> has the parsing loop
  without its bound, as an inductive relation: it ends on every input, with the result of the bounded loop. \<open>Pb_Accessors\<close> (\<^verbatim>\<open>lars.pb.h\<close>) has the accessors, \<open>Clear\<close>, \<open>Swap\<close> and move assignment; the locales \<open>pb_field\<close>, \<open>pb_repeated\<close>
  and \<open>pb_optional\<close> are interpreted for every field of the schema. \<open>Message_Build\<close> has the places that build and read messages, call by call, and shows that they agree with the component definitions.

  \<^descr>[Configuration] \<open>Config_File\<close> (\<^verbatim>\<open>config_file.cpp\<close>). Shown: a file is read back as it was written, and a decimal number becomes the nearest \<open>float\<close>.

  \<^descr>[Agent] \<open>Load_Balance\<close> and \<open>Load_Balance_Runs\<close> (\<^verbatim>\<open>load_balance.cpp\<close>, \<^verbatim>\<open>host_info.cpp\<close>), \<open>Route_Lb\<close> (\<^verbatim>\<open>route_lb.cpp\<close>), \<open>Agent\<close> (\<^verbatim>\<open>agent_udp_server.cpp\<close>, \<^verbatim>\<open>dns_client.cpp\<close>, \<^verbatim>\<open>report_client.cpp\<close>, \<^verbatim>\<open>main_server.cpp\<close>). Hosts live in a
  heap shared by a map and two lists; the locale \<open>shared_heap\<close> keeps the modules of one table apart. Shown: the host lists are a partition of the known
  hosts in every reachable state, requests rotate over the idle hosts and probe the overloaded ones with the configured period, reports drive the two-state machine of
  a host, updates offer exactly the received hosts, the \<open>double\<close> comparison of failure rates is exact, and no datagram whatsoever makes an agent server fail.

  \<^descr>[Route service] \<open>Dns_Route\<close> (\<^verbatim>\<open>dns_route.cpp\<close>) and \<open>Subscribe\<close> (\<^verbatim>\<open>subscribe.cpp\<close>, \<^verbatim>\<open>dns_service.cpp\<close>). Database answers are arguments. Shown: reloading installs exactly the rows of the database without
  disturbing readers, a publication reaches exactly the subscribers, once, and subscriptions follow the open connections. \<open>Dns_Service\<close> (\<^verbatim>\<open>dns_service.cpp\<close>, an instance of \<open>server_session\<close>) and
  \<open>Dns_Push\<close> (\<open>push_change_task\<close>) put the handlers on the connections of the TCP server. Shown: requests are answered in order on the stream of their connection, and a push adds exactly the changed
  routes to the streams of the subscribed connections. \<open>Dns_Runs\<close> is the service with any number of clients, as a transition system on the state of the TCP server; a step of one connection leaves the others alone
  (\<open>others_kept\<close> in \<open>Tcp_Session\<close>). Shown: every run, with closed connections and reused descriptors, is a run of the abstract service of \<open>Subscribe\<close>.

  \<^descr>[Report service] \<open>Reporter\<close> (\<^verbatim>\<open>store_report.cpp\<close>, \<^verbatim>\<open>store_thread.cpp\<close>, \<^verbatim>\<open>reporter_service.cpp\<close>) and \<open>Reporter_Service\<close> (its network side, an instance of \<open>server_app\<close>). Shown: each report is stored once, in order,
  and the statement always fits its buffer.

  \<^descr>[Processes together] \<open>Route_Sync\<close>: the agent's route client and the route service over their TCP streams, an instance of \<open>client_session\<close> and \<open>server_session\<close> each. \<open>Report_Sync\<close>: the agent's
  report client, the report service and its store threads. Shown: what leaves the queue of the agent arrives in the tables of the agent, or in the database, once and in order.

  \<^descr>[Client library] \<open>Lars_Api\<close> (\<^verbatim>\<open>api/cpp/lars_api/lars_api.cpp\<close>). Shown: success is reported only for an answer to this very request; registration makes at most three tries; negative modules index out of bounds.

  \<^descr>[Programs that use the libraries] \<open>Api_Programs\<close> (\<^verbatim>\<open>api/cpp/example\<close>): the programs on top of the client library, with the lines they print. Shown: the simulator reports one result for each host it was given, and
  its final statistics are the numbers of these calls. \<open>Tcp_Reply\<close> has the contracts \<open>reply_server\<close> and \<open>reply_client\<close>, sublocales of the session contracts, for applications that answer a message with at most one message. They are
  interpreted on \<open>Echo_Server\<close> (\<^verbatim>\<open>lars_reactor/example/server.cpp\<close>, \<^verbatim>\<open>client.cpp\<close>), on \<open>Qps_Test\<close> (\<^verbatim>\<open>lars_reactor/example/qps_test\<close>, whose message class is \<open>Echo_Message\<close>, over the parameter \<open>string_wire\<close> for the string
  primitives of the protobuf library), and on \<open>Test_Clients\<close> (\<^verbatim>\<open>lars_dns_test.cpp\<close>, \<^verbatim>\<open>reportClient.cpp\<close>, \<^verbatim>\<open>u_server.cpp\<close>, \<^verbatim>\<open>u_client.cpp\<close>). Shown: clients are greeted and get back exactly their messages; in every interleaving of the benchmark exactly one
  message is under way and the counter is the number of answers; the route test prints the hosts of the service's table, and the report test's results arrive at a store thread.

  \<^descr>[This theory] the properties that span processes: a host request from the client library through the agent and back, the way of a route from the route service's table to
  the client, and the way of a report.

  \<^bold>\<open>Conventions.\<close> State is passed explicitly, as records with the fields of the classes; an operation that may abort or has undefined behaviour returns \<open>'a res\<close>, and every failed
  \<open>assert\<close>, \<open>exit(1)\<close>, null or dangling pointer, uninitialised field and index out of range of the source is a branch of it. The answers of system calls (\<open>read\<close>,
  \<open>write\<close>, \<open>recvfrom\<close>, \<open>sendto\<close>, \<open>accept\<close>, \<open>connect\<close>, \<open>epoll\<close>, \<open>time\<close>) are arguments. Integers keep their width where the code wraps or casts. Callbacks are names, and what they do is an
  argument (\<open>run\<close>, \<open>handlers\<close>, \<open>cli_handlers\<close>). Operations of different threads are atomic steps where the code holds a mutex.

  \<^bold>\<open>Bounds and fuel.\<close> Loops over kernel answers are structural in the list of answers; \<open>Blocked\<close> is the outcome when the kernel gives no further answer, so that a result is
  never claimed for a loop that still waits. The loop of the generated parsers takes one round more than there are bytes, which is enough since every round reads a tag. Streams are bounded by
  8388608 bytes, the largest block of the pool; messages by the 65527 bytes of \<open>MESSAGE_LENGTH_LIMIT\<close>; modules by 2339 hosts where the answer must fit one datagram, and reports by 1559 results.

  \<^bold>\<open>Not modelled.\<close> Reflection, arenas and unknown fields of the generated protobuf classes, and
  their parts under the experimental parser, which is not compiled. \<open>pthread_create\<close> and the sleeping main loops. The Go web console \<^verbatim>\<open>lars_web\<close> and the vendored MySQL headers. What
  the callbacks of the reactor's example programs print. Data races of accesses that the code leaves unprotected are outside the step semantics.
\<close>

section \<open>A client and its agent\<close>

abbreviation empty_answer :: "GetHostRequest \<Rightarrow> GetHostResponse" where
  "empty_answer req \<equiv> \<lparr>ghs_seq = ghq_seq req, ghs_modid = ghq_modid req, ghs_cmdid = ghq_cmdid req, ghs_retcode = 0, ghs_host = None\<rparr>"

text \<open>The datagram of the request that the next \<open>get_host\<close> of a client sends.\<close>

definition next_request :: "lars_client \<Rightarrow> i32 \<Rightarrow> i32 \<Rightarrow> GetHostRequest" where
  "next_request lc modid cmdid = \<lparr>ghq_seq = lc_seqid lc, ghq_modid = modid, ghq_cmdid = cmdid\<rparr>"

lemma next_request_fields [simp]:
  "ghq_seq (next_request lc m c) = lc_seqid lc" "ghq_modid (next_request lc m c) = m" "ghq_cmdid (next_request lc m c) = c"
  by (simp_all add: next_request_def)

lemma server_of_less [simp]: "server_of m c < 3"
  by (simp add: server_of_def)

context wire_format
begin

lemma agent_answers:
  assumes "serving i us" "agent_ok env (ud_app us)" "ag_dns_queue (ud_app us) = Some q" "0 \<le> i" "i < 3" "ae_sendto env = Some n"
  obtains ret rsp rl' q' us' where
    "rl_get_host (ae_cfg env) (ae_now env) (ghq_modid req) (ghq_cmdid req) (empty_answer req) (ag_r_lb (ud_app us) ! nat i) q = Inr (ret, rsp, rl', q')"
    "ghs_seq rsp = ghq_seq req" "ghs_modid rsp = ghq_modid req" "ghs_cmdid rsp = ghq_cmdid req" "rl_inv (ae_cfg env) rl'"
    "udp_server_do_read (agent_run W env) [Dgram a (frame (ID_GetHostRequest, GetHostRequest_Serialize W req)), Rc_err EAGAIN] us = Inr us'"
    "serving i us'" "ud_app us' = (put_r_lb i rl' (ud_app us))\<lparr>ag_dns_queue := Some q'\<rparr>"
    "ud_sent us' = ud_sent us @ [(Some a, frame (ID_GetHostResponse, GetHostResponse_Serialize W rsp))]"
proof -
  let ?body = "GetHostRequest_Serialize W req"
  have "8 + length ?body \<le> nat MESSAGE_LENGTH_LIMIT"
    using GetHostRequest_bound [of req] by (simp add: GetHostRequest_size MESSAGE_LENGTH_LIMIT_def MESSAGE_HEAD_LEN_def)
  then obtain buf where r: "length buf = length (ud_read_buf us)"
    "udp_server_do_read (agent_run W env) [Dgram a (frame (ID_GetHostRequest, ?body)), Rc_err EAGAIN] us =
      get_host_cb W env ?body i (us\<lparr>ud_read_buf := buf, ud_client_addr := a\<rparr>)"
    using do_read_one [OF assms(1), of ID_GetHostRequest Get_Host_Cb ?body "agent_run W env" a] by (auto simp: agent_run_def)
  let ?us = "us\<lparr>ud_read_buf := buf, ud_client_addr := a\<rparr>"
  have u: "agent_ok env (ud_app ?us)" "ag_dns_queue (ud_app ?us) = Some q" using assms(2,3) by simp_all
  obtain ret rsp rl' q' where g: "rl_get_host (ae_cfg env) (ae_now env) (ghq_modid req) (ghq_cmdid req) (empty_answer req) (ag_r_lb (ud_app ?us) ! nat i) q =
      Inr (ret, rsp, rl', q')" "ghs_seq rsp = ghq_seq req" "ghs_modid rsp = ghq_modid req" "ghs_cmdid rsp = ghq_cmdid req" "rl_inv (ae_cfg env) rl'"
    "get_host_cb W env ?body i ?us = Inr (?us\<lparr>ud_app := (put_r_lb i rl' (ud_app ?us))\<lparr>ag_dns_queue := Some q'\<rparr>,
        ud_sent := ud_sent ?us @ [(Some (ud_client_addr ?us), frame (ID_GetHostResponse, GetHostResponse_Serialize W rsp))]\<rparr>)"
    by (rule get_host_cb_ok [OF u assms(4-6)])
  show thesis
    by (rule that [of ret rsp rl' q', OF _ g(2-5) r(2) [unfolded g(6)]]) (use g(1) r(1) assms(1) in \<open>simp_all add: serving_def\<close>)
qed

lemma route_stored:
  assumes "good_module m c" "grs_modid grsp = m" "grs_cmdid grsp = c" "r_lb_at (int (server_of m c)) (cl_app cl) = Inr rl"
    and "update_host (ae_cfg env) (ae_time env) (ae_ts env) m c grsp rl = Inr (0, rl')"
  shows "deal_recv_route W env (Some (GetRouteResponse_Serialize W grsp)) cl = Inr (cl\<lparr>cl_app := put_r_lb (int (server_of m c)) rl' (cl_app cl)\<rparr>)"
  using GetRouteResponse_parse [of grsp] server_index_good [OF assms(1)] assms(2-5)
  by (simp add: deal_recv_route_def store_route_def GetRouteResponse_Parse_def)

text \<open>Request and answer over the network: the outcome for the client, the agent and the load balancer.\<close>

lemma exchange:
  assumes "api_ok lc" "good_module m c" "length buf = READ_BUF" "\<forall>r \<in> set stale. ghs_seq r < lc_seqid lc"
    and "serving (int (server_of m c)) us" "agent_ok env (ud_app us)" "ag_dns_queue (ud_app us) = Some q" "ae_sendto env = Some n"
  obtains request answer us' ret rsp rl' q' where
    "rl_get_host (ae_cfg env) (ae_now env) m c (empty_answer (next_request lc m c)) (ag_r_lb (ud_app us) ! server_of m c) q = Inr (ret, rsp, rl', q')"
    "udp_server_do_read (agent_run W env) [Dgram a request, Rc_err EAGAIN] us = Inr us'" "agent_ok env (ud_app us')"
    "serving (int (server_of m c)) us'" "ud_app us' = (put_r_lb (int (server_of m c)) rl' (ud_app us))\<lparr>ag_dns_queue := Some q'\<rparr>"
    "ud_sent us' = ud_sent us @ [(Some a, answer)]"
    "lc_get_host W True (map (\<lambda>r. Dgram b (frame (ID_GetHostResponse, GetHostResponse_Serialize W r))) stale @ [Dgram b answer]) buf m c out lc =
      Inr (ghs_retcode rsp,
           if ghs_retcode rsp = RET_SUCC then (inet_ntoa (pb_ip (pb_host (ghs_host rsp))), pb_port (pb_host (ghs_host rsp))) else out,
           lc\<lparr>lc_seqid := lc_seqid lc + 1, lc_sent := lc_sent lc @ [(lc_sockfd lc ! server_of m c, request)]\<rparr>)"
proof -
  let ?i = "int (server_of m c)" and ?req = "next_request lc m c"
  have i: "0 \<le> ?i" "?i < 3" by simp_all
  obtain ret rsp rl' q' us' where g: "rl_get_host (ae_cfg env) (ae_now env) (ghq_modid ?req) (ghq_cmdid ?req) (empty_answer ?req) (ag_r_lb (ud_app us) ! nat ?i) q =
        Inr (ret, rsp, rl', q')"
      "ghs_seq rsp = ghq_seq ?req" "ghs_modid rsp = ghq_modid ?req" "ghs_cmdid rsp = ghq_cmdid ?req" "rl_inv (ae_cfg env) rl'"
      "udp_server_do_read (agent_run W env) [Dgram a (frame (ID_GetHostRequest, GetHostRequest_Serialize W ?req)), Rc_err EAGAIN] us = Inr us'"
      "serving ?i us'" "ud_app us' = (put_r_lb ?i rl' (ud_app us))\<lparr>ag_dns_queue := Some q'\<rparr>"
      "ud_sent us' = ud_sent us @ [(Some a, frame (ID_GetHostResponse, GetHostResponse_Serialize W rsp))]"
    by (rule agent_answers [OF assms(5-7) i assms(8)])
  have ids: "ghs_seq rsp = lc_seqid lc" "ghs_modid rsp = m" "ghs_cmdid rsp = c" using g(2-4) by simp_all
  have ok: "agent_ok env (ud_app us')" unfolding g(8) by (rule agent_ok_put(2) [OF assms(6) g(5)])
  show thesis
    by (rule that [OF _ g(6) ok g(7-9)])
      (use g(1) get_host_answer [OF assms(1-4) ids, of b "[]" out] in \<open>simp_all add: next_request_def\<close>)
qed

end

text \<open>
  C5 [host_request_end_to_end]. The request of \<open>get_host\<close>, received by the agent server that is responsible for the module, is answered with exactly one
  datagram to the sender; when the client receives it, behind any number of late answers to earlier requests, \<open>get_host\<close> returns the code and the
  address of the host that the module's load balancer chose.
\<close>

theorem host_request_end_to_end:
  assumes "wire_ok W" "api_ok lc" "good_module m c" "length buf = READ_BUF" "\<forall>r \<in> set stale. ghs_seq r < lc_seqid lc"
    and "serving (int (server_of m c)) us" "agent_ok env (ud_app us)" "ag_dns_queue (ud_app us) = Some q" "ae_sendto env = Some n"
  shows "\<exists>request answer lc' us' ret rsp rl' q'.
    rl_get_host (ae_cfg env) (ae_now env) m c (empty_answer (next_request lc m c)) (ag_r_lb (ud_app us) ! server_of m c) q = Inr (ret, rsp, rl', q') \<and>
    udp_server_do_read (agent_run W env) [Dgram a request, Rc_err EAGAIN] us = Inr us' \<and> agent_ok env (ud_app us') \<and>
    ud_sent us' = ud_sent us @ [(Some a, answer)] \<and>
    lc_get_host W True (map (\<lambda>r. Dgram b (frame (ID_GetHostResponse, GetHostResponse_Serialize W r))) stale @ [Dgram b answer]) buf m c out lc =
      Inr (ghs_retcode rsp,
           if ghs_retcode rsp = RET_SUCC then (inet_ntoa (pb_ip (pb_host (ghs_host rsp))), pb_port (pb_host (ghs_host rsp))) else out, lc') \<and>
    lc_sent lc' = lc_sent lc @ [(lc_sockfd lc ! server_of m c, request)]"
proof -
  have w: "wire_format W" by (rule wire_format.intro [OF assms(1)])
  show ?thesis
    by (rule wire_format.exchange [OF w assms(2-9), of a b out]) (intro exI conjI, assumption+, simp)
qed

theorem host_request_end_to_end_witness:
  "\<exists>us l request answer lc' us'. agent_server_main 3 5 0 zero_buf 0 0 demo_agent = Inr (us, l) \<and>
     udp_server_do_read (agent_run base128 demo_env) [Dgram (7, 8) request, Rc_err EAGAIN] us = Inr us' \<and> ud_sent us' = [(Some (7, 8), answer)] \<and>
     lc_get_host base128 True [Dgram (7, 9) answer] (replicate READ_BUF 0) 1 2 ([], 0) demo_api = Inr (RET_NOEXIST, ([], 0), lc') \<and>
     lc_sent lc' = [(4, request)]"
proof -
  obtain us :: agent_server and l where m: "agent_server_main 3 5 0 zero_buf 0 0 demo_agent = Inr (us, l)" "serving 0 us" "ud_app us = demo_agent" "ud_sent us = []"
    by (rule main_server_starts)
  have i: "server_of 1 2 = 0" by (simp add: server_of_def)
  have us: "serving (int (server_of 1 2)) us" "agent_ok demo_env (ud_app us)" "ag_dns_queue (ud_app us) = Some demo_queue" "ae_sendto demo_env = Some 50"
    using m demo_agent_ready i by (simp_all add: agent_ready_def demo_agent_def demo_env_def)
  have b: "length (replicate READ_BUF (0 :: byte)) = READ_BUF" "\<forall>r \<in> set []. ghs_seq r < lc_seqid demo_api" by simp_all
  obtain request answer lc' us' ret rsp rl' q' where r:
      "rl_get_host (ae_cfg demo_env) (ae_now demo_env) 1 2 (empty_answer (next_request demo_api 1 2)) (ag_r_lb (ud_app us) ! server_of 1 2) demo_queue = Inr (ret, rsp, rl', q')"
      "udp_server_do_read (agent_run base128 demo_env) [Dgram (7, 8) request, Rc_err EAGAIN] us = Inr us'"
      "ud_sent us' = ud_sent us @ [(Some (7, 8), answer)]"
      "lc_get_host base128 True [Dgram (7, 9) answer] (replicate READ_BUF 0) 1 2 ([], 0) demo_api = Inr (ghs_retcode rsp,
           if ghs_retcode rsp = RET_SUCC then (inet_ntoa (pb_ip (pb_host (ghs_host rsp))), pb_port (pb_host (ghs_host rsp))) else ([], 0), lc')"
      "lc_sent lc' = lc_sent demo_api @ [(lc_sockfd demo_api ! server_of 1 2, request)]"
    using host_request_end_to_end [OF base128_ok demo_api_ok b us, of "(7, 8)" "(7, 9)" "([], 0)"] by (auto simp del: udp_server_do_read.simps)
  have "ghs_retcode rsp = RET_NOEXIST" using r(1) m(3) i by (auto simp: demo_agent_def rl_get_host_def route_lb_new_def lb_pull_def)
  then show ?thesis using m r i ret_distinct by (auto simp: demo_api_def simp del: udp_server_do_read.simps)
qed

section \<open>The way of a route\<close>

text \<open>The agent's part: the request that fails, the stored answer, the request that succeeds.\<close>

lemma learned_route:
  assumes "wire_ok W" "api_ok lc" "good_module m c" "length buf = READ_BUF" "length buf' = READ_BUF"
    and "serving (int (server_of m c)) us" "agent_ok env (ud_app us)" "ag_dns_queue (ud_app us) = Some q"
    and "map_of (rl_map (ag_r_lb (ud_app us) ! server_of m c)) (mk_key m c) = None"
    and "ae_cfg env' = ae_cfg env" "ae_cfg env'' = ae_cfg env" "ae_sendto env = Some n" "ae_sendto env'' = Some n'"
    and "grs_modid grsp = m" "grs_cmdid grsp = c" "grs_host grsp = h # hs"
  shows "\<exists>request answer us1 lc1 cl' request' answer' us2 lc2.
    udp_server_do_read (agent_run W env) [Dgram a request, Rc_err EAGAIN] us = Inr us1 \<and> ud_sent us1 = ud_sent us @ [(Some a, answer)] \<and>
    lc_get_host W True [Dgram b answer] buf m c out lc = Inr (RET_NOEXIST, out, lc1) \<and> lc_sent lc1 = lc_sent lc @ [(lc_sockfd lc ! server_of m c, request)] \<and>
    ag_dns_queue (ud_app us1) = Some (tq_send \<lparr>grq_modid = m, grq_cmdid = c\<rparr> q) \<and>
    deal_recv_route W env' (Some (GetRouteResponse_Serialize W grsp)) (cl\<lparr>cl_app := ud_app us1\<rparr>) = Inr cl' \<and>
    udp_server_do_read (agent_run W env'') [Dgram a request', Rc_err EAGAIN] (us1\<lparr>ud_app := cl_app cl'\<rparr>) = Inr us2 \<and>
    ud_sent us2 = ud_sent us1 @ [(Some a, answer')] \<and>
    lc_get_host W True [Dgram b answer'] buf' m c out lc1 = Inr (RET_SUCC, (inet_ntoa (pb_ip h), pb_port h), lc2) \<and>
    lc_sent lc2 = lc_sent lc1 @ [(lc_sockfd lc ! server_of m c, request')]"
proof -
  have w: "wire_format W" by (rule wire_format.intro [OF assms(1)])
  let ?s = "server_of m c" and ?q = "tq_send \<lparr>grq_modid = m, grq_cmdid = c\<rparr> q"
  have at: "r_lb_at (int ?s) (ud_app us) = Inr (ag_r_lb (ud_app us) ! ?s)" "rl_inv (ae_cfg env) (ag_r_lb (ud_app us) ! ?s)"
    using agent_ok_at [OF assms(7), of "int ?s"] by simp_all
  obtain request answer us1 ret rsp rl1 q1 lc1 where e1:
      "rl_get_host (ae_cfg env) (ae_now env) m c (empty_answer (next_request lc m c)) (ag_r_lb (ud_app us) ! ?s) q = Inr (ret, rsp, rl1, q1)"
      "udp_server_do_read (agent_run W env) [Dgram a request, Rc_err EAGAIN] us = Inr us1" "agent_ok env (ud_app us1)" "serving (int ?s) us1"
      "ud_app us1 = (put_r_lb (int ?s) rl1 (ud_app us))\<lparr>ag_dns_queue := Some q1\<rparr>" "ud_sent us1 = ud_sent us @ [(Some a, answer)]"
      "lc_get_host W True [Dgram b answer] buf m c out lc = Inr (ghs_retcode rsp,
           if ghs_retcode rsp = RET_SUCC then (inet_ntoa (pb_ip (pb_host (ghs_host rsp))), pb_port (pb_host (ghs_host rsp))) else out, lc1)"
      "lc1 = lc\<lparr>lc_seqid := lc_seqid lc + 1, lc_sent := lc_sent lc @ [(lc_sockfd lc ! ?s, request)]\<rparr>"
    by (rule wire_format.exchange [OF w assms(2-4) _ assms(6-8,12), where stale = "[]" and a = a and b = b and out = out]) simp_all
  obtain rsp1 rl1' rl2 rsp3 rl3 q3 where l:
      "rl_get_host (ae_cfg env) (ae_now env) m c (empty_answer (next_request lc m c)) (ag_r_lb (ud_app us) ! ?s) q = Inr (RET_NOEXIST, rsp1, rl1', ?q)"
      "ghs_retcode rsp1 = RET_NOEXIST" "update_host (ae_cfg env) (ae_time env') (ae_ts env') m c grsp rl1' = Inr (0, rl2)"
      "rl_get_host (ae_cfg env) (ae_now env'') m c (empty_answer (next_request lc1 m c)) rl2 ?q = Inr (RET_SUCC, rsp3, rl3, q3)"
      "ghs_retcode rsp3 = RET_SUCC" "ghs_host rsp3 = Some h" "rl_inv (ae_cfg env) rl2"
    using first_route_offered [OF at(2) assms(9,16), of "ae_now env" "empty_answer (next_request lc m c)" q "ae_time env'" "ae_ts env'" "ae_now env''"
        "empty_answer (next_request lc1 m c)" ?q] by blast
  have same: "rsp = rsp1" "rl1' = rl1" "q1 = ?q" using e1(1) l(1) by simp_all
  have "length (ag_r_lb (ud_app us)) = 3" using assms(7) by (simp add: agent_ok_def)
  then have rl: "r_lb_at (int ?s) (ud_app us1) = Inr rl1" "put_r_lb (int ?s) rl2 (ud_app us1) = (put_r_lb (int ?s) rl2 (ud_app us))\<lparr>ag_dns_queue := Some ?q\<rparr>"
    by (simp_all add: e1(5) same(3) r_lb_at_def put_r_lb_def)
  let ?ag = "put_r_lb (int ?s) rl2 (ud_app us1)"
  let ?cl' = "cl\<lparr>cl_app := ?ag\<rparr>"
  have stored: "deal_recv_route W env' (Some (GetRouteResponse_Serialize W grsp)) (cl\<lparr>cl_app := ud_app us1\<rparr>) = Inr ?cl'"
    using wire_format.route_stored [OF w assms(3,14,15), of "cl\<lparr>cl_app := ud_app us1\<rparr>" rl1 env' rl2] rl(1) l(3) same(2) assms(10) by simp
  let ?us = "us1\<lparr>ud_app := ?ag\<rparr>"
  have "agent_ok env'' ?ag" using agent_ok_put(1) [OF e1(3) l(7), of "int ?s"] assms(11) by (simp add: agent_ok_def)
  then have u: "serving (int ?s) ?us" "agent_ok env'' (ud_app ?us)" "ag_dns_queue (ud_app ?us) = Some ?q" using e1(4) by (simp_all add: rl(2))
  have t: "ag_r_lb (ud_app ?us) ! ?s = rl2" using e1(3) by (simp add: agent_ok_def put_r_lb_def)
  have lc1: "api_ok lc1" "lc_sockfd lc1 = lc_sockfd lc" using assms(2) e1(8) by (simp_all add: api_ok_def)
  obtain request' answer' us2 ret' rsp' rl' q' lc2 where e2:
      "rl_get_host (ae_cfg env'') (ae_now env'') m c (empty_answer (next_request lc1 m c)) (ag_r_lb (ud_app ?us) ! ?s) ?q = Inr (ret', rsp', rl', q')"
      "udp_server_do_read (agent_run W env'') [Dgram a request', Rc_err EAGAIN] ?us = Inr us2" "ud_sent us2 = ud_sent ?us @ [(Some a, answer')]"
      "lc_get_host W True [Dgram b answer'] buf' m c out lc1 = Inr (ghs_retcode rsp',
           if ghs_retcode rsp' = RET_SUCC then (inet_ntoa (pb_ip (pb_host (ghs_host rsp'))), pb_port (pb_host (ghs_host rsp'))) else out, lc2)"
      "lc2 = lc1\<lparr>lc_seqid := lc_seqid lc1 + 1, lc_sent := lc_sent lc1 @ [(lc_sockfd lc1 ! ?s, request')]\<rparr>"
    by (rule wire_format.exchange [OF w lc1(1) assms(3,5) _ u assms(13), where stale = "[]" and a = a and b = b and out = out]) simp_all
  have r': "rsp' = rsp3" using e2(1) l(4) assms(11) unfolding t by simp
  have q: "ag_dns_queue (ud_app us1) = Some ?q" by (simp add: e1(5) same(3))
  have o1: "lc_get_host W True [Dgram b answer] buf m c out lc = Inr (RET_NOEXIST, out, lc1)" "lc_sent lc1 = lc_sent lc @ [(lc_sockfd lc ! ?s, request)]"
    using e1(7,8) l(2) same(1) ret_distinct by simp_all
  have o2: "lc_get_host W True [Dgram b answer'] buf' m c out lc1 = Inr (RET_SUCC, (inet_ntoa (pb_ip h), pb_port h), lc2)"
      "lc_sent lc2 = lc_sent lc1 @ [(lc_sockfd lc ! ?s, request')]"
    using e2(4,5) l(5,6) lc1(2) by (simp_all add: r' pb_host_def)
  have "cl_app ?cl' = ?ag" "ud_sent ?us = ud_sent us1" by simp_all
  then show ?thesis using e1(2,6) o1 q stored e2(2,3) o2 by metis
qed

text \<open>
  C6 [route_learned_end_to_end]. The first request of a client for a module its agent does not know is answered with \<open>RET_NOEXIST\<close> and puts one request for the
  route service into the queue; the route service answers the serialised request with the hosts of its table; once the client thread of the agent has received this
  answer, with at least one host, the next request of the client succeeds with the address of the first of these hosts.
\<close>

theorem route_learned_end_to_end:
  assumes "wire_ok W" "api_ok lc" "good_module m c" "length buf = READ_BUF" "length buf' = READ_BUF"
    and "serving (int (server_of m c)) us" "agent_ok env (ud_app us)" "ag_dns_queue (ud_app us) = Some q"
    and "map_of (rl_map (ag_r_lb (ud_app us) ! server_of m c)) (mk_key m c) = None"
    and "ae_cfg env' = ae_cfg env" "ae_cfg env'' = ae_cfg env" "ae_sendto env = Some n" "ae_sendto env'' = Some n'"
    and "get_hosts m c rt = k # ks"
  shows "\<exists>request answer us1 lc1 req dconn' sl' rbody cl' request' answer' us2 lc2.
    udp_server_do_read (agent_run W env) [Dgram a request, Rc_err EAGAIN] us = Inr us1 \<and> ud_sent us1 = ud_sent us @ [(Some a, answer)] \<and>
    lc_get_host W True [Dgram b answer] buf m c out lc = Inr (RET_NOEXIST, out, lc1) \<and> lc_sent lc1 = lc_sent lc @ [(lc_sockfd lc ! server_of m c, request)] \<and>
    ag_dns_queue (ud_app us1) = Some (tq_send req q) \<and>
    get_route (\<lambda>data. snd (GetRouteRequest_Parse W data)) (GetRouteResponse_Serialize W) (GetRouteRequest_Serialize W req) rt dconn sl =
      (dconn', sl', rbody, ID_GetRouteResponse) \<and>
    deal_recv_route W env' (Some rbody) (cl\<lparr>cl_app := ud_app us1\<rparr>) = Inr cl' \<and>
    udp_server_do_read (agent_run W env'') [Dgram a request', Rc_err EAGAIN] (us1\<lparr>ud_app := cl_app cl'\<rparr>) = Inr us2 \<and>
    ud_sent us2 = ud_sent us1 @ [(Some a, answer')] \<and>
    lc_get_host W True [Dgram b answer'] buf' m c out lc1 = Inr (RET_SUCC, (inet_ntoa (key_hi k), key_lo k), lc2) \<and>
    lc_sent lc2 = lc_sent lc1 @ [(lc_sockfd lc ! server_of m c, request')]"
proof -
  have w: "wire_format W" by (rule wire_format.intro [OF assms(1)])
  let ?req = "\<lparr>grq_modid = m, grq_cmdid = c\<rparr>" and ?rsp = "route_response m c rt" and ?h = "\<lparr>pb_ip = key_hi k, pb_port = key_lo k\<rparr>"
  have rsp: "grs_modid ?rsp = m" "grs_cmdid ?rsp = c" "grs_host ?rsp = ?h # map (\<lambda>k. \<lparr>pb_ip = key_hi k, pb_port = key_lo k\<rparr>) ks"
    using assms(14) by (simp_all add: route_response_def)
  have "snd (GetRouteRequest_Parse W (GetRouteRequest_Serialize W ?req)) = ?req"
    using wire_format.GetRouteRequest_parse [OF w, of ?req] by (simp add: GetRouteRequest_Parse_def)
  then obtain dconn' sl' where dns: "get_route (\<lambda>data. snd (GetRouteRequest_Parse W data)) (GetRouteResponse_Serialize W) (GetRouteRequest_Serialize W ?req) rt dconn sl =
      (dconn', sl', GetRouteResponse_Serialize W ?rsp, ID_GetRouteResponse)"
    by (simp add: get_route_def Let_def case_prod_beta)
  note run = learned_route [OF assms(1-13) rsp, of a b out cl, unfolded HostInfo.simps]
  then show ?thesis using dns by blast
qed

definition demo_table :: Route where
  "demo_table = \<lparr>rt_data = [mk_key 1 2 \<mapsto> [mk_key 100 80, mk_key 101 81]], rt_temp = Map.empty, rt_version = 4\<rparr>"

theorem route_learned_end_to_end_witness:
  "\<exists>us l request answer us1 lc1 req dconn' sl' rbody cl' request' answer' us2 lc2. agent_server_main 3 5 0 zero_buf 0 0 demo_agent = Inr (us, l) \<and>
     udp_server_do_read (agent_run base128 demo_env) [Dgram (7, 8) request, Rc_err EAGAIN] us = Inr us1 \<and> ud_sent us1 = ud_sent us @ [(Some (7, 8), answer)] \<and>
     lc_get_host base128 True [Dgram (7, 9) answer] (replicate READ_BUF 0) 1 2 ([], 0) demo_api = Inr (RET_NOEXIST, ([], 0), lc1) \<and>
     get_route (\<lambda>data. snd (GetRouteRequest_Parse base128 data)) (GetRouteResponse_Serialize base128) (GetRouteRequest_Serialize base128 req) demo_table
       \<lparr>dc_fd = 9, dc_param = Some []\<rparr> SubscribeList_new = (dconn', sl', rbody, ID_GetRouteResponse) \<and>
     deal_recv_route base128 demo_env (Some rbody) (demo_dns_client\<lparr>cl_app := ud_app us1\<rparr>) = Inr cl' \<and>
     udp_server_do_read (agent_run base128 demo_env) [Dgram (7, 8) request', Rc_err EAGAIN] (us1\<lparr>ud_app := cl_app cl'\<rparr>) = Inr us2 \<and>
     ud_sent us2 = ud_sent us1 @ [(Some (7, 8), answer')] \<and>
     lc_get_host base128 True [Dgram (7, 9) answer'] (replicate READ_BUF 0) 1 2 ([], 0) lc1 = Inr (RET_SUCC, (inet_ntoa (key_hi (mk_key 100 80)), key_lo (mk_key 100 80)), lc2)"
proof -
  obtain us :: agent_server and l where m: "agent_server_main 3 5 0 zero_buf 0 0 demo_agent = Inr (us, l)" "serving 0 us" "ud_app us = demo_agent"
    by (rule main_server_starts)
  have i: "server_of 1 2 = 0" by (simp add: server_of_def)
  have us: "serving (int (server_of 1 2)) us" "agent_ok demo_env (ud_app us)" "ag_dns_queue (ud_app us) = Some demo_queue" "ae_sendto demo_env = Some 50"
      "map_of (rl_map (ag_r_lb (ud_app us) ! server_of 1 2)) (mk_key 1 2) = None"
    using m demo_agent_ready i by (simp_all add: agent_ready_def demo_agent_def demo_env_def route_lb_new_def)
  have b: "length (replicate READ_BUF (0 :: byte)) = READ_BUF" by simp
  have g: "get_hosts 1 2 demo_table = mk_key 100 80 # [mk_key 101 81]" by (simp add: get_hosts_def demo_table_def)
  note run = route_learned_end_to_end [OF base128_ok demo_api_ok b b us(1-3,5) refl refl us(4) us(4) g, of "(7, 8)" "(7, 9)" "([], 0)"
      "\<lparr>dc_fd = 9, dc_param = Some []\<rparr>" SubscribeList_new demo_dns_client]
  show ?thesis
    by (rule exI [of _ us], rule exI [of _ l]) (use run m(1) in blast)
qed

text \<open>
  C15 [report_end_to_end]. A client that reports the result of a call with the address strings that \<open>get_host\<close> gave it names exactly that host: the report is sent to
  the agent server of the module, whose load balancer counts the result for this host and puts the summary of the module into the report queue.
\<close>

theorem report_end_to_end:
  assumes "wire_ok W" "api_ok lc" "good_module m c"
    and "serving (int (server_of m c)) us" "agent_ok env (ud_app us)" "ag_report_queue (ud_app us) = Some rq"
  shows "\<exists>request us' rl' rq'.
    lc_report W True m c (inet_ntoa (pb_ip h)) (pb_port h) retcode lc = Inr (lc\<lparr>lc_sent := lc_sent lc @ [(lc_sockfd lc ! server_of m c, request)]\<rparr>) \<and>
    udp_server_do_read (agent_run W env) [Dgram a request, Rc_err EAGAIN] us = Inr us' \<and>
    report_host (ae_cfg env) (ae_time env) (ae_now env) (ae_commit_time env) \<lparr>rpq_modid = m, rpq_cmdid = c, rpq_host = Some h, rpq_retcode = retcode\<rparr>
      (ag_r_lb (ud_app us) ! server_of m c) rq = Inr (rl', rq') \<and>
    ud_app us' = (put_r_lb (int (server_of m c)) rl' (ud_app us))\<lparr>ag_report_queue := Some rq'\<rparr> \<and> agent_ok env (ud_app us') \<and> ud_sent us' = ud_sent us"
proof -
  have w: "wire_format W" by (rule wire_format.intro [OF assms(1)])
  let ?s = "server_of m c" and ?req = "\<lparr>rpq_modid = m, rpq_cmdid = c, rpq_host = Some h, rpq_retcode = retcode\<rparr>"
  let ?body = "ReportRequest_Serialize W ?req"
  have at: "r_lb_at (int ?s) (ud_app us) = Inr (ag_r_lb (ud_app us) ! ?s)" "rl_inv (ae_cfg env) (ag_r_lb (ud_app us) ! ?s)"
    using agent_ok_at [OF assms(5), of "int ?s"] by simp_all
  obtain rl' rq' where r: "report_host (ae_cfg env) (ae_time env) (ae_now env) (ae_commit_time env) ?req (ag_r_lb (ud_app us) ! ?s) rq = Inr (rl', rq')"
      "rl_inv (ae_cfg env) rl'"
    using report_host_inv [OF at(2)] by blast
  have "8 + length ?body \<le> nat MESSAGE_LENGTH_LIMIT"
    using wire_format.ReportRequest_bound [OF w, of ?req] by (simp add: wire_format.ReportRequest_size [OF w] MESSAGE_LENGTH_LIMIT_def MESSAGE_HEAD_LEN_def)
  then obtain buf where d: "udp_server_do_read (agent_run W env) [Dgram a (frame (ID_ReportRequest, ?body)), Rc_err EAGAIN] us =
      report_cb W env ?body (int ?s) (us\<lparr>ud_read_buf := buf, ud_client_addr := a\<rparr>)"
    using do_read_one [OF assms(4), of ID_ReportRequest Report_Cb ?body "agent_run W env" a] by (auto simp: agent_run_def)
  let ?ag = "(put_r_lb (int ?s) rl' (ud_app us))\<lparr>ag_report_queue := Some rq'\<rparr>"
  have cb: "report_cb W env ?body (int ?s) (us\<lparr>ud_read_buf := buf, ud_client_addr := a\<rparr>) = Inr (us\<lparr>ud_read_buf := buf, ud_client_addr := a, ud_app := ?ag\<rparr>)"
    using r(1) at(1) assms(6) wire_format.ReportRequest_parse [OF w, of ?req] by (simp add: report_cb_def ReportRequest_Parse_def via_queue_def Let_def)
  show ?thesis
    by (intro exI conjI, rule wire_format.report_sends [OF w assms(2,3)], rule d [unfolded cb], rule r(1))
      (simp_all add: agent_ok_put(3) [OF assms(5) r(2)])
qed

theorem report_end_to_end_witness:
  "\<exists>us l request us' rl' rq'. agent_server_main 3 5 0 zero_buf 0 0 demo_agent = Inr (us, l) \<and>
     lc_report base128 True 1 2 (inet_ntoa 100) 80 RET_SUCC demo_api = Inr (demo_api\<lparr>lc_sent := [(4, request)]\<rparr>) \<and>
     udp_server_do_read (agent_run base128 demo_env) [Dgram (7, 8) request, Rc_err EAGAIN] us = Inr us' \<and>
     ud_app us' = (put_r_lb 0 rl' demo_agent)\<lparr>ag_report_queue := Some rq'\<rparr>"
proof -
  obtain us :: agent_server and l where m: "agent_server_main 3 5 0 zero_buf 0 0 demo_agent = Inr (us, l)" "serving 0 us" "ud_app us = demo_agent"
    by (rule main_server_starts)
  have i: "server_of 1 2 = 0" "lc_sockfd demo_api ! 0 = 4" "lc_sent demo_api = []" by (simp_all add: server_of_def demo_api_def)
  have us: "serving (int (server_of 1 2)) us" "agent_ok demo_env (ud_app us)" "ag_report_queue (ud_app us) = Some demo_queue"
    using m demo_agent_ready i by (simp_all add: agent_ready_def demo_agent_def)
  obtain request us' rl' rq' where
      "lc_report base128 True 1 2 (inet_ntoa 100) 80 RET_SUCC demo_api = Inr (demo_api\<lparr>lc_sent := lc_sent demo_api @ [(lc_sockfd demo_api ! server_of 1 2, request)]\<rparr>)"
      "udp_server_do_read (agent_run base128 demo_env) [Dgram (7, 8) request, Rc_err EAGAIN] us = Inr us'"
      "ud_app us' = (put_r_lb (int (server_of 1 2)) rl' (ud_app us))\<lparr>ag_report_queue := Some rq'\<rparr>"
    using report_end_to_end [OF base128_ok demo_api_ok us, of "\<lparr>pb_ip = 100, pb_port = 80\<rparr>" RET_SUCC "(7, 8)", unfolded HostInfo.simps] by blast
  then show ?thesis using m(1,3) i by (simp del: udp_server_do_read.simps) blast
qed

end
